(* ===== verification/Prelude.thy ===== *)
theory Prelude
  imports "HOL-Library.Word"
begin

unbundle bit_operations_syntax

text \<open>
  Shared vocabulary of the development: machine types, the counted loop, error codes of
  src/kernel/inc/error.h, and the generic lemmas on words and function updates that the
  component theories use.
\<close>

section \<open>Machine types\<close>

type_synonym u8 = "8 word"
type_synonym u32 = "32 word"
type_synonym u64 = "64 word"

section \<open>Collections of facts\<close>

named_theorems loop_simps \<open>closed forms of counted loops\<close>
named_theorems bit_simps \<open>bit-level reading of masks and shifts\<close>
named_theorems wf_intros \<open>preservation of component invariants\<close>

section \<open>Error codes (src/kernel/inc/error.h)\<close>

text \<open>
  The code returns \<open>NO_ERR\<close>, the negated code \<open>-X_ERR\<close>, or (in a few places) the code
  itself without the sign; the three are different values of \<open>ret\<close>. \<open>RetMinusOne\<close> is the
  literal \<open>-1\<close> some functions return.
\<close>

datatype errcode =
    IO_ERR | METADATA_ERR | NO_DATABLK_ERR | NO_INODE_ERR | PARAM_ERR | FILE_PARAM_ERR
  | NULL_PTR_ERR | INODE_LAST_ERR | LIST_BROKEN_ERR | FILE_SIZE_ERR | USER_APP_MAX_ERR
  | ERR_ITAB_FULL | FRAMEPOOL_FREE_ERR | EINVAL

datatype ret = NO_ERR | Neg errcode | Pos errcode | RetMinusOne

section \<open>The counted loop\<close>

text \<open>\<open>for_upto n f s\<close> is \<open>for (i = 0; i < n; i++) s = f i s;\<close>\<close>

primrec for_upto :: "nat \<Rightarrow> (nat \<Rightarrow> 's \<Rightarrow> 's) \<Rightarrow> 's \<Rightarrow> 's" where
  "for_upto 0 f s = s"
| "for_upto (Suc n) f s = f n (for_upto n f s)"

lemma for_upto_invariant:
  assumes "P 0 s" and "\<And>i s. i < n \<Longrightarrow> P i s \<Longrightarrow> P (Suc i) (f i s)"
  shows "P n (for_upto n f s)"
  using assms by (induction n) auto

lemma for_upto_cong:
  assumes "\<And>i s. i < n \<Longrightarrow> f i s = g i s"
  shows "for_upto n f s = for_upto n g s"
  using assms by (induction n) auto

text \<open>A nested pair of counted loops over \<open>i * m + j\<close> is one loop over the product.\<close>

lemma for_upto_add:
  "for_upto (k + m) f s = for_upto m (\<lambda>j. f (k + j)) (for_upto k f s)"
  by (induction m) auto

lemma for_upto_nested [loop_simps]:
  "for_upto n (\<lambda>i s. for_upto m (\<lambda>j. f (i * m + j)) s) s = for_upto (n * m) f s"
proof (induction n)
  case (Suc n)
  have "for_upto (Suc n * m) f s = for_upto (n * m + m) f s"
    by (simp add: add.commute)
  also have "\<dots> = for_upto m (\<lambda>j. f (n * m + j)) (for_upto (n * m) f s)"
    by (rule for_upto_add)
  finally show ?case using Suc by simp
qed simp

text \<open>Storing one value per index, at indices given by an injective address function.\<close>

lemma for_upto_store:
  assumes "inj_on a {..<n}"
  shows "for_upto n (\<lambda>i m. m(a i := v i)) m x
         = (if x \<in> a ` {..<n} then v (the_inv_into {..<n} a x) else m x)"
  using assms
proof (induction n)
  case (Suc n)
  have inj: "inj_on a {..<n}"
    using Suc.prems by (auto intro: inj_on_subset)
  show ?case
  proof (cases "x = a n")
    case True
    have "the_inv_into {..<Suc n} a (a n) = n"
      using Suc.prems by (intro the_inv_into_f_f) auto
    then show ?thesis using True by simp
  next
    case False
    have eq: "the_inv_into {..<Suc n} a x = the_inv_into {..<n} a x" if "x \<in> a ` {..<n}"
    proof -
      from that obtain i where i: "i < n" "x = a i" by auto
      then show ?thesis
        using the_inv_into_f_f [OF inj, of i] the_inv_into_f_f [OF Suc.prems, of i] by simp
    qed
    have mem: "x \<in> a ` {..<Suc n} \<longleftrightarrow> x \<in> a ` {..<n}"
      using False by (auto simp: lessThan_Suc)
    have "for_upto (Suc n) (\<lambda>i m. m(a i := v i)) m x = for_upto n (\<lambda>i m. m(a i := v i)) m x"
      using False by simp
    also have "\<dots> = (if x \<in> a ` {..<n} then v (the_inv_into {..<n} a x) else m x)"
      by (rule Suc.IH [OF inj])
    also have "\<dots> = (if x \<in> a ` {..<Suc n} then v (the_inv_into {..<Suc n} a x) else m x)"
      using eq mem by (cases "x \<in> a ` {..<n}") auto
    finally show ?thesis .
  qed
qed simp

lemma for_upto_store_at [loop_simps]:
  assumes "inj_on a {..<n}" and "i < n"
  shows "for_upto n (\<lambda>i m. m(a i := v i)) m (a i) = v i"
  using assms by (simp add: for_upto_store the_inv_into_f_f)

lemma for_upto_store_other [loop_simps]:
  assumes "\<And>i. i < n \<Longrightarrow> a i \<noteq> x"
  shows "for_upto n (\<lambda>i m. m(a i := v i)) m x = m x"
  using assms by (induction n) auto

lemma for_upto_store_id [loop_simps]:
  "for_upto n (\<lambda>i m. m(i := v i)) m x = (if x < n then v x else m x)"
  by (induction n) auto

section \<open>Bits\<close>

text \<open>The simplifier writes \<open>1 << j\<close>, that is \<open>push_bit j 1\<close>, as \<open>2 ^ j\<close>.\<close>

lemma and_exp_eq_0 [bit_simps]:
  fixes b :: "'a::len word"
  assumes "j < LENGTH('a)"
  shows "b AND 2 ^ j = 0 \<longleftrightarrow> \<not> bit b j"
proof
  assume "b AND 2 ^ j = 0"
  then have "\<not> bit (b AND 2 ^ j) j" by simp
  then show "\<not> bit b j" using assms by (simp add: bit_and_iff bit_exp_iff)
next
  assume "\<not> bit b j"
  then show "b AND 2 ^ j = 0"
    by (intro bit_word_eqI) (auto simp: bit_and_iff bit_exp_iff)
qed

lemma bit_or_exp [bit_simps]:
  fixes b :: "'a::len word"
  assumes "j < LENGTH('a)"
  shows "bit (b OR 2 ^ j) q \<longleftrightarrow> bit b q \<or> q = j"
  using assms by (auto simp: bit_or_iff bit_exp_iff)

lemma bit_and_not_exp [bit_simps]:
  fixes b :: "'a::len word"
  assumes "j < LENGTH('a)"
  shows "bit (b AND NOT (2 ^ j)) q \<longleftrightarrow> bit b q \<and> q \<noteq> j"
  using assms by (auto simp: bit_and_iff bit_not_iff bit_exp_iff dest: bit_imp_le_length)

lemma bit_FF_word8 [bit_simps]: "q < 8 \<Longrightarrow> bit (0xFF :: u8) q"
proof -
  assume "q < 8"
  then have "bit (mask 8 :: u8) q" by (simp add: bit_mask_iff)
  moreover have "(mask 8 :: u8) = 0xFF" by (simp add: mask_eq_exp_minus_1)
  ultimately show ?thesis by simp
qed

section \<open>Ranges of naturals\<close>

lemma all_range_step:
  "j < m \<Longrightarrow> (\<forall>q. j \<le> q \<and> q < m \<longrightarrow> P q) \<longleftrightarrow> P j \<and> (\<forall>q. Suc j \<le> q \<and> q < m \<longrightarrow> P q)"
  by (auto simp: Suc_le_eq) (metis le_neq_implies_less)

lemma flat_index_below:
  fixes k e r :: nat
  assumes "k < e * 8 + r" and "r < 8"
  shows "k div 8 < e \<or> k div 8 = e \<and> k mod 8 < r"
proof (cases "k div 8 < e")
  case False
  have k: "k = k div 8 * 8 + k mod 8" by simp
  with assms have "k div 8 \<le> e" by linarith
  with False have "k div 8 = e" by simp
  moreover from this k assms(1) have "k mod 8 < r" by linarith
  ultimately show ?thesis by simp
qed simp

lemma flat_index_unique:
  fixes i j :: nat
  assumes "j < m" and "j' < m"
  shows "i * m + j = i' * m + j' \<longleftrightarrow> i = i' \<and> j = j'"
proof
  assume eq: "i * m + j = i' * m + j'"
  have "i = (i * m + j) div m" and "j = (i * m + j) mod m"
    using assms by auto
  moreover have "i' = (i' * m + j') div m" and "j' = (i' * m + j') mod m"
    using assms by auto
  ultimately show "i = i' \<and> j = j'" using eq by metis
qed auto

end
