(* ===== verification/FramePool.thy ===== *)
theory FramePool
  imports Prelude
begin

unbundle bit_operations_syntax

text \<open>
  The page frame allocator of src/kernel/core/frame_pool.c. The state is \<open>struct framepool\<close>;
  \<open>bitmap k\<close> is the byte at \<open>pBitmap + k\<close>. A frame is allocated when its bit is set. The
  abstraction \<open>frames\<close> is the set of allocated frame indices relative to the base frame, and
  each operation is shown to be the corresponding set operation.
\<close>

section \<open>State and operations\<close>

record framepool =
  base_frame_idx :: u32
  nFrames :: u32
  inacc_baseFrameNo :: u32
  inacc_nFrames :: u32
  pBitmap :: u32
  bitmap :: "nat \<Rightarrow> u8"
  nBitmapEntry :: u32
  nRemainderBitmapEntry :: u32

text \<open>Constants of src/kernel/inc/mem_layout.h.\<close>

definition KERNEL_FRAME_BITMAP :: u32 where "KERNEL_FRAME_BITMAP = 0xC000"
definition KERN_FRAME_START :: u32 where "KERN_FRAME_START = 0"
definition KERN_FRAME_NUM :: u32 where "KERN_FRAME_NUM = (128 * 2 ^ 20) div (4 * 2 ^ 10)"
definition HEAP_FRAME_START :: u32 where "HEAP_FRAME_START = (64 * 2 ^ 20) div (4 * 2 ^ 10)"
definition HEAP_FRAME_NUM :: u32 where "HEAP_FRAME_NUM = (64 * 2 ^ 20) div (4 * 2 ^ 10)"
definition PREALLOC_FRAME_NUM :: u32 where "PREALLOC_FRAME_NUM = (64 * 2 ^ 20) div (4 * 2 ^ 10)"

definition FRAMETOPHYADDR :: "u32 \<Rightarrow> u32" where
  "FRAMETOPHYADDR x = x * 4 * (push_bit 10 1)"

definition init_framepool :: "framepool \<Rightarrow> u32 \<Rightarrow> u32 \<Rightarrow> u32 \<Rightarrow> framepool" where
  "init_framepool fp base num bitmap_frame_idx =
     (let cleared = fp\<lparr>base_frame_idx := base, nFrames := num,
            pBitmap := (if bitmap_frame_idx = 0 then KERNEL_FRAME_BITMAP
                        else FRAMETOPHYADDR bitmap_frame_idx),
            nBitmapEntry := num div 8, nRemainderBitmapEntry := num mod 8,
            bitmap := for_upto 4096 (\<lambda>i b. b(i := 0)) (bitmap fp)\<rparr>
      in if bitmap_frame_idx = 0 then
           (let q = unat (PREALLOC_FRAME_NUM div 8);
                r = unat (PREALLOC_FRAME_NUM mod 8);
                b1 = for_upto q (\<lambda>i b. b(i := 0xFF)) (bitmap cleared);
                prealloc_mask = for_upto r (\<lambda>j m. m OR push_bit j 1) (0 :: u8)
            in cleared\<lparr>bitmap := b1(q := b1 q OR prealloc_mask)\<rparr>)
         else cleared)"

text \<open>\<open>first_clear n j b\<close>: the first clear bit of \<open>b\<close> among the \<open>n\<close> bits from \<open>j\<close>.\<close>

primrec first_clear :: "nat \<Rightarrow> nat \<Rightarrow> u8 \<Rightarrow> nat option" where
  "first_clear 0 j b = None"
| "first_clear (Suc n) j b =
     (if b AND push_bit j 1 = 0 then Some j else first_clear n (Suc j) b)"

text \<open>The loop over whole bitmap bytes, from byte \<open>i\<close> with \<open>n\<close> bytes left.\<close>

primrec scan_entries :: "nat \<Rightarrow> nat \<Rightarrow> (nat \<Rightarrow> u8) \<Rightarrow> (nat \<times> nat) option" where
  "scan_entries 0 i b = None"
| "scan_entries (Suc n) i b =
     (if b i = 0xFF then scan_entries n (Suc i) b
      else case first_clear 8 0 (b i) of
             Some j \<Rightarrow> Some (i, j)
           | None \<Rightarrow> scan_entries n (Suc i) b)"

definition set_frame_bit :: "framepool \<Rightarrow> nat \<Rightarrow> nat \<Rightarrow> framepool" where
  "set_frame_bit fp i j =
     fp\<lparr>bitmap := (bitmap fp)(i := bitmap fp i OR push_bit j 1)\<rparr>"

definition get_frame :: "framepool \<Rightarrow> u32 \<times> framepool" where
  "get_frame fp =
     (case scan_entries (unat (nBitmapEntry fp)) 0 (bitmap fp) of
        Some (i, j) \<Rightarrow> (base_frame_idx fp + of_nat (i * 8 + j), set_frame_bit fp i j)
      | None \<Rightarrow>
          (let e = unat (nBitmapEntry fp)
           in case first_clear (unat (nRemainderBitmapEntry fp)) 0 (bitmap fp e) of
                Some i \<Rightarrow> (base_frame_idx fp + nBitmapEntry fp * 8 + of_nat i,
                           set_frame_bit fp e i)
              | None \<Rightarrow> (-1, fp)))"

definition mark_prealloc_frame :: "framepool \<Rightarrow> u32 \<Rightarrow> u32 \<Rightarrow> framepool" where
  "mark_prealloc_frame fp base n =
     (let s = unat (base div 8);
          q = unat (n div 8);
          b1 = for_upto q (\<lambda>i b. b(s + i := 0xFF)) (bitmap fp);
          r = unat (n mod 8);
          mask = for_upto r (\<lambda>k m. m OR push_bit (r - 1 - k) 1) (b1 (s + q))
      in fp\<lparr>inacc_baseFrameNo := base, inacc_nFrames := n,
            bitmap := (if r \<noteq> 0 then b1(s + q := mask) else b1)\<rparr>)"

definition release_frame :: "framepool \<Rightarrow> u32 \<Rightarrow> ret \<times> framepool" where
  "release_frame fp frame =
     (let entryOffset = unat ((frame - base_frame_idx fp) div 8);
          remainder = unat (frame mod 8)
      in if inacc_baseFrameNo fp \<le> frame \<and> frame < inacc_baseFrameNo fp + inacc_nFrames fp
         then (Pos FRAMEPOOL_FREE_ERR, fp)
         else if base_frame_idx fp + nFrames fp \<le> frame \<or> frame < base_frame_idx fp
         then (Pos FRAMEPOOL_FREE_ERR, fp)
         else (NO_ERR,
               fp\<lparr>bitmap := (bitmap fp)(entryOffset :=
                    bitmap fp entryOffset AND NOT (push_bit remainder 1))\<rparr>))"

section \<open>Abstraction and invariant\<close>

definition alloc_bit :: "framepool \<Rightarrow> nat \<Rightarrow> bool" where
  "alloc_bit fp k = bit (bitmap fp (k div 8)) (k mod 8)"

definition frames :: "framepool \<Rightarrow> nat set" where
  "frames fp = {k. k < unat (nFrames fp) \<and> alloc_bit fp k}"

definition framepool_wf :: "framepool \<Rightarrow> bool" where
  "framepool_wf fp \<longleftrightarrow>
     unat (nFrames fp) \<le> 4096 * 8
   \<and> nBitmapEntry fp = nFrames fp div 8
   \<and> nRemainderBitmapEntry fp = nFrames fp mod 8
   \<and> unat (base_frame_idx fp) + unat (nFrames fp) < 2 ^ 32
   \<and> base_frame_idx fp mod 8 = 0"

lemma in_frames: "k \<in> frames fp \<longleftrightarrow> k < unat (nFrames fp) \<and> alloc_bit fp k"
  by (simp add: frames_def)

section \<open>The scan\<close>

lemma first_clear_None:
  "j + n \<le> 8 \<Longrightarrow> first_clear n j b = None \<longleftrightarrow> (\<forall>q. j \<le> q \<and> q < j + n \<longrightarrow> bit b q)"
proof (induction n arbitrary: j)
  case (Suc n)
  then show ?case
    using all_range_step [of j "j + Suc n" "bit b"] by (simp add: and_exp_eq_0)
qed auto

lemma first_clear_Some:
  "j + n \<le> 8 \<Longrightarrow> first_clear n j b = Some r \<Longrightarrow>
     j \<le> r \<and> r < j + n \<and> \<not> bit b r \<and> (\<forall>q. j \<le> q \<and> q < r \<longrightarrow> bit b q)"
proof (induction n arbitrary: j)
  case (Suc n)
  show ?case
  proof (cases "bit b j")
    case True
    with Suc.prems have "first_clear n (Suc j) b = Some r"
      by (simp add: and_exp_eq_0)
    with Suc.IH [of "Suc j"] Suc.prems True show ?thesis
      using all_range_step [of j r "bit b"] by auto
  next
    case False
    with Suc.prems show ?thesis by (auto simp: and_exp_eq_0)
  qed
qed simp

definition entry_full :: "(nat \<Rightarrow> u8) \<Rightarrow> nat \<Rightarrow> bool" where
  "entry_full b i \<longleftrightarrow> (\<forall>q < 8. bit (b i) q)"

lemma scan_step:
  "(b i = 0xFF \<or> first_clear 8 0 (b i) = None) \<longleftrightarrow> entry_full b i"
  using first_clear_None [of 0 8 "b i"] bit_FF_word8
  by (auto simp: entry_full_def)

lemma scan_entries_None:
  "scan_entries n i b = None \<longleftrightarrow> (\<forall>k. i \<le> k \<and> k < i + n \<longrightarrow> entry_full b k)"
proof (induction n arbitrary: i)
  case (Suc n)
  then show ?case
    using scan_step [of b i] all_range_step [of i "i + Suc n" "entry_full b"]
    by (auto split: if_splits option.splits)
qed auto

lemma scan_entries_Some:
  "scan_entries n i b = Some (i', j) \<Longrightarrow>
     i \<le> i' \<and> i' < i + n \<and> j < 8 \<and> \<not> bit (b i') j
   \<and> (\<forall>q < j. bit (b i') q) \<and> (\<forall>k. i \<le> k \<and> k < i' \<longrightarrow> entry_full b k)"
proof (induction n arbitrary: i)
  case (Suc n)
  show ?case
  proof (cases "entry_full b i")
    case True
    with Suc.prems scan_step [of b i] have "scan_entries n (Suc i) b = Some (i', j)"
      by (auto split: if_splits option.splits)
    with Suc.IH [of "Suc i"] True show ?thesis
      using all_range_step [of i i' "entry_full b"] by auto
  next
    case False
    with scan_step [of b i] obtain j' where j': "b i \<noteq> 0xFF" "first_clear 8 0 (b i) = Some j'"
      by auto
    with Suc.prems have "i' = i" "j = j'" by auto
    with j' first_clear_Some [of 0 8 "b i" j] show ?thesis by auto
  qed
qed simp

section \<open>Correctness of the operations\<close>

lemma unat_add_below:
  "unat (b :: u32) + k < 2 ^ 32 \<Longrightarrow> unat (b + of_nat k) = unat b + k"
  by (simp add: unat_word_ariths unat_of_nat take_bit_eq_mod mod_add_right_eq)

lemma entry_full_alloc:
  "entry_full (bitmap fp) i \<longleftrightarrow> (\<forall>k. k div 8 = i \<longrightarrow> alloc_bit fp k)"
proof -
  have "alloc_bit fp (i * 8 + q)" if "\<forall>k. k div 8 = i \<longrightarrow> alloc_bit fp k" "q < 8" for q
    using that by simp
  then show ?thesis
    by (fastforce simp: entry_full_def alloc_bit_def)
qed

text \<open>\<open>find_free\<close> is the scan that \<open>get_frame\<close> makes, as a flat frame index.\<close>

definition find_free :: "framepool \<Rightarrow> nat option" where
  "find_free fp =
     (case scan_entries (unat (nBitmapEntry fp)) 0 (bitmap fp) of
        Some (i, j) \<Rightarrow> Some (i * 8 + j)
      | None \<Rightarrow> map_option (\<lambda>i. unat (nBitmapEntry fp) * 8 + i)
          (first_clear (unat (nRemainderBitmapEntry fp)) 0 (bitmap fp (unat (nBitmapEntry fp)))))"

lemma wf_counts:
  assumes "framepool_wf fp"
  shows "unat (nBitmapEntry fp) = unat (nFrames fp) div 8"
    and "unat (nRemainderBitmapEntry fp) = unat (nFrames fp) mod 8"
    and "unat (nRemainderBitmapEntry fp) \<le> 8"
  using assms by (auto simp: framepool_wf_def unat_div unat_mod)

lemma get_frame_find_free:
  assumes "framepool_wf fp"
  shows "get_frame fp =
     (case find_free fp of
        Some k \<Rightarrow> (base_frame_idx fp + of_nat k, set_frame_bit fp (k div 8) (k mod 8))
      | None \<Rightarrow> (-1, fp))"
proof (cases "scan_entries (unat (nBitmapEntry fp)) 0 (bitmap fp)")
  case None
  have "first_clear (unat (nRemainderBitmapEntry fp)) 0 b = Some i \<Longrightarrow> i < 8" for b i
    using first_clear_Some [of 0 "unat (nRemainderBitmapEntry fp)" b i] wf_counts(3) [OF assms]
    by linarith
  moreover have "of_nat (unat (nBitmapEntry fp) * 8 + i) = nBitmapEntry fp * 8 + of_nat i" for i
    by simp
  ultimately show ?thesis
    using None by (auto simp: get_frame_def find_free_def Let_def add.assoc split: option.splits)
next
  case (Some p)
  then obtain i j where "scan_entries (unat (nBitmapEntry fp)) 0 (bitmap fp) = Some (i, j)"
    by (cases p) auto
  moreover from this have "j < 8" using scan_entries_Some by blast
  ultimately show ?thesis by (simp add: get_frame_def find_free_def)
qed

lemma find_free_None:
  assumes "framepool_wf fp"
  shows "find_free fp = None \<longleftrightarrow> frames fp = {..<unat (nFrames fp)}"
proof -
  let ?n = "unat (nFrames fp)" and ?e = "unat (nBitmapEntry fp)"
  let ?r = "unat (nRemainderBitmapEntry fp)"
  have n: "?n = ?e * 8 + ?r" "?r < 8" using wf_counts [OF assms] by auto
  have "find_free fp = None \<longleftrightarrow>
      (\<forall>k < ?e. entry_full (bitmap fp) k) \<and> (\<forall>q < ?r. bit (bitmap fp ?e) q)"
    using scan_entries_None [of ?e 0 "bitmap fp"] first_clear_None [of 0 ?r "bitmap fp ?e"] n
    by (auto simp: find_free_def split: option.splits)
  also have "\<dots> \<longleftrightarrow> (\<forall>k < ?n. alloc_bit fp k)"
  proof
    assume L: "(\<forall>k < ?e. entry_full (bitmap fp) k) \<and> (\<forall>q < ?r. bit (bitmap fp ?e) q)"
    show "\<forall>k < ?n. alloc_bit fp k"
    proof (intro allI impI)
      fix k assume "k < ?n"
      then consider "k div 8 < ?e" | "k div 8 = ?e" "k mod 8 < ?r"
        using n flat_index_below [of k ?e ?r] by auto
      then show "alloc_bit fp k" using L by cases (auto simp: entry_full_alloc alloc_bit_def)
    qed
  next
    assume R: "\<forall>k < ?n. alloc_bit fp k"
    have "entry_full (bitmap fp) i" if "i < ?e" for i
      using that R n by (auto simp: entry_full_alloc)
    moreover have "bit (bitmap fp ?e) q" if "q < ?r" for q
      using R [rule_format, of "?e * 8 + q"] that n by (simp add: alloc_bit_def)
    ultimately show "(\<forall>k < ?e. entry_full (bitmap fp) k) \<and> (\<forall>q < ?r. bit (bitmap fp ?e) q)"
      by blast
  qed
  finally show ?thesis by (auto simp: frames_def)
qed

lemma find_free_Some:
  assumes "framepool_wf fp" and k: "find_free fp = Some k"
  shows "k < unat (nFrames fp)" and "\<not> alloc_bit fp k" and "\<forall>q < k. alloc_bit fp q"
proof -
  let ?n = "unat (nFrames fp)" and ?e = "unat (nBitmapEntry fp)"
  let ?r = "unat (nRemainderBitmapEntry fp)"
  have n: "?n = ?e * 8 + ?r" "?r < 8" using wf_counts [OF assms(1)] by auto
  have "\<exists>i j. k = i * 8 + j \<and> j < 8 \<and> i * 8 + j < ?n \<and> \<not> bit (bitmap fp i) j
      \<and> (\<forall>q < j. bit (bitmap fp i) q) \<and> (\<forall>l < i. entry_full (bitmap fp) l)"
  proof (cases "scan_entries ?e 0 (bitmap fp)")
    case None
    with k obtain j where "first_clear ?r 0 (bitmap fp ?e) = Some j" "k = ?e * 8 + j"
      by (auto simp: find_free_def)
    with None n first_clear_Some [of 0 ?r "bitmap fp ?e" j] scan_entries_None [of ?e 0 "bitmap fp"]
    show ?thesis by (intro exI [of _ ?e] exI [of _ j]) auto
  next
    case (Some p)
    then obtain i j where "scan_entries ?e 0 (bitmap fp) = Some (i, j)" "k = i * 8 + j"
      using k by (cases p) (auto simp: find_free_def)
    moreover from this have "i * 8 + j < ?n"
      using n scan_entries_Some [of ?e 0 "bitmap fp" i j] by simp
    ultimately show ?thesis
      using scan_entries_Some [of ?e 0 "bitmap fp" i j] by auto
  qed
  then obtain i j where ij: "k = i * 8 + j" "j < 8" "k < ?n" "\<not> bit (bitmap fp i) j"
    "\<forall>q < j. bit (bitmap fp i) q" "\<forall>l < i. entry_full (bitmap fp) l" by blast
  then show "k < ?n" and "\<not> alloc_bit fp k" by (auto simp: alloc_bit_def)
  show "\<forall>q < k. alloc_bit fp q"
  proof (intro allI impI)
    fix q assume "q < k"
    then consider "q div 8 < i" | "q div 8 = i" "q mod 8 < j"
      using ij flat_index_below [of q i j] by auto
    then show "alloc_bit fp q" using ij by cases (auto simp: entry_full_alloc alloc_bit_def)
  qed
qed

lemma alloc_bit_set_frame_bit:
  "alloc_bit (set_frame_bit fp (k div 8) (k mod 8)) q \<longleftrightarrow> alloc_bit fp q \<or> q = k"
proof -
  have "q div 8 = k div 8 \<and> q mod 8 = k mod 8 \<longleftrightarrow> q = k"
    by (metis div_mult_mod_eq)
  then show ?thesis
    by (auto simp: alloc_bit_def set_frame_bit_def bit_or_exp)
qed

lemma set_frame_bit_frames:
  "k < unat (nFrames fp) \<Longrightarrow> frames (set_frame_bit fp (k div 8) (k mod 8)) = insert k (frames fp)"
  by (auto simp: frames_def alloc_bit_set_frame_bit) (auto simp: set_frame_bit_def)

lemma set_frame_bit_wf [wf_intros]: "framepool_wf fp \<Longrightarrow> framepool_wf (set_frame_bit fp i j)"
  by (simp add: framepool_wf_def set_frame_bit_def)

lemma get_frame_cases:
  assumes "framepool_wf fp"
  obtains (full) "frames fp = {..<unat (nFrames fp)}" "get_frame fp = (-1, fp)"
  | (free) k where "k < unat (nFrames fp)" "k \<notin> frames fp" "\<forall>q < k. q \<in> frames fp"
      "get_frame fp = (base_frame_idx fp + of_nat k, set_frame_bit fp (k div 8) (k mod 8))"
proof (cases "find_free fp")
  case None
  then show ?thesis
    using full find_free_None [OF assms] get_frame_find_free [OF assms] by simp
next
  case (Some k)
  with find_free_Some [OF assms Some] get_frame_find_free [OF assms] show ?thesis
    by (intro free [of k]) (auto simp: in_frames)
qed

lemma release_frame_index:
  assumes wf: "framepool_wf fp" and f: "base_frame_idx fp \<le> f" "f < base_frame_idx fp + nFrames fp"
  shows "unat (f - base_frame_idx fp) < unat (nFrames fp)"
    and "unat ((f - base_frame_idx fp) div 8) = unat (f - base_frame_idx fp) div 8"
    and "unat (f mod 8) = unat (f - base_frame_idx fp) mod 8"
proof -
  let ?b = "base_frame_idx fp"
  have b8: "unat ?b mod 8 = 0"
    using wf unat_mod [of ?b 8] by (simp add: framepool_wf_def)
  have sub: "unat (f - ?b) = unat f - unat ?b" using f(1) by (rule unat_sub)
  have "unat (?b + nFrames fp) = unat ?b + unat (nFrames fp)"
    using wf by (simp add: framepool_wf_def unat_word_ariths)
  then show "unat (f - ?b) < unat (nFrames fp)"
    using f sub by (simp add: word_le_nat_alt word_less_nat_alt)
  show "unat ((f - ?b) div 8) = unat (f - ?b) div 8" by (simp add: unat_div)
  have le: "unat ?b \<le> unat f" using f(1) by (simp add: word_le_nat_alt)
  have "unat f mod 8 = (unat f - unat ?b) mod 8"
    using mod_add_left_eq [of "unat ?b" 8 "unat f - unat ?b"] b8 le by simp
  then show "unat (f mod 8) = unat (f - ?b) mod 8" by (simp add: unat_mod sub)
qed

section \<open>The allocator interface\<close>

text \<open>
  What the page fault handler relies on: allocation returns a number that was not in use and
  marks it, exhaustion is reported as \<open>-1\<close> and changes nothing, and freeing a number in use
  makes it available again. \<open>pinned\<close> are numbers the pool refuses to free.
\<close>

locale frame_allocator =
  fixes alloc :: "'s \<Rightarrow> u32 \<times> 's"
    and free :: "'s \<Rightarrow> u32 \<Rightarrow> ret \<times> 's"
    and used :: "'s \<Rightarrow> u32 set"
    and pool :: "'s \<Rightarrow> u32 set"
    and pinned :: "'s \<Rightarrow> u32 set"
    and inv :: "'s \<Rightarrow> bool"
  assumes used_pool: "inv s \<Longrightarrow> used s \<subseteq> pool s"
    and alloc_full: "inv s \<Longrightarrow> used s = pool s \<Longrightarrow> alloc s = (-1, s)"
    and alloc_fresh: "inv s \<Longrightarrow> used s \<noteq> pool s \<Longrightarrow> alloc s = (f, s') \<Longrightarrow>
          f \<in> pool s \<and> f \<notin> used s \<and> used s' = insert f (used s)
          \<and> pool s' = pool s \<and> pinned s' = pinned s \<and> inv s'"
    and free_used: "inv s \<Longrightarrow> f \<in> pool s \<Longrightarrow> f \<notin> pinned s \<Longrightarrow> free s f = (r, s') \<Longrightarrow>
          r = NO_ERR \<and> used s' = used s - {f} \<and> pool s' = pool s
          \<and> pinned s' = pinned s \<and> inv s'"
    and free_refused: "inv s \<Longrightarrow> f \<notin> pool s \<or> f \<in> pinned s \<Longrightarrow>
          free s f = (Pos FRAMEPOOL_FREE_ERR, s)"
begin

lemma alloc_inv: "inv s \<Longrightarrow> inv (snd (alloc s))"
  using alloc_full alloc_fresh by (metis prod.collapse snd_conv)

lemma alloc_then_free:
  assumes "inv s" and "used s \<noteq> pool s" and "alloc s = (f, s')" and "f \<notin> pinned s"
  shows "fst (free s' f) = NO_ERR \<and> used (snd (free s' f)) = used s"
proof -
  have f: "f \<in> pool s'" "f \<notin> used s" "used s' = insert f (used s)" "pinned s' = pinned s" "inv s'"
    using alloc_fresh [OF assms(1-3)] by auto
  with free_used [of s' f "fst (free s' f)" "snd (free s' f)"] assms(4) show ?thesis by auto
qed

end

text \<open>\<open>n\<close> allocations in a row.\<close>

primrec alloc_many :: "('s \<Rightarrow> u32 \<times> 's) \<Rightarrow> nat \<Rightarrow> 's \<Rightarrow> u32 list \<times> 's" where
  "alloc_many alloc 0 s = ([], s)"
| "alloc_many alloc (Suc n) s =
     (let (f, s1) = alloc s; (fs, s2) = alloc_many alloc n s1 in (f # fs, s2))"

context frame_allocator
begin

lemma alloc_many_distinct:
  assumes "inv s" and "finite (pool s)" and "card (used s) + n \<le> card (pool s)"
  shows "distinct (fst (alloc_many alloc n s)) \<and> set (fst (alloc_many alloc n s)) \<inter> used s = {}
       \<and> set (fst (alloc_many alloc n s)) \<subseteq> pool s
       \<and> used (snd (alloc_many alloc n s)) = used s \<union> set (fst (alloc_many alloc n s))"
  using assms
proof (induction n arbitrary: s)
  case (Suc n)
  obtain f s1 where a: "alloc s = (f, s1)" by (cases "alloc s")
  obtain fs s2 where m: "alloc_many alloc n s1 = (fs, s2)" by (cases "alloc_many alloc n s1")
  have ne: "used s \<noteq> pool s" using Suc.prems by auto
  note fr = alloc_fresh [OF Suc.prems(1) ne a]
  have "finite (used s)" using Suc.prems used_pool finite_subset by metis
  then have "card (used s1) + n \<le> card (pool s1)" using fr Suc.prems by auto
  with Suc.IH [of s1] fr Suc.prems a m show ?case by auto
qed simp

end

text \<open>The frame pool provides the interface.\<close>

definition frame_of :: "framepool \<Rightarrow> nat \<Rightarrow> u32" where
  "frame_of fp k = base_frame_idx fp + of_nat k"

definition fp_used :: "framepool \<Rightarrow> u32 set" where
  "fp_used fp = frame_of fp ` frames fp"

definition fp_pool :: "framepool \<Rightarrow> u32 set" where
  "fp_pool fp = frame_of fp ` {..<unat (nFrames fp)}"

definition fp_pinned :: "framepool \<Rightarrow> u32 set" where
  "fp_pinned fp = {f. inacc_baseFrameNo fp \<le> f \<and> f < inacc_baseFrameNo fp + inacc_nFrames fp}"

lemma unat_frame_of:
  "framepool_wf fp \<Longrightarrow> k < unat (nFrames fp) \<Longrightarrow> unat (frame_of fp k) = unat (base_frame_idx fp) + k"
  unfolding frame_of_def by (rule unat_add_below) (simp add: framepool_wf_def)

lemma frame_of_inj: "framepool_wf fp \<Longrightarrow> inj_on (frame_of fp) {..<unat (nFrames fp)}"
  by (rule inj_onI) (metis add_left_imp_eq lessThan_iff unat_frame_of)

lemma in_fp_pool:
  assumes "framepool_wf fp"
  shows "f \<in> fp_pool fp \<longleftrightarrow> base_frame_idx fp \<le> f \<and> f < base_frame_idx fp + nFrames fp"
proof
  let ?b = "base_frame_idx fp"
  have sum: "unat (?b + nFrames fp) = unat ?b + unat (nFrames fp)"
    using assms by (simp add: framepool_wf_def unat_word_ariths)
  {
    assume "f \<in> fp_pool fp"
    then obtain k where "k < unat (nFrames fp)" "f = ?b + of_nat k"
      by (auto simp: fp_pool_def frame_of_def)
    moreover from this have "unat f = unat ?b + k"
      using unat_frame_of [OF assms] by (simp add: frame_of_def)
    ultimately show "?b \<le> f \<and> f < ?b + nFrames fp"
      using sum by (simp add: word_le_nat_alt word_less_nat_alt)
  next
    assume "?b \<le> f \<and> f < ?b + nFrames fp"
    then have "unat (f - ?b) < unat (nFrames fp)" and "f = frame_of fp (unat (f - ?b))"
      using release_frame_index(1) [OF assms] by (auto simp: frame_of_def)
    then show "f \<in> fp_pool fp" by (auto simp: fp_pool_def)
  }
qed

lemma fp_used_full:
  "framepool_wf fp \<Longrightarrow> fp_used fp = fp_pool fp \<longleftrightarrow> frames fp = {..<unat (nFrames fp)}"
  unfolding fp_used_def fp_pool_def
  by (rule inj_on_image_eq_iff [OF frame_of_inj]) (auto simp: in_frames)

lemma set_frame_bit_interface:
  "nFrames (set_frame_bit fp i j) = nFrames fp"
  "fp_pool (set_frame_bit fp i j) = fp_pool fp" "fp_pinned (set_frame_bit fp i j) = fp_pinned fp"
  "frame_of (set_frame_bit fp i j) = frame_of fp"
  by (auto simp: set_frame_bit_def fp_pool_def fp_pinned_def frame_of_def fun_eq_iff)

lemma get_frame_fresh:
  assumes wf: "framepool_wf fp" and ne: "fp_used fp \<noteq> fp_pool fp" and get: "get_frame fp = (f, fp')"
  shows "f \<in> fp_pool fp \<and> f \<notin> fp_used fp \<and> fp_used fp' = insert f (fp_used fp)
       \<and> fp_pool fp' = fp_pool fp \<and> fp_pinned fp' = fp_pinned fp \<and> framepool_wf fp'"
  using wf
proof (cases rule: get_frame_cases)
  case full
  with ne wf show ?thesis by (simp add: fp_used_full)
next
  case (free k)
  then have f: "f = frame_of fp k" "fp' = set_frame_bit fp (k div 8) (k mod 8)"
    using get by (auto simp: frame_of_def)
  have "f \<notin> fp_used fp"
    using free f frame_of_inj [OF wf] by (auto simp: fp_used_def frames_def dest: inj_onD)
  then show ?thesis
    using f free wf set_frame_bit_frames [of k fp]
    by (auto simp: set_frame_bit_interface fp_used_def set_frame_bit_wf)
       (auto simp: fp_pool_def)
qed

lemma release_frame_used:
  assumes wf: "framepool_wf fp" and f: "f \<in> fp_pool fp" "f \<notin> fp_pinned fp"
    and rel: "release_frame fp f = (r, fp')"
  shows "r = NO_ERR \<and> fp_used fp' = fp_used fp - {f} \<and> fp_pool fp' = fp_pool fp
       \<and> fp_pinned fp' = fp_pinned fp \<and> framepool_wf fp'"
proof -
  let ?k = "unat (f - base_frame_idx fp)"
  have range: "base_frame_idx fp \<le> f" "f < base_frame_idx fp + nFrames fp"
    using f(1) in_fp_pool [OF wf] by auto
  have out: "\<not> f < base_frame_idx fp" "\<not> base_frame_idx fp + nFrames fp \<le> f"
    using range by (auto simp: not_le not_less)
  note idx = release_frame_index [OF wf range]
  have eq: "r = NO_ERR" "fp' = fp\<lparr>bitmap := (bitmap fp)(?k div 8 :=
      bitmap fp (?k div 8) AND NOT (push_bit (?k mod 8) 1))\<rparr>"
    using rel f(2) idx out by (auto simp: release_frame_def fp_pinned_def Let_def)
  have "q div 8 = ?k div 8 \<and> q mod 8 = ?k mod 8 \<longleftrightarrow> q = ?k" for q
    by (metis div_mult_mod_eq)
  then have bit: "alloc_bit fp' q \<longleftrightarrow> alloc_bit fp q \<and> q \<noteq> ?k" for q
    by (auto simp: eq alloc_bit_def bit_and_not_exp)
  have same: "nFrames fp' = nFrames fp" "base_frame_idx fp' = base_frame_idx fp"
    "inacc_baseFrameNo fp' = inacc_baseFrameNo fp" "inacc_nFrames fp' = inacc_nFrames fp"
    "nBitmapEntry fp' = nBitmapEntry fp" "nRemainderBitmapEntry fp' = nRemainderBitmapEntry fp"
    using eq(2) by auto
  have "frames fp' = frames fp - {?k}"
    by (auto simp: frames_def bit same)
  moreover have fo: "frame_of fp' = frame_of fp" by (simp add: same frame_of_def fun_eq_iff)
  moreover have "frame_of fp ` (frames fp - {?k}) = frame_of fp ` frames fp - frame_of fp ` {?k}"
    by (rule inj_on_image_set_diff [OF frame_of_inj [OF wf]]) (use idx(1) in \<open>auto simp: in_frames\<close>)
  moreover have "frame_of fp ?k = f" by (simp add: frame_of_def)
  ultimately have "fp_used fp' = fp_used fp - {f}" by (simp add: fp_used_def)
  moreover have "fp_pool fp' = fp_pool fp" "fp_pinned fp' = fp_pinned fp" "framepool_wf fp'"
    using wf by (simp_all add: fp_pool_def fp_pinned_def framepool_wf_def same fo)
  ultimately show ?thesis using eq(1) by simp
qed

lemma release_frame_refused:
  "framepool_wf fp \<Longrightarrow> f \<notin> fp_pool fp \<or> f \<in> fp_pinned fp \<Longrightarrow>
     release_frame fp f = (Pos FRAMEPOOL_FREE_ERR, fp)"
  by (auto simp: release_frame_def fp_pinned_def in_fp_pool Let_def not_le)

interpretation fpool: frame_allocator get_frame release_frame fp_used fp_pool fp_pinned framepool_wf
proof unfold_locales
  fix s assume "framepool_wf s"
  then show "fp_used s \<subseteq> fp_pool s" by (auto simp: fp_used_def fp_pool_def frames_def)
next
  fix s assume wf: "framepool_wf s" and "fp_used s = fp_pool s"
  then have full: "frames s = {..<unat (nFrames s)}" by (simp add: fp_used_full)
  from wf show "get_frame s = (-1, s)"
    by (cases rule: get_frame_cases) (use full in auto)
qed (use get_frame_fresh release_frame_used release_frame_refused in blast)+

section \<open>Initialisation\<close>

lemma init_framepool_fields:
  "nFrames (init_framepool fp b n m) = n" "base_frame_idx (init_framepool fp b n m) = b"
  "nBitmapEntry (init_framepool fp b n m) = n div 8"
  "nRemainderBitmapEntry (init_framepool fp b n m) = n mod 8"
  "inacc_baseFrameNo (init_framepool fp b n m) = inacc_baseFrameNo fp"
  "inacc_nFrames (init_framepool fp b n m) = inacc_nFrames fp"
  by (simp_all add: init_framepool_def Let_def)

lemma init_framepool_bitmap:
  "bitmap (init_framepool fp b n 0) i =
     (if i < 2048 then 0xFF else if i < 4096 then 0 else bitmap fp i)"
  "m \<noteq> 0 \<Longrightarrow> bitmap (init_framepool fp b n m) i = (if i < 4096 then 0 else bitmap fp i)"
  by (simp_all add: init_framepool_def Let_def for_upto_store_id PREALLOC_FRAME_NUM_def)

lemma init_framepool_wf:
  "unat n \<le> 4096 * 8 \<Longrightarrow> unat b + unat n < 2 ^ 32 \<Longrightarrow> b mod 8 = 0 \<Longrightarrow>
     framepool_wf (init_framepool fp b n m)"
  by (simp add: framepool_wf_def init_framepool_fields)

lemma init_kernel_frames:
  defines "fp0 \<equiv> \<lambda>fp. init_framepool fp KERN_FRAME_START KERN_FRAME_NUM 0"
  shows "framepool_wf (fp0 fp)" and "frames (fp0 fp) = {..<16384}"
    and "unat (nFrames (fp0 fp)) = 32768" and "base_frame_idx (fp0 fp) = 0"
proof -
  show "framepool_wf (fp0 fp)"
    unfolding fp0_def
    by (rule init_framepool_wf) (simp_all add: KERN_FRAME_START_def KERN_FRAME_NUM_def)
  show n: "unat (nFrames (fp0 fp)) = 32768" "base_frame_idx (fp0 fp) = 0"
    by (simp_all add: fp0_def init_framepool_fields KERN_FRAME_NUM_def KERN_FRAME_START_def)
  have alloc: "alloc_bit (fp0 fp) k \<longleftrightarrow> k < 16384" if "k < 32768" for k
  proof -
    have "k div 8 < 2048 \<longleftrightarrow> k < 16384" and "k div 8 < 4096" using that by auto
    then show ?thesis
      using bit_FF_word8 [of "k mod 8"] by (auto simp: fp0_def alloc_bit_def init_framepool_bitmap)
  qed
  then show "frames (fp0 fp) = {..<16384}" using n by (auto simp: frames_def)
qed

lemma init_kernel_pool:
  "let fp0 = init_framepool fp KERN_FRAME_START KERN_FRAME_NUM 0
   in framepool_wf fp0 \<and> frames fp0 = {..<unat HEAP_FRAME_START}
    \<and> fst (get_frame fp0) = HEAP_FRAME_START
    \<and> frames (snd (get_frame fp0)) = {..unat HEAP_FRAME_START}
    \<and> fp_pinned fp0 = fp_pinned fp"
proof -
  let ?fp0 = "init_framepool fp KERN_FRAME_START KERN_FRAME_NUM 0"
  note K = init_kernel_frames [of fp]
  have h: "unat HEAP_FRAME_START = 16384" by (simp add: HEAP_FRAME_START_def)
  show ?thesis
    using K(1)
  proof (cases rule: get_frame_cases)
    case full
    then have "{..<16384 :: nat} = {..<32768}" using K by simp
    then have "(16384 :: nat) = 32768" by (rule lessThan_eq_iff [THEN iffD1])
    then show ?thesis by simp
  next
    case (free k)
    have k: "k = 16384" using free K(2) by (metis lessThan_iff linorder_neqE_nat less_irrefl)
    show ?thesis
      using K h free k set_frame_bit_frames [of k ?fp0]
      by (auto simp: Let_def HEAP_FRAME_START_def init_framepool_fields KERN_FRAME_START_def
          fp_pinned_def)
  qed
qed

lemma kernel_first_frame: "fst (get_frame (init_framepool fp KERN_FRAME_START KERN_FRAME_NUM 0)) = HEAP_FRAME_START"
  using init_kernel_pool [of fp] by (simp add: Let_def)

text \<open>For the kernel pool set up by \<open>init_kernmem\<close>, exactly the frames below
  \<open>HEAP_FRAME_START\<close> are taken, the invariant holds, and the first allocation returns the first
  heap frame. The inaccessible region is left as it was in the caller's memory.\<close>

theorem init_framepool_kernel:
  "let fp0 = init_framepool fp KERN_FRAME_START KERN_FRAME_NUM 0
   in framepool_wf fp0 \<and> frames fp0 = {..<unat HEAP_FRAME_START}
    \<and> fst (get_frame fp0) = HEAP_FRAME_START
    \<and> frames (snd (get_frame fp0)) = {..unat HEAP_FRAME_START}
    \<and> fp_pinned fp0 = fp_pinned fp"
  by (rule init_kernel_pool)

section \<open>Properties\<close>

text \<open>C27. \<open>get_frame\<close> returns the least free frame of the pool and marks exactly it; when all
  frames are taken it returns \<open>-1\<close> and changes nothing. The byte-wise scan with its shortcut for
  full bytes and its separate remainder loop is thereby the obvious first-fit search.\<close>

theorem get_frame_first_fit:
  assumes "framepool_wf fp"
  shows "(frames fp = {..<unat (nFrames fp)} \<and> get_frame fp = (-1, fp))
       \<or> (\<exists>k fp'. k = (LEAST k. k \<notin> frames fp) \<and> k < unat (nFrames fp)
            \<and> get_frame fp = (base_frame_idx fp + of_nat k, fp')
            \<and> frames fp' = insert k (frames fp) \<and> framepool_wf fp')"
  using assms
proof (cases rule: get_frame_cases)
  case (free k)
  then have "k = (LEAST k. k \<notin> frames fp)"
    by (intro Least_equality [symmetric]) (auto simp: not_less [symmetric])
  with free show ?thesis
    using set_frame_bit_frames set_frame_bit_wf [OF assms] by blast
qed simp

text \<open>A zeroed structure, for concrete instances.\<close>

definition zero_pool :: framepool where
  "zero_pool = \<lparr>base_frame_idx = 0, nFrames = 0, inacc_baseFrameNo = 0, inacc_nFrames = 0,
     pBitmap = 0, bitmap = (\<lambda>_. 0), nBitmapEntry = 0, nRemainderBitmapEntry = 0\<rparr>"

definition small_pool :: framepool where
  "small_pool = init_framepool zero_pool 0 20 8"

lemma small_pool_wf: "framepool_wf small_pool"
  unfolding small_pool_def by (rule init_framepool_wf) simp_all

lemma small_pool_frames: "frames small_pool = {}" "unat (nFrames small_pool) = 20"
  "base_frame_idx small_pool = 0" "fp_pinned small_pool = {}"
  by (auto simp: frames_def alloc_bit_def init_framepool_bitmap init_framepool_fields
      small_pool_def zero_pool_def fp_pinned_def)

theorem get_frame_first_fit_witness:
  "\<exists>fp'. get_frame small_pool = (0, fp') \<and> frames fp' = {0}"
proof -
  have "(LEAST k :: nat. k \<notin> {}) = 0" by (rule Least_equality) auto
  moreover have "{} \<noteq> {..<20 :: nat}" by (metis lessThan_iff empty_iff zero_less_numeral)
  ultimately show ?thesis
    using get_frame_first_fit [OF small_pool_wf] by (simp add: small_pool_frames) metis
qed

text \<open>\<open>n\<close> successive allocations from a pool with at least \<open>n\<close> free frames return \<open>n\<close>
  pairwise different frames of the pool, none of which was in use; afterwards exactly the old
  frames and these are in use.\<close>

theorem frames_handed_out_once:
  assumes "framepool_wf fp" and "card (frames fp) + n \<le> unat (nFrames fp)"
  shows "distinct (fst (alloc_many get_frame n fp))
       \<and> set (fst (alloc_many get_frame n fp)) \<inter> fp_used fp = {}
       \<and> set (fst (alloc_many get_frame n fp)) \<subseteq> fp_pool fp
       \<and> fp_used (snd (alloc_many get_frame n fp))
           = fp_used fp \<union> set (fst (alloc_many get_frame n fp))"
proof -
  have "card (fp_pool fp) = unat (nFrames fp)"
    using card_image [OF frame_of_inj [OF assms(1)]] by (simp add: fp_pool_def)
  moreover have "card (fp_used fp) \<le> card (frames fp)"
    unfolding fp_used_def by (rule card_image_le) (simp add: frames_def)
  ultimately show ?thesis
    using assms by (intro fpool.alloc_many_distinct) (auto simp: fp_pool_def)
qed

theorem frames_handed_out_once_witness:
  "distinct (fst (alloc_many get_frame 20 small_pool))"
  using frames_handed_out_once [OF small_pool_wf, of 20] by (simp add: small_pool_frames)

text \<open>Releasing the frame just allocated succeeds and restores the set of frames in use,
  unless the frame lies in the region recorded as inaccessible; a frame outside the pool or in
  that region is refused with \<open>FRAMEPOOL_FREE_ERR\<close> and nothing changes.\<close>

theorem get_release_roundtrip:
  assumes wf: "framepool_wf fp" and "fp_used fp \<noteq> fp_pool fp"
    and "get_frame fp = (f, fp')"
  shows "(f \<notin> fp_pinned fp \<longrightarrow>
            fst (release_frame fp' f) = NO_ERR \<and> fp_used (snd (release_frame fp' f)) = fp_used fp)
       \<and> (f \<in> fp_pinned fp \<longrightarrow> release_frame fp' f = (Pos FRAMEPOOL_FREE_ERR, fp'))
       \<and> (\<forall>g. g \<notin> fp_pool fp \<longrightarrow> release_frame fp' g = (Pos FRAMEPOOL_FREE_ERR, fp'))"
  using fpool.alloc_then_free [OF assms] fpool.alloc_fresh [OF assms] fpool.free_refused by auto

theorem get_release_roundtrip_witness:
  "fp_used (snd (release_frame (snd (get_frame small_pool)) (fst (get_frame small_pool)))) = {}"
proof -
  have "fp_used small_pool = {}" "fp_pool small_pool \<noteq> {}"
    by (auto simp: fp_used_def fp_pool_def small_pool_frames lessThan_empty_iff bot_nat_def)
  then show ?thesis
    using get_release_roundtrip [OF small_pool_wf, of "fst (get_frame small_pool)"
        "snd (get_frame small_pool)"] by (simp add: small_pool_frames)
qed

lemma mark_loop_bits:
  "r \<le> 8 \<Longrightarrow> bit (for_upto k (\<lambda>k m. m OR push_bit (r - 1 - k) 1) (b :: u8)) q \<longleftrightarrow>
     bit b q \<or> (\<exists>i < k. q = r - 1 - i)"
  by (induction k) (auto simp: bit_or_exp less_Suc_eq)

lemma mark_loop_bits_all:
  assumes "r \<le> 8"
  shows "bit (for_upto r (\<lambda>k m. m OR push_bit (r - 1 - k) 1) (b :: u8)) q \<longleftrightarrow> bit b q \<or> q < r"
proof -
  have "(\<exists>i < r. q = r - 1 - i) \<longleftrightarrow> q < r"
    by (auto intro: exI [of _ "r - 1 - q"])
  then show ?thesis using mark_loop_bits [OF assms] by simp
qed

lemma for_upto_fill:
  "for_upto q (\<lambda>i b. b(s + i := v)) b x = (if s \<le> x \<and> x < s + q then v else (b x :: 'b))"
  by (induction q) auto

text \<open>\<open>mark_prealloc_frame\<close> on a base that is a multiple of 8 marks exactly the frames
  \<open>base .. base + n - 1\<close>, leaves every other bit alone and records the range as inaccessible.\<close>

theorem mark_prealloc_frame_marks:
  assumes "8 dvd unat base"
  shows "alloc_bit (mark_prealloc_frame fp base n) k \<longleftrightarrow>
           alloc_bit fp k \<or> unat base \<le> k \<and> k < unat base + unat n"
    (is "_ \<longleftrightarrow> _ \<or> ?range k")
proof -
  let ?s = "unat (base div 8)" and ?q = "unat (n div 8)" and ?r = "unat (n mod 8)"
  have s: "unat base = ?s * 8" and n: "unat n = ?q * 8 + ?r" and r: "?r < 8"
    using assms by (auto simp: unat_div unat_mod)
  have byte: "bitmap (mark_prealloc_frame fp base n) i =
      (if ?s \<le> i \<and> i < ?s + ?q then 0xFF
       else if i = ?s + ?q \<and> ?r \<noteq> 0
       then for_upto ?r (\<lambda>k m. m OR push_bit (?r - 1 - k) 1) (bitmap fp i)
       else bitmap fp i)" for i
    by (auto simp: mark_prealloc_frame_def Let_def for_upto_fill)
  have k: "k = k div 8 * 8 + k mod 8" "k mod 8 < 8" by auto
  consider "k div 8 < ?s" | "?s \<le> k div 8" "k div 8 < ?s + ?q"
    | "k div 8 = ?s + ?q" | "?s + ?q < k div 8" by linarith
  then show ?thesis
  proof cases
    case 1
    moreover from this have "\<not> ?range k" using s k by linarith
    ultimately show ?thesis by (auto simp: alloc_bit_def byte)
  next
    case 2
    moreover from this have "?range k" using s n k by linarith
    ultimately show ?thesis using bit_FF_word8 [of "k mod 8"] by (simp add: alloc_bit_def byte)
  next
    case 3
    have "?range k \<longleftrightarrow> k mod 8 < ?r" using 3 s n k by linarith
    then show ?thesis
      using 3 r mark_loop_bits_all [of ?r "bitmap fp (?s + ?q)" "k mod 8"]
      by (simp add: alloc_bit_def byte)
  next
    case 4
    moreover from this have "\<not> ?range k" using s n r k by linarith
    ultimately show ?thesis by (auto simp: alloc_bit_def byte)
  qed
qed

theorem mark_prealloc_frame_marks_witness:
  "alloc_bit (mark_prealloc_frame small_pool 8 11) 18
   \<and> \<not> alloc_bit (mark_prealloc_frame small_pool 8 11) 19"
proof -
  have "\<not> alloc_bit small_pool 19"
    by (simp add: small_pool_def alloc_bit_def init_framepool_bitmap)
  then show ?thesis using mark_prealloc_frame_marks [of 8 small_pool 11] by simp
qed

section \<open>Runs of the kernel pool\<close>

text \<open>The states the kernel's pool reaches, with the frames that were handed out and not taken back: a frame is got
  unless the pool is exhausted, and only a frame that is out is given back. The pool starts as whatever is on the
  stack of \<open>start_kernel\<close>, so the range it refuses to free is arbitrary: \<open>init_framepool\<close> does not set it.\<close>

inductive pool_run :: "framepool \<Rightarrow> u32 set \<Rightarrow> bool" where
  boot: "pool_run (init_framepool fp KERN_FRAME_START KERN_FRAME_NUM 0) {}"
| get: "pool_run fp H \<Longrightarrow> get_frame fp = (f, fp') \<Longrightarrow> f \<noteq> -1 \<Longrightarrow> pool_run fp' (insert f H)"
| give: "pool_run fp H \<Longrightarrow> f \<in> H \<Longrightarrow> release_frame fp f = (NO_ERR, fp') \<Longrightarrow> pool_run fp' (H - {f})"
| refused: "pool_run fp H \<Longrightarrow> f \<in> H \<Longrightarrow> release_frame fp f = (r, fp') \<Longrightarrow> r \<noteq> NO_ERR \<Longrightarrow> pool_run fp' H"

text \<open>The frames of the kernel below the heap.\<close>

definition reserved_frames :: "u32 set" where
  "reserved_frames = frame_of (init_framepool zero_pool KERN_FRAME_START KERN_FRAME_NUM 0) ` {..<unat HEAP_FRAME_START}"

lemma kernel_pool_used:
  "fp_used (init_framepool fp KERN_FRAME_START KERN_FRAME_NUM 0) = reserved_frames"
  using init_kernel_frames(2) [of fp]
  by (simp add: fp_used_def reserved_frames_def frame_of_def init_framepool_fields HEAP_FRAME_START_def)

lemma kernel_pool_pool:
  "fp_pool (init_framepool fp KERN_FRAME_START KERN_FRAME_NUM 0) = fp_pool (init_framepool zero_pool KERN_FRAME_START KERN_FRAME_NUM 0)"
  by (simp add: fp_pool_def frame_of_def init_framepool_fields)

text \<open>C14. The pool is well-formed in every state it reaches from the boot, whatever was in its memory before: the frames
  in use are exactly those of the kernel below the heap and those that are out, no frame of the kernel and none outside the
  memory is ever handed out, and giving back a frame succeeds unless it lies in the range recorded as
  inaccessible, which refuses it. With an empty range every frame can be given back.\<close>

theorem pool_run_invariant:
  assumes "pool_run fp H"
  shows "framepool_wf fp \<and> fp_used fp = reserved_frames \<union> H \<and> H \<inter> reserved_frames = {}
    \<and> H \<subseteq> fp_pool (init_framepool zero_pool KERN_FRAME_START KERN_FRAME_NUM 0)
    \<and> (\<forall>f \<in> H. fst (release_frame fp f) = (if f \<in> fp_pinned fp then Pos FRAMEPOOL_FREE_ERR else NO_ERR))
    \<and> (inacc_nFrames fp = 0 \<longrightarrow> (\<forall>f \<in> H. fst (release_frame fp f) = NO_ERR))"
proof -
  let ?P = "fp_pool (init_framepool zero_pool KERN_FRAME_START KERN_FRAME_NUM 0)"
  have inv: "framepool_wf fp \<and> fp_used fp = reserved_frames \<union> H \<and> H \<inter> reserved_frames = {} \<and> H \<subseteq> ?P \<and> fp_pool fp = ?P"
    using assms
  proof (induction rule: pool_run.induct)
    case (boot fp)
    then show ?case using init_kernel_frames(1) [of fp] kernel_pool_used kernel_pool_pool by auto
  next
    case (get fp H f fp')
    then have "fp_used fp \<noteq> fp_pool fp" using fpool.alloc_full [of fp] by auto
    then show ?case using get fpool.alloc_fresh [of fp f fp'] by auto
  next
    case (give fp H f fp')
    then have "f \<in> ?P" "f \<notin> reserved_frames" by auto
    moreover have "f \<notin> fp_pinned fp" using give fpool.free_refused [of fp f] by auto
    ultimately show ?case using give fpool.free_used [of fp f NO_ERR fp'] by (auto simp: insert_Diff_if Un_Diff)
  next
    case (refused fp H f r fp')
    then show ?case using fpool.free_used [of fp f r fp'] fpool.free_refused [of fp f] by (cases "f \<in> fp_pinned fp") auto
  qed
  have giving: "fst (release_frame fp f) = (if f \<in> fp_pinned fp then Pos FRAMEPOOL_FREE_ERR else NO_ERR)" if "f \<in> H" for f
    using fpool.free_used [of fp f "fst (release_frame fp f)" "snd (release_frame fp f)"] fpool.free_refused [of fp f] that inv
    by (auto simp: subset_iff)
  moreover have "f \<notin> fp_pinned fp" if "inacc_nFrames fp = 0" for f using that by (simp add: fp_pinned_def not_less)
  ultimately show ?thesis using inv by simp
qed

lemma pool_run_first: "pool_run (snd (get_frame (init_framepool zero_pool KERN_FRAME_START KERN_FRAME_NUM 0))) {HEAP_FRAME_START}"
proof -
  let ?fp = "init_framepool zero_pool KERN_FRAME_START KERN_FRAME_NUM 0"
  have "pool_run ?fp {}" by (rule pool_run.boot)
  moreover have "get_frame ?fp = (HEAP_FRAME_START, snd (get_frame ?fp))"
    using kernel_first_frame by (metis prod.collapse)
  ultimately show ?thesis using pool_run.get [of ?fp "{}" HEAP_FRAME_START] by (simp add: HEAP_FRAME_START_def)
qed

lemma get_frame_inacc: "inacc_nFrames (snd (get_frame fp)) = inacc_nFrames fp"
  by (simp add: get_frame_def set_frame_bit_def Let_def split: option.split)

theorem pool_run_invariant_witness:
  "HEAP_FRAME_START \<notin> reserved_frames
   \<and> fst (release_frame (snd (get_frame (init_framepool zero_pool KERN_FRAME_START KERN_FRAME_NUM 0))) HEAP_FRAME_START) = NO_ERR"
proof -
  have "inacc_nFrames (snd (get_frame (init_framepool zero_pool KERN_FRAME_START KERN_FRAME_NUM 0))) = 0"
    by (simp add: get_frame_inacc init_framepool_fields) (simp add: zero_pool_def)
  then show ?thesis using pool_run_invariant [OF pool_run_first] by blast
qed

end
