(* ===== verification/RbHeap.thy ===== *)
theory RbHeap
  imports Prelude
begin

unbundle bit_operations_syntax

text \<open>
  The red-black tree library as the kernel runs it: nodes in memory linked by addresses, the
  parent address and the colour packed into one word
  (src/kernel/inc/rbtree.h, rbtree_augmented.h and src/kernel/core/rbtree.c). \<open>nodes\<close> is the
  memory read as \<open>struct rb_node\<close>, \<open>root\<close> is \<open>root->rb_node\<close>; NULL is address 0. The augmented
  callbacks are the dummy ones, the only ones the kernel passes. Loops are
  \<open>partial_function (option)\<close>: \<open>None\<close> means that the loop does not return.
\<close>

section \<open>Nodes\<close>

record rb_node =
  parent_color :: u32
  rb_right :: u32
  rb_left :: u32

record rbs =
  nodes :: "u32 \<Rightarrow> rb_node"
  root :: u32

definition RB_RED :: u32 where "RB_RED = 0"
definition RB_BLACK :: u32 where "RB_BLACK = 1"

definition pc_parent :: "u32 \<Rightarrow> u32" where "pc_parent pc = pc AND NOT 3"
definition pc_color :: "u32 \<Rightarrow> u32" where "pc_color pc = pc AND 1"

definition rb_parent :: "rbs \<Rightarrow> u32 \<Rightarrow> u32" where
  "rb_parent s r = parent_color (nodes s r) AND NOT 3"
definition rb_is_black :: "rbs \<Rightarrow> u32 \<Rightarrow> bool" where
  "rb_is_black s r \<longleftrightarrow> pc_color (parent_color (nodes s r)) \<noteq> 0"
definition rb_is_red :: "rbs \<Rightarrow> u32 \<Rightarrow> bool" where
  "rb_is_red s r \<longleftrightarrow> pc_color (parent_color (nodes s r)) = 0"
definition rb_red_parent :: "rbs \<Rightarrow> u32 \<Rightarrow> u32" where
  "rb_red_parent s red = parent_color (nodes s red)"

definition set_pc :: "u32 \<Rightarrow> u32 \<Rightarrow> rbs \<Rightarrow> rbs" where
  "set_pc r v s = s\<lparr>nodes := (nodes s)(r := (nodes s r)\<lparr>parent_color := v\<rparr>)\<rparr>"
definition set_left :: "u32 \<Rightarrow> u32 \<Rightarrow> rbs \<Rightarrow> rbs" where
  "set_left r v s = s\<lparr>nodes := (nodes s)(r := (nodes s r)\<lparr>rb_left := v\<rparr>)\<rparr>"
definition set_right :: "u32 \<Rightarrow> u32 \<Rightarrow> rbs \<Rightarrow> rbs" where
  "set_right r v s = s\<lparr>nodes := (nodes s)(r := (nodes s r)\<lparr>rb_right := v\<rparr>)\<rparr>"

definition left_of :: "rbs \<Rightarrow> u32 \<Rightarrow> u32" where "left_of s r = rb_left (nodes s r)"
definition right_of :: "rbs \<Rightarrow> u32 \<Rightarrow> u32" where "right_of s r = rb_right (nodes s r)"

definition rb_set_parent :: "u32 \<Rightarrow> u32 \<Rightarrow> rbs \<Rightarrow> rbs" where
  "rb_set_parent r p s = set_pc r (pc_color (parent_color (nodes s r)) OR p) s"
definition rb_set_parent_color :: "u32 \<Rightarrow> u32 \<Rightarrow> u32 \<Rightarrow> rbs \<Rightarrow> rbs" where
  "rb_set_parent_color r p color s = set_pc r (p OR color) s"
definition rb_set_black :: "u32 \<Rightarrow> rbs \<Rightarrow> rbs" where
  "rb_set_black r s = set_pc r (parent_color (nodes s r) OR RB_BLACK) s"

definition rb_change_child :: "u32 \<Rightarrow> u32 \<Rightarrow> u32 \<Rightarrow> rbs \<Rightarrow> rbs" where
  "rb_change_child old new parent s =
     (if parent \<noteq> 0 then
        (if left_of s parent = old then set_left parent new s else set_right parent new s)
      else s\<lparr>root := new\<rparr>)"

definition rb_rotate_set_parents :: "u32 \<Rightarrow> u32 \<Rightarrow> u32 \<Rightarrow> rbs \<Rightarrow> rbs" where
  "rb_rotate_set_parents old new color s =
     (let parent = rb_parent s old;
          s1 = set_pc new (parent_color (nodes s old)) s;
          s2 = rb_set_parent_color old new color s1
      in rb_change_child old new parent s2)"

definition RB_EMPTY_NODE :: "rbs \<Rightarrow> u32 \<Rightarrow> bool" where
  "RB_EMPTY_NODE s n \<longleftrightarrow> parent_color (nodes s n) = n"

definition rb_init_node :: "u32 \<Rightarrow> rbs \<Rightarrow> rbs" where
  "rb_init_node r s = set_pc r r (set_left r 0 (set_right r 0 (set_pc r 0 s)))"

text \<open>
  \<open>rb_link_node\<close> stores the new node through \<open>rb_link\<close>, a pointer to the root pointer or to a
  child field of the parent.
\<close>

datatype rb_link = LinkRoot | LinkLeft u32 | LinkRight u32

definition store_link :: "rb_link \<Rightarrow> u32 \<Rightarrow> rbs \<Rightarrow> rbs" where
  "store_link l v s =
     (case l of LinkRoot \<Rightarrow> s\<lparr>root := v\<rparr> | LinkLeft p \<Rightarrow> set_left p v s
      | LinkRight p \<Rightarrow> set_right p v s)"

definition load_link :: "rb_link \<Rightarrow> rbs \<Rightarrow> u32" where
  "load_link l s =
     (case l of LinkRoot \<Rightarrow> root s | LinkLeft p \<Rightarrow> left_of s p | LinkRight p \<Rightarrow> right_of s p)"

definition rb_link_node :: "u32 \<Rightarrow> u32 \<Rightarrow> rb_link \<Rightarrow> rbs \<Rightarrow> rbs" where
  "rb_link_node node parent link s =
     store_link link node (set_left node 0 (set_right node 0 (set_pc node parent s)))"

section \<open>Insertion fixup: \<open>__rb_insert\<close>\<close>

text \<open>Cases 2 and 3 with the parent a left child.\<close>

definition rb_insert_rotate_left :: "u32 \<Rightarrow> u32 \<Rightarrow> u32 \<Rightarrow> rbs \<Rightarrow> rbs" where
  "rb_insert_rotate_left node parent gparent s =
     (let tmp = right_of s parent;
          (s4, parent4, tmp4) =
            (if node = tmp then
               (let tmp1 = left_of s node;
                    s1 = set_right parent tmp1 s;
                    s2 = set_left node parent s1;
                    s3 = (if tmp1 \<noteq> 0 then rb_set_parent_color tmp1 parent RB_BLACK s2 else s2);
                    s4 = rb_set_parent_color parent node RB_RED s3
                in (s4, node, right_of s4 node))
             else (s, parent, tmp));
          s5 = set_left gparent tmp4 s4;
          s6 = set_right parent4 gparent s5;
          s7 = (if tmp4 \<noteq> 0 then rb_set_parent_color tmp4 gparent RB_BLACK s6 else s6)
      in rb_rotate_set_parents gparent parent4 RB_RED s7)"

text \<open>Cases 2 and 3 with the parent a right child.\<close>

definition rb_insert_rotate_right :: "u32 \<Rightarrow> u32 \<Rightarrow> u32 \<Rightarrow> rbs \<Rightarrow> rbs" where
  "rb_insert_rotate_right node parent gparent s =
     (let tmp = left_of s parent;
          (s4, parent4, tmp4) =
            (if node = tmp then
               (let tmp1 = right_of s node;
                    s1 = set_left parent tmp1 s;
                    s2 = set_right node parent s1;
                    s3 = (if tmp1 \<noteq> 0 then rb_set_parent_color tmp1 parent RB_BLACK s2 else s2);
                    s4 = rb_set_parent_color parent node RB_RED s3
                in (s4, node, left_of s4 node))
             else (s, parent, tmp));
          s5 = set_right gparent tmp4 s4;
          s6 = set_left parent4 gparent s5;
          s7 = (if tmp4 \<noteq> 0 then rb_set_parent_color tmp4 gparent RB_BLACK s6 else s6)
      in rb_rotate_set_parents gparent parent4 RB_RED s7)"

text \<open>Case 1, the colour flip: the state and the new node and parent.\<close>

definition rb_insert_flip :: "u32 \<Rightarrow> u32 \<Rightarrow> u32 \<Rightarrow> rbs \<Rightarrow> u32 \<times> u32 \<times> rbs" where
  "rb_insert_flip tmp parent gparent s =
     (let s1 = rb_set_parent_color tmp gparent RB_BLACK s;
          s2 = rb_set_parent_color parent gparent RB_BLACK s1;
          node' = gparent;
          parent' = rb_parent s2 node';
          s3 = rb_set_parent_color node' parent' RB_RED s2
      in (node', parent', s3))"

partial_function (option) rb_insert_loop :: "u32 \<Rightarrow> u32 \<Rightarrow> rbs \<Rightarrow> rbs option" where
  "rb_insert_loop node parent s =
     (if parent = 0 then Some (rb_set_parent_color node 0 RB_BLACK s)
      else if rb_is_black s parent then Some s
      else
        (let gparent = rb_red_parent s parent;
             tmp = right_of s gparent
         in if parent \<noteq> tmp then
              (if tmp \<noteq> 0 \<and> rb_is_red s tmp then
                 (let (node', parent', s') = rb_insert_flip tmp parent gparent s
                  in rb_insert_loop node' parent' s')
               else Some (rb_insert_rotate_left node parent gparent s))
            else
              (let tmp2 = left_of s gparent
               in if tmp2 \<noteq> 0 \<and> rb_is_red s tmp2 then
                    (let (node', parent', s') = rb_insert_flip tmp2 parent gparent s
                     in rb_insert_loop node' parent' s')
                  else Some (rb_insert_rotate_right node parent gparent s))))"

definition rb_insert_color :: "u32 \<Rightarrow> rbs \<Rightarrow> rbs option" where
  "rb_insert_color node s = rb_insert_loop node (rb_red_parent s node) s"

end
