(* ===== verification/RbTree.thy ===== *)
theory RbTree
  imports RbHeap
begin

unbundle bit_operations_syntax

text \<open>
  The abstract view of the linked red-black tree: a coloured tree whose labels are node
  addresses, and a zipper for a position in it. \<open>rb_at s t cs\<close> says that the memory holds the
  tree \<open>t\<close> at the position \<open>cs\<close>, every field of every node included (parent pointer and colour
  bit too). Shared by the insertion, erase and iteration theories.
\<close>

section \<open>Trees and positions\<close>

datatype color = Red | Black

datatype rtree = Lf | Nd rtree u32 color rtree

datatype rframe = FL u32 color rtree | FR rtree u32 color

primrec colw :: "color \<Rightarrow> u32" where
  "colw Red = 0"
| "colw Black = 1"

primrec ref :: "rtree \<Rightarrow> u32" where
  "ref Lf = 0"
| "ref (Nd l a c r) = a"

primrec addrs :: "rtree \<Rightarrow> u32 list" where
  "addrs Lf = []"
| "addrs (Nd l a c r) = addrs l @ a # addrs r"

primrec fcol :: "rframe \<Rightarrow> color" where
  "fcol (FL a c r) = c"
| "fcol (FR l a c) = c"

primrec faddr :: "rframe \<Rightarrow> u32" where
  "faddr (FL a c r) = a"
| "faddr (FR l a c) = a"

primrec ftree :: "rframe \<Rightarrow> rtree" where
  "ftree (FL a c r) = r"
| "ftree (FR l a c) = l"

primrec plug1 :: "rtree \<Rightarrow> rframe \<Rightarrow> rtree" where
  "plug1 t (FL a c r) = Nd t a c r"
| "plug1 t (FR l a c) = Nd l a c t"

primrec plug :: "rtree \<Rightarrow> rframe list \<Rightarrow> rtree" where
  "plug t [] = t"
| "plug t (f # cs) = plug (plug1 t f) cs"

primrec before :: "rframe list \<Rightarrow> u32 list" where
  "before [] = []"
| "before (f # cs) = before cs @ (case f of FL a c r \<Rightarrow> [] | FR l a c \<Rightarrow> addrs l @ [a])"

primrec after :: "rframe list \<Rightarrow> u32 list" where
  "after [] = []"
| "after (f # cs) = (case f of FL a c r \<Rightarrow> a # addrs r | FR l a c \<Rightarrow> []) @ after cs"

primrec caddrs :: "rframe list \<Rightarrow> u32 set" where
  "caddrs [] = {}"
| "caddrs (f # cs) = insert (faddr f) (set (addrs (ftree f)) \<union> caddrs cs)"

primrec up :: "rframe list \<Rightarrow> u32" where
  "up [] = 0"
| "up (f # cs) = faddr f"

primrec rtop :: "u32 \<Rightarrow> rframe list \<Rightarrow> u32" where
  "rtop x [] = x"
| "rtop x (f # cs) = rtop (faddr f) cs"

lemma addrs_plug [simp]: "addrs (plug t cs) = before cs @ addrs t @ after cs"
  by (induction cs arbitrary: t) (auto split: rframe.splits)

lemma ref_plug: "ref (plug t cs) = rtop (ref t) cs"
proof (induction cs arbitrary: t)
  case (Cons f cs)
  then show ?case by (cases f) auto
qed simp

lemma caddrs_eq: "caddrs cs = set (before cs) \<union> set (after cs)"
proof (induction cs)
  case (Cons f cs)
  then show ?case by (cases f) auto
qed simp

lemma plug_append: "plug t (cs @ ds) = plug (plug t cs) ds"
  by (induction cs arbitrary: t) auto

section \<open>Well-formed addresses\<close>

text \<open>Node addresses are non-null and word aligned: the two low bits carry the colour.\<close>

definition node_addr :: "u32 \<Rightarrow> bool" where
  "node_addr a \<longleftrightarrow> a \<noteq> 0 \<and> a AND 3 = 0"

definition link_addr :: "u32 \<Rightarrow> bool" where
  "link_addr p \<longleftrightarrow> p AND 3 = 0"

lemma node_addr_link [simp]: "node_addr a \<Longrightarrow> link_addr a"
  and node_addr_nz [simp]: "node_addr a \<Longrightarrow> a \<noteq> 0"
  and link_addr_0 [simp]: "link_addr 0"
  by (auto simp: node_addr_def link_addr_def)

lemma bit_3: "bit (3::u32) n \<longleftrightarrow> n = 0 \<or> n = Suc 0"
proof -
  have m: "(3::u32) = mask 2" by (simp add: mask_eq_exp_minus_1)
  have "bit (mask 2 :: u32) n \<longleftrightarrow> n < 2" by (auto simp: bit_mask_iff)
  then show ?thesis unfolding m by auto
qed

lemma bit_not_3: "bit (- 4 ::u32) n \<longleftrightarrow> n < 32 \<and> n \<noteq> 0 \<and> n \<noteq> Suc 0"
proof -
  have "(- 4 ::u32) = NOT 3" by simp
  then show ?thesis by (simp only: bit_not_iff bit_3) auto
qed

lemma bit_pos: "bit p n \<Longrightarrow> \<not> bit p 0 \<Longrightarrow> 0 < n"
  by (cases n) auto

lemma link_addr_bits: "link_addr p \<longleftrightarrow> \<not> bit p 0 \<and> \<not> bit p (Suc 0)"
proof
  assume "link_addr p"
  then have "\<not> bit (p AND 3) 0" "\<not> bit (p AND 3) (Suc 0)" by (simp_all add: link_addr_def)
  then show "\<not> bit p 0 \<and> \<not> bit p (Suc 0)" by (simp add: bit_and_iff bit_3)
next
  assume "\<not> bit p 0 \<and> \<not> bit p (Suc 0)"
  then show "link_addr p"
    unfolding link_addr_def by (intro bit_word_eqI) (auto simp: bit_and_iff bit_3 intro: bit_pos simp del: bit_numeral_word_iff)
qed

lemma link_addr_not_bit: "link_addr p \<Longrightarrow> bit p n \<Longrightarrow> n < 32 \<and> n \<noteq> 0 \<and> n \<noteq> Suc 0"
  by (auto simp: link_addr_bits dest: bit_imp_le_length) (metis gr0I)

lemma bit_colw: "bit (colw c) n \<longleftrightarrow> c = Black \<and> n = 0"
  by (cases c) (auto simp: bit_1_iff)

lemma pc_parent_pack [simp]: "link_addr p \<Longrightarrow> (p OR colw c) AND NOT 3 = p"
  by (intro bit_word_eqI)
     (auto simp: bit_and_iff bit_or_iff bit_not_3 bit_colw link_addr_bits dest: link_addr_not_bit
        intro: bit_pos simp del: bit_neg_numeral_word_iff)

lemma pc_color_pack [simp]: "link_addr p \<Longrightarrow> pc_color (p OR colw c) = colw c"
  unfolding pc_color_def
  by (intro bit_word_eqI)
     (auto simp: bit_and_iff bit_or_iff bit_colw bit_1_iff link_addr_bits
        dest: link_addr_not_bit)

lemma colw_or [simp]: "colw c OR p = p OR colw c"
  by (rule or.commute)

lemma RB_RED_colw: "RB_RED = colw Red" and RB_BLACK_colw: "RB_BLACK = colw Black"
  by (simp_all add: RB_RED_def RB_BLACK_def)

lemma pack_black [simp]: "(p OR colw c) OR 1 = p OR 1"
  by (cases c) (simp_all add: or.assoc)

text \<open>The same with the colour evaluated, as the simplifier writes it.\<close>

lemma pc_parent_simps [simp]:
  "link_addr p \<Longrightarrow> (p OR colw c) AND - 4 = p"
  "link_addr p \<Longrightarrow> (p OR 1) AND - 4 = p"
  "link_addr p \<Longrightarrow> p AND - 4 = p"
  using pc_parent_pack [of p c] pc_parent_pack [of p Black] pc_parent_pack [of p Red] by simp_all

lemma pc_color_simps [simp]:
  "link_addr p \<Longrightarrow> pc_color (p OR 1) = 1"
  "link_addr p \<Longrightarrow> pc_color p = 0"
  using pc_color_pack [of p Black] pc_color_pack [of p Red] by simp_all

section \<open>The tree in memory\<close>

primrec htree :: "(u32 \<Rightarrow> rb_node) \<Rightarrow> u32 \<Rightarrow> rtree \<Rightarrow> bool" where
  "htree h p Lf \<longleftrightarrow> True"
| "htree h p (Nd l a c r) \<longleftrightarrow>
     h a = \<lparr>parent_color = p OR colw c, rb_right = ref r, rb_left = ref l\<rparr>
     \<and> htree h a l \<and> htree h a r"

primrec hctx :: "(u32 \<Rightarrow> rb_node) \<Rightarrow> u32 \<Rightarrow> rframe list \<Rightarrow> bool" where
  "hctx h x [] \<longleftrightarrow> True"
| "hctx h x (f # cs) \<longleftrightarrow>
     h (faddr f) = (case f of
         FL a c r \<Rightarrow> \<lparr>parent_color = up cs OR colw c, rb_right = ref r, rb_left = x\<rparr>
       | FR l a c \<Rightarrow> \<lparr>parent_color = up cs OR colw c, rb_right = x, rb_left = ref l\<rparr>)
     \<and> htree h (faddr f) (ftree f) \<and> hctx h (faddr f) cs"

definition addrs_ok :: "u32 list \<Rightarrow> bool" where
  "addrs_ok xs \<longleftrightarrow> distinct xs \<and> (\<forall>a \<in> set xs. node_addr a)"

text \<open>The memory holds the tree \<open>t\<close> with its root in the root pointer.\<close>

definition rb_tree :: "rbs \<Rightarrow> rtree \<Rightarrow> bool" where
  "rb_tree s t \<longleftrightarrow> htree (nodes s) 0 t \<and> root s = ref t \<and> addrs_ok (addrs t)"

text \<open>The same at a position.\<close>

definition rb_at :: "rbs \<Rightarrow> rtree \<Rightarrow> rframe list \<Rightarrow> bool" where
  "rb_at s t cs \<longleftrightarrow>
     htree (nodes s) (up cs) t \<and> hctx (nodes s) (ref t) cs \<and> root s = rtop (ref t) cs
     \<and> addrs_ok (before cs @ addrs t @ after cs)"

lemma rb_at_Nil: "rb_at s t [] \<longleftrightarrow> rb_tree s t"
  by (simp add: rb_at_def rb_tree_def)

lemma rb_at_step: "rb_at s t (f # cs) \<longleftrightarrow> rb_at s (plug1 t f) cs"
  by (cases f) (auto simp: rb_at_def)

lemma rb_at_plug: "rb_at s t cs \<longleftrightarrow> rb_tree s (plug t cs)"
  by (induction cs arbitrary: t) (simp_all add: rb_at_Nil rb_at_step)

lemma addrs_ok_append:
  "addrs_ok (xs @ ys) \<longleftrightarrow> addrs_ok xs \<and> addrs_ok ys \<and> set xs \<inter> set ys = {}"
  by (auto simp: addrs_ok_def)

lemma addrs_ok_Cons: "addrs_ok (a # ys) \<longleftrightarrow> node_addr a \<and> addrs_ok ys \<and> a \<notin> set ys"
  by (auto simp: addrs_ok_def)

lemma addrs_ok_Nil [simp]: "addrs_ok []"
  by (simp add: addrs_ok_def)

lemmas addrs_ok_simps = addrs_ok_append addrs_ok_Cons addrs_ok_Nil

lemma htree_upd [simp]: "a \<notin> set (addrs t) \<Longrightarrow> htree (h(a := v)) p t = htree h p t"
  by (induction t arbitrary: p) auto

lemma hctx_upd [simp]: "a \<notin> caddrs cs \<Longrightarrow> hctx (h(a := v)) x cs = hctx h x cs"
  by (induction cs arbitrary: x) (auto split: rframe.splits)

lemma htree_cong:
  "(\<And>a. a \<in> set (addrs t) \<Longrightarrow> h' a = h a) \<Longrightarrow> htree h' p t = htree h p t"
  by (induction t arbitrary: p) auto

lemma up_in: "cs \<noteq> [] \<Longrightarrow> up cs \<in> caddrs cs"
  by (cases cs) auto

lemma rtop_cong: "cs \<noteq> [] \<Longrightarrow> rtop x cs = rtop y cs"
  by (cases cs) auto

lemma link_up: "addrs_ok (before cs @ xs @ after cs) \<Longrightarrow> link_addr (up cs)"
  by (cases cs) (auto simp: addrs_ok_def split: rframe.splits)

lemma up_0_iff: "addrs_ok (before cs @ xs @ after cs) \<Longrightarrow> up cs = 0 \<longleftrightarrow> cs = []"
  by (cases cs) (auto simp: addrs_ok_def split: rframe.splits)

lemma ref_0_iff: "addrs_ok (addrs t) \<Longrightarrow> ref t = 0 \<longleftrightarrow> t = Lf"
  by (cases t) (auto simp: addrs_ok_simps)

lemma ref_in: "t \<noteq> Lf \<Longrightarrow> ref t \<in> set (addrs t)"
  by (cases t) auto

section \<open>Memory accessors in terms of fields\<close>

text \<open>Every write is one update of the node map.\<close>

lemma nodes_set [simp]:
  "nodes (set_pc r v s) = (nodes s)(r := (nodes s r)\<lparr>parent_color := v\<rparr>)"
  "nodes (set_left r v s) = (nodes s)(r := (nodes s r)\<lparr>rb_left := v\<rparr>)"
  "nodes (set_right r v s) = (nodes s)(r := (nodes s r)\<lparr>rb_right := v\<rparr>)"
  "root (set_pc r v s) = root s" "root (set_left r v s) = root s" "root (set_right r v s) = root s"
  by (simp_all add: set_pc_def set_left_def set_right_def)

lemmas rb_writes =
  rb_set_parent_def rb_set_parent_color_def rb_set_black_def
  RB_RED_colw RB_BLACK_colw

lemmas rb_reads =
  rb_parent_def rb_is_black_def rb_is_red_def rb_red_parent_def left_of_def right_of_def

lemma colw_0_iff [simp]: "colw c = 0 \<longleftrightarrow> c = Red"
  by (cases c) simp_all

text \<open>
  \<open>__rb_change_child\<close> at a position replaces the pointer to the focused subtree and touches
  nothing else.
\<close>

lemma change_child_at:
  assumes ctx: "hctx (nodes s) old cs" and top: "root s = rtop old cs"
    and ok: "addrs_ok (before cs @ xs @ after cs)" and old: "old \<noteq> 0" "old \<notin> caddrs cs"
  shows "hctx (nodes (rb_change_child old new (up cs) s)) new cs"
    and "root (rb_change_child old new (up cs) s) = rtop new cs"
    and "a \<notin> caddrs cs \<Longrightarrow> nodes (rb_change_child old new (up cs) s) a = nodes s a"
proof -
  have all: "hctx (nodes (rb_change_child old new (up cs) s)) new cs
    \<and> root (rb_change_child old new (up cs) s) = rtop new cs
    \<and> (a \<notin> caddrs cs \<longrightarrow> nodes (rb_change_child old new (up cs) s) a = nodes s a)"
  proof (cases cs)
    case Nil
    then show ?thesis using top by (simp add: rb_change_child_def)
  next
    case (Cons f ds)
    have f: "faddr f \<noteq> 0" "faddr f \<notin> set (addrs (ftree f))" "faddr f \<notin> caddrs ds"
      using ok Cons by (cases f; auto simp: addrs_ok_simps caddrs_eq)+
    have "ref (ftree f) \<noteq> old"
      using old Cons by (cases "ftree f") auto
    then show ?thesis
      using Cons ctx f top by (cases f) (auto simp: rb_change_child_def left_of_def)
  qed
  then show "hctx (nodes (rb_change_child old new (up cs) s)) new cs"
    "root (rb_change_child old new (up cs) s) = rtop new cs"
    "a \<notin> caddrs cs \<Longrightarrow> nodes (rb_change_child old new (up cs) s) a = nodes s a"
    by auto
qed

section \<open>Colours and black heights\<close>

primrec tcol :: "rtree \<Rightarrow> color" where
  "tcol Lf = Black"
| "tcol (Nd l a c r) = c"

primrec paint :: "color \<Rightarrow> rtree \<Rightarrow> rtree" where
  "paint c Lf = Lf"
| "paint c (Nd l a d r) = Nd l a c r"

primrec bh :: "rtree \<Rightarrow> nat" where
  "bh Lf = 0"
| "bh (Nd l a c r) = bh l + (if c = Black then 1 else 0)"

primrec invh :: "rtree \<Rightarrow> bool" where
  "invh Lf \<longleftrightarrow> True"
| "invh (Nd l a c r) \<longleftrightarrow> invh l \<and> invh r \<and> bh l = bh r"

primrec invc :: "rtree \<Rightarrow> bool" where
  "invc Lf \<longleftrightarrow> True"
| "invc (Nd l a c r) \<longleftrightarrow> invc l \<and> invc r \<and> (c = Red \<longrightarrow> tcol l = Black \<and> tcol r = Black)"

text \<open>The red-black tree properties of the comment in rbtree.c.\<close>

definition rbt :: "rtree \<Rightarrow> bool" where
  "rbt t \<longleftrightarrow> invc t \<and> invh t \<and> tcol t = Black"

lemma addrs_paint [simp]: "addrs (paint c t) = addrs t"
  and ref_paint [simp]: "ref (paint c t) = ref t"
  and invh_paint [simp]: "invh (paint c t) = invh t"
  by (cases t; simp)+

lemma paint_black_id [simp]: "tcol t = Black \<Longrightarrow> paint Black t = t"
  by (cases t) auto

lemma tcol_paint [simp]: "tcol (paint Black t) = Black"
  by (cases t) auto

lemma invc_paint [simp]: "invc t \<Longrightarrow> invc (paint Black t)"
  by (cases t) auto

lemma rbt_empty [simp]: "rbt Lf"
  by (simp add: rbt_def)

text \<open>
  The context of a hole that expects a subtree of black height \<open>n\<close>, and what colour may be put
  there: \<open>ctop cs\<close> is the colour above the hole, black above the root.
\<close>

primrec ctop :: "rframe list \<Rightarrow> color" where
  "ctop [] = Red"
| "ctop (f # cs) = fcol f"

primrec cinv :: "nat \<Rightarrow> rframe list \<Rightarrow> bool" where
  "cinv n [] \<longleftrightarrow> True"
| "cinv n (f # cs) \<longleftrightarrow>
     invc (ftree f) \<and> invh (ftree f) \<and> bh (ftree f) = n
     \<and> (fcol f = Red \<longrightarrow> tcol (ftree f) = Black \<and> ctop cs = Black)
     \<and> cinv (n + (if fcol f = Black then 1 else 0)) cs"

text \<open>A tree with the invariants splits into a subtree and its context and back.\<close>

lemma rbt_plug:
  "rbt (plug t cs) \<longleftrightarrow>
     invc t \<and> invh t \<and> cinv (bh t) cs \<and> (ctop cs = Red \<longrightarrow> tcol t = Black)"
proof (induction cs arbitrary: t)
  case Nil
  then show ?case by (auto simp: rbt_def)
next
  case (Cons f cs)
  show ?case
  proof (cases f)
    case (FL a c r)
    then show ?thesis using Cons [of "Nd t a c r"]
      by (cases c; cases "ctop cs") auto
  next
    case (FR l a c)
    then show ?thesis using Cons [of "Nd l a c t"]
      by (cases c; cases "ctop cs") auto
  qed
qed

end
