(* ===== verification/RbInsert.thy ===== *)
theory RbInsert
  imports RbTree
begin

unbundle bit_operations_syntax

text \<open>
  Insertion into the linked red-black tree: \<open>ifix\<close> is \<open>__rb_insert\<close> read as a function on the
  zipper, \<open>rb_insert_loop_refines\<close> shows that the pointer code computes it. The
  last theorem states that linking a node at a leaf position and recolouring gives a red-black tree
  with the node at that place of the order.
\<close>

section \<open>The last step of every rotation\<close>

definition same_off :: "u32 set \<Rightarrow> rbs \<Rightarrow> rbs \<Rightarrow> bool" where
  "same_off A s s' \<longleftrightarrow> (\<forall>a. a \<notin> A \<longrightarrow> nodes s' a = nodes s a)"

lemma same_off_refl [intro]: "same_off A s s"
  by (simp add: same_off_def)

lemma same_off_trans: "same_off A s s' \<Longrightarrow> same_off B s' s'' \<Longrightarrow> A \<subseteq> C \<Longrightarrow> B \<subseteq> C \<Longrightarrow> same_off C s s''"
  by (auto simp: same_off_def) (metis subsetD)

lemma same_off_comp: "same_off A s s' \<Longrightarrow> same_off A s' s'' \<Longrightarrow> same_off A s s''"
  by (simp add: same_off_def)

lemma same_off_writes [intro]:
  assumes "same_off A s s'" and "r \<in> A"
  shows "same_off A s (set_pc r v s')" and "same_off A s (set_left r v s')"
    and "same_off A s (set_right r v s')" and "same_off A s (rb_set_parent_color r p c s')"
  using assms by (auto simp: same_off_def rb_set_parent_color_def)

lemma same_off_if [intro]:
  "(b \<Longrightarrow> same_off A s s1) \<Longrightarrow> (\<not> b \<Longrightarrow> same_off A s s2) \<Longrightarrow> same_off A s (if b then s1 else s2)"
  by simp

lemma same_off_htree:
  "same_off A s s' \<Longrightarrow> set (addrs t) \<inter> A = {} \<Longrightarrow> htree (nodes s') p t = htree (nodes s) p t"
  by (rule htree_cong) (auto simp: same_off_def)

lemma rotate_set_parents_at:
  fixes d :: color
  assumes ctx: "hctx (nodes s) old cs" and top: "root s = rtop old cs"
    and ok: "addrs_ok (before cs @ xs @ after cs)"
    and old: "old \<in> set xs" and new: "new \<in> set xs" and neq: "old \<noteq> new"
    and pc: "parent_color (nodes s old) = up cs OR colw c"
  defines "s' \<equiv> rb_rotate_set_parents old new (colw d) s"
  shows "hctx (nodes s') new cs" and "root s' = rtop new cs"
    and "nodes s' old = (nodes s old)\<lparr>parent_color := new OR colw d\<rparr>"
    and "nodes s' new = (nodes s new)\<lparr>parent_color := up cs OR colw c\<rparr>"
    and "same_off (insert old (insert new (caddrs cs))) s s'"
proof -
  let ?s2 = "rb_set_parent_color old new (colw d) (set_pc new (parent_color (nodes s old)) s)"
  have off: "old \<notin> caddrs cs" "new \<notin> caddrs cs" "old \<noteq> 0"
    using ok old new by (auto simp: addrs_ok_simps caddrs_eq addrs_ok_def)
  have par: "rb_parent s old = up cs"
    using pc link_up [OF ok] by (simp add: rb_parent_def)
  have s': "s' = rb_change_child old new (up cs) ?s2"
    by (simp add: s'_def rb_rotate_set_parents_def Let_def par)
  have ctx2: "hctx (nodes ?s2) old cs" and top2: "root ?s2 = rtop old cs"
    using ctx top off by (simp_all add: rb_set_parent_color_def)
  note cc = change_child_at [OF ctx2 top2 ok off(3) off(1), where new = new, folded s']
  show "hctx (nodes s') new cs" "root s' = rtop new cs" by (rule cc)+
  show "nodes s' old = (nodes s old)\<lparr>parent_color := new OR colw d\<rparr>"
    using cc(3) [OF off(1)] neq by (simp add: rb_set_parent_color_def)
  show "nodes s' new = (nodes s new)\<lparr>parent_color := up cs OR colw c\<rparr>"
    using cc(3) [OF off(2)] neq pc by (simp add: rb_set_parent_color_def)
  show "same_off (insert old (insert new (caddrs cs))) s s'"
    using cc(3) by (auto simp: same_off_def rb_set_parent_color_def)
qed

text \<open>
  A rotation ends with \<open>new\<close> above \<open>old\<close>: when the children pointers and the subtrees are in
  place, \<open>__rb_rotate_set_parents\<close> completes the tree.
\<close>

lemma rotate_finish:
  fixes gc d :: color
  assumes ctx: "hctx (nodes s) g cs" and top: "root s = rtop g cs"
    and T: "T = Nd l p gc (Nd rl g d rr) \<and> nodes s p = \<lparr>parent_color = q, rb_right = g, rb_left = ref l\<rparr>
             \<and> htree (nodes s) p l
          \<or> T = Nd (Nd rl g d rr) p gc l \<and> nodes s p = \<lparr>parent_color = q, rb_right = ref l, rb_left = g\<rparr>
             \<and> htree (nodes s) p l"
    and g: "nodes s g = \<lparr>parent_color = up cs OR colw gc, rb_right = ref rr, rb_left = ref rl\<rparr>"
    and sub: "htree (nodes s) g rl" "htree (nodes s) g rr"
    and ok: "addrs_ok (before cs @ addrs T @ after cs)"
  defines "s' \<equiv> rb_rotate_set_parents g p (colw d) s"
  shows "rb_at s' T cs \<and> same_off (set (addrs (plug T cs))) s s'"
proof -
  have in_T: "g \<in> set (addrs T)" "p \<in> set (addrs T)" using T by auto
  have okd: "g \<noteq> p" "g \<notin> set (addrs l)" "p \<notin> set (addrs l)" "g \<notin> set (addrs rl)"
    "p \<notin> set (addrs rl)" "g \<notin> set (addrs rr)" "p \<notin> set (addrs rr)"
    "set (addrs l) \<inter> caddrs cs = {}" "set (addrs rl) \<inter> caddrs cs = {}"
    "set (addrs rr) \<inter> caddrs cs = {}"
    using ok T by (auto simp: addrs_ok_simps caddrs_eq)
  have pc: "parent_color (nodes s g) = up cs OR colw gc" using g by simp
  note C = rotate_set_parents_at [OF ctx top ok in_T okd(1) pc, of d, folded s'_def]
  have D: "htree (nodes s') r v = htree (nodes s) r v"
    if "g \<notin> set (addrs v)" "p \<notin> set (addrs v)" "set (addrs v) \<inter> caddrs cs = {}" for r v
    by (rule same_off_htree [OF C(5)]) (use that in auto)
  have "htree (nodes s') (up cs) T"
    using T C(3,4) g sub okd by (auto simp: D)
  moreover have "ref T = p" using T by auto
  ultimately have "rb_at s' T cs" using C(1,2) ok by (simp add: rb_at_def)
  moreover have "same_off (set (addrs (plug T cs))) s s'"
    by (rule same_off_trans [OF C(5) same_off_refl, of "set (addrs (plug T cs))"])
       (use in_T in \<open>auto simp: caddrs_eq\<close>)
  ultimately show ?thesis ..
qed

section \<open>The zipper form of \<open>__rb_insert\<close>\<close>

fun rot_left_case :: "rtree \<Rightarrow> u32 \<Rightarrow> rframe \<Rightarrow> u32 \<Rightarrow> color \<Rightarrow> rtree \<Rightarrow> rtree" where
  "rot_left_case t p (FL q d b) g gc u = Nd t p gc (Nd (paint Black b) g Red u)"
| "rot_left_case (Nd l x c r) p (FR b q d) g gc u =
     Nd (Nd b p Red (paint Black l)) x gc (Nd (paint Black r) g Red u)"
| "rot_left_case Lf p (FR b q d) g gc u = Nd (Nd b p d Lf) g gc u"

fun rot_right_case :: "rtree \<Rightarrow> u32 \<Rightarrow> rframe \<Rightarrow> u32 \<Rightarrow> color \<Rightarrow> rtree \<Rightarrow> rtree" where
  "rot_right_case t p (FR b q d) g gc u = Nd (Nd u g Red (paint Black b)) p gc t"
| "rot_right_case (Nd l x c r) p (FL q d b) g gc u =
     Nd (Nd u g Red (paint Black l)) x gc (Nd (paint Black r) p Red b)"
| "rot_right_case Lf p (FL q d b) g gc u = Nd u g gc (Nd Lf p d b)"

fun ifix :: "rtree \<Rightarrow> rframe list \<Rightarrow> rtree" where
  "ifix t [] = paint Black t"
| "ifix t [f] = plug t [f]"
| "ifix t (f # FL g gc u # cs) =
     (if fcol f = Black then plug t (f # FL g gc u # cs)
      else if tcol u = Red
      then ifix (Nd (paint Black (plug1 t f)) g Red (paint Black u)) cs
      else plug (rot_left_case t (faddr f) f g gc u) cs)"
| "ifix t (f # FR u g gc # cs) =
     (if fcol f = Black then plug t (f # FR u g gc # cs)
      else if tcol u = Red
      then ifix (Nd (paint Black u) g Red (paint Black (plug1 t f))) cs
      else plug (rot_right_case t (faddr f) f g gc u) cs)"

lemma ref_in_nz: "ref b \<noteq> 0 \<Longrightarrow> ref b \<in> set (addrs b)"
  by (cases b) auto

lemma ref_notin: "set (addrs b) \<inter> A = {} \<Longrightarrow> ref b \<noteq> 0 \<Longrightarrow> ref b \<notin> A"
  by (cases b) auto

lemmas disjoint_simps = caddrs_eq Int_Un_distrib Int_Un_distrib2 Int_commute

lemma ref_neq: "x \<notin> set (addrs b) \<Longrightarrow> x \<noteq> 0 \<Longrightarrow> ref b \<noteq> x"
  by (cases b) auto

section \<open>The rotations refine the zipper form\<close>

lemma rotate_left_outer:
  assumes at: "rb_at s t (FL p Red b # FL g gc u # cs)" and t: "t \<noteq> Lf"
  defines "s' \<equiv> rb_insert_rotate_left (ref t) p g s"
  shows "rb_at s' (Nd t p gc (Nd (paint Black b) g Red u)) cs
    \<and> same_off (set (addrs (plug t (FL p Red b # FL g gc u # cs)))) s s'"
proof -
  have ok: "addrs_ok (before cs @ (addrs t @ p # addrs b @ g # addrs u) @ after cs)"
    using at by (simp add: rb_at_def)
  note okd = ok [unfolded addrs_ok_simps]
  have mem: "p \<notin> set (addrs b)" "g \<notin> set (addrs b)" "p \<notin> set (addrs t)" "g \<notin> set (addrs t)"
    "p \<notin> set (addrs u)" "g \<notin> set (addrs u)" "p \<notin> caddrs cs" "g \<notin> caddrs cs" "p \<noteq> g"
    "p \<noteq> 0" "g \<noteq> 0"
    using okd by (simp add: caddrs_eq; blast?; fail)+
  have t0: "ref t \<in> set (addrs t)" using t by (rule ref_in)
  have refs: "ref b \<noteq> p" "ref b \<noteq> g" "ref t \<noteq> p" "ref t \<noteq> g"
    using mem by (simp_all add: ref_neq)
  have b0: "ref b \<noteq> 0 \<Longrightarrow> ref b \<notin> caddrs cs \<and> ref b \<notin> set (addrs t) \<and> ref b \<notin> set (addrs u)"
    using ref_in_nz [of b] okd by (simp add: caddrs_eq) blast
  have tb: "ref t \<noteq> ref b"
    using t0 ref_in_nz [of b] okd by (metis b0 addrs_ok_def node_addr_nz)
  have okb: "addrs_ok (addrs b)" using okd by simp
  note dj = mem refs b0 tb
  have A: "htree (nodes s) p t" "hctx (nodes s) g cs" "root s = rtop g cs"
    "nodes s p = \<lparr>parent_color = g, rb_right = ref b, rb_left = ref t\<rparr>"
    "nodes s g = \<lparr>parent_color = up cs OR colw gc, rb_right = ref u, rb_left = p\<rparr>"
    "htree (nodes s) p b" "htree (nodes s) g u"
    using at by (simp_all add: rb_at_def)
  define s7 where "s7 = (let s6 = set_right p g (set_left g (ref b) s) in
      if ref b \<noteq> 0 then rb_set_parent_color (ref b) g RB_BLACK s6 else s6)"
  have s': "s' = rb_rotate_set_parents g p (colw Red) s7"
    using dj A by (simp add: s'_def s7_def rb_insert_rotate_left_def right_of_def Let_def RB_RED_colw)
  have B: "hctx (nodes s7) g cs" "root s7 = rtop g cs" "htree (nodes s7) p t" "htree (nodes s7) g u"
    "nodes s7 p = \<lparr>parent_color = g, rb_right = g, rb_left = ref t\<rparr>"
    "nodes s7 g = \<lparr>parent_color = up cs OR colw gc, rb_right = ref u, rb_left = ref (paint Black b)\<rparr>"
    "htree (nodes s7) g (paint Black b)"
    using A dj okb by (cases b; simp add: s7_def Let_def rb_writes addrs_ok_simps)+
  have off7: "same_off (set (addrs (plug t (FL p Red b # FL g gc u # cs)))) s s7"
    unfolding s7_def Let_def
    by (intro same_off_if same_off_writes same_off_refl) (auto dest: ref_in_nz)
  have fin: "rb_at s' (Nd t p gc (Nd (paint Black b) g Red u)) cs \<and>
      same_off (set (addrs (plug (Nd t p gc (Nd (paint Black b) g Red u)) cs))) s7 s'"
    unfolding s' by (rule rotate_finish [OF B(1,2) _ B(6,7,4), where l = t and q = g]) (use B ok in simp_all)
  then show ?thesis
    using same_off_comp [OF off7, of s'] by simp
qed

lemma rotate_right_outer:
  assumes at: "rb_at s t (FR b p Red # FR u g gc # cs)" and t: "t \<noteq> Lf"
  defines "s' \<equiv> rb_insert_rotate_right (ref t) p g s"
  shows "rb_at s' (Nd (Nd u g Red (paint Black b)) p gc t) cs
    \<and> same_off (set (addrs (plug t (FR b p Red # FR u g gc # cs)))) s s'"
proof -
  have ok: "addrs_ok (before cs @ (addrs u @ g # addrs b @ p # addrs t) @ after cs)"
    using at by (simp add: rb_at_def)
  note okd = ok [unfolded addrs_ok_simps]
  have mem: "p \<notin> set (addrs b)" "g \<notin> set (addrs b)" "p \<notin> set (addrs t)" "g \<notin> set (addrs t)"
    "p \<notin> set (addrs u)" "g \<notin> set (addrs u)" "p \<notin> caddrs cs" "g \<notin> caddrs cs" "p \<noteq> g"
    "p \<noteq> 0" "g \<noteq> 0"
    using okd by (simp add: caddrs_eq; blast?; fail)+
  have t0: "ref t \<in> set (addrs t)" using t by (rule ref_in)
  have refs: "ref b \<noteq> p" "ref b \<noteq> g" "ref t \<noteq> p" "ref t \<noteq> g"
    using mem by (simp_all add: ref_neq)
  have b0: "ref b \<noteq> 0 \<Longrightarrow> ref b \<notin> caddrs cs \<and> ref b \<notin> set (addrs t) \<and> ref b \<notin> set (addrs u)"
    using ref_in_nz [of b] okd by (simp add: caddrs_eq) blast
  have tb: "ref t \<noteq> ref b"
    using t0 ref_in_nz [of b] okd by (metis b0 addrs_ok_def node_addr_nz)
  have okb: "addrs_ok (addrs b)" using okd by simp
  note dj = mem refs b0 tb
  have A: "htree (nodes s) p t" "hctx (nodes s) g cs" "root s = rtop g cs"
    "nodes s p = \<lparr>parent_color = g, rb_right = ref t, rb_left = ref b\<rparr>"
    "nodes s g = \<lparr>parent_color = up cs OR colw gc, rb_right = p, rb_left = ref u\<rparr>"
    "htree (nodes s) p b" "htree (nodes s) g u"
    using at by (simp_all add: rb_at_def)
  define s7 where "s7 = (let s6 = set_left p g (set_right g (ref b) s) in
      if ref b \<noteq> 0 then rb_set_parent_color (ref b) g RB_BLACK s6 else s6)"
  have s': "s' = rb_rotate_set_parents g p (colw Red) s7"
    using dj A by (simp add: s'_def s7_def rb_insert_rotate_right_def left_of_def Let_def RB_RED_colw)
  have B: "hctx (nodes s7) g cs" "root s7 = rtop g cs" "htree (nodes s7) p t" "htree (nodes s7) g u"
    "nodes s7 p = \<lparr>parent_color = g, rb_right = ref t, rb_left = g\<rparr>"
    "nodes s7 g = \<lparr>parent_color = up cs OR colw gc, rb_right = ref (paint Black b), rb_left = ref u\<rparr>"
    "htree (nodes s7) g (paint Black b)"
    using A dj okb by (cases b; simp add: s7_def Let_def rb_writes addrs_ok_simps)+
  have off7: "same_off (set (addrs (plug t (FR b p Red # FR u g gc # cs)))) s s7"
    unfolding s7_def Let_def
    by (intro same_off_if same_off_writes same_off_refl) (auto dest: ref_in_nz)
  have fin: "rb_at s' (Nd (Nd u g Red (paint Black b)) p gc t) cs \<and>
      same_off (set (addrs (plug (Nd (Nd u g Red (paint Black b)) p gc t) cs))) s7 s'"
    unfolding s' by (rule rotate_finish [OF B(1,2) _ B(6,4,7), where l = t and q = g]) (use B ok in simp_all)
  then show ?thesis
    using same_off_comp [OF off7, of s'] by simp
qed

lemma rotate_left_inner:
  assumes at: "rb_at s (Nd l x c r) (FR b p Red # FL g gc u # cs)"
  defines "T \<equiv> Nd (Nd b p Red (paint Black l)) x gc (Nd (paint Black r) g Red u)"
    and "s' \<equiv> rb_insert_rotate_left x p g s"
  shows "rb_at s' T cs \<and> same_off (set (addrs (plug (Nd l x c r) (FR b p Red # FL g gc u # cs)))) s s'"
proof -
  have ok: "addrs_ok (before cs @ (addrs b @ p # addrs l @ x # addrs r @ g # addrs u) @ after cs)"
    using at by (simp add: rb_at_def)
  note okd = ok [unfolded addrs_ok_simps]
  have mem: "x \<noteq> p" "x \<noteq> g" "p \<noteq> g" "x \<notin> caddrs cs" "p \<notin> caddrs cs" "g \<notin> caddrs cs"
    "x \<notin> set (addrs b)" "p \<notin> set (addrs b)" "g \<notin> set (addrs b)"
    "x \<notin> set (addrs u)" "p \<notin> set (addrs u)" "g \<notin> set (addrs u)"
    "x \<notin> set (addrs l)" "p \<notin> set (addrs l)" "g \<notin> set (addrs l)"
    "x \<notin> set (addrs r)" "p \<notin> set (addrs r)" "g \<notin> set (addrs r)"
    "x \<noteq> 0" "p \<noteq> 0" "g \<noteq> 0"
    using okd by (simp add: caddrs_eq; blast?; fail)+
  have refs: "ref l \<noteq> x" "ref l \<noteq> p" "ref l \<noteq> g" "ref r \<noteq> x" "ref r \<noteq> p" "ref r \<noteq> g"
    using mem by (simp_all add: ref_neq)
  have dis: "set (addrs l) \<inter> (caddrs cs \<union> set (addrs b) \<union> set (addrs u) \<union> set (addrs r)) = {}"
    "set (addrs r) \<inter> (caddrs cs \<union> set (addrs b) \<union> set (addrs u) \<union> set (addrs l)) = {}"
    and okl: "addrs_ok (addrs l)" and okr: "addrs_ok (addrs r)"
    using okd by (simp add: disjoint_simps; fail)+
  have l0: "ref l \<noteq> 0 \<Longrightarrow> ref l \<notin> caddrs cs \<and> ref l \<noteq> ref r \<and> ref l \<notin> set (addrs b)
      \<and> ref l \<notin> set (addrs u) \<and> ref l \<notin> set (addrs r)"
    using ref_notin [OF dis(1)] ref_in_nz [of r] by auto
  have r0: "ref r \<noteq> 0 \<Longrightarrow> ref r \<notin> caddrs cs \<and> ref r \<notin> set (addrs b)
      \<and> ref r \<notin> set (addrs u) \<and> ref r \<notin> set (addrs l)"
    using ref_notin [OF dis(2)] by auto
  note dj = mem refs l0 r0
  have A: "hctx (nodes s) g cs" "root s = rtop g cs"
    "nodes s x = \<lparr>parent_color = p OR colw c, rb_right = ref r, rb_left = ref l\<rparr>"
    "nodes s p = \<lparr>parent_color = g, rb_right = x, rb_left = ref b\<rparr>"
    "nodes s g = \<lparr>parent_color = up cs OR colw gc, rb_right = ref u, rb_left = p\<rparr>"
    "htree (nodes s) p b" "htree (nodes s) g u" "htree (nodes s) x l" "htree (nodes s) x r"
    using at by (simp_all add: rb_at_def)
  define s3 where "s3 = (let s2 = set_left x p (set_right p (ref l) s) in
      if ref l \<noteq> 0 then rb_set_parent_color (ref l) p RB_BLACK s2 else s2)"
  define s4 where "s4 = rb_set_parent_color p x RB_RED s3"
  define s7 where "s7 = (let s6 = set_right x g (set_left g (ref r) s4) in
      if ref r \<noteq> 0 then rb_set_parent_color (ref r) g RB_BLACK s6 else s6)"
  have r4: "right_of s4 x = ref r"
    using A dj by (simp add: s4_def s3_def right_of_def Let_def rb_writes)
  have s': "s' = rb_rotate_set_parents g x (colw Red) s7"
    using A dj r4
    by (simp add: s'_def rb_insert_rotate_left_def right_of_def left_of_def Let_def
         s7_def s4_def s3_def RB_RED_colw)
  have B4: "hctx (nodes s4) g cs" "root s4 = rtop g cs"
    "nodes s4 x = \<lparr>parent_color = p OR colw c, rb_right = ref r, rb_left = p\<rparr>"
    "nodes s4 g = \<lparr>parent_color = up cs OR colw gc, rb_right = ref u, rb_left = p\<rparr>"
    "htree (nodes s4) x (Nd b p Red (paint Black l))" "htree (nodes s4) g u" "htree (nodes s4) x r"
    using A dj okl by (cases l; simp add: s4_def s3_def Let_def rb_writes addrs_ok_simps; fail)+
  have B: "hctx (nodes s7) g cs" "root s7 = rtop g cs"
    "nodes s7 x = \<lparr>parent_color = p OR colw c, rb_right = g, rb_left = p\<rparr>"
    "nodes s7 g = \<lparr>parent_color = up cs OR colw gc, rb_right = ref u, rb_left = ref (paint Black r)\<rparr>"
    "htree (nodes s7) x (Nd b p Red (paint Black l))" "htree (nodes s7) g u"
    "htree (nodes s7) g (paint Black r)"
    using B4 dj okr by (cases r; simp add: s7_def Let_def rb_writes addrs_ok_simps; fail)+
  have off7: "same_off (set (addrs (plug (Nd l x c r) (FR b p Red # FL g gc u # cs)))) s s7"
    unfolding s7_def s4_def s3_def Let_def
    by (intro same_off_if same_off_writes same_off_refl) (auto dest: ref_in_nz)
  have "rb_at s' T cs \<and> same_off (set (addrs (plug T cs))) s7 s'"
    unfolding s'
    by (rule rotate_finish [OF B(1,2) _ B(4,7,6), where l = "Nd b p Red (paint Black l)"
          and q = "p OR colw c"])
       (use B ok in \<open>simp_all add: T_def\<close>)
  then show ?thesis
    using same_off_comp [OF off7, of s'] by (simp add: T_def)
qed

lemma rotate_right_inner:
  assumes at: "rb_at s (Nd l x c r) (FL p Red b # FR u g gc # cs)"
  defines "T \<equiv> Nd (Nd u g Red (paint Black l)) x gc (Nd (paint Black r) p Red b)"
    and "s' \<equiv> rb_insert_rotate_right x p g s"
  shows "rb_at s' T cs \<and> same_off (set (addrs (plug (Nd l x c r) (FL p Red b # FR u g gc # cs)))) s s'"
proof -
  have ok: "addrs_ok (before cs @ (addrs u @ g # addrs l @ x # addrs r @ p # addrs b) @ after cs)"
    using at by (simp add: rb_at_def)
  note okd = ok [unfolded addrs_ok_simps]
  have mem: "x \<noteq> p" "x \<noteq> g" "p \<noteq> g" "x \<notin> caddrs cs" "p \<notin> caddrs cs" "g \<notin> caddrs cs"
    "x \<notin> set (addrs b)" "p \<notin> set (addrs b)" "g \<notin> set (addrs b)"
    "x \<notin> set (addrs u)" "p \<notin> set (addrs u)" "g \<notin> set (addrs u)"
    "x \<notin> set (addrs l)" "p \<notin> set (addrs l)" "g \<notin> set (addrs l)"
    "x \<notin> set (addrs r)" "p \<notin> set (addrs r)" "g \<notin> set (addrs r)"
    "x \<noteq> 0" "p \<noteq> 0" "g \<noteq> 0"
    using okd by (simp add: caddrs_eq; blast?; fail)+
  have refs: "ref l \<noteq> x" "ref l \<noteq> p" "ref l \<noteq> g" "ref r \<noteq> x" "ref r \<noteq> p" "ref r \<noteq> g"
    using mem by (simp_all add: ref_neq)
  have dis: "set (addrs l) \<inter> (caddrs cs \<union> set (addrs b) \<union> set (addrs u) \<union> set (addrs r)) = {}"
    "set (addrs r) \<inter> (caddrs cs \<union> set (addrs b) \<union> set (addrs u) \<union> set (addrs l)) = {}"
    and okl: "addrs_ok (addrs l)" and okr: "addrs_ok (addrs r)"
    using okd by (simp add: disjoint_simps; fail)+
  have l0: "ref l \<noteq> 0 \<Longrightarrow> ref l \<notin> caddrs cs \<and> ref l \<noteq> ref r \<and> ref l \<notin> set (addrs b)
      \<and> ref l \<notin> set (addrs u) \<and> ref l \<notin> set (addrs r)"
    using ref_notin [OF dis(1)] ref_in_nz [of r] by auto
  have r0: "ref r \<noteq> 0 \<Longrightarrow> ref r \<notin> caddrs cs \<and> ref r \<notin> set (addrs b)
      \<and> ref r \<notin> set (addrs u) \<and> ref r \<notin> set (addrs l)"
    using ref_notin [OF dis(2)] by auto
  note dj = mem refs l0 r0
  have A: "hctx (nodes s) g cs" "root s = rtop g cs"
    "nodes s x = \<lparr>parent_color = p OR colw c, rb_right = ref r, rb_left = ref l\<rparr>"
    "nodes s p = \<lparr>parent_color = g, rb_right = ref b, rb_left = x\<rparr>"
    "nodes s g = \<lparr>parent_color = up cs OR colw gc, rb_right = p, rb_left = ref u\<rparr>"
    "htree (nodes s) p b" "htree (nodes s) g u" "htree (nodes s) x l" "htree (nodes s) x r"
    using at by (simp_all add: rb_at_def)
  define s3 where "s3 = (let s2 = set_right x p (set_left p (ref r) s) in
      if ref r \<noteq> 0 then rb_set_parent_color (ref r) p RB_BLACK s2 else s2)"
  define s4 where "s4 = rb_set_parent_color p x RB_RED s3"
  define s7 where "s7 = (let s6 = set_left x g (set_right g (ref l) s4) in
      if ref l \<noteq> 0 then rb_set_parent_color (ref l) g RB_BLACK s6 else s6)"
  have l4: "left_of s4 x = ref l"
    using A dj by (simp add: s4_def s3_def left_of_def Let_def rb_writes)
  have s': "s' = rb_rotate_set_parents g x (colw Red) s7"
    using A dj l4
    by (simp add: s'_def rb_insert_rotate_right_def right_of_def left_of_def Let_def
         s7_def s4_def s3_def RB_RED_colw)
  have B4: "hctx (nodes s4) g cs" "root s4 = rtop g cs"
    "nodes s4 x = \<lparr>parent_color = p OR colw c, rb_right = p, rb_left = ref l\<rparr>"
    "nodes s4 g = \<lparr>parent_color = up cs OR colw gc, rb_right = p, rb_left = ref u\<rparr>"
    "htree (nodes s4) x (Nd (paint Black r) p Red b)" "htree (nodes s4) g u" "htree (nodes s4) x l"
    using A dj okr by (cases r; simp add: s4_def s3_def Let_def rb_writes addrs_ok_simps; fail)+
  have B: "hctx (nodes s7) g cs" "root s7 = rtop g cs"
    "nodes s7 x = \<lparr>parent_color = p OR colw c, rb_right = p, rb_left = g\<rparr>"
    "nodes s7 g = \<lparr>parent_color = up cs OR colw gc, rb_right = ref (paint Black l), rb_left = ref u\<rparr>"
    "htree (nodes s7) x (Nd (paint Black r) p Red b)" "htree (nodes s7) g u"
    "htree (nodes s7) g (paint Black l)"
    using B4 dj okl by (cases l; simp add: s7_def Let_def rb_writes addrs_ok_simps; fail)+
  have off7: "same_off (set (addrs (plug (Nd l x c r) (FL p Red b # FR u g gc # cs)))) s s7"
    unfolding s7_def s4_def s3_def Let_def
    by (intro same_off_if same_off_writes same_off_refl) (auto dest: ref_in_nz)
  have "rb_at s' T cs \<and> same_off (set (addrs (plug T cs))) s7 s'"
    unfolding s'
    by (rule rotate_finish [OF B(1,2) _ B(4,6,7), where l = "Nd (paint Black r) p Red b"
          and q = "p OR colw c"])
       (use B ok in \<open>simp_all add: T_def\<close>)
  then show ?thesis
    using same_off_comp [OF off7, of s'] by (simp add: T_def)
qed

section \<open>The loop refines the zipper form\<close>

lemma rb_at_reads:
  assumes "rb_at s t (f # cs)"
  shows "rb_is_black s (faddr f) \<longleftrightarrow> fcol f = Black"
    and "rb_parent s (faddr f) = up cs"
    and "fcol f = Red \<Longrightarrow> rb_red_parent s (faddr f) = up cs"
    and "faddr f \<noteq> 0" and "faddr f \<noteq> ref (ftree f)"
    and "left_of s (faddr f) = (case f of FL a c r \<Rightarrow> ref t | FR l a c \<Rightarrow> ref l)"
    and "right_of s (faddr f) = (case f of FL a c r \<Rightarrow> ref r | FR l a c \<Rightarrow> ref t)"
proof -
  have l: "link_addr (up cs)"
    using assms link_up [of cs "addrs t @ addrs (ftree f) @ [faddr f]"]
    by (cases f; cases cs) (auto simp: rb_at_def addrs_ok_simps split: rframe.splits)
  show "rb_is_black s (faddr f) \<longleftrightarrow> fcol f = Black" "rb_parent s (faddr f) = up cs"
    "fcol f = Red \<Longrightarrow> rb_red_parent s (faddr f) = up cs"
    "left_of s (faddr f) = (case f of FL a c r \<Rightarrow> ref t | FR l a c \<Rightarrow> ref l)"
    "right_of s (faddr f) = (case f of FL a c r \<Rightarrow> ref r | FR l a c \<Rightarrow> ref t)"
    using assms l by (cases f; cases "fcol f"; simp add: rb_at_def rb_reads)+
  show "faddr f \<noteq> 0" "faddr f \<noteq> ref (ftree f)"
    using assms ref_neq [of "faddr f" "ftree f"]
    by (cases f; auto simp: rb_at_def addrs_ok_simps)+
qed

lemma rb_is_red_sub:
  assumes "htree (nodes s) p t" and "link_addr p" and "addrs_ok (addrs t)"
  shows "ref t \<noteq> 0 \<and> rb_is_red s (ref t) \<longleftrightarrow> tcol t = Red"
    and "ref t = 0 \<or> rb_is_black s (ref t) \<longleftrightarrow> tcol t = Black"
  using assms by (cases t; cases "tcol t"; auto simp: rb_reads addrs_ok_simps)+

lemma rb_at_sibling:
  assumes "rb_at s t (f # cs)"
  shows "htree (nodes s) (faddr f) (ftree f)" and "link_addr (faddr f)"
    and "addrs_ok (addrs (ftree f))"
  using assms by (cases f; auto simp: rb_at_def addrs_ok_simps)+

lemma flip_left_refines:
  assumes at: "rb_at s t (f # FL g gc u # cs)" and u: "tcol u = Red"
  shows "\<exists>s'. rb_insert_flip (ref u) (faddr f) g s = (g, up cs, s')
    \<and> rb_at s' (Nd (paint Black (plug1 t f)) g Red (paint Black u)) cs
    \<and> same_off (set (addrs (plug t (f # FL g gc u # cs)))) s s'"
proof -
  have at1: "rb_at s (plug1 t f) (FL g gc u # cs)" using at by (simp add: rb_at_step)
  have ok: "addrs_ok (before cs @ (addrs (plug1 t f) @ g # addrs u) @ after cs)"
    using at1 by (simp add: rb_at_def)
  have f: "faddr f = ref (plug1 t f)" "plug1 t f \<noteq> Lf" by (cases f; simp)+
  obtain l p c r where t: "plug1 t f = Nd l p c r" using f by (cases "plug1 t f") auto
  obtain ul uu ur where u: "u = Nd ul uu Red ur" using u by (cases u) auto
  note okd = ok [unfolded t u addrs_ok_simps addrs.simps]
  have mem: "g \<noteq> p" "g \<noteq> uu" "p \<noteq> uu" "g \<notin> caddrs cs" "p \<notin> caddrs cs" "uu \<notin> caddrs cs"
    "g \<notin> set (addrs l)" "g \<notin> set (addrs r)" "g \<notin> set (addrs ul)" "g \<notin> set (addrs ur)"
    "p \<notin> set (addrs l)" "p \<notin> set (addrs r)" "p \<notin> set (addrs ul)" "p \<notin> set (addrs ur)"
    "uu \<notin> set (addrs l)" "uu \<notin> set (addrs r)" "uu \<notin> set (addrs ul)" "uu \<notin> set (addrs ur)"
    using okd by (simp add: caddrs_eq; blast?; fail)+
  have par: "link_addr (up cs)" using link_up [OF ok] .
  show ?thesis
    using at1 t u mem par ok f
    by (auto simp: rb_insert_flip_def Let_def rb_writes rb_reads rb_at_def same_off_def)
qed

lemma flip_right_refines:
  assumes at: "rb_at s t (f # FR u g gc # cs)" and u: "tcol u = Red"
  shows "\<exists>s'. rb_insert_flip (ref u) (faddr f) g s = (g, up cs, s')
    \<and> rb_at s' (Nd (paint Black u) g Red (paint Black (plug1 t f))) cs
    \<and> same_off (set (addrs (plug t (f # FR u g gc # cs)))) s s'"
proof -
  have at1: "rb_at s (plug1 t f) (FR u g gc # cs)" using at by (simp add: rb_at_step)
  have ok: "addrs_ok (before cs @ (addrs u @ g # addrs (plug1 t f)) @ after cs)"
    using at1 by (simp add: rb_at_def)
  have f: "faddr f = ref (plug1 t f)" "plug1 t f \<noteq> Lf" by (cases f; simp)+
  obtain l p c r where t: "plug1 t f = Nd l p c r" using f by (cases "plug1 t f") auto
  obtain ul uu ur where u: "u = Nd ul uu Red ur" using u by (cases u) auto
  note okd = ok [unfolded t u addrs_ok_simps addrs.simps]
  have mem: "g \<noteq> p" "g \<noteq> uu" "p \<noteq> uu" "g \<notin> caddrs cs" "p \<notin> caddrs cs" "uu \<notin> caddrs cs"
    "g \<notin> set (addrs l)" "g \<notin> set (addrs r)" "g \<notin> set (addrs ul)" "g \<notin> set (addrs ur)"
    "p \<notin> set (addrs l)" "p \<notin> set (addrs r)" "p \<notin> set (addrs ul)" "p \<notin> set (addrs ur)"
    "uu \<notin> set (addrs l)" "uu \<notin> set (addrs r)" "uu \<notin> set (addrs ul)" "uu \<notin> set (addrs ur)"
    using okd by (simp add: caddrs_eq; blast?; fail)+
  have par: "link_addr (up cs)" using link_up [OF ok] .
  show ?thesis
    using at1 t u mem par ok f
    by (auto simp: rb_insert_flip_def Let_def rb_writes rb_reads rb_at_def same_off_def)
qed

lemma set_addrs_plug1 [simp]:
  "set (addrs (plug1 t f)) = insert (faddr f) (set (addrs (ftree f)) \<union> set (addrs t))"
  by (cases f) auto

lemma bh_paint_Red [simp]: "tcol t = Red \<Longrightarrow> bh (paint Black t) = Suc (bh t)"
  by (cases t) auto

lemma ref_plug1 [simp]: "ref (plug1 t f) = faddr f"
  by (cases f) simp_all

lemma paint_plug1_Lf [simp]: "plug1 t f \<noteq> Lf"
  by (cases f) simp_all

lemma rb_insert_loop_refines:
  assumes "rb_at s t cs" and "t \<noteq> Lf" and "cs \<noteq> [] \<Longrightarrow> fcol (last cs) = Black"
  shows "\<exists>s'. rb_insert_loop (ref t) (up cs) s = Some s' \<and> rb_tree s' (ifix t cs)
    \<and> same_off (set (addrs (plug t cs))) s s'"
  using assms
proof (induction t cs arbitrary: s rule: ifix.induct)
  case (1 t)
  then obtain l x c r where t: "t = Nd l x c r" by (cases t) auto
  let ?s' = "rb_set_parent_color x 0 RB_BLACK s"
  have "rb_insert_loop (ref t) (up []) s = Some ?s'"
    by (subst rb_insert_loop.simps) (simp add: t)
  moreover have "rb_tree ?s' (ifix t [])"
    using 1 by (simp add: t rb_at_Nil rb_tree_def rb_writes addrs_ok_simps)
  moreover have "same_off (set (addrs (plug t []))) s ?s'"
    by (auto simp: t)
  ultimately show ?case by blast
next
  case (2 t f)
  note rd = rb_at_reads [OF "2.prems"(1)]
  have "rb_insert_loop (ref t) (up [f]) s = Some s"
    using rd "2.prems"(3) by (subst rb_insert_loop.simps) simp
  then show ?case using "2.prems"(1) by (auto simp: rb_at_plug)
next
  case (3 t f g gc u cs)
  note rd = rb_at_reads [OF "3.prems"(1)]
  have at1: "rb_at s (plug1 t f) (FL g gc u # cs)" using "3.prems"(1) by (simp add: rb_at_step)
  note rd1 = rb_at_reads [OF at1]
  have red_u: "ref u \<noteq> 0 \<and> rb_is_red s (ref u) \<longleftrightarrow> tcol u = Red"
    using rb_is_red_sub(1) [OF rb_at_sibling [OF at1]] by simp
  have neq: "faddr f \<noteq> ref u"
  proof -
    have "addrs_ok (addrs (plug1 t f) @ g # addrs u)"
      using at1 by (simp add: rb_at_def addrs_ok_simps) blast
    then have "faddr f \<notin> set (addrs u)" "faddr f \<noteq> 0"
      by (cases f; auto simp: addrs_ok_simps)+
    then show ?thesis using ref_neq by metis
  qed
  consider (black) "fcol f = Black" | (flip) "fcol f = Red" "tcol u = Red"
    | (rot) "fcol f = Red" "tcol u = Black"
    by (cases "fcol f"; cases "tcol u") auto
  then show ?case
  proof cases
    case black
    then have "rb_insert_loop (ref t) (up (f # FL g gc u # cs)) s = Some s"
      using rd by (subst rb_insert_loop.simps) simp
    then show ?thesis using black "3.prems"(1) by (auto simp: rb_at_plug)
  next
    case flip
    obtain s' where s': "rb_insert_flip (ref u) (faddr f) g s = (g, up cs, s')"
      "rb_at s' (Nd (paint Black (plug1 t f)) g Red (paint Black u)) cs"
      "same_off (set (addrs (plug t (f # FL g gc u # cs)))) s s'"
      using flip_left_refines [OF "3.prems"(1) flip(2)] by blast
    have "rb_insert_loop (ref t) (up (f # FL g gc u # cs)) s = rb_insert_loop g (up cs) s'"
      using rd rd1 neq red_u flip s'(1) by (subst rb_insert_loop.simps) (simp add: Let_def)
    moreover obtain s'' where "rb_insert_loop g (up cs) s' = Some s''"
      "rb_tree s'' (ifix t (f # FL g gc u # cs))" "same_off (set (addrs (plug t (f # FL g gc u # cs)))) s' s''"
      using "3.IH" [OF _ flip(2) s'(2)] flip "3.prems"(3) by (cases cs; cases f) auto
    ultimately show ?thesis using same_off_comp [OF s'(3)] by auto
  next
    case rot
    have "rb_insert_loop (ref t) (up (f # FL g gc u # cs)) s
        = Some (rb_insert_rotate_left (ref t) (faddr f) g s)"
      using rd rd1 neq red_u rot by (subst rb_insert_loop.simps) (auto simp: Let_def)
    moreover obtain l x c r where t: "t = Nd l x c r" using "3.prems"(2) by (cases t) auto
    have "rb_at (rb_insert_rotate_left (ref t) (faddr f) g s) (rot_left_case t (faddr f) f g gc u) cs
        \<and> same_off (set (addrs (plug t (f # FL g gc u # cs)))) s
             (rb_insert_rotate_left (ref t) (faddr f) g s)"
      using rotate_left_outer [where s = s and t = t and p = "faddr f"] rotate_left_inner "3.prems"(1,2) rot t
      by (cases f) auto
    ultimately show ?thesis using rot by (simp add: rb_at_plug)
  qed
next
  case (4 t f u g gc cs)
  note rd = rb_at_reads [OF "4.prems"(1)]
  have at1: "rb_at s (plug1 t f) (FR u g gc # cs)" using "4.prems"(1) by (simp add: rb_at_step)
  note rd1 = rb_at_reads [OF at1]
  have red_u: "ref u \<noteq> 0 \<and> rb_is_red s (ref u) \<longleftrightarrow> tcol u = Red"
    using rb_is_red_sub(1) [OF rb_at_sibling [OF at1]] by simp
  have neq: "faddr f \<noteq> ref u"
  proof -
    have "addrs_ok (addrs u @ g # addrs (plug1 t f))"
      using at1 by (simp add: rb_at_def addrs_ok_simps) blast
    then have "faddr f \<notin> set (addrs u)" "faddr f \<noteq> 0"
      by (cases f; auto simp: addrs_ok_simps)+
    then show ?thesis using ref_neq by metis
  qed
  consider (black) "fcol f = Black" | (flip) "fcol f = Red" "tcol u = Red"
    | (rot) "fcol f = Red" "tcol u = Black"
    by (cases "fcol f"; cases "tcol u") auto
  then show ?case
  proof cases
    case black
    then have "rb_insert_loop (ref t) (up (f # FR u g gc # cs)) s = Some s"
      using rd by (subst rb_insert_loop.simps) simp
    then show ?thesis using black "4.prems"(1) by (auto simp: rb_at_plug)
  next
    case flip
    obtain s' where s': "rb_insert_flip (ref u) (faddr f) g s = (g, up cs, s')"
      "rb_at s' (Nd (paint Black u) g Red (paint Black (plug1 t f))) cs"
      "same_off (set (addrs (plug t (f # FR u g gc # cs)))) s s'"
      using flip_right_refines [OF "4.prems"(1) flip(2)] by blast
    have "rb_insert_loop (ref t) (up (f # FR u g gc # cs)) s = rb_insert_loop g (up cs) s'"
      using rd rd1 neq red_u flip s'(1) by (subst rb_insert_loop.simps) (simp add: Let_def)
    moreover obtain s'' where "rb_insert_loop g (up cs) s' = Some s''"
      "rb_tree s'' (ifix t (f # FR u g gc # cs))" "same_off (set (addrs (plug t (f # FR u g gc # cs)))) s' s''"
      using "4.IH" [OF _ flip(2) s'(2)] flip "4.prems"(3) by (cases cs; cases f) auto
    ultimately show ?thesis using same_off_comp [OF s'(3)] by auto
  next
    case rot
    have "rb_insert_loop (ref t) (up (f # FR u g gc # cs)) s
        = Some (rb_insert_rotate_right (ref t) (faddr f) g s)"
      using rd rd1 neq red_u rot by (subst rb_insert_loop.simps) (auto simp: Let_def)
    moreover obtain l x c r where t: "t = Nd l x c r" using "4.prems"(2) by (cases t) auto
    have "rb_at (rb_insert_rotate_right (ref t) (faddr f) g s) (rot_right_case t (faddr f) f g gc u) cs
        \<and> same_off (set (addrs (plug t (f # FR u g gc # cs)))) s
             (rb_insert_rotate_right (ref t) (faddr f) g s)"
      using rotate_right_outer [where s = s and t = t and p = "faddr f"] rotate_right_inner "4.prems"(1,2) rot t
      by (cases f) auto
    ultimately show ?thesis using rot by (simp add: rb_at_plug)
  qed
qed

text \<open>The fixup keeps the order of the nodes.\<close>

lemma addrs_plug1_paint: "addrs (paint c (plug1 t f)) = addrs (plug1 t f)"
  by simp

lemma addrs_ifix: "t \<noteq> Lf \<Longrightarrow> addrs (ifix t cs) = addrs (plug t cs)"
proof (induction t cs rule: ifix.induct)
  case (3 t f g gc u cs)
  then show ?case by (cases f; cases t) auto
next
  case (4 t f u g gc cs)
  then show ?case by (cases f; cases t) auto
qed simp_all

text \<open>The fixup restores the red-black properties when a red node may sit under a red one.\<close>

lemma rbt_ifix:
  assumes "invc t" and "invh t" and "tcol t = Red" and "cinv (bh t) cs"
  shows "rbt (ifix t cs)"
  using assms
proof (induction t cs rule: ifix.induct)
  case (1 t)
  then show ?case by (cases t) (auto simp: rbt_def)
next
  case (2 t f)
  then show ?case by (cases f; cases "fcol f") (auto simp: rbt_def)
next
  case (3 t f g gc u cs)
  show ?case using 3
    by (cases f; cases t; cases "fcol f"; cases gc; cases "tcol u"; simp add: rbt_plug)
next
  case (4 t f u g gc cs)
  show ?case using 4
    by (cases f; cases t; cases "fcol f"; cases gc; cases "tcol u"; simp add: rbt_plug)
qed

section \<open>Linking and inserting\<close>

text \<open>The link pointer of a position, as the callers' search loops compute it.\<close>

primrec link_of :: "rframe list \<Rightarrow> rb_link" where
  "link_of [] = LinkRoot"
| "link_of (f # cs) = (case f of FL a c r \<Rightarrow> LinkLeft a | FR l a c \<Rightarrow> LinkRight a)"

lemma load_link_of: "rb_at s t cs \<Longrightarrow> load_link (link_of cs) s = ref t"
  by (cases cs) (auto simp: load_link_def rb_at_def left_of_def right_of_def split: rframe.splits)

lemma rb_link_node_at:
  assumes "rb_at s Lf cs" and "node_addr x" and "x \<notin> set (before cs @ after cs)"
  shows "rb_at (rb_link_node x (up cs) (link_of cs) s) (Nd Lf x Red Lf) cs
    \<and> same_off (insert x (caddrs cs)) s (rb_link_node x (up cs) (link_of cs) s)"
proof (cases cs)
  case Nil
  then show ?thesis
    using assms
    by (auto simp: rb_at_def rb_link_node_def store_link_def addrs_ok_simps same_off_def)
next
  case (Cons f ds)
  then show ?thesis
    using assms
    by (cases f) (auto simp: rb_at_def rb_link_node_def store_link_def addrs_ok_simps
         same_off_def caddrs_eq)
qed

lemma rb_insert_at:
  assumes at: "rb_at s Lf cs" and rb: "rbt (plug Lf cs)"
    and x: "node_addr x" "x \<notin> set (before cs @ after cs)"
  shows "\<exists>s' t'. rb_insert_color x (rb_link_node x (up cs) (link_of cs) s) = Some s'
    \<and> rb_tree s' t' \<and> rbt t' \<and> addrs t' = before cs @ x # after cs
    \<and> same_off (set (addrs t')) s s'"
proof -
  let ?n = "Nd Lf x Red Lf" and ?s1 = "rb_link_node x (up cs) (link_of cs) s"
  have at1: "rb_at ?s1 ?n cs" and off1: "same_off (insert x (caddrs cs)) s ?s1"
    using rb_link_node_at [OF at x] by blast+
  have ci: "cinv (bh Lf) cs" using rb by (simp add: rbt_plug)
  have last: "fcol (last cs) = Black" if "cs \<noteq> []" for n
    using that ci
  proof -
    have "cinv n cs \<Longrightarrow> cs \<noteq> [] \<Longrightarrow> fcol (last cs) = Black" for n
      by (induction cs arbitrary: n) (auto, metis color.exhaust color.distinct(1) ctop.simps(1))
    then show ?thesis using that ci by blast
  qed
  have "link_addr (up cs)" using link_up [of cs "[]"] at by (simp add: rb_at_def)
  then have red: "rb_red_parent ?s1 x = up cs"
    using at1 by (simp add: rb_at_def rb_red_parent_def)
  obtain s' where s': "rb_insert_loop x (up cs) ?s1 = Some s'" "rb_tree s' (ifix ?n cs)"
    "same_off (set (addrs (plug ?n cs))) ?s1 s'"
    using rb_insert_loop_refines [OF at1] last by auto
  have "same_off (set (addrs (plug ?n cs))) s s'"
    by (rule same_off_trans [OF off1 s'(3)]) (auto simp: caddrs_eq)
  moreover have "rbt (ifix ?n cs)" using ci by (intro rbt_ifix) simp_all
  ultimately show ?thesis
    using s' red by (auto simp: rb_insert_color_def addrs_ifix)
qed

text \<open>C9. Linking a node at a leaf of a red-black tree and calling \<open>rb_insert_color\<close> returns, and
  leaves in memory a tree with consistent child, parent and colour fields that satisfies the
  red-black properties, whose in-order sequence is the old one with the node at the place it was
  linked; no other node of the memory is written.\<close>

theorem rb_insert_color_correct:
  assumes "rb_at s Lf cs" and "rbt (plug Lf cs)"
    and "node_addr x" and "x \<notin> set (before cs @ after cs)"
  shows "\<exists>s' t'. rb_insert_color x (rb_link_node x (up cs) (link_of cs) s) = Some s'
    \<and> rb_tree s' t' \<and> rbt t' \<and> addrs t' = before cs @ x # after cs
    \<and> (\<forall>a. a \<notin> set (addrs t') \<longrightarrow> nodes s' a = nodes s a)"
  using rb_insert_at [OF assms] by (auto simp: same_off_def)

definition three_chain :: rbs where
  "three_chain = \<lparr>nodes = (\<lambda>a. if a = 0x10 then \<lparr>parent_color = 1, rb_right = 0x20, rb_left = 0\<rparr>
                 else \<lparr>parent_color = 0x10, rb_right = 0, rb_left = 0\<rparr>), root = 0x10\<rparr>"

theorem rb_insert_color_correct_witness:
  "\<exists>s' t'. rb_insert_color 0x30 (rb_link_node 0x30 0x20 (LinkRight 0x20) three_chain) = Some s'
    \<and> rb_tree s' t' \<and> rbt t' \<and> addrs t' = [0x10, 0x20, 0x30]"
proof -
  let ?cs = "[FR Lf 0x20 Red, FR Lf 0x10 Black]"
  have "rb_at three_chain Lf ?cs"
    by code_simp
  from rb_insert_color_correct [OF this, of "0x30"] show ?thesis
    by (auto simp: rbt_def node_addr_def)
qed

end
