(* ===== verification/RbErase.thy ===== *)
theory RbErase
  imports RbInsert
begin

unbundle bit_operations_syntax

text \<open>
  Removal from the linked red-black tree (src/kernel/inc/rbtree_augmented.h,
  \<open>__rb_erase_augmented\<close>, and src/kernel/core/rbtree.c, \<open>____rb_erase_color\<close> and \<open>rb_erase\<close>):
  the pointer code, its zipper form \<open>efix\<close>, the refinement, and the preservation of the
  red-black properties.
\<close>

section \<open>The pointer code\<close>

text \<open>The successor search \<open>do ... while (tmp)\<close>: the parent and the successor.\<close>

partial_function (option) erase_succ_loop :: "u32 \<Rightarrow> u32 \<Rightarrow> rbs \<Rightarrow> (u32 \<times> u32) option" where
  "erase_succ_loop successor tmp s =
     (let parent = successor; successor' = tmp; tmp' = left_of s tmp
      in if tmp' \<noteq> 0 then erase_succ_loop successor' tmp' s else Some (parent, successor'))"

text \<open>The second half of the two-children case, once parent, successor and child2 are known.\<close>

definition rb_erase_relink :: "u32 \<Rightarrow> u32 \<Rightarrow> u32 \<Rightarrow> u32 \<Rightarrow> rbs \<Rightarrow> u32 \<times> rbs" where
  "rb_erase_relink node parent successor child2 s =
     (let tmp = left_of s node;
          s2 = set_left successor tmp s;
          s3 = rb_set_parent tmp successor s2;
          pc = parent_color (nodes s3 node);
          tmp' = pc_parent pc;
          s4 = rb_change_child node successor tmp' s3
      in if child2 \<noteq> 0 then
           (let s5 = set_pc successor pc s4
            in (0, rb_set_parent_color child2 parent RB_BLACK s5))
         else
           (let pc2 = parent_color (nodes s4 successor);
                s5 = set_pc successor pc s4
            in (if pc_color pc2 \<noteq> 0 then parent else 0, s5)))"

definition rb_erase_augmented :: "u32 \<Rightarrow> rbs \<Rightarrow> (u32 \<times> rbs) option" where
  "rb_erase_augmented node s =
     (let child = right_of s node; tmp = left_of s node
      in if tmp = 0 then
           (let pc = parent_color (nodes s node);
                parent = pc_parent pc;
                s1 = rb_change_child node child parent s
            in if child \<noteq> 0 then Some (0, set_pc child pc s1)
               else Some (if pc_color pc \<noteq> 0 then parent else 0, s1))
         else if child = 0 then
           (let pc = parent_color (nodes s node);
                s1 = set_pc tmp pc s;
                parent = pc_parent pc
            in Some (0, rb_change_child node tmp parent s1))
         else if left_of s child = 0 then
           Some (rb_erase_relink node child child (right_of s child) s)
         else
           (case erase_succ_loop child (left_of s child) s of
              None \<Rightarrow> None
            | Some (parent, successor) \<Rightarrow>
                (let child2 = right_of s successor;
                     s1 = set_left parent child2 s;
                     s2 = set_right successor child s1;
                     s3 = rb_set_parent child successor s2
                 in Some (rb_erase_relink node parent successor child2 s3))))"

definition rb_erase_case1_left :: "u32 \<Rightarrow> u32 \<Rightarrow> rbs \<Rightarrow> u32 \<times> rbs" where
  "rb_erase_case1_left parent sibling s =
     (let tmp1 = left_of s sibling;
          s1 = set_right parent tmp1 s;
          s2 = set_left sibling parent s1;
          s3 = rb_set_parent_color tmp1 parent RB_BLACK s2
      in (tmp1, rb_rotate_set_parents parent sibling RB_RED s3))"

definition rb_erase_case3_left :: "u32 \<Rightarrow> u32 \<Rightarrow> u32 \<Rightarrow> rbs \<Rightarrow> rbs" where
  "rb_erase_case3_left parent sibling tmp2 s =
     (let tmp1 = right_of s tmp2;
          s1 = set_left sibling tmp1 s;
          s2 = set_right tmp2 sibling s1;
          s3 = set_right parent tmp2 s2
      in (if tmp1 \<noteq> 0 then rb_set_parent_color tmp1 sibling RB_BLACK s3 else s3))"

definition rb_erase_case4_left :: "u32 \<Rightarrow> u32 \<Rightarrow> u32 \<Rightarrow> rbs \<Rightarrow> rbs" where
  "rb_erase_case4_left parent sibling tmp1 s =
     (let tmp2 = left_of s sibling;
          s1 = set_right parent tmp2 s;
          s2 = set_left sibling parent s1;
          s3 = rb_set_parent_color tmp1 sibling RB_BLACK s2;
          s4 = (if tmp2 \<noteq> 0 then rb_set_parent tmp2 parent s3 else s3)
      in rb_rotate_set_parents parent sibling RB_BLACK s4)"

definition rb_erase_case1_right :: "u32 \<Rightarrow> u32 \<Rightarrow> rbs \<Rightarrow> u32 \<times> rbs" where
  "rb_erase_case1_right parent sibling s =
     (let tmp1 = right_of s sibling;
          s1 = set_left parent tmp1 s;
          s2 = set_right sibling parent s1;
          s3 = rb_set_parent_color tmp1 parent RB_BLACK s2
      in (tmp1, rb_rotate_set_parents parent sibling RB_RED s3))"

definition rb_erase_case3_right :: "u32 \<Rightarrow> u32 \<Rightarrow> u32 \<Rightarrow> rbs \<Rightarrow> rbs" where
  "rb_erase_case3_right parent sibling tmp2 s =
     (let tmp1 = left_of s tmp2;
          s1 = set_right sibling tmp1 s;
          s2 = set_left tmp2 sibling s1;
          s3 = set_left parent tmp2 s2
      in (if tmp1 \<noteq> 0 then rb_set_parent_color tmp1 sibling RB_BLACK s3 else s3))"

definition rb_erase_case4_right :: "u32 \<Rightarrow> u32 \<Rightarrow> u32 \<Rightarrow> rbs \<Rightarrow> rbs" where
  "rb_erase_case4_right parent sibling tmp1 s =
     (let tmp2 = right_of s sibling;
          s1 = set_left parent tmp2 s;
          s2 = set_right sibling parent s1;
          s3 = rb_set_parent_color tmp1 sibling RB_BLACK s2;
          s4 = (if tmp2 \<noteq> 0 then rb_set_parent tmp2 parent s3 else s3)
      in rb_rotate_set_parents parent sibling RB_BLACK s4)"

text \<open>
  One iteration of \<open>____rb_erase_color\<close> once the sibling is black: cases 2, 3 and 4. The flag says
  that the loop goes on at the parent. In case 3 the old sibling becomes \<open>tmp1\<close>.
\<close>

definition rb_erase_sib_left :: "u32 \<Rightarrow> u32 \<Rightarrow> rbs \<Rightarrow> bool \<times> rbs" where
  "rb_erase_sib_left parent sibling s =
     (let tmp1 = right_of s sibling
      in if tmp1 = 0 \<or> rb_is_black s tmp1 then
           (let tmp2 = left_of s sibling
            in if tmp2 = 0 \<or> rb_is_black s tmp2 then
                 (let s2 = rb_set_parent_color sibling parent RB_RED s
                  in if rb_is_red s2 parent then (False, rb_set_black parent s2) else (True, s2))
               else (False, rb_erase_case4_left parent tmp2 sibling
                              (rb_erase_case3_left parent sibling tmp2 s)))
         else (False, rb_erase_case4_left parent sibling tmp1 s))"

definition rb_erase_sib_right :: "u32 \<Rightarrow> u32 \<Rightarrow> rbs \<Rightarrow> bool \<times> rbs" where
  "rb_erase_sib_right parent sibling s =
     (let tmp1 = left_of s sibling
      in if tmp1 = 0 \<or> rb_is_black s tmp1 then
           (let tmp2 = right_of s sibling
            in if tmp2 = 0 \<or> rb_is_black s tmp2 then
                 (let s2 = rb_set_parent_color sibling parent RB_RED s
                  in if rb_is_red s2 parent then (False, rb_set_black parent s2) else (True, s2))
               else (False, rb_erase_case4_right parent tmp2 sibling
                              (rb_erase_case3_right parent sibling tmp2 s)))
         else (False, rb_erase_case4_right parent sibling tmp1 s))"

definition rb_erase_step :: "u32 \<Rightarrow> u32 \<Rightarrow> rbs \<Rightarrow> bool \<times> rbs" where
  "rb_erase_step node parent s =
     (let sib = right_of s parent
      in if node \<noteq> sib then
           (let (sibling, s1) =
                  (if rb_is_red s sib then rb_erase_case1_left parent sib s else (sib, s))
            in rb_erase_sib_left parent sibling s1)
         else
           (let sib = left_of s parent;
                (sibling, s1) =
                  (if rb_is_red s sib then rb_erase_case1_right parent sib s else (sib, s))
            in rb_erase_sib_right parent sibling s1))"

partial_function (option) rb_erase_loop :: "u32 \<Rightarrow> u32 \<Rightarrow> rbs \<Rightarrow> rbs option" where
  "rb_erase_loop node parent s =
     (let (continue, s1) = rb_erase_step node parent s
      in if continue then
           (let node' = parent; parent' = rb_parent s1 node'
            in if parent' \<noteq> 0 then rb_erase_loop node' parent' s1 else Some s1)
         else Some s1)"

definition rb_erase_color :: "u32 \<Rightarrow> rbs \<Rightarrow> rbs option" where
  "rb_erase_color parent s = rb_erase_loop 0 parent s"

definition rb_erase :: "u32 \<Rightarrow> rbs \<Rightarrow> rbs option" where
  "rb_erase node s =
     (case rb_erase_augmented node s of
        None \<Rightarrow> None
      | Some (rebalance, s1) \<Rightarrow>
          if rebalance \<noteq> 0 then rb_erase_color rebalance s1 else Some s1)"

section \<open>The rotations of the rebalancing\<close>

lemma sib_facts_FL:
  assumes at: "rb_at s t (FL p c (Nd sl sa sc sr) # cs)"
  shows "addrs_ok (before cs @ (addrs t @ p # addrs sl @ sa # addrs sr) @ after cs)"
    and "hctx (nodes s) p cs" and "root s = rtop p cs" and "htree (nodes s) p t"
    and "nodes s p = \<lparr>parent_color = up cs OR colw c, rb_right = sa, rb_left = ref t\<rparr>"
    and "nodes s sa = \<lparr>parent_color = p OR colw sc, rb_right = ref sr, rb_left = ref sl\<rparr>"
    and "htree (nodes s) sa sl" and "htree (nodes s) sa sr"
  using at by (simp_all add: rb_at_def)

lemma sib_mem_FL:
  assumes "addrs_ok (before cs @ (addrs t @ p # addrs sl @ sa # addrs sr) @ after cs)"
  shows "p \<notin> set (addrs t)" "sa \<notin> set (addrs t)" "p \<notin> set (addrs sl)" "sa \<notin> set (addrs sl)"
    "p \<notin> set (addrs sr)" "sa \<notin> set (addrs sr)" "p \<notin> caddrs cs" "sa \<notin> caddrs cs"
    "p \<noteq> sa" "p \<noteq> 0" "sa \<noteq> 0" "ref sl \<noteq> p" "ref sl \<noteq> sa" "ref sr \<noteq> p" "ref sr \<noteq> sa"
    "set (addrs sl) \<inter> (caddrs cs \<union> set (addrs t) \<union> set (addrs sr)) = {}"
    "set (addrs sr) \<inter> (caddrs cs \<union> set (addrs t) \<union> set (addrs sl)) = {}"
    "addrs_ok (addrs sl)" "addrs_ok (addrs sr)" "link_addr p" "link_addr sa"
proof -
  note okd = assms [unfolded addrs_ok_simps]
  show m: "p \<notin> set (addrs t)" "sa \<notin> set (addrs t)" "p \<notin> set (addrs sl)" "sa \<notin> set (addrs sl)"
    "p \<notin> set (addrs sr)" "sa \<notin> set (addrs sr)" "p \<notin> caddrs cs" "sa \<notin> caddrs cs"
    "p \<noteq> sa" "p \<noteq> 0" "sa \<noteq> 0" "addrs_ok (addrs sl)" "addrs_ok (addrs sr)"
    "link_addr p" "link_addr sa"
    using okd by (simp add: caddrs_eq; blast?; fail)+
  show "ref sl \<noteq> p" "ref sl \<noteq> sa" "ref sr \<noteq> p" "ref sr \<noteq> sa"
    using m by (simp_all add: ref_neq)
  show "set (addrs sl) \<inter> (caddrs cs \<union> set (addrs t) \<union> set (addrs sr)) = {}"
    "set (addrs sr) \<inter> (caddrs cs \<union> set (addrs t) \<union> set (addrs sl)) = {}"
    using okd by (simp add: disjoint_simps; fail)+
qed

lemma erase_case1_left:
  assumes at: "rb_at s t (FL p c (Nd sl sa sc sr) # cs)" and sl: "sl \<noteq> Lf"
  shows "\<exists>s'. rb_erase_case1_left p sa s = (ref sl, s')
    \<and> rb_at s' (Nd (Nd t p Red (paint Black sl)) sa c sr) cs
    \<and> same_off (set (addrs (plug t (FL p c (Nd sl sa sc sr) # cs)))) s s'"
proof -
  note F = sib_facts_FL [OF at]
  note mem = sib_mem_FL [OF F(1)]
  have sl0: "ref sl \<noteq> 0" using sl mem by (simp add: ref_0_iff)
  note slr = ref_notin [OF mem(16) sl0]
  define s3 where "s3 = rb_set_parent_color (ref sl) p RB_BLACK
      (set_left sa p (set_right p (ref sl) s))"
  have B: "hctx (nodes s3) p cs" "root s3 = rtop p cs" "htree (nodes s3) p t" "htree (nodes s3) sa sr"
    "nodes s3 sa = \<lparr>parent_color = p OR colw sc, rb_right = ref sr, rb_left = p\<rparr>"
    "nodes s3 p = \<lparr>parent_color = up cs OR colw c, rb_right = ref (paint Black sl), rb_left = ref t\<rparr>"
    "htree (nodes s3) p (paint Black sl)"
    using F(2-) mem slr by (cases sl; simp add: s3_def rb_writes addrs_ok_simps; fail)+
  have off3: "same_off (set (addrs (plug t (FL p c (Nd sl sa sc sr) # cs)))) s s3"
    unfolding s3_def
    by (intro same_off_writes same_off_refl) (use ref_in_nz [OF sl0] in auto)
  let ?T = "Nd (Nd t p Red (paint Black sl)) sa c sr"
  have "rb_at (rb_rotate_set_parents p sa (colw Red) s3) ?T cs
      \<and> same_off (set (addrs (plug ?T cs))) s3 (rb_rotate_set_parents p sa (colw Red) s3)"
    by (rule rotate_finish [OF B(1,2) _ B(6,3,7), where l = sr and q = "p OR colw sc"])
       (use B(4,5) F(1) in simp_all)
  moreover have "rb_erase_case1_left p sa s
      = (ref sl, rb_rotate_set_parents p sa (colw Red) s3)"
    using F(6) by (simp add: rb_erase_case1_left_def Let_def s3_def left_of_def RB_RED_colw)
  ultimately show ?thesis using same_off_comp [OF off3] by simp
qed

lemma erase_case4_left:
  assumes at: "rb_at s t (FL p c (Nd sl sa sc sr) # cs)" and sr: "sr \<noteq> Lf"
  defines "s' \<equiv> rb_erase_case4_left p sa (ref sr) s"
  shows "rb_at s' (Nd (Nd t p Black sl) sa c (paint Black sr)) cs
    \<and> same_off (set (addrs (plug t (FL p c (Nd sl sa sc sr) # cs)))) s s'"
proof -
  note F = sib_facts_FL [OF at]
  note mem = sib_mem_FL [OF F(1)]
  have sr0: "ref sr \<noteq> 0" using sr mem by (simp add: ref_0_iff)
  note srr = ref_notin [OF mem(17) sr0]
  note slr = ref_notin [OF mem(16)]
  have ne: "ref sl \<noteq> 0 \<Longrightarrow> ref sl \<noteq> ref sr" using slr ref_in_nz [OF sr0] by auto
  define s4 where "s4 = (let s3 = rb_set_parent_color (ref sr) sa RB_BLACK
      (set_left sa p (set_right p (ref sl) s))
      in if ref sl \<noteq> 0 then rb_set_parent (ref sl) p s3 else s3)"
  have B: "hctx (nodes s4) p cs" "root s4 = rtop p cs" "htree (nodes s4) p t"
    "htree (nodes s4) sa (paint Black sr)"
    "nodes s4 sa = \<lparr>parent_color = p OR colw sc, rb_right = ref (paint Black sr), rb_left = p\<rparr>"
    "nodes s4 p = \<lparr>parent_color = up cs OR colw c, rb_right = ref sl, rb_left = ref t\<rparr>"
    "htree (nodes s4) p sl"
    using F(2-) mem slr srr ne
    by (cases sl; cases sr; simp add: s4_def Let_def rb_writes addrs_ok_simps; fail)+
  have off4: "same_off (set (addrs (plug t (FL p c (Nd sl sa sc sr) # cs)))) s s4"
    unfolding s4_def Let_def rb_set_parent_def
    by (intro same_off_if same_off_writes same_off_refl) (use ref_in_nz [OF sr0] in \<open>auto dest: ref_in_nz\<close>)
  let ?T = "Nd (Nd t p Black sl) sa c (paint Black sr)"
  have "rb_at (rb_rotate_set_parents p sa (colw Black) s4) ?T cs
      \<and> same_off (set (addrs (plug ?T cs))) s4 (rb_rotate_set_parents p sa (colw Black) s4)"
    by (rule rotate_finish [OF B(1,2) _ B(6,3,7), where l = "paint Black sr" and q = "p OR colw sc"])
       (use B(4,5) F(1) in simp_all)
  moreover have "s' = rb_rotate_set_parents p sa (colw Black) s4"
    using F(6) mem
    by (simp add: s'_def rb_erase_case4_left_def Let_def s4_def left_of_def RB_BLACK_colw)
  ultimately show ?thesis using same_off_comp [OF off4] by simp
qed

lemma erase_case34_left:
  assumes at: "rb_at s t (FL p c (Nd (Nd a la lc b) sa sc sr) # cs)"
  defines "s' \<equiv> rb_erase_case4_left p la sa (rb_erase_case3_left p sa la s)"
  shows "rb_at s' (Nd (Nd t p Black a) la c (Nd (paint Black b) sa Black sr)) cs
    \<and> same_off (set (addrs (plug t (FL p c (Nd (Nd a la lc b) sa sc sr) # cs)))) s s'"
proof -
  note F = sib_facts_FL [OF at]
  note mem = sib_mem_FL [OF F(1)]
  have la: "nodes s la = \<lparr>parent_color = sa OR colw lc, rb_right = ref b, rb_left = ref a\<rparr>"
    "htree (nodes s) la a" "htree (nodes s) la b"
    using F(7) by simp_all
  have okl: "addrs_ok (addrs a @ la # addrs b)" using mem(18) by simp
  have ml: "la \<noteq> sa" "la \<noteq> p" "la \<notin> caddrs cs" "la \<notin> set (addrs t)" "la \<notin> set (addrs sr)"
    "la \<notin> set (addrs a)" "la \<notin> set (addrs b)" "la \<noteq> 0" "link_addr la"
    "p \<notin> set (addrs a)" "p \<notin> set (addrs b)" "sa \<notin> set (addrs a)" "sa \<notin> set (addrs b)"
    "addrs_ok (addrs a)" "addrs_ok (addrs b)"
    using mem(3,4,16) okl by (auto simp: addrs_ok_simps)
  have refs: "ref a \<noteq> la" "ref a \<noteq> sa" "ref a \<noteq> p" "ref b \<noteq> la" "ref b \<noteq> sa" "ref b \<noteq> p"
    using ml mem by (simp_all add: ref_neq)
  have da: "set (addrs a) \<inter> (caddrs cs \<union> set (addrs t) \<union> set (addrs sr) \<union> set (addrs b)) = {}"
    "set (addrs b) \<inter> (caddrs cs \<union> set (addrs t) \<union> set (addrs sr) \<union> set (addrs a)) = {}"
    using mem(16) okl by (auto simp: addrs_ok_simps)
  note ra = ref_notin [OF da(1)] and rb = ref_notin [OF da(2)]
  have ab: "ref b \<noteq> 0 \<Longrightarrow> ref a \<noteq> ref b" using rb ref_in_nz [of a] by auto
  define s3 where "s3 = rb_erase_case3_left p sa la s"
  have B3: "hctx (nodes s3) p cs" "root s3 = rtop p cs" "htree (nodes s3) p t"
    "htree (nodes s3) la a" "htree (nodes s3) sa (paint Black b)" "htree (nodes s3) sa sr"
    "nodes s3 la = \<lparr>parent_color = sa OR colw lc, rb_right = sa, rb_left = ref a\<rparr>"
    "nodes s3 sa = \<lparr>parent_color = p OR colw sc, rb_right = ref sr, rb_left = ref b\<rparr>"
    "nodes s3 p = \<lparr>parent_color = up cs OR colw c, rb_right = la, rb_left = ref t\<rparr>"
    using F(2-6,8) la mem ml refs rb
    by (cases b; simp add: s3_def rb_erase_case3_left_def Let_def rb_writes right_of_def
          addrs_ok_simps; fail)+
  define s7 where "s7 = (let s6 = rb_set_parent_color sa la RB_BLACK
      (set_left la p (set_right p (ref a) s3))
      in if ref a \<noteq> 0 then rb_set_parent (ref a) p s6 else s6)"
  have B: "hctx (nodes s7) p cs" "root s7 = rtop p cs" "htree (nodes s7) p t"
    "htree (nodes s7) la (Nd (paint Black b) sa Black sr)"
    "nodes s7 la = \<lparr>parent_color = sa OR colw lc, rb_right = sa, rb_left = p\<rparr>"
    "nodes s7 p = \<lparr>parent_color = up cs OR colw c, rb_right = ref a, rb_left = ref t\<rparr>"
    "htree (nodes s7) p a"
    using B3 mem ml refs ra ab
    by (cases a; simp add: s7_def Let_def rb_writes addrs_ok_simps; fail)+
  have off7: "same_off (set (addrs (plug t (FL p c (Nd (Nd a la lc b) sa sc sr) # cs)))) s s7"
    unfolding s7_def s3_def Let_def rb_set_parent_def rb_erase_case3_left_def right_of_def la
    by (intro same_off_if same_off_writes same_off_refl) (auto dest: ref_in_nz)
  let ?T = "Nd (Nd t p Black a) la c (Nd (paint Black b) sa Black sr)"
  have "rb_at (rb_rotate_set_parents p la (colw Black) s7) ?T cs
      \<and> same_off (set (addrs (plug ?T cs))) s7 (rb_rotate_set_parents p la (colw Black) s7)"
    by (rule rotate_finish [OF B(1,2) _ B(6,3,7), where l = "Nd (paint Black b) sa Black sr"
          and q = "sa OR colw lc"])
       (use B(4,5) F(1) in simp_all)
  moreover have "s' = rb_rotate_set_parents p la (colw Black) s7"
    using B3(7) mem
    by (simp add: s'_def rb_erase_case4_left_def Let_def s7_def s3_def [symmetric] left_of_def
          RB_BLACK_colw)
  ultimately show ?thesis using same_off_comp [OF off7] by simp
qed

lemma sib_facts_FR:
  assumes at: "rb_at s t (FR (Nd sr sa sc sl) p c # cs)"
  shows "addrs_ok (before cs @ (addrs sr @ sa # addrs sl @ p # addrs t) @ after cs)"
    and "hctx (nodes s) p cs" and "root s = rtop p cs" and "htree (nodes s) p t"
    and "nodes s p = \<lparr>parent_color = up cs OR colw c, rb_right = ref t, rb_left = sa\<rparr>"
    and "nodes s sa = \<lparr>parent_color = p OR colw sc, rb_right = ref sl, rb_left = ref sr\<rparr>"
    and "htree (nodes s) sa sl" and "htree (nodes s) sa sr"
  using at by (simp_all add: rb_at_def)

lemma sib_mem_FR:
  assumes "addrs_ok (before cs @ (addrs sr @ sa # addrs sl @ p # addrs t) @ after cs)"
  shows "p \<notin> set (addrs t)" "sa \<notin> set (addrs t)" "p \<notin> set (addrs sl)" "sa \<notin> set (addrs sl)"
    "p \<notin> set (addrs sr)" "sa \<notin> set (addrs sr)" "p \<notin> caddrs cs" "sa \<notin> caddrs cs"
    "p \<noteq> sa" "p \<noteq> 0" "sa \<noteq> 0" "ref sl \<noteq> p" "ref sl \<noteq> sa" "ref sr \<noteq> p" "ref sr \<noteq> sa"
    "set (addrs sl) \<inter> (caddrs cs \<union> set (addrs t) \<union> set (addrs sr)) = {}"
    "set (addrs sr) \<inter> (caddrs cs \<union> set (addrs t) \<union> set (addrs sl)) = {}"
    "addrs_ok (addrs sl)" "addrs_ok (addrs sr)" "link_addr p" "link_addr sa"
proof -
  note okd = assms [unfolded addrs_ok_simps]
  show m: "p \<notin> set (addrs t)" "sa \<notin> set (addrs t)" "p \<notin> set (addrs sl)" "sa \<notin> set (addrs sl)"
    "p \<notin> set (addrs sr)" "sa \<notin> set (addrs sr)" "p \<notin> caddrs cs" "sa \<notin> caddrs cs"
    "p \<noteq> sa" "p \<noteq> 0" "sa \<noteq> 0" "addrs_ok (addrs sl)" "addrs_ok (addrs sr)"
    "link_addr p" "link_addr sa"
    using okd by (simp add: caddrs_eq; blast?; fail)+
  show "ref sl \<noteq> p" "ref sl \<noteq> sa" "ref sr \<noteq> p" "ref sr \<noteq> sa"
    using m by (simp_all add: ref_neq)
  show "set (addrs sl) \<inter> (caddrs cs \<union> set (addrs t) \<union> set (addrs sr)) = {}"
    "set (addrs sr) \<inter> (caddrs cs \<union> set (addrs t) \<union> set (addrs sl)) = {}"
    using okd by (simp add: disjoint_simps; fail)+
qed

lemma erase_case1_right:
  assumes at: "rb_at s t (FR (Nd sr sa sc sl) p c # cs)" and sl: "sl \<noteq> Lf"
  shows "\<exists>s'. rb_erase_case1_right p sa s = (ref sl, s')
    \<and> rb_at s' (Nd sr sa c (Nd (paint Black sl) p Red t)) cs
    \<and> same_off (set (addrs (plug t (FR (Nd sr sa sc sl) p c # cs)))) s s'"
proof -
  note F = sib_facts_FR [OF at]
  note mem = sib_mem_FR [OF F(1)]
  have sl0: "ref sl \<noteq> 0" using sl mem by (simp add: ref_0_iff)
  note slr = ref_notin [OF mem(16) sl0]
  define s3 where "s3 = rb_set_parent_color (ref sl) p RB_BLACK
      (set_right sa p (set_left p (ref sl) s))"
  have B: "hctx (nodes s3) p cs" "root s3 = rtop p cs" "htree (nodes s3) p t" "htree (nodes s3) sa sr"
    "nodes s3 sa = \<lparr>parent_color = p OR colw sc, rb_right = p, rb_left = ref sr\<rparr>"
    "nodes s3 p = \<lparr>parent_color = up cs OR colw c, rb_right = ref t, rb_left = ref (paint Black sl)\<rparr>"
    "htree (nodes s3) p (paint Black sl)"
    using F(2-) mem slr by (cases sl; simp add: s3_def rb_writes addrs_ok_simps; fail)+
  have off3: "same_off (set (addrs (plug t (FR (Nd sr sa sc sl) p c # cs)))) s s3"
    unfolding s3_def
    by (intro same_off_writes same_off_refl) (use ref_in_nz [OF sl0] in auto)
  let ?T = "Nd sr sa c (Nd (paint Black sl) p Red t)"
  have "rb_at (rb_rotate_set_parents p sa (colw Red) s3) ?T cs
      \<and> same_off (set (addrs (plug ?T cs))) s3 (rb_rotate_set_parents p sa (colw Red) s3)"
    by (rule rotate_finish [OF B(1,2) _ B(6,7,3), where l = sr and q = "p OR colw sc"])
       (use B(4,5) F(1) in simp_all)
  moreover have "rb_erase_case1_right p sa s
      = (ref sl, rb_rotate_set_parents p sa (colw Red) s3)"
    using F(6) by (simp add: rb_erase_case1_right_def Let_def s3_def right_of_def RB_RED_colw)
  ultimately show ?thesis using same_off_comp [OF off3] by simp
qed

lemma erase_case4_right:
  assumes at: "rb_at s t (FR (Nd sr sa sc sl) p c # cs)" and sr: "sr \<noteq> Lf"
  defines "s' \<equiv> rb_erase_case4_right p sa (ref sr) s"
  shows "rb_at s' (Nd (paint Black sr) sa c (Nd sl p Black t)) cs
    \<and> same_off (set (addrs (plug t (FR (Nd sr sa sc sl) p c # cs)))) s s'"
proof -
  note F = sib_facts_FR [OF at]
  note mem = sib_mem_FR [OF F(1)]
  have sr0: "ref sr \<noteq> 0" using sr mem by (simp add: ref_0_iff)
  note srr = ref_notin [OF mem(17) sr0]
  note slr = ref_notin [OF mem(16)]
  have ne: "ref sl \<noteq> 0 \<Longrightarrow> ref sl \<noteq> ref sr" using slr ref_in_nz [OF sr0] by auto
  define s4 where "s4 = (let s3 = rb_set_parent_color (ref sr) sa RB_BLACK
      (set_right sa p (set_left p (ref sl) s))
      in if ref sl \<noteq> 0 then rb_set_parent (ref sl) p s3 else s3)"
  have B: "hctx (nodes s4) p cs" "root s4 = rtop p cs" "htree (nodes s4) p t"
    "htree (nodes s4) sa (paint Black sr)"
    "nodes s4 sa = \<lparr>parent_color = p OR colw sc, rb_right = p, rb_left = ref (paint Black sr)\<rparr>"
    "nodes s4 p = \<lparr>parent_color = up cs OR colw c, rb_right = ref t, rb_left = ref sl\<rparr>"
    "htree (nodes s4) p sl"
    using F(2-) mem slr srr ne
    by (cases sl; cases sr; simp add: s4_def Let_def rb_writes addrs_ok_simps; fail)+
  have off4: "same_off (set (addrs (plug t (FR (Nd sr sa sc sl) p c # cs)))) s s4"
    unfolding s4_def Let_def rb_set_parent_def
    by (intro same_off_if same_off_writes same_off_refl) (use ref_in_nz [OF sr0] in \<open>auto dest: ref_in_nz\<close>)
  let ?T = "Nd (paint Black sr) sa c (Nd sl p Black t)"
  have "rb_at (rb_rotate_set_parents p sa (colw Black) s4) ?T cs
      \<and> same_off (set (addrs (plug ?T cs))) s4 (rb_rotate_set_parents p sa (colw Black) s4)"
    by (rule rotate_finish [OF B(1,2) _ B(6,7,3), where l = "paint Black sr" and q = "p OR colw sc"])
       (use B(4,5) F(1) in simp_all)
  moreover have "s' = rb_rotate_set_parents p sa (colw Black) s4"
    using F(6) mem
    by (simp add: s'_def rb_erase_case4_right_def Let_def s4_def right_of_def RB_BLACK_colw)
  ultimately show ?thesis using same_off_comp [OF off4] by simp
qed

lemma erase_case34_right:
  assumes at: "rb_at s t (FR (Nd sr sa sc (Nd b la lc a)) p c # cs)"
  defines "s' \<equiv> rb_erase_case4_right p la sa (rb_erase_case3_right p sa la s)"
  shows "rb_at s' (Nd (Nd sr sa Black (paint Black b)) la c (Nd a p Black t)) cs
    \<and> same_off (set (addrs (plug t (FR (Nd sr sa sc (Nd b la lc a)) p c # cs)))) s s'"
proof -
  note F = sib_facts_FR [OF at]
  note mem = sib_mem_FR [OF F(1)]
  have la: "nodes s la = \<lparr>parent_color = sa OR colw lc, rb_right = ref a, rb_left = ref b\<rparr>"
    "htree (nodes s) la a" "htree (nodes s) la b"
    using F(7) by simp_all
  have okl: "addrs_ok (addrs b @ la # addrs a)" using mem(18) by simp
  have ml: "la \<noteq> sa" "la \<noteq> p" "la \<notin> caddrs cs" "la \<notin> set (addrs t)" "la \<notin> set (addrs sr)"
    "la \<notin> set (addrs a)" "la \<notin> set (addrs b)" "la \<noteq> 0" "link_addr la"
    "p \<notin> set (addrs a)" "p \<notin> set (addrs b)" "sa \<notin> set (addrs a)" "sa \<notin> set (addrs b)"
    "addrs_ok (addrs a)" "addrs_ok (addrs b)"
    using mem(3,4,16) okl by (auto simp: addrs_ok_simps)
  have refs: "ref a \<noteq> la" "ref a \<noteq> sa" "ref a \<noteq> p" "ref b \<noteq> la" "ref b \<noteq> sa" "ref b \<noteq> p"
    using ml mem by (simp_all add: ref_neq)
  have da: "set (addrs a) \<inter> (caddrs cs \<union> set (addrs t) \<union> set (addrs sr) \<union> set (addrs b)) = {}"
    "set (addrs b) \<inter> (caddrs cs \<union> set (addrs t) \<union> set (addrs sr) \<union> set (addrs a)) = {}"
    using mem(16) okl by (auto simp: addrs_ok_simps)
  note ra = ref_notin [OF da(1)] and rb = ref_notin [OF da(2)]
  have ab: "ref b \<noteq> 0 \<Longrightarrow> ref a \<noteq> ref b" using rb ref_in_nz [of a] by auto
  define s3 where "s3 = rb_erase_case3_right p sa la s"
  have B3: "hctx (nodes s3) p cs" "root s3 = rtop p cs" "htree (nodes s3) p t"
    "htree (nodes s3) la a" "htree (nodes s3) sa (paint Black b)" "htree (nodes s3) sa sr"
    "nodes s3 la = \<lparr>parent_color = sa OR colw lc, rb_right = ref a, rb_left = sa\<rparr>"
    "nodes s3 sa = \<lparr>parent_color = p OR colw sc, rb_right = ref b, rb_left = ref sr\<rparr>"
    "nodes s3 p = \<lparr>parent_color = up cs OR colw c, rb_right = ref t, rb_left = la\<rparr>"
    using F(2-6,8) la mem ml refs rb
    by (cases b; simp add: s3_def rb_erase_case3_right_def Let_def rb_writes left_of_def
          addrs_ok_simps; fail)+
  define s7 where "s7 = (let s6 = rb_set_parent_color sa la RB_BLACK
      (set_right la p (set_left p (ref a) s3))
      in if ref a \<noteq> 0 then rb_set_parent (ref a) p s6 else s6)"
  have B: "hctx (nodes s7) p cs" "root s7 = rtop p cs" "htree (nodes s7) p t"
    "htree (nodes s7) la (Nd sr sa Black (paint Black b))"
    "nodes s7 la = \<lparr>parent_color = sa OR colw lc, rb_right = p, rb_left = sa\<rparr>"
    "nodes s7 p = \<lparr>parent_color = up cs OR colw c, rb_right = ref t, rb_left = ref a\<rparr>"
    "htree (nodes s7) p a"
    using B3 mem ml refs ra ab
    by (cases a; simp add: s7_def Let_def rb_writes addrs_ok_simps; fail)+
  have off7: "same_off (set (addrs (plug t (FR (Nd sr sa sc (Nd b la lc a)) p c # cs)))) s s7"
    unfolding s7_def s3_def Let_def rb_set_parent_def rb_erase_case3_right_def left_of_def la
    by (intro same_off_if same_off_writes same_off_refl) (auto dest: ref_in_nz)
  let ?T = "Nd (Nd sr sa Black (paint Black b)) la c (Nd a p Black t)"
  have "rb_at (rb_rotate_set_parents p la (colw Black) s7) ?T cs
      \<and> same_off (set (addrs (plug ?T cs))) s7 (rb_rotate_set_parents p la (colw Black) s7)"
    by (rule rotate_finish [OF B(1,2) _ B(6,7,3), where l = "Nd sr sa Black (paint Black b)"
          and q = "sa OR colw lc"])
       (use B(4,5) F(1) in simp_all)
  moreover have "s' = rb_rotate_set_parents p la (colw Black) s7"
    using B3(7) mem
    by (simp add: s'_def rb_erase_case4_right_def Let_def s7_def s3_def [symmetric] right_of_def
          RB_BLACK_colw)
  ultimately show ?thesis using same_off_comp [OF off7] by simp
qed

section \<open>The zipper form of the rebalancing\<close>

text \<open>
  The new subtree at the parent and whether it is still one black node short. The sibling is
  black in \<open>esib_*\<close>; \<open>estep\<close> does case 1 first when it is red.
\<close>

fun esib_left :: "rtree \<Rightarrow> u32 \<Rightarrow> color \<Rightarrow> rtree \<Rightarrow> rtree \<times> bool" where
  "esib_left t p c Lf = (Nd t p c Lf, False)"
| "esib_left t p c (Nd sl sa sc sr) =
     (if tcol sr = Red then (Nd (Nd t p Black sl) sa c (paint Black sr), False)
      else case sl of
             Nd a la Red b \<Rightarrow> (Nd (Nd t p Black a) la c (Nd (paint Black b) sa Black sr), False)
           | _ \<Rightarrow> (Nd t p Black (Nd sl sa Red sr), c = Black))"

fun esib_right :: "rtree \<Rightarrow> u32 \<Rightarrow> color \<Rightarrow> rtree \<Rightarrow> rtree \<times> bool" where
  "esib_right t p c Lf = (Nd Lf p c t, False)"
| "esib_right t p c (Nd sr sa sc sl) =
     (if tcol sr = Red then (Nd (paint Black sr) sa c (Nd sl p Black t), False)
      else case sl of
             Nd b la Red a \<Rightarrow> (Nd (Nd sr sa Black (paint Black b)) la c (Nd a p Black t), False)
           | _ \<Rightarrow> (Nd (Nd sr sa Red sl) p Black t, c = Black))"

fun estep :: "rtree \<Rightarrow> rframe \<Rightarrow> rtree \<times> bool" where
  "estep t (FL p c (Nd sl sa Red sr)) = (Nd (fst (esib_left t p Red (paint Black sl))) sa c sr, False)"
| "estep t (FL p c s) = esib_left t p c s"
| "estep t (FR (Nd sr sa Red sl) p c) = (Nd sr sa c (fst (esib_right t p Red (paint Black sl))), False)"
| "estep t (FR s p c) = esib_right t p c s"

primrec efix :: "rtree \<Rightarrow> rframe list \<Rightarrow> rtree" where
  "efix t [] = t"
| "efix t (f # cs) =
     (if snd (estep t f) then efix (fst (estep t f)) cs else plug (fst (estep t f)) cs)"

section \<open>The loop refines the zipper form\<close>

lemma sib_left_refines:
  assumes at: "rb_at s t (FL p c (Nd sl sa sc sr) # cs)"
  shows "\<exists>s'. rb_erase_sib_left p sa s = (snd (esib_left t p c (Nd sl sa sc sr)), s')
    \<and> rb_at s' (fst (esib_left t p c (Nd sl sa sc sr))) cs
    \<and> same_off (set (addrs (plug t (FL p c (Nd sl sa sc sr) # cs)))) s s'"
proof -
  note F = sib_facts_FL [OF at]
  note mem = sib_mem_FL [OF F(1)]
  have rd: "right_of s sa = ref sr" "left_of s sa = ref sl"
    using F(6) by (simp_all add: right_of_def left_of_def)
  have cl: "ref sl = 0 \<or> rb_is_black s (ref sl) \<longleftrightarrow> tcol sl = Black"
    and cr: "ref sr = 0 \<or> rb_is_black s (ref sr) \<longleftrightarrow> tcol sr = Black"
    using rb_is_red_sub(2) [OF F(7) mem(21,18)] rb_is_red_sub(2) [OF F(8) mem(21,19)] by blast+
  consider (c4) "tcol sr = Red"
    | (c3) a la b where "tcol sr = Black" "sl = Nd a la Red b"
    | (c2) "tcol sr = Black" "tcol sl = Black"
    by (metis color.exhaust rtree.exhaust tcol.simps)
  then show ?thesis
  proof cases
    case c4
    then have "sr \<noteq> Lf" by auto
    with c4 show ?thesis
      using erase_case4_left [OF at] cr rd
      by (auto simp: rb_erase_sib_left_def Let_def)
  next
    case c3
    then show ?thesis
      using erase_case34_left [of s t p c a la Red b sa sc sr cs] at cl cr rd
      by (simp add: rb_erase_sib_left_def Let_def)
  next
    case c2
    let ?s2 = "rb_set_parent_color sa p RB_RED s"
    have e: "esib_left t p c (Nd sl sa sc sr) = (Nd t p Black (Nd sl sa Red sr), c = Black)"
      using c2 by (cases sl) auto
    have up: "link_addr (up cs)" using link_up [OF F(1)] .
    have 1: "rb_erase_sib_left p sa s
        = (if rb_is_red ?s2 p then (False, rb_set_black p ?s2) else (True, ?s2))"
      using c2 cl cr rd by (simp add: rb_erase_sib_left_def Let_def)
    have 2: "rb_is_red ?s2 p \<longleftrightarrow> c = Red"
      using F(5) mem up by (cases c) (simp_all add: rb_reads rb_writes)
    have 3: "rb_at (if c = Red then rb_set_black p ?s2 else ?s2) (Nd t p Black (Nd sl sa Red sr)) cs"
      using F mem by (cases c) (simp_all add: rb_at_def rb_writes)
    have 4: "same_off (set (addrs (plug t (FL p c (Nd sl sa sc sr) # cs)))) s
        (if c = Red then rb_set_black p ?s2 else ?s2)"
      unfolding rb_set_black_def by (intro same_off_if same_off_writes same_off_refl) auto
    show ?thesis unfolding 1 2 e using 3 4 by (cases c) auto
  qed
qed

lemma sib_right_refines:
  assumes at: "rb_at s t (FR (Nd sr sa sc sl) p c # cs)"
  shows "\<exists>s'. rb_erase_sib_right p sa s = (snd (esib_right t p c (Nd sr sa sc sl)), s')
    \<and> rb_at s' (fst (esib_right t p c (Nd sr sa sc sl))) cs
    \<and> same_off (set (addrs (plug t (FR (Nd sr sa sc sl) p c # cs)))) s s'"
proof -
  note F = sib_facts_FR [OF at]
  note mem = sib_mem_FR [OF F(1)]
  have rd: "left_of s sa = ref sr" "right_of s sa = ref sl"
    using F(6) by (simp_all add: right_of_def left_of_def)
  have cl: "ref sl = 0 \<or> rb_is_black s (ref sl) \<longleftrightarrow> tcol sl = Black"
    and cr: "ref sr = 0 \<or> rb_is_black s (ref sr) \<longleftrightarrow> tcol sr = Black"
    using rb_is_red_sub(2) [OF F(7) mem(21,18)] rb_is_red_sub(2) [OF F(8) mem(21,19)] by blast+
  consider (c4) "tcol sr = Red"
    | (c3) a la b where "tcol sr = Black" "sl = Nd b la Red a"
    | (c2) "tcol sr = Black" "tcol sl = Black"
    by (metis color.exhaust rtree.exhaust tcol.simps)
  then show ?thesis
  proof cases
    case c4
    then have "sr \<noteq> Lf" by auto
    with c4 show ?thesis
      using erase_case4_right [OF at] cr rd
      by (auto simp: rb_erase_sib_right_def Let_def)
  next
    case c3
    then show ?thesis
      using erase_case34_right [of s t sr sa sc b la Red a p c cs] at cl cr rd
      by (simp add: rb_erase_sib_right_def Let_def)
  next
    case c2
    let ?s2 = "rb_set_parent_color sa p RB_RED s"
    have e: "esib_right t p c (Nd sr sa sc sl) = (Nd (Nd sr sa Red sl) p Black t, c = Black)"
      using c2 by (cases sl) auto
    have up: "link_addr (up cs)" using link_up [OF F(1)] .
    have 1: "rb_erase_sib_right p sa s
        = (if rb_is_red ?s2 p then (False, rb_set_black p ?s2) else (True, ?s2))"
      using c2 cl cr rd by (simp add: rb_erase_sib_right_def Let_def)
    have 2: "rb_is_red ?s2 p \<longleftrightarrow> c = Red"
      using F(5) mem up by (cases c) (simp_all add: rb_reads rb_writes)
    have 3: "rb_at (if c = Red then rb_set_black p ?s2 else ?s2) (Nd (Nd sr sa Red sl) p Black t) cs"
      using F mem by (cases c) (simp_all add: rb_at_def rb_writes)
    have 4: "same_off (set (addrs (plug t (FR (Nd sr sa sc sl) p c # cs)))) s
        (if c = Red then rb_set_black p ?s2 else ?s2)"
      unfolding rb_set_black_def by (intro same_off_if same_off_writes same_off_refl) auto
    show ?thesis unfolding 1 2 e using 3 4 by (cases c) auto
  qed
qed

lemma black_paint: "tcol t = Red \<Longrightarrow> \<exists>l a r. t = Nd l a Red r \<and> paint Black t = Nd l a Black r"
  by (cases t) auto

lemma step_refines_FL:
  assumes at: "rb_at s t (FL p c sib # cs)" and sib: "sib \<noteq> Lf"
    and red: "\<And>l a r. sib = Nd l a Red r \<Longrightarrow> l \<noteq> Lf"
  shows "\<exists>s'. rb_erase_step (ref t) p s = (snd (estep t (FL p c sib)), s')
    \<and> rb_at s' (fst (estep t (FL p c sib))) cs
    \<and> same_off (set (addrs (plug t (FL p c sib # cs)))) s s'"
proof -
  note rd = rb_at_reads [OF at]
  have ok: "addrs_ok (addrs t @ p # addrs sib)" using at by (simp add: rb_at_def addrs_ok_simps) blast
  have ne: "ref t \<noteq> ref sib"
  proof -
    have "set (addrs t) \<inter> set (addrs sib) = {}" "node_addr (ref sib)"
      using ok ref_in [OF sib] by (auto simp: addrs_ok_def)
    then show ?thesis using ref_notin ref_in [OF sib] node_addr_nz by metis
  qed
  have rs: "rb_is_red s (ref sib) \<longleftrightarrow> tcol sib = Red"
    using rb_is_red_sub(1) [OF rb_at_sibling [OF at]] sib ok by (simp add: ref_0_iff addrs_ok_simps)
  obtain sl sa sc sr where S: "sib = Nd sl sa sc sr" using sib by (cases sib) auto
  show ?thesis
  proof (cases sc)
    case Black
    then show ?thesis
      using sib_left_refines [OF at [unfolded S]] rd ne rs
      by (simp add: rb_erase_step_def S Let_def)
  next
    case Red
    have sl: "sl \<noteq> Lf" using red S Red by simp
    let ?sl = "paint Black sl"
    obtain s1 where s1: "rb_erase_case1_left p sa s = (ref sl, s1)"
      "rb_at s1 (Nd (Nd t p Red ?sl) sa c sr) cs"
      "same_off (set (addrs (plug t (FL p c sib # cs)))) s s1"
      using erase_case1_left [OF at [unfolded S] sl] unfolding S by blast
    obtain ll la lc lr where L: "sl = Nd ll la lc lr" using sl by (cases sl) auto
    have at1: "rb_at s1 t (FL p Red (Nd ll la Black lr) # FL sa c sr # cs)"
      using s1(2) by (simp add: rb_at_step L)
    obtain s2 where s2: "rb_erase_sib_left p la s1 = (snd (esib_left t p Red (Nd ll la Black lr)), s2)"
      "rb_at s2 (fst (esib_left t p Red (Nd ll la Black lr))) (FL sa c sr # cs)"
      "same_off (set (addrs (plug t (FL p Red (Nd ll la Black lr) # FL sa c sr # cs)))) s1 s2"
      using sib_left_refines [OF at1] by blast
    have sn: "snd (esib_left t p Red (Nd ll la Black lr)) = False"
      by (auto split: rtree.splits color.splits)
    have "rb_erase_step (ref t) p s = (False, s2)"
      using rd ne rs s1(1) s2(1) sn Red by (simp add: rb_erase_step_def S L Let_def)
    moreover have "rb_at s2 (fst (estep t (FL p c sib))) cs"
      using s2(2) Red by (simp add: S L rb_at_step)
    moreover have "same_off (set (addrs (plug t (FL p c sib # cs)))) s s2"
      by (rule same_off_trans [OF s1(3) s2(3)]) (auto simp: S L)
    ultimately show ?thesis by (simp add: S Red)
  qed
qed

lemma step_refines_FR:
  assumes at: "rb_at s t (FR sib p c # cs)" and sib: "sib \<noteq> Lf"
    and red: "\<And>l a r. sib = Nd l a Red r \<Longrightarrow> r \<noteq> Lf"
  shows "\<exists>s'. rb_erase_step (ref t) p s = (snd (estep t (FR sib p c)), s')
    \<and> rb_at s' (fst (estep t (FR sib p c))) cs
    \<and> same_off (set (addrs (plug t (FR sib p c # cs)))) s s'"
proof -
  note rd = rb_at_reads [OF at]
  have ok: "addrs_ok (addrs sib @ p # addrs t)" using at by (simp add: rb_at_def addrs_ok_simps) blast
  have ne: "ref t \<noteq> ref sib"
  proof -
    have "set (addrs t) \<inter> set (addrs sib) = {}" "node_addr (ref sib)"
      using ok ref_in [OF sib] by (auto simp: addrs_ok_def)
    then show ?thesis using ref_notin ref_in [OF sib] node_addr_nz by metis
  qed
  have rs: "rb_is_red s (ref sib) \<longleftrightarrow> tcol sib = Red"
    using rb_is_red_sub(1) [OF rb_at_sibling [OF at]] sib ok by (simp add: ref_0_iff addrs_ok_simps)
  obtain sl sa sc sr where S: "sib = Nd sr sa sc sl" using sib by (cases sib) auto
  show ?thesis
  proof (cases sc)
    case Black
    then show ?thesis
      using sib_right_refines [OF at [unfolded S]] rd ne rs
      by (simp add: rb_erase_step_def S Let_def)
  next
    case Red
    have sl: "sl \<noteq> Lf" using red S Red by simp
    let ?sl = "paint Black sl"
    obtain s1 where s1: "rb_erase_case1_right p sa s = (ref sl, s1)"
      "rb_at s1 (Nd sr sa c (Nd ?sl p Red t)) cs"
      "same_off (set (addrs (plug t (FR sib p c # cs)))) s s1"
      using erase_case1_right [OF at [unfolded S] sl] unfolding S by blast
    obtain ll la lc lr where L: "sl = Nd ll la lc lr" using sl by (cases sl) auto
    have at1: "rb_at s1 t (FR (Nd ll la Black lr) p Red # FR sr sa c # cs)"
      using s1(2) by (simp add: rb_at_step L)
    obtain s2 where s2: "rb_erase_sib_right p la s1 = (snd (esib_right t p Red (Nd ll la Black lr)), s2)"
      "rb_at s2 (fst (esib_right t p Red (Nd ll la Black lr))) (FR sr sa c # cs)"
      "same_off (set (addrs (plug t (FR (Nd ll la Black lr) p Red # FR sr sa c # cs)))) s1 s2"
      using sib_right_refines [OF at1] by blast
    have sn: "snd (esib_right t p Red (Nd ll la Black lr)) = False"
      by (auto split: rtree.splits color.splits)
    have "rb_erase_step (ref t) p s = (False, s2)"
      using rd ne rs s1(1) s2(1) sn Red by (simp add: rb_erase_step_def S L Let_def)
    moreover have "rb_at s2 (fst (estep t (FR sib p c))) cs"
      using s2(2) Red by (simp add: S L rb_at_step)
    moreover have "same_off (set (addrs (plug t (FR sib p c # cs)))) s s2"
      by (rule same_off_trans [OF s1(3) s2(3)]) (auto simp: S L)
    ultimately show ?thesis by (simp add: S Red)
  qed
qed

text \<open>
  The loop invariant of \<open>____rb_erase_color\<close>: the focused subtree is black and one black node
  short of what its context expects.
\<close>

definition short_at :: "rtree \<Rightarrow> rframe list \<Rightarrow> bool" where
  "short_at t cs \<longleftrightarrow> invc t \<and> invh t \<and> tcol t = Black \<and> cinv (Suc (bh t)) cs"

lemma bh_paint_Black [simp]: "tcol t = Red \<Longrightarrow> bh (paint Black t) = Suc (bh t)"
  by simp

lemma not_Red: "c \<noteq> Red \<longleftrightarrow> c = Black" and not_Black: "c \<noteq> Black \<longleftrightarrow> c = Red"
  by (cases c; simp)+

lemma estep_short:
  assumes "short_at t (f # cs)" and "snd (estep t f)"
  shows "short_at (fst (estep t f)) cs"
  using assms
  by (cases "(t, f)" rule: estep.cases;
      simp add: short_at_def not_Red split: rtree.splits color.splits if_splits)

lemma esib_done:
  assumes "invc t" "invh t" "tcol t = Black" and "invc s" "invh s" "tcol s = Black"
    and "bh s = Suc (bh t)"
  shows "\<not> snd (esib_left t p c s) \<Longrightarrow>
      (let u = fst (esib_left t p c s)
       in invc u \<and> invh u \<and> bh u = Suc (bh t) + (if c = Black then 1 else 0)
          \<and> (c = Black \<longrightarrow> tcol u = Black))"
    and "\<not> snd (esib_right t p c s) \<Longrightarrow>
      (let u = fst (esib_right t p c s)
       in invc u \<and> invh u \<and> bh u = Suc (bh t) + (if c = Black then 1 else 0)
          \<and> (c = Black \<longrightarrow> tcol u = Black))"
  using assms
  by (cases s; auto simp: Let_def not_Red not_Black split: rtree.splits color.splits if_splits)+

lemma esib_red_snd [simp]:
  "snd (esib_left t p Red s) = False" "snd (esib_right t p Red s) = False"
  by (cases s; auto split: rtree.splits color.splits)+

lemma estep_done:
  assumes "short_at t (f # cs)" and "\<not> snd (estep t f)"
  shows "rbt (plug (fst (estep t f)) cs)"
proof -
  let ?s = "ftree f"
  have c: "cinv (Suc (bh t) + (if fcol f = Black then 1 else 0)) cs" "bh ?s = Suc (bh t)"
    "invc ?s" "invh ?s" "fcol f = Red \<Longrightarrow> tcol ?s = Black \<and> ctop cs = Black"
    and t: "invc t" "invh t" "tcol t = Black"
    using assms(1) by (auto simp: short_at_def)
  have "invc (fst (estep t f)) \<and> invh (fst (estep t f))
      \<and> bh (fst (estep t f)) = Suc (bh t) + (if fcol f = Black then 1 else 0)
      \<and> (fcol f = Black \<longrightarrow> tcol (fst (estep t f)) = Black)"
  proof (cases "tcol ?s = Red")
    case True
    then obtain l a r where s: "?s = Nd l a Red r" by (cases ?s) auto
    then have "fcol f = Black" using c(5) by (cases "fcol f") auto
    then show ?thesis
      using c t s esib_done(1) [of t l "faddr f" Red] esib_done(2) [of t r "faddr f" Red]
      by (cases f) (simp_all add: Let_def)
  next
    case False
    then have "estep t f = (case f of FL p d s \<Rightarrow> esib_left t p d s | FR s p d \<Rightarrow> esib_right t p d s)"
      by (cases "(t, f)" rule: estep.cases) auto
    then show ?thesis
      using assms(2) c t False esib_done [of t ?s "faddr f" "fcol f"]
      by (cases f; cases "fcol f") (simp_all add: Let_def not_Red)
  qed
  then show ?thesis using c by (cases "fcol f") (auto simp: rbt_plug)
qed

lemma addrs_esib [simp]:
  "addrs (fst (esib_left t p c s)) = addrs t @ p # addrs s"
  "addrs (fst (esib_right t p c s)) = addrs s @ p # addrs t"
  by (cases s; auto split: rtree.splits color.splits)+

lemma rbt_efix: "short_at t cs \<Longrightarrow> rbt (efix t cs)"
proof (induction cs arbitrary: t)
  case Nil
  then show ?case by (simp add: short_at_def rbt_def)
next
  case (Cons f cs)
  then show ?case using estep_short estep_done by simp
qed

lemma addrs_estep: "addrs (fst (estep t f)) = addrs (plug1 t f)"
  by (cases "(t, f)" rule: estep.cases)
     (auto split: rtree.splits color.splits)

lemma addrs_efix: "addrs (efix t cs) = addrs (plug t cs)"
  by (induction cs arbitrary: t) (simp_all add: addrs_estep)

lemma short_sibling:
  assumes "short_at t (f # cs)"
  shows "ftree f \<noteq> Lf" and "ftree f = Nd l a Red r \<Longrightarrow> l \<noteq> Lf \<and> r \<noteq> Lf"
  using assms by (auto simp: short_at_def)

lemma rb_parent_ref: "rb_at s t cs \<Longrightarrow> t \<noteq> Lf \<Longrightarrow> rb_parent s (ref t) = up cs"
  using link_up [of cs "addrs t"] by (cases t) (auto simp: rb_at_def rb_parent_def)

lemma rb_erase_loop_refines:
  assumes "rb_at s t cs" and "short_at t cs" and "cs \<noteq> []"
  shows "\<exists>s'. rb_erase_loop (ref t) (up cs) s = Some s' \<and> rb_tree s' (efix t cs)
    \<and> same_off (set (addrs (plug t cs))) s s'"
  using assms
proof (induction cs arbitrary: t s)
  case (Cons f cs)
  let ?u = "fst (estep t f)" and ?A = "set (addrs (plug t (f # cs)))"
  note sb = short_sibling [OF Cons.prems(2)]
  obtain s1 where s1: "rb_erase_step (ref t) (faddr f) s = (snd (estep t f), s1)"
    "rb_at s1 ?u cs" "same_off ?A s s1"
    using step_refines_FL step_refines_FR Cons.prems(1) sb
    by (cases f) (auto, blast+)
  show ?case
  proof (cases "snd (estep t f)")
    case False
    then have "rb_erase_loop (ref t) (up (f # cs)) s = Some s1"
      using s1(1) by (subst rb_erase_loop.simps) simp
    then show ?thesis using False s1 by (auto simp: rb_at_plug)
  next
    case True
    have r: "ref ?u = faddr f \<and> ?u \<noteq> Lf" using True sb(1)
      by (cases "(t, f)" rule: estep.cases) (auto split: rtree.splits color.splits if_splits)
    have par: "rb_parent s1 (faddr f) = up cs" using rb_parent_ref [OF s1(2)] r by simp
    show ?thesis
    proof (cases "cs = []")
      case True
      then have "rb_erase_loop (ref t) (up (f # cs)) s = Some s1"
        using s1(1) \<open>snd (estep t f)\<close> par by (subst rb_erase_loop.simps) simp
      then show ?thesis using s1 True \<open>snd (estep t f)\<close> by (auto simp: rb_at_Nil)
    next
      case False
      then have up: "up cs \<noteq> 0"
        using up_0_iff [of cs "addrs ?u"] s1(2) by (simp add: rb_at_def)
      obtain s2 where s2: "rb_erase_loop (ref ?u) (up cs) s1 = Some s2" "rb_tree s2 (efix ?u cs)"
        "same_off (set (addrs (plug ?u cs))) s1 s2"
        using Cons.IH [OF s1(2) estep_short [OF Cons.prems(2) True] False] by blast
      have "rb_erase_loop (ref t) (up (f # cs)) s = Some s2"
        using s1(1) True par up s2(1) r by (subst rb_erase_loop.simps) simp
      moreover have "same_off ?A s s2"
        by (rule same_off_trans [OF s1(3) s2(3)]) (auto simp: addrs_estep)
      ultimately show ?thesis using s2(2) True by simp
    qed
  qed
qed simp

section \<open>Unlinking a node: \<open>__rb_erase_augmented\<close>\<close>

lemma erase_no_left:
  assumes at: "rb_at s (Nd Lf x c r) cs"
  shows "\<exists>s'. rb_erase_augmented x s = Some (if r = Lf \<and> c = Black then up cs else 0, s')
    \<and> rb_at s' (paint c r) cs
    \<and> same_off (set (addrs (plug (Nd Lf x c r) cs))) s s'"
proof -
  have ok: "addrs_ok (before cs @ (x # addrs r) @ after cs)" using at by (simp add: rb_at_def)
  note okd = ok [unfolded addrs_ok_simps]
  have up: "link_addr (up cs)" using link_up [OF ok] .
  have A: "hctx (nodes s) x cs" "root s = rtop x cs" "htree (nodes s) x r"
    "nodes s x = \<lparr>parent_color = up cs OR colw c, rb_right = ref r, rb_left = 0\<rparr>"
    using at by (simp_all add: rb_at_def)
  have m: "x \<noteq> 0" "x \<notin> caddrs cs" "x \<notin> set (addrs r)" "set (addrs r) \<inter> caddrs cs = {}"
    "addrs_ok (addrs r)"
    using okd by (simp_all add: disjoint_simps)
  let ?s1 = "rb_change_child x (ref r) (up cs) s"
  note cc = change_child_at [OF A(1,2) ok m(1,2), where new = "ref r"]
  have par: "pc_parent (parent_color (nodes s x)) = up cs"
    using A(4) up by (simp add: pc_parent_def)
  have col: "pc_color (parent_color (nodes s x)) \<noteq> 0 \<longleftrightarrow> c = Black"
    using A(4) up by (cases c) simp_all
  have r1: "htree (nodes ?s1) x r"
    using A(3) m(4) by (subst htree_cong [where h = "nodes s"]) (auto intro!: cc(3))
  have off1: "same_off (set (addrs (plug (Nd Lf x c r) cs))) s ?s1"
    using cc(3) by (auto simp: same_off_def caddrs_eq)
  have rd: "left_of s x = 0" "right_of s x = ref r" using A(4) by (simp_all add: left_of_def right_of_def)
  show ?thesis
  proof (cases "r = Lf")
    case True
    then have "rb_erase_augmented x s = Some (if c = Black then up cs else 0, ?s1)"
      using rd par col by (simp add: rb_erase_augmented_def Let_def)
    moreover have "rb_at ?s1 (paint c r) cs"
      using cc(1,2) ok True by (simp add: rb_at_def addrs_ok_simps)
    ultimately show ?thesis using True off1 by simp
  next
    case False
    then obtain rl ra rc rr where R: "r = Nd rl ra rc rr" by (cases r) auto
    let ?s2 = "set_pc ra (up cs OR colw c) ?s1"
    have "rb_erase_augmented x s = Some (0, ?s2)"
      using rd par A(4) m(5) R
      by (simp add: rb_erase_augmented_def Let_def addrs_ok_simps)
    moreover have "rb_at ?s2 (paint c r) cs"
      using cc(1,2) ok m r1 R by (simp add: rb_at_def addrs_ok_simps)
    moreover have "same_off (set (addrs (plug (Nd Lf x c r) cs))) s ?s2"
      by (intro same_off_writes off1) (simp add: R)
    ultimately show ?thesis using False by simp
  qed
qed

lemma erase_no_right:
  assumes at: "rb_at s (Nd l x c Lf) cs" and l: "l \<noteq> Lf"
  shows "\<exists>s'. rb_erase_augmented x s = Some (0, s')
    \<and> rb_at s' (paint c l) cs
    \<and> same_off (set (addrs (plug (Nd l x c Lf) cs))) s s'"
proof -
  obtain ll la lc lr where L: "l = Nd ll la lc lr" using l by (cases l) auto
  have ok: "addrs_ok (before cs @ (addrs l @ [x]) @ after cs)" using at by (simp add: rb_at_def)
  note okd = ok [unfolded addrs_ok_simps]
  have up: "link_addr (up cs)" using link_up [OF ok] .
  have A: "hctx (nodes s) x cs" "root s = rtop x cs" "htree (nodes s) x l"
    "nodes s x = \<lparr>parent_color = up cs OR colw c, rb_right = 0, rb_left = la\<rparr>"
    using at by (simp_all add: rb_at_def L)
  have m: "x \<noteq> 0" "x \<notin> caddrs cs" "x \<notin> set (addrs l)" "set (addrs l) \<inter> caddrs cs = {}"
    "addrs_ok (addrs l)"
    using okd by (simp_all add: disjoint_simps)
  have la: "la \<noteq> 0" "la \<notin> caddrs cs" "la \<noteq> x" "la \<notin> set (addrs ll)" "la \<notin> set (addrs lr)"
    using m by (auto simp: L addrs_ok_simps)
  let ?s1 = "set_pc la (up cs OR colw c) s"
  let ?s2 = "rb_change_child x la (up cs) ?s1"
  have A1: "hctx (nodes ?s1) x cs" "root ?s1 = rtop x cs" using A la by simp_all
  note cc = change_child_at [OF A1 ok m(1,2), where new = la]
  have l1: "htree (nodes ?s1) (up cs) (paint c l)" using A(3) la by (simp add: L)
  have l2: "htree (nodes ?s2) (up cs) (paint c l)"
    by (subst htree_cong [where h = "nodes ?s1"]) (use l1 m(4) in \<open>auto intro!: cc(3) simp del: nodes_set\<close>)
  have "rb_erase_augmented x s = Some (0, ?s2)"
    using A(4) up la
    by (simp add: rb_erase_augmented_def Let_def left_of_def right_of_def pc_parent_def)
  moreover have "rb_at ?s2 (paint c l) cs"
    using cc(1,2) l2 ok by (simp add: rb_at_def addrs_ok_simps L)
  moreover have "same_off (set (addrs (plug (Nd l x c Lf) cs))) s ?s2"
    using cc(3) by (auto simp: same_off_def caddrs_eq L)
  ultimately show ?thesis by blast
qed

text \<open>A segment of a context, up to a node \<open>b\<close> above it.\<close>

primrec upb :: "u32 \<Rightarrow> rframe list \<Rightarrow> u32" where
  "upb b [] = b"
| "upb b (f # cs) = faddr f"

primrec hseg :: "(u32 \<Rightarrow> rb_node) \<Rightarrow> u32 \<Rightarrow> u32 \<Rightarrow> rframe list \<Rightarrow> bool" where
  "hseg h b x [] \<longleftrightarrow> True"
| "hseg h b x (f # cs) \<longleftrightarrow>
     h (faddr f) = (case f of
         FL a c r \<Rightarrow> \<lparr>parent_color = upb b cs OR colw c, rb_right = ref r, rb_left = x\<rparr>
       | FR l a c \<Rightarrow> \<lparr>parent_color = upb b cs OR colw c, rb_right = x, rb_left = ref l\<rparr>)
     \<and> htree h (faddr f) (ftree f) \<and> hseg h b (faddr f) cs"

lemma hseg_upd [simp]: "a \<notin> caddrs cs \<Longrightarrow> hseg (h(a := v)) b x cs = hseg h b x cs"
  by (induction cs arbitrary: x) (auto split: rframe.splits)

lemma htree_plug:
  "htree h b (plug t cs) \<longleftrightarrow> htree h (upb b cs) t \<and> hseg h b (ref t) cs"
proof (induction cs arbitrary: t)
  case (Cons f cs)
  then show ?case by (cases f) auto
qed simp

lemma hseg_cong:
  "(\<And>a. a \<in> caddrs cs \<Longrightarrow> h' a = h a) \<Longrightarrow> hseg h' b x cs = hseg h b x cs"
proof (induction cs arbitrary: x)
  case (Cons f cs)
  then show ?case using htree_cong [of "ftree f" h' h] by (cases f) auto
qed simp

lemma last_in_caddrs: "cs \<noteq> [] \<Longrightarrow> faddr (last cs) \<in> caddrs cs"
  by (induction cs) auto

lemma hseg_rebase:
  assumes "hseg h b x cs" and "cs \<noteq> []" and "addrs_ok (addrs (plug t cs))" and "link_addr b"
    and "h' (faddr (last cs)) = (h (faddr (last cs)))
           \<lparr>parent_color := pc_color (parent_color (h (faddr (last cs)))) OR y\<rparr>"
    and "\<And>a. a \<noteq> faddr (last cs) \<Longrightarrow> h' a = h a"
  shows "hseg h' y x cs"
  using assms
proof (induction cs arbitrary: x t)
  case (Cons f cs)
  have ok: "addrs_ok (before cs @ addrs (plug1 t f) @ after cs)" using Cons.prems(3) by simp
  have f: "faddr f \<notin> set (addrs (ftree f))"
    using ok by (cases f) (auto simp: addrs_ok_simps)
  show ?case
  proof (cases "cs = []")
    case True
    have "htree h' p (ftree f) = htree h p (ftree f)" for p
      using f True Cons.prems(6) by (intro htree_cong) (metis last_ConsL)
    then show ?thesis using Cons.prems(1,4,5) True by (cases f) simp_all
  next
    case False
    have z: "faddr (last cs) \<in> caddrs cs" using False by (rule last_in_caddrs)
    have "caddrs cs \<inter> set (addrs (plug1 t f)) = {}"
      using ok by (auto simp: addrs_ok_simps caddrs_eq)
    then have ne: "faddr (last cs) \<noteq> faddr f" "faddr (last cs) \<notin> set (addrs (ftree f))"
      using z by auto
    have "htree h' p (ftree f) = htree h p (ftree f)" for p
      using ne False Cons.prems(6) by (intro htree_cong) (metis last_ConsR)
    moreover have "h' (faddr f) = h (faddr f)"
      using ne(1) False Cons.prems(6) by (metis last_ConsR)
    moreover have "hseg h' y (faddr f) cs"
      using Cons.IH [of "faddr f" "plug1 t f"] Cons.prems False by simp
    ultimately show ?thesis
      using Cons.prems(1) False by (cases f; cases cs) simp_all
  qed
qed simp

lemma plug_neq_Lf [simp]: "t \<noteq> Lf \<Longrightarrow> plug t cs \<noteq> Lf"
  by (induction cs arbitrary: t) simp_all

lemma leftmost_split:
  "t \<noteq> Lf \<Longrightarrow> \<exists>y d c2 ds. t = plug (Nd Lf y d c2) ds \<and> (\<forall>f \<in> set ds. \<exists>a c r. f = FL a c r)"
proof (induction t)
  case (Nd l a c r)
  show ?case
  proof (cases "l = Lf")
    case True
    then show ?thesis by (metis empty_iff list.set(1) plug.simps(1))
  next
    case False
    then obtain y d c2 ds where "l = plug (Nd Lf y d c2) ds" "\<forall>f \<in> set ds. \<exists>a c r. f = FL a c r"
      using Nd.IH(1) by blast
    then have "Nd l a c r = plug (Nd Lf y d c2) (ds @ [FL a c r])
        \<and> (\<forall>f \<in> set (ds @ [FL a c r]). \<exists>a c r. f = FL a c r)"
      by (simp add: plug_append)
    then show ?thesis by blast
  qed
qed simp

lemma erase_succ_loop_leftmost:
  assumes "htree (nodes s) p (plug (Nd Lf y d c2) ds)"
    and "addrs_ok (addrs (plug (Nd Lf y d c2) ds))"
    and "\<forall>f \<in> set ds. \<exists>a c r. f = FL a c r" and "ds \<noteq> []"
  shows "erase_succ_loop (ref (plug (Nd Lf y d c2) ds)) (left_of s (ref (plug (Nd Lf y d c2) ds))) s
      = Some (faddr (hd ds), y)
    \<and> left_of s (ref (plug (Nd Lf y d c2) ds)) \<noteq> 0
    \<and> ref (plug (Nd Lf y d c2) ds) = faddr (last ds)"
  using assms
proof (induction ds arbitrary: p rule: rev_induct)
  case (snoc f ds)
  then obtain b c r where f: "f = FL b c r" by force
  let ?t = "plug (Nd Lf y d c2) ds"
  have t: "plug (Nd Lf y d c2) (ds @ [f]) = Nd ?t b c r" by (simp add: plug_append f)
  have lb: "left_of s b = ref ?t" and h: "htree (nodes s) b ?t"
    using snoc.prems(1) unfolding t by (simp_all add: left_of_def)
  have ok: "addrs_ok (addrs ?t)" using snoc.prems(2) unfolding t addrs.simps addrs_ok_append by simp
  have nl: "?t \<noteq> Lf" using addrs_plug [of "Nd Lf y d c2" ds] by force
  have nz: "ref ?t \<noteq> 0" using ok nl by (simp add: ref_0_iff)
  show ?case
  proof (cases "ds = []")
    case True
    have "left_of s y = 0" using h True by (simp add: left_of_def)
    then show ?thesis unfolding t using lb nz True f
      by (subst erase_succ_loop.simps) simp
  next
    case False
    have IH: "erase_succ_loop (ref ?t) (left_of s (ref ?t)) s = Some (faddr (hd ds), y)"
      "left_of s (ref ?t) \<noteq> 0"
      using snoc.IH [OF h ok _ False] snoc.prems(3) by auto
    then have "erase_succ_loop b (ref ?t) s = Some (faddr (hd ds), y)"
      by (subst erase_succ_loop.simps) simp
    then show ?thesis unfolding t using lb nz f False by simp
  qed
qed simp

text \<open>
  The second half of the two-children case: \<open>y\<close> takes the place of \<open>x\<close>, over the left subtree
  \<open>l\<close> and the right subtree without its leftmost node.
\<close>

lemma erase_relink_at:
  assumes ctx: "hctx (nodes s) x cs" and top: "root s = rtop x cs"
    and x: "parent_color (nodes s x) = up cs OR colw c" "left_of s x = ref l" "htree (nodes s) x l"
    and y: "nodes s y = \<lparr>parent_color = q OR colw d, rb_right = ref (plug c2 ds), rb_left = w\<rparr>"
    and seg: "hseg (nodes s) y (ref c2) ds" and c2: "htree (nodes s) y c2"
    and l: "l \<noteq> Lf" and q: "link_addr q"
    and ok: "addrs_ok (before cs @ (addrs l @ [x] @ before ds @ [y] @ addrs c2 @ after ds) @ after cs)"
  shows "\<exists>s'. rb_erase_relink x (upb y ds) y (ref c2) s
        = (if c2 = Lf \<and> d = Black then upb y ds else 0, s')
    \<and> rb_at s' (paint Black c2) (ds @ FR l y c # cs)
    \<and> same_off (set (before cs @ (addrs l @ [x] @ before ds @ [y] @ addrs c2 @ after ds) @ after cs)) s s'"
proof -
  note okd = ok [unfolded addrs_ok_append addrs_ok_Cons append_Cons append_Nil]
  let ?A = "set (before cs @ (addrs l @ [x] @ before ds @ [y] @ addrs c2 @ after ds) @ after cs)"
  have up: "link_addr (up cs)" using link_up [OF ok] .
  have m: "x \<noteq> 0" "x \<notin> caddrs cs" "y \<noteq> 0" "y \<notin> caddrs cs" "x \<noteq> y" "link_addr y" "link_addr x"
    "y \<notin> set (addrs l)" "x \<notin> set (addrs l)" "y \<notin> caddrs ds" "x \<notin> caddrs ds"
    "y \<notin> set (addrs c2)" "x \<notin> set (addrs c2)"
    "set (addrs c2) \<inter> caddrs cs = {}" "set (addrs c2) \<inter> caddrs ds = {}" "set (addrs l) \<inter> set (addrs c2) = {}"
    "set (addrs l) \<inter> caddrs cs = {}" "set (addrs l) \<inter> caddrs ds = {}" "caddrs ds \<inter> caddrs cs = {}"
    "addrs_ok (addrs c2)" "addrs_ok (addrs l)"
    using okd by (simp add: disjoint_simps; blast?; fail)+
  obtain ll la lc lr where L: "l = Nd ll la lc lr" using l by (cases l) auto
  have la: "la \<noteq> x" "la \<noteq> y" "la \<notin> caddrs cs" "la \<notin> caddrs ds" "la \<notin> set (addrs c2)" "la \<noteq> 0"
    "la \<notin> set (addrs ll)" "la \<notin> set (addrs lr)"
    using m by (auto simp: L addrs_ok_simps)
  have par: "link_addr (upb y ds)"
    using m okd by (cases ds) (auto simp: addrs_ok_simps split: rframe.splits)
  define s3 where "s3 = rb_set_parent la y (set_left y la s)"
  have lx: "left_of s x = la" using x(2) L by simp
  have C: "hctx (nodes s3) x cs" "root s3 = rtop x cs" "parent_color (nodes s3 x) = up cs OR colw c"
    "htree (nodes s3) y l" "hseg (nodes s3) y (ref c2) ds" "htree (nodes s3) y c2"
    "nodes s3 y = \<lparr>parent_color = q OR colw d, rb_right = ref (plug c2 ds), rb_left = la\<rparr>"
    using ctx top x(1,3) y seg c2 m la by (simp_all add: s3_def rb_set_parent_def L)
  define s4 where "s4 = rb_change_child x y (up cs) s3"
  note cc = change_child_at [OF C(1,2) ok m(1,2), where new = y, folded s4_def]
  have D: "parent_color (nodes s4 y) = q OR colw d" "htree (nodes s4) y l"
    "hseg (nodes s4) y (ref c2) ds" "htree (nodes s4) y c2"
    "nodes s4 y = \<lparr>parent_color = q OR colw d, rb_right = ref (plug c2 ds), rb_left = la\<rparr>"
  proof -
    have eq: "a \<in> set (addrs l) \<Longrightarrow> nodes s4 a = nodes s3 a" "a \<in> set (addrs c2) \<Longrightarrow> nodes s4 a = nodes s3 a"
      "a \<in> caddrs ds \<Longrightarrow> nodes s4 a = nodes s3 a" for a
      using m by (auto intro!: cc(3))
    show "parent_color (nodes s4 y) = q OR colw d" "htree (nodes s4) y l"
      "hseg (nodes s4) y (ref c2) ds" "htree (nodes s4) y c2"
      "nodes s4 y = \<lparr>parent_color = q OR colw d, rb_right = ref (plug c2 ds), rb_left = la\<rparr>"
      using C(4-7) cc(3) [OF m(4)] htree_cong [OF eq(1)] htree_cong [OF eq(2)] hseg_cong [OF eq(3)]
      by simp_all
  qed
  define s5 where "s5 = set_pc y (up cs OR colw c) s4"
  define s6 where "s6 = (if ref c2 \<noteq> 0 then rb_set_parent_color (ref c2) (upb y ds) RB_BLACK s5 else s5)"
  have pcx: "parent_color (nodes s3 x) = up cs OR colw c" by (rule C(3))
  have run: "rb_erase_relink x (upb y ds) y (ref c2) s
        = (if c2 = Lf \<and> d = Black then upb y ds else 0, s6)"
    using lx pcx up D(1) m q
    by (cases c2; cases d)
       (simp_all add: rb_erase_relink_def Let_def s3_def [symmetric] pc_parent_def
         s4_def [symmetric] s5_def [symmetric] s6_def addrs_ok_simps)
  have E5: "hctx (nodes s5) y cs" "root s5 = rtop y cs" "htree (nodes s5) y l"
    "hseg (nodes s5) y (ref c2) ds" "htree (nodes s5) y c2"
    "nodes s5 y = \<lparr>parent_color = up cs OR colw c, rb_right = ref (plug c2 ds), rb_left = la\<rparr>"
    using cc(1,2) D m by (simp_all add: s5_def)
  have E6: "hctx (nodes s6) y cs" "root s6 = rtop y cs" "htree (nodes s6) y l"
    "hseg (nodes s6) y (ref c2) ds" "htree (nodes s6) (upb y ds) (paint Black c2)"
    "nodes s6 y = \<lparr>parent_color = up cs OR colw c, rb_right = ref (plug c2 ds), rb_left = la\<rparr>"
    using E5 m by (cases c2; auto simp: s6_def rb_writes addrs_ok_simps)+
  have rp: "ref (plug (paint Black c2) ds) = ref (plug c2 ds)" by (simp add: ref_plug)
  have "rb_at s6 (Nd l y c (plug (paint Black c2) ds)) cs"
    using E6 ok rp
    by (simp add: rb_at_def htree_plug L addrs_ok_append addrs_ok_Cons)
  then have "rb_at s6 (paint Black c2) (ds @ FR l y c # cs)"
    by (simp add: rb_at_plug plug_append)
  moreover have "same_off ?A s s6"
  proof -
    have "same_off ?A s s3"
      unfolding s3_def rb_set_parent_def
      by (intro same_off_writes same_off_refl) (auto simp: L)
    moreover have "same_off ?A s3 s4" using cc(3) by (auto simp: same_off_def caddrs_eq)
    ultimately have "same_off ?A s s4" by (rule same_off_comp)
    then show ?thesis
      unfolding s6_def s5_def
      by (intro same_off_if same_off_writes) (auto dest: ref_in_nz)
  qed
  ultimately show ?thesis using run by blast
qed

text \<open>Both children present: the successor \<open>y\<close> is the leftmost node of the right subtree.\<close>

lemma erase_two_children:
  assumes at: "rb_at s (Nd l x c (plug (Nd Lf y d c2) ds)) cs" and l: "l \<noteq> Lf"
    and fl: "\<forall>f \<in> set ds. \<exists>a c r. f = FL a c r"
  shows "\<exists>s'. rb_erase_augmented x s = Some (if c2 = Lf \<and> d = Black then upb y ds else 0, s')
    \<and> rb_at s' (paint Black c2) (ds @ FR l y c # cs)
    \<and> same_off (set (addrs (plug (Nd l x c (plug (Nd Lf y d c2) ds)) cs))) s s'"
proof -
  let ?r = "plug (Nd Lf y d c2) ds"
  have ok: "addrs_ok (before cs @ (addrs l @ [x] @ before ds @ [y] @ addrs c2 @ after ds) @ after cs)"
    using at by (simp add: rb_at_def)
  have A: "hctx (nodes s) x cs" "root s = rtop x cs" "htree (nodes s) x l" "htree (nodes s) x ?r"
    "nodes s x = \<lparr>parent_color = up cs OR colw c, rb_right = ref ?r, rb_left = ref l\<rparr>"
    using at by (simp_all add: rb_at_def)
  have okr: "addrs_ok (addrs ?r)" "addrs_ok (addrs l)" "node_addr x" "x \<notin> set (addrs ?r)" "node_addr y"
    "y \<notin> set (addrs l)" "x \<notin> set (addrs l)" "set (addrs ?r) \<inter> caddrs cs = {}" "x \<noteq> y" "y \<notin> caddrs ds"
    "y \<notin> set (addrs c2)"
    "set (addrs l) \<inter> set (addrs ?r) = {}" "x \<notin> caddrs ds" "x \<notin> set (addrs c2)"
    "set (addrs c2) \<inter> caddrs ds = {}"
    using ok unfolding addrs_ok_append addrs_ok_Cons append_Cons append_Nil
    by (simp add: addrs_ok_append addrs_ok_Cons disjoint_simps; blast?; fail)+
  have nz: "ref ?r \<noteq> 0" "ref l \<noteq> 0"
    using okr(1,2) l by (simp_all add: ref_0_iff del: addrs_plug)
  have rd: "left_of s x = ref l" "right_of s x = ref ?r"
    using A(5) by (simp_all add: left_of_def right_of_def)
  have R: "htree (nodes s) (upb x ds) (Nd Lf y d c2)" "hseg (nodes s) x y ds"
    using A(4) by (simp_all add: htree_plug)
  have S: "set (addrs (plug (Nd l x c ?r) cs))
      = set (before cs @ (addrs l @ [x] @ before ds @ [y] @ addrs c2 @ after ds) @ after cs)"
    by simp
  show ?thesis
  proof (cases "ds = []")
    case True
    have y: "nodes s y = \<lparr>parent_color = x OR colw d, rb_right = ref (plug c2 ds), rb_left = 0\<rparr>"
      using R True by simp
    have "rb_erase_augmented x s = Some (rb_erase_relink x (upb y ds) y (ref c2) s)"
      using rd nz y True by (simp add: rb_erase_augmented_def Let_def left_of_def right_of_def)
    then show ?thesis
      using erase_relink_at [OF A(1,2) _ rd(1) A(3) y _ _ l _ ok, of c] A(5) R okr(3) True
      unfolding S by auto
  next
    case False
    obtain p0 pc0 pr0 ds' where D: "ds = FL p0 pc0 pr0 # ds'"
      using False fl by (cases ds) auto
    let ?z = "faddr (last ds)"
    note loop = erase_succ_loop_leftmost [OF A(4) okr(1) fl False]
    have z: "ref ?r = ?z" and zd: "?z \<in> caddrs ds"
      using loop last_in_caddrs [OF False] by auto
    have pd: "p0 \<in> caddrs ds" using D by simp
    define s1 where "s1 = set_left p0 (ref c2) s"
    define s2 where "s2 = set_right y ?z s1"
    define s3 where "s3 = rb_set_parent ?z y s2"
    have ne: "?z \<noteq> y" "p0 \<noteq> y" "?z \<noteq> x" "p0 \<noteq> x" using zd pd okr(10,13) by auto
    have dl: "a \<in> caddrs ds \<Longrightarrow> a \<notin> set (addrs l) \<and> a \<notin> caddrs cs \<and> a \<notin> set (addrs c2)" for a
      using okr(8,12,15) by (auto simp: caddrs_eq)
    have run: "rb_erase_augmented x s = Some (rb_erase_relink x (upb y ds) y (ref c2) s3)"
    proof -
      have L: "erase_succ_loop ?z (left_of s ?z) s = Some (p0, y)" "left_of s ?z \<noteq> 0"
        "right_of s y = ref c2" "upb y ds = p0"
        using loop R(1) unfolding z by (simp_all add: D right_of_def)
      show ?thesis
        using rd nz unfolding z by (simp add: rb_erase_augmented_def Let_def L s1_def s2_def s3_def)
    qed
    have "p0 \<notin> set (addrs pr0) \<and> p0 \<notin> caddrs ds'"
      using okr(1) unfolding D by (auto simp: addrs_ok_append addrs_ok_Cons caddrs_eq)
    then have seg1: "hseg (nodes s1) x (ref c2) ds"
      using R(2) by (simp add: D s1_def)
    have seg2: "hseg (nodes s2) x (ref c2) ds"
      using seg1 okr(10) by (simp add: s2_def)
    have seg3: "hseg (nodes s3) y (ref c2) ds"
      by (rule hseg_rebase [OF seg2 False okr(1)])
         (use okr(3) in \<open>simp_all add: s3_def rb_set_parent_def\<close>)
    have B: "hctx (nodes s3) x cs" "root s3 = rtop x cs" "htree (nodes s3) x l"
      "parent_color (nodes s3 x) = up cs OR colw c" "left_of s3 x = ref l" "htree (nodes s3) y c2"
      using A R dl [OF zd] dl [OF pd] ne okr
      by (simp_all add: s3_def s2_def s1_def rb_set_parent_def left_of_def caddrs_eq)
    have y3: "nodes s3 y = \<lparr>parent_color = p0 OR colw d, rb_right = ref (plug c2 ds), rb_left = 0\<rparr>"
      using R ne z by (simp add: s3_def s2_def s1_def rb_set_parent_def D ref_plug)
    have p0: "link_addr p0" using okr(1) D by (simp add: addrs_ok_append addrs_ok_Cons)
    have off: "same_off (set (before cs @ (addrs l @ [x] @ before ds @ [y] @ addrs c2 @ after ds) @ after cs)) s s3"
      unfolding s3_def s2_def s1_def rb_set_parent_def
      by (intro same_off_writes same_off_refl) (use zd pd in \<open>auto simp: caddrs_eq\<close>)
    show ?thesis
      using erase_relink_at [OF B(1,2,4,5,3) y3 seg3 B(6) l p0 ok] run same_off_comp [OF off]
      unfolding S by auto
  qed
qed

section \<open>\<open>rb_erase\<close>\<close>

lemma erase_finish:
  assumes at: "rb_at s t cs"
    and short: "reb \<noteq> 0 \<Longrightarrow> reb = up cs \<and> t = Lf \<and> short_at Lf cs"
    and dn: "reb = 0 \<Longrightarrow> rbt (plug t cs)"
  shows "\<exists>s' t'. (if reb \<noteq> 0 then rb_erase_color reb s else Some s) = Some s' \<and> rb_tree s' t' \<and> rbt t'
    \<and> addrs t' = before cs @ addrs t @ after cs \<and> same_off (set (addrs (plug t cs))) s s'"
proof (cases "reb = 0")
  case True
  then show ?thesis using at dn by (auto simp: rb_at_plug)
next
  case False
  then have sh: "reb = up cs" "t = Lf" "short_at Lf cs" "cs \<noteq> []" using short by auto
  obtain s' where "rb_erase_loop 0 (up cs) s = Some s'" "rb_tree s' (efix t cs)"
    "same_off (set (addrs (plug t cs))) s s'"
    using rb_erase_loop_refines [OF at] sh by auto
  then show ?thesis
    using False sh rbt_efix [OF sh(3)] by (auto simp: rb_erase_color_def addrs_efix)
qed

lemma remove_top:
  assumes "rbt (plug (Nd Lf a d c2) cs)"
  shows "c2 \<noteq> Lf \<or> d = Red \<or> cs = [] \<Longrightarrow> rbt (plug (paint Black c2) cs)"
    and "c2 = Lf \<Longrightarrow> d = Black \<Longrightarrow> cs \<noteq> [] \<Longrightarrow> short_at Lf cs"
    and "c2 \<noteq> Lf \<Longrightarrow> d = Black"
proof -
  show b: "c2 \<noteq> Lf \<Longrightarrow> d = Black"
    using assms by (cases c2; cases d) (auto simp: rbt_plug not_Red)
  show "c2 \<noteq> Lf \<or> d = Red \<or> cs = [] \<Longrightarrow> rbt (plug (paint Black c2) cs)"
    using assms b by (cases c2; cases d) (auto simp: rbt_plug)
  show "c2 = Lf \<Longrightarrow> d = Black \<Longrightarrow> cs \<noteq> [] \<Longrightarrow> short_at Lf cs"
    using assms by (auto simp: rbt_plug short_at_def)
qed

lemma ctop_rename: "ctop (ds @ FR l x c # cs) = ctop (ds @ FR l y c # cs)"
  by (cases ds) simp_all

lemma cinv_rename: "cinv n (ds @ FR l x c # cs) = cinv n (ds @ FR l y c # cs)"
  by (induction ds arbitrary: n) (simp_all add: ctop_rename [of _ l x c cs y])

lemma rbt_rename: "rbt (plug t (ds @ FR l x c # cs)) = rbt (plug t (ds @ FR l y c # cs))"
  unfolding rbt_plug cinv_rename [of _ ds l x c cs y] ctop_rename [of ds l x c cs y] ..

lemma up_upb: "up (ds @ FR l y c # cs) = upb y ds"
  by (cases ds) simp_all

lemma rb_erase_at:
  assumes at: "rb_at s (Nd l x c r) cs" and rb: "rbt (plug (Nd l x c r) cs)"
  shows "\<exists>s' t'. rb_erase x s = Some s' \<and> rb_tree s' t' \<and> rbt t'
    \<and> addrs t' = before cs @ addrs l @ addrs r @ after cs
    \<and> same_off (set (addrs (plug (Nd l x c r) cs))) s s'"
proof -
  have fin: ?thesis
    if e: "rb_erase_augmented x s = Some (reb, s1)" and a: "rb_at s1 t ds"
      and o: "same_off (set (addrs (plug (Nd l x c r) cs))) s s1"
      and sh: "reb \<noteq> 0 \<Longrightarrow> reb = up ds \<and> t = Lf \<and> short_at Lf ds"
      and dn: "reb = 0 \<Longrightarrow> rbt (plug t ds)"
      and eq: "before ds @ addrs t @ after ds = before cs @ addrs l @ addrs r @ after cs"
    for reb s1 t ds
  proof -
    obtain s' t' where s': "(if reb \<noteq> 0 then rb_erase_color reb s1 else Some s1) = Some s'"
      "rb_tree s' t'" "rbt t'" "addrs t' = before ds @ addrs t @ after ds"
      "same_off (set (addrs (plug t ds))) s1 s'"
      using erase_finish [OF a sh dn] by blast
    have "same_off (set (addrs (plug (Nd l x c r) cs))) s s'"
      by (rule same_off_trans [OF o s'(5)]) (auto simp: eq)
    then show ?thesis using s' e eq by (auto simp: rb_erase_def)
  qed
  have up0: "up cs = 0 \<longleftrightarrow> cs = []"
    using at up_0_iff [of cs "addrs (Nd l x c r)"] by (simp add: rb_at_def)
  consider (nl) "l = Lf" | (nr) "l \<noteq> Lf" "r = Lf" | (two) "l \<noteq> Lf" "r \<noteq> Lf" by blast
  then show ?thesis
  proof cases
    case nl
    note R = remove_top [OF rb [unfolded nl]]
    obtain s1 where e: "rb_erase_augmented x s = Some (if r = Lf \<and> c = Black then up cs else 0, s1)"
      "rb_at s1 (paint c r) cs" "same_off (set (addrs (plug (Nd l x c r) cs))) s s1"
      using erase_no_left [OF at [unfolded nl]] unfolding nl by blast
    have pc: "paint c r = paint Black r" using R(3) by (cases r) auto
    show ?thesis
      by (rule fin [OF e]) (use R up0 nl pc not_Red in \<open>auto split: if_splits\<close>)
  next
    case nr
    obtain s1 where e: "rb_erase_augmented x s = Some (0, s1)"
      "rb_at s1 (paint c l) cs" "same_off (set (addrs (plug (Nd l x c r) cs))) s s1"
      using erase_no_right [OF at [unfolded nr(2)] nr(1)] unfolding nr(2) by blast
    have "rbt (plug (paint c l) cs)"
      using rb nr by (cases l; cases c) (auto simp: rbt_plug)
    then show ?thesis
      by (intro fin [OF e]) (use nr in auto)
  next
    case two
    obtain y d c2 ds where r: "r = plug (Nd Lf y d c2) ds" "\<forall>f \<in> set ds. \<exists>a c r. f = FL a c r"
      using leftmost_split [OF two(2)] by blast
    let ?C = "ds @ FR l y c # cs"
    have "rbt (plug (Nd Lf y d c2) (ds @ FR l x c # cs))" using rb r by (simp add: plug_append)
    then have rb': "rbt (plug (Nd Lf y d c2) ?C)" using rbt_rename by blast
    note R = remove_top [OF rb']
    obtain s1 where e: "rb_erase_augmented x s = Some (if c2 = Lf \<and> d = Black then upb y ds else 0, s1)"
      "rb_at s1 (paint Black c2) ?C" "same_off (set (addrs (plug (Nd l x c r) cs))) s s1"
      using erase_two_children [OF at [unfolded r(1)] two(1) r(2)] unfolding r(1) by blast
    have ba: "before ?C = before cs @ addrs l @ [y]"
      "after ?C = after ds @ after cs" "before ds = []"
      using r(2) by (induction ds) (auto split: rframe.splits)
    have u: "upb y ds = up ?C" "up ?C \<noteq> 0"
      using e(2) up_0_iff [of ?C "addrs c2"] by (simp_all add: up_upb rb_at_def)
    show ?thesis
      by (rule fin [OF e]) (use R u ba r not_Red in \<open>auto split: if_splits\<close>)
  qed
qed

lemma addrs_split: "x \<in> set (addrs t) \<Longrightarrow> \<exists>l c r cs. t = plug (Nd l x c r) cs"
proof (induction t)
  case (Nd l a c r)
  then consider "x = a" | "x \<in> set (addrs l)" | "x \<in> set (addrs r)" by auto
  then show ?case
  proof cases
    case 1
    then show ?thesis by (metis plug.simps(1))
  next
    case 2
    then obtain l' d r' cs where "l = plug (Nd l' x d r') cs" using Nd.IH(1) by blast
    then have "Nd l a c r = plug (Nd l' x d r') (cs @ [FL a c r])" by (simp add: plug_append)
    then show ?thesis by blast
  next
    case 3
    then obtain l' d r' cs where "r = plug (Nd l' x d r') cs" using Nd.IH(2) by blast
    then have "Nd l a c r = plug (Nd l' x d r') (cs @ [FR l a c])" by (simp add: plug_append)
    then show ?thesis by blast
  qed
qed simp

lemma rb_erase_tree:
  assumes at: "rb_tree s t" and rb: "rbt t" and x: "x \<in> set (addrs t)"
  shows "\<exists>s' t'. rb_erase x s = Some s' \<and> rb_tree s' t' \<and> rbt t'
    \<and> addrs t' = remove1 x (addrs t) \<and> same_off (set (addrs t)) s s'"
proof -
  obtain l c r cs where t: "t = plug (Nd l x c r) cs" using addrs_split [OF x] by blast
  have "distinct (addrs t)" using at by (simp add: rb_tree_def addrs_ok_def)
  then have "remove1 x (addrs t) = before cs @ addrs l @ addrs r @ after cs"
    unfolding t by (simp add: remove1_append)
  then show ?thesis
    using rb_erase_at [of s l x c r cs] at rb unfolding t by (simp add: rb_at_plug)
qed

text \<open>C10. \<open>rb_erase\<close> of a node of a red-black tree returns, and leaves a tree with consistent
  fields that satisfies the red-black properties and holds the other nodes in the same order;
  memory outside the old tree is not written.\<close>

theorem rb_erase_correct:
  assumes "rb_tree s t" and "rbt t" and "x \<in> set (addrs t)"
  shows "\<exists>s' t'. rb_erase x s = Some s' \<and> rb_tree s' t' \<and> rbt t'
    \<and> addrs t' = remove1 x (addrs t) \<and> (\<forall>a. a \<notin> set (addrs t) \<longrightarrow> nodes s' a = nodes s a)"
  using rb_erase_tree [OF assms] by (auto simp: same_off_def)

definition black_three :: rbs where
  "black_three = \<lparr>nodes = (\<lambda>a. if a = 0x20 then \<lparr>parent_color = 1, rb_right = 0x30, rb_left = 0x10\<rparr>
                 else \<lparr>parent_color = 0x21, rb_right = 0, rb_left = 0\<rparr>), root = 0x20\<rparr>"

theorem rb_erase_correct_witness:
  "\<exists>s' t'. rb_erase 0x10 black_three = Some s' \<and> rb_tree s' t' \<and> rbt t' \<and> addrs t' = [0x20, 0x30]"
proof -
  let ?t = "Nd (Nd Lf 0x10 Black Lf) 0x20 Black (Nd Lf 0x30 Black Lf)"
  have "rb_tree black_three ?t" by code_simp
  from rb_erase_correct [OF this, of "0x10"] show ?thesis by (auto simp: rbt_def)
qed

end
