(* ===== verification/RbIter.thy ===== *)
theory RbIter
  imports RbErase
begin

unbundle bit_operations_syntax

text \<open>
  Iteration over the linked red-black tree (src/kernel/core/rbtree.c): \<open>rb_first\<close>, \<open>rb_last\<close>,
  \<open>rb_next\<close>, \<open>rb_prev\<close>, the postorder walk and \<open>rb_replace_node\<close>, and their meaning on the
  in-order sequence of the tree.
\<close>

section \<open>The pointer code\<close>

partial_function (option) rb_leftmost :: "u32 \<Rightarrow> rbs \<Rightarrow> u32 option" where
  "rb_leftmost n s = (if left_of s n \<noteq> 0 then rb_leftmost (left_of s n) s else Some n)"

partial_function (option) rb_rightmost :: "u32 \<Rightarrow> rbs \<Rightarrow> u32 option" where
  "rb_rightmost n s = (if right_of s n \<noteq> 0 then rb_rightmost (right_of s n) s else Some n)"

definition rb_first :: "rbs \<Rightarrow> u32 option" where
  "rb_first s = (if root s = 0 then Some 0 else rb_leftmost (root s) s)"

definition rb_last :: "rbs \<Rightarrow> u32 option" where
  "rb_last s = (if root s = 0 then Some 0 else rb_rightmost (root s) s)"

text \<open>The climbs \<open>while ((parent = rb_parent(node)) && node == parent->rb_right) node = parent;\<close>
  and its mirror image.\<close>

partial_function (option) rb_climb_right :: "u32 \<Rightarrow> rbs \<Rightarrow> u32 option" where
  "rb_climb_right node s =
     (let parent = rb_parent s node
      in if parent \<noteq> 0 \<and> node = right_of s parent then rb_climb_right parent s else Some parent)"

partial_function (option) rb_climb_left :: "u32 \<Rightarrow> rbs \<Rightarrow> u32 option" where
  "rb_climb_left node s =
     (let parent = rb_parent s node
      in if parent \<noteq> 0 \<and> node = left_of s parent then rb_climb_left parent s else Some parent)"

definition rb_next :: "u32 \<Rightarrow> rbs \<Rightarrow> u32 option" where
  "rb_next node s =
     (if RB_EMPTY_NODE s node then Some 0
      else if right_of s node \<noteq> 0 then rb_leftmost (right_of s node) s
      else rb_climb_right node s)"

definition rb_prev :: "u32 \<Rightarrow> rbs \<Rightarrow> u32 option" where
  "rb_prev node s =
     (if RB_EMPTY_NODE s node then Some 0
      else if left_of s node \<noteq> 0 then rb_rightmost (left_of s node) s
      else rb_climb_left node s)"

definition rb_replace_node :: "u32 \<Rightarrow> u32 \<Rightarrow> rbs \<Rightarrow> rbs" where
  "rb_replace_node victim new s =
     (let parent = rb_parent s victim;
          s1 = rb_change_child victim new parent s;
          s2 = (if left_of s1 victim \<noteq> 0 then rb_set_parent (left_of s1 victim) new s1 else s1);
          s3 = (if right_of s2 victim \<noteq> 0 then rb_set_parent (right_of s2 victim) new s2 else s2)
      in s3\<lparr>nodes := (nodes s3)(new := nodes s3 victim)\<rparr>)"

partial_function (option) rb_left_deepest_node :: "u32 \<Rightarrow> rbs \<Rightarrow> u32 option" where
  "rb_left_deepest_node node s =
     (if left_of s node \<noteq> 0 then rb_left_deepest_node (left_of s node) s
      else if right_of s node \<noteq> 0 then rb_left_deepest_node (right_of s node) s
      else Some node)"

definition rb_next_postorder :: "u32 \<Rightarrow> rbs \<Rightarrow> u32 option" where
  "rb_next_postorder node s =
     (if node = 0 then Some 0
      else
        (let parent = rb_parent s node
         in if parent \<noteq> 0 \<and> node = left_of s parent \<and> right_of s parent \<noteq> 0
            then rb_left_deepest_node (right_of s parent) s
            else Some parent))"

definition rb_first_postorder :: "rbs \<Rightarrow> u32 option" where
  "rb_first_postorder s = (if root s = 0 then Some 0 else rb_left_deepest_node (root s) s)"

section \<open>In-order meaning\<close>

definition hd0 :: "u32 list \<Rightarrow> u32" where
  "hd0 xs = (case xs of [] \<Rightarrow> 0 | x # _ \<Rightarrow> x)"

definition last0 :: "u32 list \<Rightarrow> u32" where
  "last0 xs = (if xs = [] then 0 else last xs)"

lemma hd0_simps [simp]: "hd0 [] = 0" "hd0 (x # xs) = x" "xs \<noteq> [] \<Longrightarrow> hd0 (xs @ ys) = hd0 xs"
  by (auto simp: hd0_def split: list.splits)

lemma last0_simps [simp]: "last0 [] = 0" "last0 (xs @ [x]) = x" "ys \<noteq> [] \<Longrightarrow> last0 (xs @ ys) = last0 ys"
  by (simp_all add: last0_def)

lemma addrs_Nil_iff: "addrs t = [] \<longleftrightarrow> t = Lf"
  by (cases t) simp_all

lemma rb_leftmost_tree:
  "htree (nodes s) p t \<Longrightarrow> addrs_ok (addrs t) \<Longrightarrow> t \<noteq> Lf \<Longrightarrow>
   rb_leftmost (ref t) s = Some (hd0 (addrs t))"
proof (induction t arbitrary: p)
  case (Nd l a c r)
  have ok: "addrs_ok (addrs l)" using Nd.prems(2) by (simp add: addrs_ok_simps)
  show ?case
  proof (cases "l = Lf")
    case True
    then show ?thesis using Nd.prems by (subst rb_leftmost.simps) (simp add: left_of_def)
  next
    case False
    then have "rb_leftmost (ref l) s = Some (hd0 (addrs l))" "ref l \<noteq> 0" "addrs l \<noteq> []"
      using Nd.IH(1) Nd.prems(1) ok by (auto simp: ref_0_iff addrs_Nil_iff)
    then show ?thesis using Nd.prems by (subst rb_leftmost.simps) (simp add: left_of_def)
  qed
qed simp

lemma rb_rightmost_tree:
  "htree (nodes s) p t \<Longrightarrow> addrs_ok (addrs t) \<Longrightarrow> t \<noteq> Lf \<Longrightarrow>
   rb_rightmost (ref t) s = Some (last0 (addrs t))"
proof (induction t arbitrary: p)
  case (Nd l a c r)
  have ok: "addrs_ok (addrs r)" using Nd.prems(2) by (simp add: addrs_ok_simps)
  show ?case
  proof (cases "r = Lf")
    case True
    then show ?thesis using Nd.prems by (subst rb_rightmost.simps) (simp add: right_of_def)
  next
    case False
    then have "rb_rightmost (ref r) s = Some (last0 (addrs r))" "ref r \<noteq> 0" "addrs r \<noteq> []"
      using Nd.IH(2) Nd.prems(1) ok by (auto simp: ref_0_iff addrs_Nil_iff)
    then show ?thesis using Nd.prems
      by (subst rb_rightmost.simps) (simp add: right_of_def last0_def)
  qed
qed simp

lemma rb_first_hd:
  assumes "rb_tree s t"
  shows "rb_first s = Some (hd0 (addrs t))"
  using assms rb_leftmost_tree [of s 0 t]
  by (cases "t = Lf") (auto simp: rb_tree_def rb_first_def ref_0_iff)

lemma rb_last_last:
  assumes "rb_tree s t"
  shows "rb_last s = Some (last0 (addrs t))"
  using assms rb_rightmost_tree [of s 0 t]
  by (cases "t = Lf") (auto simp: rb_tree_def rb_last_def ref_0_iff)

text \<open>A node of a tree is never taken for an unlinked one.\<close>

lemma not_empty_node:
  assumes at: "rb_at s (Nd l x c r) cs"
  shows "\<not> RB_EMPTY_NODE s x"
proof
  assume e: "RB_EMPTY_NODE s x"
  have ok: "addrs_ok (before cs @ (addrs l @ x # addrs r) @ after cs)"
    using at by (simp add: rb_at_def)
  have "link_addr (up cs)" using link_up [OF ok] .
  moreover have x: "up cs OR colw c = x" and lx: "link_addr x"
    using e at by (simp_all add: rb_at_def RB_EMPTY_NODE_def addrs_ok_simps)
  ultimately have "up cs = x" using pc_parent_simps(1) [of "up cs" c] pc_parent_simps(3) by simp
  moreover have "x \<notin> caddrs cs" "x \<noteq> 0" using ok by (auto simp: addrs_ok_simps caddrs_eq)
  ultimately show False using up_in [of cs] by (cases cs) auto
qed

lemma ref_neq_ref:
  assumes "set (addrs t) \<inter> set (addrs r) = {}" and "t \<noteq> Lf" and "addrs_ok (addrs t)"
  shows "ref t \<noteq> ref r"
proof (cases "r = Lf")
  case True
  then show ?thesis using assms(2,3) by (simp add: ref_0_iff)
next
  case False
  then show ?thesis using ref_in [OF False] ref_in [OF assms(2)] assms(1) by auto
qed

lemma rb_at_ok: "rb_at s t cs \<Longrightarrow> addrs_ok (addrs t)"
  by (simp add: rb_at_def addrs_ok_append)

lemma rb_climb_right_tree:
  "rb_at s t cs \<Longrightarrow> t \<noteq> Lf \<Longrightarrow> rb_climb_right (ref t) s = Some (hd0 (after cs))"
proof (induction cs arbitrary: t)
  case Nil
  then show ?case
    using rb_parent_ref [OF Nil] by (subst rb_climb_right.simps) (simp add: Let_def)
next
  case (Cons f cs)
  have par: "rb_parent s (ref t) = faddr f" using rb_parent_ref [OF Cons.prems] by simp
  note rd = rb_at_reads [OF Cons.prems(1)]
  have at: "rb_at s (plug1 t f) cs" using Cons.prems(1) by (simp add: rb_at_step)
  show ?case
  proof (cases f)
    case (FL a c r)
    have "addrs_ok (addrs t @ a # addrs r)"
      using rb_at_ok [OF at] by (simp add: FL)
    then have "ref t \<noteq> ref r"
      using Cons.prems(2) by (intro ref_neq_ref) (auto simp: addrs_ok_simps)
    then show ?thesis
      using par rd(4,7) FL by (subst rb_climb_right.simps) (simp add: Let_def)
  next
    case (FR l a c)
    then have "rb_climb_right (ref t) s = rb_climb_right a s"
      using par rd(4,7) by (subst rb_climb_right.simps) (simp add: Let_def)
    then show ?thesis using Cons.IH [OF at] FR by simp
  qed
qed

lemma rb_climb_left_tree:
  "rb_at s t cs \<Longrightarrow> t \<noteq> Lf \<Longrightarrow> rb_climb_left (ref t) s = Some (last0 (before cs))"
proof (induction cs arbitrary: t)
  case Nil
  then show ?case
    using rb_parent_ref [OF Nil] by (subst rb_climb_left.simps) (simp add: Let_def)
next
  case (Cons f cs)
  have par: "rb_parent s (ref t) = faddr f" using rb_parent_ref [OF Cons.prems] by simp
  note rd = rb_at_reads [OF Cons.prems(1)]
  have at: "rb_at s (plug1 t f) cs" using Cons.prems(1) by (simp add: rb_at_step)
  show ?case
  proof (cases f)
    case (FR l a c)
    have "addrs_ok (addrs l @ a # addrs t)"
      using rb_at_ok [OF at] by (simp add: FR)
    then have "ref t \<noteq> ref l"
      using Cons.prems(2) by (intro ref_neq_ref) (auto simp: addrs_ok_simps)
    then show ?thesis
      using par rd(4,6) FR by (subst rb_climb_left.simps) (simp add: Let_def last0_def)
  next
    case (FL a c r)
    then have "rb_climb_left (ref t) s = rb_climb_left a s"
      using par rd(4,6) by (subst rb_climb_left.simps) (simp add: Let_def)
    then show ?thesis using Cons.IH [OF at] FL by simp
  qed
qed

lemma rb_next_at:
  assumes at: "rb_at s (Nd l x c r) cs"
  shows "rb_next x s = Some (hd0 (addrs r @ after cs))"
proof (cases "r = Lf")
  case True
  then show ?thesis
    using rb_climb_right_tree [OF at] at not_empty_node [OF at]
    by (simp add: rb_next_def right_of_def rb_at_def)
next
  case False
  have ok: "addrs_ok (addrs r)" using at by (simp add: rb_at_def addrs_ok_simps)
  have h: "htree (nodes s) x r" "right_of s x = ref r"
    using at by (simp_all add: rb_at_def right_of_def)
  show ?thesis
    using rb_leftmost_tree [OF h(1) ok False] False ok h(2) not_empty_node [OF at]
    by (simp add: rb_next_def ref_0_iff addrs_Nil_iff)
qed

lemma rb_prev_at:
  assumes at: "rb_at s (Nd l x c r) cs"
  shows "rb_prev x s = Some (last0 (before cs @ addrs l))"
proof (cases "l = Lf")
  case True
  then show ?thesis
    using rb_climb_left_tree [OF at] at not_empty_node [OF at]
    by (simp add: rb_prev_def left_of_def rb_at_def)
next
  case False
  have ok: "addrs_ok (addrs l)" using at by (simp add: rb_at_def addrs_ok_simps)
  have h: "htree (nodes s) x l" "left_of s x = ref l"
    using at by (simp_all add: rb_at_def left_of_def)
  show ?thesis
    using rb_rightmost_tree [OF h(1) ok False] False ok h(2) not_empty_node [OF at]
    by (simp add: rb_prev_def ref_0_iff addrs_Nil_iff)
qed

lemma in_order_split:
  assumes at: "rb_tree s t" and xs: "addrs t = xs @ x # ys"
  obtains l c r cs where "rb_at s (Nd l x c r) cs" "xs = before cs @ addrs l"
    "ys = addrs r @ after cs"
proof -
  obtain l c r cs where t: "t = plug (Nd l x c r) cs" using addrs_split [of x t] xs by auto
  have "distinct (addrs t)" using at by (simp add: rb_tree_def addrs_ok_def)
  moreover have "addrs t = (before cs @ addrs l) @ x # (addrs r @ after cs)" by (simp add: t)
  ultimately have "xs = before cs @ addrs l" "ys = addrs r @ after cs"
    using xs by (metis append_Cons_eq_iff distinct_append distinct.simps(2)
      not_distinct_conv_prefix)+
  then show ?thesis using that at t by (auto simp: rb_at_plug)
qed

text \<open>C29. On a red-black tree in memory \<open>rb_first\<close> and \<open>rb_last\<close> return the ends of the in-order
  sequence and \<open>rb_next\<close> and \<open>rb_prev\<close> the neighbours of a node in it, NULL at the ends.\<close>

theorem rb_iteration_in_order:
  assumes "rb_tree s t" and "addrs t = xs @ x # ys"
  shows "rb_first s = Some (hd0 (addrs t)) \<and> rb_last s = Some (last0 (addrs t))
    \<and> rb_next x s = Some (hd0 ys) \<and> rb_prev x s = Some (last0 xs)"
proof -
  obtain l c r cs where "rb_at s (Nd l x c r) cs" "xs = before cs @ addrs l" "ys = addrs r @ after cs"
    using in_order_split [OF assms] .
  then show ?thesis
    using rb_first_hd [OF assms(1)] rb_last_last [OF assms(1)]
      rb_next_at [of s l x c r cs] rb_prev_at [of s l x c r cs] by auto
qed

theorem rb_iteration_in_order_witness:
  "rb_first black_three = Some 0x10 \<and> rb_last black_three = Some 0x30
   \<and> rb_next 0x10 black_three = Some 0x20 \<and> rb_next 0x30 black_three = Some 0"
proof -
  let ?t = "Nd (Nd Lf 0x10 Black Lf) 0x20 Black (Nd Lf 0x30 Black Lf)"
  have "rb_tree black_three ?t" by code_simp
  from rb_iteration_in_order [OF this, of "[]" "0x10" "[0x20, 0x30]"]
    rb_iteration_in_order [OF this, of "[0x10, 0x20]" "0x30" "[]"]
  show ?thesis by (simp add: last0_def)
qed

lemma rb_next_in_order:
  assumes "rb_tree s t" and "addrs t = xs @ x # ys"
  shows "rb_next x s = Some (hd0 ys)"
  using in_order_split [OF assms] rb_next_at by metis

section \<open>Replacing a node\<close>

lemma rb_replace_node_at:
  assumes at: "rb_at s (Nd l x c r) cs"
    and y: "node_addr y" "y \<notin> set (before cs @ addrs (Nd l x c r) @ after cs)"
  shows "rb_at (rb_replace_node x y s) (Nd l y c r) cs"
proof -
  have ok: "addrs_ok (before cs @ (addrs l @ x # addrs r) @ after cs)"
    using at by (simp add: rb_at_def)
  note okd = ok [unfolded addrs_ok_simps]
  have m: "x \<noteq> 0" "x \<notin> caddrs cs" "x \<notin> set (addrs l)" "x \<notin> set (addrs r)" "x \<noteq> y" "y \<noteq> 0"
    "y \<notin> caddrs cs" "y \<notin> set (addrs l)" "y \<notin> set (addrs r)"
    "set (addrs l) \<inter> caddrs cs = {}" "set (addrs r) \<inter> caddrs cs = {}"
    "set (addrs l) \<inter> set (addrs r) = {}" "addrs_ok (addrs l)" "addrs_ok (addrs r)" "link_addr x" "link_addr y"
    using okd y by (simp add: disjoint_simps; blast?; fail)+
  have A: "hctx (nodes s) x cs" "root s = rtop x cs" "htree (nodes s) x l" "htree (nodes s) x r"
    "nodes s x = \<lparr>parent_color = up cs OR colw c, rb_right = ref r, rb_left = ref l\<rparr>"
    using at by (simp_all add: rb_at_def)
  define s1 where "s1 = rb_change_child x y (up cs) s"
  note cc = change_child_at [OF A(1,2) ok m(1,2), where new = y, folded s1_def]
  have par: "rb_parent s x = up cs" using rb_parent_ref [OF at] by simp
  have B: "hctx (nodes s1) y cs" "root s1 = rtop y cs" "htree (nodes s1) x l" "htree (nodes s1) x r"
    "nodes s1 x = \<lparr>parent_color = up cs OR colw c, rb_right = ref r, rb_left = ref l\<rparr>"
  proof -
    have eq: "a \<in> set (addrs l) \<Longrightarrow> nodes s1 a = nodes s a" "a \<in> set (addrs r) \<Longrightarrow> nodes s1 a = nodes s a" for a
      using m by (auto intro!: cc(3))
    show "hctx (nodes s1) y cs" "root s1 = rtop y cs" "htree (nodes s1) x l" "htree (nodes s1) x r"
      "nodes s1 x = \<lparr>parent_color = up cs OR colw c, rb_right = ref r, rb_left = ref l\<rparr>"
      using cc(1,2) cc(3) [OF m(2)] A htree_cong [OF eq(1)] htree_cong [OF eq(2)] by simp_all
  qed
  have nl: "ref l \<noteq> x" "ref r \<noteq> x" "ref l \<noteq> y" "ref r \<noteq> y" using m by (simp_all add: ref_neq)
  have rl: "ref l \<noteq> 0 \<Longrightarrow> ref l \<notin> caddrs cs \<and> ref l \<notin> set (addrs r)"
    "ref r \<noteq> 0 \<Longrightarrow> ref r \<notin> caddrs cs \<and> ref r \<notin> set (addrs l)"
    using ref_notin [OF m(10)] ref_notin [OF m(11)] ref_notin [OF m(12)]
      ref_notin [of r "set (addrs l)"] m(12) by (auto simp: Int_commute)
  show ?thesis
    using B m nl rl ok y
    by (cases l; cases r)
       (simp_all add: rb_replace_node_def Let_def par s1_def [symmetric] rb_at_def left_of_def
          right_of_def rb_set_parent_def addrs_ok_append addrs_ok_Cons)
qed

section \<open>Postorder\<close>

primrec post :: "rtree \<Rightarrow> u32 list" where
  "post Lf = []"
| "post (Nd l a c r) = post l @ post r @ [a]"

primrec post_after :: "rframe list \<Rightarrow> u32 list" where
  "post_after [] = []"
| "post_after (f # cs) =
     (case f of FL a c r \<Rightarrow> post r @ [a] | FR l a c \<Rightarrow> [a]) @ post_after cs"

lemma post_Nil_iff: "post t = [] \<longleftrightarrow> t = Lf"
  by (cases t) simp_all

lemma left_deepest_tree:
  "htree (nodes s) p t \<Longrightarrow> addrs_ok (addrs t) \<Longrightarrow> t \<noteq> Lf \<Longrightarrow>
   rb_left_deepest_node (ref t) s = Some (hd0 (post t))"
proof (induction t arbitrary: p)
  case (Nd l a c r)
  have ok: "addrs_ok (addrs l)" "addrs_ok (addrs r)" using Nd.prems(2) by (simp_all add: addrs_ok_simps)
  have rd: "left_of s a = ref l" "right_of s a = ref r"
    using Nd.prems(1) by (simp_all add: left_of_def right_of_def)
  show ?case
    using Nd.IH [of a] Nd.prems(1) ok rd
    by (subst rb_left_deepest_node.simps) (auto simp: ref_0_iff post_Nil_iff)
qed simp

lemma rb_next_postorder_at:
  assumes at: "rb_at s t cs" and t: "t \<noteq> Lf"
  shows "rb_next_postorder (ref t) s = Some (hd0 (post_after cs))"
proof -
  have par: "rb_parent s (ref t) = up cs" using rb_parent_ref [OF at t] .
  have nz: "ref t \<noteq> 0" using rb_at_ok [OF at] t by (simp add: ref_0_iff)
  show ?thesis
  proof (cases cs)
    case Nil
    then show ?thesis using par nz by (simp add: rb_next_postorder_def)
  next
    case (Cons f ds)
    note rd = rb_at_reads [OF at [unfolded Cons]] and sb = rb_at_sibling [OF at [unfolded Cons]]
    show ?thesis
    proof (cases f)
      case (FL a c r)
      then show ?thesis
        using par nz rd(4,6,7) sb left_deepest_tree [of s a r] Cons
        by (auto simp: rb_next_postorder_def Let_def ref_0_iff post_Nil_iff)
    next
      case (FR l a c)
      have "addrs_ok (addrs l @ a # addrs t)"
        using rb_at_ok [of s "plug1 t f" ds] at by (simp add: Cons FR rb_at_step)
      then have "ref t \<noteq> ref l"
        using t by (intro ref_neq_ref) (auto simp: addrs_ok_simps)
      then show ?thesis
        using par nz rd(4,6) Cons FR by (simp add: rb_next_postorder_def Let_def)
    qed
  qed
qed

end
