(* ===== verification/Lib.thy ===== *)
theory Lib
  imports Prelude "HOL-Library.Monad_Syntax"
begin

unbundle bit_operations_syntax

text \<open>
  The C library the kernel brings along (src/kernel/libs/lib.c): strings, memory, the population count
  and the division helpers. Memory is bytes by address; a loop that does not end, as the halt on a
  division by zero, is \<open>None\<close>. \<open>malloc\<close> and \<open>free\<close> are \<open>kmalloc\<close> and \<open>kfree\<close>; formatted output is in
  Printk.
\<close>

type_synonym mem = "u32 \<Rightarrow> u8"

section \<open>Strings, byte by byte\<close>

partial_function (option) strlen_loop :: "mem \<Rightarrow> u32 \<Rightarrow> u32 \<Rightarrow> u32 option" where
  "strlen_loop m s i = (if m (s + i) \<noteq> 10 then strlen_loop m s (i + 1) else Some i)"

definition strlen :: "mem \<Rightarrow> u32 \<Rightarrow> u32 option" where "strlen m s = strlen_loop m s 0"

partial_function (option) strcmp_loop :: "mem \<Rightarrow> u32 \<Rightarrow> u32 \<Rightarrow> u32 \<Rightarrow> u32 option" where
  "strcmp_loop m l r i =
     (if m (l + i) \<noteq> 0 \<and> m (l + i) = m (r + i) then strcmp_loop m l r (i + 1) else Some i)"

definition strcmp :: "mem \<Rightarrow> u32 \<Rightarrow> u32 \<Rightarrow> u32 option" where
  "strcmp m l r =
     do { i \<leftarrow> strcmp_loop m l r 0; Some (if m (l + i) = 0 \<and> m (r + i) = 0 then 0 else 1) }"

partial_function (option) strcpy_loop :: "u32 \<Rightarrow> u32 \<Rightarrow> u32 \<Rightarrow> mem \<Rightarrow> (u32 \<times> mem) option" where
  "strcpy_loop dst src i m =
     (if m (src + i) \<noteq> 0 then strcpy_loop dst src (i + 1) (m(dst + i := m (src + i))) else Some (i, m))"

definition strcpy :: "u32 \<Rightarrow> u32 \<Rightarrow> mem \<Rightarrow> mem option" where
  "strcpy dst src m = do { (i, m1) \<leftarrow> strcpy_loop dst src 0 m; Some (m1(dst + i := 0)) }"

section \<open>Memory blocks\<close>

definition memset :: "u32 \<Rightarrow> u8 \<Rightarrow> nat \<Rightarrow> mem \<Rightarrow> mem" where
  "memset p c sz = for_upto sz (\<lambda>i m. m(p + of_nat i := c))"

definition memcpy :: "u32 \<Rightarrow> u32 \<Rightarrow> nat \<Rightarrow> mem \<Rightarrow> mem" where
  "memcpy dstp srcp len = for_upto len (\<lambda>i m. m(dstp + of_nat i := m (srcp + of_nat i)))"

fun memcmp_loop :: "mem \<Rightarrow> u32 \<Rightarrow> u32 \<Rightarrow> nat \<Rightarrow> nat \<Rightarrow> u32" where
  "memcmp_loop m p q i 0 = 0"
| "memcmp_loop m p q i (Suc n) =
     (if m (p + of_nat i) \<noteq> m (q + of_nat i) then 1 else memcmp_loop m p q (Suc i) n)"

definition memcmp :: "mem \<Rightarrow> u32 \<Rightarrow> u32 \<Rightarrow> nat \<Rightarrow> u32" where
  "memcmp m s1 s2 len = memcmp_loop m s1 s2 0 len"

section \<open>\<open>strchr\<close>, a word at a time\<close>

definition load32 :: "mem \<Rightarrow> u32 \<Rightarrow> u32" where
  "load32 m p = ucast (m p) + ucast (m (p + 1)) * 0x100 + ucast (m (p + 2)) * 0x10000
     + ucast (m (p + 3)) * 0x1000000"

definition magic_bits :: u32 where
  "magic_bits = drop_bit 1 (push_bit 1 ((- 1 div 0xff) * 0xfe)) OR 1"

definition charmask :: "u8 \<Rightarrow> u32" where
  "charmask c =
     (let cm = (ucast c :: u32) OR push_bit 8 (ucast c)
      in cm OR push_bit 16 cm)"

text \<open>The test on the holes of a word.\<close>

definition zero_test :: "u32 \<Rightarrow> bool" where
  "zero_test w \<longleftrightarrow> ((w + magic_bits) XOR NOT w) AND NOT magic_bits \<noteq> 0"

text \<open>The characters before the first word boundary: a result, or where to go on.\<close>

partial_function (option) strchr_head :: "mem \<Rightarrow> u8 \<Rightarrow> u32 \<Rightarrow> (u32 + u32) option" where
  "strchr_head m c p =
     (if p AND 3 \<noteq> 0 then
        (if m p = c then Some (Inl p)
         else if m p = 0 then Some (Inl 0)
         else strchr_head m c (p + 1))
      else Some (Inr p))"

definition strchr_byte :: "mem \<Rightarrow> u8 \<Rightarrow> u32 \<Rightarrow> u32 option" where
  "strchr_byte m c cp = (if m cp = c then Some cp else if m cp = 0 then Some 0 else None)"

definition strchr_word :: "mem \<Rightarrow> u8 \<Rightarrow> u32 \<Rightarrow> u32 option" where
  "strchr_word m c cp =
     (case strchr_byte m c cp of Some r \<Rightarrow> Some r
      | None \<Rightarrow> (case strchr_byte m c (cp + 1) of Some r \<Rightarrow> Some r
      | None \<Rightarrow> (case strchr_byte m c (cp + 2) of Some r \<Rightarrow> Some r
      | None \<Rightarrow> strchr_byte m c (cp + 3))))"

partial_function (option) strchr_words :: "mem \<Rightarrow> u8 \<Rightarrow> u32 \<Rightarrow> u32 option" where
  "strchr_words m c p =
     (let longword = load32 m p in
      if zero_test longword \<or> zero_test (longword XOR charmask c) then
        (case strchr_word m c p of Some r \<Rightarrow> Some r | None \<Rightarrow> strchr_words m c (p + 4))
      else strchr_words m c (p + 4))"

definition strchr :: "mem \<Rightarrow> u32 \<Rightarrow> u8 \<Rightarrow> u32 option" where
  "strchr m s c =
     do { r \<leftarrow> strchr_head m c s; (case r of Inl x \<Rightarrow> Some x | Inr p \<Rightarrow> strchr_words m c p) }"

section \<open>\<open>strcspn\<close> and \<open>strspn\<close>, with a table\<close>

type_synonym tab = "u8 \<Rightarrow> u32"

definition empty_tab :: tab where "empty_tab = (\<lambda>_. 0)"

partial_function (option) reject_tab :: "mem \<Rightarrow> u32 \<Rightarrow> tab \<Rightarrow> tab option" where
  "reject_tab m s p =
     (let tmp = m s; p1 = p(tmp := 1) in if tmp \<noteq> 0 then reject_tab m (s + 1) p1 else Some p1)"

partial_function (option) accept_tab :: "mem \<Rightarrow> u32 \<Rightarrow> tab \<Rightarrow> tab option" where
  "accept_tab m s p =
     (let p1 = p(m s := 1) in if m (s + 1) \<noteq> 0 then accept_tab m (s + 1) p1 else Some p1)"

definition PTR_ALIGN_DOWN :: "u32 \<Rightarrow> u32 \<Rightarrow> u32" where "PTR_ALIGN_DOWN b sz = b AND - sz"

text \<open>The word loops: the pointer at which they stop.\<close>

partial_function (option) cspn_words :: "mem \<Rightarrow> tab \<Rightarrow> u32 \<Rightarrow> u32 option" where
  "cspn_words m p s0 =
     (let s = s0 + 4;
          c0 = p (m s); c1 = p (m (s + 1)); c2 = p (m (s + 2)); c3 = p (m (s + 3))
      in if (c0 OR c1 OR c2 OR c3) = 0 then cspn_words m p s else Some s)"

partial_function (option) spn_words :: "mem \<Rightarrow> tab \<Rightarrow> u32 \<Rightarrow> u32 option" where
  "spn_words m p s0 =
     (let s = s0 + 4;
          c0 = p (m s); c1 = p (m (s + 1)); c2 = p (m (s + 2)); c3 = p (m (s + 3))
      in if (c0 AND c1 AND c2 AND c3) \<noteq> 0 then spn_words m p s else Some s)"

definition strcspn :: "mem \<Rightarrow> u32 \<Rightarrow> u32 \<Rightarrow> u32 option" where
  "strcspn m str reject =
     do {
       p \<leftarrow> reject_tab m reject empty_tab;
       if p (m str) \<noteq> 0 then Some 0
       else if p (m (str + 1)) \<noteq> 0 then Some 1
       else if p (m (str + 2)) \<noteq> 0 then Some 2
       else if p (m (str + 3)) \<noteq> 0 then Some 3
       else do {
         s \<leftarrow> cspn_words m p (PTR_ALIGN_DOWN str 4);
         let count = s - str;
         let c0 = p (m s); let c1 = p (m (s + 1)); let c2 = p (m (s + 2));
         Some (if (c0 OR c1) \<noteq> 0 then count - c0 + 1 else count - c2 + 3)
       }
     }"

partial_function (option) same_char_loop :: "mem \<Rightarrow> u32 \<Rightarrow> u32 \<Rightarrow> u32 option" where
  "same_char_loop m str accept = (if m str = m accept then same_char_loop m (str + 1) accept else Some str)"

definition strspn :: "mem \<Rightarrow> u32 \<Rightarrow> u32 \<Rightarrow> u32 option" where
  "strspn m str accept =
     (if m accept = 0 then Some 0
      else if m (accept + 1) = 0 then
        do { e \<leftarrow> same_char_loop m str accept; Some (e - str) }
      else do {
        p \<leftarrow> accept_tab m accept empty_tab;
        if p (m str) = 0 then Some 0
        else if p (m (str + 1)) = 0 then Some 1
        else if p (m (str + 2)) = 0 then Some 2
        else if p (m (str + 3)) = 0 then Some 3
        else do {
          s \<leftarrow> spn_words m p (PTR_ALIGN_DOWN str 4);
          let count = s - str;
          let c0 = p (m s); let c1 = p (m (s + 1)); let c2 = p (m (s + 2));
          Some (if (c0 AND c1) = 0 then count + c0 else count + c2 + 2)
        }
      })"

section \<open>Arithmetic helpers\<close>

definition popcountsi2 :: "u32 \<Rightarrow> u32" where
  "popcountsi2 a =
     (let x1 = a - (drop_bit 1 a AND 0x55555555);
          x2 = (drop_bit 2 x1 AND 0x33333333) + (x1 AND 0x33333333);
          x3 = (x2 + drop_bit 4 x2) AND 0x0F0F0F0F;
          x4 = x3 + drop_bit 16 x3
      in (x4 + drop_bit 8 x4) AND 0x0000003F)"

partial_function (option) uidiv_loop :: "u32 \<Rightarrow> u32 \<Rightarrow> u32 \<Rightarrow> (u32 \<times> u32) option" where
  "uidiv_loop n d i = (if d \<le> n then uidiv_loop (n - d) d (i + 1) else Some (i, n))"

text \<open>Quotient and remainder, as left in r0 and r1; division by zero halts.\<close>

definition aeabi_uidiv :: "u32 \<Rightarrow> u32 \<Rightarrow> (u32 \<times> u32) option" where
  "aeabi_uidiv n d = (if d = 0 then None else uidiv_loop n d 0)"

definition aeabi_uidivmod :: "u32 \<Rightarrow> u32 \<Rightarrow> (u32 \<times> u32) option" where
  "aeabi_uidivmod n d = do { (q, r) \<leftarrow> aeabi_uidiv n d; Some (r, r) }"


section \<open>Division\<close>

lemma word_suc: "unat x = Suc (unat y) \<Longrightarrow> x = y + 1" for x y :: u32
  by (metis add.commute of_nat_Suc of_nat_unat ucast_id)

lemma word_div_step: "d \<noteq> 0 \<Longrightarrow> d \<le> n \<Longrightarrow> n div d = (n - d) div d + 1 \<and> n mod d = (n - d) mod d" for n d :: u32
proof -
  assume d: "d \<noteq> 0" "d \<le> n"
  have d': "0 < unat d" "unat d \<le> unat n" using d by (simp_all add: unat_gt_0 word_le_nat_alt)
  have s: "unat (n - d) = unat n - unat d" using d(2) by (rule unat_sub)
  have "unat (n div d) = Suc (unat ((n - d) div d))"
    using d' by (simp add: unat_div_distrib s le_div_geq)
  then have "n div d = (n - d) div d + 1" by (rule word_suc)
  moreover have "unat (n mod d) = unat ((n - d) mod d)"
    using d' by (simp add: unat_mod_distrib s le_mod_geq)
  then have "n mod d = (n - d) mod d" by (simp only: word_unat_eq_iff)
  ultimately show ?thesis by blast
qed

lemma uidiv_loop_eq: "d \<noteq> 0 \<Longrightarrow> uidiv_loop n d i = Some (i + n div d, n mod d)"
proof (induction "unat n" arbitrary: n i rule: less_induct)
  case less
  show ?case
  proof (cases "d \<le> n")
    case True
    have "unat (n - d) < unat n"
      using True less.prems by (metis unat_sub diff_less unat_gt_0 word_le_nat_alt le_zero_eq order_less_le_trans bot_nat_0.not_eq_extremum)
    then show ?thesis
      using less True word_div_step [OF less.prems True] by (subst uidiv_loop.simps) simp
  next
    case False
    then have "n < d" by simp
    then have "unat (n div d) = 0" "unat (n mod d) = unat n"
      by (simp_all add: unat_div_distrib unat_mod_distrib word_less_nat_alt)
    then have "n div d = 0" "n mod d = n" by (simp_all only: unat_eq_0 word_unat_eq_iff)
    then show ?thesis using False by (subst uidiv_loop.simps) simp
  qed
qed

text \<open>\<open>__aeabi_uidiv\<close> returns for every divisor but 0, with the quotient and the remainder, and
  halts on 0.\<close>

theorem aeabi_uidiv_divides:
  "aeabi_uidiv n d = (if d = 0 then None else Some (n div d, n mod d))
   \<and> aeabi_uidivmod n d = (if d = 0 then None else Some (n mod d, n mod d))"
  by (simp add: aeabi_uidiv_def aeabi_uidivmod_def uidiv_loop_eq)

section \<open>The word test of \<open>strchr\<close>\<close>

lemma bit_add_no_carry:
  fixes w v :: u32
  assumes "h < 32" and "\<not> bit v h" and "unat w mod 2 ^ h + unat v mod 2 ^ h < 2 ^ h"
  shows "bit (w + v) h = bit w h"
proof -
  have b: "bit x h = odd (unat x div 2 ^ h)" for x :: u32

  proof -
    have "bit x h = bit (unat x) h" using assms(1) by (simp add: bit_unsigned_iff)
    then show ?thesis unfolding bit_iff_odd [of "unat x"] .
  qed
  have "(unat w + unat v) div 2 ^ h = unat w div 2 ^ h + unat v div 2 ^ h"
    using div_add1_eq [of "unat w" "unat v" "2 ^ h"] assms(3) by simp
  moreover have "odd ((unat w + unat v) mod 2 ^ 32 div 2 ^ h) = odd ((unat w + unat v) div 2 ^ h)"
    using bit_take_bit_iff [of 32 "unat w + unat v" h] assms(1)
    unfolding bit_iff_odd [of _ h] take_bit_eq_mod by blast
  ultimately show ?thesis
    using assms(2) unfolding b by (simp add: unat_word_ariths)
qed

lemma magic_bits_eq: "magic_bits = 0x7EFEFEFF"
  by (simp add: magic_bits_def)

lemma holes: "bit (NOT magic_bits) h \<longleftrightarrow> h \<in> {8, 16, 24, 31}" if "h \<in> {8, 16, 24, 31}"
  using that by (auto simp: magic_bits_eq)

lemma zero_test_hole:
  assumes "h \<in> {8, 16, 24, 31}" and "unat w mod 2 ^ h + 0x7EFEFEFF mod 2 ^ h < 2 ^ h"
  shows "zero_test w"
proof -
  have h: "h < 32" "bit (NOT magic_bits) h" "\<not> bit magic_bits h"
    using assms(1) by (auto simp: magic_bits_eq)
  have "unat magic_bits = 0x7EFEFEFF" by (simp add: magic_bits_eq)
  then have "bit (w + magic_bits) h = bit w h"
    using bit_add_no_carry [OF h(1,3), of w] assms(2) by simp
  then have "bit (((w + magic_bits) XOR NOT w) AND NOT magic_bits) h"
    using h(1,2) by (simp add: bit_and_iff bit_xor_iff bit_not_iff)
  then show ?thesis by (metis zero_test_def bit_0_eq bot_apply bot_bool_def)
qed

definition byte :: "nat \<Rightarrow> u32 \<Rightarrow> u32" where "byte i w = take_bit 8 (drop_bit (8 * i) w)"

lemma unat_byte: "unat (byte i w) = unat w div 2 ^ (8 * i) mod 256"
  unfolding byte_def unsigned_take_bit_eq unat_drop_bit_eq
  by (simp add: take_bit_eq_mod drop_bit_eq_div)

lemma byte_zero_low:
  assumes "byte i w = 0" shows "unat w mod (2 ^ (8 * i) * 256) < 2 ^ (8 * i)"
proof -
  have "unat w div 2 ^ (8 * i) mod 256 = 0" using assms unat_byte [of i w] by simp
  then show ?thesis by (simp add: mod_mult2_eq)
qed

lemma zero_byte_found:
  assumes "i < 4" and "byte i w = 0" shows "zero_test w"
proof -
  have w: "unat w < 2 ^ 32" using unsigned_less [where ?'a = nat, of w] by simp
  have low: "unat w mod (2 ^ (8 * i) * 256) < 2 ^ (8 * i)" by (rule byte_zero_low [OF assms(2)])
  consider "i = 0" | "i = 1" | "i = 2" | "i = 3" using assms(1) by linarith
  then show ?thesis
  proof cases
    case 1 then show ?thesis using low by (intro zero_test_hole [of 8]) simp_all
  next
    case 2 then show ?thesis using low by (intro zero_test_hole [of 16]) simp_all
  next
    case 3 then show ?thesis using low by (intro zero_test_hole [of 24]) simp_all
  next
    case 4
    then have "unat w < 2 ^ 24" using low w by simp
    then show ?thesis by (intro zero_test_hole [of 31]) simp_all
  qed
qed

lemma byte_xor: "byte i (v XOR w) = byte i v XOR byte i w"
  by (simp add: byte_def drop_bit_xor take_bit_xor)

lemma bit_u8: "8 \<le> n \<Longrightarrow> \<not> bit (c :: u8) n"
  using bit_imp_le_length [of c n] by auto

lemma bit_charmask:
  assumes "n < 8" and "i < 4"
  shows "bit (charmask c) (8 * i + n) = bit c n"
proof -
  consider "i = 0" | "i = 1" | "i = 2" | "i = 3" using assms(2) by linarith
  then show ?thesis
    using assms(1) by cases (simp_all add: charmask_def Let_def bit_or_iff bit_push_bit_iff bit_unsigned_iff bit_u8
        del: push_bit_or push_bit_push_bit)
qed

lemma byte_charmask:
  assumes "i < 4" shows "byte i (charmask c) = ucast c"
proof (rule bit_word_eqI)
  fix n assume "n < LENGTH(32)"
  then show "bit (byte i (charmask c)) n = bit (ucast c :: u32) n"
    using bit_charmask [of n i c] assms
    by (cases "n < 8") (simp_all add: byte_def bit_take_bit_iff bit_drop_bit_eq bit_unsigned_iff bit_u8)
qed

lemma unat_ucast8: "unat (ucast (b :: u8) :: u32) = unat b"
  using unsigned_less [where ?'a = nat, of b] by (simp add: unsigned_ucast_eq take_bit_nat_eq_self_iff)

lemma base256_digits:
  fixes b0 b1 b2 b3 :: nat
  assumes "b0 < 256" "b1 < 256" "b2 < 256" "b3 < 256"
  defines "x \<equiv> b0 + 256 * (b1 + 256 * (b2 + 256 * b3))"
  shows "x mod 256 = b0" "x div 2 ^ 8 mod 256 = b1" "x div 2 ^ 16 mod 256 = b2" "x div 2 ^ 24 mod 256 = b3"
proof -
  have d: "(b + 256 * y) mod 256 = b" "(b + 256 * y) div 256 = y" if "b < 256" for b y :: nat
    using that by simp_all
  have p: "(2 :: nat) ^ 8 = 256" "(2 :: nat) ^ 16 = 256 * 256" "(2 :: nat) ^ 24 = 256 * (256 * 256)" by simp_all
  show "x mod 256 = b0" "x div 2 ^ 8 mod 256 = b1" "x div 2 ^ 16 mod 256 = b2"
    unfolding p x_def div_mult2_eq d [OF assms(1)] d [OF assms(2)] d [OF assms(3)] by (rule refl)+
  show "x div 2 ^ 24 mod 256 = b3"
    unfolding p x_def div_mult2_eq d [OF assms(1)] d [OF assms(2)] d [OF assms(3)] using assms(4) by simp
qed

lemma byte_load32: "i < 4 \<Longrightarrow> byte i (load32 m p) = ucast (m (p + of_nat i))"
proof -
  assume i: "i < 4"
  have u: "unat (m a) < 256" for a using unsigned_less [where ?'a = nat, of "m a"] by simp
  let ?b = "\<lambda>k. unat (m (p + k))"
  have "unat (load32 m p) = (?b 0 + ?b 1 * 2 ^ 8 + ?b 2 * 2 ^ 16 + ?b 3 * 2 ^ 24) mod 2 ^ 32"
    unfolding load32_def by (simp add: unat_word_ariths mod_simps unat_ucast8)
  also have "\<dots> = ?b 0 + ?b 1 * 2 ^ 8 + ?b 2 * 2 ^ 16 + ?b 3 * 2 ^ 24"
    using u [of p] u [of "p + 1"] u [of "p + 2"] u [of "p + 3"] by simp
  finally have l: "unat (load32 m p) = ?b 0 + ?b 1 * 2 ^ 8 + ?b 2 * 2 ^ 16 + ?b 3 * 2 ^ 24" .
  have d: "unat (load32 m p) = ?b 0 + 256 * (?b 1 + 256 * (?b 2 + 256 * ?b 3))" using l by simp
  consider "i = 0" | "i = 1" | "i = 2" | "i = 3" using i by linarith
  then have "unat (byte i (load32 m p)) = unat (m (p + of_nat i))"
    unfolding unat_byte d using base256_digits [of "?b 0" "?b 1" "?b 2" "?b 3"] u
    by cases (simp_all del: distrib_left_numeral)
  then show ?thesis by (simp add: word_unat_eq_iff unat_ucast8)
qed

section \<open>C strings in memory\<close>

definition at_string :: "mem \<Rightarrow> u32 \<Rightarrow> u8 list \<Rightarrow> bool" where
  "at_string m a xs \<longleftrightarrow>
     (\<forall>i < length xs. m (a + of_nat i) = xs ! i) \<and> 0 \<notin> set xs \<and> m (a + of_nat (length xs)) = 0"

lemma at_string_takeWhile:
  assumes "at_string m a xs" and "k = length (takeWhile P xs)"
  shows "k \<le> length xs" "\<And>j. j < k \<Longrightarrow> P (m (a + of_nat j)) \<and> m (a + of_nat j) \<noteq> 0"
    "m (a + of_nat k) = 0 \<and> k = length xs \<or> \<not> P (m (a + of_nat k)) \<and> m (a + of_nat k) \<in> set xs \<and> m (a + of_nat k) \<noteq> 0"
proof -
  show le: "k \<le> length xs" using assms(2) by (simp add: length_takeWhile_le)
  fix j assume j: "j < k"
  then have "m (a + of_nat j) = xs ! j" "xs ! j \<in> set xs"
    using assms(1) le by (auto simp: at_string_def)
  moreover have "P (xs ! j)"
    using j assms(2) by (metis nth_mem set_takeWhileD takeWhile_nth)
  ultimately show "P (m (a + of_nat j)) \<and> m (a + of_nat j) \<noteq> 0"
    using assms(1) by (auto simp: at_string_def)
next
  show "m (a + of_nat k) = 0 \<and> k = length xs \<or> \<not> P (m (a + of_nat k)) \<and> m (a + of_nat k) \<in> set xs \<and> m (a + of_nat k) \<noteq> 0"
  proof (cases "k < length xs")
    case True
    then have "m (a + of_nat k) = xs ! k" "xs ! k \<in> set xs" "0 \<notin> set xs"
      using assms(1) by (auto simp: at_string_def)
    moreover have "\<not> P (xs ! k)" using True assms(2) by (metis nth_length_takeWhile)
    ultimately show ?thesis by metis
  next
    case False
    then have "k = length xs" using length_takeWhile_le [of P xs] assms(2) by simp
    then show ?thesis using assms(1) by (simp add: at_string_def)
  qed
qed

section \<open>\<open>strchr\<close> finds the first occurrence\<close>

definition chr_stop :: "mem \<Rightarrow> u8 \<Rightarrow> u32 \<Rightarrow> bool" where "chr_stop m c a \<longleftrightarrow> m a = c \<or> m a = 0"
definition chr_res :: "mem \<Rightarrow> u8 \<Rightarrow> u32 \<Rightarrow> u32" where "chr_res m c a = (if m a = c then a else 0)"

lemma strchr_byte_eq: "strchr_byte m c a = (if chr_stop m c a then Some (chr_res m c a) else None)"
  by (simp add: strchr_byte_def chr_stop_def chr_res_def)

lemma stop_found:
  assumes "k < 4" and "chr_stop m c (p + of_nat k)"
  shows "zero_test (load32 m p) \<or> zero_test (load32 m p XOR charmask c)"
proof (cases "m (p + of_nat k) = 0")
  case True
  then have "byte k (load32 m p) = 0" using byte_load32 [OF assms(1), of m p] by simp
  then show ?thesis using zero_byte_found [OF assms(1)] by blast
next
  case False
  then have "m (p + of_nat k) = c" using assms(2) by (simp add: chr_stop_def)
  then have "byte k (load32 m p XOR charmask c) = 0"
    using byte_load32 [OF assms(1), of m p] byte_charmask [OF assms(1), of c] by (simp add: byte_xor)
  then show ?thesis using zero_byte_found [OF assms(1)] by blast
qed

lemma strchr_words_first:
  assumes "\<And>j. j < k \<Longrightarrow> \<not> chr_stop m c (p + of_nat j)" and "chr_stop m c (p + of_nat k)"
  shows "strchr_words m c p = Some (chr_res m c (p + of_nat k))"
  using assms
proof (induction k arbitrary: p rule: less_induct)
  case (less k)
  show ?case
  proof (cases "k < 4")
    case True
    have w: "strchr_word m c p = Some (chr_res m c (p + of_nat k))"
    proof -
      consider "k = 0" | "k = 1" | "k = 2" | "k = 3" using True by linarith
      then show ?thesis
        using less.prems(2) less.prems(1) [of 0] less.prems(1) [of 1] less.prems(1) [of 2]
        by cases (simp_all add: strchr_word_def strchr_byte_eq)
    qed
    show ?thesis using stop_found [OF True less.prems(2)] by (subst strchr_words.simps) (auto simp: w Let_def)
  next
    case False
    then have w: "strchr_word m c p = None"
      using less.prems(1) [of 0] less.prems(1) [of 1] less.prems(1) [of 2] less.prems(1) [of 3]
      by (simp add: strchr_word_def strchr_byte_eq)
    have shift: "p + 4 + of_nat j = p + of_nat (j + 4)" for j by simp
    have "strchr_words m c (p + 4) = Some (chr_res m c (p + 4 + of_nat (k - 4)))"
      using False less.prems by (intro less.IH) (simp_all only: shift, auto)
    then show ?thesis using False by (subst strchr_words.simps) (simp add: w Let_def)
  qed
qed

lemma strchr_head_first:
  assumes "\<And>j. j < k \<Longrightarrow> \<not> chr_stop m c (p + of_nat j)" and "chr_stop m c (p + of_nat k)"
  shows "strchr_head m c p = Some (Inl (chr_res m c (p + of_nat k)))
       \<or> (\<exists>i \<le> k. strchr_head m c p = Some (Inr (p + of_nat i)))"
  using assms
proof (induction k arbitrary: p)
  case 0
  then show ?case by (subst (1 2) strchr_head.simps) (auto simp: chr_stop_def chr_res_def)
next
  case (Suc k)
  show ?case
  proof (cases "p AND 3 = 0")
    case True then show ?thesis by (subst (1 2) strchr_head.simps) (auto intro: exI [of _ 0])
  next
    case False
    have shift: "p + 1 + of_nat j = p + of_nat (Suc j)" for j by simp
    have "\<not> chr_stop m c p" using Suc.prems(1) [of 0] by simp
    then have e: "strchr_head m c p = strchr_head m c (p + 1)"
      using False by (subst strchr_head.simps) (simp add: chr_stop_def)
    show ?thesis
      using Suc.IH [of "p + 1"] Suc.prems unfolding e shift by (metis Suc_le_mono Suc_less_eq shift)
  qed
qed

text \<open>C37. \<open>strchr\<close>, with its test of four bytes at a time, returns the address of the first occurrence of
  the character in the string (its terminator for NUL), and NULL when there is none.\<close>

theorem strchr_first_occurrence:
  assumes "at_string m s xs"
  shows "strchr m s c = Some (if c = 0 \<or> c \<in> set xs then s + of_nat (length (takeWhile (\<lambda>b. b \<noteq> c) xs)) else 0)"
proof -
  define k where "k = length (takeWhile (\<lambda>b. b \<noteq> c) xs)"
  note t = at_string_takeWhile [OF assms k_def]
  have n: "\<not> chr_stop m c (s + of_nat j)" if "j < k" for j using t(2) [OF that] by (simp add: chr_stop_def)
  have e: "chr_stop m c (s + of_nat k)" using t(3) by (auto simp: chr_stop_def)
  have r: "strchr m s c = Some (chr_res m c (s + of_nat k))"
    using strchr_head_first [OF n e]
  proof
    assume "strchr_head m c s = Some (Inl (chr_res m c (s + of_nat k)))"
    then show ?thesis by (simp add: strchr_def)
  next
    assume "\<exists>i \<le> k. strchr_head m c s = Some (Inr (s + of_nat i))"
    then obtain i where i: "i \<le> k" "strchr_head m c s = Some (Inr (s + of_nat i))" by blast
    have shift: "s + of_nat i + of_nat j = s + of_nat (i + j)" for j by simp
    have "strchr_words m c (s + of_nat i) = Some (chr_res m c (s + of_nat i + of_nat (k - i)))"
      by (rule strchr_words_first) (use n e i(1) in \<open>simp_all only: shift, simp_all\<close>)
    then show ?thesis using i by (simp add: strchr_def)
  qed
  have "m (s + of_nat k) = c \<longleftrightarrow> c = 0 \<or> c \<in> set xs"
  proof
    assume "c = 0 \<or> c \<in> set xs"
    moreover have "k < length xs" if "c \<in> set xs"
    proof (rule ccontr)
      assume "\<not> k < length xs"
      then have "takeWhile (\<lambda>b. b \<noteq> c) xs = xs" by (metis k_def linorder_not_less take_all takeWhile_eq_take)
      then show False using that by (auto simp: takeWhile_eq_all_conv)
    qed
    moreover have "m (s + of_nat k) \<noteq> 0 \<longrightarrow> m (s + of_nat k) = c" using t(3) by blast
    moreover have "c = 0 \<Longrightarrow> k = length xs \<and> m (s + of_nat k) = 0"
      using assms t(3) by (auto simp: at_string_def)
    ultimately show "m (s + of_nat k) = c" using t(3) by (metis less_irrefl)
  next
    assume "m (s + of_nat k) = c" then show "c = 0 \<or> c \<in> set xs" using t(3) by auto
  qed
  then show ?thesis using r by (simp add: chr_res_def k_def)
qed

definition memory_of :: "u8 list \<Rightarrow> mem" where
  "memory_of xs = (\<lambda>a. if unat a < length xs then xs ! unat a else 0)"

lemma memory_of_string: "0 \<notin> set xs \<Longrightarrow> length xs < 2 ^ 32 \<Longrightarrow> at_string (memory_of xs) 0 xs"
  by (auto simp: at_string_def memory_of_def unsigned_of_nat take_bit_nat_eq_self)

theorem strchr_first_occurrence_witness:
  "strchr (memory_of [104, 101, 108, 108, 111]) 0 108 = Some 2"
  using strchr_first_occurrence [OF memory_of_string [of "[104, 101, 108, 108, 111]"], of 108] by simp

section \<open>\<open>strcmp\<close>\<close>

lemma strcmp_loop_common:
  assumes "\<And>j. j < k \<Longrightarrow> m (l + of_nat j) \<noteq> 0 \<and> m (l + of_nat j) = m (r + of_nat j)"
    and "m (l + of_nat k) = 0 \<or> m (l + of_nat k) \<noteq> m (r + of_nat k)" and "i \<le> k"
  shows "strcmp_loop m l r (of_nat i) = Some (of_nat k)"
  using assms(3)
proof (induction "k - i" arbitrary: i)
  case 0
  then show ?case using assms(2) by (subst strcmp_loop.simps) auto
next
  case (Suc n)
  then have "strcmp_loop m l r (of_nat (Suc i)) = Some (of_nat k)" by (intro Suc.hyps(1)) auto
  moreover have "i < k" using Suc.hyps(2) by linarith
  moreover from this have "m (l + of_nat i) \<noteq> 0" "m (r + of_nat i) \<noteq> 0" "m (l + of_nat i) = m (r + of_nat i)"
    using assms(1) [of i] by metis+
  ultimately show ?case by (subst strcmp_loop.simps) (simp add: add.commute)
qed

text \<open>\<open>strcmp\<close> returns for any two C strings, 0 exactly when they are equal and 1 otherwise.\<close>

theorem strcmp_equal_strings:
  assumes "at_string m l xs" and "at_string m r ys"
  shows "strcmp m l r = Some (if xs = ys then 0 else 1)"
proof -
  define k where "k = length (takeWhile (\<lambda>(a, b). a = b) (zip xs ys))"
  have le: "k \<le> length xs" "k \<le> length ys"
    using length_takeWhile_le [of "\<lambda>(a, b). a = b" "zip xs ys"] by (auto simp: k_def)
  have eq: "xs ! j = ys ! j" if "j < k" for j
  proof -
    have "zip xs ys ! j \<in> set (takeWhile (\<lambda>(a, b). a = b) (zip xs ys))"
      using that by (metis k_def nth_mem takeWhile_nth)
    then show ?thesis using that le by (auto dest: set_takeWhileD)
  qed
  have common: "m (l + of_nat j) \<noteq> 0 \<and> m (l + of_nat j) = m (r + of_nat j)" if "j < k" for j
    using eq [OF that] that le assms nth_mem [of j xs] by (auto simp: at_string_def)
  have stop: "k < length xs \<and> k < length ys \<Longrightarrow> xs ! k \<noteq> ys ! k"
    using nth_length_takeWhile [of "\<lambda>(a, b). a = b" "zip xs ys"] by (auto simp: k_def)
  have at: "k < length xs \<Longrightarrow> m (l + of_nat k) = xs ! k \<and> m (l + of_nat k) \<noteq> 0"
    "k = length xs \<Longrightarrow> m (l + of_nat k) = 0"
    "k < length ys \<Longrightarrow> m (r + of_nat k) = ys ! k \<and> m (r + of_nat k) \<noteq> 0"
    "k = length ys \<Longrightarrow> m (r + of_nat k) = 0"
    using assms by (auto simp: at_string_def in_set_conv_nth)
  have "strcmp_loop m l r (of_nat 0) = Some (of_nat k)"
    by (rule strcmp_loop_common [OF common]) (use at stop le in \<open>auto simp: le_less\<close>)
  moreover have "xs = ys \<longleftrightarrow> m (l + of_nat k) = 0 \<and> m (r + of_nat k) = 0"
    using at le eq stop by (auto simp: list_eq_iff_nth_eq le_less)
  ultimately show ?thesis by (simp add: strcmp_def)
qed

section \<open>\<open>strcspn\<close> and \<open>strspn\<close>\<close>

lemma and_split: "(str AND NOT n) + (str AND n) = str" for str n :: u32
proof -
  have "(str AND NOT n) + (str AND n) = (str AND NOT n) OR (str AND n)"
    by (rule disjunctive_add) (auto simp: bit_and_iff bit_not_iff)
  also have "\<dots> = str" by (rule bit_word_eqI) (auto simp: bit_and_iff bit_or_iff bit_not_iff)
  finally show ?thesis .
qed

lemma align_down: "\<exists>r < 4. str = PTR_ALIGN_DOWN str 4 + of_nat r" for str :: u32
proof -
  have s: "str = PTR_ALIGN_DOWN str 4 + (str AND 3)"
    using and_split [of str 3] by (simp add: PTR_ALIGN_DOWN_def)
  have "str AND 3 = take_bit 2 str" by (simp add: take_bit_eq_mask mask_eq_exp_minus_1)
  then have "unat (str AND 3) = take_bit 2 (unat str)" by (simp only: unsigned_take_bit_eq)
  then have "unat (str AND 3) = unat str mod 2 ^ 2" by (simp only: take_bit_eq_mod)
  then have "unat (str AND 3) < 4" by simp
  then show ?thesis using s by (metis of_nat_unat ucast_id)
qed

text \<open>A flag per address, 0 up to and 1 at distance \<open>k\<close>: where the word loop stops, and what is made of
  the flags of the last word.\<close>

lemma cspn_words_stop:
  assumes "\<And>a. p (m a) = 0 \<or> p (m a) = 1"
    and "\<And>j. j < k \<Longrightarrow> p (m (s0 + 4 + of_nat j)) = 0" and "p (m (s0 + 4 + of_nat k)) = 1"
  shows "cspn_words m p s0 = Some (s0 + 4 + of_nat (k div 4 * 4))"
  using assms(2,3)
proof (induction k arbitrary: s0 rule: less_induct)
  case (less k)
  show ?case
  proof (cases "k < 4")
    case True
    then consider "k = 0" | "k = 1" | "k = 2" | "k = 3" by linarith
    then show ?thesis
      using less.prems(2) by cases (subst cspn_words.simps; simp add: Let_def or_eq_0_iff add.assoc)+
  next
    case False
    have shift: "s0 + 4 + 4 + of_nat j = s0 + 4 + of_nat (j + 4)" for j by simp
    have "cspn_words m p (s0 + 4) = Some (s0 + 4 + 4 + of_nat ((k - 4) div 4 * 4))"
      using False less.prems by (intro less.IH) (simp_all only: shift, auto)
    also have "s0 + 4 + 4 + of_nat ((k - 4) div 4 * 4) = s0 + 4 + of_nat (k div 4 * 4)"
      unfolding shift using False by (simp add: le_div_geq)
    finally show ?thesis
      using False less.prems(1) [of 0] less.prems(1) [of 1] less.prems(1) [of 2] less.prems(1) [of 3]
      by (subst cspn_words.simps) (simp add: Let_def add.assoc)
  qed
qed

lemma spn_words_stop:
  assumes "\<And>a. p (m a) = 0 \<or> p (m a) = 1"
    and "\<And>j. j < k \<Longrightarrow> p (m (s0 + 4 + of_nat j)) = 1" and "p (m (s0 + 4 + of_nat k)) = 0"
  shows "spn_words m p s0 = Some (s0 + 4 + of_nat (k div 4 * 4))"
  using assms(2,3)
proof (induction k arbitrary: s0 rule: less_induct)
  case (less k)
  show ?case
  proof (cases "k < 4")
    case True
    then consider "k = 0" | "k = 1" | "k = 2" | "k = 3" by linarith
    then show ?thesis
      using less.prems(2) by cases (subst spn_words.simps; simp add: Let_def add.assoc)+
  next
    case False
    have shift: "s0 + 4 + 4 + of_nat j = s0 + 4 + of_nat (j + 4)" for j by simp
    have "spn_words m p (s0 + 4) = Some (s0 + 4 + 4 + of_nat ((k - 4) div 4 * 4))"
      using False less.prems by (intro less.IH) (simp_all only: shift, auto)
    also have "s0 + 4 + 4 + of_nat ((k - 4) div 4 * 4) = s0 + 4 + of_nat (k div 4 * 4)"
      unfolding shift using False by (simp add: le_div_geq)
    finally show ?thesis
      using False less.prems(1) [of 0] less.prems(1) [of 1] less.prems(1) [of 2] less.prems(1) [of 3]
      by (subst spn_words.simps) (simp add: Let_def add.assoc)
  qed
qed

lemma at_string_Cons: "at_string m s (y # ys) \<longleftrightarrow> m s = y \<and> y \<noteq> 0 \<and> at_string m (s + 1) ys"
proof -
  have shift: "s + of_nat (Suc i) = s + 1 + of_nat i" for i by simp
  show ?thesis unfolding at_string_def length_Cons All_less_Suc2 shift by auto
qed

lemma reject_tab_eq:
  assumes "at_string m s ys"
  shows "reject_tab m s p = Some (\<lambda>x. if x = 0 \<or> x \<in> set ys then 1 else p x)"
  using assms
proof (induction ys arbitrary: s p)
  case Nil
  then show ?case by (subst reject_tab.simps) (auto simp: at_string_def Let_def)
next
  case (Cons y ys)
  have a: "at_string m (s + 1) ys" "m s = y" "y \<noteq> 0"
    using Cons.prems by (simp_all add: at_string_Cons)
  show ?case using Cons.IH [OF a(1)] a(2,3) by (subst reject_tab.simps) (auto simp: Let_def)
qed

lemma accept_tab_eq:
  assumes "at_string m s ys" and "ys \<noteq> []"
  shows "accept_tab m s p = Some (\<lambda>x. if x \<in> set ys then 1 else p x)"
  using assms
proof (induction ys arbitrary: s p)
  case (Cons y ys)
  have a: "at_string m (s + 1) ys" "m s = y"
    using Cons.prems by (simp_all add: at_string_Cons)
  show ?case
  proof (cases ys)
    case Nil
    then have "m (s + 1) = 0" using a(1) by (simp add: at_string_def)
    then show ?thesis using a(2) Nil by (subst accept_tab.simps) (auto simp: Let_def)
  next
    case (Cons z zs)
    then have "m (s + 1) \<noteq> 0" using a(1) by (auto simp: at_string_def)
    then show ?thesis using Cons.IH [OF a(1)] a(2) Cons by (subst accept_tab.simps) (auto simp: Let_def)
  qed
qed simp

text \<open>The position of the first flag from the pointer at which the word loop stops.\<close>

lemma word_loop_distance:
  fixes str :: u32
  assumes "str = a + of_nat r" and "r < 4" and "4 \<le> k"
  defines "k' \<equiv> k + r - 4"
  shows "a + 4 + of_nat j = str + of_nat (j + 4 - r)" and "j \<le> k' \<Longrightarrow> j + 4 - r \<le> k"
    and "a + 4 + of_nat k' = str + of_nat k"
    and "a + 4 + of_nat (k' div 4 * 4) - str + of_nat (k' mod 4) = of_nat k"
proof -
  have r: "of_nat (j + 4 - r) = (of_nat j + 4 - of_nat r :: u32)" for j
    using assms(2) by (simp add: of_nat_diff)
  show a: "a + 4 + of_nat j = str + of_nat (j + 4 - r)" for j unfolding r assms(1) by simp
  show "j \<le> k' \<Longrightarrow> j + 4 - r \<le> k" using assms(2,3) by (simp add: k'_def)
  show e: "a + 4 + of_nat k' = str + of_nat k" unfolding a using assms(2,3) by (simp add: k'_def)
  have "of_nat (k' div 4 * 4) + of_nat (k' mod 4) = (of_nat k' :: u32)"
    by (simp only: of_nat_add [symmetric] div_mult_mod_eq)
  then have "a + 4 + of_nat (k' div 4 * 4) - str + of_nat (k' mod 4) = a + 4 + of_nat k' - str"
    by (simp add: algebra_simps)
  then show "a + 4 + of_nat (k' div 4 * 4) - str + of_nat (k' mod 4) = of_nat k" unfolding e by simp
qed

lemma flags_of_word:
  assumes "\<And>j. j < k' \<Longrightarrow> f (b + of_nat j) = u" and "f (b + of_nat k') \<noteq> u"
  defines "s \<equiv> b + of_nat (k' div 4 * 4)"
  shows "\<And>i. i < k' mod 4 \<Longrightarrow> f (s + of_nat i) = u" and "f (s + of_nat (k' mod 4)) \<noteq> u"
proof -
  have e: "s + of_nat i = b + of_nat (k' div 4 * 4 + i)" for i :: nat by (simp add: s_def add.assoc)
  show "f (s + of_nat i) = u" if "i < k' mod 4" for i
  proof -
    have "k' div 4 * 4 + i < k'" using that div_mult_mod_eq [of k' 4] by linarith
    then show ?thesis unfolding e by (rule assms(1))
  qed
  show "f (s + of_nat (k' mod 4)) \<noteq> u" unfolding e using assms(2) by simp
qed

lemma last_word_cspn:
  fixes c :: "nat \<Rightarrow> u32"
  assumes "j < 4" and "\<And>i. i < j \<Longrightarrow> c i = 0" and "c j = 1"
  shows "(if (c 0 OR c 1) \<noteq> 0 then x - c 0 + 1 else x - c 2 + 3) = x + of_nat j"
proof -
  consider "j = 0" | "j = 1" | "j = 2" | "j = 3" using assms(1) by linarith
  then show ?thesis
  proof cases
    case 1 then show ?thesis using assms(3) by (simp add: or_eq_0_iff)
  next
    case 2 then show ?thesis using assms(2) [of 0] assms(3) by simp
  next
    case 3 then show ?thesis using assms(2) [of 0] assms(2) [of 1] assms(3) by simp
  next
    case 4 then show ?thesis using assms(2) [of 0] assms(2) [of 1] assms(2) [of 2] by simp
  qed
qed

lemma last_word_spn:
  fixes c :: "nat \<Rightarrow> u32"
  assumes "j < 4" and "\<And>i. i < j \<Longrightarrow> c i = 1" and "c j = 0"
  shows "(if (c 0 AND c 1) = 0 then x + c 0 else x + c 2 + 2) = x + of_nat j"
proof -
  consider "j = 0" | "j = 1" | "j = 2" | "j = 3" using assms(1) by linarith
  then show ?thesis
  proof cases
    case 1 then show ?thesis using assms(3) by simp
  next
    case 2 then show ?thesis using assms(2) [of 0] assms(3) by simp
  next
    case 3 then show ?thesis using assms(2) [of 0] assms(2) [of 1] assms(3) by simp
  next
    case 4 then show ?thesis using assms(2) [of 0] assms(2) [of 1] assms(2) [of 2] by simp
  qed
qed

text \<open>The word that holds the first flag, for a string whose first four characters are not flagged.\<close>

lemma word_scan:
  assumes "\<And>j. j < k \<Longrightarrow> f (str + of_nat j) = u" and "f (str + of_nat k) \<noteq> u" and "4 \<le> k"
  obtains k' s where "\<And>j. j < k' \<Longrightarrow> f (PTR_ALIGN_DOWN str 4 + 4 + of_nat j) = u"
    "f (PTR_ALIGN_DOWN str 4 + 4 + of_nat k') \<noteq> u"
    "s = PTR_ALIGN_DOWN str 4 + 4 + of_nat (k' div 4 * 4)"
    "\<And>i. i < k' mod 4 \<Longrightarrow> f (s + of_nat i) = u" "f (s + of_nat (k' mod 4)) \<noteq> u"
    "of_nat k = s - str + of_nat (k' mod 4)"
proof -
  let ?a = "PTR_ALIGN_DOWN str 4"
  obtain r where r: "r < 4" "str = ?a + of_nat r" using align_down by blast
  define k' where "k' = k + r - 4"
  note dist = word_loop_distance [OF r(2,1) assms(3), folded k'_def]
  have n: "f (?a + 4 + of_nat j) = u" if "j < k'" for j
  proof -
    have "j + 4 - r < k" using that r(1) assms(3) by (simp add: k'_def)
    then show ?thesis using assms(1) unfolding dist(1) by blast
  qed
  have e: "f (?a + 4 + of_nat k') \<noteq> u" using assms(2) unfolding dist(3) .
  show ?thesis
    using that [OF n e refl flags_of_word [where f = f and u = u and b = "?a + 4" and k' = k', OF n e]
      dist(4) [symmetric]] by blast
qed

text \<open>\<open>strcspn\<close> is the length of the longest prefix without a character of the reject string,
  whatever the alignment of the string, although it reads a word at a time past the first four bytes.\<close>

theorem strcspn_prefix:
  assumes "at_string m str xs" and "at_string m reject ys"
  shows "strcspn m str reject = Some (of_nat (length (takeWhile (\<lambda>b. b \<notin> set ys) xs)))"
proof -
  define k where "k = length (takeWhile (\<lambda>b. b \<notin> set ys) xs)"
  define p :: tab where "p = (\<lambda>x. if x = 0 \<or> x \<in> set ys then 1 else 0)"
  note t = at_string_takeWhile [OF assms(1) k_def]
  have tab: "reject_tab m reject empty_tab = Some p"
    by (simp add: reject_tab_eq [OF assms(2)] p_def empty_tab_def)
  have n: "p (m (str + of_nat j)) = 0" if "j < k" for j using t(2) [OF that] by (simp add: p_def)
  have e: "p (m (str + of_nat k)) = 1" using t(3) by (auto simp: p_def)
  have flag: "p x = 0 \<or> p x = 1" for x by (simp add: p_def)
  show ?thesis
  proof (cases "k < 4")
    case True
    then consider "k = 0" | "k = 1" | "k = 2" | "k = 3" by linarith
    then show ?thesis
      using e n [of 0] n [of 1] n [of 2] by cases (simp_all add: strcspn_def tab k_def [symmetric])
  next
    case False
    have ne: "p (m (str + of_nat k)) \<noteq> 0" using e by simp
    obtain k' s where w: "\<And>j. j < k' \<Longrightarrow> p (m (PTR_ALIGN_DOWN str 4 + 4 + of_nat j)) = 0"
      "p (m (PTR_ALIGN_DOWN str 4 + 4 + of_nat k')) \<noteq> 0"
      "s = PTR_ALIGN_DOWN str 4 + 4 + of_nat (k' div 4 * 4)"
      "\<And>i. i < k' mod 4 \<Longrightarrow> p (m (s + of_nat i)) = 0" "p (m (s + of_nat (k' mod 4))) \<noteq> 0"
      "of_nat k = s - str + of_nat (k' mod 4)"
      by (rule word_scan [of k "\<lambda>a. p (m a)" str 0, OF n ne]) (assumption, use False in simp, rule that)
    have loop: "cspn_words m p (PTR_ALIGN_DOWN str 4) = Some s"
      unfolding w(3) by (rule cspn_words_stop) (use flag w(1,2) in blast)+
    have "\<not> (p (m str) \<noteq> 0)" "\<not> (p (m (str + 1)) \<noteq> 0)" "\<not> (p (m (str + 2)) \<noteq> 0)" "\<not> (p (m (str + 3)) \<noteq> 0)"
      using n [of 0] n [of 1] n [of 2] n [of 3] False by simp_all
    then have "strcspn m str reject = Some (if (p (m s) OR p (m (s + 1))) \<noteq> 0
        then s - str - p (m s) + 1 else s - str - p (m (s + 2)) + 3)"
      by (simp only: strcspn_def tab loop if_False Option.bind_lunit Let_def)
    moreover define c where "c = (\<lambda>i. p (m (s + of_nat i)))"
    have c: "p (m s) = c 0" "p (m (s + 1)) = c 1" "p (m (s + 2)) = c 2" by (simp_all add: c_def)
    moreover have "(if (c 0 OR c 1) \<noteq> 0 then s - str - c 0 + 1 else s - str - c 2 + 3) = s - str + of_nat (k' mod 4)"
    proof (rule last_word_cspn)
      show "k' mod 4 < 4" by simp
      show "c i = 0" if "i < k' mod 4" for i unfolding c_def using that by (rule w(4))
      show "c (k' mod 4) = 1" unfolding c_def using w(5) flag by blast
    qed
    ultimately show ?thesis unfolding k_def [symmetric] w(6) c by (simp only:)
  qed
qed

text \<open>\<open>strspn\<close> is the length of the longest prefix of characters of the accept string; a single accept
  character is compared byte by byte, and none at all gives 0.\<close>

theorem strspn_prefix:
  assumes "at_string m str xs" and "at_string m accept ys"
  shows "strspn m str accept = Some (of_nat (length (takeWhile (\<lambda>b. b \<in> set ys) xs)))"
proof -
  define k where "k = length (takeWhile (\<lambda>b. b \<in> set ys) xs)"
  define p :: tab where "p = (\<lambda>x. if x \<in> set ys then 1 else 0)"
  note t = at_string_takeWhile [OF assms(1) k_def]
  have y0: "0 \<notin> set ys" using assms(2) by (simp add: at_string_def)
  have n: "p (m (str + of_nat j)) = 1" if "j < k" for j using t(2) [OF that] by (simp add: p_def)
  have e: "p (m (str + of_nat k)) = 0" using t(3) y0 by (auto simp: p_def)
  have flag: "p x = 0 \<or> p x = 1" for x by (simp add: p_def)
  consider "ys = []" | y where "ys = [y]" | y y' zs where "ys = y # y' # zs" by (metis list.exhaust)
  then show ?thesis
  proof cases
    case 1 then show ?thesis using assms(2) by (cases xs) (simp_all add: strspn_def at_string_def)
  next
    case (2 y)
    have l: "same_char_loop m (str + of_nat i) accept = Some (str + of_nat k)" if "i \<le> k" for i
      using that
    proof (induction "k - i" arbitrary: i)
      case 0
      then have "m (str + of_nat i) \<noteq> m accept"
        using e 2 assms(2) by (auto simp: p_def at_string_Cons split: if_splits)
      then show ?case using 0 by (subst same_char_loop.simps) simp
    next
      case (Suc d)
      then have "i < k" by linarith
      then have "m (str + of_nat i) = m accept"
        using n [of i] 2 assms(2) by (auto simp: p_def at_string_Cons split: if_splits)
      moreover have "same_char_loop m (str + of_nat (Suc i)) accept = Some (str + of_nat k)"
        using Suc by (intro Suc.hyps(1)) auto
      ultimately show ?case by (subst same_char_loop.simps) (simp add: ac_simps)
    qed
    show ?thesis
      using l [of 0] 2 assms(2) by (simp add: strspn_def at_string_Cons at_string_def k_def)
  next
    case (3 y y' zs)
    have tab: "accept_tab m accept empty_tab = Some p"
      using accept_tab_eq [OF assms(2)] 3 by (simp add: p_def empty_tab_def)
    have a: "m accept \<noteq> 0" "m (accept + 1) \<noteq> 0" using assms(2) 3 by (auto simp: at_string_Cons)
    have r0: "strspn m str accept = (if p (m str) = 0 then Some 0
        else if p (m (str + 1)) = 0 then Some 1 else if p (m (str + 2)) = 0 then Some 2
        else if p (m (str + 3)) = 0 then Some 3
        else do { s \<leftarrow> spn_words m p (PTR_ALIGN_DOWN str 4);
          Some (if (p (m s) AND p (m (s + 1))) = 0 then s - str + p (m s) else s - str + p (m (s + 2)) + 2) })"
      using a by (simp only: strspn_def tab if_False Option.bind_lunit Let_def)
    show ?thesis
    proof (cases "k < 4")
      case True
      then consider "k = 0" | "k = 1" | "k = 2" | "k = 3" by linarith
      then show ?thesis
        unfolding r0 using e n [of 0] n [of 1] n [of 2] by cases (simp_all add: k_def [symmetric])
    next
      case False
      have ne: "p (m (str + of_nat k)) \<noteq> 1" using e by simp
      obtain k' s where w: "\<And>j. j < k' \<Longrightarrow> p (m (PTR_ALIGN_DOWN str 4 + 4 + of_nat j)) = 1"
        "p (m (PTR_ALIGN_DOWN str 4 + 4 + of_nat k')) \<noteq> 1"
        "s = PTR_ALIGN_DOWN str 4 + 4 + of_nat (k' div 4 * 4)"
        "\<And>i. i < k' mod 4 \<Longrightarrow> p (m (s + of_nat i)) = 1" "p (m (s + of_nat (k' mod 4))) \<noteq> 1"
        "of_nat k = s - str + of_nat (k' mod 4)"
        by (rule word_scan [of k "\<lambda>a. p (m a)" str 1, OF n ne]) (assumption, use False in simp, rule that)
      have loop: "spn_words m p (PTR_ALIGN_DOWN str 4) = Some s"
        unfolding w(3) by (rule spn_words_stop) (use flag w(1,2) in blast)+
      have "p (m str) \<noteq> 0" "p (m (str + 1)) \<noteq> 0" "p (m (str + 2)) \<noteq> 0" "p (m (str + 3)) \<noteq> 0"
        using n [of 0] n [of 1] n [of 2] n [of 3] False by simp_all
      then have "strspn m str accept = Some (if (p (m s) AND p (m (s + 1))) = 0 then s - str + p (m s)
          else s - str + p (m (s + 2)) + 2)"
        unfolding r0 by (simp add: loop)
      moreover define c where "c = (\<lambda>i. p (m (s + of_nat i)))"
      have c: "p (m s) = c 0" "p (m (s + 1)) = c 1" "p (m (s + 2)) = c 2" by (simp_all add: c_def)
      moreover have "(if (c 0 AND c 1) = 0 then s - str + c 0 else s - str + c 2 + 2) = s - str + of_nat (k' mod 4)"
      proof (rule last_word_spn)
        show "k' mod 4 < 4" by simp
        show "c i = 1" if "i < k' mod 4" for i unfolding c_def using that by (rule w(4))
        show "c (k' mod 4) = 0" unfolding c_def using w(5) flag by blast
      qed
      ultimately show ?thesis unfolding k_def [symmetric] w(6) c by (simp only:)
    qed
  qed
qed

lemma two_strings:
  "at_string (memory_of [97, 98, 99, 0, 99, 100]) 0 [97, 98, 99]" "at_string (memory_of [97, 98, 99, 0, 99, 100]) 4 [99, 100]"
  by (simp_all add: at_string_def memory_of_def All_less_Suc2)

theorem strcspn_prefix_witness: "strcspn (memory_of [97, 98, 99, 0, 99, 100]) 0 4 = Some 2"
  using strcspn_prefix [OF two_strings] by simp

theorem strspn_prefix_witness: "strspn (memory_of [97, 98, 99, 0, 99, 100]) 0 4 = Some 0"
  using strspn_prefix [OF two_strings] by simp

theorem strcmp_equal_strings_witness: "strcmp (memory_of [97, 98, 99, 0, 99, 100]) 0 4 = Some 1"
  using strcmp_equal_strings [OF two_strings] by simp

section \<open>\<open>strlen\<close> and the block operations\<close>

text \<open>\<open>strlen\<close> counts up to the first newline; the terminator of a string does not stop it.\<close>

lemma strlen_to_newline:
  assumes "\<And>j. j < n \<Longrightarrow> m (s + of_nat j) \<noteq> 10" and "m (s + of_nat n) = 10"
  shows "strlen m s = Some (of_nat n)"
proof -
  have "strlen_loop m s (of_nat i) = Some (of_nat n)" if "i \<le> n" for i
    using that
  proof (induction "n - i" arbitrary: i)
    case 0 then show ?case using assms(2) by (subst strlen_loop.simps) simp
  next
    case (Suc d)
    then have "i < n" by linarith
    moreover have "strlen_loop m s (of_nat (Suc i)) = Some (of_nat n)" using Suc by (intro Suc.hyps(1)) auto
    ultimately show ?case using assms(1) by (subst strlen_loop.simps) (simp add: ac_simps)
  qed
  from this [of 0] show ?thesis by (simp add: strlen_def)
qed

lemma strlen_past_terminator: "strlen (memory_of [97, 0, 98, 10]) 0 = Some 3"
proof -
  have "memory_of [97, 0, 98, 10] (0 + of_nat j) \<noteq> 10" if "j < 3" for j
  proof -
    from that have "j \<in> {0, 1, 2}" by auto
    then show ?thesis by (auto simp: memory_of_def)
  qed
  then show ?thesis using strlen_to_newline [of 3 "memory_of [97, 0, 98, 10]" 0] by (simp add: memory_of_def)
qed

text \<open>\<open>strcpy\<close> and \<open>memcpy\<close> into a place that does not overlap their source.\<close>

lemma memcpy_copies:
  assumes "\<And>i j. i < n \<Longrightarrow> j < n \<Longrightarrow> dst + of_nat i \<noteq> src + of_nat j" and "n \<le> 2 ^ 32"
  shows "i < n \<Longrightarrow> memcpy dst src n m (dst + of_nat i) = m (src + of_nat i)"
    and "(\<And>i. i < n \<Longrightarrow> a \<noteq> dst + of_nat i) \<Longrightarrow> memcpy dst src n m a = m a"
proof -
  have inj: "(of_nat i :: u32) = of_nat j \<longleftrightarrow> i = j" if "i < 2 ^ 32" "j < 2 ^ 32" for i j
    using that by (simp add: word_of_nat_eq_iff take_bit_nat_eq_self)
  have *: "(\<forall>i < k. memcpy dst src k m (dst + of_nat i) = m (src + of_nat i))
     \<and> (\<forall>a. (\<forall>i < k. a \<noteq> dst + of_nat i) \<longrightarrow> memcpy dst src k m a = m a)" if "k \<le> n" for k
    using that
  proof (induction k)
    case 0 show ?case by (simp add: memcpy_def)
  next
    case (Suc k)
    let ?m = "memcpy dst src k m"
    have s: "memcpy dst src (Suc k) m = ?m(dst + of_nat k := ?m (src + of_nat k))" by (simp add: memcpy_def)
    have "\<forall>i < k. src + of_nat k \<noteq> dst + of_nat i" using assms(1) Suc.prems by (metis Suc_le_lessD less_trans)
    then have src: "?m (src + of_nat k) = m (src + of_nat k)" using Suc by simp
    have "dst + of_nat i \<noteq> dst + of_nat k" if "i < k" for i
      using inj [of i k] that Suc.prems assms(2) by simp
    then show ?case using Suc unfolding s src by (auto simp: less_Suc_eq)
  qed
  show "i < n \<Longrightarrow> memcpy dst src n m (dst + of_nat i) = m (src + of_nat i)" using * by blast
  show "(\<And>i. i < n \<Longrightarrow> a \<noteq> dst + of_nat i) \<Longrightarrow> memcpy dst src n m a = m a" using * by blast
qed

lemma memcmp_equal: "memcmp m p q n = 0 \<longleftrightarrow> (\<forall>i < n. m (p + of_nat i) = m (q + of_nat i))"
proof -
  have "memcmp_loop m p q i n = 0 \<longleftrightarrow> (\<forall>j < n. m (p + of_nat (i + j)) = m (q + of_nat (i + j)))" for i
  proof (induction n arbitrary: i)
    case (Suc n)
    show ?case using Suc [of "Suc i"] unfolding memcmp_loop.simps All_less_Suc2 by (simp del: of_nat_Suc)
  qed simp
  from this [of 0] show ?thesis by (simp add: memcmp_def)
qed

text \<open>Copying a block to a place that does not overlap it makes the two compare equal, leaves the
  source and every other byte as they were.\<close>

theorem memcpy_memcmp_roundtrip:
  assumes "\<And>i j. i < n \<Longrightarrow> j < n \<Longrightarrow> dst + of_nat i \<noteq> src + of_nat j" and "n \<le> 2 ^ 32"
  shows "memcmp (memcpy dst src n m) dst src n = 0
    \<and> (\<forall>a. a \<notin> (\<lambda>i. dst + of_nat i) ` {..<n} \<longrightarrow> memcpy dst src n m a = m a)"
proof -
  have "memcpy dst src n m (src + of_nat i) = m (src + of_nat i)" if "i < n" for i
    using assms(1) that by (intro memcpy_copies(2) [OF assms]) metis+
  then show ?thesis using memcpy_copies [OF assms] by (auto simp: memcmp_equal image_iff)
qed

theorem memcpy_memcmp_roundtrip_witness:
  "memcmp (memcpy 0x100 0 4 (memory_of [1, 2, 3, 4])) 0x100 0 4 = 0"
proof -
  have "(0x100 :: u32) + of_nat i \<noteq> 0 + of_nat j" if "i < 4" "j < 4" for i j
  proof -
    from that have "i \<in> {0, 1, 2, 3}" "j \<in> {0, 1, 2, 3}" by auto
    then show ?thesis by auto
  qed
  then show ?thesis using memcpy_memcmp_roundtrip [of 4 "0x100" 0] by simp
qed
section \<open>Words in memory\<close>

definition store32 :: "u32 \<Rightarrow> u32 \<Rightarrow> mem \<Rightarrow> mem" where
  "store32 p v m = m(p := ucast v, p + 1 := ucast (drop_bit 8 v), p + 2 := ucast (drop_bit 16 v),
     p + 3 := ucast (drop_bit 24 v))"

lemma bit_byte: "bit v n \<longleftrightarrow> bit (byte (n div 8) v) (n mod 8)" for v :: u32
  by (simp add: byte_def bit_take_bit_iff bit_drop_bit_eq)

lemma byte_eqI:
  assumes "\<And>i. i < 4 \<Longrightarrow> byte i v = byte i w" shows "v = w"
proof (rule bit_word_eqI)
  fix n assume "n < LENGTH(32)"
  then show "bit v n = bit w n" using assms [of "n div 8"] by (simp add: bit_byte [of v] bit_byte [of w])
qed

lemma ucast_byte: "(ucast (ucast (drop_bit (8 * i) v) :: u8) :: u32) = byte i v"
  by (rule bit_word_eqI) (auto simp: byte_def bit_unsigned_iff bit_take_bit_iff bit_drop_bit_eq)

lemma load32_store32 [simp]: "load32 (store32 p v m) p = v"
proof (rule byte_eqI)
  fix i :: nat assume i: "i < 4"
  have n: "p + 1 \<noteq> p" "p + 2 \<noteq> p" "p + 3 \<noteq> p" "p + 2 \<noteq> p + 1" "p + 3 \<noteq> p + 1" "p + 3 \<noteq> p + 2" by simp_all
  consider "i = 0" | "i = 1" | "i = 2" | "i = 3" using i by linarith
  then have "store32 p v m (p + of_nat i) = ucast (drop_bit (8 * i) v)"
    by cases (simp_all add: store32_def n [symmetric])
  then show "byte i (load32 (store32 p v m) p) = byte i v" by (simp only: byte_load32 [OF i] ucast_byte)
qed

lemma load32_cong:
  assumes "m p = m' q" "m (p + 1) = m' (q + 1)" "m (p + 2) = m' (q + 2)" "m (p + 3) = m' (q + 3)"
  shows "load32 m p = load32 m' q"
  using assms by (simp add: load32_def)

lemma load32_store32_other:
  assumes "\<And>a b. a < 4 \<Longrightarrow> b < 4 \<Longrightarrow> q + of_nat a \<noteq> p + of_nat b"
  shows "load32 (store32 p v m) q = load32 m q"
proof (rule load32_cong)
  have "store32 p v m (q + of_nat a) = m (q + of_nat a)" if "a < 4" for a
    using assms [OF that, of 0] assms [OF that, of 1] assms [OF that, of 2] assms [OF that, of 3] by (simp add: store32_def)
  from this [of 0] this [of 1] this [of 2] this [of 3]
  show "store32 p v m q = m q" "store32 p v m (q + 1) = m (q + 1)" "store32 p v m (q + 2) = m (q + 2)"
    "store32 p v m (q + 3) = m (q + 3)" by simp_all
qed

end
