(* ===== verification/Ramdisk.thy ===== *)
theory Ramdisk
  imports Lib
begin

unbundle bit_operations_syntax

text \<open>
  The ramdisk driver (src/kernel/drivers/ramdisk/ramdisk_io.c, inc/ramdisk_io.h): a flash device played by
  4 MiB of memory at \<open>RAMDISK_START\<close>. Memory is bytes by address; a buffer of the caller is a memory of
  its own, indexed from 0. The contract the file system relies on is the locale \<open>flash\<close>, which the driver
  satisfies for accesses that do not wrap around.
\<close>

section \<open>Operations\<close>

definition RAMDISK_START :: u32 where "RAMDISK_START = 0x03000000"
definition RAMDISK_SIZE :: u32 where "RAMDISK_SIZE = 0x400000"
definition RAMDISK_BLK_SIZE :: u32 where "RAMDISK_BLK_SIZE = 0x200"
definition RAMDISK_BLK_SIZE_SHIFT :: nat where "RAMDISK_BLK_SIZE_SHIFT = 9"
definition RAMDISK_PAGE_SIZE :: u32 where "RAMDISK_PAGE_SIZE = 0x1000"
definition RAMDISK_PAGE_SIZE_SHIFT :: nat where "RAMDISK_PAGE_SIZE_SHIFT = 12"
definition RAMDISK_PAGE_NUM :: u32 where "RAMDISK_PAGE_NUM = RAMDISK_SIZE div RAMDISK_PAGE_SIZE"

definition erase_ramdisk_chip :: "mem \<Rightarrow> ret \<times> mem" where
  "erase_ramdisk_chip m =
     (NO_ERR, for_upto (unat RAMDISK_SIZE) (\<lambda>i m. m(RAMDISK_START + of_nat i := 0xFF)) m)"

definition erase_ramdisk_page :: "u32 \<Rightarrow> mem \<Rightarrow> ret \<times> mem" where
  "erase_ramdisk_page page m =
     (NO_ERR, for_upto (unat RAMDISK_PAGE_SIZE)
        (\<lambda>i m. m(RAMDISK_START + page * RAMDISK_PAGE_SIZE + of_nat i := 0xFF)) m)"

definition write_ramdisk :: "u32 \<Rightarrow> u32 \<Rightarrow> mem \<Rightarrow> mem \<Rightarrow> ret \<times> mem" where
  "write_ramdisk addr len buf m =
     (if addr + len > RAMDISK_SIZE then (RetMinusOne, m)
      else (NO_ERR, for_upto (unat len) (\<lambda>i m. m(RAMDISK_START + addr + of_nat i := buf (of_nat i))) m))"

text \<open>\<open>buf\<close> is the buffer before the call, and \<open>at\<close> the place in it the pointer argument points to.\<close>

definition read_ramdisk :: "u32 \<Rightarrow> u32 \<Rightarrow> mem \<Rightarrow> u32 \<Rightarrow> mem \<Rightarrow> ret \<times> mem" where
  "read_ramdisk addr len m at buf =
     (if addr + len > RAMDISK_SIZE then (RetMinusOne, buf)
      else (NO_ERR, for_upto (unat len) (\<lambda>i b. b(at + of_nat i := m (RAMDISK_START + addr + of_nat i))) buf))"

definition erase_ramdisk :: "u32 \<Rightarrow> u32 \<Rightarrow> mem \<Rightarrow> ret \<times> mem" where
  "erase_ramdisk addr len m =
     (let start_pg = addr div RAMDISK_PAGE_SIZE; pg_cnt = len div RAMDISK_PAGE_SIZE
      in (NO_ERR, for_upto (unat pg_cnt) (\<lambda>i. for_upto (unat RAMDISK_PAGE_SIZE)
            (\<lambda>j m. m(start_pg + of_nat i * RAMDISK_PAGE_SIZE + of_nat j := 0xFF))) m))"

section \<open>The device as an array of bytes\<close>

definition dsk :: "mem \<Rightarrow> nat \<Rightarrow> u8" where "dsk m a = m (RAMDISK_START + of_nat a)"

lemmas disk_consts = RAMDISK_START_def RAMDISK_SIZE_def RAMDISK_PAGE_SIZE_def RAMDISK_PAGE_NUM_def
  RAMDISK_BLK_SIZE_def RAMDISK_BLK_SIZE_SHIFT_def RAMDISK_PAGE_SIZE_SHIFT_def

lemma of_nat_u32_eq: "a < 2 ^ 32 \<Longrightarrow> b < 2 ^ 32 \<Longrightarrow> (of_nat a :: u32) = of_nat b \<longleftrightarrow> a = b"
  by (simp add: word_of_nat_eq_iff take_bit_nat_eq_self)

lemma unat_of_nat_u32: "a < 2 ^ 32 \<Longrightarrow> unat (of_nat a :: u32) = a"
  by (simp add: unsigned_of_nat take_bit_nat_eq_self)

lemma for_upto_range:
  assumes "a + n \<le> 2 ^ 32" and "x < 2 ^ 32"
  shows "for_upto n (\<lambda>i m. m(base + of_nat a + of_nat i := f i)) m (base + of_nat x)
       = (if a \<le> x \<and> x < a + n then f (x - a) else m (base + of_nat x :: u32))"
  using assms
proof (induction n)
  case (Suc n)
  let ?F = "\<lambda>n. for_upto n (\<lambda>i m. m(base + of_nat a + of_nat i := f i)) m (base + of_nat x)"
  have "base + of_nat x = base + of_nat a + of_nat n \<longleftrightarrow> (of_nat x :: u32) = of_nat (a + n)"
    by (simp add: add.assoc)
  also have "\<dots> \<longleftrightarrow> x = a + n" using Suc.prems by (intro of_nat_u32_eq) simp_all
  finally have "?F (Suc n) = (if x = a + n then f n else ?F n)" by simp
  also have "?F n = (if a \<le> x \<and> x < a + n then f (x - a) else m (base + of_nat x))"
    using Suc.prems by (intro Suc.IH) simp_all
  finally show ?case by (simp only:) (cases "x = a + n"; simp)
qed auto

lemma unat_add_no_wrap: "unat a + unat b < 2 ^ 32 \<Longrightarrow> unat (a + b) = unat a + unat b" for a b :: u32
  by (simp add: unat_word_ariths)

text \<open>Accesses that lie on the device.\<close>

lemma write_ramdisk_dsk:
  assumes "unat addr + unat len \<le> 0x400000"
  shows "fst (write_ramdisk addr len buf m) = NO_ERR"
    and "x < 2 ^ 32 \<Longrightarrow> dsk (snd (write_ramdisk addr len buf m)) x
       = (if unat addr \<le> x \<and> x < unat addr + unat len then buf (of_nat (x - unat addr)) else dsk m x)"
proof -
  have u: "unat (addr + len) = unat addr + unat len" using assms by (intro unat_add_no_wrap) simp
  have le: "\<not> addr + len > RAMDISK_SIZE"
    using assms u by (simp add: word_less_nat_alt RAMDISK_SIZE_def)
  then show "fst (write_ramdisk addr len buf m) = NO_ERR" by (simp add: write_ramdisk_def)
  assume "x < 2 ^ 32"
  moreover have "of_nat (unat addr) = addr" by simp
  ultimately show "dsk (snd (write_ramdisk addr len buf m)) x
      = (if unat addr \<le> x \<and> x < unat addr + unat len then buf (of_nat (x - unat addr)) else dsk m x)"
    using for_upto_range [of "unat addr" "unat len" x RAMDISK_START "\<lambda>i. buf (of_nat i)" m] assms le
    by (simp add: write_ramdisk_def dsk_def)
qed

lemma read_ramdisk_dsk:
  assumes "unat addr + unat len \<le> 0x400000"
  shows "fst (read_ramdisk addr len m at buf) = NO_ERR"
    and "x < 2 ^ 32 \<Longrightarrow> unat at + unat len \<le> 2 ^ 32 \<Longrightarrow> snd (read_ramdisk addr len m at buf) (of_nat x)
       = (if unat at \<le> x \<and> x < unat at + unat len then dsk m (unat addr + (x - unat at)) else buf (of_nat x))"
proof -
  have u: "unat (addr + len) = unat addr + unat len" using assms by (intro unat_add_no_wrap) simp
  have le: "\<not> addr + len > RAMDISK_SIZE"
    using assms u by (simp add: word_less_nat_alt RAMDISK_SIZE_def)
  then show "fst (read_ramdisk addr len m at buf) = NO_ERR" by (simp add: read_ramdisk_def)
  assume x: "x < 2 ^ 32" "unat at + unat len \<le> 2 ^ 32"
  have "of_nat (unat at) = at" by simp
  then show "snd (read_ramdisk addr len m at buf) (of_nat x)
      = (if unat at \<le> x \<and> x < unat at + unat len then dsk m (unat addr + (x - unat at)) else buf (of_nat x))"
    using for_upto_range [of "unat at" "unat len" x 0 "\<lambda>i. m (RAMDISK_START + addr + of_nat i)" buf] x le
    by (simp add: read_ramdisk_def dsk_def algebra_simps)
qed

lemma erase_page_dsk:
  assumes "unat page < 1024" and "x < 2 ^ 32"
  shows "fst (erase_ramdisk_page page m) = NO_ERR"
    and "dsk (snd (erase_ramdisk_page page m)) x
       = (if unat page * 4096 \<le> x \<and> x < unat page * 4096 + 4096 then 0xFF else dsk m x)"
proof -
  have "page * RAMDISK_PAGE_SIZE = of_nat (unat page * 4096)" by (simp add: RAMDISK_PAGE_SIZE_def)
  then show "dsk (snd (erase_ramdisk_page page m)) x
      = (if unat page * 4096 \<le> x \<and> x < unat page * 4096 + 4096 then 0xFF else dsk m x)"
    using for_upto_range [of "unat page * 4096" 4096 x RAMDISK_START "\<lambda>i. 0xFF" m] assms
    by (simp add: erase_ramdisk_page_def dsk_def RAMDISK_PAGE_SIZE_def)
qed (simp add: erase_ramdisk_page_def)

lemma erase_chip_dsk:
  "fst (erase_ramdisk_chip m) = NO_ERR"
  "x < 0x400000 \<Longrightarrow> dsk (snd (erase_ramdisk_chip m)) x = 0xFF"
  using for_upto_range [of 0 "0x400000" x RAMDISK_START "\<lambda>i. 0xFF" m]
  by (simp_all add: erase_ramdisk_chip_def dsk_def RAMDISK_SIZE_def)

section \<open>The contract of a flash device\<close>

text \<open>What the file system relies on: a device of 4 MiB whose bytes are read, written and erased by page.\<close>

locale flash =
  fixes byte_at :: "'m \<Rightarrow> nat \<Rightarrow> u8"
    and wr :: "u32 \<Rightarrow> u32 \<Rightarrow> mem \<Rightarrow> 'm \<Rightarrow> ret \<times> 'm"
    and rd :: "u32 \<Rightarrow> u32 \<Rightarrow> 'm \<Rightarrow> u32 \<Rightarrow> mem \<Rightarrow> ret \<times> mem"
    and erase :: "u32 \<Rightarrow> 'm \<Rightarrow> ret \<times> 'm"
  assumes wr_ok: "unat a + unat l \<le> 0x400000 \<Longrightarrow> fst (wr a l buf m) = NO_ERR"
    and wr_byte: "unat a + unat l \<le> 0x400000 \<Longrightarrow> x < 2 ^ 32 \<Longrightarrow> byte_at (snd (wr a l buf m)) x
      = (if unat a \<le> x \<and> x < unat a + unat l then buf (of_nat (x - unat a)) else byte_at m x)"
    and rd_ok: "unat a + unat l \<le> 0x400000 \<Longrightarrow> fst (rd a l m at buf) = NO_ERR"
    and rd_byte: "unat a + unat l \<le> 0x400000 \<Longrightarrow> x < 2 ^ 32 \<Longrightarrow> unat at + unat l \<le> 2 ^ 32
      \<Longrightarrow> snd (rd a l m at buf) (of_nat x)
      = (if unat at \<le> x \<and> x < unat at + unat l then byte_at m (unat a + (x - unat at)) else buf (of_nat x))"
    and erase_ok: "unat p < 1024 \<Longrightarrow> fst (erase p m) = NO_ERR"
    and erase_byte: "unat p < 1024 \<Longrightarrow> x < 2 ^ 32 \<Longrightarrow> byte_at (snd (erase p m)) x
      = (if unat p * 4096 \<le> x \<and> x < unat p * 4096 + 4096 then 0xFF else byte_at m x)"
begin

text \<open>Reading the place just written gives the buffer back; a disjoint place reads as before.\<close>

lemma rd_wr_same:
  assumes "unat a + unat l \<le> 0x400000" and "i < unat l"
  shows "snd (rd a l (snd (wr a l buf m)) 0 b) (of_nat i) = buf (of_nat i)"
  using assms rd_byte [of a l i 0] wr_byte [of a l "unat a + i" buf m] by simp

lemma rd_wr_other:
  assumes "unat a + unat l \<le> 0x400000" and "unat a' + unat l' \<le> 0x400000" and "i < unat l'"
    and "unat a + unat l \<le> unat a' \<or> unat a' + unat l' \<le> unat a"
  shows "snd (rd a' l' (snd (wr a l buf m)) 0 b) (of_nat i) = snd (rd a' l' m 0 b) (of_nat i)"
  using assms rd_byte [of a' l' i 0] wr_byte [of a l "unat a' + i" buf m] by auto

text \<open>A word on the device, as read into a variable.\<close>

lemma rd_word:
  assumes "unat a + 4 \<le> 0x400000"
  shows "load32 (snd (rd a 4 m 0 b)) 0 = load32 (\<lambda>i. byte_at m (unat a + unat i)) 0"
proof -
  have "snd (rd a 4 m 0 b) (of_nat i) = byte_at m (unat a + i)" if "i < 4" for i
    using rd_byte [of a 4 i 0 m b] assms that by simp
  from this [of 0] this [of 1] this [of 2] this [of 3] show ?thesis by (simp add: load32_def)
qed

lemma wr_other_byte:
  assumes "unat a + unat l \<le> 0x400000" and "x < 2 ^ 32" and "x < unat a \<or> unat a + unat l \<le> x"
  shows "byte_at (snd (wr a l buf m)) x = byte_at m x"
  using assms wr_byte [of a l x buf m] by auto

end

interpretation rd: flash dsk write_ramdisk read_ramdisk erase_ramdisk_page
proof
  fix a l at :: u32 and buf m :: mem and x :: nat
  assume "unat a + unat l \<le> 0x400000"
  then show "fst (write_ramdisk a l buf m) = NO_ERR" by (rule write_ramdisk_dsk)
next
  fix a l :: u32 and buf m :: mem and x :: nat
  assume "unat a + unat l \<le> 0x400000" "x < 2 ^ 32"
  then show "dsk (snd (write_ramdisk a l buf m)) x
      = (if unat a \<le> x \<and> x < unat a + unat l then buf (of_nat (x - unat a)) else dsk m x)"
    by (rule write_ramdisk_dsk)
next
  fix a l at :: u32 and buf m :: mem and x :: nat
  assume "unat a + unat l \<le> 0x400000"
  then show "fst (read_ramdisk a l m at buf) = NO_ERR" by (rule read_ramdisk_dsk)
next
  fix a l at :: u32 and buf m :: mem and x :: nat
  assume "unat a + unat l \<le> 0x400000" "x < 2 ^ 32" "unat at + unat l \<le> 2 ^ 32"
  then show "snd (read_ramdisk a l m at buf) (of_nat x)
      = (if unat at \<le> x \<and> x < unat at + unat l then dsk m (unat a + (x - unat at)) else buf (of_nat x))"
    by (rule read_ramdisk_dsk)
next
  fix p :: u32 and m :: mem and x :: nat
  assume "unat p < 1024"
  then show "fst (erase_ramdisk_page p m) = NO_ERR" by (simp add: erase_ramdisk_page_def)
next
  fix p :: u32 and m :: mem and x :: nat
  assume "unat p < 1024" "x < 2 ^ 32"
  then show "dsk (snd (erase_ramdisk_page p m)) x
      = (if unat p * 4096 \<le> x \<and> x < unat p * 4096 + 4096 then 0xFF else dsk m x)"
    by (rule erase_page_dsk)
qed

text \<open>The range test adds in 32 bits: an address near the top of memory passes it, and the access lands
  in front of the ramdisk.\<close>

lemma ramdisk_test_wraps:
  "write_ramdisk 0xFFFFFF00 0x200 buf m
     = (NO_ERR, for_upto 0x200 (\<lambda>i m. m(0x02FFFF00 + of_nat i := buf (of_nat i))) m)"
proof -
  have "RAMDISK_START + 0xFFFFFF00 = 0x02FFFF00" "(0xFFFFFF00 + 0x200 :: u32) = 0x100" "unat (0x200 :: u32) = 0x200"
    by (simp_all add: RAMDISK_START_def)
  moreover have "\<not> RAMDISK_SIZE < 0x100" by (simp add: RAMDISK_SIZE_def)
  ultimately show ?thesis unfolding write_ramdisk_def by (simp only: if_False)
qed

end
