(* ===== verification/Slfs.thy ===== *)
theory Slfs
  imports Ramdisk
begin

unbundle bit_operations_syntax

text \<open>
  The flash file system (src/kernel/fs/slfs/slfs.c, inc/slfs.h): its layout, its metadata, the page
  writes through the swap page, block lists, garbage collection and the file operations. A structure
  that the code reads and writes as raw bytes (superblock, inode) is a buffer, its fields words at the
  offsets of the structure; the open file is a record. Local variables the code reads before it sets
  them are arguments (\<open>junk\<close>). A \<open>None\<close> result means a loop that does not end or a write outside a
  buffer. The NULL tests of the static functions are left out: their callers have made them.
\<close>

section \<open>Layout\<close>

definition MINUS_ONE :: u32 where "MINUS_ONE = 0xFFFFFFFF"
definition FNAME_LEN :: nat where "FNAME_LEN = 32"
definition SLFS_FNAME_LEN :: nat where "SLFS_FNAME_LEN = 16"
definition SLFS_MAGIC_STR_LEN :: nat where "SLFS_MAGIC_STR_LEN = 16"
definition SLFS_SUPER_BLK_START :: u32 where "SLFS_SUPER_BLK_START = RAMDISK_START"
definition SLFS_PAGE_SIZE :: u32 where "SLFS_PAGE_SIZE = RAMDISK_PAGE_SIZE"
definition SLFS_PAGE_SIZE_SHIFT :: nat where "SLFS_PAGE_SIZE_SHIFT = RAMDISK_PAGE_SIZE_SHIFT"
definition SLFS_PAGE_CNT :: u32 where "SLFS_PAGE_CNT = RAMDISK_PAGE_NUM"
definition SLFS_SWAP_PAGE_IDX :: u32 where "SLFS_SWAP_PAGE_IDX = RAMDISK_PAGE_NUM - 1"
definition SLFS_SWAP_PAGE_START :: u32 where "SLFS_SWAP_PAGE_START = push_bit SLFS_PAGE_SIZE_SHIFT SLFS_SWAP_PAGE_IDX"
definition SLFS_SWAP_PAGE_TAIL_SIZE :: u32 where "SLFS_SWAP_PAGE_TAIL_SIZE = 4"
definition SLFS_SWAP_PAGE_TAIL_START :: u32 where
  "SLFS_SWAP_PAGE_TAIL_START = SLFS_SWAP_PAGE_START + RAMDISK_PAGE_SIZE - SLFS_SWAP_PAGE_TAIL_SIZE"
definition SLFS_METADATA_PAGE_IDX :: u32 where "SLFS_METADATA_PAGE_IDX = 0"
definition SLFS_METADATA_START :: u32 where "SLFS_METADATA_START = 0"
definition SLFS_SUPERBLK_START :: u32 where "SLFS_SUPERBLK_START = 0"
definition SLFS_INODE_BITMAP_START :: u32 where "SLFS_INODE_BITMAP_START = 0x40"
definition SLFS_DATABLK_BITMAP_START :: u32 where "SLFS_DATABLK_BITMAP_START = SLFS_INODE_BITMAP_START + 0x40"
definition SLFS_INODE_MAX_CNT :: nat where "SLFS_INODE_MAX_CNT = 32"
definition SLFS_INODE_SIZE :: u32 where "SLFS_INODE_SIZE = 56"
definition SLFS_INODE_TAB_START :: u32 where "SLFS_INODE_TAB_START = SLFS_DATABLK_BITMAP_START + 0x40"
definition SLFS_GARBAGE_PAGE_TAB_START :: u32 where
  "SLFS_GARBAGE_PAGE_TAB_START = SLFS_INODE_TAB_START + of_nat SLFS_INODE_MAX_CNT * SLFS_INODE_SIZE"
definition SLFS_GARBAGE_PAGE_TAB_MAX_CNT :: u32 where
  "SLFS_GARBAGE_PAGE_TAB_MAX_CNT = drop_bit SLFS_PAGE_SIZE_SHIFT RAMDISK_PAGE_SIZE"
definition SLFS_GARBAGE_PAGE_TAB_SIZE :: u32 where
  "SLFS_GARBAGE_PAGE_TAB_SIZE = push_bit 2 SLFS_GARBAGE_PAGE_TAB_MAX_CNT"
definition SLFS_DATABLK_START :: u32 where "SLFS_DATABLK_START = RAMDISK_PAGE_SIZE"
definition SLFS_DATABLK_SIZE :: u32 where "SLFS_DATABLK_SIZE = RAMDISK_BLK_SIZE"
definition SLFS_DATABLK_MAX_CNT :: u32 where
  "SLFS_DATABLK_MAX_CNT = drop_bit RAMDISK_BLK_SIZE_SHIFT (RAMDISK_SIZE - RAMDISK_PAGE_SIZE)"
definition SLFS_DATABLK_TAIL_SIZE :: u32 where "SLFS_DATABLK_TAIL_SIZE = 8"
definition SLFS_DATABLK_PAYLOAD_SIZE :: u32 where "SLFS_DATABLK_PAYLOAD_SIZE = RAMDISK_BLK_SIZE - SLFS_DATABLK_TAIL_SIZE"
definition SLFS_DATABLK_TAIL_OFF_HI :: u32 where "SLFS_DATABLK_TAIL_OFF_HI = SLFS_DATABLK_PAYLOAD_SIZE"
definition SLFS_DATABLK_TAIL_OFF_LOW :: u32 where "SLFS_DATABLK_TAIL_OFF_LOW = SLFS_DATABLK_PAYLOAD_SIZE + 4"

definition PAGEIDX :: "u32 \<Rightarrow> u32" where "PAGEIDX db = drop_bit 12 db"
definition PAGEADDR :: "u32 \<Rightarrow> u32" where "PAGEADDR db = db AND 0xFFFFE000"

definition magic_string :: "u8 list" where
  "magic_string = [115, 108, 102, 115, 32, 102, 105, 108, 101, 115, 121, 115, 116, 101, 109, 0]"

lemmas slfs_consts = MINUS_ONE_def FNAME_LEN_def SLFS_FNAME_LEN_def SLFS_MAGIC_STR_LEN_def SLFS_SUPER_BLK_START_def
  SLFS_PAGE_SIZE_def SLFS_PAGE_SIZE_SHIFT_def SLFS_PAGE_CNT_def SLFS_SWAP_PAGE_IDX_def SLFS_SWAP_PAGE_START_def
  SLFS_SWAP_PAGE_TAIL_SIZE_def SLFS_SWAP_PAGE_TAIL_START_def SLFS_METADATA_PAGE_IDX_def SLFS_METADATA_START_def
  SLFS_SUPERBLK_START_def SLFS_INODE_BITMAP_START_def SLFS_DATABLK_BITMAP_START_def SLFS_INODE_MAX_CNT_def
  SLFS_INODE_SIZE_def SLFS_INODE_TAB_START_def SLFS_GARBAGE_PAGE_TAB_START_def SLFS_GARBAGE_PAGE_TAB_MAX_CNT_def
  SLFS_GARBAGE_PAGE_TAB_SIZE_def SLFS_DATABLK_START_def SLFS_DATABLK_SIZE_def SLFS_DATABLK_MAX_CNT_def
  SLFS_DATABLK_TAIL_SIZE_def SLFS_DATABLK_PAYLOAD_SIZE_def SLFS_DATABLK_TAIL_OFF_HI_def SLFS_DATABLK_TAIL_OFF_LOW_def
  disk_consts

section \<open>Buffers, inodes and files\<close>

definition no_bytes :: mem where "no_bytes = (\<lambda>_. 0)"

text \<open>The words of \<open>slfs_inode_t\<close> at \<open>p\<close> of a buffer; its name starts at byte 24.\<close>

definition ino_idx :: "mem \<Rightarrow> u32 \<Rightarrow> u32" where "ino_idx b p = load32 b p"
definition ino_update_cnt :: "mem \<Rightarrow> u32 \<Rightarrow> u32" where "ino_update_cnt b p = load32 b (p + 4)"
definition ino_file_size :: "mem \<Rightarrow> u32 \<Rightarrow> u32" where "ino_file_size b p = load32 b (p + 8)"
definition ino_datablk_addr :: "mem \<Rightarrow> u32 \<Rightarrow> u32" where "ino_datablk_addr b p = load32 b (p + 12)"
definition ino_file_id :: "mem \<Rightarrow> u32 \<Rightarrow> u32" where "ino_file_id b p = load32 b (p + 16)"
definition ino_name :: "mem \<Rightarrow> u32 \<Rightarrow> nat \<Rightarrow> u8" where "ino_name b p j = b (p + 24 + of_nat j)"

record slfs_file =
  fd :: u32
  pos :: u32
  file_size :: u32
  open_cnt :: u32
  datablk_addr :: u32
  inode_idx :: u32
  allocedblk_num :: u32
  update_cnt :: u32
  fname :: mem

record slfs =
  fmem :: mem
  page_load_data :: mem
  superblk :: mem

definition inode_at :: "u32 \<Rightarrow> u32" where "inode_at i = SLFS_INODE_TAB_START + i * SLFS_INODE_SIZE"

text \<open>Reads into a fresh variable, and writes, on the state of the file system.\<close>

definition rdbuf :: "u32 \<Rightarrow> u32 \<Rightarrow> slfs \<Rightarrow> ret \<times> mem" where
  "rdbuf a l s = read_ramdisk a l (fmem s) 0 no_bytes"
definition wrbuf :: "u32 \<Rightarrow> u32 \<Rightarrow> mem \<Rightarrow> slfs \<Rightarrow> ret \<times> slfs" where
  "wrbuf a l b s = (let (r, m) = write_ramdisk a l b (fmem s) in (r, s\<lparr>fmem := m\<rparr>))"
definition erpage :: "u32 \<Rightarrow> slfs \<Rightarrow> ret \<times> slfs" where
  "erpage p s = (let (r, m) = erase_ramdisk_page p (fmem s) in (r, s\<lparr>fmem := m\<rparr>))"
definition next_blk :: "u32 \<Rightarrow> slfs \<Rightarrow> ret \<times> u32" where
  "next_blk a s = (let (r, b) = rdbuf (a + SLFS_DATABLK_TAIL_OFF_LOW) 4 s in (r, load32 b 0))"

section \<open>Superblock and pages\<close>

definition magic_ok :: "mem \<Rightarrow> bool" where
  "magic_ok b \<longleftrightarrow> list_all (\<lambda>i. b (of_nat i) = magic_string ! i) [0..<SLFS_MAGIC_STR_LEN]"

definition load_superblk :: "slfs \<Rightarrow> ret \<times> slfs" where
  "load_superblk s =
     (let (r, b) = read_ramdisk SLFS_SUPER_BLK_START 56 (fmem s) 0 (superblk s)
      in if r = NO_ERR then (Neg IO_ERR, s\<lparr>superblk := b\<rparr>)
         else if \<not> magic_ok b then (Neg METADATA_ERR, s\<lparr>superblk := b\<rparr>)
         else (NO_ERR, s\<lparr>superblk := b(52 := 1)\<rparr>))"

definition new_superblk :: "mem \<Rightarrow> mem" where
  "new_superblk junk =
     (let b0 = for_upto SLFS_MAGIC_STR_LEN (\<lambda>i b. b(of_nat i := magic_string ! i)) junk;
          data = SLFS_DATABLK_PAYLOAD_SIZE * SLFS_DATABLK_MAX_CNT
      in fold (\<lambda>(a, v). store32 a v)
           [(16, SLFS_SUPER_BLK_START), (20, SLFS_INODE_BITMAP_START), (24, SLFS_DATABLK_BITMAP_START),
            (28, SLFS_INODE_TAB_START), (32, SLFS_DATABLK_START), (36, data), (40, data), (44, 0)] b0)"

definition init_metadata :: "mem \<Rightarrow> slfs \<Rightarrow> ret \<times> slfs" where
  "init_metadata junk s =
     (let (r, s1) = wrbuf SLFS_METADATA_START 56 (new_superblk junk) s
      in if r = NO_ERR then (Neg IO_ERR, s1) else (NO_ERR, s1))"

definition copy_chunk :: "u32 \<Rightarrow> u32" where
  "copy_chunk len = (if len > SLFS_DATABLK_SIZE then SLFS_DATABLK_SIZE else len)"

lemma word_sub_less:
  "0 < c \<Longrightarrow> c \<le> len \<Longrightarrow> unat (len - c) < unat len" for c len :: u32
  by (simp add: unat_sub word_le_nat_alt word_less_nat_alt)

lemma copy_chunk_less: "0 < len \<Longrightarrow> unat (len - copy_chunk len) < unat len"
  by (rule word_sub_less) (auto simp: copy_chunk_def slfs_consts)

function copy_loop :: "u32 \<Rightarrow> u32 \<Rightarrow> u32 \<Rightarrow> u32 \<Rightarrow> slfs \<Rightarrow> ret \<times> slfs" where
  "copy_loop dst src offset len s =
     (if 0 < len then
        (let copy_len = copy_chunk len;
             (r, b) = rdbuf (src + offset) copy_len s
         in if r \<noteq> NO_ERR then (Neg IO_ERR, s)
            else (let (r, s1) = wrbuf (dst + offset) copy_len b s
                  in if r \<noteq> NO_ERR then (Neg IO_ERR, s1)
                     else copy_loop dst src (offset + copy_len) (len - copy_len) s1))
      else (NO_ERR, s))"
  by auto
termination by (relation "measure (\<lambda>(_, _, _, len, _). unat len)") (auto simp: copy_chunk_less)

declare copy_loop.simps [simp del]

definition copy_flash_to_flash :: "u32 \<Rightarrow> u32 \<Rightarrow> u32 \<Rightarrow> slfs \<Rightarrow> ret \<times> slfs" where
  "copy_flash_to_flash dst src len s = copy_loop dst src 0 len s"

text \<open>Step 3 of a page write: the page goes into the first free entry of the garbage page table.\<close>

definition record_garbage :: "u32 \<Rightarrow> slfs \<Rightarrow> ret \<times> slfs" where
  "record_garbage page_idx s =
     (let (r, tab) = rdbuf SLFS_GARBAGE_PAGE_TAB_START SLFS_GARBAGE_PAGE_TAB_SIZE s in
      if r \<noteq> NO_ERR then (Neg IO_ERR, s)
      else case List.find (\<lambda>i. load32 tab (of_nat (4 * i)) = MINUS_ONE) [0..<unat SLFS_GARBAGE_PAGE_TAB_MAX_CNT] of
        None \<Rightarrow> (NO_ERR, s)
      | Some i \<Rightarrow>
          (let tab1 = store32 (of_nat (4 * i)) (push_bit SLFS_PAGE_SIZE_SHIFT page_idx) tab;
               (r, s1) = wrbuf (SLFS_GARBAGE_PAGE_TAB_START + of_nat i * 4) SLFS_GARBAGE_PAGE_TAB_SIZE tab1 s
           in if r \<noteq> NO_ERR then (Neg IO_ERR, s1) else (NO_ERR, s1)))"

definition load_page :: "u32 \<Rightarrow> slfs \<Rightarrow> ret \<times> slfs" where
  "load_page page_idx s =
     (let (r, b) = read_ramdisk (push_bit SLFS_PAGE_SIZE_SHIFT page_idx) SLFS_PAGE_SIZE (fmem s) 0 (page_load_data s)
      in (NO_ERR, s\<lparr>page_load_data := b\<rparr>))"

text \<open>Steps 2 to 6 of a page write, after the swap page has been erased.\<close>

definition backup_page :: "u32 \<Rightarrow> slfs \<Rightarrow> ret \<times> slfs" where
  "backup_page page_idx s =
     (let s1 = (if page_idx = SLFS_METADATA_PAGE_IDX
                then s\<lparr>page_load_data := store32 (SLFS_PAGE_SIZE - 4) (push_bit SLFS_PAGE_SIZE_SHIFT page_idx) (page_load_data s)\<rparr>
                else s);
          (r, s2) = wrbuf SLFS_SWAP_PAGE_START SLFS_PAGE_SIZE (page_load_data s1) s1
      in if r \<noteq> NO_ERR then (Neg IO_ERR, s2)
         else if page_idx \<noteq> SLFS_METADATA_PAGE_IDX then record_garbage page_idx s2 else (NO_ERR, s2))"

definition restore_page :: "u32 \<Rightarrow> slfs \<Rightarrow> ret \<times> slfs" where
  "restore_page page_idx s =
     (let (r, s1) = erpage page_idx s in
      if r \<noteq> NO_ERR then (Neg IO_ERR, s1)
      else (let (r, s2) = copy_flash_to_flash (push_bit SLFS_PAGE_SIZE_SHIFT page_idx) SLFS_SWAP_PAGE_START SLFS_PAGE_SIZE s1 in
        if r \<noteq> NO_ERR then (r, s2)
        else (let (r, s3) = erpage SLFS_SWAP_PAGE_IDX s2 in
          if r \<noteq> NO_ERR then (Neg IO_ERR, s3) else (NO_ERR, s3))))"

definition rw_page :: "u32 \<Rightarrow> bool \<Rightarrow> slfs \<Rightarrow> ret \<times> slfs" where
  "rw_page page_idx bwrite s =
     (if page_idx \<ge> SLFS_PAGE_CNT then (Neg PARAM_ERR, s)
      else if \<not> bwrite then load_page page_idx s
      else (let (r, s1) = erpage SLFS_SWAP_PAGE_IDX s in
        if r \<noteq> NO_ERR then (Neg IO_ERR, s1)
        else (let (r, s2) = backup_page page_idx s1 in
          if r \<noteq> NO_ERR then (r, s2) else restore_page page_idx s2)))"

section \<open>Inodes and data blocks\<close>

definition update_fp :: "slfs_file \<Rightarrow> slfs \<Rightarrow> ret \<times> slfs_file \<times> slfs" where
  "update_fp pf s =
     (let (r, s1) = rw_page SLFS_METADATA_PAGE_IDX False s in
      if r \<noteq> NO_ERR then (r, pf, s1)
      else case List.find (\<lambda>i. ino_file_size (page_load_data s1) (inode_at (of_nat i)) = MINUS_ONE) [0..<SLFS_INODE_MAX_CNT] of
        None \<Rightarrow> (Neg NO_INODE_ERR, pf, s1)
      | Some i \<Rightarrow> (NO_ERR, pf\<lparr>inode_idx := of_nat i, update_cnt := update_cnt pf + 1,
                              fd := (if fd pf = MINUS_ONE then of_nat i else fd pf)\<rparr>, s1))"

text \<open>The number of blocks a length needs.\<close>

function blks_loop :: "u32 \<Rightarrow> u32 \<Rightarrow> u32 \<times> u32" where
  "blks_loop len n =
     (if len > SLFS_DATABLK_PAYLOAD_SIZE then blks_loop (len - SLFS_DATABLK_PAYLOAD_SIZE) (n + 1) else (len, n))"
  by auto
termination
  by (relation "measure (\<lambda>(len, _). unat len)") (auto intro!: word_sub_less simp: slfs_consts)

declare blks_loop.simps [simp del]

definition blks_needed :: "u32 \<Rightarrow> u32" where
  "blks_needed len = (let (rest, n) = blks_loop len 0 in if rest \<noteq> 0 then n + 1 else n)"

text \<open>The state of the allocation loop: blocks taken, the last one taken and the one before it.\<close>

record alloc_st =
  al_num :: u32
  al_prev :: u32
  al_pprev :: u32
  al_pf :: slfs_file
  al_fs :: slfs

definition two_words :: "u32 \<Rightarrow> u32 \<Rightarrow> mem" where
  "two_words hi low = store32 4 low (store32 0 hi no_bytes)"

text \<open>A free block at \<open>addr\<close> is taken: the first one is entered into the inode (the OPEN event), a later
  one into the tail of the block before it.\<close>

definition claim_blk :: "u32 \<Rightarrow> alloc_st \<Rightarrow> ret \<times> alloc_st" where
  "claim_blk addr a =
     (if al_num a = 0 then
        (let pf = (al_pf a)\<lparr>datablk_addr := addr\<rparr>;
             (r, s1) = wrbuf (inode_at (inode_idx pf) + 8) SLFS_DATABLK_TAIL_SIZE (two_words (file_size pf) addr) (al_fs a)
         in if r \<noteq> NO_ERR then (Neg IO_ERR, a\<lparr>al_pf := pf, al_fs := s1\<rparr>)
            else (NO_ERR, a\<lparr>al_num := al_num a + 1, al_pprev := inode_at (inode_idx pf), al_prev := addr,
                            al_pf := pf, al_fs := s1\<rparr>))
      else
        (let (r, s1) = wrbuf (al_prev a + SLFS_DATABLK_TAIL_OFF_HI) SLFS_DATABLK_TAIL_SIZE (two_words (al_pprev a) addr) (al_fs a)
         in if r \<noteq> NO_ERR then (Neg IO_ERR, a\<lparr>al_fs := s1\<rparr>)
            else (NO_ERR, a\<lparr>al_num := al_num a + 1, al_pprev := al_prev a, al_prev := addr, al_fs := s1\<rparr>)))"

fun alloc_loop :: "nat \<Rightarrow> u32 \<Rightarrow> u32 \<Rightarrow> alloc_st \<Rightarrow> ret \<times> alloc_st" where
  "alloc_loop 0 addr needed a = ((if al_num a \<noteq> needed then Neg NO_DATABLK_ERR else NO_ERR), a)"
| "alloc_loop (Suc n) addr needed a =
     (let (r, tail) = rdbuf (addr + SLFS_DATABLK_TAIL_OFF_HI) SLFS_DATABLK_TAIL_SIZE (al_fs a) in
      if r \<noteq> NO_ERR then (Neg IO_ERR, a)
      else (let (r, a1) = (if load32 tail 0 = MINUS_ONE \<and> load32 tail 4 = MINUS_ONE then claim_blk addr a else (NO_ERR, a)) in
        if r \<noteq> NO_ERR then (r, a1)
        else if al_num a1 = needed then
          (let pf = (al_pf a1)\<lparr>allocedblk_num := al_num a1\<rparr>;
               (r, s1) = wrbuf (addr + SLFS_DATABLK_TAIL_OFF_HI) SLFS_DATABLK_TAIL_SIZE (two_words (al_pprev a1) 0) (al_fs a1)
           in ((if r \<noteq> NO_ERR then Neg IO_ERR else NO_ERR), a1\<lparr>al_pf := pf, al_fs := s1\<rparr>))
        else alloc_loop n (addr + SLFS_DATABLK_SIZE) needed a1))"

definition alloc_datablk :: "slfs_file \<Rightarrow> u32 \<Rightarrow> slfs \<Rightarrow> ret \<times> slfs_file \<times> slfs" where
  "alloc_datablk pf len s =
     (let pf1 = (if pos pf + len > file_size pf then pf\<lparr>file_size := pos pf + len\<rparr> else pf);
          (r, a) = alloc_loop (unat SLFS_DATABLK_MAX_CNT) SLFS_DATABLK_START (blks_needed (file_size pf1))
                     \<lparr>al_num = 0, al_prev = 0, al_pprev = 0, al_pf = pf1, al_fs = s\<rparr>
      in (r, al_pf a, al_fs a))"

text \<open>The code leaves the two addresses uninitialised where they start as 0 here. They are read behind the first block that is taken, which
  sets both, or when no block is needed at all: as long as the file is not empty, what they start as makes no difference.
  \<open>slfs_write\<close> does not come here with an empty file.\<close>

definition outcome :: "ret \<times> alloc_st \<Rightarrow> ret \<times> slfs_file \<times> slfs" where
  "outcome x = (fst x, al_pf (snd x), al_fs (snd x))"

lemma claim_blk_uninitialised:
  assumes "al_num a = 0"
  shows "outcome (claim_blk addr (a\<lparr>al_prev := p, al_pprev := q\<rparr>)) = outcome (claim_blk addr a)"
    and "fst (claim_blk addr a) = NO_ERR \<Longrightarrow> claim_blk addr (a\<lparr>al_prev := p, al_pprev := q\<rparr>) = claim_blk addr a"
  using assms by (simp_all add: outcome_def claim_blk_def Let_def split: prod.splits if_splits)

lemma alloc_loop_uninitialised:
  assumes "al_num a = 0" and "needed \<noteq> 0"
  shows "outcome (alloc_loop n addr needed (a\<lparr>al_prev := p, al_pprev := q\<rparr>)) = outcome (alloc_loop n addr needed a)"
proof (induction n arbitrary: addr)
  case (Suc n)
  let ?b = "a\<lparr>al_prev := p, al_pprev := q\<rparr>"
  obtain r tail where rd: "rdbuf (addr + SLFS_DATABLK_TAIL_OFF_HI) SLFS_DATABLK_TAIL_SIZE (al_fs a) = (r, tail)" by fastforce
  obtain rc c where c: "claim_blk addr a = (rc, c)" by fastforce
  obtain rd d where d: "claim_blk addr ?b = (rd, d)" by fastforce
  note same = claim_blk_uninitialised [OF assms(1), where addr = addr and p = p and q = q, unfolded c d]
  show ?case
  proof (cases "load32 tail 0 = MINUS_ONE \<and> load32 tail 4 = MINUS_ONE")
    case True
    show ?thesis
    proof (cases "rc = NO_ERR")
      case True
      then have "rd = rc" "d = c" using same(2) by simp_all
      then show ?thesis using \<open>load32 tail 0 = MINUS_ONE \<and> load32 tail 4 = MINUS_ONE\<close>
        by (simp add: rd c d True outcome_def)
    next
      case False
      then show ?thesis using \<open>load32 tail 0 = MINUS_ONE \<and> load32 tail 4 = MINUS_ONE\<close> same(1)
        by (simp add: rd c d outcome_def)
    qed
  next
    case False
    then show ?thesis using Suc assms by (simp add: rd if_not_P [OF False] outcome_def)
  qed
qed (simp add: outcome_def)

text \<open>The length of a block list, counted until the next address is \<open>MINUS_ONE\<close>.\<close>

partial_function (option) blk_num_loop :: "u32 \<Rightarrow> u32 \<Rightarrow> slfs \<Rightarrow> (ret \<times> u32) option" where
  "blk_num_loop cur n s =
     (if cur \<noteq> MINUS_ONE then
        (let (r, nxt) = next_blk cur s in
         if r \<noteq> NO_ERR then Some (Neg IO_ERR, n) else blk_num_loop nxt (n + 1) s)
      else Some (NO_ERR, n))"

definition get_datablk_num :: "slfs_file \<Rightarrow> slfs \<Rightarrow> (ret \<times> u32) option" where
  "get_datablk_num pf s = blk_num_loop (datablk_addr pf) 0 s"

fun blk_addr_loop :: "nat \<Rightarrow> u32 \<Rightarrow> slfs \<Rightarrow> ret \<times> u32" where
  "blk_addr_loop 0 cur s = (NO_ERR, cur)"
| "blk_addr_loop (Suc k) cur s =
     (if cur \<noteq> MINUS_ONE then
        (let (r, nxt) = next_blk cur s in
         if r \<noteq> NO_ERR then (Neg IO_ERR, nxt) else blk_addr_loop k nxt s)
      else (NO_ERR, cur))"

definition get_datablk_addr :: "slfs_file \<Rightarrow> u32 \<Rightarrow> slfs \<Rightarrow> ret \<times> u32" where
  "get_datablk_addr pf datablk_idx s =
     (if datablk_addr pf = MINUS_ONE then (Neg NO_DATABLK_ERR, 0)
      else (let (r, cur) = blk_addr_loop (unat datablk_idx) (datablk_addr pf) s in
        if r \<noteq> NO_ERR then (r, 0)
        else if cur = MINUS_ONE then (Neg NO_DATABLK_ERR, 0) else (NO_ERR, cur)))"


section \<open>Deleting, recovering and collecting\<close>

text \<open>\<open>delete_datablks\<close> reads the list through memory addresses that are device offsets. The walk to the
  last block, the erasure of the blocks inside one loaded page, and the way back page by page; a block
  of an odd page is erased outside the page buffer.\<close>

partial_function (option) last_blk_loop :: "u32 \<Rightarrow> u32 \<Rightarrow> slfs \<Rightarrow> (ret \<times> u32) option" where
  "last_blk_loop cur d s =
     (if d \<noteq> MINUS_ONE then
        (let nxt = load32 (fmem s) (d + SLFS_DATABLK_TAIL_OFF_LOW) in
         if d \<noteq> load32 (fmem s) (nxt + SLFS_DATABLK_TAIL_OFF_HI) then Some (Neg LIST_BROKEN_ERR, d)
         else last_blk_loop d nxt s)
      else Some (NO_ERR, cur))"

definition erase_in_page :: "u32 \<Rightarrow> mem \<Rightarrow> mem option" where
  "erase_in_page cur b =
     (let off = cur - PAGEADDR cur in
      if off + 128 > SLFS_PAGE_SIZE then None
      else Some (for_upto (unat (drop_bit 4 SLFS_DATABLK_SIZE)) (\<lambda>i. store32 (off + 4 * of_nat i) MINUS_ONE) b))"

partial_function (option) erase_page_loop :: "u32 \<Rightarrow> u32 \<Rightarrow> slfs \<Rightarrow> (u32 \<times> slfs) option" where
  "erase_page_loop page cur s =
     (case erase_in_page cur (page_load_data s) of
        None \<Rightarrow> None
      | Some b \<Rightarrow>
          (let cur1 = load32 (fmem s) (cur + SLFS_DATABLK_TAIL_OFF_HI); s1 = s\<lparr>page_load_data := b\<rparr> in
           if page = PAGEIDX cur1 then erase_page_loop page cur1 s1 else Some (cur1, s1)))"

partial_function (option) erase_back_loop :: "u32 \<Rightarrow> slfs \<Rightarrow> (ret \<times> slfs) option" where
  "erase_back_loop cur s =
     (let page = PAGEIDX cur; (r, s1) = rw_page page False s in
      if r \<noteq> NO_ERR then Some (Neg IO_ERR, s1)
      else (case erase_page_loop page cur s1 of
          None \<Rightarrow> None
        | Some (cur1, s2) \<Rightarrow>
            (let (r, s3) = rw_page page True s2 in
             if r \<noteq> NO_ERR then Some (Neg IO_ERR, s3)
             else if cur1 \<ge> SLFS_DATABLK_START then erase_back_loop cur1 s3 else Some (NO_ERR, s3))))"

definition delete_datablks :: "mem \<Rightarrow> u32 \<Rightarrow> slfs \<Rightarrow> (ret \<times> slfs) option" where
  "delete_datablks inode junk s =
     do {
       (r, cur) \<leftarrow> last_blk_loop junk (ino_datablk_addr inode 0) s;
       if r \<noteq> NO_ERR then Some (r, s) else erase_back_loop cur s
     }"

definition recover_page :: "u32 \<Rightarrow> slfs \<Rightarrow> ret \<times> slfs" where
  "recover_page page_idx s =
     (let (r, s1) = erpage page_idx s in
      if r \<noteq> NO_ERR then (Neg IO_ERR, s1)
      else (let (r, s2) = copy_flash_to_flash page_idx SLFS_SWAP_PAGE_START SLFS_PAGE_SIZE s1 in
        if r \<noteq> NO_ERR then (r, s2)
        else if page_idx \<noteq> SLFS_METADATA_PAGE_IDX then
          (let (r, s3) = rw_page SLFS_METADATA_PAGE_IDX False s2 in
           if r \<noteq> NO_ERR then (Neg IO_ERR, s3)
           else (let b = for_upto (unat SLFS_GARBAGE_PAGE_TAB_MAX_CNT)
                           (\<lambda>i. store32 (SLFS_GARBAGE_PAGE_TAB_START + of_nat i * 4) MINUS_ONE) (page_load_data s3);
                     (r, s4) = rw_page SLFS_METADATA_PAGE_IDX True (s3\<lparr>page_load_data := b\<rparr>)
                 in if r \<noteq> NO_ERR then (Neg IO_ERR, s4) else (NO_ERR, s4)))
        else (NO_ERR, s2)))"

text \<open>Step 1 of the collection, inode by inode: \<open>del\<close> is the list of deleted files.\<close>

fun gc_collect :: "nat list \<Rightarrow> (u32 \<times> u32) list \<Rightarrow> u32 \<Rightarrow> slfs \<Rightarrow> (ret \<times> (u32 \<times> u32) list \<times> slfs) option" where
  "gc_collect [] del junk s = Some (NO_ERR, del, s)"
| "gc_collect (i # is) del junk s =
     (let (r, inode) = rdbuf (inode_at (of_nat i)) SLFS_INODE_SIZE s in
      if r \<noteq> NO_ERR then Some (Neg IO_ERR, del, s)
      else if ino_file_size inode 0 = MINUS_ONE then gc_collect is del junk s
      else if ino_update_cnt inode 0 = MINUS_ONE then
        do { (r, s1) \<leftarrow> delete_datablks inode junk s; gc_collect is del junk s1 }
      else if ino_file_size inode 0 = 0 \<and> ino_datablk_addr inode 0 = 0 then
        gc_collect is (del @ [(ino_file_id inode 0, ino_update_cnt inode 0)]) junk s
      else gc_collect is del junk s)"

text \<open>Step 2: the test of the read is inverted, so that the first successful read ends the collection.\<close>

fun gc_delete_inodes :: "nat list \<Rightarrow> u32 \<times> u32 \<Rightarrow> u32 \<Rightarrow> slfs \<Rightarrow> (ret \<times> slfs) option" where
  "gc_delete_inodes [] f junk s = Some (NO_ERR, s)"
| "gc_delete_inodes (j # js) f junk s =
     (let (r, inode) = rdbuf (inode_at (of_nat j)) SLFS_INODE_SIZE s in
      if r = NO_ERR then Some (Neg IO_ERR, s)
      else if ino_file_id inode 0 = fst f \<and> ino_update_cnt inode 0 = snd f then
        do { (r, s1) \<leftarrow> delete_datablks inode junk s; gc_delete_inodes js f junk s1 }
      else gc_delete_inodes js f junk s)"

fun gc_delete_files :: "(u32 \<times> u32) list \<Rightarrow> u32 \<Rightarrow> slfs \<Rightarrow> (ret \<times> slfs) option" where
  "gc_delete_files [] junk s = Some (NO_ERR, s)"
| "gc_delete_files (f # fs) junk s =
     (if fst f = MINUS_ONE then Some (NO_ERR, s)
      else do {
        (r, s1) \<leftarrow> gc_delete_inodes [0..<SLFS_INODE_MAX_CNT] f junk s;
        if r \<noteq> NO_ERR then Some (r, s1) else gc_delete_files fs junk s1
      })"

definition wipe_inode :: "u32 \<Rightarrow> mem \<Rightarrow> mem" where
  "wipe_inode p b = for_upto (unat (drop_bit 2 SLFS_INODE_SIZE)) (\<lambda>j. store32 (p + 4 * of_nat j) MINUS_ONE) b"

text \<open>Step 3: the dangled inode and the inodes of deleted files, in the loaded metadata page.\<close>

definition gc_clean_inode :: "(u32 \<times> u32) list \<Rightarrow> nat \<Rightarrow> mem \<Rightarrow> mem" where
  "gc_clean_inode del i b =
     (let p = inode_at (of_nat i);
          b1 = (if ino_update_cnt b p = MINUS_ONE then wipe_inode p b else b);
          live = takeWhile (\<lambda>f. fst f \<noteq> MINUS_ONE) del
      in if (ino_file_id b1 p, ino_update_cnt b1 p) \<in> set live then wipe_inode p b1 else b1)"

definition gc_update_metadata :: "(u32 \<times> u32) list \<Rightarrow> slfs \<Rightarrow> ret \<times> slfs" where
  "gc_update_metadata del s =
     (let (r, s1) = rw_page SLFS_METADATA_PAGE_IDX False s in
      if r \<noteq> NO_ERR then (Neg IO_ERR, s1)
      else (let b = for_upto (unat (drop_bit 2 SLFS_GARBAGE_PAGE_TAB_SIZE))
                      (\<lambda>i. store32 (SLFS_GARBAGE_PAGE_TAB_START + 4 * of_nat i) MINUS_ONE) (page_load_data s1);
                b1 = for_upto SLFS_INODE_MAX_CNT (gc_clean_inode del) b;
                (r, s2) = rw_page SLFS_METADATA_PAGE_IDX True (s1\<lparr>page_load_data := b1\<rparr>)
            in if r \<noteq> NO_ERR then (Neg IO_ERR, s2) else (NO_ERR, s2)))"

definition collect_garbage :: "u32 \<Rightarrow> slfs \<Rightarrow> (ret \<times> slfs) option" where
  "collect_garbage junk s =
     do {
       (r, del, s1) \<leftarrow> gc_collect [0..<SLFS_INODE_MAX_CNT] [] junk s;
       if r \<noteq> NO_ERR then Some (r, s1)
       else do {
         (r, s2) \<leftarrow> gc_delete_files del junk s1;
         if r \<noteq> NO_ERR then Some (r, s2) else Some (gc_update_metadata del s2)
       }
     }"

section \<open>Mounting\<close>

definition slfs_format :: "slfs \<Rightarrow> ret \<times> slfs" where
  "slfs_format s = (let (r, m) = erase_ramdisk_chip (fmem s) in (r, s\<lparr>fmem := m\<rparr>))"

definition slfs_umount :: "slfs \<Rightarrow> ret \<times> slfs" where "slfs_umount s = (NO_ERR, s)"

definition garbage_entry :: "mem \<Rightarrow> nat \<Rightarrow> u32" where
  "garbage_entry b i = load32 b (SLFS_GARBAGE_PAGE_TAB_START + of_nat i * 4)"

definition mount_recover :: "slfs \<Rightarrow> ret \<times> slfs" where
  "mount_recover s =
     (let (r, tail) = rdbuf SLFS_SWAP_PAGE_TAIL_START SLFS_SWAP_PAGE_TAIL_SIZE s in
      if r \<noteq> NO_ERR then (Neg IO_ERR, s)
      else if load32 tail 0 = SLFS_METADATA_PAGE_IDX then recover_page SLFS_METADATA_PAGE_IDX s
      else (let (r, s1) = rw_page SLFS_METADATA_PAGE_IDX False s in
        if r \<noteq> NO_ERR then (Neg IO_ERR, s1)
        else (let used = takeWhile (\<lambda>g. g \<noteq> MINUS_ONE)
                           (map (garbage_entry (page_load_data s1)) [0..<unat SLFS_GARBAGE_PAGE_TAB_MAX_CNT]);
                  last_used = (if used = [] then 0 else last used)
              in if last_used \<noteq> 0 then recover_page last_used s1 else (NO_ERR, s1))))"

definition mount_superblk :: "mem \<Rightarrow> slfs \<Rightarrow> ret \<times> slfs" where
  "mount_superblk junk s =
     (let (r, b) = rdbuf SLFS_SUPERBLK_START (of_nat SLFS_MAGIC_STR_LEN) s in
      if r \<noteq> NO_ERR then (Neg IO_ERR, s)
      else if \<not> magic_ok b then
        (let (r, s1) = slfs_format s in
         if r \<noteq> NO_ERR then (r, s1)
         else (let (r, s2) = init_metadata junk s1 in
           if r \<noteq> NO_ERR then (r, s2) else load_superblk s2))
      else load_superblk s)"

definition slfs_mount :: "mem \<Rightarrow> slfs \<Rightarrow> ret \<times> slfs" where
  "slfs_mount junk s =
     (let (r, s1) = mount_recover s in if r \<noteq> NO_ERR then (r, s1) else mount_superblk junk s1)"

section \<open>Opening, seeking and closing\<close>

definition name_matches :: "mem \<Rightarrow> mem \<Rightarrow> bool" where
  "name_matches pname inode \<longleftrightarrow>
     (case List.find (\<lambda>j. pname (of_nat j) \<noteq> ino_name inode 0 j \<or> pname (of_nat j) = 0) [0..<SLFS_FNAME_LEN] of
        None \<Rightarrow> False | Some j \<Rightarrow> pname (of_nat j) = ino_name inode 0 j)"

text \<open>The newest inode of the name.\<close>

fun find_latest :: "nat list \<Rightarrow> mem \<Rightarrow> mem option \<Rightarrow> slfs \<Rightarrow> ret \<times> mem option" where
  "find_latest [] pname best s = (NO_ERR, best)"
| "find_latest (i # is) pname best s =
     (let (r, inode) = rdbuf (inode_at (of_nat i)) SLFS_INODE_SIZE s in
      if r \<noteq> NO_ERR then (Neg IO_ERR, best)
      else find_latest is pname
        (if name_matches pname inode then
           (case best of None \<Rightarrow> Some inode
            | Some b \<Rightarrow> if ino_update_cnt b 0 < ino_update_cnt inode 0 then Some inode else Some b)
         else best) s)"

text \<open>Copying a name up to and with its terminator.\<close>

definition copy_name :: "(nat \<Rightarrow> u8) \<Rightarrow> mem \<Rightarrow> mem" where
  "copy_name src b =
     (let n = (case List.find (\<lambda>j. src j = 0) [0..<SLFS_FNAME_LEN] of None \<Rightarrow> SLFS_FNAME_LEN | Some j \<Rightarrow> Suc j)
      in for_upto n (\<lambda>j b. b(of_nat j := src j)) b)"

definition slfs_open :: "mem \<Rightarrow> slfs_file \<Rightarrow> slfs \<Rightarrow> (ret \<times> slfs_file) option" where
  "slfs_open pname pf s =
     (let (r, best) = find_latest [0..<SLFS_INODE_MAX_CNT] pname None s in
      if r \<noteq> NO_ERR then Some (r, pf)
      else case best of
        Some b \<Rightarrow>
          if ino_idx b 0 \<noteq> MINUS_ONE then
            (let pf1 = pf\<lparr>fd := ino_file_id b 0, file_size := ino_file_size b 0, pos := 0,
                        datablk_addr := ino_datablk_addr b 0, inode_idx := ino_idx b 0,
                        open_cnt := open_cnt pf + 1, fname := copy_name (ino_name b 0) (fname pf),
                        update_cnt := ino_update_cnt b 0\<rparr>
             in do {
               (r, n) \<leftarrow> get_datablk_num pf1 s;
               if r \<noteq> NO_ERR then Some (r, pf1) else Some (NO_ERR, pf1\<lparr>allocedblk_num := n\<rparr>)
             })
          else Some (NO_ERR, pf\<lparr>fd := MINUS_ONE, file_size := 0, inode_idx := MINUS_ONE, pos := 0, open_cnt := 1,
                  datablk_addr := MINUS_ONE, allocedblk_num := 0, update_cnt := 0,
                  fname := copy_name (\<lambda>j. pname (of_nat j)) (fname pf)\<rparr>)
      | None \<Rightarrow> Some (NO_ERR, pf\<lparr>fd := MINUS_ONE, file_size := 0, inode_idx := MINUS_ONE, pos := 0, open_cnt := 1,
                  datablk_addr := MINUS_ONE, allocedblk_num := 0, update_cnt := 0,
                  fname := copy_name (\<lambda>j. pname (of_nat j)) (fname pf)\<rparr>))"

datatype slfs_fseek = SLFS_SEEK_SET | SLFS_SEEK_CUR | SLFS_SEEK_END

definition slfs_seek :: "slfs_file option \<Rightarrow> u32 \<Rightarrow> slfs_fseek \<Rightarrow> ret \<times> slfs_file option" where
  "slfs_seek pf offset whence =
     (case pf of None \<Rightarrow> (Neg NULL_PTR_ERR, None)
      | Some f \<Rightarrow>
          if open_cnt f = 0 then (Neg FILE_PARAM_ERR, Some f)
          else (let p = (case whence of SLFS_SEEK_SET \<Rightarrow> offset | SLFS_SEEK_CUR \<Rightarrow> pos f + offset
                         | SLFS_SEEK_END \<Rightarrow> file_size f - offset)
                in if p > file_size f then (Neg FILE_PARAM_ERR, Some f) else (NO_ERR, Some (f\<lparr>pos := p\<rparr>))))"

definition slfs_close :: "slfs_file option \<Rightarrow> ret \<times> slfs_file option" where
  "slfs_close pf =
     (case pf of None \<Rightarrow> (Pos NULL_PTR_ERR, None)
      | Some f \<Rightarrow>
          if fd f = MINUS_ONE then (Pos NULL_PTR_ERR, Some f)
          else (NO_ERR, Some (f\<lparr>fd := MINUS_ONE, datablk_addr := MINUS_ONE, file_size := 0,
                               open_cnt := open_cnt f - 1, pos := 0\<rparr>)))"

section \<open>Writing and reading\<close>

text \<open>Step 5 of a write: the data of a new file, block by block.\<close>

function write_new_loop :: "u32 \<Rightarrow> u32 \<Rightarrow> u32 \<Rightarrow> mem \<Rightarrow> slfs \<Rightarrow> ret \<times> slfs" where
  "write_new_loop addr buf_pos bytes pbuf s =
     (if 0 < bytes then
        (if bytes > SLFS_DATABLK_PAYLOAD_SIZE then
           (let (r, s1) = wrbuf addr SLFS_DATABLK_PAYLOAD_SIZE (\<lambda>i. pbuf (buf_pos + i)) s in
            if r \<noteq> NO_ERR then (Neg IO_ERR, s1)
            else (let (r, nxt) = next_blk addr s1 in
              if r \<noteq> NO_ERR then (Neg IO_ERR, s1)
              else write_new_loop nxt (buf_pos + SLFS_DATABLK_PAYLOAD_SIZE) (bytes - SLFS_DATABLK_PAYLOAD_SIZE) pbuf s1))
         else
           (let (r, s1) = wrbuf addr bytes (\<lambda>i. pbuf (buf_pos + i)) s
            in if r \<noteq> NO_ERR then (Neg IO_ERR, s1) else (NO_ERR, s1)))
      else (NO_ERR, s))"
  by auto
termination
  by (relation "measure (\<lambda>(_, _, bytes, _, _). unat bytes)") (auto intro!: word_sub_less simp: slfs_consts)

declare write_new_loop.simps [simp del]

text \<open>Step 6: the blocks of the previous version are copied to the new ones, with the new data in their
  place. \<open>len\<close> is the variable of that name, which keeps its value (at first none) when a block is copied
  unchanged; the list of the previous version is followed through memory addresses.\<close>

record upd_st =
  up_prev :: u32
  up_addr :: u32
  up_pos :: u32
  up_bytes :: u32
  up_buf_pos :: u32
  up_written :: u32
  up_len :: u32
  up_fs :: slfs

definition patch_blk :: "mem \<Rightarrow> mem \<Rightarrow> upd_st \<Rightarrow> mem \<times> upd_st" where
  "patch_blk pbuf data u =
     (if 0 < up_bytes u \<and> up_pos u < SLFS_DATABLK_PAYLOAD_SIZE then
        (let room = SLFS_DATABLK_PAYLOAD_SIZE - up_pos u;
             len = (if room < up_bytes u then room else up_bytes u);
             data1 = for_upto (unat len) (\<lambda>j d. d(up_pos u + of_nat j := pbuf (up_buf_pos u + of_nat j))) data;
             data2 = (if up_bytes u > len then data1
                      else for_upto (unat (SLFS_DATABLK_PAYLOAD_SIZE - (up_pos u + len)))
                             (\<lambda>j d. d(up_pos u + len + of_nat j := 0xFF)) data1)
         in (data2, u\<lparr>up_bytes := (if up_bytes u > len then up_bytes u - len else 0), up_pos := 0,
                      up_buf_pos := up_buf_pos u + len, up_len := len\<rparr>))
      else (data, u\<lparr>up_pos := up_pos u - SLFS_DATABLK_PAYLOAD_SIZE\<rparr>))"

fun copy_old_loop :: "nat \<Rightarrow> mem \<Rightarrow> upd_st \<Rightarrow> ret \<times> upd_st" where
  "copy_old_loop 0 pbuf u = (NO_ERR, u)"
| "copy_old_loop (Suc n) pbuf u =
     (let (r, data) = rdbuf (up_prev u) SLFS_DATABLK_PAYLOAD_SIZE (up_fs u) in
      if r \<noteq> NO_ERR then (Neg IO_ERR, u)
      else (let (data1, u1) = patch_blk pbuf data u;
                (r, s1) = wrbuf (up_addr u1) SLFS_DATABLK_PAYLOAD_SIZE data1 (up_fs u1);
                u2 = u1\<lparr>up_fs := s1\<rparr>
            in if r \<noteq> NO_ERR then (Neg IO_ERR, u2)
               else (let prev = load32 (fmem s1) (up_prev u2 + SLFS_DATABLK_TAIL_OFF_LOW);
                         (r, nxt) = next_blk (up_addr u2) s1;
                         u3 = u2\<lparr>up_written := up_written u2 + up_len u2, up_prev := prev\<rparr>
                     in if r \<noteq> NO_ERR then (Neg IO_ERR, u3) else copy_old_loop n pbuf (u3\<lparr>up_addr := nxt\<rparr>))))"

fun append_loop :: "nat \<Rightarrow> nat \<Rightarrow> mem \<Rightarrow> upd_st \<Rightarrow> ret \<times> upd_st" where
  "append_loop 0 i pbuf u = (NO_ERR, u)"
| "append_loop (Suc n) i pbuf u =
     (let (len, rest) = (if up_bytes u < SLFS_DATABLK_PAYLOAD_SIZE then (up_bytes u, 0)
                         else (SLFS_DATABLK_PAYLOAD_SIZE, up_bytes u - SLFS_DATABLK_PAYLOAD_SIZE));
          (r, s1) = wrbuf (up_addr u) len (\<lambda>j. pbuf (up_written u + of_nat i * SLFS_DATABLK_PAYLOAD_SIZE + j)) (up_fs u);
          u1 = u\<lparr>up_bytes := rest, up_len := len, up_fs := s1\<rparr>
      in if r \<noteq> NO_ERR then (Neg IO_ERR, u1)
         else if rest = 0 then (NO_ERR, u1)
         else (let (r, nxt) = next_blk (up_addr u1) s1 in
           if r \<noteq> NO_ERR then (Neg IO_ERR, u1)
           else append_loop n (Suc i) pbuf (u1\<lparr>up_addr := nxt, up_written := up_written u1 + len\<rparr>)))"

definition write_update :: "slfs_file \<Rightarrow> u32 \<Rightarrow> u32 \<Rightarrow> u32 \<Rightarrow> mem \<Rightarrow> u32 \<Rightarrow> slfs \<Rightarrow> ret \<times> slfs" where
  "write_update pf prev nprev bytes pbuf junk s =
     (let (r, u) = copy_old_loop (unat nprev) pbuf
                     \<lparr>up_prev = prev, up_addr = datablk_addr pf, up_pos = pos pf, up_bytes = bytes,
                      up_buf_pos = 0, up_written = 0, up_len = junk, up_fs = s\<rparr>
      in if r \<noteq> NO_ERR then (r, up_fs u)
         else if 0 < up_bytes u then
           (let (r, u1) = append_loop (unat (allocedblk_num pf - nprev)) 0 pbuf u in (r, up_fs u1))
         else (NO_ERR, up_fs u))"

text \<open>Steps 2 and 3: an inode and blocks, after a collection when there are none.\<close>

definition acquire_inode :: "slfs_file \<Rightarrow> u32 \<Rightarrow> slfs \<Rightarrow> (ret \<times> slfs_file \<times> slfs) option" where
  "acquire_inode pf junk s =
     (let (r, pf1, s1) = update_fp pf s in
      if r = Neg NO_INODE_ERR then
        do {
          (r, s2) \<leftarrow> collect_garbage junk s1;
          if r \<noteq> NO_ERR then Some (r, pf1, s2) else Some (update_fp pf1 s2)
        }
      else Some (r, pf1, s1))"

definition acquire_blks :: "slfs_file \<Rightarrow> u32 \<Rightarrow> u32 \<Rightarrow> slfs \<Rightarrow> (ret \<times> slfs_file \<times> slfs) option" where
  "acquire_blks pf len junk s =
     (let (r, pf1, s1) = alloc_datablk pf len s in
      if r = Neg NO_DATABLK_ERR then
        do {
          (r, s2) \<leftarrow> collect_garbage junk s1;
          if r \<noteq> NO_ERR then Some (r, pf1, s2) else Some (alloc_datablk pf1 len s2)
        }
      else Some (NO_ERR, pf1, s1))"

text \<open>Step 4: the inode is written twice, first with only its size set. \<open>inode\<close> is the local variable
  before the call.\<close>

definition write_inode :: "slfs_file \<Rightarrow> mem \<Rightarrow> slfs \<Rightarrow> ret \<times> slfs" where
  "write_inode pf inode s =
     (let b1 = store32 8 (file_size pf) inode;
          (r, s1) = wrbuf (inode_at (inode_idx pf)) SLFS_INODE_SIZE b1 s
      in if r \<noteq> NO_ERR then (Neg IO_ERR, s1)
         else (let b2 = store32 12 (datablk_addr pf) (store32 16 (fd pf) (store32 0 (inode_idx pf) b1));
                   b3 = for_upto SLFS_FNAME_LEN (\<lambda>j b. b(24 + of_nat j := fname pf (of_nat j))) b2;
                   (r, s2) = wrbuf (inode_at (inode_idx pf)) SLFS_INODE_SIZE b3 s1
               in if r \<noteq> NO_ERR then (Neg IO_ERR, s2) else (NO_ERR, s2)))"

definition write_close :: "slfs_file \<Rightarrow> slfs \<Rightarrow> ret \<times> slfs" where
  "write_close pf s =
     (let (r, s1) = wrbuf (inode_at (inode_idx pf) + 4) 4 (store32 0 (update_cnt pf) no_bytes) s
      in if r \<noteq> NO_ERR then (Neg IO_ERR, s1) else (NO_ERR, s1))"

definition write_file :: "slfs_file \<Rightarrow> mem \<Rightarrow> u32 \<Rightarrow> mem \<Rightarrow> u32 \<Rightarrow> slfs \<Rightarrow> (ret \<times> slfs_file \<times> slfs) option" where
  "write_file pf pbuf bytes inode junk s =
     (let prev = datablk_addr pf; size_prev = file_size pf; nprev = allocedblk_num pf;
          pf0 = (if file_size pf = 0 then pf\<lparr>file_size := bytes\<rparr>
                 else if pos pf + bytes > file_size pf then pf\<lparr>file_size := pos pf + bytes\<rparr> else pf)
      in do {
        (r, pf1, s1) \<leftarrow> acquire_inode pf0 junk s;
        if r \<noteq> NO_ERR then Some (r, pf1, s1)
        else do {
          (r, pf2, s2) \<leftarrow> acquire_blks pf1 bytes junk s1;
          if r \<noteq> NO_ERR then Some (r, pf2, s2)
          else (let (r, s3) = write_inode pf2 inode s2 in
            if r \<noteq> NO_ERR then Some (r, pf2, s3)
            else (let (r, s4) = (if size_prev = 0 then write_new_loop (datablk_addr pf2) 0 bytes pbuf s3
                                 else write_update pf2 prev nprev bytes pbuf junk s3)
              in if r \<noteq> NO_ERR then Some (r, pf2, s4)
                 else (let (r, s5) = write_close pf2 s4 in Some (r, pf2, s5))))
        }
      })"

definition slfs_write :: "slfs_file option \<Rightarrow> mem option \<Rightarrow> u32 \<Rightarrow> mem \<Rightarrow> u32 \<Rightarrow> slfs
    \<Rightarrow> (ret \<times> slfs_file option \<times> slfs) option" where
  "slfs_write pf pbuf bytes inode junk s =
     (case (pf, pbuf) of
        (Some f, Some b) \<Rightarrow>
          if open_cnt f = 0 then Some (Neg FILE_PARAM_ERR, pf, s)
          else if bytes = 0 then Some (NO_ERR, pf, s)
          else map_option (\<lambda>(r, f1, s1). (r, Some f1, s1)) (write_file f b bytes inode junk s)
      | _ \<Rightarrow> Some (Neg NULL_PTR_ERR, pf, s))"

text \<open>The block and the offset in it of a position.\<close>

function seek_blk :: "u32 \<Rightarrow> u32 \<Rightarrow> u32 \<times> u32" where
  "seek_blk offset idx =
     (if offset > SLFS_DATABLK_PAYLOAD_SIZE then
        (let offset1 = offset - SLFS_DATABLK_PAYLOAD_SIZE in
         if offset1 < SLFS_DATABLK_PAYLOAD_SIZE then (idx + 1, offset1) else seek_blk offset1 (idx + 1))
      else (idx, offset))"
  by auto
termination
  by (relation "measure (\<lambda>(offset, _). unat offset)") (auto intro!: word_sub_less simp: slfs_consts)

declare seek_blk.simps [simp del]

definition rdinto :: "u32 \<Rightarrow> u32 \<Rightarrow> u32 \<Rightarrow> mem \<Rightarrow> slfs \<Rightarrow> ret \<times> mem" where
  "rdinto a l at b s = read_ramdisk a l (fmem s) at b"

definition read_chunk :: "u32 \<Rightarrow> u32" where
  "read_chunk len = (if len \<ge> SLFS_DATABLK_PAYLOAD_SIZE then SLFS_DATABLK_PAYLOAD_SIZE else len)"

lemma read_chunk_less: "0 < len \<Longrightarrow> unat (len - read_chunk len) < unat len"
  by (rule word_sub_less) (auto simp: read_chunk_def slfs_consts)

function read_loop :: "u32 \<Rightarrow> u32 \<Rightarrow> u32 \<Rightarrow> mem \<Rightarrow> slfs \<Rightarrow> ret \<times> mem" where
  "read_loop addr buf_pos bytes b s =
     (if 0 < bytes then
        (let (r, nxt) = next_blk addr s in
         if r \<noteq> NO_ERR then (Neg IO_ERR, b)
         else (let len = read_chunk bytes; (r, b1) = rdinto nxt len buf_pos b s in
           if r \<noteq> NO_ERR then (Neg IO_ERR, b1)
           else read_loop nxt (buf_pos + len) (bytes - len) b1 s))
      else (NO_ERR, b))"
  by auto
termination
  by (relation "measure (\<lambda>(_, _, bytes, _, _). unat bytes)") (auto simp: read_chunk_less)

declare read_loop.simps [simp del]

definition slfs_read :: "slfs_file \<Rightarrow> mem option \<Rightarrow> u32 \<Rightarrow> slfs \<Rightarrow> ret \<times> mem option" where
  "slfs_read pf pbuf bytes s =
     (case pbuf of None \<Rightarrow> (Neg NULL_PTR_ERR, None)
      | Some b \<Rightarrow>
          if file_size pf = 0 \<or> datablk_addr pf = MINUS_ONE then (Neg FILE_SIZE_ERR, Some b)
          else
            (let bytes1 = (if file_size pf < pos pf + bytes then file_size pf - pos pf else bytes);
                 (idx, offset) = seek_blk (pos pf) 0;
                 (r, addr) = get_datablk_addr pf idx s
             in if r \<noteq> NO_ERR then (r, Some b)
                else (let room = SLFS_DATABLK_PAYLOAD_SIZE - offset;
                          len = (if room > bytes1 then bytes1 else room);
                          (r, b1) = rdinto (addr + offset) len 0 b s
                      in if r \<noteq> NO_ERR then (Neg IO_ERR, Some b1)
                         else (let (r, b2) = read_loop addr len (bytes1 - len) b1 s in (r, Some b2)))))"

section \<open>Deleting and listing files\<close>

definition slfs_delete :: "slfs_file \<Rightarrow> u32 \<Rightarrow> slfs \<Rightarrow> (ret \<times> slfs_file \<times> slfs) option" where
  "slfs_delete pf junk s =
     (let (r, inode) = rdbuf (inode_at (inode_idx pf)) SLFS_INODE_SIZE s in
      if r \<noteq> NO_ERR then Some (Neg IO_ERR, pf, s)
      else do {
        (r, pf1, s1) \<leftarrow> acquire_inode pf junk s;
        if r \<noteq> NO_ERR then Some (r, pf1, s1)
        else (let b = store32 12 0 (store32 8 0 (store32 4 (update_cnt pf1) (store32 0 (inode_idx pf1) inode)));
                  (r, s2) = wrbuf (inode_at (inode_idx pf1)) SLFS_INODE_SIZE b s1
              in Some ((if r \<noteq> NO_ERR then Neg IO_ERR else NO_ERR), pf1, s2))
      })"

fun deleted_ids :: "nat list \<Rightarrow> u32 list \<Rightarrow> slfs \<Rightarrow> ret \<times> u32 list" where
  "deleted_ids [] del s = (NO_ERR, del)"
| "deleted_ids (i # is) del s =
     (let (r, inode) = rdbuf (inode_at (of_nat i)) SLFS_INODE_SIZE s in
      if r \<noteq> NO_ERR then (Neg IO_ERR, del)
      else deleted_ids is (if ino_file_size inode 0 = 0 \<and> ino_datablk_addr inode 0 = 0
                           then del @ [ino_file_id inode 0] else del) s)"

text \<open>An inode is taken when some entry of the array of deleted files differs from it; the array has 32
  entries, those behind the deleted files never set (\<open>junk\<close>).\<close>

fun next_inode :: "nat list \<Rightarrow> u32 list \<Rightarrow> slfs \<Rightarrow> ret \<times> (nat \<times> mem) option" where
  "next_inode [] del s = (NO_ERR, None)"
| "next_inode (i # is) del s =
     (let (r, inode) = rdbuf (inode_at (of_nat i)) SLFS_INODE_SIZE s in
      if r \<noteq> NO_ERR then (Neg IO_ERR, None)
      else if ino_idx inode 0 \<noteq> MINUS_ONE \<and> ino_update_cnt inode 0 \<noteq> MINUS_ONE
              \<and> (\<exists>d \<in> set del. d \<noteq> ino_file_id inode 0) then (NO_ERR, Some (i, inode))
      else next_inode is del s)"

definition slfs_get_next_file :: "slfs_file \<Rightarrow> u32 \<Rightarrow> u32 list \<Rightarrow> slfs \<Rightarrow> ret \<times> slfs_file \<times> u32" where
  "slfs_get_next_file pf inode_loc junk s =
     (let (r, del) = deleted_ids [0..<SLFS_INODE_MAX_CNT] [] s in
      if r \<noteq> NO_ERR then (Neg IO_ERR, pf, inode_loc)
      else (let (r, found) = next_inode [unat inode_loc..<SLFS_INODE_MAX_CNT] (take SLFS_INODE_MAX_CNT (del @ junk)) s in
        if r \<noteq> NO_ERR then (Neg IO_ERR, pf, inode_loc)
        else case found of
          Some (i, inode) \<Rightarrow>
            (NO_ERR, pf\<lparr>datablk_addr := ino_datablk_addr inode 0, fd := ino_idx inode 0,
                       file_size := ino_file_size inode 0, fname := copy_name (ino_name inode 0) (fname pf)\<rparr>, of_nat i)
        | None \<Rightarrow> ((if unat inode_loc \<le> SLFS_INODE_MAX_CNT then Pos INODE_LAST_ERR else NO_ERR), pf, inode_loc)))"

end
