(* ===== verification/SlfsDisk.thy ===== *)
theory SlfsDisk
  imports Slfs
begin

unbundle bit_operations_syntax

text \<open>
  The contents of the device as a function on bytes, and what reads, writes and the block list are over it:
  the vocabulary of the properties of the file system.
\<close>

section \<open>Words on the device\<close>

type_synonym disk = "nat \<Rightarrow> u8"

definition dword :: "disk \<Rightarrow> nat \<Rightarrow> u32" where
  "dword D a = load32 (\<lambda>i. D (a + unat i)) 0"

definition dput :: "disk \<Rightarrow> nat \<Rightarrow> nat \<Rightarrow> (nat \<Rightarrow> u8) \<Rightarrow> disk" where
  "dput D a l f = (\<lambda>x. if a \<le> x \<and> x < a + l then f (x - a) else D x)"

definition on_disk :: "slfs \<Rightarrow> disk \<Rightarrow> bool" where
  "on_disk s D \<longleftrightarrow> (\<forall>x < 0x400000. dsk (fmem s) x = D x)"

lemma two_words_load: "load32 (two_words hi low) 0 = hi" "load32 (two_words hi low) 4 = low"
proof -
  have "load32 (two_words hi low) 0 = load32 (store32 0 hi no_bytes) 0"
    unfolding two_words_def by (rule load32_cong) (simp_all add: store32_def [of 4])
  then show "load32 (two_words hi low) 0 = hi" by simp
  show "load32 (two_words hi low) 4 = low" by (simp add: two_words_def)
qed

lemma dword_cong: "(\<And>x. a \<le> x \<Longrightarrow> x < a + 4 \<Longrightarrow> D x = D' x) \<Longrightarrow> dword D a = dword D' a"
  unfolding dword_def by (rule load32_cong) simp_all

lemma dword_dput_words:
  "dword (dput D a 8 (\<lambda>i. two_words hi low (of_nat i))) a = hi"
  "dword (dput D a 8 (\<lambda>i. two_words hi low (of_nat i))) (a + 4) = low"
proof -
  have "dword (dput D a 8 (\<lambda>i. two_words hi low (of_nat i))) a = load32 (two_words hi low) 0"
    unfolding dword_def by (rule load32_cong) (simp_all add: dput_def)
  then show "dword (dput D a 8 (\<lambda>i. two_words hi low (of_nat i))) a = hi" by (simp add: two_words_load)
  have "dword (dput D a 8 (\<lambda>i. two_words hi low (of_nat i))) (a + 4) = load32 (two_words hi low) 4"
    unfolding dword_def by (rule load32_cong) (simp_all add: dput_def)
  then show "dword (dput D a 8 (\<lambda>i. two_words hi low (of_nat i))) (a + 4) = low" by (simp add: two_words_load)
qed

lemma dword_dput_other: "b + 4 \<le> a \<or> a + l \<le> b \<Longrightarrow> dword (dput D a l f) b = dword D b"
  by (rule dword_cong) (auto simp: dput_def)

section \<open>Operations on the device\<close>

lemma wrbuf_on:
  assumes "on_disk s D" and "unat a + unat l \<le> 0x400000"
  obtains s' where "wrbuf a l b s = (NO_ERR, s')" "on_disk s' (dput D (unat a) (unat l) (\<lambda>i. b (of_nat i)))"
    "page_load_data s' = page_load_data s" "superblk s' = superblk s"
proof -
  obtain r m where w: "write_ramdisk a l b (fmem s) = (r, m)" by fastforce
  then have r: "r = NO_ERR" using rd.wr_ok [OF assms(2), of b "fmem s"] by simp
  have "on_disk (s\<lparr>fmem := m\<rparr>) (dput D (unat a) (unat l) (\<lambda>i. b (of_nat i)))"
    using assms(1) rd.wr_byte [OF assms(2), of _ b "fmem s"] w by (simp add: on_disk_def dput_def)
  then show ?thesis using that [of "s\<lparr>fmem := m\<rparr>"] w r by (simp add: wrbuf_def)
qed

lemma rdbuf_on:
  assumes "on_disk s D" and "unat a + unat l \<le> 0x400000"
  obtains b where "rdbuf a l s = (NO_ERR, b)" "\<And>i. i < unat l \<Longrightarrow> b (of_nat i) = D (unat a + i)"
proof -
  obtain r b where w: "rdbuf a l s = (r, b)" by fastforce
  then have r: "r = NO_ERR" using rd.rd_ok [OF assms(2), of "fmem s" 0 no_bytes] by (simp add: rdbuf_def)
  have "b (of_nat i) = D (unat a + i)" if "i < unat l" for i
    using rd.rd_byte [OF assms(2), of i 0 "fmem s" no_bytes] w that assms by (simp add: rdbuf_def on_disk_def)
  then show ?thesis using that w r by blast
qed

lemma buf_dword:
  fixes b :: mem
  assumes "\<And>i. i < n \<Longrightarrow> b (of_nat i) = D (a + i)" and "k + 4 \<le> n"
  shows "load32 b (of_nat k) = dword D (a + k)"
proof -
  have "b (of_nat k + of_nat j) = D (a + k + j)" if "j < 4" for j
    using assms(1) [of "k + j"] assms(2) that by (simp add: add.assoc)
  from this [of 0] this [of 1] this [of 2] this [of 3] show ?thesis
    unfolding dword_def by (intro load32_cong) simp_all
qed

lemma rdbuf_words:
  assumes "on_disk s D" and "unat a + 8 \<le> 0x400000"
  obtains b where "rdbuf a 8 s = (NO_ERR, b)" "load32 b 0 = dword D (unat a)" "load32 b 4 = dword D (unat a + 4)"
proof -
  obtain b where b: "rdbuf a 8 s = (NO_ERR, b)" "\<And>i. i < 8 \<Longrightarrow> b (of_nat i) = D (unat a + i)"
    using rdbuf_on [OF assms(1), of a 8] assms(2) by auto
  show ?thesis using that [OF b(1)] buf_dword [of 8 b D "unat a" 0] buf_dword [of 8 b D "unat a" 4] b(2) by simp
qed

lemma next_blk_on:
  assumes "on_disk s D" and "unat a + 512 \<le> 0x400000"
  shows "next_blk a s = (NO_ERR, dword D (unat a + 508))"
proof -
  have u: "unat (a + 508) = unat a + 508" using assms(2) by (subst unat_add_no_wrap) simp_all
  obtain b where b: "rdbuf (a + 508) 4 s = (NO_ERR, b)" "\<And>i. i < 4 \<Longrightarrow> b (of_nat i) = D (unat (a + 508) + i)"
    using rdbuf_on [OF assms(1), of "a + 508" 4] assms(2) u by auto
  have "load32 b 0 = dword D (unat a + 508)" using buf_dword [of 4 b D "unat (a + 508)" 0] b(2) u by simp
  then show ?thesis using b(1) by (simp add: next_blk_def slfs_consts)
qed

end
