(* ===== verification/SlfsRw.thy ===== *)
theory SlfsRw
  imports SlfsDisk
begin

unbundle bit_operations_syntax

text \<open>
  A file written to a file system that has room is read back as it was written, and nothing else on the
  device changes: the block list that \<open>alloc_datablk\<close> links, the data that \<open>slfs_write\<close> puts into it, and
  \<open>slfs_read\<close> on the result.
\<close>

section \<open>Blocks and inodes\<close>

definition blk :: "nat \<Rightarrow> nat" where "blk i = 0x1000 + 512 * i"
definition ino :: "nat \<Rightarrow> nat" where "ino i = 0xC0 + 56 * i"

definition free_blk :: "disk \<Rightarrow> nat \<Rightarrow> bool" where
  "free_blk D i \<longleftrightarrow> dword D (blk i + 504) = MINUS_ONE \<and> dword D (blk i + 508) = MINUS_ONE"

definition blk_chain :: "disk \<Rightarrow> nat \<Rightarrow> nat \<Rightarrow> bool" where
  "blk_chain D b k \<longleftrightarrow> (\<forall>t. t + 1 < k \<longrightarrow> dword D (blk (b + t) + 508) = of_nat (blk (b + t + 1)))"

lemma unat_blk: "i < 8184 \<Longrightarrow> unat (of_nat (blk i) :: u32) = blk i"
  by (rule unat_of_nat_u32) (simp add: blk_def)

lemma blk_room: "i < 8184 \<Longrightarrow> blk i + 512 \<le> 0x400000"
  by (simp add: blk_def)

lemma unat_blk_plus: "i < 8184 \<Longrightarrow> unat c \<le> 512 \<Longrightarrow> unat (of_nat (blk i) + c :: u32) = blk i + unat c"
  by (subst unat_add_no_wrap) (auto simp: unat_blk dest!: blk_room)

lemma blk_Suc: "of_nat (blk i) + SLFS_DATABLK_SIZE = of_nat (blk (Suc i))"
  by (simp add: blk_def slfs_consts)

lemma inode_at_ino: "inode_at (of_nat i) = of_nat (ino i)"
  by (simp add: inode_at_def ino_def slfs_consts)

lemma unat_ino: "i < 32 \<Longrightarrow> c \<le> 56 \<Longrightarrow> unat (of_nat (ino i) + of_nat c :: u32) = ino i + c"
  using unat_of_nat_u32 [of "ino i + c"] by (simp add: ino_def)

lemma blk_tail_disjoint: "i \<noteq> j \<Longrightarrow> blk i + 512 \<le> blk j \<or> blk j + 512 \<le> blk i"
  by (auto simp: blk_def)

lemma tail_words:
  assumes "on_disk s D" and "i < 8184"
  obtains b where "rdbuf (of_nat (blk i) + SLFS_DATABLK_TAIL_OFF_HI) SLFS_DATABLK_TAIL_SIZE s = (NO_ERR, b)"
    "load32 b 0 = dword D (blk i + 504)" "load32 b 4 = dword D (blk i + 508)"
proof -
  have u: "unat (of_nat (blk i) + 504 :: u32) = blk i + 504" using unat_blk_plus [OF assms(2), of 504] by simp
  obtain b where "rdbuf (of_nat (blk i) + 504) 8 s = (NO_ERR, b)"
    "load32 b 0 = dword D (blk i + 504)" "load32 b 4 = dword D (blk i + 504 + 4)"
    using rdbuf_words [OF assms(1), of "of_nat (blk i) + 504"] u blk_room [OF assms(2)] by auto
  then show ?thesis using that by (simp add: slfs_consts add.commute [of 508])
qed

lemma write_tail:
  assumes "on_disk s D" and "i < 8184"
  obtains s' where
    "wrbuf (of_nat (blk i) + SLFS_DATABLK_TAIL_OFF_HI) SLFS_DATABLK_TAIL_SIZE (two_words hi low) s = (NO_ERR, s')"
    "on_disk s' (dput D (blk i + 504) 8 (\<lambda>x. two_words hi low (of_nat x)))"
proof -
  have u: "unat (of_nat (blk i) + 504 :: u32) = blk i + 504" using unat_blk_plus [OF assms(2), of 504] by simp
  obtain s' where "wrbuf (of_nat (blk i) + 504) 8 (two_words hi low) s = (NO_ERR, s')"
    "on_disk s' (dput D (blk i + 504) 8 (\<lambda>x. two_words hi low (of_nat x)))"
    using wrbuf_on [OF assms(1), of "of_nat (blk i) + 504" 8 "two_words hi low"] u blk_room [OF assms(2)] by auto
  then show ?thesis using that by (simp add: slfs_consts)
qed

section \<open>The number of blocks\<close>

lemma blks_loop_eq:
  "0 < unat len \<Longrightarrow> blks_loop len c
     = (of_nat (unat len - 504 * ((unat len - 1) div 504)), c + of_nat ((unat len - 1) div 504))"
proof (induction len c rule: blks_loop.induct)
  case (1 len c)
  have p: "SLFS_DATABLK_PAYLOAD_SIZE = 504" by (simp add: slfs_consts)
  show ?case
  proof (cases "504 < len")
    case True
    then have u: "504 < unat len" by (simp add: word_less_nat_alt)
    have s: "unat (len - 504) = unat len - 504" using True by (subst unat_sub) simp_all
    have d: "(unat len - 1) div 504 = (unat len - 504 - 1) div 504 + 1" using u by (simp add: le_div_geq)
    have "blks_loop len c = blks_loop (len - 504) (c + 1)" using True by (subst blks_loop.simps) (simp add: p)
    also have "\<dots> = (of_nat (unat len - 504 - 504 * ((unat len - 504 - 1) div 504)),
        c + 1 + of_nat ((unat len - 504 - 1) div 504))"
      using 1 True u s by (simp add: p)
    finally show ?thesis unfolding d by (simp add: algebra_simps)
  next
    case False
    then have "unat len \<le> 504" by (simp add: word_less_nat_alt not_less)
    then have "(unat len - 1) div 504 = 0" using 1(2) by simp
    then show ?thesis using False by (subst blks_loop.simps) (simp add: p)
  qed
qed

lemma blks_needed_eq: "0 < unat len \<Longrightarrow> blks_needed len = of_nat ((unat len - 1) div 504 + 1)"
proof -
  assume l: "0 < unat len"
  define r where "r = unat len - 504 * ((unat len - 1) div 504)"
  have "504 * ((unat len - 1) div 504) \<le> unat len - 1" by (rule times_div_less_eq_dividend)
  then have "0 < r" "r < 2 ^ 32" using l unsigned_less [where ?'a = nat, of len] by (simp_all add: r_def)
  then have "of_nat r \<noteq> (0 :: u32)" using of_nat_u32_eq [of r 0] by simp
  then show ?thesis using blks_loop_eq [OF l, of 0] by (simp add: blks_needed_def r_def)
qed

section \<open>Allocating the blocks\<close>

definition tails :: "nat \<Rightarrow> nat \<Rightarrow> nat set" where
  "tails b k = (\<Union>t \<in> {b..<b + k}. {blk t + 504..<blk t + 512})"

lemma dword_outside_tail: "i \<noteq> j \<Longrightarrow> dword (dput D (blk j + 504) 8 f) (blk i + 504) = dword D (blk i + 504)"
  "i \<noteq> j \<Longrightarrow> dword (dput D (blk j + 504) 8 f) (blk i + 508) = dword D (blk i + 508)"
  using blk_tail_disjoint [of i j] by (auto intro!: dword_dput_other)

lemma free_blk_other: "i \<noteq> j \<Longrightarrow> free_blk (dput D (blk j + 504) 8 f) i = free_blk D i"
  by (simp add: free_blk_def dword_outside_tail)

lemma tail_next: "dword (dput D (blk i + 504) 8 (\<lambda>x. two_words hi low (of_nat x))) (blk i + 508) = low"
  using dword_dput_words(2) [of D "blk i + 504" hi low] by (simp add: add.assoc)

lemma dput_tail_same: "x \<notin> tails p k \<Longrightarrow> p \<le> i \<Longrightarrow> i < p + k \<Longrightarrow> dput D (blk i + 504) 8 f x = D x"
  by (auto simp: dput_def tails_def)

text \<open>The blocks after block \<open>p\<close>, the last one taken so far.\<close>

lemma alloc_more:
  assumes "on_disk (al_fs a) D" and "al_num a = of_nat j" and "0 < j" and "j + Suc d \<le> 8184"
    and "al_prev a = of_nat (blk p)" and "p + Suc d < 8184"
    and "\<And>t. p < t \<Longrightarrow> t \<le> p + Suc d \<Longrightarrow> free_blk D t" and "Suc d \<le> n"
  shows "\<exists>a' D'. alloc_loop n (of_nat (blk (Suc p))) (of_nat (j + Suc d)) a = (NO_ERR, a')
    \<and> on_disk (al_fs a') D' \<and> al_pf a' = (al_pf a)\<lparr>allocedblk_num := of_nat (j + Suc d)\<rparr>
    \<and> blk_chain D' p (Suc (Suc d)) \<and> dword D' (blk (p + Suc d) + 508) = 0
    \<and> (\<forall>x. x \<notin> tails p (Suc (Suc d)) \<longrightarrow> D' x = D x)"
  using assms
proof (induction d arbitrary: a D j p n)
  case (0 a D j p n)
  obtain n' where n: "n = Suc n'" using "0.prems"(8) by (cases n) auto
  have lt: "p < 8184" "Suc p < 8184" using "0.prems"(6) by simp_all
  have fr: "free_blk D (Suc p)" using "0.prems"(7) by simp
  obtain b where b: "rdbuf (of_nat (blk (Suc p)) + SLFS_DATABLK_TAIL_OFF_HI) SLFS_DATABLK_TAIL_SIZE (al_fs a) = (NO_ERR, b)"
    "load32 b 0 = MINUS_ONE" "load32 b 4 = MINUS_ONE"
    using tail_words [OF "0.prems"(1) lt(2)] fr by (metis free_blk_def)
  obtain s1 where s1: "wrbuf (of_nat (blk p) + SLFS_DATABLK_TAIL_OFF_HI) SLFS_DATABLK_TAIL_SIZE
      (two_words (al_pprev a) (of_nat (blk (Suc p)))) (al_fs a) = (NO_ERR, s1)"
    "on_disk s1 (dput D (blk p + 504) 8 (\<lambda>x. two_words (al_pprev a) (of_nat (blk (Suc p))) (of_nat x)))"
    using write_tail [OF "0.prems"(1) lt(1)] by metis
  let ?D1 = "dput D (blk p + 504) 8 (\<lambda>x. two_words (al_pprev a) (of_nat (blk (Suc p))) (of_nat x))"
  obtain s2 where s2: "wrbuf (of_nat (blk (Suc p)) + SLFS_DATABLK_TAIL_OFF_HI) SLFS_DATABLK_TAIL_SIZE
      (two_words (of_nat (blk p)) 0) s1 = (NO_ERR, s2)"
    "on_disk s2 (dput ?D1 (blk (Suc p) + 504) 8 (\<lambda>x. two_words (of_nat (blk p)) 0 (of_nat x)))"
    using write_tail [OF s1(2) lt(2)] by metis
  let ?D2 = "dput ?D1 (blk (Suc p) + 504) 8 (\<lambda>x. two_words (of_nat (blk p)) 0 (of_nat x))"
  have nz: "al_num a \<noteq> 0" using of_nat_u32_eq [of j 0] "0.prems"(2,3,4) by simp
  have "blk_chain ?D2 p (Suc (Suc 0))"
    by (simp add: blk_chain_def dword_outside_tail tail_next)
  moreover have "dword ?D2 (blk (p + Suc 0) + 508) = 0" by (simp add: tail_next)
  moreover have "\<forall>x. x \<notin> tails p (Suc (Suc 0)) \<longrightarrow> ?D2 x = D x" by (simp add: dput_tail_same)
  ultimately show ?case
    using b s1(1) s2 nz "0.prems"(2,5)
    by (auto simp: n claim_blk_def Let_def add.commute intro!: exI [of _ ?D2])
next
  case (Suc d a D j p n)
  obtain n' where n: "n = Suc n'" "Suc d \<le> n'" using Suc.prems(8) by (cases n) auto
  have lt: "p < 8184" "Suc p < 8184" using Suc.prems(6) by simp_all
  have fr: "free_blk D (Suc p)" using Suc.prems(7) by simp
  obtain b where b: "rdbuf (of_nat (blk (Suc p)) + SLFS_DATABLK_TAIL_OFF_HI) SLFS_DATABLK_TAIL_SIZE (al_fs a) = (NO_ERR, b)"
    "load32 b 0 = MINUS_ONE" "load32 b 4 = MINUS_ONE"
    using tail_words [OF Suc.prems(1) lt(2)] fr by (metis free_blk_def)
  obtain s1 where s1: "wrbuf (of_nat (blk p) + SLFS_DATABLK_TAIL_OFF_HI) SLFS_DATABLK_TAIL_SIZE
      (two_words (al_pprev a) (of_nat (blk (Suc p)))) (al_fs a) = (NO_ERR, s1)"
    "on_disk s1 (dput D (blk p + 504) 8 (\<lambda>x. two_words (al_pprev a) (of_nat (blk (Suc p))) (of_nat x)))"
    using write_tail [OF Suc.prems(1) lt(1)] by metis
  let ?D1 = "dput D (blk p + 504) 8 (\<lambda>x. two_words (al_pprev a) (of_nat (blk (Suc p))) (of_nat x))"
  let ?a1 = "a\<lparr>al_num := al_num a + 1, al_pprev := al_prev a, al_prev := of_nat (blk (Suc p)), al_fs := s1\<rparr>"
  have nz: "al_num a \<noteq> 0" using of_nat_u32_eq [of j 0] Suc.prems(2,3,4) by simp
  have ne: "al_num a + 1 \<noteq> of_nat (j + Suc (Suc d))"
    using of_nat_u32_eq [of "Suc j" "j + Suc (Suc d)"] Suc.prems(2,4) by simp
  have "\<exists>a' D'. alloc_loop n' (of_nat (blk (Suc (Suc p)))) (of_nat (Suc j + Suc d)) ?a1 = (NO_ERR, a')
    \<and> on_disk (al_fs a') D' \<and> al_pf a' = (al_pf ?a1)\<lparr>allocedblk_num := of_nat (Suc j + Suc d)\<rparr>
    \<and> blk_chain D' (Suc p) (Suc (Suc d)) \<and> dword D' (blk (Suc p + Suc d) + 508) = 0
    \<and> (\<forall>x. x \<notin> tails (Suc p) (Suc (Suc d)) \<longrightarrow> D' x = ?D1 x)"
    using Suc.prems s1(2) n(2) by (intro Suc.IH) (simp_all add: free_blk_other add.commute)
  then obtain a' D' where r: "alloc_loop n' (of_nat (blk (Suc (Suc p)))) (of_nat (Suc j + Suc d)) ?a1 = (NO_ERR, a')"
    "on_disk (al_fs a') D'" "al_pf a' = (al_pf a)\<lparr>allocedblk_num := of_nat (Suc j + Suc d)\<rparr>"
    "blk_chain D' (Suc p) (Suc (Suc d))" "\<forall>x. x \<notin> tails (Suc p) (Suc (Suc d)) \<longrightarrow> D' x = ?D1 x"
    "dword D' (blk (p + Suc (Suc d)) + 508) = 0"
    by auto
  have "dword D' (blk p + 508) = dword ?D1 (blk p + 508)"
    using r(5) by (intro dword_cong) (auto simp: tails_def blk_def)
  then have "dword D' (blk p + 508) = of_nat (blk (p + 1))" by (simp add: tail_next)
  then have "blk_chain D' p (Suc (Suc (Suc d)))"
    using r(4) by (auto simp: blk_chain_def less_Suc_eq_0_disj All_less_Suc2 split: nat.splits)
  moreover have "\<forall>x. x \<notin> tails p (Suc (Suc (Suc d))) \<longrightarrow> D' x = D x"
    using r(5) by (auto simp: tails_def dput_def)
  moreover have "alloc_loop n (of_nat (blk (Suc p))) (of_nat (j + Suc (Suc d))) a = (NO_ERR, a')"
    using b s1(1) nz ne r(1) Suc.prems(5) by (simp add: n(1) claim_blk_def Let_def blk_Suc)
  ultimately show ?case using r(2,3,6) by auto
qed

lemma alloc_skip:
  assumes "on_disk (al_fs a) D" and "\<And>t. i \<le> t \<Longrightarrow> t < i + d \<Longrightarrow> \<not> free_blk D t"
    and "i + d \<le> 8184" and "al_num a \<noteq> needed"
  shows "alloc_loop (d + n) (of_nat (blk i)) needed a = alloc_loop n (of_nat (blk (i + d))) needed a"
  using assms
proof (induction d arbitrary: i)
  case (Suc d)
  have lt: "i < 8184" using Suc.prems(3) by simp
  obtain b where b: "rdbuf (of_nat (blk i) + SLFS_DATABLK_TAIL_OFF_HI) SLFS_DATABLK_TAIL_SIZE (al_fs a) = (NO_ERR, b)"
    "\<not> (load32 b 0 = MINUS_ONE \<and> load32 b 4 = MINUS_ONE)"
    using tail_words [OF Suc.prems(1) lt] Suc.prems(2) [of i] by (metis free_blk_def le_refl less_add_same_cancel1 zero_less_Suc)
  have "alloc_loop (Suc d + n) (of_nat (blk i)) needed a = alloc_loop (d + n) (of_nat (blk (Suc i))) needed a"
    using Suc.prems(4) by (simp add: b(1) if_not_P [OF b(2)] blk_Suc)
  also have "\<dots> = alloc_loop n (of_nat (blk (Suc i + d))) needed a"
    using Suc.prems by (intro Suc.IH) simp_all
  finally show ?case by simp
qed simp

definition ino_words :: "nat \<Rightarrow> nat set" where "ino_words idx = {ino idx..<ino idx + 56}"

lemma ino_below: "idx < 32 \<Longrightarrow> ino idx + 56 \<le> 0x7C0" by (simp add: ino_def)

lemma write_ino:
  assumes "on_disk s D" and "idx < 32" and "c + l \<le> 56"
  obtains s' where "wrbuf (inode_at (of_nat idx) + of_nat c) (of_nat l) f s = (NO_ERR, s')"
    "on_disk s' (dput D (ino idx + c) l (\<lambda>x. f (of_nat x)))"
proof -
  have u: "unat (inode_at (of_nat idx) + of_nat c) = ino idx + c" "unat (of_nat l :: u32) = l"
    using unat_ino [OF assms(2), of c] assms(3) by (simp_all add: inode_at_ino unat_of_nat_u32)
  then show ?thesis
    using wrbuf_on [OF assms(1), of "inode_at (of_nat idx) + of_nat c" "of_nat l" f] ino_below [OF assms(2)] assms(3) that
    by auto
qed

lemma dput_ino_same: "x \<notin> ino_words idx \<Longrightarrow> c + l \<le> 56 \<Longrightarrow> dput D (ino idx + c) l f x = D x"
  by (auto simp: dput_def ino_words_def)

lemma dword_dput_ino:
  "idx < 32 \<Longrightarrow> c + l \<le> 56 \<Longrightarrow> 0x1000 \<le> a \<Longrightarrow> dword (dput D (ino idx + c) l f) a = dword D a"
  using ino_below [of idx] by (intro dword_dput_other) auto

lemma free_blk_ino: "idx < 32 \<Longrightarrow> c + l \<le> 56 \<Longrightarrow> free_blk (dput D (ino idx + c) l f) t = free_blk D t"
  by (simp add: free_blk_def dword_dput_ino blk_def)

text \<open>\<open>alloc_datablk\<close> on a device whose first free blocks are the \<open>k\<close> blocks from \<open>b\<close> on.\<close>

lemma alloc_fresh:
  assumes "on_disk s D" and "idx < 32" and "inode_idx pf = of_nat idx" and "pos pf + len \<le> file_size pf"
    and "blks_needed (file_size pf) = of_nat k" and "0 < k" and "b + k \<le> 8184"
    and "\<And>t. t < b \<Longrightarrow> \<not> free_blk D t" and "\<And>t. b \<le> t \<Longrightarrow> t < b + k \<Longrightarrow> free_blk D t"
  obtains s' D' where "alloc_datablk pf len s
      = (NO_ERR, pf\<lparr>datablk_addr := of_nat (blk b), allocedblk_num := of_nat k\<rparr>, s')"
    "on_disk s' D'" "blk_chain D' b k" "dword D' (blk (b + (k - 1)) + 508) = 0"
    "\<And>x. x \<notin> ino_words idx \<Longrightarrow> x \<notin> tails b k \<Longrightarrow> D' x = D x"
proof -
  let ?a = "\<lparr>al_num = 0, al_prev = 0, al_pprev = 0, al_pf = pf, al_fs = s\<rparr>"
  have lt: "b < 8184" using assms(6,7) by simp
  have k0: "(of_nat k :: u32) \<noteq> 0" using of_nat_u32_eq [of k 0] assms(6,7) by simp
  obtain t where t: "rdbuf (of_nat (blk b) + SLFS_DATABLK_TAIL_OFF_HI) SLFS_DATABLK_TAIL_SIZE s = (NO_ERR, t)"
    "load32 t 0 = MINUS_ONE" "load32 t 4 = MINUS_ONE"
    using tail_words [OF assms(1) lt] assms(9) [of b] assms(6) by (metis free_blk_def le_refl less_add_same_cancel1)
  let ?w = "two_words (file_size pf) (of_nat (blk b))"
  obtain s1 where s1: "wrbuf (inode_at (of_nat idx) + of_nat 8) (of_nat 8) ?w s = (NO_ERR, s1)"
    "on_disk s1 (dput D (ino idx + 8) 8 (\<lambda>x. ?w (of_nat x)))"
    by (rule write_ino [OF assms(1,2), of 8 8]) simp_all
  let ?D1 = "dput D (ino idx + 8) 8 (\<lambda>x. ?w (of_nat x))"
  let ?pf = "pf\<lparr>datablk_addr := of_nat (blk b)\<rparr>"
  let ?a1 = "\<lparr>al_num = 1, al_prev = of_nat (blk b), al_pprev = inode_at (of_nat idx), al_pf = ?pf, al_fs = s1\<rparr>"
  obtain n where n: "unat SLFS_DATABLK_MAX_CNT = b + Suc n" "k - 1 \<le> n"
    using assms(6,7) that by (intro that [of "8184 - b - 1"]) (auto simp: slfs_consts)
  have al: "alloc_datablk pf len s
      = (let (r, a) = alloc_loop (Suc n) (of_nat (blk b)) (of_nat k) ?a in (r, al_pf a, al_fs a))"
  proof -
    have start: "SLFS_DATABLK_START = of_nat (blk 0)" by (simp add: blk_def slfs_consts)
    have "alloc_loop (b + Suc n) (of_nat (blk 0)) (of_nat k) ?a = alloc_loop (Suc n) (of_nat (blk (0 + b))) (of_nat k) ?a"
      using assms(1,8) lt k0 by (intro alloc_skip) simp_all
    then show ?thesis
      unfolding alloc_datablk_def Let_def n(1) start using assms(4,5) by (simp only: if_not_P not_less add_0)
  qed
  have claim: "claim_blk (of_nat (blk b)) ?a = (NO_ERR, ?a1)"
    using s1(1) assms(3) by (simp add: claim_blk_def Let_def slfs_consts)
  show ?thesis
  proof (cases "k = 1")
    case True
    obtain s2 where s2: "wrbuf (of_nat (blk b) + SLFS_DATABLK_TAIL_OFF_HI) SLFS_DATABLK_TAIL_SIZE
        (two_words (inode_at (of_nat idx)) 0) s1 = (NO_ERR, s2)"
      "on_disk s2 (dput ?D1 (blk b + 504) 8 (\<lambda>x. two_words (inode_at (of_nat idx)) 0 (of_nat x)))"
      using write_tail [OF s1(2) lt] by metis
    show ?thesis
    proof (rule that [OF _ s2(2)])
      show "alloc_datablk pf len s = (NO_ERR, pf\<lparr>datablk_addr := of_nat (blk b), allocedblk_num := of_nat k\<rparr>, s2)"
        unfolding al using t s2(1) True by (simp add: claim)
      show "blk_chain (dput ?D1 (blk b + 504) 8 (\<lambda>x. two_words (inode_at (of_nat idx)) 0 (of_nat x))) b k"
        using True by (simp add: blk_chain_def)
      show "dword (dput ?D1 (blk b + 504) 8 (\<lambda>x. two_words (inode_at (of_nat idx)) 0 (of_nat x))) (blk (b + (k - 1)) + 508) = 0"
        using True by (simp add: tail_next)
      show "dput ?D1 (blk b + 504) 8 (\<lambda>x. two_words (inode_at (of_nat idx)) 0 (of_nat x)) x = D x"
        if "x \<notin> ino_words idx" "x \<notin> tails b k" for x
        using that True by (simp add: dput_tail_same dput_ino_same)
    qed
  next
    case False
    then obtain d where d: "k = Suc (Suc d)" using assms(6) by (metis One_nat_def gr0_conv_Suc not0_implies_Suc)
    have "\<exists>a' D'. alloc_loop n (of_nat (blk (Suc b))) (of_nat (1 + Suc d)) ?a1 = (NO_ERR, a')
      \<and> on_disk (al_fs a') D' \<and> al_pf a' = (al_pf ?a1)\<lparr>allocedblk_num := of_nat (1 + Suc d)\<rparr>
      \<and> blk_chain D' b (Suc (Suc d)) \<and> dword D' (blk (b + Suc d) + 508) = 0
      \<and> (\<forall>x. x \<notin> tails b (Suc (Suc d)) \<longrightarrow> D' x = ?D1 x)"
      using s1(2) d n(2) assms(2,7,9) by (intro alloc_more) (simp_all add: free_blk_ino)
    then obtain a' D' where r: "alloc_loop n (of_nat (blk (Suc b))) (of_nat k) ?a1 = (NO_ERR, a')"
      "on_disk (al_fs a') D'" "al_pf a' = ?pf\<lparr>allocedblk_num := of_nat k\<rparr>"
      "blk_chain D' b k" "\<forall>x. x \<notin> tails b k \<longrightarrow> D' x = ?D1 x"
      "dword D' (blk (b + (k - 1)) + 508) = 0"
      unfolding d by auto
    have ne: "(1 :: u32) \<noteq> of_nat k" using of_nat_u32_eq [of 1 k] d assms(7) by simp
    show ?thesis
    proof (rule that [OF _ r(2,4,6)])
      show "alloc_datablk pf len s = (NO_ERR, pf\<lparr>datablk_addr := of_nat (blk b), allocedblk_num := of_nat k\<rparr>, al_fs a')"
        unfolding al using t r(1,3) ne by (simp add: claim blk_Suc)
      show "D' x = D x" if "x \<notin> ino_words idx" "x \<notin> tails b k" for x
        using that r(5) by (simp add: dput_ino_same)
    qed
  qed
qed

section \<open>The data of the blocks\<close>

definition payloads :: "nat \<Rightarrow> nat \<Rightarrow> nat set" where
  "payloads b k = (\<Union>t \<in> {b..<b + k}. {blk t..<blk t + 504})"

text \<open>Byte \<open>x\<close> of a file whose blocks start at \<open>b\<close>.\<close>

definition file_byte :: "disk \<Rightarrow> nat \<Rightarrow> nat \<Rightarrow> u8" where
  "file_byte D b x = D (blk (b + x div 504) + x mod 504)"

lemma file_byte_next: "504 \<le> x \<Longrightarrow> file_byte D b x = file_byte D (Suc b) (x - 504)"
proof -
  assume "504 \<le> x"
  then have "x div 504 = Suc ((x - 504) div 504)" "x mod 504 = (x - 504) mod 504"
    by (simp_all add: le_div_geq le_mod_geq)
  then show ?thesis by (simp add: file_byte_def)
qed

lemma blk_chain_Suc: "blk_chain D b (Suc k) \<Longrightarrow> blk_chain D (Suc b) k"
  unfolding blk_chain_def by (metis Suc_eq_plus1 Suc_less_eq add_Suc add_Suc_right)

lemma tails_outside: "x \<in> tails b k \<Longrightarrow> \<not> (blk i \<le> x \<and> x < blk i + 504)"
proof
  assume "x \<in> tails b k" and x: "blk i \<le> x \<and> x < blk i + 504"
  then obtain t where t: "blk t + 504 \<le> x" "x < blk t + 512" by (auto simp: tails_def)
  show False
  proof (cases "t < i")
    case True then show False using t x by (simp add: blk_def)
  next
    case False then show False using t x by (simp add: blk_def)
  qed
qed

lemma blk_chain_cong:
  assumes "\<And>x. x \<in> tails b k \<Longrightarrow> D' x = D x" shows "blk_chain D' b k = blk_chain D b k"
proof -
  have "dword D' (blk (b + t) + 508) = dword D (blk (b + t) + 508)" if "t + 1 < k" for t
    using that by (intro dword_cong assms) (auto simp: tails_def intro!: bexI [of _ "b + t"])
  then show ?thesis by (simp add: blk_chain_def)
qed

lemma write_blk:
  assumes "on_disk s D" and "i < 8184" and "unat l \<le> 504"
  obtains s' where "wrbuf (of_nat (blk i)) l f s = (NO_ERR, s')"
    "on_disk s' (dput D (blk i) (unat l) (\<lambda>x. f (of_nat x)))"
  using wrbuf_on [OF assms(1), of "of_nat (blk i)" l f] unat_blk [OF assms(2)] blk_room [OF assms(2)] assms(3) that
  by auto

lemma next_in_chain:
  assumes "on_disk s D" and "blk_chain D i (Suc (Suc k))" and "i + 1 < 8184"
  shows "next_blk (of_nat (blk i)) s = (NO_ERR, of_nat (blk (Suc i)))"
proof -
  have "dword D (blk i + 508) = of_nat (blk (Suc i))" using assms(2) by (auto simp: blk_chain_def)
  then show ?thesis
    using next_blk_on [OF assms(1), of "of_nat (blk i)"] unat_blk [of i] blk_room [of i] assms(3) by simp
qed

lemma write_new_data:
  assumes "on_disk s D" and "blk_chain D b k" and "0 < unat bytes" and "k = (unat bytes - 1) div 504 + 1"
    and "b + k \<le> 8184"
  obtains s' D' where "write_new_loop (of_nat (blk b)) bp bytes pbuf s = (NO_ERR, s')" "on_disk s' D'"
    "\<And>x. x < unat bytes \<Longrightarrow> file_byte D' b x = pbuf (bp + of_nat x)"
    "\<And>y. y \<notin> payloads b k \<Longrightarrow> D' y = D y"
  using assms
proof (induction k arbitrary: b bp bytes s D thesis)
  case 0 then show ?case by simp
next
  case (Suc k b bp bytes s D)
  have p: "SLFS_DATABLK_PAYLOAD_SIZE = 504" by (simp add: slfs_consts)
  have lt: "b < 8184" using Suc.prems(6) by simp
  show ?case
  proof (cases "504 < bytes")
    case False
    then have l: "unat bytes \<le> 504" by (simp add: word_less_nat_alt not_less)
    obtain s' where s': "wrbuf (of_nat (blk b)) bytes (\<lambda>i. pbuf (bp + i)) s = (NO_ERR, s')"
      "on_disk s' (dput D (blk b) (unat bytes) (\<lambda>x. pbuf (bp + of_nat x)))"
      by (rule write_blk [OF Suc.prems(2) lt l])
    show ?thesis
    proof (rule Suc.prems(1) [OF _ s'(2)])
      show "write_new_loop (of_nat (blk b)) bp bytes pbuf s = (NO_ERR, s')"
        using s'(1) False Suc.prems(4) by (subst write_new_loop.simps) (simp add: p word_less_nat_alt)
      show "file_byte (dput D (blk b) (unat bytes) (\<lambda>x. pbuf (bp + of_nat x))) b x = pbuf (bp + of_nat x)"
        if "x < unat bytes" for x
        using that l by (cases "x = 504") (simp_all add: file_byte_def dput_def)
      show "dput D (blk b) (unat bytes) (\<lambda>x. pbuf (bp + of_nat x)) y = D y" if "y \<notin> payloads b (Suc k)" for y
        using that l by (auto simp: dput_def payloads_def)
    qed
  next
    case True
    then have g: "504 < unat bytes" by (simp add: word_less_nat_alt)
    have u: "unat (bytes - 504) = unat bytes - 504" using True by (subst unat_sub) simp_all
    have k: "k = (unat (bytes - 504) - 1) div 504 + 1" "0 < unat (bytes - 504)"
      using Suc.prems(5) g u by (simp_all add: le_div_geq)
    obtain k' where k': "k = Suc k'" using k(1) by simp
    obtain s1 where s1: "wrbuf (of_nat (blk b)) 504 (\<lambda>i. pbuf (bp + i)) s = (NO_ERR, s1)"
      "on_disk s1 (dput D (blk b) 504 (\<lambda>x. pbuf (bp + of_nat x)))"
      using write_blk [OF Suc.prems(2) lt, of 504] by auto
    let ?D1 = "dput D (blk b) 504 (\<lambda>x. pbuf (bp + of_nat x))"
    have c: "blk_chain ?D1 b (Suc k)"
      using Suc.prems(3) by (subst blk_chain_cong [of b "Suc k" _ D]) (use tails_outside in \<open>auto simp: dput_def\<close>)
    have nxt: "next_blk (of_nat (blk b)) s1 = (NO_ERR, of_nat (blk (Suc b)))"
      using next_in_chain [OF s1(2), of b k'] c k' Suc.prems(6) by simp
    obtain s' D' where r: "write_new_loop (of_nat (blk (Suc b))) (bp + 504) (bytes - 504) pbuf s1 = (NO_ERR, s')"
      "on_disk s' D'" "\<And>x. x < unat (bytes - 504) \<Longrightarrow> file_byte D' (Suc b) x = pbuf (bp + 504 + of_nat x)"
      "\<And>y. y \<notin> payloads (Suc b) k \<Longrightarrow> D' y = ?D1 y"
      by (rule Suc.IH [OF _ s1(2) blk_chain_Suc [OF c] k(2,1)]) (use Suc.prems(6) in auto)
    show ?thesis
    proof (rule Suc.prems(1) [OF _ r(2)])
      show "write_new_loop (of_nat (blk b)) bp bytes pbuf s = (NO_ERR, s')"
        using s1(1) nxt r(1) True Suc.prems(4) by (subst write_new_loop.simps) (simp add: p word_less_nat_alt)
      show "file_byte D' b x = pbuf (bp + of_nat x)" if "x < unat bytes" for x
      proof (cases "504 \<le> x")
        case True
        then show ?thesis using r(3) [of "x - 504"] that u by (simp add: file_byte_next of_nat_diff)
      next
        case False
        then have "blk b + x \<notin> payloads (Suc b) k" by (auto simp: payloads_def blk_def)
        then show ?thesis using r(4) [of "blk b + x"] False by (simp add: file_byte_def dput_def)
      qed
      show "D' y = D y" if "y \<notin> payloads b (Suc k)" for y
      proof -
        have "y \<notin> payloads (Suc b) k" "y \<notin> {blk b..<blk b + 504}" using that by (auto simp: payloads_def)
        then show ?thesis using r(4) [of y] by (auto simp: dput_def)
      qed
    qed
  qed
qed

section \<open>Reading\<close>

lemma rdinto_on:
  assumes "on_disk s D" and "unat a + unat l \<le> 0x400000" and "at + unat l \<le> 2 ^ 32" and "at < 2 ^ 32"
  obtains b' where "rdinto a l (of_nat at) b s = (NO_ERR, b')"
    "\<And>y. y < 2 ^ 32 \<Longrightarrow> b' (of_nat y) = (if at \<le> y \<and> y < at + unat l then D (unat a + (y - at)) else b (of_nat y))"
proof -
  obtain r b' where w: "rdinto a l (of_nat at) b s = (r, b')" by fastforce
  then have r: "r = NO_ERR" using rd.rd_ok [OF assms(2), of "fmem s" "of_nat at" b] by (simp add: rdinto_def)
  have u: "unat (of_nat at :: u32) = at" using assms(4) by (rule unat_of_nat_u32)
  have "b' (of_nat y) = (if at \<le> y \<and> y < at + unat l then D (unat a + (y - at)) else b (of_nat y))" if "y < 2 ^ 32" for y
    using rd.rd_byte [OF assms(2) that, of "of_nat at" "fmem s" b] w assms u
    by (auto simp add: rdinto_def on_disk_def)
  then show ?thesis using that w r by blast
qed

text \<open>A run of bytes of a file in a buffer, from \<open>at\<close> on.\<close>

definition filled :: "mem \<Rightarrow> nat \<Rightarrow> nat \<Rightarrow> (nat \<Rightarrow> u8) \<Rightarrow> mem \<Rightarrow> bool" where
  "filled b at n f b' \<longleftrightarrow>
     (\<forall>y < 2 ^ 32. b' (of_nat y) = (if at \<le> y \<and> y < at + n then f (y - at) else b (of_nat y)))"

lemma filledD: "filled b at n f b' \<Longrightarrow> y < 2 ^ 32 \<Longrightarrow>
    b' (of_nat y) = (if at \<le> y \<and> y < at + n then f (y - at) else b (of_nat y))"
  by (simp add: filled_def)

lemma filled_append:
  assumes "filled b at n f b1" and "filled b1 (at + n) m g b2"
  shows "filled b at (n + m) (\<lambda>x. if x < n then f x else g (x - n)) b2"
  unfolding filled_def
proof (intro allI impI)
  fix y :: nat
  assume y: "y < 2 ^ 32"
  show "b2 (of_nat y) = (if at \<le> y \<and> y < at + (n + m) then if y - at < n then f (y - at) else g (y - at - n) else b (of_nat y))"
    using filledD [OF assms(1) y] filledD [OF assms(2) y] by (cases "y < at"; cases "y < at + n") (simp_all, auto simp: less_diff_conv2)
qed

lemma filled_cong:
  assumes "filled b at n f b'" and "\<And>x. x < n \<Longrightarrow> f x = g x"
  shows "filled b at n g b'"
  using assms by (auto simp: filled_def)

lemma filled_0 [simp]: "filled b at 0 f b" by (auto simp: filled_def)

lemma rdinto_filled:
  assumes "on_disk s D" and "unat a + unat l \<le> 0x400000" and "at + unat l \<le> 2 ^ 32" and "at < 2 ^ 32"
  obtains b' where "rdinto a l (of_nat at) b s = (NO_ERR, b')" "filled b at (unat l) (\<lambda>x. D (unat a + x)) b'"
  using rdinto_on [OF assms, of b] unfolding filled_def by metis

lemma read_chain:
  assumes "on_disk s D" and "blk_chain D c (Suc m)" and "m = (unat bytes + 503) div 504" and "c + m < 8184"
    and "bp + unat bytes < 2 ^ 32"
  obtains b' where "read_loop (of_nat (blk c)) (of_nat bp) bytes b s = (NO_ERR, b')"
    "filled b bp (unat bytes) (file_byte D (Suc c)) b'"
  using assms
proof (induction m arbitrary: c bp bytes b thesis)
  case 0
  then have "unat bytes = 0" by simp
  then have "bytes = 0" by (simp add: unat_eq_0)
  then show ?case using "0.prems"(1) [of b] by (simp add: read_loop.simps [of _ _ 0])
next
  case (Suc m c bp bytes b)
  have p: "SLFS_DATABLK_PAYLOAD_SIZE = 504" by (simp add: slfs_consts)
  have pos: "0 < unat bytes" using Suc.prems(4) by (cases "unat bytes") simp_all
  let ?l = "read_chunk bytes"
  have l: "unat ?l = (if 504 \<le> unat bytes then 504 else unat bytes)"
    by (simp add: read_chunk_def p word_le_nat_alt)
  have sub: "unat (bytes - ?l) = unat bytes - unat ?l"
    by (rule unat_sub) (simp add: word_le_nat_alt l)
  have lt: "Suc c < 8184" using Suc.prems(5) by simp
  have nxt: "next_blk (of_nat (blk c)) s = (NO_ERR, of_nat (blk (Suc c)))"
    using next_in_chain [OF Suc.prems(2,3)] Suc.prems(5) by simp
  obtain b1 where b1: "rdinto (of_nat (blk (Suc c))) ?l (of_nat bp) b s = (NO_ERR, b1)"
    "filled b bp (unat ?l) (\<lambda>x. D (blk (Suc c) + x)) b1"
    using rdinto_filled [OF Suc.prems(2), of "of_nat (blk (Suc c))" ?l bp b] unat_blk [OF lt] blk_room [OF lt] l Suc.prems(6)
    by (auto split: if_splits)
  have m: "m = (unat (bytes - ?l) + 503) div 504"
    using Suc.prems(4) pos by (cases "504 \<le> unat bytes") (simp_all add: sub l le_div_geq)
  obtain b' where b': "read_loop (of_nat (blk (Suc c))) (of_nat (bp + unat ?l)) (bytes - ?l) b1 s = (NO_ERR, b')"
    "filled b1 (bp + unat ?l) (unat (bytes - ?l)) (file_byte D (Suc (Suc c))) b'"
    by (rule Suc.IH [OF _ Suc.prems(2) blk_chain_Suc [OF Suc.prems(3)] m, of "bp + unat ?l" b1])
      (use Suc.prems(5,6) l sub in \<open>auto split: if_splits\<close>)
  have le: "unat ?l + unat (bytes - ?l) = unat bytes" using sub l by simp
  show ?case
  proof (rule Suc.prems(1))
    show "read_loop (of_nat (blk c)) (of_nat bp) bytes b s = (NO_ERR, b')"
      using pos b1(1) b'(1) nxt by (subst read_loop.simps) (simp add: word_less_nat_alt)
    show "filled b bp (unat bytes) (file_byte D (Suc c)) b'"
      using filled_append [OF b1(2) b'(2)] unfolding le
    proof (rule filled_cong)
      fix x assume "x < unat bytes"
      then show "(if x < unat ?l then D (blk (Suc c) + x) else file_byte D (Suc (Suc c)) (x - unat ?l)) = file_byte D (Suc c) x"
        using l by (cases "x < unat ?l") (auto simp: file_byte_def le_div_geq le_mod_geq split: if_splits)
    qed
  qed
qed

text \<open>From a position in the file to its block.\<close>

lemma seek_blk_at:
  "seek_blk p i = (i + of_nat ((unat p - 1) div 504), p - 504 * of_nat ((unat p - 1) div 504))"
proof (induction p i rule: seek_blk.induct)
  case (1 p i)
  have c: "SLFS_DATABLK_PAYLOAD_SIZE = 504" by (simp add: slfs_consts)
  show ?case
  proof (cases "p > 504")
    case False
    then have "unat p \<le> 504" by (simp add: word_less_nat_alt)
    then have "(unat p - 1) div 504 = 0" by simp
    then show ?thesis using False by (subst seek_blk.simps) (simp add: c)
  next
    case True
    then have u: "504 < unat p" "unat (p - 504) = unat p - 504"
      by (simp_all add: word_less_nat_alt unat_sub word_le_nat_alt)
    then have q: "(unat p - 1) div 504 = Suc ((unat (p - 504) - 1) div 504)" by (simp add: le_div_geq)
    show ?thesis
    proof (cases "p - 504 < 504")
      case True2: True
      then have "unat p - 504 < 504" using u by (simp add: word_less_nat_alt)
      then have "(unat (p - 504) - 1) div 504 = 0" using u(2) by simp
      then show ?thesis using True True2 q by (subst seek_blk.simps) (simp add: c)
    next
      case False
      then show ?thesis using True "1.IH" [of "p - 504"] q by (subst seek_blk.simps) (simp add: c Let_def algebra_simps)
    qed
  qed
qed

lemma blk_addr_chain:
  assumes "on_disk s D" and "blk_chain D b k" and "j < k" and "b + k \<le> 8184"
  shows "blk_addr_loop j (of_nat (blk b)) s = (NO_ERR, of_nat (blk (b + j)))"
  using assms
proof (induction j arbitrary: b k)
  case (Suc j)
  then obtain k' where k: "k = Suc (Suc k')" by (metis less_iff_Suc_add add_Suc)
  have lt: "b < 8184" using Suc.prems by simp
  have "of_nat (blk b) \<noteq> MINUS_ONE"
    using unat_blk [OF lt] blk_room [OF lt] by (auto simp: MINUS_ONE_def)
  moreover have "next_blk (of_nat (blk b)) s = (NO_ERR, of_nat (blk (Suc b)))"
    using next_in_chain [OF Suc.prems(1), of b k'] Suc.prems(2,4) k by simp
  moreover have "blk_addr_loop j (of_nat (blk (Suc b))) s = (NO_ERR, of_nat (blk (Suc b + j)))"
    by (rule Suc.IH [of _ "Suc k'"]) (use Suc.prems k blk_chain_Suc in auto)
  ultimately show ?case by simp
qed simp

lemma blk_chain_from: "blk_chain D b k \<Longrightarrow> q + m \<le> k \<Longrightarrow> blk_chain D (b + q) m"
  by (simp add: blk_chain_def add.assoc)

lemma last_byte:
  fixes p n N q b :: nat
  assumes "504 * q + b = p" and "p + n \<le> N" and "504 - b < n" and "b \<le> 504"
  shows "504 * (q + 1) + (n - (504 - b) - 1) \<le> N - 1"
proof -
  obtain d where d: "n = (504 - b) + Suc d" using assms(3) by (metis add_Suc_right less_iff_Suc_add)
  then have "504 * q + 504 + Suc d \<le> N" using assms(1,2,4) by simp
  then show ?thesis using d by simp
qed

text \<open>Reading \<open>n\<close> bytes at the position of the file, all of them inside it.\<close>

lemma read_file_at:
  assumes "on_disk s D" and "blk_chain D b k" and "0 < unat N" and "k = (unat N - 1) div 504 + 1" and "b + k \<le> 8184"
    and "file_size f = N" and "unat (pos f) + unat n \<le> unat N" and "datablk_addr f = of_nat (blk b)"
  obtains buf where "slfs_read f (Some buf0) n s = (NO_ERR, Some buf)"
    "filled buf0 0 (unat n) (\<lambda>x. file_byte D b (unat (pos f) + x)) buf"
proof -
  have c: "SLFS_DATABLK_PAYLOAD_SIZE = 504" by (simp add: slfs_consts)
  define q where "q = (unat (pos f) - 1) div 504"
  define o' where "o' = unat (pos f) - 504 * q"
  have nN: "unat N < 2 ^ 32" using unsigned_less [where ?'a = nat, of N] by simp
  have q: "504 * q + o' = unat (pos f)" "o' \<le> 504" "q < k"
    unfolding o'_def q_def assms(4) using assms(7) by (auto intro: div_le_mono le_imp_less_Suc)
  have lt: "b + q < 8184" using q(3) assms(5) by simp
  have q32: "q < 2 ^ 32" using lt by simp
  have off: "pos f - 504 * of_nat q = (of_nat o' :: u32)"
  proof -
    have "pos f = (of_nat (504 * q + o') :: u32)" using q(1) by simp
    then show ?thesis by simp
  qed
  have uo: "unat (of_nat o' :: u32) = o'" using q(2) by (intro unat_of_nat_u32) simp
  have room: "unat (504 - of_nat o' :: u32) = 504 - o'"
    using q(2) uo by (simp add: unat_sub word_le_nat_alt)
  define l where "l = (if 504 - of_nat o' > n then n else (504 - of_nat o' :: u32))"
  have l: "unat l = min (unat n) (504 - o')" using room by (simp add: l_def word_less_nat_alt)
  have sub: "unat (n - l) = unat n - unat l" by (rule unat_sub) (simp add: word_le_nat_alt l)
  have ad: "unat (of_nat (blk (b + q)) + of_nat o' :: u32) = blk (b + q) + o'"
    using unat_blk_plus [OF lt, of "of_nat o'"] uo q(2) by simp
  obtain b1 where b1: "rdinto (of_nat (blk (b + q)) + of_nat o') l (of_nat 0) buf0 s = (NO_ERR, b1)"
    "filled buf0 0 (unat l) (\<lambda>x. D (blk (b + q) + o' + x)) b1"
    by (rule rdinto_filled [OF assms(1), of "of_nat (blk (b + q)) + of_nat o'" l 0 buf0])
      (use ad l q(2) blk_room [OF lt] in simp_all)
  define m where "m = (unat (n - l) + 503) div 504"
  have m: "q + m < k"
  proof (cases "unat n \<le> 504 - o'")
    case True
    then have "m = 0" by (simp add: m_def sub l)
    then show ?thesis using q(3) by simp
  next
    case False
    then have e: "unat (n - l) = unat n - (504 - o')" by (simp add: sub l)
    then have "504 * (q + 1) + (unat (n - l) - 1) \<le> unat N - 1" using last_byte [OF q(1) assms(7) _ q(2)] False by simp
    then have "(504 * (q + 1) + (unat (n - l) - 1)) div 504 \<le> (unat N - 1) div 504" by (rule div_le_mono)
    moreover have "(504 * (q + 1) + (unat (n - l) - 1)) div 504 = q + 1 + (unat (n - l) - 1) div 504" by (rule div_mult_self4) simp
    moreover have "m = Suc ((unat (n - l) - 1) div 504)" using e False unfolding m_def by (simp add: le_div_geq)
    ultimately show ?thesis using assms(4) by linarith
  qed
  obtain b2 where b2: "read_loop (of_nat (blk (b + q))) (of_nat (unat l)) (n - l) b1 s = (NO_ERR, b2)"
    "filled b1 (unat l) (unat (n - l)) (file_byte D (Suc (b + q))) b2"
  proof (rule read_chain [OF assms(1) blk_chain_from [OF assms(2), of q "Suc m"] m_def, of "unat l" b1])
    show "q + Suc m \<le> k" using m by simp
    show "b + q + m < 8184" using m assms(5) by simp
    show "unat l + unat (n - l) < 2 ^ 32" using assms(7) nN unfolding sub l by simp
  qed (rule that)
  have nm: "of_nat (blk b) \<noteq> MINUS_ONE" "of_nat (blk (b + q)) \<noteq> MINUS_ONE"
    using unat_blk [of b] blk_room [of b] unat_blk [OF lt] blk_room [OF lt] lt by (auto simp: MINUS_ONE_def)
  have wrap: "\<not> file_size f < pos f + n"
    using assms(6,7) nN by (simp add: word_less_nat_alt unat_word_ariths)
  have addr: "get_datablk_addr f (of_nat q) s = (NO_ERR, of_nat (blk (b + q)))"
    using blk_addr_chain [OF assms(1,2) q(3) assms(5)] nm assms(8) unat_of_nat_u32 [OF q32]
    by (simp add: get_datablk_addr_def)
  have sk: "seek_blk (pos f) 0 = (of_nat q, of_nat o')" using seek_blk_at [of "pos f" 0] off by (simp add: q_def)
  have n0: "file_size f \<noteq> 0" using assms(3,6) by auto
  have "slfs_read f (Some buf0) n s = (NO_ERR, Some b2)"
    using b1(1) b2(1) n0 nm(1) assms(8) wrap addr sk unfolding slfs_read_def c l_def
    by simp
  moreover have "filled buf0 0 (unat l + unat (n - l))
      (\<lambda>x. if x < unat l then D (blk (b + q) + o' + x) else file_byte D (Suc (b + q)) (x - unat l)) b2"
    using filled_append [OF b1(2), of "unat (n - l)"] b2(2) by simp
  then have "filled buf0 0 (unat n) (\<lambda>x. file_byte D b (unat (pos f) + x)) b2"
  proof -
    have t: "unat l + unat (n - l) = unat n" using sub l by simp
    assume "filled buf0 0 (unat l + unat (n - l))
      (\<lambda>x. if x < unat l then D (blk (b + q) + o' + x) else file_byte D (Suc (b + q)) (x - unat l)) b2"
    then show ?thesis unfolding t
    proof (rule filled_cong)
      fix x assume x: "x < unat n"
      have e: "unat (pos f) + x = 504 * q + (o' + x)" using q(1) by simp
      show "(if x < unat l then D (blk (b + q) + o' + x) else file_byte D (Suc (b + q)) (x - unat l))
          = file_byte D b (unat (pos f) + x)"
      proof (cases "x < unat l")
        case True
        then have "o' + x < 504" using l by linarith
        then show ?thesis using True unfolding e by (simp add: file_byte_def add.assoc)
      next
        case False
        then have u: "unat l = 504 - o'" "504 - o' \<le> x" using x l by simp_all
        then obtain d where "x = 504 - o' + d" using le_iff_add by blast
        then have d: "o' + x = 504 + d" "x - unat l = d" using q(2) u by simp_all
        have "(504 + d) div 504 = Suc (d div 504)" "(504 + d) mod 504 = d mod 504" by (simp_all add: le_div_geq le_mod_geq)
        then show ?thesis using False d(2) unfolding e d(1) by (simp add: file_byte_def add.assoc)
      qed
    qed
  qed
  ultimately show ?thesis using that by blast
qed

section \<open>Inodes\<close>

lemma load_metadata:
  assumes "on_disk s D"
  obtains s' where "rw_page SLFS_METADATA_PAGE_IDX False s = (NO_ERR, s')" "on_disk s' D"
    "\<And>x. x < 4096 \<Longrightarrow> page_load_data s' (of_nat x) = D x" "superblk s' = superblk s"
proof -
  obtain r b where w: "read_ramdisk 0 4096 (fmem s) 0 (page_load_data s) = (r, b)" by fastforce
  have b: "b (of_nat x) = D x" if "x < 4096" for x
    using rd.rd_byte [of 0 4096 x 0 "fmem s" "page_load_data s"] w that assms by (simp add: on_disk_def)
  show ?thesis
    by (rule that [of "s\<lparr>page_load_data := b\<rparr>"])
      (use w b assms in \<open>simp_all add: rw_page_def load_page_def on_disk_def slfs_consts\<close>)
qed

lemma update_fp_free:
  assumes "on_disk s D" and "idx < 32" and "dword D (ino idx + 8) = MINUS_ONE"
    and "\<And>i. i < idx \<Longrightarrow> dword D (ino i + 8) \<noteq> MINUS_ONE"
  obtains s' where "update_fp pf s = (NO_ERR, pf\<lparr>inode_idx := of_nat idx, update_cnt := update_cnt pf + 1,
      fd := (if fd pf = MINUS_ONE then of_nat idx else fd pf)\<rparr>, s')" "on_disk s' D"
proof -
  obtain s' where s': "rw_page SLFS_METADATA_PAGE_IDX False s = (NO_ERR, s')" "on_disk s' D"
    "\<And>x. x < 4096 \<Longrightarrow> page_load_data s' (of_nat x) = D x"
    using load_metadata [OF assms(1)] by metis
  have size: "ino_file_size (page_load_data s') (inode_at (of_nat i)) = dword D (ino i + 8)" if "i < 32" for i
  proof -
    have "inode_at (of_nat i) + 8 = of_nat (ino i + 8)" by (simp add: inode_at_ino)
    then show ?thesis
      unfolding ino_file_size_def using buf_dword [of 4096 "page_load_data s'" D 0 "ino i + 8"] s'(3) ino_below [OF that] by simp
  qed
  have "List.find (\<lambda>i. ino_file_size (page_load_data s') (inode_at (of_nat i)) = MINUS_ONE) [0..<SLFS_INODE_MAX_CNT] = Some idx"
    unfolding find_Some_iff using assms size by (auto simp: SLFS_INODE_MAX_CNT_def intro!: exI [of _ idx])
  then show ?thesis using that [of s'] s' by (simp add: update_fp_def)
qed

lemma dword_dput_word: "dword (dput D a 4 (\<lambda>x. store32 0 v no_bytes (of_nat x))) a = v"
proof -
  have "dword (dput D a 4 (\<lambda>x. store32 0 v no_bytes (of_nat x))) a = load32 (store32 0 v no_bytes) 0"
    unfolding dword_def by (rule load32_cong) (simp_all add: dput_def)
  then show ?thesis by simp
qed

text \<open>The inode that is left on the device.\<close>

definition inode_image :: "slfs_file \<Rightarrow> mem \<Rightarrow> mem" where
  "inode_image pf inode = for_upto SLFS_FNAME_LEN (\<lambda>j b. b(24 + of_nat j := fname pf (of_nat j)))
     (store32 12 (datablk_addr pf) (store32 16 (fd pf) (store32 0 (inode_idx pf) (store32 8 (file_size pf) inode))))"

lemma inode_image_name:
  assumes "j < 16" shows "inode_image pf inode (24 + of_nat j) = fname pf (of_nat j)"
proof -
  have "for_upto n (\<lambda>j b. b(24 + of_nat j := fname pf (of_nat j))) b (24 + of_nat j) = fname pf (of_nat j)"
    if "j < n" "n \<le> 16" for n and b :: mem
    using that by (induction n) (auto simp: less_Suc_eq of_nat_u32_eq)
  from this [OF assms] show ?thesis by (simp add: inode_image_def SLFS_FNAME_LEN_def)
qed

lemma inode_image_below:
  assumes "unat a < 24"
  shows "inode_image pf inode a =
    (store32 12 (datablk_addr pf) (store32 16 (fd pf) (store32 0 (inode_idx pf) (store32 8 (file_size pf) inode)))) a"
proof -
  have "for_upto n (\<lambda>j b. b(24 + of_nat j := fname pf (of_nat j))) b a = b a" if "n \<le> 16" for n and b :: mem
    using that
  proof (induction n)
    case (Suc n)
    have "unat (24 + of_nat n :: u32) = 24 + n" using unat_of_nat_u32 [of "24 + n"] Suc.prems by simp
    then have "a \<noteq> 24 + of_nat n" using assms by auto
    then show ?case using Suc by simp
  qed simp
  then show ?thesis by (simp add: inode_image_def SLFS_FNAME_LEN_def)
qed

lemma load32_congI:
  assumes "\<And>i. i < 4 \<Longrightarrow> m (p + of_nat i) = m' (q + of_nat i)"
  shows "load32 m p = load32 m' q"
  using assms [of 0] assms [of 1] assms [of 2] assms [of 3] by (intro load32_cong) simp_all

lemma store32_apart:
  "load32 (store32 12 v m) 0 = load32 m 0" "load32 (store32 16 v m) 0 = load32 m 0" "load32 (store32 12 v m) 8 = load32 m 8"
  "load32 (store32 16 v m) 8 = load32 m 8" "load32 (store32 0 v m) 8 = load32 m 8" "load32 (store32 12 v m) 16 = load32 m 16"
  by (rule load32_cong; simp add: store32_def)+

lemma inode_image_words:
  "load32 (inode_image pf inode) 0 = inode_idx pf" "load32 (inode_image pf inode) 8 = file_size pf"
  "load32 (inode_image pf inode) 12 = datablk_addr pf" "load32 (inode_image pf inode) 16 = fd pf"
proof -
  let ?b = "store32 12 (datablk_addr pf) (store32 16 (fd pf) (store32 0 (inode_idx pf) (store32 8 (file_size pf) inode)))"
  have w: "load32 (inode_image pf inode) (of_nat c) = load32 ?b (of_nat c)" if "c + 4 \<le> 24" for c
  proof (rule load32_congI)
    fix i :: nat
    assume "i < 4"
    then have "unat (of_nat c + of_nat i :: u32) < 24" using unat_of_nat_u32 [of "c + i"] that by simp
    then show "inode_image pf inode (of_nat c + of_nat i) = ?b (of_nat c + of_nat i)" by (rule inode_image_below)
  qed
  show "load32 (inode_image pf inode) 0 = inode_idx pf" "load32 (inode_image pf inode) 8 = file_size pf"
    "load32 (inode_image pf inode) 12 = datablk_addr pf" "load32 (inode_image pf inode) 16 = fd pf"
    using w [of 0] w [of 8] w [of 12] w [of 16] by (simp_all add: store32_apart)
qed

lemma write_inode_on:
  assumes "on_disk s D" and "idx < 32" and "inode_idx pf = of_nat idx"
  obtains s' D' where "write_inode pf inode s = (NO_ERR, s')" "on_disk s' D'" "\<And>x. x \<notin> ino_words idx \<Longrightarrow> D' x = D x"
    "\<And>y. y < 56 \<Longrightarrow> D' (ino idx + y) = inode_image pf inode (of_nat y)"
proof -
  have sz: "SLFS_INODE_SIZE = of_nat 56" by (simp add: slfs_consts)
  let ?b1 = "store32 8 (file_size pf) inode"
  let ?b2 = "store32 12 (datablk_addr pf) (store32 16 (fd pf) (store32 0 (inode_idx pf) ?b1))"
  let ?b3 = "for_upto SLFS_FNAME_LEN (\<lambda>j b. b(24 + of_nat j := fname pf (of_nat j))) ?b2"
  obtain s1 where s1: "wrbuf (inode_at (of_nat idx) + of_nat 0) (of_nat 56) ?b1 s = (NO_ERR, s1)"
    "on_disk s1 (dput D (ino idx + 0) 56 (\<lambda>x. ?b1 (of_nat x)))"
    by (rule write_ino [OF assms(1,2), of 0 56]) simp_all
  obtain s2 where s2: "wrbuf (inode_at (of_nat idx) + of_nat 0) (of_nat 56) ?b3 s1 = (NO_ERR, s2)"
    "on_disk s2 (dput (dput D (ino idx + 0) 56 (\<lambda>x. ?b1 (of_nat x))) (ino idx + 0) 56 (\<lambda>x. ?b3 (of_nat x)))"
    by (rule write_ino [OF s1(2) assms(2), of 0 56]) simp_all
  show ?thesis
  proof (rule that [OF _ s2(2)])
    show "write_inode pf inode s = (NO_ERR, s2)"
      using s1(1) s2(1) by (simp add: write_inode_def Let_def sz assms(3))
    show "dput (dput D (ino idx + 0) 56 (\<lambda>x. ?b1 (of_nat x))) (ino idx + 0) 56 (\<lambda>x. ?b3 (of_nat x)) x = D x"
      if "x \<notin> ino_words idx" for x
      using that dput_ino_same [of x idx 0 56] by simp
    show "dput (dput D (ino idx + 0) 56 (\<lambda>x. ?b1 (of_nat x))) (ino idx + 0) 56 (\<lambda>x. ?b3 (of_nat x)) (ino idx + y)
        = inode_image pf inode (of_nat y)" if "y < 56" for y
      using that by (simp add: dput_def inode_image_def)
  qed
qed

lemma write_close_on:
  assumes "on_disk s D" and "idx < 32" and "inode_idx pf = of_nat idx"
  obtains s' D' where "write_close pf s = (NO_ERR, s')" "on_disk s' D'" "\<And>x. x \<notin> {ino idx + 4..<ino idx + 8} \<Longrightarrow> D' x = D x"
    "dword D' (ino idx + 4) = update_cnt pf"
proof -
  let ?f = "store32 0 (update_cnt pf) no_bytes"
  obtain s1 where s1: "wrbuf (inode_at (of_nat idx) + of_nat 4) (of_nat 4) ?f s = (NO_ERR, s1)"
    "on_disk s1 (dput D (ino idx + 4) 4 (\<lambda>x. ?f (of_nat x)))"
    by (rule write_ino [OF assms(1,2), of 4 4]) simp_all
  show ?thesis
  proof (rule that [OF _ s1(2)])
    show "write_close pf s = (NO_ERR, s1)" using s1(1) by (simp add: write_close_def assms(3))
    show "dput D (ino idx + 4) 4 (\<lambda>x. ?f (of_nat x)) x = D x" if "x \<notin> {ino idx + 4..<ino idx + 8}" for x
      using that by (auto simp: dput_def)
    show "dword (dput D (ino idx + 4) 4 (\<lambda>x. ?f (of_nat x))) (ino idx + 4) = update_cnt pf" by (rule dword_dput_word)
  qed
qed

section \<open>The round trip\<close>

text \<open>A file on the device: the inode \<open>idx\<close> describes it, and its \<open>k\<close> blocks start at block \<open>b\<close>.\<close>

definition file_on :: "disk \<Rightarrow> nat \<Rightarrow> nat \<Rightarrow> nat \<Rightarrow> slfs_file \<Rightarrow> bool" where
  "file_on D idx b k f \<longleftrightarrow>
     dword D (ino idx) = inode_idx f \<and> dword D (ino idx + 4) = update_cnt f \<and> dword D (ino idx + 8) = file_size f
     \<and> dword D (ino idx + 12) = datablk_addr f \<and> dword D (ino idx + 16) = fd f
     \<and> (\<forall>j < 16. D (ino idx + (24 + j)) = fname f (of_nat j))
     \<and> datablk_addr f = of_nat (blk b) \<and> blk_chain D b k \<and> dword D (blk (b + (k - 1)) + 508) = 0"

lemma dword_image:
  assumes "\<And>y. y < 56 \<Longrightarrow> D (ino idx + y) = inode_image pf inode (of_nat y)" and "c + 4 \<le> 56"
  shows "dword D (ino idx + c) = load32 (inode_image pf inode) (of_nat c)"
  unfolding dword_def
proof (rule load32_congI)
  fix i :: nat
  assume "i < 4"
  then show "D (ino idx + c + unat (0 + of_nat i :: u32)) = inode_image pf inode (of_nat c + of_nat i)"
    using assms(1) [of "c + i"] assms(2) by (simp add: unat_of_nat_u32 add.assoc)
qed

text \<open>Writing a new file.\<close>

lemma slfs_write_new:
  assumes "on_disk s D"
    and "idx < 32" and "dword D (ino idx + 8) = MINUS_ONE" and "\<And>i. i < idx \<Longrightarrow> dword D (ino i + 8) \<noteq> MINUS_ONE"
    and "open_cnt f \<noteq> 0" and "file_size f = 0" and "pos f = 0"
    and "0 < unat n" and "k = (unat n - 1) div 504 + 1" and "b + k \<le> 8184"
    and "\<And>t. t < b \<Longrightarrow> \<not> free_blk D t" and "\<And>t. b \<le> t \<Longrightarrow> t < b + k \<Longrightarrow> free_blk D t"
  obtains f' s' D' where "slfs_write (Some f) (Some buf) n inode junk s = Some (NO_ERR, Some f', s')"
    "f' = f\<lparr>file_size := n, inode_idx := of_nat idx, update_cnt := update_cnt f + 1,
      fd := (if fd f = MINUS_ONE then of_nat idx else fd f), datablk_addr := of_nat (blk b), allocedblk_num := of_nat k\<rparr>"
    "on_disk s' D'" "file_on D' idx b k f'" "\<And>i. i < unat n \<Longrightarrow> file_byte D' b i = buf (of_nat i)"
    "\<And>x. x \<notin> ino_words idx \<Longrightarrow> x < blk b \<or> blk (b + k) \<le> x \<Longrightarrow> D' x = D x"
proof -
  have n0: "n \<noteq> 0" using assms(8) by auto
  let ?f0 = "f\<lparr>file_size := n\<rparr>"
  let ?f1 = "?f0\<lparr>inode_idx := of_nat idx, update_cnt := update_cnt ?f0 + 1,
      fd := (if fd ?f0 = MINUS_ONE then of_nat idx else fd ?f0)\<rparr>"
  let ?f2 = "?f1\<lparr>datablk_addr := of_nat (blk b), allocedblk_num := of_nat k\<rparr>"
  obtain s1 where s1: "update_fp ?f0 s = (NO_ERR, ?f1, s1)" "on_disk s1 D"
    using update_fp_free [OF assms(1-4)] by metis
  obtain s2 D2 where s2: "alloc_datablk ?f1 n s1 = (NO_ERR, ?f2, s2)" "on_disk s2 D2" "blk_chain D2 b k"
    "dword D2 (blk (b + (k - 1)) + 508) = 0" "\<And>x. x \<notin> ino_words idx \<Longrightarrow> x \<notin> tails b k \<Longrightarrow> D2 x = D x"
    by (rule alloc_fresh [OF s1(2) assms(2), of ?f1 n k b])
      (use assms(7-12) in \<open>simp_all add: blks_needed_eq [OF assms(8)]\<close>)
  obtain s3 D3 where s3: "write_inode ?f2 inode s2 = (NO_ERR, s3)" "on_disk s3 D3" "\<And>x. x \<notin> ino_words idx \<Longrightarrow> D3 x = D2 x"
    "\<And>y. y < 56 \<Longrightarrow> D3 (ino idx + y) = inode_image ?f2 inode (of_nat y)"
    by (rule write_inode_on [OF s2(2) assms(2), of ?f2 inode]) simp_all
  have above: "x \<notin> ino_words idx" if "0x1000 \<le> x" for x
    using that ino_below [OF assms(2)] by (auto simp: ino_words_def)
  have c3: "blk_chain D3 b k"
    using s2(3) s3(3) above by (subst blk_chain_cong [of b k _ D2]) (auto simp: tails_def blk_def)
  obtain s4 D4 where s4: "write_new_loop (of_nat (blk b)) 0 n buf s3 = (NO_ERR, s4)" "on_disk s4 D4"
    "\<And>x. x < unat n \<Longrightarrow> file_byte D4 b x = buf (0 + of_nat x)" "\<And>y. y \<notin> payloads b k \<Longrightarrow> D4 y = D3 y"
    by (rule write_new_data [OF s3(2) c3 assms(8,9,10), of 0 buf]) simp_all
  obtain s5 D5 where s5: "write_close ?f2 s4 = (NO_ERR, s5)" "on_disk s5 D5"
    "\<And>x. x \<notin> {ino idx + 4..<ino idx + 8} \<Longrightarrow> D5 x = D4 x" "dword D5 (ino idx + 4) = update_cnt ?f2"
    by (rule write_close_on [OF s4(2) assms(2), of ?f2]) simp_all
  have upper: "D5 x = D4 x" if "0x1000 \<le> x" for x
    using above [OF that] by (intro s5(3)) (auto simp: ino_words_def)
  have tail: "D5 x = D3 x" if "x \<in> tails b k" for x
  proof -
    have "x \<notin> payloads b k" "0x1000 \<le> x" using tails_outside [OF that] that by (auto simp: payloads_def tails_def blk_def)
    then show ?thesis using s4(4) upper by simp
  qed
  have c5: "blk_chain D5 b k" using blk_chain_cong [of b k D5 D3] c3 tail by simp
  have k: "0 < k" using assms(9) by simp
  have "dword D5 (blk (b + (k - 1)) + 508) = dword D3 (blk (b + (k - 1)) + 508)"
    using k by (intro dword_cong tail) (auto simp: tails_def blk_def intro!: bexI [of _ "b + (k - 1)"])
  also have "\<dots> = dword D2 (blk (b + (k - 1)) + 508)"
    using above by (intro dword_cong s3(3)) (auto simp: blk_def)
  finally have last: "dword D5 (blk (b + (k - 1)) + 508) = 0" using s2(4) by simp
  have ino3: "D5 (ino idx + y) = D3 (ino idx + y)" if "y < 56" "y < 4 \<or> 8 \<le> y" for y
  proof -
    have "ino idx + y \<notin> payloads b k" using ino_below [OF assms(2)] that(1) by (auto simp: payloads_def blk_def)
    then show ?thesis using s5(3) [of "ino idx + y"] s4(4) that by auto
  qed
  have words: "dword D5 (ino idx + c) = load32 (inode_image ?f2 inode) (of_nat c)" if "c + 4 \<le> 56" "c = 0 \<or> 8 \<le> c" for c
  proof -
    have "dword D5 (ino idx + c) = dword D3 (ino idx + c)"
    proof (rule dword_cong)
      fix x
      assume x: "ino idx + c \<le> x" "x < ino idx + c + 4"
      then have "x = ino idx + (x - ino idx)" "x - ino idx < 56" "x - ino idx < 4 \<or> 8 \<le> x - ino idx"
        using that by linarith+
      then show "D5 x = D3 x" using ino3 by metis
    qed
    then show ?thesis using dword_image [OF s3(4) that(1)] by simp
  qed
  show ?thesis
  proof (rule that [of ?f2 s5 D5, OF _ _ s5(2)])
    show "?f2 = f\<lparr>file_size := n, inode_idx := of_nat idx, update_cnt := update_cnt f + 1,
      fd := (if fd f = MINUS_ONE then of_nat idx else fd f), datablk_addr := of_nat (blk b), allocedblk_num := of_nat k\<rparr>"
      by simp
    show "slfs_write (Some f) (Some buf) n inode junk s = Some (NO_ERR, Some ?f2, s5)"
      using assms(5,6) n0 s1(1) s2(1) s3(1) s4(1) s5(1)
      by (simp add: slfs_write_def write_file_def Let_def acquire_inode_def acquire_blks_def)
    have "D5 (ino idx + (24 + j)) = fname ?f2 (of_nat j)" if "j < 16" for j
      using that ino3 [of "24 + j"] s3(4) [of "24 + j"] inode_image_name [OF that, of ?f2 inode] by simp
    then show "file_on D5 idx b k ?f2"
      unfolding file_on_def using words [of 0] words [of 8] words [of 12] words [of 16] s5(4) c5 last
      by (simp add: inode_image_words)
    show "file_byte D5 b i = buf (of_nat i)" if "i < unat n" for i
      using s4(3) [OF that] upper [of "blk (b + i div 504) + i mod 504"] by (simp add: file_byte_def blk_def)
    show "D5 x = D x" if "x \<notin> ino_words idx" "x < blk b \<or> blk (b + k) \<le> x" for x
    proof -
      have "x \<notin> tails b k" "x \<notin> payloads b k" using that(2) by (auto simp: tails_def payloads_def blk_def)
      moreover have "x \<notin> {ino idx + 4..<ino idx + 8}" using that(1) by (auto simp: ino_words_def)
      ultimately show ?thesis using that(1) s2(5) s3(3) s4(4) s5(3) by simp
    qed
  qed
qed

text \<open>A new file, written and read.\<close>

lemma slfs_write_read:
  assumes "on_disk s D"
    and "idx < 32" and "dword D (ino idx + 8) = MINUS_ONE" and "\<And>i. i < idx \<Longrightarrow> dword D (ino i + 8) \<noteq> MINUS_ONE"
    and "open_cnt f \<noteq> 0" and "file_size f = 0" and "pos f = 0"
    and "0 < unat n" and "k = (unat n - 1) div 504 + 1" and "b + k \<le> 8184"
    and "\<And>t. t < b \<Longrightarrow> \<not> free_blk D t" and "\<And>t. b \<le> t \<Longrightarrow> t < b + k \<Longrightarrow> free_blk D t"
  shows "\<exists>f' s' D'. slfs_write (Some f) (Some buf) n inode junk s = Some (NO_ERR, Some f', s')
    \<and> on_disk s' D' \<and> file_size f' = n
    \<and> (\<forall>x. x \<notin> ino_words idx \<and> (x < blk b \<or> blk (b + k) \<le> x) \<longrightarrow> D' x = D x)
    \<and> (\<exists>buf'. slfs_read f' (Some buf0) n s' = (NO_ERR, Some buf') \<and> (\<forall>i < unat n. buf' (of_nat i) = buf (of_nat i)))"
proof -
  obtain f' s' D' where wr: "slfs_write (Some f) (Some buf) n inode junk s = Some (NO_ERR, Some f', s')"
    and f': "f' = f\<lparr>file_size := n, inode_idx := of_nat idx, update_cnt := update_cnt f + 1,
      fd := (if fd f = MINUS_ONE then of_nat idx else fd f), datablk_addr := of_nat (blk b), allocedblk_num := of_nat k\<rparr>"
    and w: "on_disk s' D'" "file_on D' idx b k f'" "\<And>i. i < unat n \<Longrightarrow> file_byte D' b i = buf (of_nat i)"
    "\<And>x. x \<notin> ino_words idx \<Longrightarrow> x < blk b \<or> blk (b + k) \<le> x \<Longrightarrow> D' x = D x"
    by (rule slfs_write_new [OF assms, of buf inode junk]) (assumption | rule that)+
  have n: "file_size f' = n" "pos f' = 0" unfolding f' using assms(7) by simp_all
  have c: "blk_chain D' b k" "datablk_addr f' = of_nat (blk b)" using w(2) by (simp_all add: file_on_def)
  obtain buf' where read: "slfs_read f' (Some buf0) n s' = (NO_ERR, Some buf')"
    and fill: "filled buf0 0 (unat n) (\<lambda>x. file_byte D' b (unat (pos f') + x)) buf'"
    by (rule read_file_at [OF w(1) c(1) assms(8,9,10) n(1) _ c(2), of n buf0]) (use n(2) in simp_all)
  have "buf' (of_nat i) = buf (of_nat i)" if "i < unat n" for i
    using filledD [OF fill, of i] w(3) [OF that] that unsigned_less [where ?'a = nat, of n] n(2) by simp
  then show ?thesis using wr w(1,4) n(1) read by auto
qed

text \<open>C7. Writing \<open>n\<close> bytes to a new file, on a device with a free inode and enough free blocks, succeeds;
  reading the file gives the bytes back. On the device only the inode and the blocks taken change, so
  that every other file keeps its contents.\<close>

theorem slfs_write_read_roundtrip:
  assumes "on_disk s D"
    and "idx < 32" and "dword D (ino idx + 8) = MINUS_ONE" and "\<And>i. i < idx \<Longrightarrow> dword D (ino i + 8) \<noteq> MINUS_ONE"
    and "open_cnt f \<noteq> 0" and "file_size f = 0" and "pos f = 0"
    and "0 < unat n" and "k = (unat n - 1) div 504 + 1" and "b + k \<le> 8184"
    and "\<And>t. t < b \<Longrightarrow> \<not> free_blk D t" and "\<And>t. b \<le> t \<Longrightarrow> t < b + k \<Longrightarrow> free_blk D t"
  shows "\<exists>f' s' D'. slfs_write (Some f) (Some buf) n inode junk s = Some (NO_ERR, Some f', s')
    \<and> on_disk s' D' \<and> file_size f' = n
    \<and> (\<forall>x. x \<notin> ino_words idx \<and> (x < blk b \<or> blk (b + k) \<le> x) \<longrightarrow> D' x = D x)
    \<and> (\<exists>buf'. slfs_read f' (Some buf0) n s' = (NO_ERR, Some buf') \<and> (\<forall>i < unat n. buf' (of_nat i) = buf (of_nat i)))"
  by (rule slfs_write_read [OF assms])

text \<open>An erased device has room for any file: two bytes written to it.\<close>

lemma dword_erased: "dword (\<lambda>_. 255) a = MINUS_ONE"
  by (simp add: dword_def load32_def MINUS_ONE_def)

definition new_file :: slfs_file where
  "new_file = \<lparr>fd = MINUS_ONE, pos = 0, file_size = 0, open_cnt = 1, datablk_addr = MINUS_ONE, inode_idx = 0,
     allocedblk_num = 0, update_cnt = 0, fname = no_bytes\<rparr>"

definition erased_dev :: slfs where
  "erased_dev = \<lparr>fmem = \<lambda>_. 255, page_load_data = no_bytes, superblk = no_bytes\<rparr>"

theorem slfs_write_read_roundtrip_witness:
  "\<exists>f' s' D'. slfs_write (Some new_file) (Some (\<lambda>i. 7)) 600 no_bytes 0 erased_dev = Some (NO_ERR, Some f', s')
    \<and> on_disk s' D' \<and> file_size f' = 600
    \<and> (\<forall>x. x \<notin> ino_words 0 \<and> (x < blk 0 \<or> blk (0 + 2) \<le> x) \<longrightarrow> D' x = 255)
    \<and> (\<exists>buf'. slfs_read f' (Some no_bytes) 600 s' = (NO_ERR, Some buf') \<and> (\<forall>i < unat (600 :: u32). buf' (of_nat i) = 7))"
proof -
  have od: "on_disk erased_dev (\<lambda>_. 255)" by (simp add: on_disk_def erased_dev_def dsk_def)
  show ?thesis
    by (rule slfs_write_read_roundtrip [OF od, of 0 new_file 600 2 0 "\<lambda>_. 7" no_bytes 0 no_bytes])
      (simp_all add: dword_erased free_blk_def new_file_def)
qed

end
