(* ===== verification/SlfsMount.thy ===== *)
theory SlfsMount
  imports SlfsRw
begin

unbundle bit_operations_syntax

text \<open>
  Whole pages and mounting: a page written through the swap page ends up on the device with every other
  page as it was, and the mount, which succeeds only when a copy of the superblock in memory that nothing
  ever loads carries the magic string.
\<close>

section \<open>Pages\<close>

definition page_at :: "nat \<Rightarrow> nat" where "page_at p = 4096 * p"

lemma erpage_on:
  assumes "on_disk s D" and "p < 1024"
  obtains s' where "erpage (of_nat p) s = (NO_ERR, s')" "on_disk s' (dput D (page_at p) 4096 (\<lambda>_. 0xFF))"
    "page_load_data s' = page_load_data s" "superblk s' = superblk s"
proof -
  have u: "unat (of_nat p :: u32) = p" by (rule unat_of_nat_u32) (use assms(2) in simp)
  obtain r m where e: "erase_ramdisk_page (of_nat p) (fmem s) = (r, m)" by fastforce
  then have r: "r = NO_ERR" using rd.erase_ok [of "of_nat p" "fmem s"] u assms(2) by simp
  have "on_disk (s\<lparr>fmem := m\<rparr>) (dput D (page_at p) 4096 (\<lambda>_. 0xFF))"
    using assms rd.erase_byte [of "of_nat p" _ "fmem s"] e u by (auto simp: on_disk_def dput_def page_at_def mult.commute)
  then show ?thesis using that [of "s\<lparr>fmem := m\<rparr>"] e r by (simp add: erpage_def)
qed

lemma dput_append:
  "dput (dput D a m f) (a + m) n (\<lambda>i. f (m + i)) = dput D a (m + n) f"
  by (rule ext) (auto simp: dput_def)

lemma dput_0 [simp]: "dput D a 0 f = D"
  by (rule ext) (auto simp: dput_def)

lemma dput_cong: "(\<And>i. i < n \<Longrightarrow> f i = g i) \<Longrightarrow> dput D a n f = dput D a n g"
  by (rule ext) (auto simp: dput_def)

text \<open>The copy of a stretch, chunk by chunk, between two places that do not overlap.\<close>

lemma copy_loop_on:
  assumes "on_disk s D" and "dst + off + n \<le> 0x400000" and "src + off + n \<le> 0x400000"
    and "dst + off + n \<le> src \<or> src + off + n \<le> dst"
  obtains s' where "copy_loop (of_nat dst) (of_nat src) (of_nat off) (of_nat n) s = (NO_ERR, s')"
    "on_disk s' (dput D (dst + off) n (\<lambda>i. D (src + off + i)))"
    "page_load_data s' = page_load_data s" "superblk s' = superblk s"
  using assms
proof (induction n arbitrary: off s D thesis rule: less_induct)
  case (less n)
  show ?case
  proof (cases "n = 0")
    case True
    then show ?thesis using less.prems(2) by (intro less.prems(1) [of s]) (simp_all add: copy_loop.simps)
  next
    case False
    define c where "c = min n 512"
    have c: "0 < c" "c \<le> n" using False by (simp_all add: c_def)
    have un: "unat (of_nat n :: u32) = n" by (rule unat_of_nat_u32) (use less.prems in simp)
    have chunk: "copy_chunk (of_nat n) = of_nat c"
      using un by (simp add: copy_chunk_def c_def slfs_consts word_less_nat_alt min_def)
    have uc: "unat (of_nat c :: u32) = c" by (rule unat_of_nat_u32) (use less.prems c in simp)
    have us: "unat (of_nat (src + off) :: u32) = src + off" "unat (of_nat (dst + off) :: u32) = dst + off"
      by (rule unat_of_nat_u32, use less.prems in simp)+
    obtain b where b: "rdbuf (of_nat (src + off)) (of_nat c) s = (NO_ERR, b)" "\<And>i. i < c \<Longrightarrow> b (of_nat i) = D (src + off + i)"
      using rdbuf_on [OF less.prems(2), of "of_nat (src + off)" "of_nat c"] us uc less.prems(4) c by auto
    obtain s1 where s1: "wrbuf (of_nat (dst + off)) (of_nat c) b s = (NO_ERR, s1)"
      "on_disk s1 (dput D (dst + off) c (\<lambda>i. b (of_nat i)))" "page_load_data s1 = page_load_data s" "superblk s1 = superblk s"
      using wrbuf_on [OF less.prems(2), of "of_nat (dst + off)" "of_nat c" b] us uc less.prems(3) c by auto
    let ?D1 = "dput D (dst + off) c (\<lambda>i. D (src + off + i))"
    have d1: "on_disk s1 ?D1" using s1(2) b(2) dput_cong [of c "\<lambda>i. b (of_nat i)" "\<lambda>i. D (src + off + i)"] by simp
    obtain s2 where s2: "copy_loop (of_nat dst) (of_nat src) (of_nat (off + c)) (of_nat (n - c)) s1 = (NO_ERR, s2)"
      "on_disk s2 (dput ?D1 (dst + (off + c)) (n - c) (\<lambda>i. ?D1 (src + (off + c) + i)))"
      "page_load_data s2 = page_load_data s1" "superblk s2 = superblk s1"
      by (rule less.IH [of "n - c" "off + c" s1 ?D1]) (use c d1 less.prems in auto)
    have "dput ?D1 (dst + (off + c)) (n - c) (\<lambda>i. ?D1 (src + (off + c) + i))
        = dput ?D1 (dst + off + c) (n - c) (\<lambda>i. D (src + off + (c + i)))"
      using less.prems(5) c by (subst dput_cong [where g = "\<lambda>i. D (src + off + (c + i))"]) (auto simp: dput_def add.assoc)
    also have "\<dots> = dput D (dst + off) n (\<lambda>i. D (src + off + i))"
      using dput_append [of D "dst + off" c "\<lambda>i. D (src + off + i)" "n - c"] c by simp
    finally have disk: "on_disk s2 (dput D (dst + off) n (\<lambda>i. D (src + off + i)))" using s2(2) by simp
    have pos: "0 < (of_nat n :: u32)" using un False by (simp add: word_less_nat_alt)
    have "copy_loop (of_nat dst) (of_nat src) (of_nat off) (of_nat n) s = (NO_ERR, s2)"
      using pos chunk b(1) s1(1) s2(1) c by (subst copy_loop.simps) (simp add: Let_def)
    then show ?thesis using disk s1 s2 by (intro less.prems(1) [of s2]) simp_all
  qed
qed

section \<open>A page write\<close>

definition garbage_word :: nat where "garbage_word = 1984"

lemma record_garbage_on:
  assumes "on_disk s D"
  obtains s' D' where "record_garbage q s = (NO_ERR, s')" "on_disk s' D'"
    "\<And>x. x < garbage_word \<or> garbage_word + 4 \<le> x \<Longrightarrow> D' x = D x"
    "page_load_data s' = page_load_data s" "superblk s' = superblk s"
proof -
  have c: "SLFS_GARBAGE_PAGE_TAB_START = 1984" "SLFS_GARBAGE_PAGE_TAB_SIZE = 4" "SLFS_GARBAGE_PAGE_TAB_MAX_CNT = 1"
    by (simp_all add: slfs_consts)
  obtain tab where tab: "rdbuf 1984 4 s = (NO_ERR, tab)" using rdbuf_on [OF assms, of 1984 4] by auto
  let ?tab = "store32 0 (push_bit SLFS_PAGE_SIZE_SHIFT q) tab"
  obtain s1 where s1: "wrbuf 1984 4 ?tab s = (NO_ERR, s1)" "on_disk s1 (dput D 1984 4 (\<lambda>i. ?tab (of_nat i)))"
    "page_load_data s1 = page_load_data s" "superblk s1 = superblk s"
    using wrbuf_on [OF assms, of 1984 4 ?tab] by auto
  show ?thesis
  proof (cases "load32 tab 0 = MINUS_ONE")
    case True
    then show ?thesis using tab s1
      by (intro that [of s1 "dput D 1984 4 (\<lambda>i. ?tab (of_nat i))"]) (auto simp: record_garbage_def c dput_def garbage_word_def)
  next
    case False
    then show ?thesis using tab assms by (intro that [of s D]) (simp_all add: record_garbage_def c)
  qed
qed

lemma backup_page_on:
  assumes "on_disk s D" and "p < 1023"
  obtains s' D' where "backup_page (of_nat p) s = (NO_ERR, s')" "on_disk s' D'"
    "\<And>i. i < 4096 \<Longrightarrow> D' (page_at 1023 + i)
       = (if p = 0 \<and> 4092 \<le> i then 0 else page_load_data s (of_nat i))"
    "\<And>x. x < page_at 1023 \<Longrightarrow> p = 0 \<or> x < garbage_word \<or> garbage_word + 4 \<le> x \<Longrightarrow> D' x = D x"
    "superblk s' = superblk s"
proof -
  let ?s1 = "if p = 0 then s\<lparr>page_load_data := store32 4092 0 (page_load_data s)\<rparr> else s"
  have p0: "of_nat p = (0 :: u32) \<longleftrightarrow> p = 0" using of_nat_u32_eq [of p 0] assms(2) by simp
  have od: "on_disk ?s1 D" using assms(1) by (simp add: on_disk_def)
  have sb: "superblk ?s1 = superblk s" by simp
  have c: "SLFS_SWAP_PAGE_START = 4190208" "SLFS_PAGE_SIZE = 4096" "SLFS_METADATA_PAGE_IDX = 0" by (simp_all add: slfs_consts)
  obtain s2 where s2: "wrbuf 4190208 4096 (page_load_data ?s1) ?s1 = (NO_ERR, s2)"
    "on_disk s2 (dput D 4190208 4096 (\<lambda>i. page_load_data ?s1 (of_nat i)))" "superblk s2 = superblk s"
    using wrbuf_on [OF od, of 4190208 4096 "page_load_data ?s1"] unfolding sb by auto
  let ?D2 = "dput D 4190208 4096 (\<lambda>i. page_load_data ?s1 (of_nat i))"
  have data: "page_load_data ?s1 (of_nat i) = (if p = 0 \<and> 4092 \<le> i then 0 else page_load_data s (of_nat i))" if "i < 4096" for i
  proof -
    have "of_nat i = (of_nat k :: u32) \<longleftrightarrow> i = k" if "k < 4096" for k using of_nat_u32_eq [of i k] \<open>i < 4096\<close> that by simp
    from this [of 4092] this [of 4093] this [of 4094] this [of 4095] that show ?thesis
      by (auto simp: store32_def)
  qed
  have D2: "?D2 (page_at 1023 + i) = (if p = 0 \<and> 4092 \<le> i then 0 else page_load_data s (of_nat i))" if "i < 4096" for i
    using data [OF that] that by (simp add: dput_def page_at_def)
  have lo: "?D2 x = D x" if "x < page_at 1023" for x using that by (simp add: dput_def page_at_def)
  show ?thesis
  proof (cases "p = 0")
    case True
    have "backup_page (of_nat p) s = (NO_ERR, s2)" using True s2(1) by (simp add: backup_page_def c)
    then show ?thesis using that [OF _ s2(2)] D2 lo s2(3) by blast
  next
    case False
    obtain s3 D3 where s3: "record_garbage (of_nat p) s2 = (NO_ERR, s3)" "on_disk s3 D3"
      "\<And>x. x < garbage_word \<or> garbage_word + 4 \<le> x \<Longrightarrow> D3 x = ?D2 x" "superblk s3 = superblk s2"
      by (rule record_garbage_on [OF s2(2), of "of_nat p"]) (rule that)
    have "backup_page (of_nat p) s = (NO_ERR, s3)" using False p0 s2(1) s3(1) by (simp add: backup_page_def c)
    moreover have "D3 (page_at 1023 + i) = page_load_data s (of_nat i)" if "i < 4096" for i
      using s3(3) [of "page_at 1023 + i"] D2 [OF that] False by (simp add: garbage_word_def page_at_def)
    ultimately show ?thesis using that [OF _ s3(2)] s3(3,4) s2(3) lo False by simp
  qed
qed

text \<open>C25. A page write puts the page buffer on the page, leaves the swap page erased, and changes nothing else
  on the device but the entry of the garbage page table; of the metadata page the last word is the mark of the
  swap page, 0.\<close>

theorem rw_page_writes_page:
  assumes "on_disk s D" and "p < 1023"
  shows "\<exists>s' D'. rw_page (of_nat p) True s = (NO_ERR, s') \<and> on_disk s' D'
    \<and> (\<forall>i < 4096. D' (page_at p + i) = (if p = 0 \<and> 4092 \<le> i then 0 else page_load_data s (of_nat i)))
    \<and> (\<forall>i < 4096. D' (page_at 1023 + i) = 0xFF)
    \<and> (\<forall>x < page_at 1023. (x < page_at p \<or> page_at p + 4096 \<le> x) \<and> (x < garbage_word \<or> garbage_word + 4 \<le> x)
        \<longrightarrow> D' x = D x)
    \<and> superblk s' = superblk s"
proof -
  have up: "unat (of_nat p :: u32) = p" by (rule unat_of_nat_u32) (use assms(2) in simp)
  have c: "SLFS_SWAP_PAGE_IDX = of_nat 1023" "SLFS_PAGE_CNT = of_nat 1024" "SLFS_SWAP_PAGE_START = of_nat (page_at 1023)"
    "SLFS_PAGE_SIZE = of_nat 4096"
    by (simp_all add: slfs_consts page_at_def)
  have cnt: "\<not> (of_nat p :: u32) \<ge> SLFS_PAGE_CNT" using assms(2) up by (simp add: word_le_nat_alt slfs_consts)
  have shift: "push_bit SLFS_PAGE_SIZE_SHIFT (of_nat p) = (of_nat (page_at p) :: u32)"
    by (simp add: slfs_consts push_bit_eq_mult page_at_def)
  obtain s1 where s1: "erpage (of_nat 1023) s = (NO_ERR, s1)" "on_disk s1 (dput D (page_at 1023) 4096 (\<lambda>_. 0xFF))"
    "page_load_data s1 = page_load_data s" "superblk s1 = superblk s"
    by (rule erpage_on [OF assms(1), of 1023]) simp_all
  obtain s2 D2 where s2: "backup_page (of_nat p) s1 = (NO_ERR, s2)" "on_disk s2 D2"
    "\<And>i. i < 4096 \<Longrightarrow> D2 (page_at 1023 + i) = (if p = 0 \<and> 4092 \<le> i then 0 else page_load_data s1 (of_nat i))"
    "\<And>x. x < page_at 1023 \<Longrightarrow> p = 0 \<or> x < garbage_word \<or> garbage_word + 4 \<le> x
      \<Longrightarrow> D2 x = dput D (page_at 1023) 4096 (\<lambda>_. 0xFF) x" "superblk s2 = superblk s1"
    by (rule backup_page_on [OF s1(2) assms(2)]) (rule that)
  obtain s3 where s3: "erpage (of_nat p) s2 = (NO_ERR, s3)" "on_disk s3 (dput D2 (page_at p) 4096 (\<lambda>_. 0xFF))"
    "superblk s3 = superblk s2"
    by (rule erpage_on [OF s2(2), of p]) (use assms(2) in simp_all)
  let ?D3 = "dput D2 (page_at p) 4096 (\<lambda>_. 0xFF)"
  obtain s4 where s4: "copy_loop (of_nat (page_at p)) (of_nat (page_at 1023)) (of_nat 0) (of_nat 4096) s3 = (NO_ERR, s4)"
    "on_disk s4 (dput ?D3 (page_at p + 0) 4096 (\<lambda>i. ?D3 (page_at 1023 + 0 + i)))" "superblk s4 = superblk s3"
    by (rule copy_loop_on [OF s3(2), of "page_at p" 0 4096 "page_at 1023"]) (use assms(2) in \<open>simp_all add: page_at_def\<close>)
  let ?D4 = "dput ?D3 (page_at p + 0) 4096 (\<lambda>i. ?D3 (page_at 1023 + 0 + i))"
  obtain s5 where s5: "erpage (of_nat 1023) s4 = (NO_ERR, s5)" "on_disk s5 (dput ?D4 (page_at 1023) 4096 (\<lambda>_. 0xFF))"
    "superblk s5 = superblk s4"
    by (rule erpage_on [OF s4(2), of 1023]) simp_all
  have ret: "restore_page (of_nat p) s2 = (NO_ERR, s5)"
    using s3(1) s4(1) s5(1) by (simp add: restore_page_def copy_flash_to_flash_def shift c)
  have res: "rw_page (of_nat p) True s = (NO_ERR, s5)"
    using cnt s1(1) s2(1) ret by (simp add: rw_page_def c)
  let ?D5 = "dput ?D4 (page_at 1023) 4096 (\<lambda>_. 0xFF)"
  have "?D5 (page_at p + i) = (if p = 0 \<and> 4092 \<le> i then 0 else page_load_data s (of_nat i))" if "i < 4096" for i
    using that assms(2) s1(3) s2(3) [OF that] by (simp add: dput_def page_at_def)
  moreover have "?D5 (page_at 1023 + i) = 0xFF" if "i < 4096" for i using that by (simp add: dput_def)
  moreover have "?D5 x = D x" if "x < page_at 1023" "x < page_at p \<or> page_at p + 4096 \<le> x"
    "x < garbage_word \<or> garbage_word + 4 \<le> x" for x
    using that s2(4) [OF that(1)] by (auto simp: dput_def)
  ultimately show ?thesis using res s5(2,3) s4(3) s3(3) s2(5) s1(4) by auto
qed

theorem rw_page_writes_page_witness:
  "\<exists>s' D'. rw_page (of_nat 7) True erased_dev = (NO_ERR, s') \<and> on_disk s' D'
    \<and> (\<forall>i < 4096. D' (page_at 7 + i) = (if (7 :: nat) = 0 \<and> 4092 \<le> i then 0 else page_load_data erased_dev (of_nat i)))
    \<and> (\<forall>i < 4096. D' (page_at 1023 + i) = 0xFF)
    \<and> (\<forall>x < page_at 1023. (x < page_at 7 \<or> page_at 7 + 4096 \<le> x) \<and> (x < garbage_word \<or> garbage_word + 4 \<le> x)
        \<longrightarrow> D' x = 0xFF)
    \<and> superblk s' = superblk erased_dev"
  by (rule rw_page_writes_page [of erased_dev "\<lambda>_. 0xFF" 7]) (simp_all add: on_disk_def erased_dev_def dsk_def)

section \<open>Mounting\<close>

text \<open>No operation of the mount writes the copy of the superblock, and its load addresses memory beyond the
  device, which fails and is taken for success: the magic string in the copy is tested as it was.\<close>

lemma superblk_wrbuf [simp]: "superblk (snd (wrbuf a l b s)) = superblk s"
  by (simp add: wrbuf_def split_beta Let_def)

lemma superblk_erpage [simp]: "superblk (snd (erpage p s)) = superblk s"
  by (simp add: erpage_def split_beta Let_def)

lemma superblk_copy_loop [simp]: "superblk (snd (copy_loop dst src off len s)) = superblk s"
proof (induction dst src off len s rule: copy_loop.induct)
  case (1 dst src off len s)
  then show ?case by (subst copy_loop.simps) (simp add: Let_def split_beta prod_eq_iff)
qed

lemma superblk_record_garbage [simp]: "superblk (snd (record_garbage q s)) = superblk s"
  by (simp add: record_garbage_def Let_def split_beta split: option.split)

lemma superblk_rw_page [simp]: "superblk (snd (rw_page p w s)) = superblk s"
  by (simp add: rw_page_def load_page_def backup_page_def restore_page_def copy_flash_to_flash_def Let_def split_beta)

lemma superblk_recover_page [simp]: "superblk (snd (recover_page p s)) = superblk s"
  by (simp add: recover_page_def copy_flash_to_flash_def Let_def split_beta)

lemma superblk_mount_recover [simp]: "superblk (snd (mount_recover s)) = superblk s"
  by (simp add: mount_recover_def Let_def split_beta)

lemma load_superblk_stale:
  "load_superblk s = (if magic_ok (superblk s) then (NO_ERR, s\<lparr>superblk := (superblk s)(52 := 1)\<rparr>)
                      else (Neg METADATA_ERR, s))"
proof -
  have "SLFS_SUPER_BLK_START + 56 > RAMDISK_SIZE" by (simp add: slfs_consts)
  then have "read_ramdisk SLFS_SUPER_BLK_START 56 (fmem s) 0 (superblk s) = (RetMinusOne, superblk s)"
    by (simp add: read_ramdisk_def)
  then show ?thesis by (simp add: load_superblk_def)
qed

text \<open>C38. Mounting never succeeds while the copy of the superblock in memory (zero at the start) has no magic
  string, whatever is on the device, and it leaves the copy as it is, so that no later mount succeeds.\<close>

theorem slfs_mount_never_succeeds:
  assumes "\<not> magic_ok (superblk s)"
  shows "fst (slfs_mount junk s) \<noteq> NO_ERR \<and> superblk (snd (slfs_mount junk s)) = superblk s"
  using assms
  by (simp add: slfs_mount_def mount_superblk_def init_metadata_def slfs_format_def load_superblk_stale Let_def split_beta)

lemma no_magic_no_bytes: "\<not> magic_ok no_bytes"
  unfolding magic_ok_def list_all_iff by (simp add: no_bytes_def magic_string_def bexI [of _ 0] SLFS_MAGIC_STR_LEN_def)

theorem slfs_mount_never_succeeds_witness:
  "fst (slfs_mount no_bytes erased_dev) \<noteq> NO_ERR \<and> superblk (snd (slfs_mount no_bytes erased_dev)) = superblk erased_dev"
  by (rule slfs_mount_never_succeeds) (simp add: erased_dev_def no_magic_no_bytes)

text \<open>Mounting an erased device: the metadata are written, which is taken for a failure.\<close>

lemma erased_dword: "on_disk s (\<lambda>_. 0xFF) \<Longrightarrow> unat a + 4 \<le> 0x400000 \<Longrightarrow>
    \<exists>b. rdbuf a 4 s = (NO_ERR, b) \<and> load32 b 0 = MINUS_ONE"
proof -
  assume a: "on_disk s (\<lambda>_. 0xFF)" "unat a + 4 \<le> 0x400000"
  obtain b where b: "rdbuf a 4 s = (NO_ERR, b)" "\<And>i. i < 4 \<Longrightarrow> b (of_nat i) = 0xFF"
    using rdbuf_on [OF a(1), of a 4] a(2) by auto
  have "load32 b (of_nat 0) = dword (\<lambda>_. 0xFF) (unat a + 0)" by (rule buf_dword [of 4]) (use b(2) in simp_all)
  then show ?thesis using b(1) by (simp add: dword_erased)
qed

lemma mount_recover_erased:
  assumes "on_disk s (\<lambda>_. 0xFF)"
  obtains s' where "mount_recover s = (NO_ERR, s')" "on_disk s' (\<lambda>_. 0xFF)"
proof -
  obtain b where b: "rdbuf SLFS_SWAP_PAGE_TAIL_START 4 s = (NO_ERR, b)" "load32 b 0 = MINUS_ONE"
    using erased_dword [OF assms, of SLFS_SWAP_PAGE_TAIL_START] by (auto simp: slfs_consts)
  obtain s1 where s1: "rw_page SLFS_METADATA_PAGE_IDX False s = (NO_ERR, s1)" "on_disk s1 (\<lambda>_. 0xFF)"
    "\<And>x. x < 4096 \<Longrightarrow> page_load_data s1 (of_nat x) = 0xFF"
    by (rule load_metadata [OF assms]) (rule that)
  have "load32 (page_load_data s1) (of_nat 1984) = dword (\<lambda>_. 0xFF) (0 + 1984)"
    by (rule buf_dword [of 4096]) (use s1(3) in simp_all)
  moreover have "SLFS_GARBAGE_PAGE_TAB_START = 1984" "SLFS_GARBAGE_PAGE_TAB_MAX_CNT = 1" "SLFS_SWAP_PAGE_TAIL_SIZE = 4"
    "MINUS_ONE \<noteq> SLFS_METADATA_PAGE_IDX"
    by (simp_all add: slfs_consts)
  ultimately have "mount_recover s = (NO_ERR, s1)"
    using b s1(1) by (simp add: mount_recover_def garbage_entry_def dword_erased)
  then show ?thesis using that s1(2) by blast
qed

lemma slfs_format_erased:
  obtains s' where "slfs_format s = (NO_ERR, s')" "on_disk s' (\<lambda>_. 0xFF)" "superblk s' = superblk s"
proof -
  obtain r m where m: "erase_ramdisk_chip (fmem s) = (r, m)" by fastforce
  then have "r = NO_ERR" "on_disk (s\<lparr>fmem := m\<rparr>) (\<lambda>_. 0xFF)"
    using erase_chip_dsk(1) [of "fmem s"] erase_chip_dsk(2) [of _ "fmem s"] by (auto simp: on_disk_def)
  then show ?thesis using that [of "s\<lparr>fmem := m\<rparr>"] m by (simp add: slfs_format_def)
qed

definition formatted :: "mem \<Rightarrow> disk" where
  "formatted junk = dput (\<lambda>_. 0xFF) 0 56 (\<lambda>i. new_superblk junk (of_nat i))"

lemma slfs_mount_erased:
  assumes "on_disk s (\<lambda>_. 0xFF)"
  obtains s' where "slfs_mount junk s = (Neg IO_ERR, s')" "on_disk s' (formatted junk)"
proof -
  obtain s1 where s1: "mount_recover s = (NO_ERR, s1)" "on_disk s1 (\<lambda>_. 0xFF)" by (rule mount_recover_erased [OF assms])
  obtain b where b: "rdbuf 0 16 s1 = (NO_ERR, b)" "\<And>i. i < 16 \<Longrightarrow> b (of_nat i) = 0xFF"
    using rdbuf_on [OF s1(2), of 0 16] by auto
  have nm: "\<not> magic_ok b"
    unfolding magic_ok_def list_all_iff using b(2) [of 0]
    by (simp add: magic_string_def bexI [of _ 0] SLFS_MAGIC_STR_LEN_def)
  obtain s2 where s2: "slfs_format s1 = (NO_ERR, s2)" "on_disk s2 (\<lambda>_. 0xFF)" by (rule slfs_format_erased)
  obtain s3 where s3: "wrbuf 0 56 (new_superblk junk) s2 = (NO_ERR, s3)" "on_disk s3 (formatted junk)"
    unfolding formatted_def by (rule wrbuf_on [OF s2(2), of 0 56 "new_superblk junk"]) auto
  have "slfs_mount junk s = (Neg IO_ERR, s3)"
    using s1(1) b(1) nm s2(1) s3(1)
    by (simp add: slfs_mount_def mount_superblk_def init_metadata_def SLFS_SUPERBLK_START_def SLFS_METADATA_START_def SLFS_MAGIC_STR_LEN_def)
  then show ?thesis using that s3(2) by blast
qed

end
