(* ===== verification/PageTable.thy ===== *)
theory PageTable
  imports FramePool
begin

unbundle bit_operations_syntax

text \<open>
  The page table module (src/kernel/core/page_table.c): set-up of \<open>struct pagetable\<close>, the page
  fault handler, and the release of a page. \<open>pgmem\<close> is the memory of the page directory and the
  page tables, by word address; the fault address (DFAR) and the directory base (TTBR0) that the
  code reads with \<open>mrc\<close> are arguments, and the TLB invalidation has no effect on this state.
  \<open>walk\<close> is the two-level small-page translation the ARMv7 MMU performs on that memory.
\<close>

section \<open>State\<close>

datatype PG_TYPE = PG_TABLE_KERN | PG_TABLE_USER

record pagetable =
  paging_enabled :: u32
  pframepool :: u32
  shared_size :: u32
  ppage_table :: u32
  ppage_dir :: u32
  VMcnt :: u32

record mmu =
  pgmem :: "u32 \<Rightarrow> u32"
  fpools :: "u32 \<Rightarrow> framepool"
  pgts :: "u32 \<Rightarrow> pagetable"
  pcurrentpgt :: u32

definition KERN_PGD_START_BASE :: u32 where "KERN_PGD_START_BASE = 0x400000"
definition KERN_PGT_START_BASE :: u32 where "KERN_PGT_START_BASE = 0x404000"

definition init_pageregion :: "u32 \<Rightarrow> u32 \<Rightarrow> u32 \<Rightarrow> mmu \<Rightarrow> mmu" where
  "init_pageregion p pool shared st =
     st\<lparr>pgts := (pgts st)(p := (pgts st p)\<lparr>paging_enabled := 0, pframepool := pool,
          shared_size := shared, ppage_dir := 0, ppage_table := 0, VMcnt := 0\<rparr>)\<rparr>"

definition init_pagetable :: "u32 \<Rightarrow> PG_TYPE \<Rightarrow> mmu \<Rightarrow> mmu" where
  "init_pagetable p pagetype st =
     (if pagetype = PG_TABLE_KERN \<and> ppage_dir (pgts st p) \<noteq> 0 then st
      else if pagetype = PG_TABLE_USER then st
      else st\<lparr>pgts := (pgts st)(p := (pgts st p)\<lparr>ppage_dir := KERN_PGD_START_BASE,
             ppage_table := KERN_PGT_START_BASE\<rparr>)\<rparr>)"

definition load_pagetable :: "u32 \<Rightarrow> mmu \<Rightarrow> mmu" where
  "load_pagetable p st = st\<lparr>pcurrentpgt := p\<rparr>"

text \<open>The frame pool of the current page table.\<close>

definition cur_pool :: "mmu \<Rightarrow> u32" where
  "cur_pool st = pframepool (pgts st (pcurrentpgt st))"

definition cur_fp :: "mmu \<Rightarrow> framepool" where
  "cur_fp st = fpools st (cur_pool st)"

definition handle_fault :: "u32 \<Rightarrow> u32 \<Rightarrow> mmu \<Rightarrow> mmu" where
  "handle_fault pfa pda st =
     (let pgdIdx = drop_bit 20 (pfa AND 0xFFF00000);
          pde = pda + push_bit 2 pgdIdx;
          m1 = (if pgmem st pde AND 3 = 0
                then (pgmem st)(pde := (KERN_PGT_START_BASE + push_bit 2 (push_bit 8 pgdIdx)) OR 0x1E1)
                else pgmem st);
          (frameno, fp') = get_frame (cur_fp st);
          frame_addr = FRAMETOPHYADDR frameno;
          pgtIdx = drop_bit 12 (pfa AND 0x000FF000);
          pte = KERN_PGT_START_BASE + push_bit 2 (push_bit 8 pgdIdx) + push_bit 2 pgtIdx
      in st\<lparr>fpools := (fpools st)(cur_pool st := fp'),
             pgmem := m1(pte := frame_addr OR 0x472)\<rparr>)"

definition free_page :: "u32 \<Rightarrow> mmu \<Rightarrow> mmu" where
  "free_page freedAddr st =
     (let pgdIdx = drop_bit 20 (freedAddr AND 0xFFF00000);
          pgtIdx = drop_bit 12 (freedAddr AND 0x000FF000);
          pte = KERN_PGT_START_BASE + push_bit 2 (push_bit 8 pgdIdx) + push_bit 2 pgtIdx;
          frame_addr = pgmem st pte;
          frame_num = drop_bit 12 frame_addr;
          fps = (if HEAP_FRAME_START \<le> frame_num \<and> frame_num < HEAP_FRAME_START + HEAP_FRAME_NUM
                 then (fpools st)(cur_pool st := snd (release_frame (cur_fp st) frame_num))
                 else fpools st)
      in st\<lparr>fpools := fps, pgmem := (pgmem st)(pte := 0)\<rparr>)"

section \<open>The translation the hardware makes\<close>

text \<open>
  ARMv7 short descriptors: a first-level entry whose low bits are 01 points to a second-level
  table, a second-level entry with bit 1 set is a small page.
\<close>

definition walk :: "(u32 \<Rightarrow> u32) \<Rightarrow> u32 \<Rightarrow> u32 \<Rightarrow> u32 option" where
  "walk m ttb va =
     (let pde = m (ttb + push_bit 2 (drop_bit 20 va))
      in if pde AND 3 = 1 then
           (let pte = m ((pde AND 0xFFFFFC00) + push_bit 2 (drop_bit 12 va AND 0xFF))
            in if pte AND 2 = 2 then Some ((pte AND 0xFFFFF000) OR (va AND 0xFFF)) else None)
         else None)"

section \<open>Addresses of the entries\<close>

definition vpage :: "u32 \<Rightarrow> nat" where "vpage va = unat va div 4096"

definition pte_at :: "nat \<Rightarrow> u32" where "pte_at n = KERN_PGT_START_BASE + of_nat (4 * n)"

definition pde_at :: "nat \<Rightarrow> u32" where "pde_at n = KERN_PGD_START_BASE + of_nat (4 * n)"

lemma vpage_bound: "vpage va < 2 ^ 20"
proof -
  have "unat va < 2 ^ LENGTH(32)" by (rule unsigned_less)
  then show ?thesis by (simp add: vpage_def less_mult_imp_div_less)
qed

lemma mask_consts: "(0xFFF00000 :: u32) = NOT (mask 20)" "(0x000FF000 :: u32) = push_bit 12 (mask 8)"
  "(0xFFFFFC00 :: u32) = NOT (mask 10)" "(0xFFFFF000 :: u32) = NOT (mask 12)"
  "(0xFFF :: u32) = mask 12" "(0xFF :: u32) = mask 8" "(3 :: u32) = mask 2"
  by (simp_all add: mask_eq_exp_minus_1 push_bit_eq_mult)

lemma pgd_index: "drop_bit 20 (va AND 0xFFF00000) = drop_bit 20 (va :: u32)"
  unfolding mask_consts
proof (rule bit_word_eqI)
  fix n assume "n < LENGTH(32)"
  then show "bit (drop_bit 20 (va AND NOT (mask 20))) n = bit (drop_bit 20 va) n"
    using bit_imp_le_length [of va "20 + n"]
    by (auto simp: bit_drop_bit_eq bit_and_iff bit_not_iff bit_mask_iff)
qed

lemma pgt_index: "drop_bit 12 (va AND 0x000FF000) = drop_bit 12 (va :: u32) AND mask 8"
  unfolding mask_consts
  by (rule bit_word_eqI)
     (auto simp: bit_drop_bit_eq bit_and_iff bit_push_bit_iff bit_mask_iff dest: bit_imp_le_length)

lemma unat_pgd: "unat (drop_bit 20 (va :: u32)) = vpage va div 256"
  by (simp add: unat_drop_bit_eq drop_bit_eq_div vpage_def div_mult2_eq [symmetric] unat_div)

lemma unat_pgt: "unat (drop_bit 12 (va :: u32) AND mask 8) = vpage va mod 256"
  by (simp add: unat_drop_bit_eq drop_bit_eq_div vpage_def take_bit_eq_mask [symmetric]
      unsigned_take_bit_eq take_bit_eq_mod unat_div unat_mod)

lemma word_from_unat: "unat w = n \<Longrightarrow> w = of_nat n"
  by auto

lemma pgd_word: "drop_bit 20 (va :: u32) = of_nat (vpage va div 256)"
  by (rule word_from_unat [OF unat_pgd])

lemma pgt_word: "drop_bit 12 (va :: u32) AND mask 8 = of_nat (vpage va mod 256)"
  by (rule word_from_unat [OF unat_pgt])

lemma pde_addr: "KERN_PGD_START_BASE + push_bit 2 (drop_bit 20 va) = pde_at (vpage va div 256)"
  by (simp add: pde_at_def pgd_word push_bit_eq_mult)

lemma pte_addr:
  "KERN_PGT_START_BASE + push_bit 2 (push_bit 8 (drop_bit 20 va)) + push_bit 2 (drop_bit 12 va AND mask 8)
   = pte_at (vpage va)"
proof -
  have "4 * (256 * (vpage va div 256)) + 4 * (vpage va mod 256) = 4 * vpage va"
    by (metis distrib_left mult_div_mod_eq)
  then have "(4 :: u32) * (256 * of_nat (vpage va div 256)) + 4 * of_nat (vpage va mod 256)
      = of_nat (4 * vpage va)"
  proof -
    assume "4 * (256 * (vpage va div 256)) + 4 * (vpage va mod 256) = 4 * vpage va"
    from this [symmetric] show ?thesis by (simp only:) simp
  qed
  then show ?thesis
    unfolding pgd_word pgt_word by (simp add: pte_at_def push_bit_eq_mult ac_simps)
qed

lemma unat_pte_at: "n < 2 ^ 20 \<Longrightarrow> unat (pte_at n) = 0x404000 + 4 * n"
  using unat_add_below [of KERN_PGT_START_BASE "4 * n"]
  by (simp add: pte_at_def KERN_PGT_START_BASE_def)

lemma unat_pde_at: "n < 4096 \<Longrightarrow> unat (pde_at n) = 0x400000 + 4 * n"
  using unat_add_below [of KERN_PGD_START_BASE "4 * n"]
  by (simp add: pde_at_def KERN_PGD_START_BASE_def)

lemma pte_at_inj: "n < 2 ^ 20 \<Longrightarrow> m < 2 ^ 20 \<Longrightarrow> pte_at n = pte_at m \<longleftrightarrow> n = m"
proof
  assume n: "n < 2 ^ 20" and m: "m < 2 ^ 20" and "pte_at n = pte_at m"
  then have "0x404000 + 4 * n = 0x404000 + 4 * m"
    using unat_pte_at [OF n] unat_pte_at [OF m] by metis
  then show "n = m" by linarith
qed simp

lemma pde_at_inj: "n < 4096 \<Longrightarrow> m < 4096 \<Longrightarrow> pde_at n = pde_at m \<longleftrightarrow> n = m"
proof
  assume n: "n < 4096" and m: "m < 4096" and "pde_at n = pde_at m"
  then have "0x400000 + 4 * n = 0x400000 + 4 * m"
    using unat_pde_at [OF n] unat_pde_at [OF m] by metis
  then show "n = m" by linarith
qed simp

lemma pde_pte_distinct: "pde_at n \<noteq> pte_at m" if "n < 4096" "m < 2 ^ 20"
proof
  assume "pde_at n = pte_at m"
  then have "0x400000 + 4 * n = 0x404000 + 4 * m"
    using unat_pte_at [OF that(2)] unat_pde_at [OF that(1)] by metis
  then show False using that by linarith
qed

section \<open>What a walk reads\<close>

text \<open>A directory entry that points to its own second-level table, as \<open>init_pgt\<close> and the fault
  handler write it.\<close>

definition pde_value :: "nat \<Rightarrow> u32" where
  "pde_value n = (KERN_PGT_START_BASE + of_nat (1024 * n)) OR 0x1E1"

lemma pde_value_fields:
  assumes "n < 4096"
  shows "pde_value n AND 3 = 1" and "pde_value n AND 0xFFFFFC00 = KERN_PGT_START_BASE + of_nat (1024 * n)"
proof -
  define b where "b = KERN_PGT_START_BASE + of_nat (1024 * n)"
  have b10: "b = push_bit 10 (0x1010 + of_nat n)"
    by (simp add: b_def KERN_PGT_START_BASE_def push_bit_eq_mult algebra_simps)
  have "take_bit 2 (b OR 0x1E1) = 1" and "take_bit 10 b = 0" and t: "take_bit 10 (0x1E1 :: u32) = 0x1E1"
    by (simp_all add: b10 take_bit_push_bit)
  then show "pde_value n AND 3 = 1"
    unfolding mask_consts pde_value_def b_def [symmetric] by (simp add: take_bit_eq_mask)
  have "(0x1E1 :: u32) AND NOT (mask 10) = 0"
    by (simp add: mask_eq_exp_minus_1)
  moreover have "b AND NOT (mask 10) = b"
    by (rule bit_word_eqI) (auto simp: b10 bit_and_iff bit_not_iff bit_mask_iff bit_push_bit_iff)
  ultimately show "pde_value n AND 0xFFFFFC00 = KERN_PGT_START_BASE + of_nat (1024 * n)"
    unfolding mask_consts pde_value_def b_def [symmetric] by (simp add: bit.conj_disj_distrib2)
qed

text \<open>A small-page entry for frame \<open>f\<close> with the attribute bits \<open>a\<close> of the code.\<close>

lemma small_page_fields:
  fixes a f :: u32
  assumes "a AND NOT (mask 12) = 0" and "a AND 2 = 2" and "f AND mask 12 = 0"
  shows "(f OR a) AND 2 = 2" and "(f OR a) AND 0xFFFFF000 = f"
proof -
  have f2: "f AND 2 = 0"
  proof (rule bit_word_eqI)
    fix n :: nat
    have "\<not> bit (f AND mask 12) n" using assms(3) by simp
    then show "bit (f AND 2) n = bit (0 :: u32) n"
      using bit_exp_iff [of 1 n, where ?'a = u32] by (auto simp: bit_and_iff bit_mask_iff)
  qed
  then show "(f OR a) AND 2 = 2" using assms(2) by (simp add: bit.conj_disj_distrib2)
  have "f AND NOT (mask 12) = f"
  proof (rule bit_word_eqI)
    fix n :: nat
    have "\<not> bit (f AND mask 12) n" using assms(3) by simp
    then show "bit (f AND NOT (mask 12)) n = bit f n"
      by (auto simp: bit_and_iff bit_mask_iff bit_not_iff dest: bit_imp_le_length)
  qed
  then show "(f OR a) AND 0xFFFFF000 = f"
    unfolding mask_consts using assms(1) by (simp add: bit.conj_disj_distrib2)
qed

lemma FRAMETOPHYADDR_low: "FRAMETOPHYADDR f AND mask 12 = 0"
proof -
  have "FRAMETOPHYADDR f = push_bit 12 f" by (simp add: FRAMETOPHYADDR_def push_bit_eq_mult)
  then show ?thesis by (simp add: take_bit_eq_mask [symmetric] take_bit_push_bit)
qed

section \<open>Pages and frames\<close>

text \<open>The frame address a page is mapped to.\<close>

definition page_frame :: "(u32 \<Rightarrow> u32) \<Rightarrow> nat \<Rightarrow> u32 option" where
  "page_frame m n =
     (if m (pde_at (n div 256)) AND 3 = 0 then None
      else if m (pte_at n) AND 2 = 2 then Some (m (pte_at n) AND 0xFFFFF000) else None)"

text \<open>
  Directory entries are empty or point to their own table, and the tables behind empty entries
  hold no page.
\<close>

definition tables_ok :: "(u32 \<Rightarrow> u32) \<Rightarrow> bool" where
  "tables_ok m \<longleftrightarrow>
     (\<forall>k < 4096. m (pde_at k) AND 3 \<noteq> 0 \<longrightarrow> m (pde_at k) = pde_value k)
   \<and> (\<forall>n < 2 ^ 20. m (pde_at (n div 256)) AND 3 = 0 \<longrightarrow> m (pte_at n) AND 2 \<noteq> 2)"

lemma page_dir_bound: "(n :: nat) < 2 ^ 20 \<Longrightarrow> n div 256 < 4096"
  by (simp add: less_mult_imp_div_less)

lemma walk_page_frame:
  assumes "tables_ok m"
  shows "walk m KERN_PGD_START_BASE va = map_option (\<lambda>f. f OR (va AND 0xFFF)) (page_frame m (vpage va))"
proof -
  let ?k = "vpage va div 256"
  have k: "?k < 4096" by (rule page_dir_bound [OF vpage_bound])
  have pd: "m (pde_at ?k) AND 3 \<noteq> 0 \<Longrightarrow> m (pde_at ?k) = pde_value ?k"
    using assms k by (auto simp: tables_ok_def)
  have idx: "(KERN_PGT_START_BASE + of_nat (1024 * ?k)) + push_bit 2 (drop_bit 12 va AND mask 8)
      = pte_at (vpage va)"
    unfolding pte_addr [symmetric] pgd_word by (simp add: push_bit_eq_mult)
  show ?thesis
  proof (cases "m (pde_at ?k) AND 3 = 0")
    case True
    then show ?thesis by (simp add: walk_def pde_addr page_frame_def)
  next
    case False
    then show ?thesis
      using pd idx pde_value_fields [OF k]
      by (simp add: walk_def pde_addr page_frame_def Let_def mask_consts(6))
  qed
qed

text \<open>The kernel's view of the memory manager: which pages the heap owns, and that no two of them
  share a frame.\<close>

definition frame_small :: "framepool \<Rightarrow> bool" where
  "frame_small fp \<longleftrightarrow> (\<forall>f \<in> fp_pool fp. unat f < 2 ^ 20)"

definition heap_maps :: "nat set \<Rightarrow> mmu \<Rightarrow> bool" where
  "heap_maps H st \<longleftrightarrow>
     (\<forall>n \<in> H. \<forall>a. page_frame (pgmem st) n = Some a \<longrightarrow>
        (\<exists>f \<in> fp_used (cur_fp st). a = FRAMETOPHYADDR f \<and> drop_bit 12 (pgmem st (pte_at n)) = f))
   \<and> (\<forall>n \<in> H. \<forall>n' \<in> H. \<forall>a. page_frame (pgmem st) n = Some a \<longrightarrow>
        page_frame (pgmem st) n' = Some a \<longrightarrow> n = n')"

definition mmu_inv :: "nat set \<Rightarrow> mmu \<Rightarrow> bool" where
  "mmu_inv H st \<longleftrightarrow> framepool_wf (cur_fp st) \<and> frame_small (cur_fp st) \<and> tables_ok (pgmem st)
     \<and> H \<subseteq> {..<2 ^ 20} \<and> heap_maps H st"

lemma drop_frame:
  assumes "unat f < 2 ^ 20" and "a AND NOT (mask 12) = 0"
  shows "drop_bit 12 (FRAMETOPHYADDR f OR a) = f"
proof -
  have "FRAMETOPHYADDR f = push_bit 12 f" by (simp add: FRAMETOPHYADDR_def push_bit_eq_mult)
  moreover have "drop_bit 12 (push_bit 12 f) = f"
  proof (rule bit_word_eqI)
    fix n :: nat
    have "unat (take_bit 20 f) = unat f"
      using assms(1) by (simp add: unsigned_take_bit_eq take_bit_nat_eq_self)
    then have "f = take_bit 20 f" by (simp add: word_unat_eq_iff)
    then have "bit f n \<Longrightarrow> n < 20" by (metis bit_take_bit_iff)
    then show "bit (drop_bit 12 (push_bit 12 f)) n = bit f n"
      by (auto simp: bit_drop_bit_eq bit_push_bit_iff)
  qed
  moreover have "drop_bit 12 a = 0"
  proof (rule bit_word_eqI)
    fix n :: nat
    have "\<not> bit (a AND NOT (mask 12)) (12 + n)" using assms(2) by simp
    then show "bit (drop_bit 12 a) n = bit (0 :: u32) n"
      by (auto simp: bit_drop_bit_eq bit_and_iff bit_not_iff bit_mask_iff dest: bit_imp_le_length)
  qed
  ultimately show ?thesis by (simp add: drop_bit_or)
qed

lemma handle_fault_eq:
  assumes "tables_ok (pgmem st)" and "get_frame (cur_fp st) = (f, fp')"
  shows "handle_fault va KERN_PGD_START_BASE st =
    st\<lparr>fpools := (fpools st)(cur_pool st := fp'),
       pgmem := (pgmem st)(pde_at (vpage va div 256) := pde_value (vpage va div 256),
                 pte_at (vpage va) := FRAMETOPHYADDR f OR 0x472)\<rparr>"
proof -
  let ?k = "vpage va div 256"
  have k: "?k < 4096" by (rule page_dir_bound [OF vpage_bound])
  have pd: "pgmem st (pde_at ?k) AND 3 \<noteq> 0 \<Longrightarrow> pgmem st (pde_at ?k) = pde_value ?k"
    using assms(1) k by (auto simp: tables_ok_def)
  have v: "(KERN_PGT_START_BASE + push_bit 2 (push_bit 8 (drop_bit 20 va))) OR 0x1E1 = pde_value ?k"
    unfolding pgd_word pde_value_def by (simp add: push_bit_eq_mult)
  have e: "(KERN_PGD_START_BASE + push_bit 2 (drop_bit 20 va)) = pde_at ?k" by (rule pde_addr)
  show ?thesis
    unfolding handle_fault_def Let_def pgd_index pgt_index pte_addr e v assms(2)
    using pd by (auto simp: fun_eq_iff)
qed

lemma cur_fp_upd [simp]:
  "cur_fp (st\<lparr>fpools := (fpools st)(cur_pool st := fp'), pgmem := m\<rparr>) = fp'"
  "cur_pool (st\<lparr>fpools := fps, pgmem := m\<rparr>) = cur_pool st"
  "cur_fp (st\<lparr>fpools := fpools st, pgmem := m\<rparr>) = cur_fp st"
  "cur_fp (st\<lparr>pgmem := m\<rparr>) = cur_fp st"
  "cur_fp (st\<lparr>fpools := (fpools st)(cur_pool st := fp')\<rparr>) = fp'"
  by (simp_all add: cur_fp_def cur_pool_def)

text \<open>The memory after a fault, entry by entry.\<close>

lemma handle_fault_mem:
  fixes va :: u32
  assumes "tables_ok (pgmem st)" and "get_frame (cur_fp st) = (f, fp')"
  defines "st' \<equiv> handle_fault va KERN_PGD_START_BASE st"
  shows "cur_fp st' = fp'"
    and "n < 2 ^ 20 \<Longrightarrow> pgmem st' (pte_at n) = (if n = vpage va then FRAMETOPHYADDR f OR 0x472 else pgmem st (pte_at n))"
    and "k < 4096 \<Longrightarrow> pgmem st' (pde_at k) = (if k = vpage va div 256 then pde_value k else pgmem st (pde_at k))"
proof -
  note e = handle_fault_eq [OF assms(1,2), of va, folded st'_def]
  have k: "vpage va div 256 < 4096" by (rule page_dir_bound [OF vpage_bound])
  show "cur_fp st' = fp'" by (simp add: e)
  show "pgmem st' (pte_at n) = (if n = vpage va then FRAMETOPHYADDR f OR 0x472 else pgmem st (pte_at n))"
    if "n < 2 ^ 20"
    using pte_at_inj [OF that vpage_bound] pde_pte_distinct [OF k that] by (auto simp: e)
  show "pgmem st' (pde_at k) = (if k = vpage va div 256 then pde_value k else pgmem st (pde_at k))"
    if "k < 4096"
    using pde_at_inj [OF that k] pde_pte_distinct [OF that vpage_bound] by (auto simp: e)
qed

lemma attr_472: "(0x472 :: u32) AND NOT (mask 12) = 0" "(0x472 :: u32) AND 2 = 2"
  by (simp_all add: mask_eq_exp_minus_1)

lemma pde_value_present: "k < 4096 \<Longrightarrow> pde_value k AND 3 \<noteq> 0"
  using pde_value_fields(1) [of k] by simp

lemma handle_fault_page_frame:
  fixes va :: u32
  assumes ok: "tables_ok (pgmem st)" and get: "get_frame (cur_fp st) = (f, fp')" and n: "n < 2 ^ 20"
  shows "page_frame (pgmem (handle_fault va KERN_PGD_START_BASE st)) n
       = (if n = vpage va then Some (FRAMETOPHYADDR f) else page_frame (pgmem st) n)"
    and "tables_ok (pgmem (handle_fault va KERN_PGD_START_BASE st))"
proof -
  note mem = handle_fault_mem [OF ok get, where va = va]
  show "page_frame (pgmem (handle_fault va KERN_PGD_START_BASE st)) n
       = (if n = vpage va then Some (FRAMETOPHYADDR f) else page_frame (pgmem st) n)"
  proof (cases "n = vpage va")
    case True
    then show ?thesis
      using n small_page_fields [OF attr_472 FRAMETOPHYADDR_low, of f]
        pde_value_present [OF page_dir_bound [OF n]]
      by (simp add: page_frame_def mem page_dir_bound)
  next
    case False
    have dead: "pgmem st (pde_at (n div 256)) AND 3 = 0 \<Longrightarrow> pgmem st (pte_at n) AND 2 \<noteq> 2"
      using ok n by (auto simp: tables_ok_def)
    then show ?thesis
      using False n pde_value_present [OF page_dir_bound [OF n]]
      by (auto simp: page_frame_def mem page_dir_bound)
  qed
  have "pgmem (handle_fault va KERN_PGD_START_BASE st) (pte_at m) AND 2 \<noteq> 2"
    if "m < 2 ^ 20" "pgmem (handle_fault va KERN_PGD_START_BASE st) (pde_at (m div 256)) AND 3 = 0" for m
    using that ok pde_value_present [OF page_dir_bound [OF that(1)]]
    by (auto simp: mem page_dir_bound tables_ok_def split: if_splits)
  then show "tables_ok (pgmem (handle_fault va KERN_PGD_START_BASE st))"
    using ok by (auto simp: tables_ok_def mem)
qed

lemma free_page_eq:
  fixes va :: u32
  shows "free_page va st =
    (let f = drop_bit 12 (pgmem st (pte_at (vpage va)))
     in st\<lparr>fpools := (if HEAP_FRAME_START \<le> f \<and> f < HEAP_FRAME_START + HEAP_FRAME_NUM
              then (fpools st)(cur_pool st := snd (release_frame (cur_fp st) f)) else fpools st),
           pgmem := (pgmem st)(pte_at (vpage va) := 0)\<rparr>)"
  unfolding free_page_def Let_def pgd_index pgt_index pte_addr ..

lemma free_page_page_frame:
  fixes va :: u32
  assumes ok: "tables_ok (pgmem st)" and n: "n < 2 ^ 20"
  shows "page_frame (pgmem (free_page va st)) n
       = (if n = vpage va then None else page_frame (pgmem st) n)"
    and "tables_ok (pgmem (free_page va st))"
proof -
  have pte: "pgmem (free_page va st) (pte_at m) = (if m = vpage va then 0 else pgmem st (pte_at m))"
    if "m < 2 ^ 20" for m
    using pte_at_inj [OF that vpage_bound] by (simp add: free_page_eq Let_def)
  have pde: "pgmem (free_page va st) (pde_at k) = pgmem st (pde_at k)" if "k < 4096" for k
    using pde_pte_distinct [OF that vpage_bound] by (simp add: free_page_eq Let_def)
  show "page_frame (pgmem (free_page va st)) n
       = (if n = vpage va then None else page_frame (pgmem st) n)"
    using n by (simp add: page_frame_def pte pde page_dir_bound)
  show "tables_ok (pgmem (free_page va st))"
    using ok by (auto simp: tables_ok_def pte pde page_dir_bound)
qed

lemma heap_maps_inj:
  "heap_maps H st \<Longrightarrow> n \<in> H \<Longrightarrow> n' \<in> H \<Longrightarrow> page_frame (pgmem st) n = Some a \<Longrightarrow>
   page_frame (pgmem st) n' = Some a \<Longrightarrow> n = n'"
  unfolding heap_maps_def by blast

section \<open>Properties\<close>

lemma FRAMETOPHYADDR_inj:
  assumes "unat f < 2 ^ 20" and "unat g < 2 ^ 20" and "FRAMETOPHYADDR f = FRAMETOPHYADDR g"
  shows "f = g"
  using drop_frame [OF assms(1), of 0] drop_frame [OF assms(2), of 0] assms(3) by simp

lemma fault_inv:
  fixes va :: u32
  assumes inv: "mmu_inv H st" and H: "vpage va \<in> H" and free: "fp_used (cur_fp st) \<noteq> fp_pool (cur_fp st)"
    and get: "get_frame (cur_fp st) = (f, fp')"
  shows "mmu_inv H (handle_fault va KERN_PGD_START_BASE st)"
proof -
  let ?st' = "handle_fault va KERN_PGD_START_BASE st"
  have I: "framepool_wf (cur_fp st)" "frame_small (cur_fp st)" "tables_ok (pgmem st)"
    "H \<subseteq> {..<2 ^ 20}" "heap_maps H st" using inv by (simp_all add: mmu_inv_def)
  note fresh = fpool.alloc_fresh [OF I(1) free get]
  note mem = handle_fault_mem [OF I(3) get, where va = va]
  note pf = handle_fault_page_frame [OF I(3) get, where va = va]
  have small: "unat f < 2 ^ 20" using fresh I(2) by (simp add: frame_small_def)
  have used_small: "g \<in> fp_used (cur_fp st) \<Longrightarrow> unat g < 2 ^ 20" for g
    using fpool.used_pool [OF I(1)] I(2) by (auto simp: frame_small_def)
  have old: "\<exists>g \<in> fp_used (cur_fp st). a = FRAMETOPHYADDR g \<and> drop_bit 12 (pgmem st (pte_at n)) = g"
    if "n \<in> H" "page_frame (pgmem st) n = Some a" for n a
    using I(5) that by (auto simp: heap_maps_def)
  have ne: "page_frame (pgmem st) n \<noteq> Some (FRAMETOPHYADDR f)" if "n \<in> H" for n
    using old [OF that] FRAMETOPHYADDR_inj [OF small] used_small fresh by metis
  have Hn: "n < 2 ^ 20" if "n \<in> H" for n using that I(4) by auto
  have "heap_maps H ?st'"
    unfolding heap_maps_def
  proof (intro conjI ballI allI impI)
    fix n a assume n: "n \<in> H" and a: "page_frame (pgmem ?st') n = Some a"
    show "\<exists>g \<in> fp_used (cur_fp ?st'). a = FRAMETOPHYADDR g \<and> drop_bit 12 (pgmem ?st' (pte_at n)) = g"
      using a old [OF n] fresh drop_frame [OF small attr_472(1)]
      by (auto simp: pf(1) [OF Hn [OF n]] mem(1) mem(2) [OF Hn [OF n]] split: if_splits)
  next
    fix n n' a
    assume n: "n \<in> H" "n' \<in> H" and "page_frame (pgmem ?st') n = Some a"
      "page_frame (pgmem ?st') n' = Some a"
    then show "n = n'"
      using ne [OF n(1)] ne [OF n(2)] heap_maps_inj [OF I(5) n]
      by (simp add: pf(1) [OF Hn [OF n(1)]] pf(1) [OF Hn [OF n(2)]] split: if_splits)
  qed
  moreover have "frame_small fp'" using fresh I(2) by (simp add: frame_small_def)
  ultimately show ?thesis using I fresh pf(2) [of 0] mem(1) by (simp add: mmu_inv_def)
qed

lemma walk_after_fault:
  fixes va va' :: u32
  assumes "tables_ok (pgmem st)" and "get_frame (cur_fp st) = (f, fp')"
  shows "walk (pgmem (handle_fault va KERN_PGD_START_BASE st)) KERN_PGD_START_BASE va'
    = (if vpage va' = vpage va then Some (FRAMETOPHYADDR f OR (va' AND 0xFFF))
       else walk (pgmem st) KERN_PGD_START_BASE va')"
  using handle_fault_page_frame [OF assms vpage_bound, where va = va]
    handle_fault_page_frame(2) [OF assms, of 0, where va = va]
  by (simp add: walk_page_frame assms(1))

text \<open>When a frame is free, the page fault handler maps the faulting heap page to a frame that
  was not in use, so that the hardware walk translates every address of the page into that frame;
  the translation of every other page is unchanged, the frame is marked as used, and no two heap
  pages ever share a frame.\<close>

theorem handle_fault_maps_fresh_frame:
  fixes va :: u32
  assumes "mmu_inv H st" and "vpage va \<in> H" and "fp_used (cur_fp st) \<noteq> fp_pool (cur_fp st)"
  defines "st' \<equiv> handle_fault va KERN_PGD_START_BASE st"
  shows "\<exists>f. f \<in> fp_pool (cur_fp st) \<and> f \<notin> fp_used (cur_fp st)
    \<and> fp_used (cur_fp st') = insert f (fp_used (cur_fp st)) \<and> mmu_inv H st'
    \<and> (\<forall>va'. walk (pgmem st') KERN_PGD_START_BASE va'
         = (if vpage va' = vpage va then Some (FRAMETOPHYADDR f OR (va' AND 0xFFF))
            else walk (pgmem st) KERN_PGD_START_BASE va'))"
proof -
  obtain f fp' where get: "get_frame (cur_fp st) = (f, fp')" by (cases "get_frame (cur_fp st)")
  have I: "framepool_wf (cur_fp st)" "tables_ok (pgmem st)" using assms(1) by (simp_all add: mmu_inv_def)
  show ?thesis
    using fpool.alloc_fresh [OF I(1) assms(3) get] fault_inv [OF assms(1,2,3) get]
      walk_after_fault [OF I(2) get, of va] handle_fault_mem(1) [OF I(2) get, where va = va]
    unfolding st'_def by auto
qed

text \<open>C32. When every frame is in use, the handler does not look at the result \<open>-1\<close> of
  \<open>get_frame\<close>: it maps the page to the physical address 0xFFFFF000.\<close>

theorem handle_fault_exhausted_maps_garbage:
  fixes va :: u32
  assumes "framepool_wf (cur_fp st)" and "tables_ok (pgmem st)"
    and "fp_used (cur_fp st) = fp_pool (cur_fp st)"
  shows "walk (pgmem (handle_fault va KERN_PGD_START_BASE st)) KERN_PGD_START_BASE va
       = Some (0xFFFFF000 OR (va AND 0xFFF))
    \<and> cur_fp (handle_fault va KERN_PGD_START_BASE st) = cur_fp st"
proof -
  have get: "get_frame (cur_fp st) = (-1, cur_fp st)" by (rule fpool.alloc_full [OF assms(1,3)])
  have "FRAMETOPHYADDR (-1) = 0xFFFFF000" by (simp add: FRAMETOPHYADDR_def)
  then show ?thesis
    using walk_after_fault [OF assms(2) get, of va va] handle_fault_mem(1) [OF assms(2) get, where va = va]
    by simp
qed

lemma heap_page_frame:
  assumes "mmu_inv H st" and "n \<in> H" and "page_frame (pgmem st) n = Some (FRAMETOPHYADDR f)"
    and "unat f < 2 ^ 20"
  shows "drop_bit 12 (pgmem st (pte_at n)) = f \<and> f \<in> fp_used (cur_fp st)"
proof -
  obtain g where g: "g \<in> fp_used (cur_fp st)" "FRAMETOPHYADDR f = FRAMETOPHYADDR g"
    "drop_bit 12 (pgmem st (pte_at n)) = g"
    using assms(1-3) by (auto simp: mmu_inv_def heap_maps_def)
  have "unat g < 2 ^ 20"
    using g(1) fpool.used_pool assms(1) by (auto simp: mmu_inv_def frame_small_def)
  then show ?thesis using g FRAMETOPHYADDR_inj [OF assms(4)] by metis
qed

lemma free_page_core:
  fixes va :: u32
  assumes inv: "mmu_inv H st" and H: "vpage va \<in> H"
    and pf: "page_frame (pgmem st) (vpage va) = Some (FRAMETOPHYADDR f)"
    and f: "HEAP_FRAME_START \<le> f" "f < HEAP_FRAME_START + HEAP_FRAME_NUM"
      "f \<notin> fp_pinned (cur_fp st)"
  defines "st' \<equiv> free_page va st"
  shows "fp_used (cur_fp st') = fp_used (cur_fp st) - {f} \<and> mmu_inv H st'
    \<and> (\<forall>va'. walk (pgmem st') KERN_PGD_START_BASE va'
         = (if vpage va' = vpage va then None else walk (pgmem st) KERN_PGD_START_BASE va'))"
proof -
  have I: "framepool_wf (cur_fp st)" "frame_small (cur_fp st)" "tables_ok (pgmem st)"
    "H \<subseteq> {..<2 ^ 20}" "heap_maps H st" using inv by (simp_all add: mmu_inv_def)
  have "unat f < 2 ^ 20"
    using f(2) by (simp add: word_less_nat_alt HEAP_FRAME_START_def HEAP_FRAME_NUM_def)
  note hp = heap_page_frame [OF inv H pf this]
  have fpl: "f \<in> fp_pool (cur_fp st)" using hp fpool.used_pool [OF I(1)] by auto
  obtain r fp' where rel: "release_frame (cur_fp st) f = (r, fp')" by (cases "release_frame (cur_fp st) f")
  note R = fpool.free_used [OF I(1) fpl f(3) rel]
  have cur: "cur_fp st' = fp'" using hp f rel by (simp add: st'_def free_page_eq Let_def)
  have pfr: "page_frame (pgmem st') n = (if n = vpage va then None else page_frame (pgmem st) n)"
    and tok: "tables_ok (pgmem st')" if "n < 2 ^ 20" for n
    using free_page_page_frame [OF I(3) that, of va] by (simp_all add: st'_def)
  have Hn: "n < 2 ^ 20" if "n \<in> H" for n using that I(4) by auto
  have pte: "pgmem st' (pte_at n) = pgmem st (pte_at n)" if "n \<in> H" "n \<noteq> vpage va" for n
    using that pte_at_inj [OF Hn [OF that(1)] vpage_bound] by (simp add: st'_def free_page_eq Let_def)
  have "heap_maps H st'"
    unfolding heap_maps_def
  proof (intro conjI ballI allI impI)
    fix n a assume n: "n \<in> H" and a: "page_frame (pgmem st') n = Some a"
    then have na: "n \<noteq> vpage va" "page_frame (pgmem st) n = Some a"
      by (simp_all add: pfr [OF Hn [OF n]] split: if_splits)
    obtain g where g: "g \<in> fp_used (cur_fp st)" "a = FRAMETOPHYADDR g"
      "drop_bit 12 (pgmem st (pte_at n)) = g"
      using I(5) n na(2) by (auto simp: heap_maps_def)
    have "g \<noteq> f" using heap_maps_inj [OF I(5) n H na(2)] pf g(2) na(1) by metis
    then show "\<exists>g \<in> fp_used (cur_fp st'). a = FRAMETOPHYADDR g \<and> drop_bit 12 (pgmem st' (pte_at n)) = g"
      using g R by (auto simp: cur pte [OF n na(1)])
  next
    fix n n' a
    assume n: "n \<in> H" "n' \<in> H" and "page_frame (pgmem st') n = Some a"
      "page_frame (pgmem st') n' = Some a"
    then show "n = n'"
      using heap_maps_inj [OF I(5) n]
      by (simp add: pfr [OF Hn [OF n(1)]] pfr [OF Hn [OF n(2)]] split: if_splits)
  qed
  moreover have "frame_small fp'" using R I(2) by (simp add: frame_small_def)
  ultimately have "mmu_inv H st'" using I R tok [of 0] cur by (simp add: mmu_inv_def)
  moreover have "walk (pgmem st') KERN_PGD_START_BASE va'
         = (if vpage va' = vpage va then None else walk (pgmem st) KERN_PGD_START_BASE va')" for va'
    using walk_page_frame [OF tok [of 0]] walk_page_frame [OF I(3)] pfr [OF vpage_bound] by simp
  ultimately show ?thesis using R cur by simp
qed

text \<open>Freeing a mapped heap page whose frame the pool accepts removes exactly its translation
  and returns exactly its frame; the invariant is kept.\<close>

theorem free_page_unmaps:
  fixes va :: u32
  assumes "mmu_inv H st" and "vpage va \<in> H"
    and "page_frame (pgmem st) (vpage va) = Some (FRAMETOPHYADDR f)"
    and "HEAP_FRAME_START \<le> f" and "f < HEAP_FRAME_START + HEAP_FRAME_NUM"
    and "f \<notin> fp_pinned (cur_fp st)"
  shows "fp_used (cur_fp (free_page va st)) = fp_used (cur_fp st) - {f}
    \<and> mmu_inv H (free_page va st)
    \<and> (\<forall>va'. walk (pgmem (free_page va st)) KERN_PGD_START_BASE va'
         = (if vpage va' = vpage va then None else walk (pgmem st) KERN_PGD_START_BASE va'))"
  by (rule free_page_core [OF assms])

text \<open>Taking a fault on an unmapped heap page and freeing the page again gives back the frame:
  the set of used frames and every translation are what they were before the fault.\<close>

theorem fault_free_roundtrip:
  fixes va :: u32
  assumes "mmu_inv H st" and "vpage va \<in> H" and "walk (pgmem st) KERN_PGD_START_BASE va = None"
    and "fp_used (cur_fp st) \<noteq> fp_pool (cur_fp st)"
    and "\<And>f. f \<in> fp_pool (cur_fp st) - fp_used (cur_fp st) \<Longrightarrow> f \<notin> fp_pinned (cur_fp st)
      \<and> HEAP_FRAME_START \<le> f \<and> f < HEAP_FRAME_START + HEAP_FRAME_NUM"
  defines "st' \<equiv> free_page va (handle_fault va KERN_PGD_START_BASE st)"
  shows "fp_used (cur_fp st') = fp_used (cur_fp st) \<and> mmu_inv H st'
    \<and> walk (pgmem st') KERN_PGD_START_BASE = walk (pgmem st) KERN_PGD_START_BASE"
proof -
  let ?st1 = "handle_fault va KERN_PGD_START_BASE st"
  obtain f fp' where get: "get_frame (cur_fp st) = (f, fp')" by (cases "get_frame (cur_fp st)")
  have I: "framepool_wf (cur_fp st)" "tables_ok (pgmem st)" using assms(1) by (simp_all add: mmu_inv_def)
  have tok: "tables_ok (pgmem st)" using I(2) .
  note fresh = fpool.alloc_fresh [OF I(1) assms(4) get]
  note cur = handle_fault_mem(1) [OF I(2) get, where va = va]
  have rng: "HEAP_FRAME_START \<le> f" "f < HEAP_FRAME_START + HEAP_FRAME_NUM"
    "f \<notin> fp_pinned (cur_fp ?st1)" using assms(5) fresh cur by simp_all
  have pf: "page_frame (pgmem ?st1) (vpage va) = Some (FRAMETOPHYADDR f)"
    using handle_fault_page_frame(1) [OF tok get vpage_bound [of va], where va = va] by simp
  have none: "walk (pgmem st) KERN_PGD_START_BASE va' = None" if "vpage va' = vpage va" for va'
    using assms(3) that by (simp add: walk_page_frame [OF tok])
  show ?thesis
    using free_page_core [OF fault_inv [OF assms(1,2,4) get] assms(2) pf rng]
      walk_after_fault [OF tok get, of va] fresh cur none
    unfolding st'_def by (auto simp: fun_eq_iff)
qed

section \<open>Concrete instances\<close>

text \<open>The kernel pool before the first fault, with empty tables, and the pages of the heap.\<close>

definition first_mmu :: "u32 \<Rightarrow> mmu" where
  "first_mmu n = \<lparr>pgmem = (\<lambda>_. 0), fpools = (\<lambda>_. init_framepool zero_pool KERN_FRAME_START n 0),
     pgts = (\<lambda>_. \<lparr>paging_enabled = 0, pframepool = 0, shared_size = 0, ppage_table = 0,
       ppage_dir = 0, VMcnt = 0\<rparr>), pcurrentpgt = 0\<rparr>"

definition heap_pages :: "nat set" where "heap_pages = {0xC4000..<0xC8000}"

lemma first_mmu_fp: "cur_fp (first_mmu n) = init_framepool zero_pool KERN_FRAME_START n 0"
  by (simp add: cur_fp_def first_mmu_def)

lemma first_mmu_tables: "tables_ok (pgmem (first_mmu n))" "page_frame (pgmem (first_mmu n)) k = None"
  by (simp_all add: tables_ok_def page_frame_def first_mmu_def)

lemma first_mmu_pool:
  "fp_pool (cur_fp (first_mmu KERN_FRAME_NUM)) = of_nat ` {..<32768}"
  "fp_used (cur_fp (first_mmu KERN_FRAME_NUM)) = of_nat ` {..<16384}"
  "fp_pinned (cur_fp (first_mmu KERN_FRAME_NUM)) = {}"
  using init_kernel_frames [of zero_pool]
  by (simp_all add: first_mmu_fp fp_pool_def fp_used_def frame_of_def fp_pinned_def
      init_framepool_fields zero_pool_def)

lemma first_mmu_free:
  assumes "f \<in> fp_pool (cur_fp (first_mmu KERN_FRAME_NUM)) - fp_used (cur_fp (first_mmu KERN_FRAME_NUM))"
  shows "16384 \<le> unat f \<and> unat f < 32768"
proof -
  obtain k where k: "k < 32768" "f = of_nat k" "k \<notin> {..<16384}"
    using assms by (auto simp: first_mmu_pool)
  then have "unat f = k" by (simp add: unsigned_of_nat take_bit_nat_eq_self)
  then show ?thesis using k by simp
qed

lemma first_mmu_not_full:
  "fp_used (cur_fp (first_mmu KERN_FRAME_NUM)) \<noteq> fp_pool (cur_fp (first_mmu KERN_FRAME_NUM))"
proof
  assume "fp_used (cur_fp (first_mmu KERN_FRAME_NUM)) = fp_pool (cur_fp (first_mmu KERN_FRAME_NUM))"
  moreover have "of_nat 20000 \<in> fp_pool (cur_fp (first_mmu KERN_FRAME_NUM))"
    unfolding first_mmu_pool by (rule imageI) simp
  ultimately have "of_nat 20000 \<in> fp_used (cur_fp (first_mmu KERN_FRAME_NUM))" by simp
  then obtain k where k: "k < 16384" "(of_nat 20000 :: u32) = of_nat k"
    unfolding first_mmu_pool by (elim imageE) simp
  have "unat (of_nat 20000 :: u32) = 20000" by simp
  moreover have "unat (of_nat k :: u32) = k" using k(1) by (simp add: unsigned_of_nat take_bit_nat_eq_self)
  ultimately show False using k by simp
qed

lemma first_mmu_inv: "mmu_inv heap_pages (first_mmu KERN_FRAME_NUM)"
proof -
  have "unat f < 2 ^ 20" if "f \<in> of_nat ` {..<32768}" for f :: u32
    using that by (auto simp: unsigned_of_nat take_bit_nat_eq_self)
  then show ?thesis
    using init_kernel_frames(1) [of zero_pool] first_mmu_tables
    by (auto simp: mmu_inv_def frame_small_def first_mmu_pool(1) heap_maps_def heap_pages_def)
      (simp add: first_mmu_fp)
qed

lemma heap_page: "vpage 0xC4000123 \<in> heap_pages" by (simp add: vpage_def heap_pages_def)

theorem handle_fault_maps_fresh_frame_witness:
  "\<exists>f. walk (pgmem (handle_fault 0xC4000123 KERN_PGD_START_BASE (first_mmu KERN_FRAME_NUM)))
     KERN_PGD_START_BASE 0xC4000456 = Some (FRAMETOPHYADDR f OR 0x456)"
  using handle_fault_maps_fresh_frame [OF first_mmu_inv heap_page first_mmu_not_full]
  by (auto simp: vpage_def)

theorem handle_fault_exhausted_maps_garbage_witness:
  "walk (pgmem (handle_fault 0xC4000123 KERN_PGD_START_BASE (first_mmu 0))) KERN_PGD_START_BASE
     0xC4000123 = Some 0xFFFFF123"
proof -
  have wf: "framepool_wf (cur_fp (first_mmu 0))"
    unfolding first_mmu_fp by (rule init_framepool_wf) (simp_all add: KERN_FRAME_START_def)
  have "fp_used (cur_fp (first_mmu 0)) = fp_pool (cur_fp (first_mmu 0))"
    by (simp add: first_mmu_fp fp_used_def fp_pool_def frames_def init_framepool_fields)
  from handle_fault_exhausted_maps_garbage [OF wf first_mmu_tables(1) this, where va = "0xC4000123"]
  show ?thesis by simp
qed

theorem fault_free_roundtrip_witness:
  "walk (pgmem (free_page 0xC4000123 (handle_fault 0xC4000123 KERN_PGD_START_BASE
     (first_mmu KERN_FRAME_NUM)))) KERN_PGD_START_BASE 0xC4000123 = None"
proof -
  have n: "walk (pgmem (first_mmu KERN_FRAME_NUM)) KERN_PGD_START_BASE 0xC4000123 = None"
    by (simp add: walk_page_frame [OF first_mmu_tables(1)] first_mmu_tables(2))
  show ?thesis
    using fault_free_roundtrip [OF first_mmu_inv heap_page n first_mmu_not_full] first_mmu_free n
    by (simp add: first_mmu_pool(3) word_le_nat_alt word_less_nat_alt HEAP_FRAME_START_def
        HEAP_FRAME_NUM_def)
qed

theorem free_page_unmaps_witness:
  "\<exists>st f. fp_used (cur_fp (free_page 0xC4000123 st)) = fp_used (cur_fp st) - {f}
    \<and> walk (pgmem st) KERN_PGD_START_BASE 0xC4000123 \<noteq> None
    \<and> walk (pgmem (free_page 0xC4000123 st)) KERN_PGD_START_BASE 0xC4000123 = None"
proof -
  let ?st = "first_mmu KERN_FRAME_NUM" and ?va = "0xC4000123 :: u32"
  let ?st1 = "handle_fault ?va KERN_PGD_START_BASE ?st"
  obtain f fp' where get: "get_frame (cur_fp ?st) = (f, fp')" by (cases "get_frame (cur_fp ?st)")
  have wf: "framepool_wf (cur_fp ?st)" using first_mmu_inv by (simp add: mmu_inv_def)
  note fresh = fpool.alloc_fresh [OF wf first_mmu_not_full get]
  note cur = handle_fault_mem(1) [OF first_mmu_tables(1) get, where va = ?va]
  have pf: "page_frame (pgmem ?st1) (vpage ?va) = Some (FRAMETOPHYADDR f)"
    using handle_fault_page_frame(1) [OF first_mmu_tables(1) get vpage_bound [of ?va], where va = ?va]
    by simp
  have r: "16384 \<le> unat f \<and> unat f < 32768" using first_mmu_free fresh by blast
  have rng: "HEAP_FRAME_START \<le> f" "f < HEAP_FRAME_START + HEAP_FRAME_NUM"
    "f \<notin> fp_pinned (cur_fp ?st1)"
    using r fresh cur
    by (simp_all add: word_le_nat_alt word_less_nat_alt HEAP_FRAME_START_def HEAP_FRAME_NUM_def
        first_mmu_pool(3))
  show ?thesis
    using free_page_unmaps [OF fault_inv [OF first_mmu_inv heap_page first_mmu_not_full get] heap_page pf rng]
      walk_after_fault [OF first_mmu_tables(1) get, of ?va ?va]
    by (intro exI [of _ ?st1] exI [of _ f]) simp
qed

end
