(* ===== verification/VmPool.thy ===== *)
theory VmPool
  imports PageTable "HOL-Library.Monad_Syntax"
begin

unbundle bit_operations_syntax

text \<open>
  The virtual memory pool (src/kernel/core/vm_pool.c): a chain of region descriptors that starts in
  the first page of the pool, a bump pointer (\<open>region_size_total\<close>), and the release of a region,
  which gives its pages back through \<open>free_page\<close>. Descriptors are read from memory by address
  (\<open>regions\<close>), NULL is address 0; a walk along the chain that does not end is \<open>None\<close>.
\<close>

section \<open>State\<close>

record region_desc =
  startAddr :: u32
  rsize :: u32
  rnext :: u32
  rprev :: u32

record vmpool =
  base_address :: u32
  vsize :: u32
  plast_region :: u32
  region_num :: u32
  region_size_total :: u32
  ppagetable :: u32

record vms =
  mm_mmu :: mmu
  regions :: "u32 \<Rightarrow> region_desc"
  vmpools :: "u32 \<Rightarrow> vmpool"

definition PAGE_SIZE :: u32 where "PAGE_SIZE = 4 * 1024"
definition PAGE_SIZE_SHIFT :: nat where "PAGE_SIZE_SHIFT = 12"
definition PAGE_SIZE_MASK :: u32 where "PAGE_SIZE_MASK = 0x00000FFF"

text \<open>\<open>plast_region + 1\<close> moves by the size of a descriptor.\<close>

definition REGION_DESC_SIZE :: u32 where "REGION_DESC_SIZE = 16"

definition upd_region :: "u32 \<Rightarrow> (region_desc \<Rightarrow> region_desc) \<Rightarrow> vms \<Rightarrow> vms" where
  "upd_region p f st = st\<lparr>regions := (regions st)(p := f (regions st p))\<rparr>"

definition upd_pool :: "u32 \<Rightarrow> (vmpool \<Rightarrow> vmpool) \<Rightarrow> vms \<Rightarrow> vms" where
  "upd_pool v f st = st\<lparr>vmpools := (vmpools st)(v := f (vmpools st v))\<rparr>"

section \<open>Operations\<close>

definition init_vmpool :: "u32 \<Rightarrow> u32 \<Rightarrow> u32 \<Rightarrow> u32 \<Rightarrow> vms \<Rightarrow> vms" where
  "init_vmpool v pagetable base sz st =
     (let st1 = upd_pool v (\<lambda>p. p\<lparr>ppagetable := pagetable, base_address := base, vsize := sz,
                  plast_region := base\<rparr>) st;
          st2 = upd_region base (\<lambda>r. r\<lparr>startAddr := base, rsize := PAGE_SIZE, rprev := 0,
                  rnext := 0\<rparr>) st1
      in upd_pool v (\<lambda>p. p\<lparr>region_size_total := PAGE_SIZE\<rparr>) st2)"

definition region_pages :: "u32 \<Rightarrow> u32" where
  "region_pages sz =
     drop_bit PAGE_SIZE_SHIFT sz + (if sz AND PAGE_SIZE_MASK \<noteq> 0 then 1 else 0)"

text \<open>\<open>while (plast_region->next) plast_region = plast_region->next;\<close>\<close>

partial_function (option) last_region :: "(u32 \<Rightarrow> region_desc) \<Rightarrow> u32 \<Rightarrow> u32 option" where
  "last_region rs p = (if rnext (rs p) \<noteq> 0 then last_region rs (rnext (rs p)) else Some p)"

definition allocate :: "u32 \<Rightarrow> u32 \<Rightarrow> vms \<Rightarrow> (u32 \<times> vms) option" where
  "allocate v sz st =
     do {
       let pgnum = region_pages sz;
       last \<leftarrow> (if plast_region (vmpools st v) = 0
                then last_region (regions st) (base_address (vmpools st v))
                else Some (plast_region (vmpools st v)));
       let nw = last + REGION_DESC_SIZE;
       let st1 = upd_region last (\<lambda>r. r\<lparr>rnext := nw\<rparr>) st;
       let st2 = upd_region nw (\<lambda>r. r\<lparr>rprev := last\<rparr>) st1;
       let start = base_address (vmpools st v) + region_size_total (vmpools st v);
       let st3 = upd_region nw (\<lambda>r. r\<lparr>startAddr := start, rsize := sz, rnext := 0\<rparr>) st2;
       let st4 = upd_pool v (\<lambda>p. p\<lparr>plast_region := nw,
                   region_size_total := region_size_total p + PAGE_SIZE * pgnum\<rparr>) st3;
       Some (startAddr (regions st4 nw), st4)
     }"

text \<open>The search of \<open>release\<close> for the descriptor of a start address, 0 when there is none.\<close>

partial_function (option) find_region :: "(u32 \<Rightarrow> region_desc) \<Rightarrow> u32 \<Rightarrow> u32 \<Rightarrow> u32 option" where
  "find_region rs start pcur =
     (if pcur = 0 then Some 0
      else if startAddr (rs pcur) = start then Some pcur
      else find_region rs start (rnext (rs pcur)))"

definition unlink_region :: "u32 \<Rightarrow> vms \<Rightarrow> vms" where
  "unlink_region pcur st =
     (let st1 = upd_region (rprev (regions st pcur)) (\<lambda>r. r\<lparr>rnext := rnext (regions st pcur)\<rparr>) st;
          nx = rnext (regions st1 pcur)
      in if nx \<noteq> 0 then upd_region nx (\<lambda>r. r\<lparr>rprev := rprev (regions st1 pcur)\<rparr>) st1 else st1)"

definition free_region_pages :: "u32 \<Rightarrow> u32 \<Rightarrow> mmu \<Rightarrow> mmu" where
  "free_region_pages start pgnum =
     for_upto (unat pgnum) (\<lambda>i. free_page (start + PAGE_SIZE * of_nat i))"

definition release :: "u32 \<Rightarrow> u32 \<Rightarrow> vms \<Rightarrow> vms option" where
  "release v start st =
     do {
       pcur \<leftarrow> find_region (regions st) start (base_address (vmpools st v));
       let st1 = (if pcur \<noteq> 0 then
            (let st1 = unlink_region pcur st;
                 pgnum = region_pages (rsize (regions st1 pcur));
                 m = free_region_pages start pgnum (mm_mmu st1);
                 st2 = st1\<lparr>mm_mmu := load_pagetable (ppagetable (vmpools st1 v)) m\<rparr>
             in upd_pool v (\<lambda>p. p\<lparr>region_size_total := region_size_total p - pgnum * PAGE_SIZE\<rparr>) st2)
          else st);
       if startAddr (regions st1 (plast_region (vmpools st1 v))) = start then
         do {
           last \<leftarrow> last_region (regions st1) (base_address (vmpools st1 v));
           Some (upd_pool v (\<lambda>p. p\<lparr>plast_region := last\<rparr>) st1)
         }
       else Some st1
     }"

section \<open>The chain of descriptors\<close>

primrec rchain :: "(u32 \<Rightarrow> region_desc) \<Rightarrow> u32 \<Rightarrow> u32 list \<Rightarrow> bool" where
  "rchain rs pr [] \<longleftrightarrow> True"
| "rchain rs pr (p # ps) \<longleftrightarrow>
     p \<noteq> 0 \<and> rprev (rs p) = pr \<and> rnext (rs p) = (case ps of [] \<Rightarrow> 0 | q # _ \<Rightarrow> q) \<and> rchain rs p ps"

text \<open>The regions lie one after the other: the end of each is the start of the next.\<close>

definition region_end :: "region_desc \<Rightarrow> u32" where
  "region_end r = startAddr r + PAGE_SIZE * region_pages (rsize r)"

primrec contiguous :: "(u32 \<Rightarrow> region_desc) \<Rightarrow> u32 \<Rightarrow> u32 list \<Rightarrow> u32 \<Rightarrow> bool" where
  "contiguous rs a [] e \<longleftrightarrow> a = e"
| "contiguous rs a (p # ps) e \<longleftrightarrow> startAddr (rs p) = a \<and> contiguous rs (region_end (rs p)) ps e"

text \<open>A pool whose live regions are a stack: the descriptors fill the first slots of the first page
  and the regions are laid out without holes.\<close>

definition slot :: "u32 \<Rightarrow> nat \<Rightarrow> u32" where "slot base i = base + of_nat (16 * i)"

definition vm_stack :: "u32 \<Rightarrow> nat \<Rightarrow> vms \<Rightarrow> bool" where
  "vm_stack v n st \<longleftrightarrow>
     (let p = vmpools st v; base = base_address p in
        0 < n \<and> n \<le> 256 \<and> 0 < unat base \<and> unat base + 4096 \<le> 2 ^ 32
      \<and> rchain (regions st) 0 (map (slot base) [0..<n])
      \<and> plast_region p = slot base (n - 1)
      \<and> contiguous (regions st) base (map (slot base) [0..<n]) (base + region_size_total p))"

lemma unat_slot:
  assumes "unat base + 4096 \<le> 2 ^ 32" and "i < 256"
  shows "unat (slot base i) = unat base + 16 * i"
  unfolding slot_def by (rule unat_add_below) (use assms in simp)

lemma slot_inj:
  assumes "unat base + 4096 \<le> 2 ^ 32" and "i < 256" and "j < 256"
  shows "slot base i = slot base j \<longleftrightarrow> i = j"
proof
  assume "slot base i = slot base j"
  then have "unat base + 16 * i = unat base + 16 * j"
    using unat_slot [OF assms(1,2)] unat_slot [OF assms(1,3)] by metis
  then show "i = j" by simp
qed simp

lemma slot_nonzero:
  assumes "0 < unat base" and "unat base + 4096 \<le> 2 ^ 32" and "i < 256"
  shows "slot base i \<noteq> 0"
  using unat_slot [OF assms(2,3)] assms(1) by (metis add_is_0 neq0_conv unsigned_0)

lemma REGION_DESC_nonzero: "REGION_DESC_SIZE \<noteq> 0"
  by (simp add: REGION_DESC_SIZE_def)

lemma slot_Suc: "slot base i + REGION_DESC_SIZE = slot base (Suc i)"
  by (simp add: slot_def REGION_DESC_SIZE_def algebra_simps)

lemma rchain_cong:
  "(\<And>p. p \<in> set ps \<Longrightarrow> rprev (rs' p) = rprev (rs p) \<and> rnext (rs' p) = rnext (rs p)) \<Longrightarrow>
   rchain rs' pr ps = rchain rs pr ps"
  by (induction ps arbitrary: pr) auto

lemma contiguous_cong:
  "(\<And>p. p \<in> set ps \<Longrightarrow> startAddr (rs' p) = startAddr (rs p) \<and> rsize (rs' p) = rsize (rs p)) \<Longrightarrow>
   contiguous rs' a ps e = contiguous rs a ps e"
  by (induction ps arbitrary: a) (auto simp: region_end_def)

lemma contiguous_append:
  "contiguous rs a (ps @ qs) e \<longleftrightarrow> (\<exists>m. contiguous rs a ps m \<and> contiguous rs m qs e)"
  by (induction ps arbitrary: a) auto

lemma next_hd: "(case ps @ [q] of [] \<Rightarrow> 0 | x # _ \<Rightarrow> x) = hd (ps @ [q])"
  "(case ps @ [q, q'] of [] \<Rightarrow> 0 | x # _ \<Rightarrow> x) = hd (ps @ [q])"
  by (cases ps; simp)+

text \<open>Appending a descriptor at the end of a chain, and taking the last one off.\<close>

lemma rchain_snoc:
  assumes "rchain rs pr (ps @ [q])" and "q' \<noteq> 0"
    and "\<And>p. p \<in> set ps \<Longrightarrow> rprev (rs' p) = rprev (rs p) \<and> rnext (rs' p) = rnext (rs p)"
    and "rprev (rs' q) = rprev (rs q)" and "rnext (rs' q) = q'" and "rprev (rs' q') = q"
    and "rnext (rs' q') = 0"
  shows "rchain rs' pr (ps @ [q, q'])"
  using assms
proof (induction ps arbitrary: pr)
  case (Cons p ps)
  have "rchain rs' p (ps @ [q, q'])" using Cons by simp
  then show ?case using Cons.prems(1) Cons.prems(3) [of p] by (simp add: next_hd)
qed simp

lemma rchain_butlast:
  assumes "rchain rs pr (ps @ [q, q'])"
    and "\<And>p. p \<in> set ps \<Longrightarrow> rprev (rs' p) = rprev (rs p) \<and> rnext (rs' p) = rnext (rs p)"
    and "rprev (rs' q) = rprev (rs q)" and "rnext (rs' q) = 0"
  shows "rchain rs' pr (ps @ [q])"
  using assms
proof (induction ps arbitrary: pr)
  case (Cons p ps)
  have "rchain rs' p (ps @ [q])" using Cons by simp
  then show ?case using Cons.prems(1) Cons.prems(2) [of p] by (simp add: next_hd)
qed simp

lemma last_region_chain:
  "rchain rs pr (p # ps) \<Longrightarrow> last_region rs p = Some (last (p # ps))"
proof (induction ps arbitrary: pr p)
  case Nil
  then show ?case by (simp add: last_region.simps)
next
  case (Cons q ps)
  then have q: "rnext (rs p) = q" "q \<noteq> 0" "rchain rs p (q # ps)" by simp_all
  then have "last_region rs p = last_region rs q" by (subst last_region.simps) simp
  then show ?case using Cons.IH [OF q(3)] by simp
qed

lemma find_region_chain:
  assumes "rchain rs pr (ps @ q # qs)" and "\<And>p. p \<in> set ps \<Longrightarrow> startAddr (rs p) \<noteq> start"
    and "startAddr (rs q) = start"
  shows "find_region rs start (hd (ps @ q # qs)) = Some q"
  using assms
proof (induction ps arbitrary: pr)
  case Nil
  then show ?case by (subst find_region.simps) simp
next
  case (Cons p ps)
  have nx: "rnext (rs p) = hd (ps @ q # qs)" "p \<noteq> 0" "startAddr (rs p) \<noteq> start"
    "rchain rs p (ps @ q # qs)"
    using Cons.prems by (auto split: list.splits)
  then show ?case using Cons.IH [OF nx(4)] Cons.prems by (subst find_region.simps) simp
qed

lemma rchain_last:
  assumes "rchain rs pr (ps @ [q, q'])"
  shows "rprev (rs q') = q" and "rnext (rs q') = 0"
  using assms by (induction ps arbitrary: pr; force)+

section \<open>Each operation on a stack of regions\<close>

lemma slots_Suc: "map (slot base) [0..<Suc n] = map (slot base) [0..<n] @ [slot base n]"
  by simp

lemma slots_two:
  "0 < n \<Longrightarrow> map (slot base) [0..<Suc n]
     = map (slot base) [0..<n - 1] @ [slot base (n - 1), slot base n]"
  by (cases n) simp_all

lemma slots_last: "0 < n \<Longrightarrow> map (slot base) [0..<n] = map (slot base) [0..<n - 1] @ [slot base (n - 1)]"
  by (cases n) simp_all

lemma region_pages_PAGE_SIZE: "region_pages PAGE_SIZE = 1"
  by (simp add: region_pages_def PAGE_SIZE_def PAGE_SIZE_SHIFT_def PAGE_SIZE_MASK_def)

lemma init_vmpool_stack:
  assumes "0 < unat base" and "unat base + 4096 \<le> 2 ^ 32"
  shows "vm_stack v 1 (init_vmpool v pt base sz st)"
  using assms
  by (auto simp: vm_stack_def init_vmpool_def upd_pool_def upd_region_def Let_def slot_def
      region_end_def region_pages_PAGE_SIZE unat_eq_0 word_gt_0_no intro: gr0I)

lemma allocate_stack:
  assumes vs: "vm_stack v n st" and n: "n < 256"
  defines "p \<equiv> vmpools st v"
  defines "a \<equiv> base_address p + region_size_total p"
  shows "\<exists>st'. allocate v sz st = Some (a, st') \<and> vm_stack v (Suc n) st'
    \<and> vmpools st' v = p\<lparr>plast_region := slot (base_address p) n,
         region_size_total := region_size_total p + PAGE_SIZE * region_pages sz\<rparr>
    \<and> mm_mmu st' = mm_mmu st
    \<and> startAddr (regions st' (slot (base_address p) n)) = a
    \<and> rsize (regions st' (slot (base_address p) n)) = sz
    \<and> (\<forall>q. q \<noteq> slot (base_address p) n \<longrightarrow>
         startAddr (regions st' q) = startAddr (regions st q) \<and> rsize (regions st' q) = rsize (regions st q)
       \<and> (q \<noteq> slot (base_address p) (n - 1) \<longrightarrow> regions st' q = regions st q))"
proof -
  define base where "base = base_address p"
  define rs where "rs = regions st"
  have S: "0 < n" "0 < unat base" "unat base + 4096 \<le> 2 ^ 32"
    "rchain rs 0 (map (slot base) [0..<n])" "plast_region p = slot base (n - 1)"
    "contiguous rs base (map (slot base) [0..<n]) a"
    using vs by (simp_all add: vm_stack_def Let_def base_def p_def rs_def a_def)
  have nz: "slot base (n - 1) \<noteq> 0" "slot base n \<noteq> 0" using S n by (simp_all add: slot_nonzero)
  have ne: "slot base (n - 1) \<noteq> slot base n" using S n slot_inj [OF S(3), of "n - 1" n] by simp
  have fresh: "slot base i \<noteq> slot base n" "i < n - 1 \<Longrightarrow> slot base i \<noteq> slot base (n - 1)" if "i < n" for i
    using that n slot_inj [OF S(3), of i n] slot_inj [OF S(3), of i "n - 1"] by simp_all
  have nw: "slot base (n - 1) + REGION_DESC_SIZE = slot base n" using S(1) by (simp add: slot_Suc)
  define rs' where "rs' = rs(slot base (n - 1) := (rs (slot base (n - 1)))\<lparr>rnext := slot base n\<rparr>,
      slot base n := (rs (slot base n))\<lparr>rprev := slot base (n - 1), startAddr := a, rsize := sz, rnext := 0\<rparr>)"
  define p' where "p' = p\<lparr>plast_region := slot base n,
      region_size_total := region_size_total p + PAGE_SIZE * region_pages sz\<rparr>"
  let ?st' = "st\<lparr>regions := rs', vmpools := (vmpools st)(v := p')\<rparr>"
  have al: "allocate v sz st = Some (a, ?st')"
    using S(5) nz ne ne [symmetric] nw REGION_DESC_nonzero
    by (simp add: allocate_def Let_def upd_region_def upd_pool_def p_def [symmetric] rs_def [symmetric]
        base_def [symmetric] a_def rs'_def p'_def fun_upd_twist)
  have ch: "rchain rs' 0 (map (slot base) [0..<Suc n])"
    unfolding slots_two [OF S(1)]
  proof (rule rchain_snoc)
    show "rchain rs 0 (map (slot base) [0..<n - 1] @ [slot base (n - 1)])"
      using S(4) by (simp only: slots_last [OF S(1)])
    show "rprev (rs' q) = rprev (rs q) \<and> rnext (rs' q) = rnext (rs q)"
      if "q \<in> set (map (slot base) [0..<n - 1])" for q
      using that fresh by (auto simp: rs'_def)
  qed (use nz ne in \<open>simp_all add: rs'_def\<close>)
  have co: "contiguous rs' base (map (slot base) [0..<Suc n]) (base + region_size_total p')"
  proof -
    have "contiguous rs' base (map (slot base) [0..<n]) a = contiguous rs base (map (slot base) [0..<n]) a"
      by (rule contiguous_cong) (use fresh in \<open>auto simp: rs'_def\<close>)
    then show ?thesis
      unfolding slots_Suc contiguous_append
      using S(6) by (intro exI [of _ a]) (simp add: rs'_def region_end_def a_def p'_def base_def)
  qed
  have "vm_stack v (Suc n) ?st'"
    using S n ch co by (simp add: vm_stack_def Let_def p'_def base_def)
  then show ?thesis
    using al by (auto simp: rs'_def rs_def p'_def base_def)
qed

lemma find_last_slot:
  assumes "rchain rs 0 (map (slot base) [0..<Suc n])"
    and "\<forall>i < n. startAddr (rs (slot base i)) \<noteq> a" and "startAddr (rs (slot base n)) = a"
  shows "find_region rs a base = Some (slot base n)"
proof -
  have "hd (map (slot base) [0..<n] @ [slot base n]) = base"
    by (cases n) (simp_all add: slot_def upt_conv_Cons del: upt_Suc)
  then show ?thesis
    using find_region_chain [OF assms(1) [unfolded slots_Suc] _ assms(3)] assms(2) by force
qed

lemma release_stack:
  assumes vs: "vm_stack v (Suc n) st" and n: "0 < n"
  defines "p \<equiv> vmpools st v"
  defines "base \<equiv> base_address p"
  defines "r \<equiv> regions st (slot base n)"
  assumes distinct: "\<forall>i < n. startAddr (regions st (slot base i)) \<noteq> startAddr r"
  shows "\<exists>st'. release v (startAddr r) st = Some st' \<and> vm_stack v n st'
    \<and> vmpools st' v = p\<lparr>region_size_total := region_size_total p - PAGE_SIZE * region_pages (rsize r),
         plast_region := slot base (n - 1)\<rparr>
    \<and> mm_mmu st' = load_pagetable (ppagetable p)
         (free_region_pages (startAddr r) (region_pages (rsize r)) (mm_mmu st))
    \<and> (\<forall>q. q \<noteq> slot base (n - 1) \<longrightarrow> regions st' q = regions st q)
    \<and> regions st' (slot base (n - 1)) = (regions st (slot base (n - 1)))\<lparr>rnext := 0\<rparr>"
proof -
  define rs where "rs = regions st"
  have S: "Suc n \<le> 256" "0 < unat base" "unat base + 4096 \<le> 2 ^ 32"
    "rchain rs 0 (map (slot base) [0..<Suc n])" "plast_region p = slot base n"
    "contiguous rs base (map (slot base) [0..<Suc n]) (base + region_size_total p)"
    using vs by (simp_all add: vm_stack_def Let_def base_def p_def rs_def)
  have fresh: "slot base i \<noteq> slot base (n - 1)" "slot base i \<noteq> slot base n" if "i < n - 1" for i
    using that S(1) slot_inj [OF S(3), of i n] slot_inj [OF S(3), of i "n - 1"] by simp_all
  have ne: "slot base (n - 1) \<noteq> slot base n" using S n slot_inj [OF S(3), of "n - 1" n] by simp
  have nz: "slot base n \<noteq> 0" "slot base (n - 1) \<noteq> 0" using S by (simp_all add: slot_nonzero)
  note ln = rchain_last [OF S(4) [unfolded slots_two [OF n]]]
  have find: "find_region rs (startAddr r) base = Some (slot base n)"
    by (rule find_last_slot [OF S(4)]) (use distinct in \<open>simp_all add: r_def rs_def\<close>)
  define rs' where "rs' = rs(slot base (n - 1) := (rs (slot base (n - 1)))\<lparr>rnext := 0\<rparr>)"
  have ch: "rchain rs' 0 (map (slot base) [0..<n])"
    unfolding slots_last [OF n]
    by (rule rchain_butlast [OF S(4) [unfolded slots_two [OF n]]])
       (use fresh in \<open>auto simp: rs'_def\<close>)
  have hd: "hd (map (slot base) [0..<n]) = base" and base: "map (slot base) [0..<n] \<noteq> []"
    using n by (simp_all add: hd_map slot_def)
  then obtain ps where ps: "map (slot base) [0..<n] = base # ps"
    by (cases "map (slot base) [0..<n]") auto
  have last: "last_region rs' base = Some (slot base (n - 1))"
    using last_region_chain [OF ch [unfolded ps]] unfolding ps [symmetric]
    by (simp add: slots_last [OF n])
  have un: "unlink_region (slot base n) st = st\<lparr>regions := rs'\<rparr>"
    using ln ne by (simp add: unlink_region_def upd_region_def Let_def rs_def [symmetric] rs'_def)
  have same: "startAddr (rs' (slot base n)) = startAddr r" "rsize (rs' (slot base n)) = rsize r"
    using ne by (simp_all add: rs'_def r_def rs_def)
  define p' where "p' = p\<lparr>region_size_total := region_size_total p - PAGE_SIZE * region_pages (rsize r),
      plast_region := slot base (n - 1)\<rparr>"
  let ?m = "load_pagetable (ppagetable p)
      (free_region_pages (startAddr r) (region_pages (rsize r)) (mm_mmu st))"
  let ?st' = "st\<lparr>regions := rs', mm_mmu := ?m, vmpools := (vmpools st)(v := p')\<rparr>"
  have rel: "release v (startAddr r) st = Some ?st'"
    using find nz last un same S(5)
    by (simp add: release_def Let_def upd_pool_def p_def [symmetric] rs_def [symmetric]
        base_def [symmetric] p'_def mult.commute)
  have co: "contiguous rs' base (map (slot base) [0..<n]) (base + region_size_total p')"
  proof -
    obtain m where m: "contiguous rs base (map (slot base) [0..<n]) m"
      "startAddr r = m" "region_end r = base + region_size_total p"
      using S(6) unfolding slots_Suc contiguous_append by (auto simp: r_def rs_def)
    have "m = base + region_size_total p'"
      using m(2,3) by (simp add: region_end_def p'_def algebra_simps)
    moreover have "contiguous rs' base (map (slot base) [0..<n]) m"
      using m(1) by (subst contiguous_cong [of _ rs' rs]) (auto simp: rs'_def)
    ultimately show ?thesis by simp
  qed
  have "vm_stack v n ?st'"
    using S n ch co by (simp add: vm_stack_def Let_def p'_def base_def)
  then show ?thesis
    using rel by (intro exI [of _ ?st']) (simp add: rs'_def rs_def p'_def)
qed

section \<open>Properties\<close>

text \<open>On a pool whose regions form a stack, \<open>allocate\<close> returns the address right after the
  last region, keeps the stack and moves the bump pointer by whole pages; no page is mapped yet.\<close>

theorem allocate_bumps:
  assumes "vm_stack v n st" and "n < 256"
  shows "\<exists>st'. allocate v sz st
      = Some (base_address (vmpools st v) + region_size_total (vmpools st v), st')
    \<and> vm_stack v (Suc n) st' \<and> mm_mmu st' = mm_mmu st
    \<and> region_size_total (vmpools st' v) = region_size_total (vmpools st v) + PAGE_SIZE * region_pages sz"
  using allocate_stack [OF assms, of sz] by auto

text \<open>Releasing what was allocated last.\<close>

lemma allocate_release_last:
  assumes "vm_stack v n st" and "n < 256"
    and "\<forall>i < n. startAddr (regions st (slot (base_address (vmpools st v)) i))
      \<noteq> base_address (vmpools st v) + region_size_total (vmpools st v)"
  shows "\<exists>a st1 st2. allocate v sz st = Some (a, st1) \<and> release v a st1 = Some st2
    \<and> vm_stack v n st2 \<and> vmpools st2 v = vmpools st v
    \<and> (\<forall>i < n. regions st2 (slot (base_address (vmpools st v)) i)
          = regions st (slot (base_address (vmpools st v)) i))
    \<and> mm_mmu st2 = load_pagetable (ppagetable (vmpools st v))
        (free_region_pages a (region_pages sz) (mm_mmu st))"
proof -
  let ?base = "base_address (vmpools st v)"
  let ?a = "?base + region_size_total (vmpools st v)"
  have S: "0 < n" "unat ?base + 4096 \<le> 2 ^ 32" "plast_region (vmpools st v) = slot ?base (n - 1)"
    "rchain (regions st) 0 (map (slot ?base) [0..<n])"
    using assms(1) by (simp_all add: vm_stack_def Let_def)
  obtain st1 where st1: "allocate v sz st = Some (?a, st1)" "vm_stack v (Suc n) st1"
    "vmpools st1 v = (vmpools st v)\<lparr>plast_region := slot ?base n,
       region_size_total := region_size_total (vmpools st v) + PAGE_SIZE * region_pages sz\<rparr>"
    "mm_mmu st1 = mm_mmu st" "startAddr (regions st1 (slot ?base n)) = ?a"
    "rsize (regions st1 (slot ?base n)) = sz"
    "\<forall>q. q \<noteq> slot ?base n \<longrightarrow> startAddr (regions st1 q) = startAddr (regions st q)
       \<and> rsize (regions st1 q) = rsize (regions st q)
       \<and> (q \<noteq> slot ?base (n - 1) \<longrightarrow> regions st1 q = regions st q)"
    using allocate_stack [OF assms(1,2), of sz] by auto
  have ne: "slot ?base i \<noteq> slot ?base n" "i \<noteq> n - 1 \<Longrightarrow> slot ?base i \<noteq> slot ?base (n - 1)" if "i < n" for i
    using that assms(2) slot_inj [OF S(2), of i n] slot_inj [OF S(2), of i "n - 1"] by simp_all
  have base1: "base_address (vmpools st1 v) = ?base" by (simp add: st1(3))
  have "\<forall>i < n. startAddr (regions st1 (slot ?base i)) \<noteq> ?a"
    using st1(7) ne assms(3) by simp
  then obtain st2 where st2: "release v ?a st1 = Some st2" "vm_stack v n st2"
    "vmpools st2 v = (vmpools st1 v)\<lparr>region_size_total := region_size_total (vmpools st1 v) - PAGE_SIZE * region_pages sz,
       plast_region := slot ?base (n - 1)\<rparr>"
    "mm_mmu st2 = load_pagetable (ppagetable (vmpools st1 v))
        (free_region_pages ?a (region_pages sz) (mm_mmu st1))"
    "\<forall>q. q \<noteq> slot ?base (n - 1) \<longrightarrow> regions st2 q = regions st1 q"
    "regions st2 (slot ?base (n - 1)) = (regions st1 (slot ?base (n - 1)))\<lparr>rnext := 0\<rparr>"
    using release_stack [OF st1(2) S(1)] base1 st1(5,6) by auto
  have lastr: "regions st2 (slot ?base (n - 1)) = regions st (slot ?base (n - 1))"
  proof -
    let ?q = "slot ?base (n - 1)"
    have ch: "rchain (regions st) 0 (map (slot ?base) [0..<n - 1] @ [?q])"
      using S(4) by (simp only: slots_last [OF S(1)])
    have ch2: "rchain (regions st2) 0 (map (slot ?base) [0..<n - 1] @ [?q])"
      unfolding slots_last [OF S(1), symmetric]
      using st2(2,3) st1(3) by (simp add: vm_stack_def Let_def)
    have e: "rnext (rs q) = 0" "rprev (rs q) = last (pr # ps)" if "rchain rs pr (ps @ [q])" for rs pr ps q
      using that by (induction ps arbitrary: pr) auto
    show ?thesis
      using e [OF ch] e [OF ch2] st2(6) st1(7) ne(1) [of "n - 1"] S(1) by simp
  qed
  have "regions st2 (slot ?base i) = regions st (slot ?base i)" if "i < n" for i
    using lastr st2(5) st1(7) ne [OF that] by (cases "i = n - 1") auto
  moreover have "vmpools st2 v = vmpools st v"
    using S(3) by (simp add: st2(3) st1(3))
  ultimately show ?thesis using st1 st2 by auto
qed

text \<open>Releasing the region allocated last undoes the allocation: the chain, the last pointer
  and the bump pointer are what they were, and exactly the pages of the region go through
  \<open>free_page\<close>.\<close>

theorem allocate_release_roundtrip:
  assumes "vm_stack v n st" and "n < 256"
    and "\<forall>i < n. startAddr (regions st (slot (base_address (vmpools st v)) i))
      \<noteq> base_address (vmpools st v) + region_size_total (vmpools st v)"
  shows "\<exists>a st1 st2. allocate v sz st = Some (a, st1) \<and> release v a st1 = Some st2
    \<and> vm_stack v n st2 \<and> vmpools st2 v = vmpools st v
    \<and> (\<forall>i < n. regions st2 (slot (base_address (vmpools st v)) i)
          = regions st (slot (base_address (vmpools st v)) i))
    \<and> mm_mmu st2 = load_pagetable (ppagetable (vmpools st v))
        (free_region_pages a (region_pages sz) (mm_mmu st))"
  by (rule allocate_release_last [OF assms])

lemma rchain_mid:
  assumes "rchain rs pr (ps @ [a, b, c])"
  shows "rprev (rs b) = a" and "rnext (rs b) = c" and "c \<noteq> 0"
  using assms by (induction ps arbitrary: pr; force)+

lemma slots_three:
  "0 < n \<Longrightarrow> map (slot base) [0..<Suc (Suc n)]
     = map (slot base) [0..<n - 1] @ [slot base (n - 1), slot base n, slot base (Suc n)]"
  by (cases n) simp_all

text \<open>Releasing the last region but one unlinks its descriptor and moves the bump pointer back by its size; the last
  region stays where it is.\<close>

lemma release_inner:
  assumes vs: "vm_stack v (Suc (Suc n)) st" and n: "0 < n"
  defines "p \<equiv> vmpools st v"
  defines "base \<equiv> base_address p"
  defines "r \<equiv> regions st (slot base n)"
  assumes distinct: "\<forall>i < n. startAddr (regions st (slot base i)) \<noteq> startAddr r"
    and last: "startAddr (regions st (slot base (Suc n))) \<noteq> startAddr r"
  shows "\<exists>st'. release v (startAddr r) st = Some st'
    \<and> vmpools st' v = p\<lparr>region_size_total := region_size_total p - PAGE_SIZE * region_pages (rsize r)\<rparr>
    \<and> (\<forall>q. startAddr (regions st' q) = startAddr (regions st q) \<and> rsize (regions st' q) = rsize (regions st q))
    \<and> rnext (regions st' (slot base (n - 1))) = slot base (Suc n)"
proof -
  define rs where "rs = regions st"
  have S: "Suc (Suc n) \<le> 256" "0 < unat base" "unat base + 4096 \<le> 2 ^ 32"
    "rchain rs 0 (map (slot base) [0..<Suc (Suc n)])" "plast_region p = slot base (Suc n)"
    using vs by (simp_all add: vm_stack_def Let_def base_def p_def rs_def)
  note mid = rchain_mid [OF S(4) [unfolded slots_three [OF n]]]
  have ne: "slot base (n - 1) \<noteq> slot base n" "slot base n \<noteq> slot base (Suc n)" "slot base (n - 1) \<noteq> slot base (Suc n)"
    using S n slot_inj [OF S(3), of "n - 1" n] slot_inj [OF S(3), of n "Suc n"] slot_inj [OF S(3), of "n - 1" "Suc n"] by simp_all
  have nz: "slot base n \<noteq> 0" using S by (simp add: slot_nonzero)
  have hd: "hd (map (slot base) [0..<n] @ slot base n # [slot base (Suc n)]) = base"
    using n by (simp add: hd_append hd_map slot_def)
  have "map (slot base) [0..<Suc (Suc n)] = map (slot base) [0..<n] @ slot base n # [slot base (Suc n)]" by simp
  then have find: "find_region rs (startAddr r) base = Some (slot base n)"
    using find_region_chain [of rs 0 "map (slot base) [0..<n]" "slot base n" "[slot base (Suc n)]" "startAddr r"] S(4) distinct hd
    by (force simp: r_def rs_def)
  define rs' where "rs' = rs(slot base (n - 1) := (rs (slot base (n - 1)))\<lparr>rnext := slot base (Suc n)\<rparr>,
      slot base (Suc n) := (rs (slot base (Suc n)))\<lparr>rprev := slot base (n - 1)\<rparr>)"
  have un: "unlink_region (slot base n) st = st\<lparr>regions := rs'\<rparr>"
    using mid ne by (simp add: unlink_region_def upd_region_def Let_def rs_def [symmetric] rs'_def)
  have same: "startAddr (rs' q) = startAddr (rs q)" "rsize (rs' q) = rsize (rs q)" for q by (simp_all add: rs'_def)
  define p' where "p' = p\<lparr>region_size_total := region_size_total p - PAGE_SIZE * region_pages (rsize r)\<rparr>"
  let ?st' = "st\<lparr>regions := rs', mm_mmu := load_pagetable (ppagetable p)
      (free_region_pages (startAddr r) (region_pages (rsize r)) (mm_mmu st)), vmpools := (vmpools st)(v := p')\<rparr>"
  have "rsize (rs (slot base n)) = rsize r" "startAddr (rs (slot base (Suc n))) \<noteq> startAddr r"
    using last by (simp_all add: r_def rs_def)
  then have "release v (startAddr r) st = Some ?st'"
    using find nz un same S(5)
    by (simp add: release_def Let_def upd_pool_def p_def [symmetric] rs_def [symmetric]
        base_def [symmetric] p'_def mult.commute)
  moreover have "rnext (rs' (slot base (n - 1))) = slot base (Suc n)" using ne by (simp add: rs'_def)
  ultimately show ?thesis using same by (intro exI [of _ ?st']) (simp add: rs_def p'_def)
qed

lemma allocate_at:
  assumes "plast_region (vmpools st v) \<noteq> 0"
  shows "\<exists>st'. allocate v sz st = Some (base_address (vmpools st v) + region_size_total (vmpools st v), st')
    \<and> (\<forall>q. q \<noteq> plast_region (vmpools st v) + REGION_DESC_SIZE \<longrightarrow> startAddr (regions st' q) = startAddr (regions st q)
        \<and> rsize (regions st' q) = rsize (regions st q)
        \<and> (q \<noteq> plast_region (vmpools st v) \<longrightarrow> rnext (regions st' q) = rnext (regions st q)))"
  using assms by (simp add: allocate_def upd_region_def upd_pool_def Let_def)

text \<open>The addresses of a region.\<close>

definition region_bytes :: "u32 \<Rightarrow> u32 \<Rightarrow> nat set" where
  "region_bytes a sz = {unat a..<unat a + 4096 * unat (region_pages sz)}"

lemma pages_round_up: "(a + 4095) div 4096 = a div 4096 + (if a mod 4096 = 0 then 0 else 1)" for a :: nat
proof -
  define q r where "q = a div 4096" and "r = a mod 4096"
  have a: "a = r + 4096 * q" and r: "r < 4096" by (simp_all add: q_def r_def)
  have "(a + 4095) div 4096 = (r + 4095) div 4096 + q"
    unfolding a by (simp add: add.commute add.left_commute)
  moreover have "(r + 4095) div 4096 = (if r = 0 then 0 else 1)"
  proof (cases r)
    case (Suc k)
    then have "r + 4095 = k + 4096 * 1" by simp
    then show ?thesis using r Suc by (simp only: div_mult_self2) simp
  qed simp
  ultimately show ?thesis by (simp add: q_def r_def)
qed

lemma unat_region_pages: "unat (region_pages sz) = (unat sz + 4095) div 4096"
proof -
  have d: "unat (drop_bit 12 sz) = unat sz div 4096"
    by (simp add: unat_drop_bit_eq drop_bit_eq_div unat_div)
  have "unat (sz AND PAGE_SIZE_MASK) = unat sz mod 4096"
    by (simp add: PAGE_SIZE_MASK_def mask_consts(5) take_bit_eq_mask [symmetric]
        unsigned_take_bit_eq take_bit_eq_mod unat_mod)
  then have z: "sz AND PAGE_SIZE_MASK = 0 \<longleftrightarrow> unat sz mod 4096 = 0" by (simp add: unat_eq_0 [symmetric])
  have b: "unat sz div 4096 < 2 ^ 20" using vpage_bound [of sz] by (simp add: vpage_def)
  have "unat (drop_bit 12 sz + 1) = unat sz div 4096 + 1"
    using unat_add_below [of "drop_bit 12 sz" 1] b d by simp
  then show ?thesis
    unfolding pages_round_up using d z by (simp add: region_pages_def PAGE_SIZE_SHIFT_def)
qed

lemma region_pages_pos: "sz \<noteq> 0 \<Longrightarrow> 0 < unat (region_pages sz)"
  unfolding unat_region_pages using unat_gt_0 [of sz] by (simp add: div_greater_zero_iff)

text \<open>C33. Regions must be released in reverse order of allocation. On any pool whose regions are a stack: when two
  regions are allocated and the first of them is released, its descriptor is unlinked but the bump pointer moves back by its size, into the
  second one, which is still live; the next region starts as many pages behind the released one as the second one
  has, and it shares addresses with the live second one exactly if the first region has fewer pages than the other two together.\<close>

theorem release_out_of_order_overlaps:
  assumes "vm_stack v n st" and "n < 255" and "s1 \<noteq> 0" and "s2 \<noteq> 0" and "s3 \<noteq> 0"
    and "\<forall>i < n. startAddr (regions st (slot (base_address (vmpools st v)) i))
      \<noteq> base_address (vmpools st v) + region_size_total (vmpools st v)"
    and "unat (base_address (vmpools st v) + region_size_total (vmpools st v))
      + 4096 * (unat (region_pages s1) + unat (region_pages s2) + unat (region_pages s3)) < 2 ^ 32"
  shows "\<exists>a st1 b st2 st3 c st4. allocate v s1 st = Some (a, st1) \<and> allocate v s2 st1 = Some (b, st2)
    \<and> release v a st2 = Some st3 \<and> allocate v s3 st3 = Some (c, st4)
    \<and> rnext (regions st4 (slot (base_address (vmpools st v)) (n - 1))) = slot (base_address (vmpools st v)) (Suc n)
    \<and> startAddr (regions st4 (slot (base_address (vmpools st v)) (Suc n))) = b
    \<and> rsize (regions st4 (slot (base_address (vmpools st v)) (Suc n))) = s2
    \<and> unat c = unat a + 4096 * unat (region_pages s2)
    \<and> (region_bytes b s2 \<inter> region_bytes c s3 \<noteq> {}
        \<longleftrightarrow> unat (region_pages s1) < unat (region_pages s2) + unat (region_pages s3))"
proof -
  let ?base = "base_address (vmpools st v)" and ?t = "region_size_total (vmpools st v)"
  let ?a = "?base + ?t" and ?p1 = "region_pages s1" and ?p2 = "region_pages s2" and ?p3 = "region_pages s3"
  have S: "0 < n" "unat ?base + 4096 \<le> 2 ^ 32" "0 < unat ?base" using assms(1) by (simp_all add: vm_stack_def Let_def)
  have lt: "n < 256" "Suc n < 256" using assms(2) by simp_all
  have ne: "slot ?base i \<noteq> slot ?base j" if "i \<noteq> j" "i \<le> Suc n" "j \<le> Suc n" for i j
    using that assms(2) slot_inj [OF S(2), of i j] by simp
  obtain st1 where st1: "allocate v s1 st = Some (?a, st1)" "vm_stack v (Suc n) st1"
    "vmpools st1 v = (vmpools st v)\<lparr>plast_region := slot ?base n, region_size_total := ?t + PAGE_SIZE * ?p1\<rparr>"
    "startAddr (regions st1 (slot ?base n)) = ?a" "rsize (regions st1 (slot ?base n)) = s1"
    "\<forall>q. q \<noteq> slot ?base n \<longrightarrow> startAddr (regions st1 q) = startAddr (regions st q)"
    using allocate_stack [OF assms(1) lt(1), of s1] by auto
  let ?b = "?a + PAGE_SIZE * ?p1"
  obtain st2 where st2: "allocate v s2 st1 = Some (?b, st2)" "vm_stack v (Suc (Suc n)) st2"
    "vmpools st2 v = (vmpools st v)\<lparr>plast_region := slot ?base (Suc n), region_size_total := ?t + PAGE_SIZE * ?p1 + PAGE_SIZE * ?p2\<rparr>"
    "startAddr (regions st2 (slot ?base (Suc n))) = ?b" "rsize (regions st2 (slot ?base (Suc n))) = s2"
    "\<forall>q. q \<noteq> slot ?base (Suc n) \<longrightarrow> startAddr (regions st2 q) = startAddr (regions st1 q) \<and> rsize (regions st2 q) = rsize (regions st1 q)"
    using allocate_stack [OF st1(2) lt(2), of s2] by (auto simp: st1(3) add.assoc)
  have pos: "0 < unat ?p1" "0 < unat ?p2" "0 < unat ?p3" using assms(3-5) by (simp_all add: region_pages_pos)
  have off: "unat (?a + PAGE_SIZE * q) = unat ?a + 4096 * unat q" if "unat ?a + 4096 * unat q < 2 ^ 32" for q
  proof -
    have "?a + PAGE_SIZE * q = of_nat (unat ?a + 4096 * unat q)" by (simp add: PAGE_SIZE_def)
    then show ?thesis using that by (simp only: unat_of_nat) (simp add: take_bit_nat_eq_self)
  qed
  have b: "unat ?b = unat ?a + 4096 * unat ?p1" by (rule off) (use assms(7) in simp)
  have "?b \<noteq> ?a"
  proof
    assume "?b = ?a"
    then have "unat ?b = unat ?a" by (simp only:)
    then show False using b pos(1) by simp
  qed
  then have last: "startAddr (regions st2 (slot ?base (Suc n))) \<noteq> ?a" by (simp add: st2(4))
  have r: "startAddr (regions st2 (slot ?base n)) = ?a" "rsize (regions st2 (slot ?base n)) = s1"
    using st2(6) st1(4,5) ne [of n "Suc n"] by simp_all
  have "startAddr (regions st2 (slot ?base i)) \<noteq> ?a" if "i < n" for i
    using that st2(6) st1(6) ne [of i n] ne [of i "Suc n"] assms(6) by simp
  then obtain st3 where st3: "release v ?a st2 = Some st3"
    "vmpools st3 v = (vmpools st v)\<lparr>plast_region := slot ?base (Suc n), region_size_total := ?t + PAGE_SIZE * ?p2\<rparr>"
    "\<forall>q. startAddr (regions st3 q) = startAddr (regions st2 q) \<and> rsize (regions st3 q) = rsize (regions st2 q)"
    "rnext (regions st3 (slot ?base (n - 1))) = slot ?base (Suc n)"
    using release_inner [OF st2(2) S(1)] r last by (auto simp: st2(3))
  have nz: "slot ?base (Suc n) \<noteq> 0" using slot_nonzero [OF S(3,2) lt(2)] .
  let ?c = "?a + PAGE_SIZE * ?p2"
  have plast: "plast_region (vmpools st3 v) = slot ?base (Suc n)" "?base + region_size_total (vmpools st3 v) = ?c"
    "base_address (vmpools st3 v) = ?base"
    by (simp_all add: st3(2) add.assoc)
  have nw: "slot ?base (Suc n) + REGION_DESC_SIZE = slot ?base (Suc (Suc n))" by (rule slot_Suc)
  have nw_ne: "slot ?base (Suc n) \<noteq> slot ?base (Suc (Suc n))" "slot ?base (n - 1) \<noteq> slot ?base (Suc (Suc n))"
    using S(1) by (cases n; simp add: slot_def)+
  obtain st4 where st4: "allocate v s3 st3 = Some (?c, st4)"
    "\<forall>q. q \<noteq> slot ?base (Suc (Suc n)) \<longrightarrow> startAddr (regions st4 q) = startAddr (regions st3 q)
        \<and> rsize (regions st4 q) = rsize (regions st3 q) \<and> (q \<noteq> slot ?base (Suc n) \<longrightarrow> rnext (regions st4 q) = rnext (regions st3 q))"
    using allocate_at [of st3 v s3] nz unfolding plast nw by auto
  have c: "unat ?c = unat ?a + 4096 * unat ?p2" by (rule off) (use assms(7) in simp)
  have "region_bytes ?b s2 \<inter> region_bytes ?c s3 \<noteq> {} \<longleftrightarrow> unat ?p1 < unat ?p2 + unat ?p3"
  proof -
    have "unat ?c \<in> region_bytes ?b s2 \<or> unat ?b \<in> region_bytes ?c s3" if "unat ?p1 < unat ?p2 + unat ?p3"
      using that pos unfolding region_bytes_def b c by auto
    moreover have "unat ?c \<in> region_bytes ?c s3" "unat ?b \<in> region_bytes ?b s2" using pos by (simp_all add: region_bytes_def)
    moreover have "unat ?p1 < unat ?p2 + unat ?p3" if "x \<in> region_bytes ?b s2" "x \<in> region_bytes ?c s3" for x
      using that unfolding region_bytes_def b c by auto
    ultimately show ?thesis by blast
  qed
  moreover have "rnext (regions st4 (slot ?base (n - 1))) = slot ?base (Suc n)"
    using st4(2) st3(4) nw_ne(2) ne [of "n - 1" "Suc n"] by simp
  moreover have "startAddr (regions st4 (slot ?base (Suc n))) = ?b" "rsize (regions st4 (slot ?base (Suc n))) = s2"
    using st4(2) st3(3) st2(4,5) nw_ne(1) by simp_all
  ultimately show ?thesis using st1(1) st2(1) st3(1) st4(1) c by blast
qed

text \<open>A fresh pool, for concrete instances.\<close>

definition fresh_vm :: vms where
  "fresh_vm = init_vmpool 1 2 0xC4000000 0x4000000
     \<lparr>mm_mmu = first_mmu KERN_FRAME_NUM, regions = (\<lambda>_. \<lparr>startAddr = 0, rsize = 0, rnext = 0, rprev = 0\<rparr>),
      vmpools = (\<lambda>_. \<lparr>base_address = 0, vsize = 0, plast_region = 0, region_num = 0,
        region_size_total = 0, ppagetable = 0\<rparr>)\<rparr>"

lemma fresh_vm_stack: "vm_stack 1 1 fresh_vm"
  unfolding fresh_vm_def by (rule init_vmpool_stack) simp_all

lemma fresh_vm_simps:
  "base_address (vmpools fresh_vm 1) = 0xC4000000" "region_size_total (vmpools fresh_vm 1) = 0x1000"
  "startAddr (regions fresh_vm 0xC4000000) = 0xC4000000"
  by (simp_all add: fresh_vm_def init_vmpool_def upd_pool_def upd_region_def Let_def PAGE_SIZE_def)

theorem allocate_bumps_witness:
  "\<exists>st'. allocate 1 100 fresh_vm = Some (0xC4001000, st') \<and> vm_stack 1 2 st'"
  using allocate_bumps [OF fresh_vm_stack, of 100] by (auto simp: fresh_vm_simps numeral_2_eq_2)

theorem allocate_release_roundtrip_witness:
  "\<exists>a st1 st2. allocate 1 100 fresh_vm = Some (a, st1) \<and> release 1 a st1 = Some st2
     \<and> vmpools st2 1 = vmpools fresh_vm 1"
  using allocate_release_roundtrip [OF fresh_vm_stack, of 100]
  by (simp add: fresh_vm_simps slot_def) blast

theorem release_out_of_order_overlaps_witness:
  "\<exists>a st1 b st2 st3 c st4. allocate 1 100 fresh_vm = Some (a, st1) \<and> allocate 1 5000 st1 = Some (b, st2)
    \<and> release 1 a st2 = Some st3 \<and> allocate 1 100 st3 = Some (c, st4)
    \<and> startAddr (regions st4 0xC4000020) = b \<and> region_bytes b 5000 \<inter> region_bytes c 100 \<noteq> {}"
  using release_out_of_order_overlaps [OF fresh_vm_stack, of 100 5000 100]
  by (auto simp: fresh_vm_simps slot_def region_pages_def PAGE_SIZE_SHIFT_def PAGE_SIZE_MASK_def)

end
