(* ===== verification/Mm.thy ===== *)
theory Mm
  imports VmPool
begin

unbundle bit_operations_syntax

text \<open>
  Kernel memory set-up and the kernel allocator (src/kernel/core/mm.c): \<open>init_pgt\<close> fills the page
  directory and the second-level tables of the boot mapping, \<open>init_kernmem\<close> creates the frame
  pool, the page table and the heap, \<open>kmalloc\<close> and \<open>kfree\<close> work on the kernel heap. The bounds of
  the heap come from the linker script and are arguments.
\<close>

section \<open>The boot mapping\<close>

text \<open>\<open>ppage_dir[i] = v\<close> and \<open>ppage_tbl[i] = v\<close>.\<close>

definition set_pgd :: "nat \<Rightarrow> u32 \<Rightarrow> (u32 \<Rightarrow> u32) \<Rightarrow> u32 \<Rightarrow> u32" where
  "set_pgd i v m = m(pde_at i := v)"
definition set_pgt :: "nat \<Rightarrow> u32 \<Rightarrow> (u32 \<Rightarrow> u32) \<Rightarrow> u32 \<Rightarrow> u32" where
  "set_pgt i v m = m(pte_at i := v)"

definition init_pgd :: "(u32 \<Rightarrow> u32) \<Rightarrow> u32 \<Rightarrow> u32" where
  "init_pgd m =
     (let m1 = for_upto 4 (\<lambda>i. for_upto 1024 (\<lambda>j. set_pgd (i * 1024 + j) 0)) m;
          m2 = for_upto 4 (\<lambda>i. for_upto 1024 (\<lambda>j. set_pgd (i * 1024 + j)
                 ((KERN_PGT_START_BASE + of_nat (i * 1024 + j) * 1024) OR 0x1E1))) m1
      in for_upto 64 (\<lambda>i. set_pgd (1024 * 3 + 64 + i) 0x0) m2)"

definition init_pgt_ram :: "(u32 \<Rightarrow> u32) \<Rightarrow> u32 \<Rightarrow> u32" where
  "init_pgt_ram m =
     (let m1 = for_upto (1024 * 4) (\<lambda>i. for_upto 256 (\<lambda>j. set_pgt (i * 256 + j) 0)) m;
          m2 = for_upto 1024 (\<lambda>i. for_upto 256 (\<lambda>j. set_pgt (i * 256 + j)
                 ((of_nat (i * 256 + j) * 4096) OR 0x47E))) m1
      in for_upto (1024 * 3) (\<lambda>i. for_upto 256 (\<lambda>j. set_pgt (i * 256 + j)
                 ((of_nat (i * 256 + j) * 4096) OR 0x476))) m2)"

definition init_pgt_kernel :: "(u32 \<Rightarrow> u32) \<Rightarrow> u32 \<Rightarrow> u32" where
  "init_pgt_kernel m =
     (let m1 = for_upto 0x20000 (\<lambda>j. set_pgt (0xC00 * 256 + j) ((of_nat j * 4096) OR 0x47E)) m;
          m2 = for_upto 0x300 (\<lambda>j. set_pgt (0xE00 * 256 + j) ((0xE0000000 + of_nat j * 4096) OR 0x436)) m1;
          m3 = for_upto 0x1F000 (\<lambda>j. set_pgt (0xE10 * 256 + j) ((0xE1000000 + of_nat j * 4096) OR 0x432)) m2
      in for_upto (64 * 256) (\<lambda>i. set_pgt (0xC4000 + i) 0) m3)"

definition init_pgt :: "(u32 \<Rightarrow> u32) \<Rightarrow> u32 \<Rightarrow> u32" where
  "init_pgt m = init_pgt_kernel (init_pgt_ram (init_pgd m))"

section \<open>The kernel allocator\<close>

record mms =
  mm_vms :: vms
  pvm_kernel :: u32

definition init_kernmem :: "u32 \<Rightarrow> u32 \<Rightarrow> u32 \<Rightarrow> u32 \<Rightarrow> u32 \<Rightarrow> mms \<Rightarrow> mms" where
  "init_kernmem kfp pgt kheap heap_start heap_end st =
     (let vm = mm_vms st;
          mu = mm_mmu vm;
          mu1 = mu\<lparr>fpools := (fpools mu)(kfp :=
                  init_framepool (fpools mu kfp) KERN_FRAME_START KERN_FRAME_NUM 0)\<rparr>;
          mu2 = init_pageregion pgt kfp 0 mu1;
          mu3 = init_pagetable pgt PG_TABLE_KERN mu2;
          mu4 = load_pagetable pgt mu3;
          vm1 = init_vmpool kheap pgt heap_start (heap_end - heap_start) (vm\<lparr>mm_mmu := mu4\<rparr>)
      in st\<lparr>mm_vms := vm1, pvm_kernel := kheap\<rparr>)"

definition kmalloc :: "u32 \<Rightarrow> mms \<Rightarrow> (u32 \<times> mms) option" where
  "kmalloc sz st =
     do {
       (a, vm) \<leftarrow> allocate (pvm_kernel st) sz (mm_vms st);
       Some (a, st\<lparr>mm_vms := vm\<rparr>)
     }"

definition kfree :: "u32 \<Rightarrow> mms \<Rightarrow> mms option" where
  "kfree addr st =
     do {
       vm \<leftarrow> release (pvm_kernel st) addr (mm_vms st);
       Some (st\<lparr>mm_vms := vm\<rparr>)
     }"

text \<open>\<open>malloc\<close> and \<open>free\<close> of the C library (src/kernel/libs/lib.c).\<close>

definition lib_malloc :: "u32 \<Rightarrow> mms \<Rightarrow> (u32 \<times> mms) option" where "lib_malloc sz st = kmalloc sz st"
definition lib_free :: "u32 \<Rightarrow> mms \<Rightarrow> mms option" where "lib_free ptr st = kfree ptr st"

section \<open>What the loops of the boot mapping write\<close>

lemma for_upto_pte:
  assumes "c + n \<le> 2 ^ 20" and "k < 2 ^ 20"
  shows "for_upto n (\<lambda>j. set_pgt (c + j) (g j)) m (pte_at k)
       = (if c \<le> k \<and> k < c + n then g (k - c) else m (pte_at k))"
  using assms
proof (induction n)
  case (Suc n)
  have "pte_at k = pte_at (c + n) \<longleftrightarrow> k = c + n" using Suc.prems by (intro pte_at_inj) simp_all
  then show ?case using Suc by (auto simp: set_pgt_def less_Suc_eq)
qed auto

lemma for_upto_pte_pde:
  assumes "c + n \<le> 2 ^ 20" and "k < 4096"
  shows "for_upto n (\<lambda>j. set_pgt (c + j) (g j)) m (pde_at k) = m (pde_at k)"
  using assms
proof (induction n)
  case (Suc n)
  have "pde_at k \<noteq> pte_at (c + n)" using Suc.prems by (intro pde_pte_distinct) simp_all
  then show ?case using Suc by (simp add: set_pgt_def)
qed simp

lemma for_upto_pde:
  assumes "c + n \<le> 4096" and "k < 4096"
  shows "for_upto n (\<lambda>j. set_pgd (c + j) (g j)) m (pde_at k)
       = (if c \<le> k \<and> k < c + n then g (k - c) else m (pde_at k))"
  using assms
proof (induction n)
  case (Suc n)
  have "pde_at k = pde_at (c + n) \<longleftrightarrow> k = c + n" using Suc.prems by (intro pde_at_inj) simp_all
  then show ?case using Suc by (auto simp: set_pgd_def less_Suc_eq)
qed auto

lemmas pte_loop0 = for_upto_pte [where c = 0, simplified] for_upto_pte_pde [where c = 0, simplified]
lemmas pde_loop0 = for_upto_pde [where c = 0, simplified]

lemma flat_ram:
  "init_pgt_ram m =
     for_upto (1024 * 3 * 256) (\<lambda>k. set_pgt k ((of_nat k * 4096) OR 0x476))
       (for_upto (1024 * 256) (\<lambda>k. set_pgt k ((of_nat k * 4096) OR 0x47E))
         (for_upto (1024 * 4 * 256) (\<lambda>k. set_pgt k 0) m))"
  unfolding init_pgt_ram_def Let_def
    for_upto_nested [of _ 256 "\<lambda>k. set_pgt k ((of_nat k * 4096) OR 0x476)"]
    for_upto_nested [of _ 256 "\<lambda>k. set_pgt k ((of_nat k * 4096) OR 0x47E)"]
    for_upto_nested [of _ 256 "\<lambda>k. set_pgt k 0"]
  by (rule refl)

lemma flat_pgd:
  "init_pgd m =
     for_upto 64 (\<lambda>i. set_pgd (1024 * 3 + 64 + i) 0)
       (for_upto (4 * 1024) (\<lambda>k. set_pgd k ((KERN_PGT_START_BASE + of_nat k * 1024) OR 0x1E1))
         (for_upto (4 * 1024) (\<lambda>k. set_pgd k 0) m))"
  unfolding init_pgd_def Let_def
    for_upto_nested [of _ 1024 "\<lambda>k. set_pgd k ((KERN_PGT_START_BASE + of_nat k * 1024) OR 0x1E1)"]
    for_upto_nested [of _ 1024 "\<lambda>k. set_pgd k 0"]
  by (rule refl)

text \<open>The entry of each page after \<open>init_pgt\<close>.\<close>

definition boot_pte :: "nat \<Rightarrow> u32" where
  "boot_pte n =
     (if n < 0xC0000 then (of_nat n * 4096) OR 0x476
      else if n < 0xC4000 then (of_nat (n - 0xC0000) * 4096) OR 0x47E
      else if n < 0xC8000 then 0
      else if n < 0xE0000 then (of_nat (n - 0xC0000) * 4096) OR 0x47E
      else if n < 0xE0300 then (0xE0000000 + of_nat (n - 0xE0000) * 4096) OR 0x436
      else if n < 0xE1000 then 0
      else (0xE1000000 + of_nat (n - 0xE1000) * 4096) OR 0x432)"

lemma init_pgt_pte:
  assumes "n < 2 ^ 20"
  shows "init_pgt m (pte_at n) = boot_pte n"
  using assms
  by (simp add: init_pgt_def init_pgt_kernel_def Let_def flat_ram for_upto_pte pte_loop0 boot_pte_def
      del: of_nat_diff)

lemma init_pgt_pde:
  assumes "k < 4096"
  shows "init_pgt m (pde_at k) = (if 3136 \<le> k \<and> k < 3200 then 0 else pde_value k)"
  using assms
  by (simp add: init_pgt_def init_pgt_kernel_def Let_def flat_ram flat_pgd for_upto_pte_pde pte_loop0
      for_upto_pde pde_loop0 pde_value_def mult.commute)

section \<open>The translation after boot\<close>

definition boot_frame :: "nat \<Rightarrow> u32 option" where
  "boot_frame n =
     (if n < 0xC0000 then Some (of_nat n * 4096)
      else if n < 0xC4000 then Some (of_nat (n - 0xC0000) * 4096)
      else if n < 0xC8000 then None
      else if n < 0xE0000 then Some (of_nat (n - 0xC0000) * 4096)
      else if n < 0xE0300 then Some (of_nat n * 4096)
      else if n < 0xE1000 then None
      else Some (of_nat n * 4096))"

lemma page_low: "(of_nat n * 4096 :: u32) AND mask 12 = 0"
proof -
  have "(of_nat n * 4096 :: u32) = push_bit 12 (of_nat n)" by (simp add: push_bit_eq_mult)
  then show ?thesis by (simp add: take_bit_eq_mask [symmetric] take_bit_push_bit)
qed

lemma boot_attrs:
  "(0x476 :: u32) AND NOT (mask 12) = 0" "(0x476 :: u32) AND 2 = 2"
  "(0x47E :: u32) AND NOT (mask 12) = 0" "(0x47E :: u32) AND 2 = 2"
  "(0x436 :: u32) AND NOT (mask 12) = 0" "(0x436 :: u32) AND 2 = 2"
  "(0x432 :: u32) AND NOT (mask 12) = 0" "(0x432 :: u32) AND 2 = 2"
  by (simp_all add: mask_eq_exp_minus_1)

lemma io_page:
  "0xE0000 \<le> n \<Longrightarrow> (0xE0000000 :: u32) + of_nat (n - 0xE0000) * 4096 = of_nat n * 4096"
  "0xE1000 \<le> n \<Longrightarrow> (0xE1000000 :: u32) + of_nat (n - 0xE1000) * 4096 = of_nat n * 4096"
  by (simp_all add: of_nat_diff algebra_simps)

lemma boot_pte_frame:
  "boot_pte n AND 2 = 2 \<longleftrightarrow> boot_frame n \<noteq> None"
  "boot_frame n = Some f \<Longrightarrow> boot_pte n AND 0xFFFFF000 = f"
  using small_page_fields [OF boot_attrs(1,2) page_low] small_page_fields [OF boot_attrs(3,4) page_low]
    small_page_fields [OF boot_attrs(5,6) page_low] small_page_fields [OF boot_attrs(7,8) page_low]
  by (auto simp: boot_pte_def boot_frame_def io_page split: if_splits simp del: of_nat_diff)

lemma heap_dir: "3136 \<le> n div 256 \<and> n div 256 < 3200 \<longleftrightarrow> 0xC4000 \<le> n \<and> n < (0xC8000 :: nat)"
  by auto

lemma init_pgt_page_frame:
  assumes "n < 2 ^ 20"
  shows "page_frame (init_pgt m) n = boot_frame n"
proof -
  note d = init_pgt_pde [OF page_dir_bound [OF assms]] and e = init_pgt_pte [OF assms]
  note p = pde_value_present [OF page_dir_bound [OF assms]]
  show ?thesis
  proof (cases "0xC4000 \<le> n \<and> n < 0xC8000")
    case True
    then show ?thesis using d heap_dir [of n] by (auto simp: page_frame_def boot_frame_def)
  next
    case False
    then have "init_pgt m (pde_at (n div 256)) AND 3 \<noteq> 0" using d p heap_dir [of n] by auto
    then show ?thesis
      using boot_pte_frame(1) [of n] boot_pte_frame(2) [of n]
      by (cases "boot_frame n") (simp_all add: page_frame_def e)
  qed
qed

lemma init_pgt_tables: "tables_ok (init_pgt m)"
  unfolding tables_ok_def
proof (intro conjI allI impI)
  fix k :: nat assume k: "k < 4096" "init_pgt m (pde_at k) AND 3 \<noteq> 0"
  show "init_pgt m (pde_at k) = pde_value k"
    using k(2) unfolding init_pgt_pde [OF k(1)] by (auto split: if_splits)
next
  fix n :: nat assume n: "n < 2 ^ 20" "init_pgt m (pde_at (n div 256)) AND 3 = 0"
  have "0xC4000 \<le> n \<and> n < 0xC8000"
    using n(2) pde_value_present [OF page_dir_bound [OF n(1)]] heap_dir [of n]
    unfolding init_pgt_pde [OF page_dir_bound [OF n(1)]] by (auto split: if_splits)
  then show "init_pgt m (pte_at n) AND 2 \<noteq> 2"
    using boot_pte_frame(1) [of n] by (simp add: init_pgt_pte [OF n(1)] boot_frame_def)
qed

lemma page_and_offset: "(of_nat (vpage va) * 4096 :: u32) OR (va AND 0xFFF) = va"
proof -
  have "drop_bit 12 va = of_nat (vpage va)"
    by (rule word_from_unat) (simp add: vpage_def unat_drop_bit_eq drop_bit_eq_div unat_div)
  then have "(of_nat (vpage va) * 4096 :: u32) = push_bit 12 (drop_bit 12 va)"
    by (simp add: push_bit_eq_mult)
  moreover have "push_bit 12 (drop_bit 12 va) OR (va AND mask 12) = va"
    by (rule bit_word_eqI)
       (auto simp: bit_or_iff bit_and_iff bit_push_bit_iff bit_drop_bit_eq bit_mask_iff)
  ultimately show ?thesis by (simp only: mask_consts(5))
qed

lemma page_cmp: "va < 0xC0000000 \<longleftrightarrow> vpage va < 0xC0000" "va < 0xC4000000 \<longleftrightarrow> vpage va < 0xC4000"
  "va < 0xC8000000 \<longleftrightarrow> vpage va < 0xC8000" "va < 0xE0000000 \<longleftrightarrow> vpage va < 0xE0000"
  "va < 0xE0300000 \<longleftrightarrow> vpage va < 0xE0300" "va < 0xE1000000 \<longleftrightarrow> vpage va < 0xE1000"
  by (simp_all add: vpage_def word_less_nat_alt less_mult_imp_div_less div_less_iff_less_mult)

lemma kernel_window:
  assumes "0xC0000 \<le> vpage va"
  shows "(of_nat (vpage va - 0xC0000) * 4096 :: u32) OR (va AND 0xFFF) = va - 0xC0000000"
proof -
  let ?v = "va - 0xC0000000"
  have le: "0xC0000000 \<le> va" using assms page_cmp(1) [of va] by (simp add: not_less)
  then have u: "unat ?v = unat va - 0xC0000000" by (simp add: unat_sub_if_size word_le_nat_alt)
  have "unat va = 4096 * 0xC0000 + unat ?v" using le u by (simp add: word_le_nat_alt)
  then have "unat va div 4096 = 0xC0000 + unat ?v div 4096" and "unat ?v mod 4096 = unat va mod 4096"
    by (metis div_mult_self4 numeral_neq_zero zero_neq_numeral, metis mod_mult_self4)
  then have "vpage ?v = vpage va - 0xC0000" and "unat ?v mod 4096 = unat va mod 4096"
    by (simp_all add: vpage_def)
  moreover from this(2) have "unat (take_bit 12 ?v) = unat (take_bit 12 va)"
    unfolding unsigned_take_bit_eq by (simp add: take_bit_eq_mod)
  then have "take_bit 12 ?v = take_bit 12 va" by (rule word_unat_eq_iff [THEN iffD2])
  ultimately show ?thesis
    using page_and_offset [of ?v] by (simp add: take_bit_eq_mask mask_consts(5))
qed

section \<open>Properties of the boot mapping\<close>

text \<open>C17. After \<open>init_pgt\<close> the hardware walk translates the lower 3 GB and the device ranges to
  themselves and the kernel window 0xC0000000..0xDFFFFFFF to low memory; the 64 MB of the kernel
  heap and the gap between the device ranges fault. The first gigabyte has no hole: the comment in
  the code leaves 0x04000000..0x07FFFFFF out of it, but the frames of the heap stay mapped to themselves there.\<close>

theorem init_pgt_translation:
  "walk (init_pgt m) KERN_PGD_START_BASE va =
     (if va < 0xC0000000 then Some va
      else if 0xC4000000 \<le> va \<and> va < 0xC8000000 then None
      else if va < 0xE0000000 then Some (va - 0xC0000000)
      else if va < 0xE0300000 then Some va
      else if va < 0xE1000000 then None
      else Some va)"
  using page_and_offset [of va] kernel_window [of va] page_cmp [of va]
  by (auto simp: walk_page_frame [OF init_pgt_tables] init_pgt_page_frame [OF vpage_bound]
      boot_frame_def not_less [symmetric] simp del: of_nat_diff)

text \<open>The RAM pages that the first mapping loop marks cacheable (0x47E) are written again by the
  loop for the AXI ports, which starts at page 0 as well: every page below 3 GB ends up bufferable
  and not cacheable.\<close>

theorem init_pgt_ram_not_cacheable:
  "init_pgt m (pte_at (n mod 0xC0000)) = (of_nat (n mod 0xC0000) * 4096) OR 0x476
   \<and> \<not> bit (init_pgt m (pte_at (n mod 0xC0000))) 3"
proof -
  let ?k = "n mod 0xC0000"
  have k: "?k < 0xC0000" by simp
  then have "?k < 2 ^ 20" by (rule less_trans) simp
  from init_pgt_pte [OF this] have e: "init_pgt m (pte_at ?k) = (of_nat ?k * 4096) OR 0x476"
    using k by (simp add: boot_pte_def)
  have "(of_nat ?k * 4096 :: u32) = push_bit 12 (of_nat ?k)" by (simp add: push_bit_eq_mult)
  then have "\<not> bit (of_nat ?k * 4096 :: u32) 3" by (simp add: bit_push_bit_iff)
  moreover have "\<not> bit (0x476 :: u32) 3" by simp
  ultimately show ?thesis by (simp add: e bit_or_iff)
qed

section \<open>Properties of the kernel memory set-up\<close>

text \<open>What \<open>init_kernmem\<close> leaves behind.\<close>

lemma init_kernmem_heap:
  "let st' = init_kernmem kfp pgt kheap 0xC4000000 0xC8000000
       (st\<lparr>mm_vms := (mm_vms st)\<lparr>mm_mmu := (mm_mmu (mm_vms st))\<lparr>pgmem := init_pgt m\<rparr>\<rparr>\<rparr>)
   in mmu_inv heap_pages (mm_mmu (mm_vms st')) \<and> vm_stack kheap 1 (mm_vms st')
    \<and> pvm_kernel st' = kheap
    \<and> base_address (vmpools (mm_vms st') kheap) = 0xC4000000
    \<and> region_size_total (vmpools (mm_vms st') kheap) = PAGE_SIZE"
proof -
  let ?st = "st\<lparr>mm_vms := (mm_vms st)\<lparr>mm_mmu := (mm_mmu (mm_vms st))\<lparr>pgmem := init_pgt m\<rparr>\<rparr>\<rparr>"
  let ?st' = "init_kernmem kfp pgt kheap 0xC4000000 0xC8000000 ?st"
  let ?fp = "init_framepool (fpools (mm_mmu (mm_vms st)) kfp) KERN_FRAME_START KERN_FRAME_NUM 0"
  have fp: "cur_fp (mm_mmu (mm_vms ?st')) = ?fp" and pm: "pgmem (mm_mmu (mm_vms ?st')) = init_pgt m"
    by (simp_all add: init_kernmem_def Let_def cur_fp_def cur_pool_def load_pagetable_def
        init_pagetable_def init_pageregion_def init_vmpool_def upd_pool_def upd_region_def)
  note K = init_kernel_frames [of "fpools (mm_mmu (mm_vms st)) kfp"]
  have small: "frame_small ?fp"
    using K(1,3,4) unat_frame_of [OF K(1)] by (auto simp: frame_small_def fp_pool_def)
  have none: "page_frame (init_pgt m) n = None" if "n \<in> heap_pages" for n
    using that init_pgt_page_frame [of n m] by (simp add: heap_pages_def boot_frame_def)
  have "mmu_inv heap_pages (mm_mmu (mm_vms ?st'))"
    unfolding mmu_inv_def fp pm heap_maps_def
    using K(1) small init_pgt_tables none by (auto simp: heap_pages_def)
  moreover have "vm_stack kheap 1 (mm_vms ?st')"
    unfolding init_kernmem_def Let_def by (simp add: init_vmpool_stack [unfolded One_nat_def])
  moreover have "pvm_kernel ?st' = kheap \<and> base_address (vmpools (mm_vms ?st') kheap) = 0xC4000000
    \<and> region_size_total (vmpools (mm_vms ?st') kheap) = PAGE_SIZE"
    by (simp add: init_kernmem_def Let_def init_vmpool_def upd_pool_def upd_region_def)
  ultimately show ?thesis by (simp add: Let_def)
qed

text \<open>C31. Setting up the kernel memory over the boot mapping establishes the invariants the other
  operations keep: the page tables and the frame pool agree on the heap pages, and the heap is an
  empty stack of regions.\<close>

theorem init_kernmem_establishes:
  "let st' = init_kernmem kfp pgt kheap 0xC4000000 0xC8000000
       (st\<lparr>mm_vms := (mm_vms st)\<lparr>mm_mmu := (mm_mmu (mm_vms st))\<lparr>pgmem := init_pgt m\<rparr>\<rparr>\<rparr>)
   in mmu_inv heap_pages (mm_mmu (mm_vms st')) \<and> vm_stack kheap 1 (mm_vms st')
    \<and> pvm_kernel st' = kheap
    \<and> base_address (vmpools (mm_vms st') kheap) = 0xC4000000
    \<and> region_size_total (vmpools (mm_vms st') kheap) = PAGE_SIZE"
  by (rule init_kernmem_heap)

text \<open>Freed memory is handed out again.\<close>

lemma kmalloc_kfree_again:
  assumes "vm_stack (pvm_kernel st) n (mm_vms st)" and "n < 256"
    and "\<forall>i < n. startAddr (regions (mm_vms st) (slot (base_address (vmpools (mm_vms st) (pvm_kernel st))) i))
      \<noteq> base_address (vmpools (mm_vms st) (pvm_kernel st)) + region_size_total (vmpools (mm_vms st) (pvm_kernel st))"
  obtains a st1 st2 st3 where "kmalloc sz st = Some (a, st1)" "kfree a st1 = Some st2" "kmalloc sz st2 = Some (a, st3)"
proof -
  let ?v = "pvm_kernel st"
  obtain a vm1 vm2 where r: "allocate ?v sz (mm_vms st) = Some (a, vm1)" "release ?v a vm1 = Some vm2"
    "vm_stack ?v n vm2" "vmpools vm2 ?v = vmpools (mm_vms st) ?v"
    using allocate_release_last [OF assms, of sz] by auto
  obtain vm3 where "allocate ?v sz vm2 = Some (base_address (vmpools vm2 ?v) + region_size_total (vmpools vm2 ?v), vm3)"
    using allocate_stack [OF r(3) assms(2), of sz] by auto
  moreover have "a = base_address (vmpools (mm_vms st) ?v) + region_size_total (vmpools (mm_vms st) ?v)"
    using allocate_stack [OF assms(1,2), of sz] r(1) by auto
  ultimately show ?thesis using that r(1,2,4) by (simp add: kmalloc_def kfree_def)
qed

text \<open>A run of allocations.\<close>

primrec kmalloc_all :: "u32 list \<Rightarrow> mms \<Rightarrow> (u32 list \<times> mms) option" where
  "kmalloc_all [] st = Some ([], st)"
| "kmalloc_all (sz # szs) st =
     do {
       (a, st1) \<leftarrow> kmalloc sz st;
       (as, st2) \<leftarrow> kmalloc_all szs st1;
       Some (a # as, st2)
     }"

definition pages_of :: "u32 \<Rightarrow> nat" where "pages_of sz = (unat sz + 4095) div 4096"

text \<open>Consecutive blocks of pages from address \<open>a\<close> on.\<close>

primrec layout :: "nat \<Rightarrow> u32 list \<Rightarrow> nat list" where
  "layout a [] = []"
| "layout a (sz # szs) = a # layout (a + 4096 * pages_of sz) szs"

lemma kmalloc_all_layout:
  assumes "vm_stack (pvm_kernel st) n (mm_vms st)" and "n + length szs \<le> 256"
    and "p = vmpools (mm_vms st) (pvm_kernel st)"
    and "a = base_address p + region_size_total p"
    and "unat a + 4096 * sum_list (map pages_of szs) < 2 ^ 32"
  shows "\<exists>as st'. kmalloc_all szs st = Some (as, st') \<and> map unat as = layout (unat a) szs
    \<and> vm_stack (pvm_kernel st') (n + length szs) (mm_vms st')"
  using assms
proof (induction szs arbitrary: st n a p)
  case Nil
  then show ?case by simp
next
  case (Cons sz szs)
  let ?v = "pvm_kernel st"
  obtain vm where vm: "allocate ?v sz (mm_vms st) = Some (a, vm)" "vm_stack ?v (Suc n) vm"
    "vmpools vm ?v = p\<lparr>plast_region := slot (base_address p) n,
       region_size_total := region_size_total p + PAGE_SIZE * region_pages sz\<rparr>"
    using allocate_stack [OF Cons.prems(1), of sz] Cons.prems(2-4) by auto
  let ?st1 = "st\<lparr>mm_vms := vm\<rparr>"
  define a' where "a' = a + PAGE_SIZE * region_pages sz"
  have "region_pages sz = of_nat (pages_of sz)"
    by (rule word_from_unat) (simp add: unat_region_pages pages_of_def)
  then have "PAGE_SIZE * region_pages sz = of_nat (4096 * pages_of sz)" by (simp add: PAGE_SIZE_def)
  then have a': "unat a' = unat a + 4096 * pages_of sz"
    using unat_add_below [of a "4096 * pages_of sz"] Cons.prems(5) by (simp add: a'_def)
  have "\<exists>as st'. kmalloc_all szs ?st1 = Some (as, st') \<and> map unat as = layout (unat a') szs
    \<and> vm_stack (pvm_kernel st') (Suc n + length szs) (mm_vms st')"
  proof (rule Cons.IH [OF _ _ refl])
    show "a' = base_address (vmpools (mm_vms ?st1) (pvm_kernel ?st1))
        + region_size_total (vmpools (mm_vms ?st1) (pvm_kernel ?st1))"
      using Cons.prems(4) by (simp add: vm(3) a'_def)
  qed (use vm(2) Cons.prems(2,5) a' in \<open>simp_all add: algebra_simps\<close>)
  then obtain as st' where "kmalloc_all szs ?st1 = Some (as, st')" "map unat as = layout (unat a') szs"
    "vm_stack (pvm_kernel st') (Suc n + length szs) (mm_vms st')" by blast
  then show ?case using vm(1) a' by (simp add: kmalloc_def)
qed

text \<open>Where a run of \<open>kmalloc\<close> calls on a fresh heap lies.\<close>

lemma kmalloc_fresh_layout:
  assumes "vm_stack (pvm_kernel st) 1 (mm_vms st)" and "length szs \<le> 255"
    and "base_address (vmpools (mm_vms st) (pvm_kernel st)) = base"
    and "region_size_total (vmpools (mm_vms st) (pvm_kernel st)) = PAGE_SIZE"
    and "unat base + 4096 * (1 + sum_list (map pages_of szs)) < 2 ^ 32"
  shows "\<exists>as st'. kmalloc_all szs st = Some (as, st')
    \<and> map unat as = layout (unat base + 4096) szs"
proof -
  have "unat (base + PAGE_SIZE) = unat base + 4096"
    using unat_add_below [of base 4096] assms(5) by (simp add: PAGE_SIZE_def)
  then show ?thesis
    using kmalloc_all_layout [OF assms(1) _ refl refl, of szs] assms(2-5)
    by (auto simp: algebra_simps)
qed

text \<open>C13. A run of \<open>kmalloc\<close> calls on a fresh heap hands out page-aligned regions one after the
  other, each as long as its request rounded up to pages, so no two of them overlap; the only bounds
  are the 255 descriptors of the first page and the end of the address space.\<close>

theorem kmalloc_regions_disjoint:
  assumes "vm_stack (pvm_kernel st) 1 (mm_vms st)" and "length szs \<le> 255"
    and "base_address (vmpools (mm_vms st) (pvm_kernel st)) = base"
    and "region_size_total (vmpools (mm_vms st) (pvm_kernel st)) = PAGE_SIZE"
    and "unat base + 4096 * (1 + sum_list (map pages_of szs)) < 2 ^ 32"
  shows "\<exists>as st'. kmalloc_all szs st = Some (as, st')
    \<and> map unat as = layout (unat base + 4096) szs"
  by (rule kmalloc_fresh_layout [OF assms])

text \<open>A kernel heap, for a concrete instance.\<close>

definition fresh_mms :: mms where
  "fresh_mms = \<lparr>mm_vms = fresh_vm, pvm_kernel = 1\<rparr>"

theorem kmalloc_regions_disjoint_witness:
  "\<exists>as st'. kmalloc_all [100, 0x2000, 1] fresh_mms = Some (as, st')
     \<and> map unat as = [0xC4001000, 0xC4002000, 0xC4004000]"
  using kmalloc_regions_disjoint [where st = fresh_mms and szs = "[100, 0x2000, 1]" and base = "0xC4000000"]
    fresh_vm_stack
  by (simp add: fresh_mms_def fresh_vm_simps PAGE_SIZE_def pages_of_def)

end
