(* ===== verification/Printk.thy ===== *)
theory Printk
  imports Prelude "HOL-Library.Signed_Division"
begin

unbundle bit_operations_syntax

text \<open>
  Formatted output (src/kernel/core/printk.c, and printf of src/kernel/libs/lib.c). A format and a string
  argument are the characters before their terminator. \<open>None\<close> is a call that leaves its objects: a
  format that ends in a percent sign (the loop steps over the terminator), or arguments that do not fit
  the format.
\<close>

section \<open>Numbers\<close>

datatype va_arg = IntArg u32 | StrArg string

definition NUM_STR_MAX :: nat where "NUM_STR_MAX = 16"

text \<open>The digits in \<open>num_str\<close>, least significant first: \<open>do \<dots> while\<close> loops.\<close>

definition hex_char :: "u32 \<Rightarrow> char" where
  "hex_char u_hex = (if u_hex < 10 then char_of (unat u_hex + 48) else char_of (unat (u_hex - 10) + 65))"

lemma unat_drop_4: "unat (drop_bit 4 u) = unat u div 16" for u :: u32
  by (simp add: drop_bit_eq_div unat_div)

lemma drop_4_less: "0 < drop_bit 4 u \<Longrightarrow> unat (drop_bit 4 u) < unat u" for u :: u32
  unfolding unat_drop_4 word_less_nat_alt by simp

function hex_loop :: "u32 \<Rightarrow> string \<Rightarrow> string" where
  "hex_loop u_int num_str =
     (let num_str1 = num_str @ [hex_char (u_int AND 0xF)]; u = drop_bit 4 u_int
      in if u > 0 then hex_loop u num_str1 else num_str1)"
  by auto
termination by (relation "measure (\<lambda>(u, _). unat u)") (auto simp: drop_4_less)

lemma sdiv_10_less: "0 < s sdiv 10 \<Longrightarrow> 0 < s \<and> s sdiv 10 < s" for s :: int
  by (auto simp: signed_divide_int_def sgn_if split: if_splits)

function dec_loop :: "int \<Rightarrow> string \<Rightarrow> string" where
  "dec_loop s_int num_str =
     (let num_str1 = num_str @ [char_of (s_int smod 10 + 48)]; s = s_int sdiv 10
      in if s > 0 then dec_loop s num_str1 else num_str1)"
  by auto
termination by (relation "measure (\<lambda>(s, _). nat s)") (auto simp: sdiv_10_less)

declare hex_loop.simps [simp del] dec_loop.simps [simp del]

section \<open>Formats\<close>

text \<open>The characters \<open>printk\<close> hands to \<open>poll_out\<close>.\<close>

fun printk :: "string \<Rightarrow> va_arg list \<Rightarrow> string option" where
  "printk [] args = Some []"
| "printk (c # fmt) args =
     (if c \<noteq> CHR ''%'' then map_option ((#) c) (printk fmt args)
      else case fmt of
        [] \<Rightarrow> None
      | d # fmt1 \<Rightarrow>
          if d = CHR ''x'' then
            (case args of IntArg u # rest \<Rightarrow> map_option ((@) (rev (hex_loop u []))) (printk fmt1 rest) | _ \<Rightarrow> None)
          else if d = CHR ''d'' then
            (case args of IntArg u # rest \<Rightarrow> map_option ((@) (rev (dec_loop (sint u) []))) (printk fmt1 rest) | _ \<Rightarrow> None)
          else if d = CHR ''s'' then
            (case args of StrArg s # rest \<Rightarrow> map_option ((@) s) (printk fmt1 rest) | _ \<Rightarrow> None)
          else printk fmt1 args)"

text \<open>\<open>printf\<close> has the body of \<open>printk\<close> and returns 0.\<close>

definition printf :: "string \<Rightarrow> va_arg list \<Rightarrow> (ret \<times> string) option" where
  "printf fmt args = map_option (Pair NO_ERR) (printk fmt args)"

text \<open>\<open>sprintk\<close> writes into \<open>buf\<close>, whose index it keeps in \<open>i\<close>; only a string argument is terminated.\<close>

definition put_str :: "string \<Rightarrow> nat \<times> (nat \<Rightarrow> char) \<Rightarrow> nat \<times> (nat \<Rightarrow> char)" where
  "put_str s = fold (\<lambda>c (i, buf). (Suc i, buf(i := c))) s"

fun sprintk :: "string \<Rightarrow> va_arg list \<Rightarrow> nat \<times> (nat \<Rightarrow> char) \<Rightarrow> (nat \<times> (nat \<Rightarrow> char)) option" where
  "sprintk [] args b = Some b"
| "sprintk (c # fmt) args b =
     (if c \<noteq> CHR ''%'' then sprintk fmt args (put_str [c] b)
      else case fmt of
        [] \<Rightarrow> None
      | d # fmt1 \<Rightarrow>
          if d = CHR ''x'' then
            (case args of IntArg u # rest \<Rightarrow> sprintk fmt1 rest (put_str (rev (hex_loop u [])) b) | _ \<Rightarrow> None)
          else if d = CHR ''s'' then
            (case args of StrArg s # rest \<Rightarrow>
               (let (i, buf) = put_str s b in sprintk fmt1 rest (i, buf(i := CHR 0x00))) | _ \<Rightarrow> None)
          else sprintk fmt1 args b)"

section \<open>Printed numbers read back\<close>

definition hex_value :: "char \<Rightarrow> nat" where
  "hex_value c = (if of_char c < (58 :: nat) then of_char c - 48 else of_char c - 55)"

definition read_num :: "nat \<Rightarrow> string \<Rightarrow> nat" where
  "read_num base s = foldl (\<lambda>a c. base * a + hex_value c) 0 s"

text \<open>Reading the digits least significant first.\<close>

primrec rnum :: "nat \<Rightarrow> string \<Rightarrow> nat" where
  "rnum base [] = 0"
| "rnum base (c # s) = hex_value c + base * rnum base s"

lemma read_num_rev: "read_num base (rev s) = rnum base s"
  by (induction s) (simp_all add: read_num_def)

lemma rnum_append: "rnum base (s @ t) = rnum base s + base ^ length s * rnum base t"
  by (induction s) (simp_all add: algebra_simps)

lemma hex_value_hex_char: "u < 16 \<Longrightarrow> hex_value (hex_char u) = unat u"
proof -
  assume "u < 16"
  then have u: "unat u < 16" by (simp add: word_less_nat_alt)
  have s: "\<not> u < 10 \<Longrightarrow> unat (u - 10) = unat u - 10" by (subst unat_sub) (simp_all add: word_le_nat_alt word_less_nat_alt)
  show ?thesis using u s by (auto simp: hex_value_def hex_char_def word_less_nat_alt)
qed

lemma nibble: "u AND 0xF = u mod 16" for u :: u32
proof -
  have "u AND 0xF = take_bit 4 u" by (simp add: take_bit_eq_mask mask_eq_exp_minus_1)
  then show ?thesis by (simp add: take_bit_eq_mod)
qed

lemma unat_nibble: "unat (u AND 0xF) = unat u mod 16" for u :: u32
  by (simp add: nibble unat_mod)

lemma hex_value_nibble: "hex_value (hex_char (u AND 0xF)) = unat u mod 16"
proof -
  have "u AND 0xF < 16" by (simp only: word_less_nat_alt unat_nibble) simp
  then show ?thesis by (simp add: hex_value_hex_char unat_nibble)
qed

text \<open>What the loop adds to the digits it has.\<close>

lemma hex_loop_value: "rnum 16 (hex_loop u acc) = rnum 16 acc + 16 ^ length acc * unat u"
proof (induction u acc rule: hex_loop.induct)
  case (1 u acc)
  have step: "hex_loop u acc = (if drop_bit 4 u > 0 then hex_loop (drop_bit 4 u) (acc @ [hex_char (u AND 0xF)])
      else acc @ [hex_char (u AND 0xF)])"
    by (subst hex_loop.simps) (simp add: Let_def)
  have v: "unat u = unat u mod 16 + 16 * unat (drop_bit 4 u)" unfolding unat_drop_4 by simp
  show ?case
  proof (cases "drop_bit 4 u > 0")
    case True
    have "rnum 16 (hex_loop (drop_bit 4 u) (acc @ [hex_char (u AND 0xF)]))
        = rnum 16 (acc @ [hex_char (u AND 0xF)]) + 16 ^ length (acc @ [hex_char (u AND 0xF)]) * unat (drop_bit 4 u)"
      using "1.IH" [OF refl refl True] .
    also have "\<dots> = rnum 16 acc + 16 ^ length acc * (unat u mod 16 + 16 * unat (drop_bit 4 u))"
      by (simp add: rnum_append hex_value_nibble algebra_simps)
    finally show ?thesis unfolding step v [symmetric] using True by simp
  next
    case False
    then have "unat (drop_bit 4 u) = 0" by (simp add: word_less_nat_alt)
    then have "unat u mod 16 = unat u" using v by linarith
    then show ?thesis unfolding step using False by (simp add: rnum_append hex_value_nibble)
  qed
qed

lemma hex_loop_length: "unat u < 16 ^ d \<Longrightarrow> 0 < d \<Longrightarrow> length (hex_loop u acc) \<le> length acc + d"
proof (induction u acc arbitrary: d rule: hex_loop.induct)
  case (1 u acc)
  show ?case
  proof (cases "drop_bit 4 u > 0")
    case True
    then have "0 < unat u div 16" by (simp add: word_less_nat_alt unat_drop_4)
    then have "16 \<le> unat u" by simp
    then obtain e where e: "d = Suc e" "0 < e" using "1.prems" by (cases d; cases "d - 1") auto
    have "unat (drop_bit 4 u) < 16 ^ e" using "1.prems"(1) unfolding unat_drop_4 e(1) by simp
    from "1.IH" [OF refl refl True this e(2)] show ?thesis
      using True e(1) by (subst hex_loop.simps) (simp add: Let_def)
  next
    case False
    then show ?thesis using "1.prems"(2) by (subst hex_loop.simps) (simp add: Let_def)
  qed
qed

lemma dec_step:
  "0 \<le> n \<Longrightarrow> n sdiv 10 = n div 10" "0 \<le> n \<Longrightarrow> n smod 10 = n mod 10" for n :: int
  by (auto simp: signed_divide_int_def signed_modulo_int_def sgn_if)

lemma hex_value_dec: "0 \<le> n \<Longrightarrow> hex_value (char_of (n smod 10 + 48)) = nat (n mod 10)" for n :: int
proof -
  assume n: "0 \<le> n"
  define d where "d = nat (n mod 10)"
  have d: "d < 10" "n mod 10 + 48 = int (d + 48)" using n by (simp_all add: d_def)
  have c: "(char_of (n smod 10 + 48) :: char) = char_of (d + 48)"
    unfolding dec_step(2) [OF n] d(2) by (rule char_of_nat)
  have "hex_value (char_of (d + 48)) = d" using d(1) by (simp add: hex_value_def)
  then show ?thesis unfolding c d_def .
qed

lemma dec_loop_value: "0 \<le> n \<Longrightarrow> rnum 10 (dec_loop n acc) = rnum 10 acc + 10 ^ length acc * nat n"
proof (induction n acc rule: dec_loop.induct)
  case (1 n acc)
  let ?c = "char_of (n smod 10 + 48)"
  have step: "dec_loop n acc = (if n sdiv 10 > 0 then dec_loop (n sdiv 10) (acc @ [?c]) else acc @ [?c])"
    by (subst dec_loop.simps) (simp add: Let_def)
  have digit: "rnum 10 [?c] = nat (n mod 10)" by (simp add: hex_value_dec [OF "1.prems"])
  have v: "nat n = nat (n mod 10) + 10 * nat (n sdiv 10)"
    using "1.prems" mod_div_mult_eq [of "nat n" 10] by (simp add: dec_step nat_mod_distrib nat_div_distrib)
  show ?case
  proof (cases "n sdiv 10 > 0")
    case True
    have "rnum 10 (dec_loop (n sdiv 10) (acc @ [?c])) = rnum 10 (acc @ [?c]) + 10 ^ length (acc @ [?c]) * nat (n sdiv 10)"
      using "1.IH" [OF refl refl True] True by simp
    also have "\<dots> = rnum 10 acc + 10 ^ length acc * (nat (n mod 10) + 10 * nat (n sdiv 10))"
      by (simp only: rnum_append digit length_append power_add) (simp add: algebra_simps)
    finally show ?thesis unfolding step v [symmetric] using True by simp
  next
    case False
    then have "nat (n mod 10) = nat n" using v by linarith
    then show ?thesis unfolding step using False by (simp add: rnum_append digit [simplified])
  qed
qed

lemma dec_loop_length: "n < 10 ^ d \<Longrightarrow> 0 < d \<Longrightarrow> length (dec_loop n acc) \<le> length acc + d"
proof (induction n acc arbitrary: d rule: dec_loop.induct)
  case (1 n acc)
  show ?case
  proof (cases "n sdiv 10 > 0")
    case True
    then have n: "0 \<le> n" "10 \<le> n" using sdiv_10_less [of n] by (auto simp: dec_step)
    then obtain e where e: "d = Suc e" "0 < e" using "1.prems" by (cases d; cases "d - 1") auto
    have "n sdiv 10 < 10 ^ e" using "1.prems"(1) n(1) unfolding e(1) by (simp add: dec_step)
    from "1.IH" [OF refl refl True this e(2)] show ?thesis
      using True e(1) by (subst dec_loop.simps) (simp add: Let_def)
  next
    case False
    then show ?thesis using "1.prems"(2) by (subst dec_loop.simps) (simp add: Let_def)
  qed
qed

lemma dec_loop_negative: "n < 0 \<Longrightarrow> dec_loop n [] = [char_of (n smod 10 + 48)]"
  using sdiv_10_less [of n] by (subst dec_loop.simps) (auto simp: Let_def)

text \<open>C39. What printk prints for a number reads back as the number, in at most as many digits as fit into
  \<open>num_str\<close> with the terminator; a negative number is printed as one character, its remainder by ten added to the
  character 0: no digit, except for the multiples of ten, which print 0.\<close>

theorem printk_number_reads_back:
  "(\<exists>s. printk ''%x'' [IntArg u] = Some s \<and> read_num 16 s = unat u \<and> length s < NUM_STR_MAX)
    \<and> (\<exists>s. printk ''%d'' [IntArg u] = Some s \<and> length s < NUM_STR_MAX
        \<and> (if 0 \<le> sint u then read_num 10 s = nat (sint u) else s = [char_of (48 + sint u smod 10)]))"
proof
  have "unat u < 16 ^ 8" using unsigned_less [where ?'a = nat, of u] by simp
  from hex_loop_length [OF this, of "[]"] hex_loop_value [of u "[]"]
  show "\<exists>s. printk ''%x'' [IntArg u] = Some s \<and> read_num 16 s = unat u \<and> length s < NUM_STR_MAX"
    by (simp add: read_num_rev NUM_STR_MAX_def)
  have "sint u < 10 ^ 10" using sint_lt [of u] by simp
  from dec_loop_length [OF this, of "[]"]
  have "length (dec_loop (sint u) []) < NUM_STR_MAX" by (simp add: NUM_STR_MAX_def)
  then show "\<exists>s. printk ''%d'' [IntArg u] = Some s \<and> length s < NUM_STR_MAX
      \<and> (if 0 \<le> sint u then read_num 10 s = nat (sint u) else s = [char_of (48 + sint u smod 10)])"
    using dec_loop_value [of "sint u" "[]"] dec_loop_negative [of "sint u"]
    by (simp add: read_num_rev add.commute)
qed

section \<open>sprintk and printk\<close>

fun no_decimal :: "string \<Rightarrow> bool" where
  "no_decimal [] = True"
| "no_decimal (c # fmt) =
     (if c \<noteq> CHR ''%'' then no_decimal fmt
      else case fmt of [] \<Rightarrow> True | d # fmt1 \<Rightarrow> d \<noteq> CHR ''d'' \<and> no_decimal fmt1)"

text \<open>The characters \<open>s\<close> in a buffer from \<open>i\<close> on.\<close>

definition written :: "string \<Rightarrow> nat \<Rightarrow> (nat \<Rightarrow> char) \<Rightarrow> nat \<Rightarrow> char" where
  "written s i buf = (\<lambda>j. if i \<le> j \<and> j < i + length s then s ! (j - i) else buf j)"

lemma written_append: "written t (i + length s) (written s i buf) = written (s @ t) i buf"
  by (rule ext) (auto simp: written_def nth_append)

lemma written_upd_behind: "i + length s \<le> k \<Longrightarrow> (written s i buf)(k := x) = written s i (buf(k := x))"
  by (rule ext) (auto simp: written_def)

lemma written_upd_first: "s \<noteq> [] \<Longrightarrow> written s i (buf(i := x)) = written s i buf"
  by (rule ext) (auto simp: written_def)

lemma written_Nil [simp]: "written [] i buf = buf"
  by (rule ext) (auto simp: written_def)

lemma written_snoc: "(written s i buf)(i + length s := c) = written (s @ [c]) i buf"
  by (rule ext) (auto simp: written_def nth_append)

lemma put_str_written: "put_str s (i, buf) = (i + length s, written s i buf)"
proof (induction s arbitrary: i buf)
  case Nil then show ?case by (simp add: put_str_def)
next
  case (Cons c s)
  have "put_str (c # s) (i, buf) = put_str s (Suc i, buf(i := c))" by (simp add: put_str_def)
  also have "buf(i := c) = written [c] i buf" by (rule ext) (auto simp: written_def)
  finally show ?case using Cons.IH written_append [of s i "[c]" buf] by simp
qed

text \<open>What \<open>sprintk\<close> makes of the buffer: \<open>s\<close> and perhaps a terminator behind it.\<close>

definition left_by :: "string \<Rightarrow> nat \<Rightarrow> (nat \<Rightarrow> char) \<Rightarrow> nat \<times> (nat \<Rightarrow> char) \<Rightarrow> bool" where
  "left_by s i buf b \<longleftrightarrow> b = (i + length s, written s i buf)
     \<or> b = (i + length s, written s i (buf(i + length s := CHR 0x00)))"

lemma left_by_append: "left_by t (i + length s) (written s i buf) b \<Longrightarrow> left_by (s @ t) i buf b"
  by (auto simp: left_by_def written_append written_upd_behind add.assoc)

lemma left_by_terminated:
  "left_by t (i + length s) ((written s i buf)(i + length s := CHR 0x00)) b \<Longrightarrow> left_by (s @ t) i buf b"
proof (cases "t = []")
  case True
  then show "left_by t (i + length s) ((written s i buf)(i + length s := CHR 0x00)) b \<Longrightarrow> left_by (s @ t) i buf b"
    by (auto simp: left_by_def written_upd_behind)
next
  case False
  then have "(written s i buf)(i + length s := CHR 0x00, i + length s + length t := CHR 0x00)
      = ((written s i buf)(i + length s + length t := CHR 0x00))(i + length s := CHR 0x00)"
    by (simp add: fun_upd_twist)
  then show "left_by t (i + length s) ((written s i buf)(i + length s := CHR 0x00)) b \<Longrightarrow> left_by (s @ t) i buf b"
    using False left_by_append [of t i s buf b] by (simp add: left_by_def written_upd_first)
qed

lemma sprintk_left:
  "printk fmt args = Some s \<Longrightarrow> no_decimal fmt \<Longrightarrow> \<exists>b. sprintk fmt args (i, buf) = Some b \<and> left_by s i buf b"
proof (induction fmt args arbitrary: s i buf rule: printk.induct)
  case (1 args)
  then show ?case by (simp add: left_by_def)
next
  case (2 c fmt args)
  show ?case
  proof (cases "c = CHR ''%''")
    case False
    then obtain s1 where s1: "printk fmt args = Some s1" "s = c # s1" using "2.prems"(1) by auto
    have nd: "no_decimal fmt" using "2.prems"(2) False by simp
    from "2.IH"(1) [OF False s1(1) nd, of "i + length [c]" "written [c] i buf"] obtain b where
      b: "sprintk fmt args (i + length [c], written [c] i buf) = Some b" "left_by s1 (i + length [c]) (written [c] i buf) b" by auto
    show ?thesis using b(1) left_by_append [OF b(2)] False s1(2) by (simp add: put_str_written)
  next
    case True
    then obtain d fmt1 where f: "fmt = d # fmt1" using "2.prems"(1) by (cases fmt) auto
    have d: "d \<noteq> CHR ''d''" "no_decimal fmt1" using "2.prems"(2) True f by simp_all
    consider "d = CHR ''x''" | "d = CHR ''s''" | "d \<noteq> CHR ''x''" "d \<noteq> CHR ''s''" by blast
    then show ?thesis
    proof cases
      case 1
      then obtain u as s1 where a: "args = IntArg u # as" "printk fmt1 as = Some s1" "s = rev (hex_loop u []) @ s1"
        using "2.prems"(1) True f by (auto split: list.splits va_arg.splits)
      let ?h = "rev (hex_loop u [])"
      have "\<exists>b. sprintk fmt1 as (i + length ?h, written ?h i buf) = Some b \<and> left_by s1 (i + length ?h) (written ?h i buf) b"
        by (rule "2.IH"(2)) (use True f 1 a d in auto)
      then show ?thesis using left_by_append [of s1 i ?h buf] True f 1 a by (auto simp: put_str_written)
    next
      case 2
      then obtain u as s1 where a: "args = StrArg u # as" "printk fmt1 as = Some s1" "s = u @ s1"
        using "2.prems"(1) True f by (auto split: list.splits va_arg.splits)
      let ?buf = "(written u i buf)(i + length u := CHR 0x00)"
      have "\<exists>b. sprintk fmt1 as (i + length u, ?buf) = Some b \<and> left_by s1 (i + length u) ?buf b"
        by (rule "2.IH"(4)) (use True f 2 a d in auto)
      then show ?thesis using left_by_terminated [of s1 i u buf] True f 2 a by (auto simp: put_str_written)
    next
      case 3
      have "\<exists>b. sprintk fmt1 args (i, buf) = Some b \<and> left_by s i buf b"
        by (rule "2.IH"(5)) (use "2.prems" True f 3 d in auto)
      then show ?thesis using True f 3 by simp
    qed
  qed
qed

text \<open>On every format without a decimal, \<open>sprintk\<close> puts into the buffer the characters that \<open>printk\<close> prints, and
  behind them nothing or a terminator.\<close>

theorem sprintk_like_printk:
  assumes "printk fmt args = Some s" and "no_decimal fmt"
  shows "\<exists>b. sprintk fmt args (i, buf) = Some b \<and> left_by s i buf b"
  using assms by (rule sprintk_left)

theorem sprintk_like_printk_witness:
  "\<exists>b. sprintk ''/App_%x'' [IntArg 0x2A] (0, \<lambda>_. CHR ''z'') = Some b \<and> left_by ''/App_2A'' 0 (\<lambda>_. CHR ''z'') b"
proof (rule sprintk_like_printk)
  have n: "(0x2A :: u32) AND 0xF = 10" "drop_bit 4 (0x2A :: u32) = 2" "(2 :: u32) AND 0xF = 2" "drop_bit 4 (2 :: u32) = 0"
    by (simp_all add: nibble drop_bit_eq_div)
  have "hex_loop 0x2A [] = ''A2''"
    by (subst hex_loop.simps, subst hex_loop.simps) (simp add: n hex_char_def char_of_def bit_0 Let_def)
  then show "printk ''/App_%x'' [IntArg 0x2A] = Some ''/App_2A''" by simp
qed simp

text \<open>The terminator is missing when the format does not end in a string.\<close>

lemma sprintk_plain: "CHR ''%'' \<notin> set p \<Longrightarrow> sprintk (p @ fmt) args (i, buf) = sprintk fmt args (i + length p, written p i buf)"
proof (induction p arbitrary: i buf)
  case (Cons c p)
  then have "c \<noteq> CHR ''%''" "CHR ''%'' \<notin> set p" by auto
  then show ?case using written_append [of p i "[c]" buf] Cons.IH by (simp add: put_str_written)
qed simp

lemma sprintk_unterminated:
  "sprintk ''/App_%x'' [IntArg u] (0, buf)
     = Some (5 + length (hex_loop u []), written (''/App_'' @ rev (hex_loop u [])) 0 buf)"
  using sprintk_plain [of "''/App_''" "''%x''" "[IntArg u]" 0 buf] written_append [of "rev (hex_loop u [])" 0 "''/App_''" buf]
  by (simp add: put_str_written)

end
