(* ===== verification/Fs.thy ===== *)
theory Fs
  imports SlfsMount Mm Printk
begin

unbundle bit_operations_syntax

text \<open>
  The file layer (src/kernel/fs/fs.c, inc/fs.h): one interface over SLFS and littlefs. littlefs is a
  submodule, not part of the repository: its functions are the fields of \<open>lfs_api\<close>, with a state of its
  own, files of its own and access to the device; the callbacks the repository gives it are modelled.
  File objects are allocated with \<open>kmalloc\<close> and found by address.
\<close>

section \<open>littlefs\<close>

type_synonym flash_read = "u32 \<Rightarrow> u32 \<Rightarrow> u32 \<Rightarrow> u32 \<Rightarrow> mem \<Rightarrow> u32 \<Rightarrow> mem \<Rightarrow> ret \<times> mem"
type_synonym flash_prog = "u32 \<Rightarrow> u32 \<Rightarrow> u32 \<Rightarrow> mem \<Rightarrow> u32 \<Rightarrow> mem \<Rightarrow> ret \<times> mem"

text \<open>The callbacks get the block size of the configuration that littlefs passes back to them.\<close>

definition lfs_api_read :: flash_read where
  "lfs_api_read block_size block off sz m at buf = read_ramdisk (block * block_size + off) sz m at buf"
definition lfs_api_prog :: flash_prog where
  "lfs_api_prog block_size block off buf sz m = write_ramdisk (block * block_size + off) sz buf m"
definition lfs_api_erase :: "u32 \<Rightarrow> mem \<Rightarrow> ret \<times> mem" where
  "lfs_api_erase block m = erase_ramdisk_page block m"
definition lfs_api_sync :: ret where "lfs_api_sync = NO_ERR"

record lfs_config =
  read_size :: u32
  prog_size :: u32
  block_size :: u32
  block_count :: u32
  block_cycles :: int
  cache_size :: u32
  lookahead_size :: u32
  cfg_read :: flash_read
  cfg_prog :: flash_prog
  cfg_erase :: "u32 \<Rightarrow> mem \<Rightarrow> ret \<times> mem"
  cfg_sync :: ret

definition init_littlefs :: lfs_config where
  "init_littlefs = \<lparr>read_size = 1024, prog_size = 1024, block_size = 0x10000, block_count = 64, block_cycles = -1,
     cache_size = 1024, lookahead_size = 1024, cfg_read = lfs_api_read, cfg_prog = lfs_api_prog,
     cfg_erase = lfs_api_erase, cfg_sync = lfs_api_sync\<rparr>"

record ('l, 'f) lfs_api =
  lfs_format :: "lfs_config \<Rightarrow> 'l \<Rightarrow> mem \<Rightarrow> int \<times> 'l \<times> mem"
  lfs_mount :: "lfs_config \<Rightarrow> 'l \<Rightarrow> mem \<Rightarrow> int \<times> 'l \<times> mem"
  lfs_unmount :: "'l \<Rightarrow> mem \<Rightarrow> int \<times> 'l \<times> mem"
  lfs_file_open :: "mem \<Rightarrow> u32 \<Rightarrow> 'f \<Rightarrow> 'l \<Rightarrow> mem \<Rightarrow> int \<times> 'f \<times> 'l \<times> mem"
  lfs_file_read :: "mem \<Rightarrow> u32 \<Rightarrow> 'f \<Rightarrow> 'l \<Rightarrow> mem \<Rightarrow> int \<times> mem \<times> 'f \<times> 'l \<times> mem"
  lfs_file_write :: "mem \<Rightarrow> u32 \<Rightarrow> 'f \<Rightarrow> 'l \<Rightarrow> mem \<Rightarrow> int \<times> 'f \<times> 'l \<times> mem"
  lfs_file_seek :: "u32 \<Rightarrow> slfs_fseek \<Rightarrow> 'f \<Rightarrow> 'l \<Rightarrow> mem \<Rightarrow> int \<times> 'f \<times> 'l \<times> mem"
  lfs_file_close :: "'f \<Rightarrow> 'l \<Rightarrow> mem \<Rightarrow> int \<times> 'f \<times> 'l \<times> mem"
  SIZEOF_lfs_file :: u32
  LFS_O_CREAT_RDWR :: u32

section \<open>Files\<close>

datatype FILE_SYSTEM_TYPE = SLFS_FILE_SYSTEM | LITTLEFS_FILE_SYSTEM

record file_obj =
  fs_t :: FILE_SYSTEM_TYPE
  virt_fp :: u32

record ('l, 'f) fs_state =
  fs_slfs :: slfs
  fs_lfs :: 'l
  fs_mms :: mms
  slfs_files :: "u32 \<Rightarrow> slfs_file"
  lfs_files :: "u32 \<Rightarrow> 'f"

text \<open>A result is a code of the kernel or the number littlefs returned.\<close>

datatype fs_ret = Ret ret | LfsRet int

definition failed :: "fs_ret \<Rightarrow> bool" where
  "failed r = (case r of Ret c \<Rightarrow> c \<noteq> NO_ERR | LfsRet n \<Rightarrow> n \<noteq> 0)"

definition SIZEOF_slfs_file :: u32 where "SIZEOF_slfs_file = 48"

definition on_flash :: "'l \<Rightarrow> mem \<Rightarrow> ('l, 'f) fs_state \<Rightarrow> ('l, 'f) fs_state" where
  "on_flash l m st = st\<lparr>fs_lfs := l, fs_slfs := (fs_slfs st)\<lparr>fmem := m\<rparr>\<rparr>"
definition put_lfs_file :: "u32 \<Rightarrow> 'f \<Rightarrow> ('l, 'f) fs_state \<Rightarrow> ('l, 'f) fs_state" where
  "put_lfs_file a f st = st\<lparr>lfs_files := (lfs_files st)(a := f)\<rparr>"
definition put_slfs_file :: "u32 \<Rightarrow> slfs_file \<Rightarrow> ('l, 'f) fs_state \<Rightarrow> ('l, 'f) fs_state" where
  "put_slfs_file a f st = st\<lparr>slfs_files := (slfs_files st)(a := f)\<rparr>"

section \<open>Operations\<close>

text \<open>The results of the format and of the second mount are not looked at. \<open>junk\<close> and \<open>junk2\<close> are the local
  superblocks of the two mounts.\<close>

definition fs_mount :: "('l, 'f) lfs_api \<Rightarrow> FILE_SYSTEM_TYPE \<Rightarrow> mem \<Rightarrow> mem \<Rightarrow> ('l, 'f) fs_state \<Rightarrow> fs_ret \<times> ('l, 'f) fs_state" where
  "fs_mount api fs junk junk2 st =
     (let (r, m) = erase_ramdisk_chip (fmem (fs_slfs st)); st1 = on_flash (fs_lfs st) m st in
      case fs of
        LITTLEFS_FILE_SYSTEM \<Rightarrow>
          (let (r, l, m) = lfs_format api init_littlefs (fs_lfs st1) m; st2 = on_flash l m st1 in
           if r \<noteq> 0 then (LfsRet r, st2)
           else (let (r, l, m) = lfs_mount api init_littlefs l m; st3 = on_flash l m st2
                 in if r \<noteq> 0 then (LfsRet r, st3) else (Ret NO_ERR, st3)))
      | SLFS_FILE_SYSTEM \<Rightarrow>
          (let (r, s) = slfs_mount junk (fs_slfs st1);
               s2 = (if r \<noteq> NO_ERR then snd (slfs_mount junk2 (snd (slfs_format s))) else s)
           in (Ret NO_ERR, st1\<lparr>fs_slfs := s2\<rparr>)))"

definition fs_open :: "('l, 'f) lfs_api \<Rightarrow> FILE_SYSTEM_TYPE \<Rightarrow> mem \<Rightarrow> u32 \<Rightarrow> ('l, 'f) fs_state
    \<Rightarrow> (fs_ret \<times> file_obj \<times> ('l, 'f) fs_state) option" where
  "fs_open api t name flag st =
     (case t of
        LITTLEFS_FILE_SYSTEM \<Rightarrow>
          do {
            (a, mm) \<leftarrow> kmalloc (SIZEOF_lfs_file api) (fs_mms st);
            let (r, f, l, m) = lfs_file_open api name flag (lfs_files st a) (fs_lfs st) (fmem (fs_slfs st));
            Some (LfsRet r, \<lparr>fs_t = t, virt_fp = a\<rparr>, put_lfs_file a f (on_flash l m (st\<lparr>fs_mms := mm\<rparr>)))
          }
      | SLFS_FILE_SYSTEM \<Rightarrow>
          do {
            (a, mm) \<leftarrow> kmalloc SIZEOF_slfs_file (fs_mms st);
            (r, f) \<leftarrow> slfs_open name (slfs_files st a) (fs_slfs st);
            Some (Ret r, \<lparr>fs_t = t, virt_fp = a\<rparr>, put_slfs_file a f (st\<lparr>fs_mms := mm\<rparr>))
          })"

definition fs_read :: "('l, 'f) lfs_api \<Rightarrow> file_obj \<Rightarrow> mem \<Rightarrow> u32 \<Rightarrow> ('l, 'f) fs_state \<Rightarrow> fs_ret \<times> mem \<times> ('l, 'f) fs_state" where
  "fs_read api fp buff len st =
     (case fs_t fp of
        LITTLEFS_FILE_SYSTEM \<Rightarrow>
          (let (r, b, f, l, m) = lfs_file_read api buff len (lfs_files st (virt_fp fp)) (fs_lfs st) (fmem (fs_slfs st))
           in (Ret (if of_int r = len then NO_ERR else RetMinusOne), b, put_lfs_file (virt_fp fp) f (on_flash l m st)))
      | SLFS_FILE_SYSTEM \<Rightarrow>
          (let (r, b) = slfs_read (slfs_files st (virt_fp fp)) (Some buff) len (fs_slfs st)
           in (Ret r, (case b of None \<Rightarrow> buff | Some x \<Rightarrow> x), st)))"

text \<open>\<open>inode\<close> and \<open>junk\<close> are local variables of \<open>slfs_write\<close> before it sets them.\<close>

definition fs_write :: "('l, 'f) lfs_api \<Rightarrow> file_obj \<Rightarrow> mem \<Rightarrow> u32 \<Rightarrow> mem \<Rightarrow> u32 \<Rightarrow> ('l, 'f) fs_state \<Rightarrow> (fs_ret \<times> ('l, 'f) fs_state) option" where
  "fs_write api fp buff len inode junk st =
     (case fs_t fp of
        LITTLEFS_FILE_SYSTEM \<Rightarrow>
          (let (r, f, l, m) = lfs_file_write api buff len (lfs_files st (virt_fp fp)) (fs_lfs st) (fmem (fs_slfs st))
           in Some (Ret (if of_int r = len then NO_ERR else RetMinusOne), put_lfs_file (virt_fp fp) f (on_flash l m st)))
      | SLFS_FILE_SYSTEM \<Rightarrow>
          do {
            (r, f, s) \<leftarrow> slfs_write (Some (slfs_files st (virt_fp fp))) (Some buff) len inode junk (fs_slfs st);
            Some (Ret r, put_slfs_file (virt_fp fp) ((case f of None \<Rightarrow> (slfs_files st (virt_fp fp)) | Some x \<Rightarrow> x)) (st\<lparr>fs_slfs := s\<rparr>))
          })"

definition fs_seek :: "('l, 'f) lfs_api \<Rightarrow> file_obj \<Rightarrow> u32 \<Rightarrow> slfs_fseek \<Rightarrow> ('l, 'f) fs_state \<Rightarrow> fs_ret \<times> ('l, 'f) fs_state" where
  "fs_seek api fp offset whence st =
     (case fs_t fp of
        LITTLEFS_FILE_SYSTEM \<Rightarrow>
          (let (r, f, l, m) = lfs_file_seek api offset whence (lfs_files st (virt_fp fp)) (fs_lfs st) (fmem (fs_slfs st))
           in (Ret NO_ERR, put_lfs_file (virt_fp fp) f (on_flash l m st)))
      | SLFS_FILE_SYSTEM \<Rightarrow>
          (let (r, f) = slfs_seek (Some (slfs_files st (virt_fp fp))) offset whence
           in (Ret r, put_slfs_file (virt_fp fp) ((case f of None \<Rightarrow> (slfs_files st (virt_fp fp)) | Some x \<Rightarrow> x)) st)))"

definition fs_close :: "('l, 'f) lfs_api \<Rightarrow> file_obj \<Rightarrow> ('l, 'f) fs_state \<Rightarrow> (fs_ret \<times> ('l, 'f) fs_state) option" where
  "fs_close api fp st =
     (let (r, st1) = (case fs_t fp of
          LITTLEFS_FILE_SYSTEM \<Rightarrow>
            (let (r, f, l, m) = lfs_file_close api (lfs_files st (virt_fp fp)) (fs_lfs st) (fmem (fs_slfs st))
             in (LfsRet r, put_lfs_file (virt_fp fp) f (on_flash l m st)))
        | SLFS_FILE_SYSTEM \<Rightarrow>
            (let (r, f) = slfs_close (Some (slfs_files st (virt_fp fp)))
             in (Ret r, put_slfs_file (virt_fp fp) ((case f of None \<Rightarrow> (slfs_files st (virt_fp fp)) | Some x \<Rightarrow> x)) st)))
      in if failed r then Some (r, st1)
         else do { mm \<leftarrow> kfree (virt_fp fp) (fs_mms st1); Some (r, st1\<lparr>fs_mms := mm\<rparr>) })"

definition fs_umount :: "('l, 'f) lfs_api \<Rightarrow> FILE_SYSTEM_TYPE \<Rightarrow> ('l, 'f) fs_state \<Rightarrow> fs_ret \<times> ('l, 'f) fs_state" where
  "fs_umount api fs st =
     (case fs of
        LITTLEFS_FILE_SYSTEM \<Rightarrow>
          (let (r, l, m) = lfs_unmount api (fs_lfs st) (fmem (fs_slfs st)) in (LfsRet r, on_flash l m st))
      | SLFS_FILE_SYSTEM \<Rightarrow> (let (r, s) = slfs_umount (fs_slfs st) in (Ret r, st\<lparr>fs_slfs := s\<rparr>)))"

text \<open>The applications of an image in memory (\<open>img\<close>, at \<open>base\<close>) become files \<open>/App_0\<close>, \<open>/App_1\<close>, ...\<close>

definition name_bytes :: "(nat \<Rightarrow> char) \<Rightarrow> mem" where
  "name_bytes b = (\<lambda>a. of_char (b (unat a)))"

fun create_apps :: "('l, 'f) lfs_api \<Rightarrow> FILE_SYSTEM_TYPE \<Rightarrow> mem \<Rightarrow> u32 \<Rightarrow> mem \<Rightarrow> u32 \<Rightarrow> nat \<Rightarrow> u32 \<Rightarrow> u32 \<Rightarrow> (nat \<Rightarrow> char)
    \<Rightarrow> ('l, 'f) fs_state \<Rightarrow> (fs_ret \<times> ('l, 'f) fs_state) option" where
  "create_apps api t img base inode junk 0 i offset path st = Some (Ret NO_ERR, st)"
| "create_apps api t img base inode junk (Suc n) i offset path st =
     do {
       let app_len = load32 img (base + offset);
       let app_addr = base + (offset + 4);
       (k, path1) \<leftarrow> sprintk ''/App_%x'' [IntArg i] (0, path);
       (r, fp, st1) \<leftarrow> fs_open api t (name_bytes path1) (if t = LITTLEFS_FILE_SYSTEM then LFS_O_CREAT_RDWR api else 0) st;
       if failed r then Some (r, st1)
       else do {
         (r, st2) \<leftarrow> fs_write api fp (\<lambda>j. img (app_addr + j)) app_len inode junk st1;
         if failed r then Some (r, st2)
         else do {
           (r, st3) \<leftarrow> fs_close api fp st2;
           if failed r then Some (r, st3)
           else create_apps api t img base inode junk n (i + 1) (offset + 4 + app_len) path1 st3
         }
       }
     }"

definition create_ramdisk_fs :: "('l, 'f) lfs_api \<Rightarrow> FILE_SYSTEM_TYPE \<Rightarrow> mem \<Rightarrow> mem \<Rightarrow> mem \<Rightarrow> u32 \<Rightarrow> mem \<Rightarrow> u32 \<Rightarrow> (nat \<Rightarrow> char)
    \<Rightarrow> ('l, 'f) fs_state \<Rightarrow> (fs_ret \<times> ('l, 'f) fs_state) option" where
  "create_ramdisk_fs api t sb sb2 img base inode junk path st =
     (let (r, st1) = fs_mount api t sb sb2 st
      in create_apps api t img base inode junk (unat (load32 img base)) 0 4 path st1)"

section \<open>A mounted file system\<close>

text \<open>\<open>fs_mount\<close> hides that the mount fails: it leaves a device with nothing but a superblock.\<close>

lemma fs_mount_slfs:
  obtains st' where "fs_mount api SLFS_FILE_SYSTEM junk junk2 st = (Ret NO_ERR, st')"
    "on_disk (fs_slfs st') (formatted junk2)" "fs_mms st' = fs_mms st"
proof -
  obtain m where m: "erase_ramdisk_chip (fmem (fs_slfs st)) = (NO_ERR, m)"
    using erase_chip_dsk(1) [of "fmem (fs_slfs st)"] by (metis fst_conv prod.exhaust)
  let ?st1 = "on_flash (fs_lfs st) m st"
  have "on_disk (fs_slfs ?st1) (\<lambda>_. 0xFF)"
    using erase_chip_dsk(2) [of _ "fmem (fs_slfs st)"] m by (simp add: on_disk_def on_flash_def)
  then obtain s where s: "slfs_mount junk (fs_slfs ?st1) = (Neg IO_ERR, s)" by (rule slfs_mount_erased)
  obtain s1 where s1: "slfs_format s = (NO_ERR, s1)" "on_disk s1 (\<lambda>_. 0xFF)" by (rule slfs_format_erased)
  obtain s2 where s2: "slfs_mount junk2 s1 = (Neg IO_ERR, s2)" "on_disk s2 (formatted junk2)"
    by (rule slfs_mount_erased [OF s1(2)])
  show ?thesis
  proof (rule that)
    show "fs_mount api SLFS_FILE_SYSTEM junk junk2 st = (Ret NO_ERR, ?st1\<lparr>fs_slfs := s2\<rparr>)"
      using m s s1(1) s2(1) by (simp add: fs_mount_def)
  qed (use s2(2) in \<open>simp_all add: on_flash_def\<close>)
qed

text \<open>No inode of such a device carries a name.\<close>

lemma no_file_formatted:
  assumes "on_disk s (formatted junk)" and "i < 32"
  obtains inode where "rdbuf (inode_at (of_nat i)) SLFS_INODE_SIZE s = (NO_ERR, inode)" "\<not> name_matches name inode"
proof -
  have u: "unat (inode_at (of_nat i)) = ino i"
    using unat_ino [OF assms(2), of 0] by (simp add: inode_at_ino)
  have b: "ino i + 56 \<le> 0x400000" using assms(2) by (simp add: ino_def)
  obtain inode where n: "rdbuf (inode_at (of_nat i)) 56 s = (NO_ERR, inode)"
    "\<And>j. j < unat (56 :: u32) \<Longrightarrow> inode (of_nat j) = formatted junk (unat (inode_at (of_nat i)) + j)"
    by (rule rdbuf_on [OF assms(1), of "inode_at (of_nat i)" 56]) (use u b in auto)
  have ff: "ino_name inode 0 j = 0xFF" if "j < 16" for j
    using n(2) [of "24 + j"] that u by (simp add: ino_name_def formatted_def dput_def ino_def)
  have "\<not> name_matches name inode"
    unfolding name_matches_def
    by (auto simp: find_Some_iff SLFS_FNAME_LEN_def ff split: option.split)
  then show ?thesis using that n(1) by (simp add: SLFS_INODE_SIZE_def)
qed

lemma find_latest_formatted:
  assumes "on_disk s (formatted junk)" and "set is \<subseteq> {..<32}"
  shows "find_latest is name None s = (NO_ERR, None)"
  using assms(2)
proof (induction "is")
  case (Cons i "is")
  obtain inode where "rdbuf (inode_at (of_nat i)) SLFS_INODE_SIZE s = (NO_ERR, inode)" "\<not> name_matches name inode"
    by (rule no_file_formatted [OF assms(1), of i name]) (use Cons.prems in auto)
  then show ?case using Cons by simp
qed simp

lemma slfs_open_formatted:
  assumes "on_disk s (formatted junk)"
  obtains f where "slfs_open name pf s = Some (NO_ERR, f)" "open_cnt f = 1" "file_size f = 0" "pos f = 0"
proof -
  have "find_latest [0..<SLFS_INODE_MAX_CNT] name None s = (NO_ERR, None)"
    by (rule find_latest_formatted [OF assms]) (auto simp: SLFS_INODE_MAX_CNT_def)
  then have "slfs_open name pf s = Some (NO_ERR, pf\<lparr>fd := MINUS_ONE, file_size := 0, inode_idx := MINUS_ONE, pos := 0, open_cnt := 1,
      datablk_addr := MINUS_ONE, allocedblk_num := 0, update_cnt := 0, fname := copy_name (\<lambda>j. name (of_nat j)) (fname pf)\<rparr>)"
    by (simp add: slfs_open_def)
  then show ?thesis by (rule that) simp_all
qed

lemma formatted_word: "56 \<le> a \<Longrightarrow> dword (formatted junk) a = MINUS_ONE"
  using dword_dput_other [of a 0 56 "\<lambda>_. 0xFF" "\<lambda>i. new_superblk junk (of_nat i)"] by (simp add: formatted_def dword_erased)

text \<open>From any device, mounting SLFS, opening a file of any name, writing up to 8184 blocks to it and
  reading as much gives the bytes back, as far as the allocator has memory for the file object.\<close>

theorem fs_mount_write_read:
  assumes "kmalloc SIZEOF_slfs_file (fs_mms st) = Some (a, mm)" and "0 < unat n" and "unat n \<le> 8184 * 504"
  shows "\<exists>st1 fp st2 st3 buf'. fs_mount api SLFS_FILE_SYSTEM junk junk2 st = (Ret NO_ERR, st1)
    \<and> fs_open api SLFS_FILE_SYSTEM name flag st1 = Some (Ret NO_ERR, fp, st2)
    \<and> fs_write api fp buf n inode junk3 st2 = Some (Ret NO_ERR, st3)
    \<and> fs_read api fp buf0 n st3 = (Ret NO_ERR, buf', st3) \<and> (\<forall>i < unat n. buf' (of_nat i) = buf (of_nat i))"
proof -
  obtain st1 where st1: "fs_mount api SLFS_FILE_SYSTEM junk junk2 st = (Ret NO_ERR, st1)"
    "on_disk (fs_slfs st1) (formatted junk2)" "fs_mms st1 = fs_mms st" by (rule fs_mount_slfs)
  obtain f where f: "slfs_open name (slfs_files st1 a) (fs_slfs st1) = Some (NO_ERR, f)" "open_cnt f = 1" "file_size f = 0" "pos f = 0"
    by (rule slfs_open_formatted [OF st1(2)])
  let ?fp = "\<lparr>fs_t = SLFS_FILE_SYSTEM, virt_fp = a\<rparr>" and ?st2 = "put_slfs_file a f (st1\<lparr>fs_mms := mm\<rparr>)"
  have opened: "fs_open api SLFS_FILE_SYSTEM name flag st1 = Some (Ret NO_ERR, ?fp, ?st2)"
    using assms(1) st1(3) f(1) by (simp add: fs_open_def)
  define k where "k = (unat n - 1) div 504 + 1"
  have k: "0 + k \<le> 8184" using assms(2,3) by (simp add: k_def)
  obtain f' s' buf' where w: "slfs_write (Some f) (Some buf) n inode junk3 (fs_slfs st1) = Some (NO_ERR, Some f', s')"
    "slfs_read f' (Some buf0) n s' = (NO_ERR, Some buf')" "\<forall>i < unat n. buf' (of_nat i) = buf (of_nat i)"
    using slfs_write_read [OF st1(2) _ _ _ _ f(3,4) assms(2) k_def k, of 0 buf inode junk3 buf0] f(2)
    by (auto simp: formatted_word ino_def blk_def free_blk_def)
  let ?st3 = "put_slfs_file a f' (?st2\<lparr>fs_slfs := s'\<rparr>)"
  have "fs_write api ?fp buf n inode junk3 ?st2 = Some (Ret NO_ERR, ?st3)"
    using w(1) by (simp add: fs_write_def put_slfs_file_def)
  moreover have "fs_read api ?fp buf0 n ?st3 = (Ret NO_ERR, buf', ?st3)"
    using w(2) by (simp add: fs_read_def put_slfs_file_def)
  ultimately show ?thesis using st1(1) opened w(3) by blast
qed

definition no_lfs :: "(unit, unit) lfs_api" where
  "no_lfs = \<lparr>lfs_format = \<lambda>_ l m. (-1, l, m), lfs_mount = \<lambda>_ l m. (-1, l, m), lfs_unmount = \<lambda>l m. (-1, l, m),
     lfs_file_open = \<lambda>_ _ f l m. (-1, f, l, m), lfs_file_read = \<lambda>b _ f l m. (-1, b, f, l, m),
     lfs_file_write = \<lambda>_ _ f l m. (-1, f, l, m), lfs_file_seek = \<lambda>_ _ f l m. (-1, f, l, m),
     lfs_file_close = \<lambda>f l m. (-1, f, l, m), SIZEOF_lfs_file = 84, LFS_O_CREAT_RDWR = 0x103\<rparr>"

definition fresh_fs :: "(unit, unit) fs_state" where
  "fresh_fs = \<lparr>fs_slfs = erased_dev, fs_lfs = (), fs_mms = fresh_mms, slfs_files = \<lambda>_. new_file, lfs_files = \<lambda>_. ()\<rparr>"

theorem fs_mount_write_read_witness:
  "\<exists>st1 fp st2 st3 buf'. fs_mount no_lfs SLFS_FILE_SYSTEM no_bytes no_bytes fresh_fs = (Ret NO_ERR, st1)
    \<and> fs_open no_lfs SLFS_FILE_SYSTEM no_bytes 0 st1 = Some (Ret NO_ERR, fp, st2)
    \<and> fs_write no_lfs fp (\<lambda>_. 7) 1000 no_bytes 0 st2 = Some (Ret NO_ERR, st3)
    \<and> fs_read no_lfs fp no_bytes 1000 st3 = (Ret NO_ERR, buf', st3) \<and> (\<forall>i < unat (1000 :: u32). buf' (of_nat i) = 7)"
proof -
  have "\<exists>as st'. kmalloc_all [SIZEOF_slfs_file] (fs_mms fresh_fs) = Some (as, st')"
    using kmalloc_all_layout [of fresh_mms 1 "[SIZEOF_slfs_file]", OF _ _ refl refl] fresh_vm_stack
    by (auto simp: fresh_fs_def fresh_mms_def fresh_vm_simps PAGE_SIZE_def pages_of_def SIZEOF_slfs_file_def)
  then obtain a mm where "kmalloc SIZEOF_slfs_file (fs_mms fresh_fs) = Some (a, mm)"
    by (auto simp: Option.bind_eq_Some_conv)
  from fs_mount_write_read [OF this, of 1000 no_lfs no_bytes no_bytes no_bytes 0 "\<lambda>_. 7" no_bytes 0 no_bytes]
  show ?thesis by simp
qed

text \<open>The erase callback takes a littlefs block, of 64 KiB, for a page, of 4 KiB: it leaves the block as it is and
  erases a page of another one.\<close>

lemma lfs_erase_misses_block:
  assumes "0 < b" and "b < 64"
  shows "b * 0x10000 \<le> x \<Longrightarrow> x < (b + 1) * 0x10000 \<Longrightarrow> dsk (snd (cfg_erase init_littlefs (of_nat b) m)) x = dsk m x"
    and "b * 0x1000 \<le> x \<Longrightarrow> x < (b + 1) * 0x1000 \<Longrightarrow> dsk (snd (cfg_erase init_littlefs (of_nat b) m)) x = 0xFF"
proof -
  have "unat (of_nat b :: u32) = b" by (rule unat_of_nat_u32) (use assms(2) in simp)
  then have e: "x < 2 ^ 32 \<Longrightarrow> dsk (snd (cfg_erase init_littlefs (of_nat b) m)) x
      = (if b * 4096 \<le> x \<and> x < b * 4096 + 4096 then 0xFF else dsk m x)"
    using rd.erase_byte [of "of_nat b" x m] assms by (simp add: init_littlefs_def lfs_api_erase_def)
  then show "b * 0x10000 \<le> x \<Longrightarrow> x < (b + 1) * 0x10000 \<Longrightarrow> dsk (snd (cfg_erase init_littlefs (of_nat b) m)) x = dsk m x"
    using assms by auto
  show "b * 0x1000 \<le> x \<Longrightarrow> x < (b + 1) * 0x1000 \<Longrightarrow> dsk (snd (cfg_erase init_littlefs (of_nat b) m)) x = 0xFF"
    using e assms by auto
qed

end
