(* ===== verification/SlfsOpen.thy ===== *)
theory SlfsOpen
  imports SlfsRw
begin

unbundle bit_operations_syntax

text \<open>
  Opening a file of SLFS again (src/kernel/fs/slfs/slfs.c): the search of the inode table by name, and the count of
  the blocks of the list. The last block carries the address 0, not \<open>MINUS_ONE\<close>: the count goes on at
  device address 0, in the metadata page, and ends there only because the word it reads is erased.
\<close>

section \<open>The inode of a name\<close>

text \<open>\<open>nm\<close> is a C string of at most 15 characters.\<close>

definition short_name :: "mem \<Rightarrow> nat \<Rightarrow> bool" where
  "short_name nm m \<longleftrightarrow> m < 16 \<and> nm (of_nat m) = 0 \<and> (\<forall>j < m. nm (of_nat j) \<noteq> 0)"

text \<open>The inode \<open>i\<close> on the device, and whether its name is \<open>nm\<close>.\<close>

definition inode_on :: "disk \<Rightarrow> nat \<Rightarrow> mem" where "inode_on D i = (\<lambda>a. D (ino i + unat a))"
definition named :: "mem \<Rightarrow> disk \<Rightarrow> nat \<Rightarrow> bool" where "named nm D i \<longleftrightarrow> name_matches nm (inode_on D i)"

lemma name_matches_cong:
  assumes "\<And>j. j < 16 \<Longrightarrow> b (24 + of_nat j) = b' (24 + of_nat j)"
  shows "name_matches nm b = name_matches nm b'"
proof -
  have "List.find (\<lambda>j. nm (of_nat j) \<noteq> ino_name b 0 j \<or> nm (of_nat j) = 0) [0..<SLFS_FNAME_LEN]
      = List.find (\<lambda>j. nm (of_nat j) \<noteq> ino_name b' 0 j \<or> nm (of_nat j) = 0) [0..<SLFS_FNAME_LEN]"
    using assms by (intro find_cong) (simp_all add: ino_name_def SLFS_FNAME_LEN_def)
  moreover have "ino_name b 0 j = ino_name b' 0 j"
    if "List.find (\<lambda>j. nm (of_nat j) \<noteq> ino_name b' 0 j \<or> nm (of_nat j) = 0) [0..<SLFS_FNAME_LEN] = Some j" for j
    using that assms by (auto simp: find_Some_iff ino_name_def SLFS_FNAME_LEN_def)
  ultimately show ?thesis by (auto simp: name_matches_def split: option.split)
qed

lemma read_inode:
  assumes "on_disk s D" and "i < 32"
  obtains inode where "rdbuf (inode_at (of_nat i)) SLFS_INODE_SIZE s = (NO_ERR, inode)"
    "\<And>y. y < 56 \<Longrightarrow> inode (of_nat y) = D (ino i + y)" "name_matches nm inode = named nm D i"
proof -
  have u: "unat (inode_at (of_nat i)) = ino i"
    using unat_ino [OF assms(2), of 0] by (simp add: inode_at_ino)
  obtain inode where n: "rdbuf (inode_at (of_nat i)) 56 s = (NO_ERR, inode)"
    "\<And>j. j < unat (56 :: u32) \<Longrightarrow> inode (of_nat j) = D (unat (inode_at (of_nat i)) + j)"
    by (rule rdbuf_on [OF assms(1), of "inode_at (of_nat i)" 56]) (use u ino_below [OF assms(2)] in auto)
  have b: "inode (of_nat y) = D (ino i + y)" if "y < 56" for y using n(2) [of y] that u by simp
  have "name_matches nm inode = named nm D i"
    unfolding named_def
  proof (rule name_matches_cong)
    fix j :: nat
    assume "j < 16"
    then show "inode (24 + of_nat j) = inode_on D i (24 + of_nat j)"
      using b [of "24 + j"] unat_of_nat_u32 [of "24 + j"] by (simp add: inode_on_def)
  qed
  then show ?thesis using that n(1) b by (simp add: SLFS_INODE_SIZE_def)
qed

lemma find_latest_none:
  assumes "on_disk s D" and "\<And>i. i \<in> set is \<Longrightarrow> i < 32 \<and> \<not> named nm D i"
  shows "find_latest is nm best s = (NO_ERR, best)"
  using assms(2)
proof (induction "is")
  case (Cons i "is")
  obtain inode where "rdbuf (inode_at (of_nat i)) SLFS_INODE_SIZE s = (NO_ERR, inode)" "name_matches nm inode = named nm D i"
    by (rule read_inode [OF assms(1), of i nm]) (use Cons.prems in auto)
  then show ?case using Cons by simp
qed simp

text \<open>One inode of the name: it is found.\<close>

lemma find_latest_one:
  assumes "on_disk s D" and "distinct is" and "idx \<in> set is" and "named nm D idx"
    and "\<And>i. i \<in> set is \<Longrightarrow> i < 32 \<and> (i \<noteq> idx \<longrightarrow> \<not> named nm D i)"
  obtains inode where "find_latest is nm None s = (NO_ERR, Some inode)" "\<And>y. y < 56 \<Longrightarrow> inode (of_nat y) = D (ino idx + y)"
  using assms(2,3,5)
proof (induction "is" arbitrary: thesis)
  case (Cons i "is")
  obtain inode where r: "rdbuf (inode_at (of_nat i)) SLFS_INODE_SIZE s = (NO_ERR, inode)"
    "\<And>y. y < 56 \<Longrightarrow> inode (of_nat y) = D (ino i + y)" "name_matches nm inode = named nm D i"
    using read_inode [OF assms(1), of i nm] Cons.prems(4) [of i] by (metis list.set_intros(1))
  show ?case
  proof (cases "i = idx")
    case True
    have "find_latest is nm (Some inode) s = (NO_ERR, Some inode)"
      by (rule find_latest_none [OF assms(1)]) (use Cons.prems(2,4) True in auto)
    then show ?thesis using Cons.prems(1) [of inode] r assms(4) True by simp
  next
    case False
    obtain inode' where "find_latest is nm None s = (NO_ERR, Some inode')" "\<And>y. y < 56 \<Longrightarrow> inode' (of_nat y) = D (ino idx + y)"
      using Cons.IH Cons.prems(2-4) False by auto
    then show ?thesis using Cons.prems(1) [of inode'] r(1,3) Cons.prems(4) [of i] False by simp
  qed
qed simp

section \<open>The count of the blocks\<close>

lemma blk_num_chain:
  assumes "on_disk s D" and "blk_chain D b (Suc d)" and "b + Suc d \<le> 8184" and "dword D (blk (b + d) + 508) = 0"
  shows "blk_num_loop (of_nat (blk b)) n s = blk_num_loop 0 (n + of_nat (Suc d)) s"
  using assms(2-4)
proof (induction d arbitrary: b n)
  case 0
  have lt: "b < 8184" using "0.prems"(2) by simp
  have "of_nat (blk b) \<noteq> MINUS_ONE" using unat_blk [OF lt] blk_room [OF lt] by (auto simp: MINUS_ONE_def)
  moreover have "next_blk (of_nat (blk b)) s = (NO_ERR, 0)"
    using next_blk_on [OF assms(1), of "of_nat (blk b)"] unat_blk [OF lt] blk_room [OF lt] "0.prems"(3) by simp
  ultimately show ?case by (subst blk_num_loop.simps) simp
next
  case (Suc d)
  have lt: "b < 8184" using Suc.prems(2) by simp
  have "of_nat (blk b) \<noteq> MINUS_ONE" using unat_blk [OF lt] blk_room [OF lt] by (auto simp: MINUS_ONE_def)
  moreover have "next_blk (of_nat (blk b)) s = (NO_ERR, of_nat (blk (Suc b)))"
    using next_in_chain [OF assms(1) Suc.prems(1)] Suc.prems(2) by simp
  moreover have "blk_num_loop (of_nat (blk (Suc b))) (n + 1) s = blk_num_loop 0 (n + 1 + of_nat (Suc d)) s"
    by (rule Suc.IH [OF blk_chain_Suc [OF Suc.prems(1)]]) (use Suc.prems(2,3) in simp_all)
  ultimately show ?case by (subst blk_num_loop.simps) (simp add: add.assoc)
qed

text \<open>The count is one too many, as far as the word at 508 of the device is erased.\<close>

lemma get_datablk_num_over:
  assumes "on_disk s D" and "blk_chain D b k" and "0 < k" and "b + k \<le> 8184" and "dword D (blk (b + (k - 1)) + 508) = 0"
    and "dword D 508 = MINUS_ONE" and "datablk_addr f = of_nat (blk b)"
  shows "get_datablk_num f s = Some (NO_ERR, of_nat k + 1)"
proof -
  obtain d where k: "k = Suc d" using assms(3) by (cases k) auto
  have "next_blk 0 s = (NO_ERR, MINUS_ONE)" using next_blk_on [OF assms(1), of 0] assms(6) by simp
  moreover have "(0 :: u32) \<noteq> MINUS_ONE" by (simp add: MINUS_ONE_def)
  ultimately have "blk_num_loop 0 (of_nat k) s = Some (NO_ERR, of_nat k + 1)"
    by (subst blk_num_loop.simps) (subst blk_num_loop.simps, simp)
  then show ?thesis
    using blk_num_chain [OF assms(1), of b d 0] assms(2,4,5,7) by (simp add: get_datablk_num_def k)
qed

section \<open>Opening again\<close>

lemma named_copy:
  assumes "short_name nm m" and "\<And>j. j \<le> m \<Longrightarrow> D (ino idx + (24 + j)) = nm (of_nat j)"
  shows "named nm D idx"
proof -
  have n: "ino_name (inode_on D idx) 0 j = nm (of_nat j)" if "j \<le> m" for j
    using assms(2) [OF that] that assms(1) unat_of_nat_u32 [of "24 + j"] by (simp add: ino_name_def inode_on_def short_name_def)
  have "List.find (\<lambda>j. nm (of_nat j) \<noteq> ino_name (inode_on D idx) 0 j \<or> nm (of_nat j) = 0) [0..<SLFS_FNAME_LEN] = Some m"
    unfolding find_Some_iff using assms(1) n by (auto simp: short_name_def SLFS_FNAME_LEN_def intro!: exI [of _ m])
  then show ?thesis using n [of m] by (simp add: named_def name_matches_def)
qed

lemma slfs_open_existing:
  assumes "on_disk s D" and "idx < 32" and "file_on D idx b k f" and "inode_idx f = of_nat idx" and "0 < k" and "b + k \<le> 8184"
    and "named nm D idx" and "\<And>i. i < 32 \<Longrightarrow> i \<noteq> idx \<Longrightarrow> \<not> named nm D i" and "dword D 508 = MINUS_ONE"
  obtains f' where "slfs_open nm pf s = Some (NO_ERR, f')" "file_size f' = file_size f" "pos f' = 0"
    "datablk_addr f' = of_nat (blk b)" "open_cnt f' = open_cnt pf + 1" "fd f' = fd f"
proof -
  obtain inode where i: "find_latest [0..<SLFS_INODE_MAX_CNT] nm None s = (NO_ERR, Some inode)"
    "\<And>y. y < 56 \<Longrightarrow> inode (of_nat y) = D (ino idx + y)"
    by (rule find_latest_one [OF assms(1), of "[0..<SLFS_INODE_MAX_CNT]" idx nm])
      (use assms(2,7,8) in \<open>auto simp: SLFS_INODE_MAX_CNT_def\<close>)
  have w: "load32 inode (of_nat c) = dword D (ino idx + c)" if "c + 4 \<le> 56" for c
    by (rule buf_dword [of 56]) (use i(2) that in auto)
  have ino: "ino_idx inode 0 = inode_idx f" "ino_update_cnt inode 0 = update_cnt f" "ino_file_size inode 0 = file_size f"
    "ino_datablk_addr inode 0 = of_nat (blk b)" "ino_file_id inode 0 = fd f"
    using w [of 0] w [of 4] w [of 8] w [of 12] w [of 16] assms(3)
    by (simp_all add: ino_idx_def ino_update_cnt_def ino_file_size_def ino_datablk_addr_def ino_file_id_def file_on_def)
  have ne: "ino_idx inode 0 \<noteq> MINUS_ONE"
    using assms(2) unat_of_nat_u32 [of idx] by (auto simp: ino assms(4) MINUS_ONE_def)
  have "get_datablk_num g s = Some (NO_ERR, of_nat k + 1)" if "datablk_addr g = of_nat (blk b)" for g
    by (rule get_datablk_num_over [OF assms(1) _ assms(5,6) _ assms(9) that]) (use assms(3) in \<open>simp_all add: file_on_def\<close>)
  then show ?thesis
    using that i(1) ne by (simp add: slfs_open_def ino Let_def)
qed

end
