(* ===== verification/FsPersist.thy ===== *)
theory FsPersist
  imports Fs SlfsOpen
begin

unbundle bit_operations_syntax

text \<open>
  Files that outlive their file object (src/kernel/fs/fs.c over src/kernel/fs/slfs/slfs.c): a file that was written,
  closed and opened again by its name has its bytes.
\<close>

section \<open>An open file\<close>

text \<open>\<open>fp\<close> is open at position \<open>p\<close>: its \<open>N\<close> bytes are in the blocks from \<open>b\<close> on, on the device \<open>D\<close>.\<close>

definition slfs_open_at :: "file_obj \<Rightarrow> disk \<Rightarrow> nat \<Rightarrow> u32 \<Rightarrow> nat \<Rightarrow> ('l, 'f) fs_state \<Rightarrow> bool" where
  "slfs_open_at fp D b N p s \<longleftrightarrow>
     (let k = (unat N - 1) div 504 + 1; f = slfs_files s (virt_fp fp)
      in fs_t fp = SLFS_FILE_SYSTEM \<and> on_disk (fs_slfs s) D \<and> blk_chain D b k \<and> b + k \<le> 8184 \<and> N \<noteq> 0
       \<and> file_size f = N \<and> open_cnt f \<noteq> 0 \<and> unat (pos f) = p \<and> datablk_addr f = of_nat (blk b))"

lemma fs_seek_open:
  assumes "slfs_open_at fp D b N p s" and "unat off \<le> unat N"
  shows "\<exists>s'. fs_seek api fp off SLFS_SEEK_SET s = (Ret NO_ERR, s') \<and> slfs_open_at fp D b N (unat off) s'"
  using assms by (auto simp: fs_seek_def slfs_seek_def slfs_open_at_def Let_def put_slfs_file_def word_less_nat_alt)

lemma fs_read_open:
  assumes "slfs_open_at fp D b N p s" and "p + unat n \<le> unat N"
  obtains b' where "fs_read api fp bf n s = (Ret NO_ERR, b', s)" "filled bf 0 (unat n) (\<lambda>x. file_byte D b (p + x)) b'"
proof -
  let ?f = "slfs_files s (virt_fp fp)"
  have p: "p = unat (pos ?f)" using assms(1) by (simp add: slfs_open_at_def Let_def)
  obtain buf where r: "slfs_read ?f (Some bf) n (fs_slfs s) = (NO_ERR, Some buf)"
    "filled bf 0 (unat n) (\<lambda>x. file_byte D b (unat (pos ?f) + x)) buf"
    by (rule read_file_at [of "fs_slfs s" D b "(unat N - 1) div 504 + 1" N ?f n bf])
      (use assms in \<open>auto simp: slfs_open_at_def Let_def unat_gt_0\<close>)
  then show ?thesis using assms(1) that by (auto simp: p fs_read_def slfs_open_at_def Let_def)
qed

section \<open>A new file of a mounted device\<close>

text \<open>The device has room for a new file: inode \<open>idx\<close> is the first free one, and the first \<open>k\<close> free blocks are those from \<open>b\<close> on.
  The count of the blocks runs from the last one into the word at 508 of the device, in the name of inode 5: that inode is not the one
  that is taken, and the word is erased.\<close>

definition file_room :: "disk \<Rightarrow> nat \<Rightarrow> nat \<Rightarrow> nat \<Rightarrow> bool" where
  "file_room D idx b k \<longleftrightarrow> idx < 32 \<and> dword D (ino idx + 8) = MINUS_ONE \<and> (\<forall>i < idx. dword D (ino i + 8) \<noteq> MINUS_ONE)
     \<and> b + k \<le> 8184 \<and> (\<forall>t < b. \<not> free_blk D t) \<and> (\<forall>t \<in> {b..<b + k}. free_blk D t)
     \<and> idx \<noteq> 5 \<and> dword D 508 = MINUS_ONE"

lemma copy_name_bytes:
  assumes "short_name nm m" and "j \<le> m"
  shows "copy_name (\<lambda>j. nm (of_nat j)) b (of_nat j) = nm (of_nat j)"
proof -
  have "List.find (\<lambda>j. nm (of_nat j) = 0) [0..<SLFS_FNAME_LEN] = Some m"
    unfolding find_Some_iff using assms(1) by (auto simp: short_name_def SLFS_FNAME_LEN_def intro!: exI [of _ m])
  moreover have "for_upto n (\<lambda>j b. b(of_nat j := nm (of_nat j))) b (of_nat j) = nm (of_nat j)" if "j < n" "n \<le> 16" for n
    using that by (induction n) (auto simp: less_Suc_eq of_nat_u32_eq)
  ultimately show ?thesis using assms by (simp add: copy_name_def Let_def short_name_def del: for_upto.simps)
qed

text \<open>Names are compared up to the terminator.\<close>

lemma name_matches_short:
  assumes "short_name nm m"
  shows "name_matches nm b \<longleftrightarrow> (\<forall>j \<le> m. ino_name b 0 j = nm (of_nat j))"
proof
  let ?P = "\<lambda>j. nm (of_nat j) \<noteq> ino_name b 0 j \<or> nm (of_nat j) = 0"
  assume "name_matches nm b"
  then obtain j where j: "List.find ?P [0..<SLFS_FNAME_LEN] = Some j" "nm (of_nat j) = ino_name b 0 j"
    by (auto simp: name_matches_def split: option.splits)
  then have f: "nm (of_nat j) = 0" "\<And>i. i < j \<Longrightarrow> \<not> ?P i" by (auto simp: find_Some_iff SLFS_FNAME_LEN_def)
  have "\<not> m < j" "\<not> j < m" using f assms by (auto simp: short_name_def)
  then have "m = j" by simp
  then show "\<forall>i \<le> m. ino_name b 0 i = nm (of_nat i)" using f(2) j(2) by (auto simp: le_less)
next
  assume a: "\<forall>j \<le> m. ino_name b 0 j = nm (of_nat j)"
  have "List.find (\<lambda>j. nm (of_nat j) \<noteq> ino_name b 0 j \<or> nm (of_nat j) = 0) [0..<SLFS_FNAME_LEN] = Some m"
    unfolding find_Some_iff using assms a by (auto simp: short_name_def SLFS_FNAME_LEN_def intro!: exI [of _ m])
  then show "name_matches nm b" using a by (simp add: name_matches_def)
qed

lemma named_same:
  assumes "short_name nm m" and "\<forall>j \<le> m. nm' (of_nat j) = nm (of_nat j)"
  shows "named nm' D i = named nm D i"
proof -
  have "short_name nm' m" using assms by (simp add: short_name_def)
  then show ?thesis using assms by (simp add: named_def name_matches_short)
qed

lemma named_cong:
  assumes "\<And>y. y < 56 \<Longrightarrow> D (ino i + y) = D' (ino i + y)"
  shows "named nm D i = named nm D' i"
  unfolding named_def
proof (rule name_matches_cong)
  fix j :: nat
  assume "j < 16"
  then show "inode_on D i (24 + of_nat j) = inode_on D' i (24 + of_nat j)"
    using assms [of "24 + j"] unat_of_nat_u32 [of "24 + j"] by (simp add: inode_on_def)
qed

text \<open>Opening, writing and closing a file under a new name leaves a device from which the name opens the file.\<close>

lemma fs_new_file:
  assumes "on_disk (fs_slfs st1) D" and room: "file_room D idx b k" and new: "\<forall>i < 32. \<not> named name D i"
    and "kmalloc SIZEOF_slfs_file (fs_mms st1) = Some (a, mm)"
    and "kfree a mm = Some mm1" and "0 < unat n" and "k = (unat n - 1) div 504 + 1" and "short_name name m"
  obtains fp st2 st3 st4 D' where "fs_open api SLFS_FILE_SYSTEM name flag st1 = Some (Ret NO_ERR, fp, st2)"
    "fs_write api fp buf n inode junk3 st2 = Some (Ret NO_ERR, st3)" "fs_close api fp st3 = Some (Ret NO_ERR, st4)"
    "fs_mms st4 = mm1" "\<And>i. i < unat n \<Longrightarrow> file_byte D' b i = buf (of_nat i)"
    "\<And>mm' a' mm2 name' flag'. kmalloc SIZEOF_slfs_file mm' = Some (a', mm2) \<Longrightarrow> open_cnt (slfs_files st4 a') + 1 \<noteq> 0 \<Longrightarrow>
       \<forall>j \<le> m. name' (of_nat j) = name (of_nat j) \<Longrightarrow>
       \<exists>st5. fs_open api SLFS_FILE_SYSTEM name' flag' (st4\<lparr>fs_mms := mm'\<rparr>) = Some (Ret NO_ERR, \<lparr>fs_t = SLFS_FILE_SYSTEM, virt_fp = a'\<rparr>, st5)
         \<and> slfs_open_at \<lparr>fs_t = SLFS_FILE_SYSTEM, virt_fp = a'\<rparr> D' b n 0 st5 \<and> fs_mms st5 = mm2"
    "open_cnt (slfs_files st4 a) = 0" "slfs_files st4 = (slfs_files st1)(a := slfs_files st4 a)"
    "on_disk (fs_slfs st4) D'" "\<And>x. x \<notin> ino_words idx \<Longrightarrow> x < blk b \<or> blk (b + k) \<le> x \<Longrightarrow> D' x = D x"
proof -
  note room = room [unfolded file_room_def]
  let ?s = "fs_slfs st1"
  let ?f = "(slfs_files st1 a)\<lparr>fd := MINUS_ONE, file_size := 0, inode_idx := MINUS_ONE, pos := 0, open_cnt := 1,
      datablk_addr := MINUS_ONE, allocedblk_num := 0, update_cnt := 0,
      fname := copy_name (\<lambda>j. name (of_nat j)) (fname (slfs_files st1 a))\<rparr>"
  have "find_latest [0..<SLFS_INODE_MAX_CNT] name None ?s = (NO_ERR, None)"
    by (rule find_latest_none [OF assms(1)]) (use new in \<open>auto simp: SLFS_INODE_MAX_CNT_def\<close>)
  then have so: "slfs_open name (slfs_files st1 a) ?s = Some (NO_ERR, ?f)" by (simp add: slfs_open_def)
  let ?fp = "\<lparr>fs_t = SLFS_FILE_SYSTEM, virt_fp = a\<rparr>" and ?st2 = "put_slfs_file a ?f (st1\<lparr>fs_mms := mm\<rparr>)"
  have opened: "fs_open api SLFS_FILE_SYSTEM name flag st1 = Some (Ret NO_ERR, ?fp, ?st2)"
    using assms(4) so by (simp add: fs_open_def)
  have k: "b + k \<le> 8184" "0 < k" "idx < 32" using room assms(7) by simp_all
  obtain f' s' D' where w: "slfs_write (Some ?f) (Some buf) n inode junk3 ?s = Some (NO_ERR, Some f', s')"
    and f': "f' = ?f\<lparr>file_size := n, inode_idx := of_nat idx, update_cnt := update_cnt ?f + 1,
      fd := (if fd ?f = MINUS_ONE then of_nat idx else fd ?f), datablk_addr := of_nat (blk b), allocedblk_num := of_nat k\<rparr>"
    and D': "on_disk s' D'" "file_on D' idx b k f'" "\<And>i. i < unat n \<Longrightarrow> file_byte D' b i = buf (of_nat i)"
      "\<And>x. x \<notin> ino_words idx \<Longrightarrow> x < blk b \<or> blk (b + k) \<le> x \<Longrightarrow> D' x = D x"
    by (rule slfs_write_new [OF assms(1), of idx ?f n k b buf inode junk3]) (use room assms(6,7) in simp_all)
  have below: "x < blk b" if "x < 0x1000" for x using that by (simp add: blk_def)
  have nm: "named name' D' idx" if "\<forall>j \<le> m. name' (of_nat j) = name (of_nat j)" for name'
  proof (rule named_copy)
    show "short_name name' m" using assms(8) that by (simp add: short_name_def)
    show "D' (ino idx + (24 + j)) = name' (of_nat j)" if "j \<le> m" for j
      using D'(2) copy_name_bytes [OF assms(8) that] assms(8) that \<open>\<forall>j \<le> m. name' (of_nat j) = name (of_nat j)\<close>
      by (simp add: file_on_def f' short_name_def)
  qed
  have other: "\<not> named name' D' i"
    if "\<forall>j \<le> m. name' (of_nat j) = name (of_nat j)" "i < 32" "i \<noteq> idx" for i name'
  proof -
    have "D' (ino i + y) = D (ino i + y)" if "y < 56" for y
      by (rule D'(4)) (use that below \<open>i < 32\<close> \<open>i \<noteq> idx\<close> in \<open>auto simp: ino_words_def ino_def\<close>)
    then show ?thesis using new that(2) named_cong [of D' i D] named_same [OF assms(8) that(1)] by simp
  qed
  have w508: "dword D' 508 = MINUS_ONE"
    using room dword_cong [of 508 D' D] D'(4) below by (simp add: ino_words_def ino_def)
  let ?st3 = "put_slfs_file a f' (?st2\<lparr>fs_slfs := s'\<rparr>)"
  have written: "fs_write api ?fp buf n inode junk3 ?st2 = Some (Ret NO_ERR, ?st3)"
    using w by (simp add: fs_write_def put_slfs_file_def)
  let ?f4 = "f'\<lparr>fd := MINUS_ONE, datablk_addr := MINUS_ONE, file_size := 0, open_cnt := open_cnt f' - 1, pos := 0\<rparr>"
  let ?st4 = "put_slfs_file a ?f4 (?st3\<lparr>fs_mms := mm1\<rparr>)"
  have "(of_nat idx :: u32) \<noteq> MINUS_ONE" using k(3) unat_of_nat_u32 [of idx] by (auto simp: MINUS_ONE_def)
  then have closed: "fs_close api ?fp ?st3 = Some (Ret NO_ERR, ?st4)"
    using assms(5) by (simp add: fs_close_def slfs_close_def put_slfs_file_def f' failed_def)
  have again: "\<exists>st5. fs_open api SLFS_FILE_SYSTEM name' flag' (?st4\<lparr>fs_mms := mm'\<rparr>) = Some (Ret NO_ERR, \<lparr>fs_t = SLFS_FILE_SYSTEM, virt_fp = a'\<rparr>, st5)
      \<and> slfs_open_at \<lparr>fs_t = SLFS_FILE_SYSTEM, virt_fp = a'\<rparr> D' b n 0 st5 \<and> fs_mms st5 = mm2"
    if h: "kmalloc SIZEOF_slfs_file mm' = Some (a', mm2)" "open_cnt (slfs_files ?st4 a') + 1 \<noteq> 0"
      "\<forall>j \<le> m. name' (of_nat j) = name (of_nat j)" for mm' a' mm2 name' flag'
  proof -
    obtain g where g: "slfs_open name' (slfs_files ?st4 a') s' = Some (NO_ERR, g)" "file_size g = n" "pos g = 0"
      "datablk_addr g = of_nat (blk b)" "open_cnt g = open_cnt (slfs_files ?st4 a') + 1"
      by (rule slfs_open_existing [OF D'(1) k(3) D'(2) _ k(2,1) nm [OF h(3)] other [OF h(3)] w508, of "slfs_files ?st4 a'"])
        (use f' in simp_all)
    have n0: "n \<noteq> 0" using assms(6) by auto
    have "fs_open api SLFS_FILE_SYSTEM name' flag' (?st4\<lparr>fs_mms := mm'\<rparr>)
        = Some (Ret NO_ERR, \<lparr>fs_t = SLFS_FILE_SYSTEM, virt_fp = a'\<rparr>, put_slfs_file a' g (?st4\<lparr>fs_mms := mm2\<rparr>))"
      using h(1) g(1) by (simp add: fs_open_def put_slfs_file_def)
    moreover have "slfs_open_at \<lparr>fs_t = SLFS_FILE_SYSTEM, virt_fp = a'\<rparr> D' b n 0 (put_slfs_file a' g (?st4\<lparr>fs_mms := mm2\<rparr>))"
      using D'(1,2) k(1) g h(2) n0 assms(7) by (simp add: slfs_open_at_def Let_def put_slfs_file_def file_on_def)
    ultimately show ?thesis by (auto simp: put_slfs_file_def)
  qed
  show ?thesis
    by (rule that [OF opened written closed _ D'(3) again _ _ _ D'(4)]) (use D'(1) in \<open>simp_all add: put_slfs_file_def f'\<close>)
qed

section \<open>The first file of a formatted device\<close>

lemma not_named_erased:
  assumes "\<And>j. j < 16 \<Longrightarrow> D (ino i + (24 + j)) = 0xFF"
  shows "\<not> named nm D i"
proof -
  have "ino_name (inode_on D i) 0 j = 0xFF" if "j < 16" for j
    using assms [OF that] that unat_of_nat_u32 [of "24 + j"] by (simp add: ino_name_def inode_on_def)
  then show ?thesis
    unfolding named_def name_matches_def by (auto simp: find_Some_iff SLFS_FNAME_LEN_def split: option.split)
qed

lemma formatted_erased: "56 \<le> x \<Longrightarrow> formatted junk x = 0xFF"
  by (simp add: formatted_def dput_def)

lemma formatted_room: "k \<le> 8184 \<Longrightarrow> file_room (formatted junk) 0 0 k"
  by (auto simp: file_room_def formatted_word ino_def blk_def free_blk_def)

lemma formatted_not_named: "i < 32 \<Longrightarrow> \<not> named nm (formatted junk) i"
  by (rule not_named_erased) (simp add: formatted_erased ino_def)

lemma blocks_fit: "0 < unat n \<Longrightarrow> unat (n :: u32) \<le> 8184 * 504 \<Longrightarrow> (unat n - 1) div 504 + 1 \<le> 8184"
  by simp

lemma fs_first_file:
  assumes "on_disk (fs_slfs st1) (formatted junk)" and "kmalloc SIZEOF_slfs_file (fs_mms st1) = Some (a, mm)"
    and "kfree a mm = Some mm1" and "0 < unat n" and "unat n \<le> 8184 * 504" and "short_name name m"
  obtains fp st2 st3 st4 D where "fs_open api SLFS_FILE_SYSTEM name flag st1 = Some (Ret NO_ERR, fp, st2)"
    "fs_write api fp buf n inode junk3 st2 = Some (Ret NO_ERR, st3)" "fs_close api fp st3 = Some (Ret NO_ERR, st4)"
    "fs_mms st4 = mm1" "\<And>i. i < unat n \<Longrightarrow> file_byte D 0 i = buf (of_nat i)"
    "\<And>mm' a' mm2 name' flag'. kmalloc SIZEOF_slfs_file mm' = Some (a', mm2) \<Longrightarrow> open_cnt (slfs_files st4 a') + 1 \<noteq> 0 \<Longrightarrow>
       \<forall>j \<le> m. name' (of_nat j) = name (of_nat j) \<Longrightarrow>
       \<exists>st5. fs_open api SLFS_FILE_SYSTEM name' flag' (st4\<lparr>fs_mms := mm'\<rparr>) = Some (Ret NO_ERR, \<lparr>fs_t = SLFS_FILE_SYSTEM, virt_fp = a'\<rparr>, st5)
         \<and> slfs_open_at \<lparr>fs_t = SLFS_FILE_SYSTEM, virt_fp = a'\<rparr> D 0 n 0 st5 \<and> fs_mms st5 = mm2"
    "open_cnt (slfs_files st4 a) = 0" "slfs_files st4 = (slfs_files st1)(a := slfs_files st4 a)"
proof -
  have new: "\<forall>i < 32. \<not> named name (formatted junk) i" by (simp add: formatted_not_named)
  show ?thesis
    by (rule fs_new_file [OF assms(1) formatted_room [OF blocks_fit [OF assms(4,5)]] new assms(2-4) refl assms(6), of api flag buf inode junk3])
      (rule that)
qed

text \<open>Room on the heap for one more region.\<close>

definition heap_room :: "mms \<Rightarrow> bool" where
  "heap_room mm \<longleftrightarrow>
     (let v = vmpools (mm_vms mm) (pvm_kernel mm)
      in \<exists>n < 256. vm_stack (pvm_kernel mm) n (mm_vms mm)
        \<and> (\<forall>i < n. startAddr (regions (mm_vms mm) (slot (base_address v) i)) \<noteq> base_address v + region_size_total v))"

lemma heap_room_twice:
  assumes "heap_room m"
  obtains a mm mm1 mm2 where "kmalloc sz m = Some (a, mm)" "kfree a mm = Some mm1" "kmalloc sz mm1 = Some (a, mm2)"
proof -
  obtain n where n: "vm_stack (pvm_kernel m) n (mm_vms m)" "n < 256"
    "\<forall>i < n. startAddr (regions (mm_vms m) (slot (base_address (vmpools (mm_vms m) (pvm_kernel m))) i))
      \<noteq> base_address (vmpools (mm_vms m) (pvm_kernel m)) + region_size_total (vmpools (mm_vms m) (pvm_kernel m))"
    using assms by (auto simp: heap_room_def Let_def)
  show ?thesis by (rule kmalloc_kfree_again [OF n, of sz]) (rule that)
qed

text \<open>C5. A file persists. On any mounted device with room for it, a file that is opened under a new name, written and closed is there: opened
  again by its name it is read back as it was written, and on the device only its inode and the blocks it took have changed. The heap is a
  stack of regions with room for the file object; the name is a C string of at most 15 characters that no inode has. The free blocks follow
  each other, and the word at 508 of the device, which the code takes for the successor of the last block, is erased: it lies in the
  name of inode 5, so that this is about the files before that inode is taken, or after one whose name leaves the word as it was.\<close>

theorem fs_file_persists:
  assumes "on_disk (fs_slfs st) D" and "file_room D idx b k" and "\<forall>i < 32. \<not> named name D i"
    and "heap_room (fs_mms st)" and "0 < unat n" and "k = (unat n - 1) div 504 + 1" and "short_name name m"
  shows "\<exists>fp st2 st3 st4 D' fp2 st5 buf'. fs_open api SLFS_FILE_SYSTEM name flag st = Some (Ret NO_ERR, fp, st2)
    \<and> fs_write api fp buf n inode junk st2 = Some (Ret NO_ERR, st3)
    \<and> fs_close api fp st3 = Some (Ret NO_ERR, st4)
    \<and> on_disk (fs_slfs st4) D' \<and> (\<forall>x. x \<notin> ino_words idx \<and> (x < blk b \<or> blk (b + k) \<le> x) \<longrightarrow> D' x = D x)
    \<and> fs_open api SLFS_FILE_SYSTEM name flag st4 = Some (Ret NO_ERR, fp2, st5)
    \<and> fs_read api fp2 buf0 n st5 = (Ret NO_ERR, buf', st5) \<and> (\<forall>i < unat n. buf' (of_nat i) = buf (of_nat i))"
proof -
  obtain a mm mm1 mm2 where h: "kmalloc SIZEOF_slfs_file (fs_mms st) = Some (a, mm)" "kfree a mm = Some mm1"
    "kmalloc SIZEOF_slfs_file mm1 = Some (a, mm2)" by (rule heap_room_twice [OF assms(4)])
  obtain fp st2 st3 st4 D' where w: "fs_open api SLFS_FILE_SYSTEM name flag st = Some (Ret NO_ERR, fp, st2)"
    "fs_write api fp buf n inode junk st2 = Some (Ret NO_ERR, st3)" "fs_close api fp st3 = Some (Ret NO_ERR, st4)"
    "fs_mms st4 = mm1" "\<And>i. i < unat n \<Longrightarrow> file_byte D' b i = buf (of_nat i)"
    and again: "\<And>mm' a' mm2 name' flag'. kmalloc SIZEOF_slfs_file mm' = Some (a', mm2) \<Longrightarrow> open_cnt (slfs_files st4 a') + 1 \<noteq> 0 \<Longrightarrow>
       \<forall>j \<le> m. name' (of_nat j) = name (of_nat j) \<Longrightarrow>
       \<exists>st5. fs_open api SLFS_FILE_SYSTEM name' flag' (st4\<lparr>fs_mms := mm'\<rparr>) = Some (Ret NO_ERR, \<lparr>fs_t = SLFS_FILE_SYSTEM, virt_fp = a'\<rparr>, st5)
         \<and> slfs_open_at \<lparr>fs_t = SLFS_FILE_SYSTEM, virt_fp = a'\<rparr> D' b n 0 st5 \<and> fs_mms st5 = mm2"
    and c: "open_cnt (slfs_files st4 a) = 0"
    and d: "on_disk (fs_slfs st4) D'" "\<And>x. x \<notin> ino_words idx \<Longrightarrow> x < blk b \<or> blk (b + k) \<le> x \<Longrightarrow> D' x = D x"
    by (rule fs_new_file [OF assms(1-3) h(1,2) assms(5-7), of api flag buf inode junk]) (rule that)
  have "st4\<lparr>fs_mms := mm1\<rparr> = st4" using w(4) by simp
  then obtain st5 where o: "fs_open api SLFS_FILE_SYSTEM name flag st4 = Some (Ret NO_ERR, \<lparr>fs_t = SLFS_FILE_SYSTEM, virt_fp = a\<rparr>, st5)"
    "slfs_open_at \<lparr>fs_t = SLFS_FILE_SYSTEM, virt_fp = a\<rparr> D' b n 0 st5"
    using again [OF h(3), of name flag] c by auto
  obtain buf' where r: "fs_read api \<lparr>fs_t = SLFS_FILE_SYSTEM, virt_fp = a\<rparr> buf0 n st5 = (Ret NO_ERR, buf', st5)"
    "filled buf0 0 (unat n) (\<lambda>x. file_byte D' b (0 + x)) buf'"
    by (rule fs_read_open [OF o(2), of n api buf0]) simp
  have "\<forall>i < unat n. buf' (of_nat i) = buf (of_nat i)"
    using filledD [OF r(2)] w(5) unsigned_less [where ?'a = nat, of n] by auto
  then show ?thesis using w(1-3) o(1) r(1) d by blast
qed

lemma fresh_heap_room: "heap_room fresh_mms"
  using fresh_vm_stack by (auto simp: heap_room_def Let_def fresh_mms_def fresh_vm_simps slot_def intro!: exI [of _ 1])

definition name_a :: mem where "name_a = (\<lambda>a. if a = 0 then 0x41 else 0)"

text \<open>The first file after mounting, which formats the device.\<close>

theorem fs_file_persists_witness:
  "\<exists>st1 fp st2 st3 st4 fp2 st5 buf'. fs_mount no_lfs SLFS_FILE_SYSTEM no_bytes no_bytes fresh_fs = (Ret NO_ERR, st1)
    \<and> fs_open no_lfs SLFS_FILE_SYSTEM name_a 0 st1 = Some (Ret NO_ERR, fp, st2)
    \<and> fs_write no_lfs fp (\<lambda>_. 7) 1000 no_bytes 0 st2 = Some (Ret NO_ERR, st3)
    \<and> fs_close no_lfs fp st3 = Some (Ret NO_ERR, st4)
    \<and> fs_open no_lfs SLFS_FILE_SYSTEM name_a 0 st4 = Some (Ret NO_ERR, fp2, st5)
    \<and> fs_read no_lfs fp2 no_bytes 1000 st5 = (Ret NO_ERR, buf', st5) \<and> (\<forall>i < unat (1000 :: u32). buf' (of_nat i) = 7)"
proof -
  obtain st1 where st1: "fs_mount no_lfs SLFS_FILE_SYSTEM no_bytes no_bytes fresh_fs = (Ret NO_ERR, st1)"
    "on_disk (fs_slfs st1) (formatted no_bytes)" "fs_mms st1 = fs_mms fresh_fs" by (rule fs_mount_slfs)
  have h: "heap_room (fs_mms st1)" using fresh_heap_room st1(3) by (simp add: fresh_fs_def)
  have "short_name name_a 1" by (simp add: short_name_def name_a_def)
  then show ?thesis
    using fs_file_persists [OF st1(2) formatted_room _ h, of 2 name_a 1000 1 no_lfs 0 "\<lambda>_. 7" no_bytes 0 no_bytes] st1(1)
      formatted_not_named by fastforce
qed

end
