(* ===== verification/Mkfs.thy ===== *)
theory Mkfs
  imports Fs
begin

unbundle bit_operations_syntax

text \<open>
  The image of the applications: the host tool that packs it (src/mkfs/mkfs.cpp) and the kernel that unpacks it
  into files (\<open>create_ramdisk_fs\<close> of src/kernel/fs/fs.c). The format is the number of applications and, for each,
  its length and its bytes padded to a multiple of four. The host is little-endian, as the kernel is.
\<close>

section \<open>Packing\<close>

definition put32 :: "u32 \<Rightarrow> u8 list" where
  "put32 v = [ucast v, ucast (drop_bit 8 v), ucast (drop_bit 16 v), ucast (drop_bit 24 v)]"

text \<open>A file of more than 1 MiB is cut.\<close>

definition pad_app :: "u8 list \<Rightarrow> u8 list" where
  "pad_app app =
     (let b = take (1024 * 1024) app; padding = length b mod 4
      in if padding \<noteq> 0 then b @ replicate (4 - padding) 0 else b)"

text \<open>A file that does not exist is \<open>None\<close>; what is written before it stays in the image.\<close>

fun mkfs_apps :: "u8 list option list \<Rightarrow> u8 list \<Rightarrow> int \<times> u8 list" where
  "mkfs_apps [] out = (0, out)"
| "mkfs_apps (None # apps) out = (-1, out)"
| "mkfs_apps (Some app # apps) out =
     mkfs_apps apps (out @ put32 (of_nat (length (pad_app app))) @ pad_app app)"

definition mkfs :: "u8 list option list \<Rightarrow> int \<times> u8 list option" where
  "mkfs args =
     (if args = [] then (-1, None)
      else (let (r, out) = mkfs_apps args (put32 (of_nat (length args))) in (r, Some out)))"

section \<open>Unpacking\<close>

text \<open>What \<open>create_ramdisk_fs\<close> does with a list of applications that it has not to find in an image: each is given as
  a buffer and a length.\<close>

fun store_apps :: "('l, 'f) lfs_api \<Rightarrow> FILE_SYSTEM_TYPE \<Rightarrow> mem \<Rightarrow> u32 \<Rightarrow> (mem \<times> u32) list \<Rightarrow> u32 \<Rightarrow> (nat \<Rightarrow> char)
    \<Rightarrow> ('l, 'f) fs_state \<Rightarrow> (fs_ret \<times> ('l, 'f) fs_state) option" where
  "store_apps api t inode junk [] i path st = Some (Ret NO_ERR, st)"
| "store_apps api t inode junk ((buf, len) # apps) i path st =
     do {
       (k, path1) \<leftarrow> sprintk ''/App_%x'' [IntArg i] (0, path);
       (r, fp, st1) \<leftarrow> fs_open api t (name_bytes path1) (if t = LITTLEFS_FILE_SYSTEM then LFS_O_CREAT_RDWR api else 0) st;
       if failed r then Some (r, st1)
       else do {
         (r, st2) \<leftarrow> fs_write api fp buf len inode junk st1;
         if failed r then Some (r, st2)
         else do {
           (r, st3) \<leftarrow> fs_close api fp st2;
           if failed r then Some (r, st3)
           else store_apps api t inode junk apps (i + 1) path1 st3
         }
       }
     }"

text \<open>A buffer and a length that hold an application as \<open>mkfs\<close> pads it; an image in memory.\<close>

definition holds_app :: "mem \<times> u32 \<Rightarrow> u8 list \<Rightarrow> bool" where
  "holds_app e app \<longleftrightarrow> unat (snd e) = length (pad_app app) \<and> (\<forall>j < length (pad_app app). fst e (of_nat j) = pad_app app ! j)"

definition image_at :: "mem \<Rightarrow> u32 \<Rightarrow> u8 list \<Rightarrow> bool" where
  "image_at img base out \<longleftrightarrow> (\<forall>j < length out. img (base + of_nat j) = out ! j)"

definition packed :: "u8 list \<Rightarrow> u8 list" where
  "packed app = put32 (of_nat (length (pad_app app))) @ pad_app app"

lemma length_put32 [simp]: "length (put32 v) = 4" by (simp add: put32_def)

lemma mkfs_apps_all: "mkfs_apps (map Some apps) out = (0, out @ concat (map packed apps))"
  by (induction apps arbitrary: out) (simp_all add: packed_def)

lemma load32_put32:
  assumes "\<And>j. j < 4 \<Longrightarrow> m (p + of_nat j) = put32 v ! j"
  shows "load32 m p = v"
proof (rule byte_eqI)
  fix i :: nat
  assume i: "i < 4"
  then consider "i = 0" | "i = 1" | "i = 2" | "i = 3" by linarith
  then have "put32 v ! i = ucast (drop_bit (8 * i) v)" by cases (simp_all add: put32_def)
  then show "byte i (load32 m p) = byte i v" using assms [OF i] by (simp only: byte_load32 [OF i] ucast_byte)
qed

lemma image_at_word:
  assumes "image_at img base (pre @ put32 v @ suf)"
  shows "load32 img (base + of_nat (length pre)) = v"
proof (rule load32_put32)
  fix j :: nat
  assume "j < 4"
  then show "img (base + of_nat (length pre) + of_nat j) = put32 v ! j"
    using assms [unfolded image_at_def, rule_format, of "length pre + j"] by (simp add: nth_append add.assoc)
qed

lemma image_at_bytes:
  assumes "image_at img base (pre @ bs @ suf)" and "j < length bs"
  shows "img (base + of_nat (length pre) + of_nat j) = bs ! j"
  using assms(1) [unfolded image_at_def, rule_format, of "length pre + j"] assms(2) by (simp add: nth_append add.assoc)

lemma create_apps_unpacks:
  assumes "image_at img base (pre @ concat (map packed apps))" and "length (pre @ concat (map packed apps)) < 2 ^ 32"
  shows "\<exists>es. list_all2 holds_app es apps
    \<and> (\<forall>api t inode junk i path (st :: ('l, 'f) fs_state). create_apps api t img base inode junk (length apps) i (of_nat (length pre)) path st
      = store_apps api t inode junk es i path st)"
  using assms
proof (induction apps arbitrary: pre)
  case Nil
  then show ?case by (intro exI [of _ "[]"]) simp
next
  case (Cons app apps)
  let ?len = "of_nat (length (pad_app app)) :: u32"
  let ?pre = "pre @ packed app"
  define buf where "buf = (\<lambda>j. img (base + (of_nat (length pre) + 4) + j))"
  have u: "unat ?len = length (pad_app app)" using Cons.prems(2) by (intro unat_of_nat_u32) (simp add: packed_def)
  have len: "load32 img (base + of_nat (length pre)) = ?len"
    using image_at_word [of img base pre ?len "pad_app app @ concat (map packed apps)"] Cons.prems(1)
    by (simp add: packed_def [of app])
  have "buf (of_nat j) = pad_app app ! j" if "j < length (pad_app app)" for j
    using image_at_bytes [of img base "pre @ put32 ?len" "pad_app app" "concat (map packed apps)" j] Cons.prems(1) that
    by (simp add: packed_def [of app] buf_def ac_simps)
  then have h: "holds_app (buf, ?len) app" using u by (simp add: holds_app_def)
  have off: "of_nat (length pre) + 4 + ?len = (of_nat (length ?pre) :: u32)" by (simp add: packed_def)
  obtain es where es: "list_all2 holds_app es apps"
    and eq: "\<And>api t inode junk i path (st :: ('l, 'f) fs_state). create_apps api t img base inode junk (length apps) i (of_nat (length ?pre)) path st
      = store_apps api t inode junk es i path st"
    using Cons.IH [of ?pre] Cons.prems by auto
  have "create_apps api t img base inode junk (length (app # apps)) i (of_nat (length pre)) path st
      = store_apps api t inode junk ((buf, ?len) # es) i path st" for api t inode junk i path and st :: "('l, 'f) fs_state"
    unfolding buf_def by (simp only: list.size add_Suc_right add_0_right create_apps.simps store_apps.simps Let_def len off eq)
  then show ?case using h es by (intro exI [of _ "(buf, ?len) # es"]) simp
qed

text \<open>The image that \<open>mkfs\<close> makes, unpacked.\<close>

lemma mkfs_unpacks:
  assumes "apps \<noteq> []" and "length (put32 (of_nat (length apps)) @ concat (map packed apps)) < 2 ^ 32"
  shows "\<exists>out. mkfs (map Some apps) = (0, Some out) \<and> (image_at img base out \<longrightarrow>
    (\<exists>es. list_all2 holds_app es apps \<and> (\<forall>api t sb sb2 inode junk path (st :: ('l, 'f) fs_state).
      create_ramdisk_fs api t sb sb2 img base inode junk path st
      = store_apps api t inode junk es 0 path (snd (fs_mount api t sb sb2 st)))))"
proof -
  let ?out = "put32 (of_nat (length apps)) @ concat (map packed apps)"
  have "mkfs (map Some apps) = (0, Some ?out)" using assms(1) by (simp add: mkfs_def mkfs_apps_all)
  moreover have "\<exists>es. list_all2 holds_app es apps \<and> (\<forall>api t sb sb2 inode junk path (st :: ('l, 'f) fs_state).
      create_ramdisk_fs api t sb sb2 img base inode junk path st
      = store_apps api t inode junk es 0 path (snd (fs_mount api t sb sb2 st)))" if im: "image_at img base ?out"
  proof -
    have "length apps \<le> length (concat (map packed apps))" by (induction apps) (simp_all add: packed_def)
    then have "unat (of_nat (length apps) :: u32) = length apps" using assms(2) by (intro unat_of_nat_u32) simp
    then have "unat (load32 img base) = length apps"
      using image_at_word [of img base "[]" "of_nat (length apps)" "concat (map packed apps)"] im by simp
    moreover obtain es where es: "list_all2 holds_app es apps"
      and eq: "\<And>api t inode junk i path (st :: ('l, 'f) fs_state). create_apps api t img base inode junk (length apps) i 4 path st
        = store_apps api t inode junk es i path st"
      using create_apps_unpacks [OF im assms(2)] by auto
    ultimately have "create_ramdisk_fs api t sb sb2 img base inode junk path st
      = store_apps api t inode junk es 0 path (snd (fs_mount api t sb sb2 st))" for api t sb sb2 inode junk path and st :: "('l, 'f) fs_state"
      by (simp add: create_ramdisk_fs_def split: prod.splits)
    then show ?thesis using es by blast
  qed
  ultimately show ?thesis by blast
qed
text \<open>C15. What the host tool packs, the kernel unpacks: \<open>mkfs\<close> makes an image of the applications, and on that image in
  memory \<open>create_ramdisk_fs\<close> mounts the file system and then does exactly what storing the applications one after
  the other does, each from a buffer that holds its bytes (cut at 1 MiB and padded to a multiple of four)
  and with its padded length.\<close>

theorem mkfs_image_unpacks:
  assumes "apps \<noteq> []" and "length (put32 (of_nat (length apps)) @ concat (map packed apps)) < 2 ^ 32"
  shows "\<exists>out. mkfs (map Some apps) = (0, Some out) \<and> (image_at img base out \<longrightarrow>
    (\<exists>es. list_all2 holds_app es apps \<and> (\<forall>api t sb sb2 inode junk path (st :: ('l, 'f) fs_state).
      create_ramdisk_fs api t sb sb2 img base inode junk path st
      = store_apps api t inode junk es 0 path (snd (fs_mount api t sb sb2 st)))))"
  by (rule mkfs_unpacks [OF assms])

definition two_apps :: "u8 list list" where "two_apps = [[1, 2, 3, 4, 5], [6]]"

theorem mkfs_image_unpacks_witness:
  "\<exists>out. mkfs (map Some two_apps) = (0, Some out) \<and> length out = 24
    \<and> (\<exists>es. list_all2 holds_app es two_apps \<and> (\<forall>api t sb sb2 inode junk path (st :: (unit, unit) fs_state).
      create_ramdisk_fs api t sb sb2 (\<lambda>a. out ! unat a) 0 inode junk path st
      = store_apps api t inode junk es 0 path (snd (fs_mount api t sb sb2 st))))"
proof -
  let ?out = "put32 2 @ concat (map packed two_apps)"
  have n: "length ?out = 24" "length two_apps = 2" by (simp_all add: two_apps_def packed_def pad_app_def Let_def)
  have "mkfs (map Some two_apps) = (0, Some ?out)" by (simp add: mkfs_def mkfs_apps_all two_apps_def packed_def)
  moreover have "image_at (\<lambda>a. ?out ! unat a) 0 ?out"
    unfolding image_at_def n by (simp add: unat_of_nat_u32)
  ultimately show ?thesis
    using mkfs_image_unpacks [of two_apps "\<lambda>a. ?out ! unat a" 0] n by (auto simp: two_apps_def)
qed

end
