(* ===== verification/RbQueue.thy ===== *)
theory RbQueue
  imports RbIter "HOL-Library.Monad_Syntax" "HOL-Library.Multiset"
begin

text \<open>
  The queue both the run queue (src/kernel/core/runq.c) and the timer tree
  (src/kernel/core/ktimer.c) are built on: a red-black tree with a cached pointer to its leftmost
  node. \<open>cq_search\<close> is the descent to the insertion point, with the comparison of each client as a
  parameter; \<open>cq_insert\<close> and \<open>cq_remove\<close> follow \<open>enqueue_se\<close>/\<open>insert_timer\<close> and
  \<open>dequeue_se\<close>/\<open>del_timer\<close>. The locale \<open>ordered_queue\<close> is the contract the scheduler relies on.
\<close>

section \<open>The pointer code\<close>

text \<open>\<open>while (*link) { parent = *link; ... }\<close>: the link, the parent and the leftmost flag.\<close>

partial_function (option) cq_search ::
  "(u32 \<Rightarrow> bool) \<Rightarrow> rb_link \<Rightarrow> u32 \<Rightarrow> bool \<Rightarrow> rbs \<Rightarrow> (rb_link \<times> u32 \<times> bool) option" where
  "cq_search goleft link parent leftmost s =
     (if load_link link s \<noteq> 0 then
        (let parent' = load_link link s
         in if goleft parent' then cq_search goleft (LinkLeft parent') parent' leftmost s
            else cq_search goleft (LinkRight parent') parent' False s)
      else Some (link, parent, leftmost))"

definition cq_insert :: "(u32 \<Rightarrow> bool) \<Rightarrow> u32 \<Rightarrow> rbs \<Rightarrow> u32 \<Rightarrow> (rbs \<times> u32) option" where
  "cq_insert goleft node s rb_lm =
     do {
       (link, parent, leftmost) \<leftarrow> cq_search goleft LinkRoot 0 True s;
       let rb_lm' = (if leftmost then node else rb_lm);
       s' \<leftarrow> rb_insert_color node (rb_link_node node parent link s);
       Some (s', rb_lm')
     }"

definition cq_remove :: "u32 \<Rightarrow> rbs \<Rightarrow> u32 \<Rightarrow> (rbs \<times> u32) option" where
  "cq_remove node s rb_lm =
     do {
       rb_lm' \<leftarrow> (if rb_lm = node then rb_next node s else Some rb_lm);
       s' \<leftarrow> rb_erase node s;
       Some (s', rb_lm')
     }"

section \<open>What the tree and the cache hold\<close>

definition cq_holds :: "rbs \<Rightarrow> u32 \<Rightarrow> u32 list \<Rightarrow> bool" where
  "cq_holds s rb_lm xs \<longleftrightarrow> (\<exists>t. rb_tree s t \<and> rbt t \<and> addrs t = xs \<and> rb_lm = hd0 xs)"

lemma cq_holds_nodes: "cq_holds s lm xs \<Longrightarrow> distinct xs \<and> (\<forall>x \<in> set xs. node_addr x)"
  by (auto simp: cq_holds_def rb_tree_def addrs_ok_def)

lemma cq_holds_empty: "root s = 0 \<Longrightarrow> lm = 0 \<Longrightarrow> cq_holds s lm []"
  unfolding cq_holds_def by (rule exI [of _ Lf]) (simp add: rb_tree_def)

lemma cq_holds_cong:
  assumes "cq_holds s lm xs" and "root s' = root s" and "\<And>a. a \<in> set xs \<Longrightarrow> nodes s' a = nodes s a"
  shows "cq_holds s' lm xs"
proof -
  obtain t where t: "rb_tree s t" "rbt t" "addrs t = xs" "lm = hd0 xs"
    using assms(1) by (auto simp: cq_holds_def)
  have "htree (nodes s') 0 t = htree (nodes s) 0 t" using assms(3) t(3) by (intro htree_cong) auto
  then have "rb_tree s' t" using t(1) assms(2) by (simp add: rb_tree_def)
  then show ?thesis using t by (auto simp: cq_holds_def)
qed

text \<open>
  The search ends at a leaf position; the flag says whether nothing lies before it. When the
  comparison is monotone along the tree, it separates what lies before from what lies after.
\<close>

definition monotone_in :: "(u32 \<Rightarrow> bool) \<Rightarrow> u32 list \<Rightarrow> bool" where
  "monotone_in g xs \<longleftrightarrow> sorted_wrt (\<lambda>u v. g u \<longrightarrow> g v) xs"

definition separates :: "(u32 \<Rightarrow> bool) \<Rightarrow> rframe list \<Rightarrow> bool" where
  "separates g cs \<longleftrightarrow> (\<forall>a \<in> set (before cs). \<not> g a) \<and> (\<forall>a \<in> set (after cs). g a)"

lemma separates_step:
  assumes "monotone_in g (addrs (plug (Nd l a c r) cs))" and "separates g cs"
  shows "g a \<Longrightarrow> separates g (FL a c r # cs)" and "\<not> g a \<Longrightarrow> separates g (FR l a c # cs)"
proof -
  have m: "sorted_wrt (\<lambda>u v. g u \<longrightarrow> g v) ((before cs @ addrs l) @ a # (addrs r @ after cs))"
    using assms(1) by (simp only: monotone_in_def addrs_plug addrs.simps append.assoc append_Cons)
  have l: "g x \<longrightarrow> g a" if "x \<in> set (addrs l)" for x
  proof -
    have "x \<in> set (before cs @ addrs l)" "a \<in> set (a # (addrs r @ after cs))" using that by simp_all
    then show ?thesis using m unfolding sorted_wrt_append by metis
  qed
  have r: "g a \<longrightarrow> g x" if "x \<in> set (addrs r)" for x
  proof -
    have "x \<in> set (addrs r @ after cs)" using that by simp
    then show ?thesis using m unfolding sorted_wrt_append sorted_wrt.simps(2) by metis
  qed
  show "separates g (FL a c r # cs)" if "g a"
    using assms(2) that r unfolding separates_def by auto
  show "separates g (FR l a c # cs)" if "\<not> g a"
    using assms(2) that l unfolding separates_def by auto
qed

lemma cq_search_finds:
  assumes "rb_at s t cs" and "lm \<longleftrightarrow> before cs = []"
  shows "\<exists>cs'. cq_search g (link_of cs) (up cs) lm s = Some (link_of cs', up cs', before cs' = [])
    \<and> plug Lf cs' = plug t cs
    \<and> (monotone_in g (addrs (plug t cs)) \<longrightarrow> separates g cs \<longrightarrow> separates g cs')"
  using assms
proof (induction t arbitrary: cs lm)
  case Lf
  then show ?case
    by (subst cq_search.simps) (auto simp: load_link_of [OF Lf.prems(1)])
next
  case (Nd l a c r)
  have ll: "load_link (link_of cs) s = a" using load_link_of [OF Nd.prems(1)] by simp
  have a0: "a \<noteq> 0" using rb_at_ok [OF Nd.prems(1)] by (simp add: addrs_ok_simps)
  have atl: "rb_at s l (FL a c r # cs)" and atr: "rb_at s r (FR l a c # cs)"
    using Nd.prems(1) by (simp_all add: rb_at_step)
  have step: "cq_search g (link_of cs) (up cs) lm s
      = (if g a then cq_search g (LinkLeft a) a lm s else cq_search g (LinkRight a) a False s)"
    using ll a0 by (subst cq_search.simps) (simp add: Let_def)
  show ?case
  proof (cases "g a")
    case True
    have "lm \<longleftrightarrow> before (FL a c r # cs) = []" using Nd.prems(2) by simp
    from Nd.IH(1) [OF atl this] show ?thesis
      using step True separates_step(1) [of g l a c r cs] by auto
  next
    case False
    have "False \<longleftrightarrow> before (FR l a c # cs) = []" by simp
    from Nd.IH(2) [OF atr this] show ?thesis
      using step False separates_step(2) [of g l a c r cs] by auto
  qed
qed

lemma cq_insert_holds:
  assumes q: "cq_holds s lm xs" and x: "node_addr x" "x \<notin> set xs"
  shows "\<exists>s' lm' ys zs. cq_insert g x s lm = Some (s', lm') \<and> xs = ys @ zs
    \<and> cq_holds s' lm' (ys @ x # zs) \<and> same_off (insert x (set xs)) s s'
    \<and> (monotone_in g xs \<longrightarrow> (\<forall>a \<in> set ys. \<not> g a) \<and> (\<forall>a \<in> set zs. g a))"
proof -
  obtain t where t: "rb_tree s t" "rbt t" "addrs t = xs" "lm = hd0 xs"
    using q by (auto simp: cq_holds_def)
  have at: "rb_at s t []" using t(1) by (simp add: rb_at_Nil)
  obtain cs where cs: "cq_search g LinkRoot 0 True s = Some (link_of cs, up cs, before cs = [])"
    "plug Lf cs = t"
    "monotone_in g xs \<longrightarrow> (\<forall>a \<in> set (before cs). \<not> g a) \<and> (\<forall>a \<in> set (after cs). g a)"
    using cq_search_finds [OF at, of True g] t(3) by (auto simp: separates_def)
  have xs: "xs = before cs @ after cs" using cs(2) t(3) addrs_plug [of Lf cs] by simp
  have atL: "rb_at s Lf cs" "rbt (plug Lf cs)" using t cs(2) by (simp_all add: rb_at_plug)
  obtain s' t' where s': "rb_insert_color x (rb_link_node x (up cs) (link_of cs) s) = Some s'"
    "rb_tree s' t'" "rbt t'" "addrs t' = before cs @ x # after cs" "same_off (set (addrs t')) s s'"
    using rb_insert_at [OF atL x(1)] x(2) xs by auto
  let ?lm' = "if before cs = [] then x else lm"
  have "cq_insert g x s lm = Some (s', ?lm')"
    by (simp add: cq_insert_def cs(1) s'(1) Let_def)
  moreover have "cq_holds s' ?lm' (before cs @ x # after cs)"
    using s' t(4) xs by (auto simp: cq_holds_def)
  moreover have "same_off (insert x (set xs)) s s'" using s'(4,5) xs by simp
  ultimately show ?thesis using xs cs(3) by blast
qed

lemma cq_remove_holds:
  assumes q: "cq_holds s lm xs" and x: "x \<in> set xs"
  shows "\<exists>s' lm'. cq_remove x s lm = Some (s', lm') \<and> cq_holds s' lm' (remove1 x xs)
    \<and> same_off (set xs) s s'"
proof -
  obtain t where t: "rb_tree s t" "rbt t" "addrs t = xs" "lm = hd0 xs"
    using q by (auto simp: cq_holds_def)
  obtain s' t' where s': "rb_erase x s = Some s'" "rb_tree s' t'" "rbt t'"
    "addrs t' = remove1 x xs" "same_off (set xs) s s'"
    using rb_erase_tree [OF t(1,2), of x] x unfolding t(3) by blast
  obtain y ys where xs: "xs = y # ys" using x by (cases xs) auto
  show ?thesis
  proof (cases "x = y")
    case True
    have "rb_next x s = Some (hd0 ys)"
      using rb_next_in_order [OF t(1), of "[]" x ys] t(3) xs True by simp
    then have "cq_remove x s lm = Some (s', hd0 ys)"
      using t(4) xs True s'(1) by (simp add: cq_remove_def)
    moreover have "cq_holds s' (hd0 ys) (remove1 x xs)"
      using s' xs True by (auto simp: cq_holds_def)
    ultimately show ?thesis using s'(5) by blast
  next
    case False
    then have "cq_remove x s lm = Some (s', lm)"
      using t(4) xs s'(1) by (simp add: cq_remove_def)
    moreover have "cq_holds s' lm (remove1 x xs)"
      using s' xs t(4) False by (auto simp: cq_holds_def)
    ultimately show ?thesis using s'(5) by blast
  qed
qed

section \<open>The contract of an ordered queue\<close>

locale ordered_queue =
  fixes enq :: "u32 \<Rightarrow> 's \<Rightarrow> 's option" and deq :: "u32 \<Rightarrow> 's \<Rightarrow> 's option"
    and holds :: "'s \<Rightarrow> u32 list \<Rightarrow> bool" and front :: "'s \<Rightarrow> u32"
    and key :: "'s \<Rightarrow> u32 \<Rightarrow> nat"
  assumes holds_distinct: "holds s xs \<Longrightarrow> distinct xs"
    and front_hd: "holds s xs \<Longrightarrow> front s = hd0 xs"
    and enq_holds: "holds s xs \<Longrightarrow> node_addr x \<Longrightarrow> x \<notin> set xs \<Longrightarrow>
      \<exists>s' ys zs. enq x s = Some s' \<and> xs = ys @ zs \<and> holds s' (ys @ x # zs) \<and> key s' = key s
        \<and> (sorted (map (key s) xs) \<longrightarrow> sorted (map (key s) (ys @ x # zs)))"
    and deq_holds: "holds s xs \<Longrightarrow> x \<in> set xs \<Longrightarrow>
      \<exists>s'. deq x s = Some s' \<and> holds s' (remove1 x xs) \<and> key s' = key s"
begin

text \<open>The front of a sorted queue has the least key.\<close>

lemma front_least:
  assumes "holds s xs" and "sorted (map (key s) xs)" and "x \<in> set xs"
  shows "front s \<in> set xs \<and> key s (front s) \<le> key s x"
proof -
  obtain y ys where xs: "xs = y # ys" using assms(3) by (cases xs) auto
  then have "front s = y" using front_hd [OF assms(1)] by simp
  then show ?thesis using assms(2,3) xs by auto
qed

text \<open>Removing an entry, changing its key and queueing it again repairs the order.\<close>

lemma requeue_sorted:
  assumes "holds s xs" and "x \<in> set xs" and "node_addr x"
    and "sorted (map (key s) (remove1 x xs))"
  shows "\<exists>s1 s2 xs'. deq x s = Some s1 \<and> enq x s1 = Some s2 \<and> holds s2 xs'
    \<and> mset xs' = mset xs \<and> key s2 = key s \<and> sorted (map (key s) xs')"
proof -
  obtain s1 where s1: "deq x s = Some s1" "holds s1 (remove1 x xs)" "key s1 = key s"
    using deq_holds [OF assms(1,2)] by blast
  have "x \<notin> set (remove1 x xs)" using holds_distinct [OF assms(1)] by simp
  then obtain s2 ys zs where s2: "enq x s1 = Some s2" "remove1 x xs = ys @ zs"
    "holds s2 (ys @ x # zs)" "key s2 = key s1"
    "sorted (map (key s1) (remove1 x xs)) \<longrightarrow> sorted (map (key s1) (ys @ x # zs))"
    using enq_holds [OF s1(2) assms(3)] by blast
  have "mset (ys @ x # zs) = add_mset x (mset (ys @ zs))" by simp
  also have "\<dots> = add_mset x (mset (remove1 x xs))" by (simp only: s2(2))
  also have "\<dots> = mset xs" using assms(2) by simp
  finally have "mset (ys @ x # zs) = mset xs" .
  then show ?thesis using s1 s2 assms(4) by metis
qed

text \<open>Queueing a batch of entries sorts them.\<close>

primrec enq_all :: "u32 list \<Rightarrow> 's \<Rightarrow> 's option" where
  "enq_all [] s = Some s"
| "enq_all (x # xs) s = Option.bind (enq x s) (enq_all xs)"

lemma enq_all_sorted:
  assumes "holds s ys" and "sorted (map (key s) ys)" and "distinct xs"
    and "\<forall>x \<in> set xs. node_addr x" and "set xs \<inter> set ys = {}"
  shows "\<exists>s' zs. enq_all xs s = Some s' \<and> holds s' zs \<and> mset zs = mset xs + mset ys
    \<and> key s' = key s \<and> sorted (map (key s) zs)"
  using assms
proof (induction xs arbitrary: s ys)
  case (Cons x xs)
  obtain s1 as bs where s1: "enq x s = Some s1" "ys = as @ bs" "holds s1 (as @ x # bs)"
    "key s1 = key s" "sorted (map (key s) (as @ x # bs))"
    using enq_holds [OF Cons.prems(1), of x] Cons.prems by auto
  obtain s' zs where "enq_all xs s1 = Some s'" "holds s' zs" "mset zs = mset xs + mset (as @ x # bs)"
    "key s' = key s1" "sorted (map (key s1) zs)"
    using Cons.IH [OF s1(3)] s1 Cons.prems by auto
  then show ?case using s1 by auto
qed auto

end

end
