(* ===== verification/KState.thy ===== *)
theory KState
  imports Mm RbQueue
begin

unbundle bit_operations_syntax

text \<open>
  The state of the process management of one CPU (src/kernel/inc/sched.h, runq.h, waitq.h, ktimer.h,
  task.h and src/kernel/core/percpu.c). Memory is read by address, one map per kind of object:
  tasks, scheduling entities, list heads, red-black nodes and timers. The objects embedded in a task
  have the addresses the structure layout gives them, so \<open>container_of\<close> is a subtraction; NULL is
  address 0. The per-CPU variables are fields of the record, so a state is the view of one CPU. A
  \<open>None\<close> result means that the code does not return (a lock that is held, a loop that does not end)
  or writes outside an object.
\<close>

section \<open>Objects\<close>

datatype task_state = TASK_RUNNING | TASK_WAITING | TASK_STOP_RUNNING | TASK_STOP

datatype TASKTYPE = CFS_TASK | RT_TASK | ONESHOT_TASK

record list_head =
  lprev :: u32
  lnext :: u32

record sched_entity =
  jiffies_vruntime :: u32
  ticks_consumed :: u64
  jiffies_consumed :: u32
  priority :: u32
  pri_div_shift :: u32

record task_struct =
  ct_sp :: u32
  ct_lr :: u32
  ct_pc :: u32
  ct_fpscr :: u32
  ct_fpexc :: u32
  entry :: u32
  targ :: u32
  tname :: string
  pid :: u32
  yield_task :: u32
  ttype :: TASKTYPE
  missed_cnt :: u32
  tstate :: task_state
  timeinterval :: u32
  done_flag :: u32
  preempted :: u32

record cfs_rq =
  rq_curr :: u32
  rq_next :: u32
  rq_last :: u32
  rq_root :: u32
  rb_leftmost_se :: u32
  priority_sum :: u32
  cfs_task_num :: u32

record wait_queue =
  wq_magic :: u32
  wqlock :: u32
  wq_count :: u32

datatype timer_type = ONESHOT_TIMER | SCHED_TIMER | REALTIME_TIMER

datatype timer_handler = NO_HANDLER | CFS_SCHEDULER

record timer_struct =
  tc :: u32
  intvl :: u32
  handler :: timer_handler
  timer_pt :: u32
  timer_kind :: timer_type
  timer_arg :: u32

record timer_root =
  tr_root :: u32
  tr_leftmost :: u32

record workq =
  wfunc :: u32
  warg :: u32

record worker =
  enq_idx :: int
  deq_idx :: int
  wtask :: u32
  wkq :: "nat \<Rightarrow> workq"

section \<open>The state of a CPU\<close>

record cpu =
  kmm :: mms
  tasks :: "u32 \<Rightarrow> task_struct"
  ses :: "u32 \<Rightarrow> sched_entity"
  lheads :: "u32 \<Rightarrow> list_head"
  rbmem :: "u32 \<Rightarrow> rb_node"
  timers :: "u32 \<Rightarrow> timer_struct"
  idle_task :: u32
  current :: u32
  last_task :: u32
  first_task :: u32
  task_created_num :: u32
  runq :: u32
  rq :: cfs_rq
  rqlock :: u32
  jiffies :: u32
  sched_timer :: u32
  ptroot :: u32
  troot :: timer_root
  wq :: u32
  waitq :: wait_queue
  qworker :: u32
  work :: worker
  oneshot_timer :: u32
  oneshot_timer_idx :: u32
  next_pid :: u32
  ticks_per_sec :: u32
  dt_clkfreq :: u32
  cpuid :: u32
  irq_off :: bool
  csd :: u32
  csd_tick :: u32
  csd_dev :: u32
  show_stat :: u32
  cfs_worker_num :: int
  upt :: "nat \<Rightarrow> u32"
  regs :: "u32 \<Rightarrow> u32"
  switched :: "(u32 \<times> u32) list"

section \<open>Addresses inside a task and a timer\<close>

text \<open>Offsets of \<open>struct task_struct\<close>: the context takes 200 bytes, \<open>se\<close> is at 248, \<open>run_node\<close> 20 bytes
  into \<open>se\<close>, the list heads \<open>task\<close> and \<open>waitlist\<close> at 288 and 300; \<open>run_node\<close> is 20 bytes into a
  timer and \<open>task_list\<close> 8 bytes into a wait queue.\<close>

definition se_of :: "u32 \<Rightarrow> u32" where "se_of p = p + 248"
definition task_of_se :: "u32 \<Rightarrow> u32" where "task_of_se s = s - 248"
definition se_node :: "u32 \<Rightarrow> u32" where "se_node s = s + 20"
definition node_se :: "u32 \<Rightarrow> u32" where "node_se n = n - 20"
definition task_lh :: "u32 \<Rightarrow> u32" where "task_lh p = p + 288"
definition lh_task :: "u32 \<Rightarrow> u32" where "lh_task l = l - 288"
definition waitlist :: "u32 \<Rightarrow> u32" where "waitlist p = p + 300"
definition waitlist_task :: "u32 \<Rightarrow> u32" where "waitlist_task l = l - 300"
definition timer_node :: "u32 \<Rightarrow> u32" where "timer_node t = t + 20"
definition node_timer :: "u32 \<Rightarrow> u32" where "node_timer n = n - 20"
definition wq_list_head :: "u32 \<Rightarrow> u32" where "wq_list_head w = w + 8"

definition SIZEOF_task_struct :: u32 where "SIZEOF_task_struct = 448"
definition SIZEOF_timer_struct :: u32 where "SIZEOF_timer_struct = 36"

lemma offsets [simp]:
  "task_of_se (se_of p) = p" "node_se (se_node s) = s" "lh_task (task_lh p) = p"
  "waitlist_task (waitlist p) = p" "node_timer (timer_node t) = t"
  "se_node (node_se n) = n" "timer_node (node_timer n) = n" "waitlist (waitlist_task l) = l"
  "se_of (task_of_se s) = s"
  "waitlist p = waitlist q \<longleftrightarrow> p = q" "se_node p = se_node q \<longleftrightarrow> p = q" "se_of p = se_of q \<longleftrightarrow> p = q"
  by (simp_all add: task_of_se_def se_of_def node_se_def se_node_def lh_task_def task_lh_def
      waitlist_task_def waitlist_def node_timer_def timer_node_def)

section \<open>Access\<close>

definition upd_task :: "u32 \<Rightarrow> (task_struct \<Rightarrow> task_struct) \<Rightarrow> cpu \<Rightarrow> cpu" where
  "upd_task p f k = k\<lparr>tasks := (tasks k)(p := f (tasks k p))\<rparr>"
definition upd_se :: "u32 \<Rightarrow> (sched_entity \<Rightarrow> sched_entity) \<Rightarrow> cpu \<Rightarrow> cpu" where
  "upd_se p f k = k\<lparr>ses := (ses k)(p := f (ses k p))\<rparr>"
definition upd_timer :: "u32 \<Rightarrow> (timer_struct \<Rightarrow> timer_struct) \<Rightarrow> cpu \<Rightarrow> cpu" where
  "upd_timer p f k = k\<lparr>timers := (timers k)(p := f (timers k p))\<rparr>"
definition set_next :: "u32 \<Rightarrow> u32 \<Rightarrow> cpu \<Rightarrow> cpu" where
  "set_next l v k = k\<lparr>lheads := (lheads k)(l := (lheads k l)\<lparr>lnext := v\<rparr>)\<rparr>"
definition set_prev :: "u32 \<Rightarrow> u32 \<Rightarrow> cpu \<Rightarrow> cpu" where
  "set_prev l v k = k\<lparr>lheads := (lheads k)(l := (lheads k l)\<lparr>lprev := v\<rparr>)\<rparr>"

definition rq_rbs :: "cpu \<Rightarrow> rbs" where
  "rq_rbs k = \<lparr>nodes = rbmem k, root = rq_root (rq k)\<rparr>"
definition put_rq :: "rbs \<Rightarrow> u32 \<Rightarrow> cpu \<Rightarrow> cpu" where
  "put_rq s lm k = k\<lparr>rbmem := nodes s, rq := (rq k)\<lparr>rq_root := root s, rb_leftmost_se := lm\<rparr>\<rparr>"

definition tr_rbs :: "cpu \<Rightarrow> rbs" where
  "tr_rbs k = \<lparr>nodes = rbmem k, root = tr_root (troot k)\<rparr>"
definition put_tr :: "rbs \<Rightarrow> u32 \<Rightarrow> cpu \<Rightarrow> cpu" where
  "put_tr s lm k = k\<lparr>rbmem := nodes s, troot := \<lparr>tr_root = root s, tr_leftmost = lm\<rparr>\<rparr>"

definition kalloc :: "u32 \<Rightarrow> cpu \<Rightarrow> (u32 \<times> cpu) option" where
  "kalloc sz k = do { (a, m) \<leftarrow> kmalloc sz (kmm k); Some (a, k\<lparr>kmm := m\<rparr>) }"

section \<open>Spin locks\<close>

text \<open>\<open>spin_lock_acquire\<close> (arch/ca-9/ops.S) spins while the word is LOCKED. The locks of this part are
  per CPU: a lock found held belongs to the code this CPU interrupted, and the loop does not end.\<close>

definition LOCKED :: u32 where "LOCKED = 1"
definition UNLOCKED :: u32 where "UNLOCKED = 0"

definition rq_lock :: "cpu \<Rightarrow> cpu option" where
  "rq_lock k = (if rqlock k = LOCKED then None else Some (k\<lparr>rqlock := LOCKED\<rparr>))"
definition rq_unlock :: "cpu \<Rightarrow> cpu" where "rq_unlock k = k\<lparr>rqlock := UNLOCKED\<rparr>"
definition wq_lock :: "cpu \<Rightarrow> cpu option" where
  "wq_lock k = (if wqlock (waitq k) = LOCKED then None
    else Some (k\<lparr>waitq := (waitq k)\<lparr>wqlock := LOCKED\<rparr>\<rparr>))"
definition wq_unlock :: "cpu \<Rightarrow> cpu" where
  "wq_unlock k = k\<lparr>waitq := (waitq k)\<lparr>wqlock := UNLOCKED\<rparr>\<rparr>"

lemmas access_defs = upd_task_def upd_se_def upd_timer_def set_next_def set_prev_def rq_rbs_def
  put_rq_def tr_rbs_def put_tr_def rq_unlock_def wq_unlock_def

end
