(* ===== verification/WaitQ.thy ===== *)
theory WaitQ
  imports KState
begin

unbundle bit_operations_syntax

text \<open>
  The wait queue (src/kernel/core/waitq.c): a list of tasks through the \<open>waitlist\<close> heads embedded in
  them, with the head of the list inside the queue. \<open>wq_holds\<close> relates the memory to the list of
  waiting tasks. The blocking functions at the end of the file are stubs that return 0.
\<close>

section \<open>Operations\<close>

definition SIZEOF_wait_queue :: u32 where "SIZEOF_wait_queue = 20"

definition init_wq :: "cpu \<Rightarrow> cpu option" where
  "init_wq k =
     do {
       (a, k1) \<leftarrow> kalloc SIZEOF_wait_queue k;
       let k2 = k1\<lparr>wq := a, waitq := (waitq k1)\<lparr>wqlock := 0, wq_magic := 1\<rparr>\<rparr>;
       let k3 = set_prev (wq_list_head a) 0 (set_next (wq_list_head a) 0 k2);
       Some (k3\<lparr>waitq := (waitq k3)\<lparr>wq_count := 0\<rparr>\<rparr>)
     }"

partial_function (option) wake_all_loop :: "u32 \<Rightarrow> cpu \<Rightarrow> cpu option" where
  "wake_all_loop cur k =
     (if cur \<noteq> 0 then
        wake_all_loop (lnext (lheads k cur)) (set_prev cur 0 (set_next cur 0 k))
      else Some k)"

definition wake_all_wq :: "cpu \<Rightarrow> cpu option" where
  "wake_all_wq k =
     (if wq k = 0 then Some k
      else do {
        k1 \<leftarrow> wake_all_loop (lnext (lheads k (wq_list_head (wq k)))) k;
        Some (k1\<lparr>waitq := (waitq k1)\<lparr>wq_count := 0\<rparr>\<rparr>)
      })"

definition destroy_wq :: "cpu \<Rightarrow> cpu option" where
  "destroy_wq k =
     (if wq k = 0 then Some k
      else do {
        k1 \<leftarrow> wake_all_wq k;
        Some (k1\<lparr>waitq := (waitq k1)\<lparr>wq_magic := 0\<rparr>\<rparr>)
      })"

definition add_to_wq :: "u32 \<Rightarrow> cpu \<Rightarrow> cpu option" where
  "add_to_wq p k =
     (if wq k = 0 then Some k
      else do {
        let h = wq_list_head (wq k);
        let temp_p = lnext (lheads k h);
        k1 \<leftarrow> wq_lock k;
        let k2 = set_next h (waitlist p) k1;
        let k3 = set_prev (waitlist p) h k2;
        let k4 = set_next (waitlist p) temp_p k3;
        let k5 = k4\<lparr>waitq := (waitq k4)\<lparr>wq_count := wq_count (waitq k4) + 1\<rparr>\<rparr>;
        Some (wq_unlock k5)
      })"

text \<open>The list heads after unlinking the entry \<open>w\<close>, in the order of the stores.\<close>

definition unlink_wait :: "u32 \<Rightarrow> cpu \<Rightarrow> cpu" where
  "unlink_wait w k =
     (let k1 = set_next (lprev (lheads k w)) (lnext (lheads k w)) k;
          nx = lnext (lheads k1 w);
          k2 = (if nx \<noteq> 0 then set_prev nx (lprev (lheads k1 w)) k1 else k1);
          k3 = set_prev w 0 k2;
          k4 = set_next w 0 k3
      in k4\<lparr>waitq := (waitq k4)\<lparr>wq_count := wq_count (waitq k4) - 1\<rparr>\<rparr>)"

partial_function (option) remove_wq_loop :: "u32 \<Rightarrow> u32 \<Rightarrow> cpu \<Rightarrow> cpu option" where
  "remove_wq_loop p cur k =
     (if cur = 0 then Some k
      else if waitlist_task cur = p then Some (unlink_wait cur k)
      else remove_wq_loop p (lnext (lheads k cur)) k)"

definition remove_from_wq :: "u32 \<Rightarrow> cpu \<Rightarrow> cpu option" where
  "remove_from_wq p k =
     (if wq k = 0 then Some k
      else do {
        k1 \<leftarrow> wq_lock k;
        k2 \<leftarrow> remove_wq_loop p (lnext (lheads k1 (wq_list_head (wq k1)))) k1;
        Some (wq_unlock k2)
      })"

definition wait_queue_block :: "u32 \<Rightarrow> int" where "wait_queue_block timeout = 0"
definition wait_queue_wake_one :: "bool \<Rightarrow> int" where "wait_queue_wake_one resched = 0"
definition wait_queue_wake_all :: "bool \<Rightarrow> int" where "wait_queue_wake_all resched = 0"

section \<open>The list of waiting tasks\<close>

text \<open>\<open>wchain m h l ts\<close>: from the link \<open>l\<close> the tasks \<open>ts\<close> follow through their wait list heads; every
  entry has the head \<open>h\<close> as its predecessor, which is what \<open>add_to_wq\<close> leaves behind.\<close>

primrec wchain :: "(u32 \<Rightarrow> list_head) \<Rightarrow> u32 \<Rightarrow> u32 \<Rightarrow> u32 list \<Rightarrow> bool" where
  "wchain m h l [] \<longleftrightarrow> l = 0"
| "wchain m h l (t # ts) \<longleftrightarrow>
     l = waitlist t \<and> l \<noteq> 0 \<and> lprev (m l) = h \<and> wchain m h (lnext (m l)) ts"

definition wq_holds :: "cpu \<Rightarrow> u32 list \<Rightarrow> bool" where
  "wq_holds k ts \<longleftrightarrow>
     (let h = wq_list_head (wq k) in
        wq k \<noteq> 0 \<and> h \<noteq> 0 \<and> wqlock (waitq k) = UNLOCKED \<and> distinct ts \<and> h \<notin> waitlist ` set ts
      \<and> wchain (lheads k) h (lnext (lheads k h)) ts)"

lemma wchain_cong:
  "(\<And>t. t \<in> set ts \<Longrightarrow> m' (waitlist t) = m (waitlist t)) \<Longrightarrow> wchain m' h l ts = wchain m h l ts"
  by (induction ts arbitrary: l) auto

lemma lh_set: "(l :: list_head)\<lparr>lnext := a, lprev := b\<rparr> = \<lparr>lprev = b, lnext = a\<rparr>"
  "(l :: list_head)\<lparr>lprev := b, lnext := a\<rparr> = \<lparr>lprev = b, lnext = a\<rparr>"
  "lprev l = b \<Longrightarrow> l\<lparr>lprev := b\<rparr> = l"
  by (cases l; simp)+

lemma wake_all_chain:
  assumes "wchain (lheads k) h l ts" and "distinct ts"
  shows "\<exists>m. wake_all_loop l k = Some (k\<lparr>lheads := m\<rparr>)
    \<and> (\<forall>t \<in> set ts. m (waitlist t) = \<lparr>lprev = 0, lnext = 0\<rparr>)
    \<and> (\<forall>a. a \<notin> waitlist ` set ts \<longrightarrow> m a = lheads k a)"
  using assms
proof (induction ts arbitrary: l k)
  case Nil
  then show ?case by (intro exI [of _ "lheads k"]) (simp add: wake_all_loop.simps)
next
  case (Cons t ts)
  let ?k = "set_prev l 0 (set_next l 0 k)"
  have l: "l = waitlist t" "l \<noteq> 0" "wchain (lheads k) h (lnext (lheads k l)) ts"
    using Cons.prems(1) by auto
  have "wchain (lheads ?k) h (lnext (lheads k l)) ts"
    using l(3) Cons.prems(2) l(1)
    by (subst wchain_cong [of _ _ "lheads k"]) (auto simp: set_prev_def set_next_def)
  from Cons.IH [OF this] obtain m where m: "wake_all_loop (lnext (lheads k l)) ?k = Some (?k\<lparr>lheads := m\<rparr>)"
    "\<forall>t \<in> set ts. m (waitlist t) = \<lparr>lprev = 0, lnext = 0\<rparr>"
    "\<forall>a. a \<notin> waitlist ` set ts \<longrightarrow> m a = lheads ?k a" using Cons.prems(2) by auto
  have "wake_all_loop l k = Some (k\<lparr>lheads := m\<rparr>)"
    using m(1) l(2) by (subst wake_all_loop.simps) (simp add: set_prev_def set_next_def)
  moreover have "m l = \<lparr>lprev = 0, lnext = 0\<rparr>"
  proof -
    have "l \<notin> waitlist ` set ts" using l(1) Cons.prems(2) by auto
    then show ?thesis using m(3) l(1) by (simp add: set_prev_def set_next_def lh_set)
  qed
  moreover have "m a = lheads k a" if "a \<notin> waitlist ` set (t # ts)" for a
    using m(3) that l(1) by (auto simp: set_prev_def set_next_def)
  ultimately show ?case using m(2) l(1) by auto
qed

text \<open>The search finds the task, and unlinking it drops everything in front of it.\<close>

lemma remove_chain:
  assumes "wchain (lheads k) h l (ts @ p # us)" and "p \<notin> set ts"
  shows "remove_wq_loop p l k = Some (unlink_wait (waitlist p) k)"
    and "lprev (lheads k (waitlist p)) = h" and "wchain (lheads k) h (lnext (lheads k (waitlist p))) us"
    and "waitlist p \<noteq> 0"
  using assms
proof (induction ts arbitrary: l)
  case Nil
  { case 1 then show ?case by (subst remove_wq_loop.simps) auto }
  { case 2 then show ?case by auto }
  { case 3 then show ?case by auto }
  { case 4 then show ?case by auto }
next
  case (Cons t ts)
  { case 1 then show ?case using Cons.IH(1) by (subst remove_wq_loop.simps) auto }
  { case 2 then show ?case using Cons.IH(2) by auto }
  { case 3 then show ?case using Cons.IH(3) by auto }
  { case 4 then show ?case using Cons.IH(4) by auto }
qed

lemma remove_absent:
  assumes "wchain (lheads k) h l ts" and "p \<notin> set ts"
  shows "remove_wq_loop p l k = Some k"
  using assms by (induction ts arbitrary: l) (auto simp: remove_wq_loop.simps)

section \<open>Properties\<close>

lemma add_to_wq_holds:
  assumes "wq_holds k ts" and "p \<notin> set ts" and "waitlist p \<noteq> 0" and "waitlist p \<noteq> wq_list_head (wq k)"
  shows "\<exists>k'. add_to_wq p k = Some k' \<and> wq_holds k' (p # ts)
    \<and> wq_count (waitq k') = wq_count (waitq k) + 1
    \<and> k' = k\<lparr>lheads := lheads k', waitq := waitq k'\<rparr>"
proof -
  let ?h = "wq_list_head (wq k)"
  have H: "wq k \<noteq> 0" "wqlock (waitq k) \<noteq> LOCKED" "distinct ts" "?h \<notin> waitlist ` set ts"
    "wchain (lheads k) ?h (lnext (lheads k ?h)) ts"
    using assms(1) by (simp_all add: wq_holds_def Let_def LOCKED_def UNLOCKED_def)
  let ?m = "(lheads k)(?h := (lheads k ?h)\<lparr>lnext := waitlist p\<rparr>,
      waitlist p := \<lparr>lprev = ?h, lnext = lnext (lheads k ?h)\<rparr>)"
  have ch: "wchain ?m ?h (lnext (lheads k ?h)) ts"
  proof -
    have "waitlist t \<noteq> ?h \<and> t \<noteq> p" if "t \<in> set ts" for t
      using that H(4) assms(2) by (metis imageI)
    then show ?thesis using H(5) by (subst wchain_cong [of _ _ "lheads k"]) simp_all
  qed
  have e: "add_to_wq p k = Some (k\<lparr>lheads := ?m,
      waitq := (waitq k)\<lparr>wq_count := wq_count (waitq k) + 1, wqlock := UNLOCKED\<rparr>\<rparr>)"
    using H(1,2) assms(4) by (simp add: add_to_wq_def wq_lock_def access_defs Let_def fun_upd_twist lh_set)
  show ?thesis
    unfolding e using H assms ch by (auto simp: wq_holds_def Let_def)
qed

lemma remove_from_wq_holds:
  assumes "wq_holds k (ts @ p # us)"
  shows "\<exists>k'. remove_from_wq p k = Some k' \<and> wq_holds k' us
    \<and> wq_count (waitq k') = wq_count (waitq k) - 1
    \<and> lheads k' (waitlist p) = \<lparr>lprev = 0, lnext = 0\<rparr>
    \<and> k' = k\<lparr>lheads := lheads k', waitq := waitq k'\<rparr>"
proof -
  let ?h = "wq_list_head (wq k)" and ?w = "waitlist p"
  let ?k = "k\<lparr>waitq := (waitq k)\<lparr>wqlock := LOCKED\<rparr>\<rparr>"
  have H: "wq k \<noteq> 0" "wqlock (waitq k) \<noteq> LOCKED" "distinct (ts @ p # us)"
    "?h \<notin> waitlist ` set (ts @ p # us)"
    "wchain (lheads ?k) ?h (lnext (lheads ?k ?h)) (ts @ p # us)" "?h \<noteq> 0"
    using assms(1) by (simp_all add: wq_holds_def Let_def LOCKED_def UNLOCKED_def)
  have "p \<notin> set ts" using H(3) by auto
  note R = remove_chain [OF H(5) this]
  let ?nx = "lnext (lheads k ?w)"
  have w: "?w \<noteq> ?h" "?nx \<noteq> ?w" "?nx \<noteq> ?h" "?nx \<noteq> 0 \<Longrightarrow> lprev (lheads k ?nx) = ?h"
    using R(3,4) H(3,4,6) by (cases us; force)+
  define m where "m = (lheads k)(?h := (lheads k ?h)\<lparr>lnext := ?nx\<rparr>, ?w := \<lparr>lprev = 0, lnext = 0\<rparr>)"
  have "unlink_wait ?w ?k = ?k\<lparr>lheads := m,
      waitq := (waitq k)\<lparr>wqlock := LOCKED, wq_count := wq_count (waitq k) - 1\<rparr>\<rparr>"
    using w R(2) by (simp add: unlink_wait_def set_next_def set_prev_def Let_def lh_set fun_upd_twist m_def)
  then have e: "remove_from_wq p k = Some (k\<lparr>lheads := m,
      waitq := (waitq k)\<lparr>wq_count := wq_count (waitq k) - 1, wqlock := UNLOCKED\<rparr>\<rparr>)"
    using H(1,2) R(1) by (simp add: remove_from_wq_def wq_lock_def wq_unlock_def)
  have "waitlist t \<noteq> ?h \<and> t \<noteq> p" if "t \<in> set us" for t
  proof -
    have "waitlist t \<in> waitlist ` set (ts @ p # us)" by (rule imageI) (simp add: that)
    then have "waitlist t \<noteq> ?h" using H(4) by metis
    then show ?thesis using that H(3) by auto
  qed
  then have "wchain m ?h ?nx us"
    using R(3) by (subst wchain_cong [of _ _ "lheads k"]) (simp_all add: m_def)
  then show ?thesis
    unfolding e using H w by (auto simp: wq_holds_def Let_def m_def)
qed

lemma remove_from_wq_absent:
  assumes "wq_holds k ts" and "p \<notin> set ts"
  shows "remove_from_wq p k = Some k"
proof -
  have "remove_wq_loop p (lnext (lheads k (wq_list_head (wq k))))
      (k\<lparr>waitq := (waitq k)\<lparr>wqlock := LOCKED\<rparr>\<rparr>)
      = Some (k\<lparr>waitq := (waitq k)\<lparr>wqlock := LOCKED\<rparr>\<rparr>)"
    using assms by (intro remove_absent [where h = "wq_list_head (wq k)"])
      (simp_all add: wq_holds_def Let_def)
  then show ?thesis
    using assms by (simp add: remove_from_wq_def wq_lock_def wq_unlock_def wq_holds_def Let_def
        LOCKED_def UNLOCKED_def)
qed

text \<open>Adding a waiting task puts it in front of the list. Removing a task that waits takes off
  everything up to it as well: because \<open>add_to_wq\<close> leaves the previous first entry's back pointer at the
  head, unlinking re-points the head past all tasks queued after the removed one. The count only drops
  by one. Removing a task that does not wait changes nothing.\<close>

theorem wait_queue_add_remove:
  assumes "wq_holds k (ts @ p # us)" and "q \<notin> set (ts @ p # us)" and "waitlist q \<noteq> 0"
    and "waitlist q \<noteq> wq_list_head (wq k)"
  shows "(\<exists>k'. add_to_wq q k = Some k' \<and> wq_holds k' (q # ts @ p # us)
      \<and> wq_count (waitq k') = wq_count (waitq k) + 1)
    \<and> (\<exists>k'. remove_from_wq p k = Some k' \<and> wq_holds k' us
      \<and> wq_count (waitq k') = wq_count (waitq k) - 1)
    \<and> remove_from_wq q k = Some k"
  using add_to_wq_holds [OF assms] remove_from_wq_holds [OF assms(1)]
    remove_from_wq_absent [OF assms(1,2)] by blast

text \<open>Two waiting tasks, for a concrete instance.\<close>

definition zero_lh :: "u32 \<Rightarrow> list_head" where "zero_lh = (\<lambda>_. \<lparr>lprev = 0, lnext = 0\<rparr>)"

definition two_waiting :: "cpu \<Rightarrow> cpu" where
  "two_waiting k = k\<lparr>wq := 0x100, waitq := \<lparr>wq_magic = 1, wqlock = 0, wq_count = 2\<rparr>,
     lheads := zero_lh(0x108 := \<lparr>lprev = 0, lnext = waitlist 0x1000\<rparr>,
       waitlist 0x1000 := \<lparr>lprev = 0x108, lnext = waitlist 0x2000\<rparr>,
       waitlist 0x2000 := \<lparr>lprev = 0x108, lnext = 0\<rparr>)\<rparr>"

lemma two_waiting_holds: "wq_holds (two_waiting k) ([0x1000] @ 0x2000 # [])"
  by (simp add: two_waiting_def wq_holds_def Let_def wq_list_head_def waitlist_def UNLOCKED_def)

theorem wait_queue_add_remove_witness:
  "\<forall>k. \<exists>k'. remove_from_wq 0x2000 (two_waiting k) = Some k' \<and> wq_holds k' [] \<and> wq_count (waitq k') = 1"
proof
  fix k
  have "wq_count (waitq (two_waiting k)) - 1 = 1" by (simp add: two_waiting_def)
  then show "\<exists>k'. remove_from_wq 0x2000 (two_waiting k) = Some k' \<and> wq_holds k' [] \<and> wq_count (waitq k') = 1"
    using wait_queue_add_remove [OF two_waiting_holds, where q = "0x3000"]
    by (simp add: waitlist_def wq_list_head_def two_waiting_def)
qed

end
