(* ===== verification/RunQ.thy ===== *)
theory RunQ
  imports WaitQ
begin

unbundle bit_operations_syntax

text \<open>
  The run queue (src/kernel/core/runq.c) and the moves between run queue and wait queue at the end of
  waitq.c. The queue is the cached red-black tree of RbQueue with the virtual runtime as the key.
  \<open>sched_inv\<close> is the invariant of both queues; \<open>rq_holds\<close> reads the run queue as the list of its
  nodes in order.
\<close>

section \<open>Operations\<close>

definition rq_goleft :: "cpu \<Rightarrow> u32 \<Rightarrow> u32 \<Rightarrow> bool" where
  "rq_goleft k value n \<longleftrightarrow> value \<le> jiffies_vruntime (ses k (node_se n))"

definition enqueue_se :: "u32 \<Rightarrow> cpu \<Rightarrow> cpu option" where
  "enqueue_se se k =
     do {
       (s, lm) \<leftarrow> cq_insert (rq_goleft k (jiffies_vruntime (ses k se))) (se_node se) (rq_rbs k)
                    (rb_leftmost_se (rq k));
       Some (put_rq s lm k)
     }"

definition dequeue_se :: "u32 \<Rightarrow> cpu \<Rightarrow> cpu option" where
  "dequeue_se se k =
     do {
       (s, lm) \<leftarrow> cq_remove (se_node se) (rq_rbs k) (rb_leftmost_se (rq k));
       Some (put_rq s lm k)
     }"

text \<open>\<open>consumed = leftmost->vruntime >> shift; vruntime = consumed * priority\<close> for one entry.\<close>

definition scale_se :: "u32 \<Rightarrow> u32 \<Rightarrow> cpu \<Rightarrow> cpu" where
  "scale_se sl c k =
     (let k1 = upd_se c (\<lambda>s. s\<lparr>jiffies_consumed :=
                 drop_bit (unat (pri_div_shift (ses k c))) (jiffies_vruntime (ses k sl))\<rparr>) k
      in upd_se c (\<lambda>s. s\<lparr>jiffies_vruntime := jiffies_consumed s * priority s\<rparr>) k1)"

partial_function (option) update_vr_loop :: "u32 \<Rightarrow> u32 \<Rightarrow> cpu \<Rightarrow> cpu option" where
  "update_vr_loop sl cur k =
     (if cur = 0 then Some k
      else do {
        let k1 = scale_se sl cur k;
        n \<leftarrow> rb_next (se_node cur) (rq_rbs k1);
        update_vr_loop sl (if n \<noteq> 0 then node_se n else 0) k1
      })"

definition update_vruntime_runq :: "u32 \<Rightarrow> cpu \<Rightarrow> cpu option" where
  "update_vruntime_runq se k =
     (if rb_leftmost_se (rq k) = 0 then Some k
      else (let sl = node_se (rb_leftmost_se (rq k))
            in update_vr_loop sl sl (scale_se sl se k)))"

definition add_priority :: "u32 \<Rightarrow> cpu \<Rightarrow> cpu" where
  "add_priority se k = k\<lparr>rq := (rq k)\<lparr>priority_sum := priority_sum (rq k) + priority (ses k se)\<rparr>\<rparr>"

definition sub_priority :: "u32 \<Rightarrow> cpu \<Rightarrow> cpu" where
  "sub_priority se k = k\<lparr>rq := (rq k)\<lparr>priority_sum := priority_sum (rq k) - priority (ses k se)\<rparr>\<rparr>"

definition set_state :: "u32 \<Rightarrow> task_state \<Rightarrow> cpu \<Rightarrow> cpu" where
  "set_state t x k = upd_task t (\<lambda>p. p\<lparr>tstate := x\<rparr>) k"

definition enqueue_se_to_runq :: "u32 \<Rightarrow> cpu \<Rightarrow> cpu option" where
  "enqueue_se_to_runq se k =
     do {
       let tp = task_of_se se;
       k1 \<leftarrow> remove_from_wq tp (add_priority se k);
       k2 \<leftarrow> rq_lock (set_state tp TASK_RUNNING k1);
       k3 \<leftarrow> update_vruntime_runq se k2;
       k4 \<leftarrow> enqueue_se se k3;
       Some (rq_unlock k4)
     }"

definition dequeue_se_to_wq :: "u32 \<Rightarrow> cpu \<Rightarrow> cpu option" where
  "dequeue_se_to_wq se k =
     (if runq k = 0 then Some k
      else do {
        let tp = task_of_se se;
        k1 \<leftarrow> add_to_wq tp (sub_priority se k);
        k2 \<leftarrow> rq_lock (set_state tp TASK_WAITING k1);
        k3 \<leftarrow> update_vruntime_runq se k2;
        k4 \<leftarrow> dequeue_se se k3;
        Some (rq_unlock k4)
      })"

definition dequeue_se_to_exit :: "u32 \<Rightarrow> cpu \<Rightarrow> cpu option" where
  "dequeue_se_to_exit se k =
     (let tp = task_of_se se in
      if runq k = 0 then Some k
      else if tstate (tasks k tp) = TASK_RUNNING \<or> tstate (tasks k tp) = TASK_STOP_RUNNING then
        do {
          k1 \<leftarrow> rq_lock (sub_priority se k);
          k2 \<leftarrow> update_vruntime_runq se k1;
          k3 \<leftarrow> dequeue_se se k2;
          Some (set_state tp TASK_STOP (rq_unlock k3))
        }
      else if tstate (tasks k tp) = TASK_WAITING then
        do {
          k1 \<leftarrow> rq_lock k;
          k2 \<leftarrow> remove_from_wq tp k1;
          Some (set_state tp TASK_STOP (rq_unlock k2))
        }
      else Some k)"

text \<open>\<open>update_se\<close> moves the leftmost entry back into order when the second one is smaller. With a single
  entry \<open>next_node\<close> is NULL and the code reads the runtime 20 bytes below address 0.\<close>

definition update_se :: "u32 \<Rightarrow> cpu \<Rightarrow> cpu option" where
  "update_se elapsed k =
     do {
       let cur_se = node_se (rb_leftmost_se (rq k));
       next_node \<leftarrow> rb_next (rb_leftmost_se (rq k)) (rq_rbs k);
       let next_se = node_se next_node;
       if jiffies_vruntime (ses k next_se) < jiffies_vruntime (ses k cur_se) then
         do { k1 \<leftarrow> dequeue_se cur_se k; enqueue_se cur_se k1 }
       else Some k
     }"

definition SIZEOF_cfs_rq :: u32 where "SIZEOF_cfs_rq = 28"

definition init_rb_of_se :: "u32 \<Rightarrow> cpu \<Rightarrow> cpu" where
  "init_rb_of_se se k = k\<lparr>rbmem := nodes (rb_init_node (se_node se) (rq_rbs k))\<rparr>"

definition init_rq :: "cpu \<Rightarrow> cpu option" where
  "init_rq k =
     do {
       (a, k1) \<leftarrow> kalloc SIZEOF_cfs_rq k;
       let se = se_of (idle_task k1);
       let k2 = k1\<lparr>runq := a, rq := \<lparr>rq_curr = 0, rq_next = 0, rq_last = 0, rq_root = 0,
                 rb_leftmost_se = se_node se, priority_sum = 0, cfs_task_num = 0\<rparr>\<rparr>;
       k3 \<leftarrow> enqueue_se_to_runq se (init_rb_of_se se k2);
       Some (k3\<lparr>rq := (rq k3)\<lparr>cfs_task_num := cfs_task_num (rq k3) + 1\<rparr>\<rparr>)
     }"

section \<open>The run queue as an ordered queue\<close>

definition rq_holds :: "cpu \<Rightarrow> u32 list \<Rightarrow> bool" where
  "rq_holds k xs \<longleftrightarrow> cq_holds (rq_rbs k) (rb_leftmost_se (rq k)) xs"

definition vruntime_key :: "cpu \<Rightarrow> u32 \<Rightarrow> nat" where
  "vruntime_key k n = unat (jiffies_vruntime (ses k (node_se n)))"

lemma rq_rbs_nodes: "nodes (rq_rbs k) = rbmem k"
  by (simp add: rq_rbs_def)

lemma put_rq_simps [simp]:
  "rq_rbs (put_rq s lm k) = s" "rb_leftmost_se (rq (put_rq s lm k)) = lm"
  "ses (put_rq s lm k) = ses k" "tasks (put_rq s lm k) = tasks k" "lheads (put_rq s lm k) = lheads k"
  "wq (put_rq s lm k) = wq k" "waitq (put_rq s lm k) = waitq k" "rqlock (put_rq s lm k) = rqlock k"
  "runq (put_rq s lm k) = runq k" "priority_sum (rq (put_rq s lm k)) = priority_sum (rq k)"
  by (simp_all add: rq_rbs_def put_rq_def)

lemma rq_goleft_monotone:
  "sorted (map (vruntime_key k) xs) \<Longrightarrow> monotone_in (rq_goleft k v) xs"
  unfolding monotone_in_def sorted_map
  by (rule sorted_wrt_mono_rel) (auto simp: rq_goleft_def vruntime_key_def word_le_nat_alt)

lemma enqueue_se_holds:
  assumes "rq_holds k xs" and "node_addr (se_node se)" and "se_node se \<notin> set xs"
  shows "\<exists>s lm ys zs. enqueue_se se k = Some (put_rq s lm k) \<and> xs = ys @ zs
    \<and> rq_holds (put_rq s lm k) (ys @ se_node se # zs)
    \<and> (\<forall>a. a \<notin> insert (se_node se) (set xs) \<longrightarrow> nodes s a = rbmem k a)
    \<and> (sorted (map (vruntime_key k) xs) \<longrightarrow>
        (\<forall>a \<in> set ys. vruntime_key k a < vruntime_key k (se_node se))
      \<and> (\<forall>a \<in> set zs. vruntime_key k (se_node se) \<le> vruntime_key k a))"
proof -
  obtain s lm ys zs where I: "cq_insert (rq_goleft k (jiffies_vruntime (ses k se))) (se_node se)
      (rq_rbs k) (rb_leftmost_se (rq k)) = Some (s, lm)" "xs = ys @ zs"
    "cq_holds s lm (ys @ se_node se # zs)" "same_off (insert (se_node se) (set xs)) (rq_rbs k) s"
    "monotone_in (rq_goleft k (jiffies_vruntime (ses k se))) xs \<longrightarrow>
       (\<forall>a \<in> set ys. \<not> rq_goleft k (jiffies_vruntime (ses k se)) a)
     \<and> (\<forall>a \<in> set zs. rq_goleft k (jiffies_vruntime (ses k se)) a)"
    using cq_insert_holds [of "rq_rbs k" "rb_leftmost_se (rq k)" xs "se_node se"
        "rq_goleft k (jiffies_vruntime (ses k se))"] assms by (auto simp: rq_holds_def)
  then show ?thesis
    using rq_goleft_monotone [of k xs]
    by (intro exI [of _ s] exI [of _ lm] exI [of _ ys] exI [of _ zs])
       (auto simp: enqueue_se_def rq_holds_def rq_goleft_def vruntime_key_def word_le_nat_alt not_le
          same_off_def rq_rbs_nodes)
qed

lemma dequeue_se_holds:
  assumes "rq_holds k xs" and "se_node se \<in> set xs"
  shows "\<exists>s lm. dequeue_se se k = Some (put_rq s lm k)
    \<and> rq_holds (put_rq s lm k) (remove1 (se_node se) xs)
    \<and> (\<forall>a. a \<notin> set xs \<longrightarrow> nodes s a = rbmem k a)"
proof -
  obtain s lm where "cq_remove (se_node se) (rq_rbs k) (rb_leftmost_se (rq k)) = Some (s, lm)"
    "cq_holds s lm (remove1 (se_node se) xs)" "same_off (set xs) (rq_rbs k) s"
    using cq_remove_holds [of "rq_rbs k" "rb_leftmost_se (rq k)" xs "se_node se"] assms
    by (auto simp: rq_holds_def)
  then show ?thesis
    by (intro exI [of _ s] exI [of _ lm]) (simp add: dequeue_se_def rq_holds_def same_off_def rq_rbs_nodes)
qed

lemma sorted_insert_between:
  assumes "sorted (map f (ys @ zs))" and "\<forall>a \<in> set ys. f a \<le> f x" and "\<forall>a \<in> set zs. f x \<le> f a"
  shows "sorted (map f (ys @ x # zs))"
  using assms by (auto simp: sorted_append)

interpretation rqueue: ordered_queue "\<lambda>n. enqueue_se (node_se n)" "\<lambda>n. dequeue_se (node_se n)"
  rq_holds "\<lambda>k. rb_leftmost_se (rq k)" vruntime_key
proof unfold_locales
  fix k xs assume "rq_holds k xs"
  then show "distinct xs" "rb_leftmost_se (rq k) = hd0 xs"
    using cq_holds_nodes by (auto simp: rq_holds_def cq_holds_def)
next
  fix k xs x assume a: "rq_holds k xs" "node_addr x" "x \<notin> set xs"
  obtain s lm ys zs where E: "enqueue_se (node_se x) k = Some (put_rq s lm k)" "xs = ys @ zs"
    "rq_holds (put_rq s lm k) (ys @ x # zs)"
    "sorted (map (vruntime_key k) xs) \<longrightarrow> (\<forall>a \<in> set ys. vruntime_key k a < vruntime_key k x)
      \<and> (\<forall>a \<in> set zs. vruntime_key k x \<le> vruntime_key k a)"
    using enqueue_se_holds [of k xs "node_se x"] a by auto
  have "vruntime_key (put_rq s lm k) = vruntime_key k" by (simp add: fun_eq_iff vruntime_key_def)
  moreover have "sorted (map (vruntime_key k) xs) \<longrightarrow> sorted (map (vruntime_key k) (ys @ x # zs))"
    using E(2,4) sorted_insert_between [of "vruntime_key k" ys zs x] by (auto intro: less_imp_le)
  ultimately show "\<exists>s' ys zs. enqueue_se (node_se x) k = Some s' \<and> xs = ys @ zs
      \<and> rq_holds s' (ys @ x # zs) \<and> vruntime_key s' = vruntime_key k
      \<and> (sorted (map (vruntime_key k) xs) \<longrightarrow> sorted (map (vruntime_key k) (ys @ x # zs)))"
    using E(1-3) by blast
next
  fix k xs x assume "rq_holds k xs" "x \<in> set xs"
  then show "\<exists>s'. dequeue_se (node_se x) k = Some s' \<and> rq_holds s' (remove1 x xs)
      \<and> vruntime_key s' = vruntime_key k"
    using dequeue_se_holds [of k xs "node_se x"] by (auto simp: fun_eq_iff vruntime_key_def)
qed

section \<open>The update of the virtual runtimes\<close>

text \<open>One entry after the update from the leftmost runtime \<open>v\<close>.\<close>

definition scaled :: "u32 \<Rightarrow> sched_entity \<Rightarrow> sched_entity" where
  "scaled v s = s\<lparr>jiffies_consumed := drop_bit (unat (pri_div_shift s)) v,
     jiffies_vruntime := drop_bit (unat (pri_div_shift s)) v * priority s\<rparr>"

definition scale_ses :: "u32 \<Rightarrow> u32 \<Rightarrow> (u32 \<Rightarrow> sched_entity) \<Rightarrow> u32 \<Rightarrow> sched_entity" where
  "scale_ses sl c f = f(c := scaled (jiffies_vruntime (f sl)) (f c))"

lemma scale_se_eq: "scale_se sl c k = k\<lparr>ses := scale_ses sl c (ses k)\<rparr>"
  by (simp add: scale_se_def upd_se_def Let_def scaled_def scale_ses_def)

lemma scaled_simps [simp]:
  "priority (scaled v s) = priority s" "pri_div_shift (scaled v s) = pri_div_shift s"
  by (simp_all add: scaled_def)

lemma scale_se_rbs [simp]: "rq_rbs (k\<lparr>ses := f\<rparr>) = rq_rbs k"
  by (simp add: rq_rbs_def)

lemma update_vr_loop_runs:
  assumes "cq_holds (rq_rbs k) lm (xs @ n # ys)" and "\<forall>m \<in> set (n # ys). node_se m \<noteq> 0"
  shows "update_vr_loop sl (node_se n) k
    = Some (k\<lparr>ses := fold (\<lambda>m. scale_ses sl (node_se m)) (n # ys) (ses k)\<rparr>)"
  using assms
proof (induction ys arbitrary: xs n k)
  case Nil
  have "rb_next n (rq_rbs k) = Some 0"
    using Nil.prems(1) rb_next_in_order [of "rq_rbs k" _ xs n "[]"] by (auto simp: cq_holds_def)
  then show ?case
    using Nil.prems(2) by (subst update_vr_loop.simps) (simp add: scale_se_eq update_vr_loop.simps)
next
  case (Cons m ys)
  let ?k = "k\<lparr>ses := scale_ses sl (node_se n) (ses k)\<rparr>"
  have "m \<noteq> 0" using cq_holds_nodes [OF Cons.prems(1)] by simp
  moreover have "rb_next n (rq_rbs k) = Some m"
    using Cons.prems(1) rb_next_in_order [of "rq_rbs k" _ xs n "m # ys"] by (auto simp: cq_holds_def)
  ultimately have step: "update_vr_loop sl (node_se n) k = update_vr_loop sl (node_se m) ?k"
    using Cons.prems(2) by (subst update_vr_loop.simps) (simp add: scale_se_eq)
  have "cq_holds (rq_rbs ?k) lm ((xs @ [n]) @ m # ys)" using Cons.prems(1) by simp
  from Cons.IH [OF this] Cons.prems(2) show ?case unfolding step by simp
qed

lemma fold_scale:
  assumes "sl \<notin> node_se ` set ns" and "distinct ns"
  shows "fold (\<lambda>m. scale_ses sl (node_se m)) ns f c
    = (if c \<in> node_se ` set ns then scaled (jiffies_vruntime (f sl)) (f c) else f c)"
  using assms
proof (induction ns arbitrary: f)
  case (Cons n ns)
  have n: "node_se n \<notin> node_se ` set ns" and sl: "sl \<noteq> node_se n" using Cons.prems by (auto simp: node_se_def)
  then show ?case
    using Cons.IH [of "scale_ses sl (node_se n) f"] Cons.prems by (auto simp: scale_ses_def)
qed simp

text \<open>The entries of the queue after the update: the leftmost one is scaled first, the others follow
  its new runtime.\<close>

lemma update_vruntime_runs:
  assumes q: "rq_holds k (l # ns)" and nz: "\<forall>m \<in> set (l # ns). node_se m \<noteq> 0"
  shows "\<exists>f. update_vruntime_runq se k = Some (k\<lparr>ses := f\<rparr>)
    \<and> (\<forall>c. priority (f c) = priority (ses k c) \<and> pri_div_shift (f c) = pri_div_shift (ses k c))
    \<and> (\<exists>s0. f (node_se l) = scaled s0 (f (node_se l)))
    \<and> (\<forall>n \<in> set ns. \<exists>s. f (node_se n) = scaled (jiffies_vruntime (f (node_se l))) s
          \<and> pri_div_shift s = pri_div_shift (ses k (node_se n)) \<and> priority s = priority (ses k (node_se n)))"
proof -
  let ?sl = "node_se l"
  define g where "g = scale_ses ?sl se (ses k)"
  define h where "h = scale_ses ?sl ?sl g"
  define f where "f = fold (\<lambda>m. scale_ses ?sl (node_se m)) ns h"
  have d: "distinct (l # ns)" "l \<noteq> 0" "rb_leftmost_se (rq k) = l"
    using cq_holds_nodes [OF q [unfolded rq_holds_def]] q by (auto simp: rq_holds_def cq_holds_def)
  have "cq_holds (rq_rbs (k\<lparr>ses := g\<rparr>)) l ([] @ l # ns)" using q d(3) by (simp add: rq_holds_def)
  from update_vr_loop_runs [OF this nz, of ?sl]
  have "update_vruntime_runq se k = Some (k\<lparr>ses := f\<rparr>)"
    using d(2,3) by (simp add: update_vruntime_runq_def Let_def scale_se_eq g_def h_def f_def)
  moreover have nl: "?sl \<notin> node_se ` set ns" using d(1) by (auto simp: node_se_def)
  have fc: "f c = (if c \<in> node_se ` set ns then scaled (jiffies_vruntime (h ?sl)) (h c) else h c)" for c
    unfolding f_def by (rule fold_scale [OF nl]) (use d(1) in simp)
  have hs: "h ?sl = scaled (jiffies_vruntime (g ?sl)) (g ?sl)" "c \<noteq> ?sl \<Longrightarrow> h c = g c" for c
    by (simp_all add: h_def scale_ses_def)
  have pk: "priority (g c) = priority (ses k c)" "pri_div_shift (g c) = pri_div_shift (ses k c)" for c
    by (simp_all add: g_def scale_ses_def)
  have "priority (f c) = priority (ses k c) \<and> pri_div_shift (f c) = pri_div_shift (ses k c)" for c
    by (cases "c = ?sl") (simp_all add: fc hs pk)
  moreover have "f ?sl = scaled (jiffies_vruntime (g ?sl)) (f ?sl)"
    using nl by (simp add: fc hs scaled_def)
  moreover have "f (node_se n) = scaled (jiffies_vruntime (f ?sl)) (g (node_se n))" if "n \<in> set ns" for n
  proof -
    have "node_se n \<in> node_se ` set ns" using that by simp
    then have "node_se n \<noteq> ?sl" using nl by metis
    then show ?thesis using nl \<open>node_se n \<in> node_se ` set ns\<close> by (simp add: fc hs)
  qed
  ultimately show ?thesis using pk by blast
qed

section \<open>Bounds on the virtual runtimes\<close>

text \<open>\<open>forkyi\<close> only accepts the priorities 1, 2, 4, 8 and 16, with the matching shift.\<close>

definition pri_ok :: "sched_entity \<Rightarrow> bool" where
  "pri_ok s \<longleftrightarrow> unat (pri_div_shift s) \<le> 4 \<and> priority s = 2 ^ unat (pri_div_shift s)"

lemma scaled_vruntime:
  assumes "priority s = 2 ^ unat (pri_div_shift s)"
  shows "unat (jiffies_vruntime (scaled v s))
    = unat v div 2 ^ unat (pri_div_shift s) * 2 ^ unat (pri_div_shift s)"
proof -
  let ?n = "unat (pri_div_shift s)"
  have d: "unat (drop_bit ?n v) = unat v div 2 ^ ?n"
    unfolding unat_drop_bit_eq by (rule drop_bit_eq_div)
  define M where "M = unat v div 2 ^ ?n * 2 ^ ?n"
  have "jiffies_vruntime (scaled v s) = of_nat M"
    using assms by (simp add: scaled_def M_def d [symmetric])
  moreover have "M < 2 ^ 32"
  proof -
    have "M \<le> unat v" by (simp add: M_def)
    also have "\<dots> < 2 ^ LENGTH(32)" by (rule unsigned_less)
    finally show ?thesis by simp
  qed
  then have "unat (of_nat M :: u32) = M" by (simp add: unat_of_nat take_bit_nat_eq_self)
  ultimately show ?thesis by (simp add: M_def)
qed

lemma round_down_within:
  fixes a :: nat
  assumes "n \<le> 4"
  shows "a div 2 ^ n * 2 ^ n \<le> a" and "a < a div 2 ^ n * 2 ^ n + 2 ^ n"
    and "a < a div 2 ^ n * 2 ^ n + 16"
proof -
  show "a div 2 ^ n * 2 ^ n \<le> a" by simp
  show *: "a < a div 2 ^ n * 2 ^ n + 2 ^ n"
    by (metis add_strict_left_mono div_mult_mod_eq mod_less_divisor zero_less_numeral zero_less_power)
  have "(2 :: nat) ^ n \<le> 2 ^ 4" using assms by (rule power_increasing) simp
  with * show "a < a div 2 ^ n * 2 ^ n + 16" by simp
qed

text \<open>C28. \<open>update_vruntime_runq\<close> ends, leaves the queue as it was, and pulls every entry to within one
  priority below the leftmost entry, so that all runtimes lie in a window of fewer than 16 jiffies. The
  leftmost entry, which the scheduler runs next, then has the largest runtime of the queue.\<close>

theorem update_vruntime_window:
  assumes "rq_holds k (l # ns)" and "\<forall>m \<in> set (l # ns). node_se m \<noteq> 0"
    and "\<forall>m \<in> set ns. pri_ok (ses k (node_se m))"
  shows "\<exists>k'. update_vruntime_runq se k = Some k' \<and> rq_holds k' (l # ns)
    \<and> (\<forall>n \<in> set ns. vruntime_key k' n \<le> vruntime_key k' l
        \<and> vruntime_key k' l < vruntime_key k' n + unat (priority (ses k (node_se n)))
        \<and> vruntime_key k' l < vruntime_key k' n + 16)"
proof -
  obtain f where f: "update_vruntime_runq se k = Some (k\<lparr>ses := f\<rparr>)"
    "\<forall>n \<in> set ns. \<exists>s. f (node_se n) = scaled (jiffies_vruntime (f (node_se l))) s
          \<and> pri_div_shift s = pri_div_shift (ses k (node_se n)) \<and> priority s = priority (ses k (node_se n))"
    using update_vruntime_runs [OF assms(1,2), of se] by blast
  have "rq_holds (k\<lparr>ses := f\<rparr>) (l # ns)" using assms(1) by (simp add: rq_holds_def)
  moreover have "vruntime_key (k\<lparr>ses := f\<rparr>) n \<le> vruntime_key (k\<lparr>ses := f\<rparr>) l
      \<and> vruntime_key (k\<lparr>ses := f\<rparr>) l < vruntime_key (k\<lparr>ses := f\<rparr>) n + unat (priority (ses k (node_se n)))
      \<and> vruntime_key (k\<lparr>ses := f\<rparr>) l < vruntime_key (k\<lparr>ses := f\<rparr>) n + 16"
    if n: "n \<in> set ns" for n
  proof -
    obtain s where s: "f (node_se n) = scaled (jiffies_vruntime (f (node_se l))) s"
      "pri_div_shift s = pri_div_shift (ses k (node_se n))" "priority s = priority (ses k (node_se n))"
      using f(2) n by blast
    let ?m = "unat (pri_div_shift s)"
    have p: "?m \<le> 4" "priority s = 2 ^ ?m" using assms(3) n s by (auto simp: pri_ok_def)
    have "(2 :: nat) ^ ?m \<le> 2 ^ 4" using p(1) by (rule power_increasing) simp
    then have "unat (2 ^ ?m :: u32) = 2 ^ ?m"
      using unat_of_nat [of "2 ^ ?m", where 'a = 32] by (simp add: take_bit_nat_eq_self)
    then show ?thesis
      using scaled_vruntime [OF p(2), of "jiffies_vruntime (f (node_se l))"]
        round_down_within [OF p(1), of "unat (jiffies_vruntime (f (node_se l)))"] p(2)
      by (simp add: vruntime_key_def s(1) s(3) [symmetric])
  qed
  ultimately show ?thesis using f(1) by blast
qed

section \<open>The invariant of the two queues\<close>

text \<open>The nodes \<open>xs\<close> of the run queue and the tasks \<open>ws\<close> of the wait list: the states of the tasks say
  which queue they are in, \<open>priority_sum\<close> is the sum over the run queue, and the locks are free.\<close>

definition node_task :: "u32 \<Rightarrow> u32" where "node_task n = task_of_se (node_se n)"

definition task_node :: "u32 \<Rightarrow> u32" where "task_node t = se_node (se_of t)"

lemma node_task_node [simp]: "node_task (task_node t) = t" "task_node (node_task n) = n"
  by (simp_all add: node_task_def task_node_def)

definition queue_task :: "cpu \<Rightarrow> u32 \<Rightarrow> bool" where
  "queue_task k t \<longleftrightarrow> node_addr (task_node t) \<and> se_of t \<noteq> 0 \<and> waitlist t \<noteq> 0
     \<and> waitlist t \<noteq> wq_list_head (wq k)"

definition sched_inv :: "cpu \<Rightarrow> u32 list \<Rightarrow> u32 list \<Rightarrow> bool" where
  "sched_inv k xs ws \<longleftrightarrow>
     rq_holds k xs \<and> wq_holds k ws \<and> runq k \<noteq> 0 \<and> rqlock k = UNLOCKED
   \<and> (\<forall>n \<in> set xs. node_se n \<noteq> 0 \<and> tstate (tasks k (node_task n)) = TASK_RUNNING)
   \<and> (\<forall>t \<in> set ws. tstate (tasks k t) = TASK_WAITING)
   \<and> priority_sum (rq k) = sum_list (map (\<lambda>n. priority (ses k (node_se n))) xs)"

text \<open>Running the update: it is defined on the empty queue as well and touches only runtimes.\<close>

lemma update_vruntime_ok:
  assumes "rq_holds k xs" and "\<forall>m \<in> set xs. node_se m \<noteq> 0"
  shows "\<exists>f. update_vruntime_runq se k = Some (k\<lparr>ses := f\<rparr>) \<and> (\<forall>c. priority (f c) = priority (ses k c))"
proof (cases xs)
  case Nil
  then have "rb_leftmost_se (rq k) = 0" using assms(1) by (auto simp: rq_holds_def cq_holds_def)
  then show ?thesis by (intro exI [of _ "ses k"]) (simp add: update_vruntime_runq_def)
next
  case (Cons l ns)
  then show ?thesis using update_vruntime_runs [of k l ns se] assms by blast
qed

lemma sum_insert: "sum_list (map f (ys @ x # zs)) = (f x :: u32) + sum_list (map f (ys @ zs))"
  by (simp add: algebra_simps)

lemma sum_remove1: "x \<in> set xs \<Longrightarrow> sum_list (map f (remove1 x xs)) = sum_list (map f xs) - (f x :: u32)"
  by (induction xs) (auto simp: algebra_simps)

lemma wq_holds_cong:
  "wq_holds k ws \<Longrightarrow> wq k' = wq k \<Longrightarrow> waitq k' = waitq k \<Longrightarrow> lheads k' = lheads k \<Longrightarrow> wq_holds k' ws"
  by (simp add: wq_holds_def)

lemma rq_holds_cong:
  "rq_holds k xs \<Longrightarrow> rbmem k' = rbmem k \<Longrightarrow> rq_root (rq k') = rq_root (rq k) \<Longrightarrow>
   rb_leftmost_se (rq k') = rb_leftmost_se (rq k) \<Longrightarrow> rq_holds k' xs"
  by (simp add: rq_holds_def rq_rbs_def)

text \<open>The locked section both directions share: update the runtimes, then insert or remove.\<close>

lemma enqueue_locked:
  assumes q: "rq_holds k xs" "\<forall>m \<in> set xs. node_se m \<noteq> 0" and x: "node_addr (task_node t)" "task_node t \<notin> set xs"
    and l: "rqlock k = UNLOCKED"
  shows "\<exists>k' ys zs. do { k2 \<leftarrow> rq_lock k; k3 \<leftarrow> update_vruntime_runq (se_of t) k2;
       k4 \<leftarrow> enqueue_se (se_of t) k3; Some (rq_unlock k4) } = Some k'
    \<and> xs = ys @ zs \<and> rq_holds k' (ys @ task_node t # zs)
    \<and> k' = k\<lparr>ses := ses k', rbmem := rbmem k', rq := (rq k)\<lparr>rq_root := rq_root (rq k'),
         rb_leftmost_se := rb_leftmost_se (rq k')\<rparr>\<rparr>
    \<and> (\<forall>c. priority (ses k' c) = priority (ses k c))
    \<and> (\<forall>a. a \<notin> insert (task_node t) (set xs) \<longrightarrow> rbmem k' a = rbmem k a)"
proof -
  let ?k2 = "k\<lparr>rqlock := LOCKED\<rparr>"
  have q2: "rq_holds ?k2 xs" by (rule rq_holds_cong [OF q(1)]) simp_all
  obtain f where f: "update_vruntime_runq (se_of t) ?k2 = Some (?k2\<lparr>ses := f\<rparr>)"
    "\<forall>c. priority (f c) = priority (ses k c)"
    using update_vruntime_ok [OF q2 q(2), of "se_of t"] by auto
  have q3: "rq_holds (?k2\<lparr>ses := f\<rparr>) xs" by (rule rq_holds_cong [OF q2]) simp_all
  obtain s lm ys zs where e: "enqueue_se (se_of t) (?k2\<lparr>ses := f\<rparr>) = Some (put_rq s lm (?k2\<lparr>ses := f\<rparr>))"
    "xs = ys @ zs" "rq_holds (put_rq s lm (?k2\<lparr>ses := f\<rparr>)) (ys @ task_node t # zs)"
    "\<forall>a. a \<notin> insert (task_node t) (set xs) \<longrightarrow> nodes s a = rbmem k a"
    using enqueue_se_holds [OF q3, of "se_of t"] x by (auto simp: task_node_def)
  let ?k' = "rq_unlock (put_rq s lm (?k2\<lparr>ses := f\<rparr>))"
  have "rq_holds ?k' (ys @ task_node t # zs)"
    by (rule rq_holds_cong [OF e(3)]) (simp_all add: rq_unlock_def)
  moreover have "?k' = k\<lparr>ses := ses ?k', rbmem := rbmem ?k', rq := (rq k)\<lparr>rq_root := rq_root (rq ?k'),
         rb_leftmost_se := rb_leftmost_se (rq ?k')\<rparr>\<rparr>"
    using l by (simp add: rq_unlock_def put_rq_def)
  ultimately show ?thesis
    using l f e(1,2,4)
    by (intro exI [of _ ?k'] exI [of _ ys] exI [of _ zs])
       (simp add: rq_lock_def LOCKED_def UNLOCKED_def rq_unlock_def put_rq_def)
qed

lemma dequeue_locked:
  assumes q: "rq_holds k xs" "\<forall>m \<in> set xs. node_se m \<noteq> 0" and x: "task_node t \<in> set xs"
    and l: "rqlock k = UNLOCKED"
  shows "\<exists>k'. do { k2 \<leftarrow> rq_lock k; k3 \<leftarrow> update_vruntime_runq (se_of t) k2;
       k4 \<leftarrow> dequeue_se (se_of t) k3; Some (rq_unlock k4) } = Some k'
    \<and> rq_holds k' (remove1 (task_node t) xs)
    \<and> k' = k\<lparr>ses := ses k', rbmem := rbmem k', rq := (rq k)\<lparr>rq_root := rq_root (rq k'),
         rb_leftmost_se := rb_leftmost_se (rq k')\<rparr>\<rparr>
    \<and> (\<forall>c. priority (ses k' c) = priority (ses k c))
    \<and> (\<forall>a. a \<notin> set xs \<longrightarrow> rbmem k' a = rbmem k a)"
proof -
  let ?k2 = "k\<lparr>rqlock := LOCKED\<rparr>"
  have q2: "rq_holds ?k2 xs" by (rule rq_holds_cong [OF q(1)]) simp_all
  obtain f where f: "update_vruntime_runq (se_of t) ?k2 = Some (?k2\<lparr>ses := f\<rparr>)"
    "\<forall>c. priority (f c) = priority (ses k c)"
    using update_vruntime_ok [OF q2 q(2), of "se_of t"] by auto
  have q3: "rq_holds (?k2\<lparr>ses := f\<rparr>) xs" by (rule rq_holds_cong [OF q2]) simp_all
  obtain s lm where e: "dequeue_se (se_of t) (?k2\<lparr>ses := f\<rparr>) = Some (put_rq s lm (?k2\<lparr>ses := f\<rparr>))"
    "rq_holds (put_rq s lm (?k2\<lparr>ses := f\<rparr>)) (remove1 (task_node t) xs)"
    "\<forall>a. a \<notin> set xs \<longrightarrow> nodes s a = rbmem k a"
    using dequeue_se_holds [OF q3, of "se_of t"] x by (auto simp: task_node_def)
  let ?k' = "rq_unlock (put_rq s lm (?k2\<lparr>ses := f\<rparr>))"
  have "rq_holds ?k' (remove1 (task_node t) xs)"
    by (rule rq_holds_cong [OF e(2)]) (simp_all add: rq_unlock_def)
  moreover have "?k' = k\<lparr>ses := ses ?k', rbmem := rbmem ?k', rq := (rq k)\<lparr>rq_root := rq_root (rq ?k'),
         rb_leftmost_se := rb_leftmost_se (rq ?k')\<rparr>\<rparr>"
    using l by (simp add: rq_unlock_def put_rq_def)
  ultimately show ?thesis
    using l f e(1,3)
    by (intro exI [of _ ?k']) (simp add: rq_lock_def LOCKED_def UNLOCKED_def rq_unlock_def put_rq_def)
qed

lemma set_state_simps [simp]:
  "rbmem (set_state t x k) = rbmem k" "rq (set_state t x k) = rq k" "ses (set_state t x k) = ses k"
  "lheads (set_state t x k) = lheads k" "wq (set_state t x k) = wq k" "waitq (set_state t x k) = waitq k"
  "runq (set_state t x k) = runq k" "rqlock (set_state t x k) = rqlock k"
  "tstate (tasks (set_state t x k) u) = (if u = t then x else tstate (tasks k u))"
  by (simp_all add: set_state_def upd_task_def)

text \<open>Taking a running task off the run queue and putting it on the wait queue.\<close>

lemma dequeue_se_to_wq_inv:
  assumes inv: "sched_inv k xs ws" and t: "task_node t \<in> set xs" "queue_task k t"
  shows "\<exists>k'. dequeue_se_to_wq (se_of t) k = Some k' \<and> sched_inv k' (remove1 (task_node t) xs) (t # ws)
    \<and> k' = k\<lparr>ses := ses k', rbmem := rbmem k', rq := rq k', lheads := lheads k', waitq := waitq k', tasks := tasks k'\<rparr>
    \<and> (\<forall>a. a \<notin> set xs \<longrightarrow> rbmem k' a = rbmem k a)"
proof -
  have I: "rq_holds k xs" "wq_holds k ws" "runq k \<noteq> 0" "rqlock k = UNLOCKED"
    "\<forall>n \<in> set xs. node_se n \<noteq> 0 \<and> tstate (tasks k (node_task n)) = TASK_RUNNING"
    "\<forall>t \<in> set ws. tstate (tasks k t) = TASK_WAITING"
    "priority_sum (rq k) = sum_list (map (\<lambda>n. priority (ses k (node_se n))) xs)"
    using inv by (simp_all add: sched_inv_def)
  have run: "tstate (tasks k t) = TASK_RUNNING" using I(5) t(1) by fastforce
  then have tw: "t \<notin> set ws" using I(6) by auto
  let ?k0 = "sub_priority (se_of t) k"
  have "wq_holds ?k0 ws" by (rule wq_holds_cong [OF I(2)]) (simp_all add: sub_priority_def)
  from add_to_wq_holds [OF this tw] t(2)
  obtain k1 where k1: "add_to_wq t ?k0 = Some k1" "wq_holds k1 (t # ws)"
    "k1 = ?k0\<lparr>lheads := lheads k1, waitq := waitq k1\<rparr>"
    by (auto simp: queue_task_def sub_priority_def)
  have e1: "rbmem k1 = rbmem k" "ses k1 = ses k" "tasks k1 = tasks k" "runq k1 = runq k"
    "rqlock k1 = rqlock k" "wq k1 = wq k"
    "rq k1 = (rq k)\<lparr>priority_sum := priority_sum (rq k) - priority (ses k (se_of t))\<rparr>"
    by (subst k1(3), simp add: sub_priority_def)+
  let ?k2 = "set_state t TASK_WAITING k1"
  have q2: "rq_holds ?k2 xs" by (rule rq_holds_cong [OF I(1)]) (simp_all add: e1)
  have "rqlock ?k2 = UNLOCKED" "\<forall>m \<in> set xs. node_se m \<noteq> 0" using I(4,5) by (simp_all add: e1)
  from dequeue_locked [OF q2 this(2) t(1) this(1)]
  obtain k' where k': "do { k2 \<leftarrow> rq_lock ?k2; k3 \<leftarrow> update_vruntime_runq (se_of t) k2;
       k4 \<leftarrow> dequeue_se (se_of t) k3; Some (rq_unlock k4) } = Some k'"
    "rq_holds k' (remove1 (task_node t) xs)"
    "k' = ?k2\<lparr>ses := ses k', rbmem := rbmem k', rq := (rq ?k2)\<lparr>rq_root := rq_root (rq k'),
         rb_leftmost_se := rb_leftmost_se (rq k')\<rparr>\<rparr>"
    "\<forall>c. priority (ses k' c) = priority (ses ?k2 c)"
    "\<forall>a. a \<notin> set xs \<longrightarrow> rbmem k' a = rbmem ?k2 a" by blast
  have e': "wq k' = wq k" "waitq k' = waitq k1" "lheads k' = lheads k1" "tasks k' = tasks ?k2"
    "runq k' = runq k" "rqlock k' = rqlock k"
    "priority_sum (rq k') = priority_sum (rq k) - priority (ses k (se_of t))"
    by (subst k'(3), simp add: e1 set_state_def upd_task_def)+
  have run1: "dequeue_se_to_wq (se_of t) k = Some k'"
    using I(3) k1(1) k'(1) by (simp add: dequeue_se_to_wq_def)
  have d: "distinct xs" by (rule rqueue.holds_distinct [OF I(1)])
  have "sched_inv k' (remove1 (task_node t) xs) (t # ws)"
    unfolding sched_inv_def
  proof (intro conjI ballI)
    show "wq_holds k' (t # ws)" by (rule wq_holds_cong [OF k1(2)]) (simp_all add: e' e1)
    show "priority_sum (rq k') = sum_list (map (\<lambda>n. priority (ses k' (node_se n))) (remove1 (task_node t) xs))"
      using k'(4) I(7) sum_remove1 [OF t(1)] by (simp add: e' e1 task_node_def)
    show "tstate (tasks k' u) = TASK_WAITING" if "u \<in> set (t # ws)" for u
      using that I(6) by (auto simp: e' e1)
    show "node_se n \<noteq> 0" if "n \<in> set (remove1 (task_node t) xs)" for n using that d I(5) by simp
    show "tstate (tasks k' (node_task n)) = TASK_RUNNING" if "n \<in> set (remove1 (task_node t) xs)" for n
      using that d I(5) by (auto simp: e' e1)
  qed (use k'(2) I(3,4) in \<open>simp_all add: e'\<close>)
  moreover have "k' = k\<lparr>ses := ses k', rbmem := rbmem k', rq := rq k', lheads := lheads k', waitq := waitq k', tasks := tasks k'\<rparr>"
    by (rule cpu.equality; simp; subst k'(3), simp add: set_state_def upd_task_def;
        subst k1(3), simp add: sub_priority_def)
  moreover have "\<forall>a. a \<notin> set xs \<longrightarrow> rbmem k' a = rbmem k a" using k'(5) by (simp add: e1)
  ultimately show ?thesis using run1 by blast
qed

text \<open>What is left of the wait list when \<open>t\<close> is taken off it.\<close>

definition after_wait :: "u32 \<Rightarrow> u32 list \<Rightarrow> u32 list" where
  "after_wait t ws = (if t \<in> set ws then tl (dropWhile (\<lambda>u. u \<noteq> t) ws) else ws)"

lemma after_wait_split:
  assumes "t \<in> set ws"
  obtains ts us where "ws = ts @ t # us" and "after_wait t ws = us"
proof -
  obtain ts us where w: "ws = ts @ t # us" "t \<notin> set ts" using assms by (meson split_list_first)
  have "after_wait t ws = us"
    using assms w by (simp add: after_wait_def dropWhile_append)
  with w(1) show ?thesis by (rule that)
qed

lemma remove_from_wq_ok:
  assumes "wq_holds k ws"
  shows "\<exists>k'. remove_from_wq t k = Some k' \<and> wq_holds k' (after_wait t ws)
    \<and> k' = k\<lparr>lheads := lheads k', waitq := waitq k'\<rparr>"
proof (cases "t \<in> set ws")
  case True
  then obtain ts us where "ws = ts @ t # us" "after_wait t ws = us" by (rule after_wait_split)
  then show ?thesis using remove_from_wq_holds [of k ts t us] assms by auto
next
  case False
  then show ?thesis
    using remove_from_wq_absent [OF assms] assms by (intro exI [of _ k]) (simp add: after_wait_def)
qed

lemma set_after_wait: "wq_holds k ws \<Longrightarrow> set (after_wait t ws) \<subseteq> set ws - {t}"
proof (cases "t \<in> set ws")
  case True
  then obtain ts us where "ws = ts @ t # us" "after_wait t ws = us" by (rule after_wait_split)
  then show "wq_holds k ws \<Longrightarrow> set (after_wait t ws) \<subseteq> set ws - {t}"
    by (auto simp: wq_holds_def Let_def)
qed (auto simp: after_wait_def)

text \<open>Waking a waiting task, or starting a new one.\<close>

lemma enqueue_se_to_runq_inv:
  assumes inv: "sched_inv k xs ws" and t: "task_node t \<notin> set xs" "queue_task k t"
  shows "\<exists>k' ys zs. enqueue_se_to_runq (se_of t) k = Some k' \<and> xs = ys @ zs
    \<and> sched_inv k' (ys @ task_node t # zs) (after_wait t ws)
    \<and> k' = k\<lparr>ses := ses k', rbmem := rbmem k', rq := rq k', lheads := lheads k', waitq := waitq k', tasks := tasks k'\<rparr>
    \<and> cfs_task_num (rq k') = cfs_task_num (rq k)
    \<and> (\<forall>a. a \<notin> insert (task_node t) (set xs) \<longrightarrow> rbmem k' a = rbmem k a)
    \<and> (\<forall>u. yield_task (tasks k' u) = yield_task (tasks k u))"
proof -
  have I: "rq_holds k xs" "wq_holds k ws" "runq k \<noteq> 0" "rqlock k = UNLOCKED"
    "\<forall>n \<in> set xs. node_se n \<noteq> 0 \<and> tstate (tasks k (node_task n)) = TASK_RUNNING"
    "\<forall>t \<in> set ws. tstate (tasks k t) = TASK_WAITING"
    "priority_sum (rq k) = sum_list (map (\<lambda>n. priority (ses k (node_se n))) xs)"
    using inv by (simp_all add: sched_inv_def)
  let ?k0 = "add_priority (se_of t) k"
  have "wq_holds ?k0 ws" by (rule wq_holds_cong [OF I(2)]) (simp_all add: add_priority_def)
  from remove_from_wq_ok [OF this, of t]
  obtain k1 where k1: "remove_from_wq t ?k0 = Some k1" "wq_holds k1 (after_wait t ws)"
    "k1 = ?k0\<lparr>lheads := lheads k1, waitq := waitq k1\<rparr>" by blast
  have e1: "rbmem k1 = rbmem k" "ses k1 = ses k" "tasks k1 = tasks k" "runq k1 = runq k"
    "rqlock k1 = rqlock k" "wq k1 = wq k"
    "rq k1 = (rq k)\<lparr>priority_sum := priority_sum (rq k) + priority (ses k (se_of t))\<rparr>"
    by (subst k1(3), simp add: add_priority_def)+
  let ?k2 = "set_state t TASK_RUNNING k1"
  have q2: "rq_holds ?k2 xs" by (rule rq_holds_cong [OF I(1)]) (simp_all add: e1)
  have "rqlock ?k2 = UNLOCKED" "\<forall>m \<in> set xs. node_se m \<noteq> 0" using I(4,5) by (simp_all add: e1)
  moreover have "node_addr (task_node t)" using t(2) by (simp add: queue_task_def)
  ultimately obtain k' ys zs where k': "do { k2 \<leftarrow> rq_lock ?k2; k3 \<leftarrow> update_vruntime_runq (se_of t) k2;
       k4 \<leftarrow> enqueue_se (se_of t) k3; Some (rq_unlock k4) } = Some k'" "xs = ys @ zs"
    "rq_holds k' (ys @ task_node t # zs)"
    "k' = ?k2\<lparr>ses := ses k', rbmem := rbmem k', rq := (rq ?k2)\<lparr>rq_root := rq_root (rq k'),
         rb_leftmost_se := rb_leftmost_se (rq k')\<rparr>\<rparr>"
    "\<forall>c. priority (ses k' c) = priority (ses ?k2 c)"
    "\<forall>a. a \<notin> insert (task_node t) (set xs) \<longrightarrow> rbmem k' a = rbmem ?k2 a"
    using enqueue_locked [OF q2 _ _ t(1)] by blast
  have e': "wq k' = wq k" "waitq k' = waitq k1" "lheads k' = lheads k1" "tasks k' = tasks ?k2"
    "runq k' = runq k" "rqlock k' = rqlock k" "cfs_task_num (rq k') = cfs_task_num (rq k)"
    "priority_sum (rq k') = priority_sum (rq k) + priority (ses k (se_of t))"
    by (subst k'(4), simp add: e1 set_state_def upd_task_def)+
  have run1: "enqueue_se_to_runq (se_of t) k = Some k'"
    using k1(1) k'(1) by (simp add: enqueue_se_to_runq_def)
  have d: "distinct (ys @ task_node t # zs)" by (rule rqueue.holds_distinct [OF k'(3)])
  have "sched_inv k' (ys @ task_node t # zs) (after_wait t ws)"
    unfolding sched_inv_def
  proof (intro conjI ballI)
    show "wq_holds k' (after_wait t ws)" by (rule wq_holds_cong [OF k1(2)]) (simp_all add: e' e1)
    show "priority_sum (rq k') = sum_list (map (\<lambda>n. priority (ses k' (node_se n))) (ys @ task_node t # zs))"
      using k'(5) I(7) by (simp add: sum_insert e' e1 task_node_def k'(2))
    show "tstate (tasks k' u) = TASK_WAITING" if "u \<in> set (after_wait t ws)" for u
      using that I(6) set_after_wait [OF I(2), of t] by (auto simp: e' e1)
    show "node_se n \<noteq> 0" if "n \<in> set (ys @ task_node t # zs)" for n
      using that I(5) t(2) k'(2) by (auto simp: queue_task_def task_node_def)
    show "tstate (tasks k' (node_task n)) = TASK_RUNNING" if "n \<in> set (ys @ task_node t # zs)" for n
      using that I(5) k'(2) by (auto simp: e' e1)
  qed (use k'(3) I(3,4) in \<open>simp_all add: e'\<close>)
  moreover have "k' = k\<lparr>ses := ses k', rbmem := rbmem k', rq := rq k', lheads := lheads k', waitq := waitq k', tasks := tasks k'\<rparr>"
    by (rule cpu.equality; simp; subst k'(4), simp add: set_state_def upd_task_def;
        subst k1(3), simp add: add_priority_def)
  moreover have "\<forall>a. a \<notin> insert (task_node t) (set xs) \<longrightarrow> rbmem k' a = rbmem k a"
    using k'(6) by (simp add: e1)
  moreover have "\<forall>u. yield_task (tasks k' u) = yield_task (tasks k u)"
    by (simp add: e' e1 set_state_def upd_task_def)
  ultimately show ?thesis using run1 k'(2) e' by blast
qed

text \<open>Ending a task takes it off the queue its state names.\<close>

lemma dequeue_se_to_exit_inv:
  assumes inv: "sched_inv k xs ws" and t: "task_node t \<in> set xs \<or> t \<in> set ws"
  shows "\<exists>k'. dequeue_se_to_exit (se_of t) k = Some k'
    \<and> sched_inv k' (if task_node t \<in> set xs then remove1 (task_node t) xs else xs)
        (if task_node t \<in> set xs then ws else after_wait t ws)
    \<and> tstate (tasks k' t) = TASK_STOP"
proof -
  have I: "rq_holds k xs" "wq_holds k ws" "runq k \<noteq> 0" "rqlock k = UNLOCKED"
    "\<forall>n \<in> set xs. node_se n \<noteq> 0 \<and> tstate (tasks k (node_task n)) = TASK_RUNNING"
    "\<forall>t \<in> set ws. tstate (tasks k t) = TASK_WAITING"
    "priority_sum (rq k) = sum_list (map (\<lambda>n. priority (ses k (node_se n))) xs)"
    using inv by (simp_all add: sched_inv_def)
  have d: "distinct xs" by (rule rqueue.holds_distinct [OF I(1)])
  show ?thesis
  proof (cases "task_node t \<in> set xs")
    case True
    have run: "tstate (tasks k t) = TASK_RUNNING" using I(5) True by fastforce
    then have tw: "t \<notin> set ws" using I(6) by auto
    let ?k1 = "sub_priority (se_of t) k"
    have q1: "rq_holds ?k1 xs" by (rule rq_holds_cong [OF I(1)]) (simp_all add: sub_priority_def)
    have "rqlock ?k1 = UNLOCKED" "\<forall>m \<in> set xs. node_se m \<noteq> 0"
      using I(4,5) by (simp_all add: sub_priority_def)
    from dequeue_locked [OF q1 this(2) True this(1)]
    obtain k2 where k2: "do { k2 \<leftarrow> rq_lock ?k1; k3 \<leftarrow> update_vruntime_runq (se_of t) k2;
         k4 \<leftarrow> dequeue_se (se_of t) k3; Some (rq_unlock k4) } = Some k2"
      "rq_holds k2 (remove1 (task_node t) xs)"
      "k2 = ?k1\<lparr>ses := ses k2, rbmem := rbmem k2, rq := (rq ?k1)\<lparr>rq_root := rq_root (rq k2),
           rb_leftmost_se := rb_leftmost_se (rq k2)\<rparr>\<rparr>"
      "\<forall>c. priority (ses k2 c) = priority (ses ?k1 c)" by blast
    have e: "wq k2 = wq k" "waitq k2 = waitq k" "lheads k2 = lheads k" "tasks k2 = tasks k"
      "runq k2 = runq k" "rqlock k2 = rqlock k"
      "priority_sum (rq k2) = priority_sum (rq k) - priority (ses k (se_of t))"
      by (subst k2(3), simp add: sub_priority_def)+
    let ?k' = "set_state t TASK_STOP k2"
    have "do { k2 \<leftarrow> rq_lock ?k1; k3 \<leftarrow> update_vruntime_runq (se_of t) k2;
         k4 \<leftarrow> dequeue_se (se_of t) k3; Some (set_state t TASK_STOP (rq_unlock k4)) } = Some ?k'"
      using k2(1) by (auto simp: bind_eq_Some_conv)
    then have run1: "dequeue_se_to_exit (se_of t) k = Some ?k'"
      using I(3) run by (simp add: dequeue_se_to_exit_def)
    have "sched_inv ?k' (remove1 (task_node t) xs) ws"
      unfolding sched_inv_def
    proof (intro conjI ballI)
      show "wq_holds ?k' ws" by (rule wq_holds_cong [OF I(2)]) (simp_all add: e)
      show "rq_holds ?k' (remove1 (task_node t) xs)" by (rule rq_holds_cong [OF k2(2)]) simp_all
      show "priority_sum (rq ?k') = sum_list (map (\<lambda>n. priority (ses ?k' (node_se n))) (remove1 (task_node t) xs))"
        using k2(4) I(7) sum_remove1 [OF True] by (simp add: e task_node_def sub_priority_def)
      show "tstate (tasks ?k' u) = TASK_WAITING" if "u \<in> set ws" for u
        using that I(6) tw by (auto simp: e)
      show "node_se n \<noteq> 0" if "n \<in> set (remove1 (task_node t) xs)" for n using that d I(5) by simp
      show "tstate (tasks ?k' (node_task n)) = TASK_RUNNING" if "n \<in> set (remove1 (task_node t) xs)" for n
        using that d I(5) by (auto simp: e)
    qed (use I(3,4) in \<open>simp_all add: e\<close>)
    then show ?thesis using run1 True by simp
  next
    case False
    then have tw: "t \<in> set ws" using t by simp
    have wt: "tstate (tasks k t) = TASK_WAITING" using I(6) tw by simp
    let ?k1 = "k\<lparr>rqlock := LOCKED\<rparr>"
    have "wq_holds ?k1 ws" by (rule wq_holds_cong [OF I(2)]) simp_all
    from remove_from_wq_ok [OF this, of t]
    obtain k2 where k2: "remove_from_wq t ?k1 = Some k2" "wq_holds k2 (after_wait t ws)"
      "k2 = ?k1\<lparr>lheads := lheads k2, waitq := waitq k2\<rparr>" by blast
    have e: "rbmem k2 = rbmem k" "ses k2 = ses k" "tasks k2 = tasks k" "runq k2 = runq k"
      "wq k2 = wq k" "rq k2 = rq k"
      by (subst k2(3), simp)+
    let ?k' = "set_state t TASK_STOP (rq_unlock k2)"
    have run1: "dequeue_se_to_exit (se_of t) k = Some ?k'"
      using I(3,4) wt k2(1) by (simp add: dequeue_se_to_exit_def rq_lock_def LOCKED_def UNLOCKED_def Let_def)
    have "sched_inv ?k' xs (after_wait t ws)"
      unfolding sched_inv_def
    proof (intro conjI ballI)
      show "wq_holds ?k' (after_wait t ws)" by (rule wq_holds_cong [OF k2(2)]) (simp_all add: rq_unlock_def)
      show "rq_holds ?k' xs" by (rule rq_holds_cong [OF I(1)]) (simp_all add: e rq_unlock_def)
      show "tstate (tasks ?k' u) = TASK_WAITING" if "u \<in> set (after_wait t ws)" for u
        using that I(6) set_after_wait [OF I(2), of t] by (auto simp: e rq_unlock_def)
      show "tstate (tasks ?k' (node_task n)) = TASK_RUNNING" if "n \<in> set xs" for n
        using that I(5) False by (auto simp: e rq_unlock_def)
    qed (use I(3-5,7) in \<open>simp_all add: e rq_unlock_def\<close>)
    then show ?thesis using run1 False by simp
  qed
qed

section \<open>Properties of the two queues\<close>

text \<open>C16. A running task that goes to sleep leaves the run queue and is first in the wait list; waking
  it up again brings it back to the run queue and leaves the wait list as it was. Both moves end, keep the
  invariant of the queues, and release their locks.\<close>

theorem sleep_wakeup_roundtrip:
  assumes "sched_inv k xs ws" and "task_node t \<in> set xs" and "queue_task k t"
  shows "\<exists>k1 k2 xs'. dequeue_se_to_wq (se_of t) k = Some k1
    \<and> sched_inv k1 (remove1 (task_node t) xs) (t # ws)
    \<and> enqueue_se_to_runq (se_of t) k1 = Some k2
    \<and> sched_inv k2 xs' ws \<and> mset xs' = mset xs"
proof -
  obtain k1 where k1: "dequeue_se_to_wq (se_of t) k = Some k1"
    "sched_inv k1 (remove1 (task_node t) xs) (t # ws)"
    "k1 = k\<lparr>ses := ses k1, rbmem := rbmem k1, rq := rq k1, lheads := lheads k1, waitq := waitq k1, tasks := tasks k1\<rparr>"
    using dequeue_se_to_wq_inv [OF assms] by blast
  have "wq k1 = wq k" by (subst k1(3)) simp
  then have q: "queue_task k1 t" using assms(3) by (simp add: queue_task_def)
  have "rq_holds k xs" using assms(1) by (simp add: sched_inv_def)
  then have nx: "task_node t \<notin> set (remove1 (task_node t) xs)" using rqueue.holds_distinct by simp
  obtain k2 ys zs where k2: "enqueue_se_to_runq (se_of t) k1 = Some k2"
    "remove1 (task_node t) xs = ys @ zs" "sched_inv k2 (ys @ task_node t # zs) (after_wait t (t # ws))"
    using enqueue_se_to_runq_inv [OF k1(2) nx q] by blast
  have "after_wait t (t # ws) = ws" by (simp add: after_wait_def)
  moreover have "mset (ys @ task_node t # zs) = mset xs"
  proof -
    have "mset (ys @ task_node t # zs) = add_mset (task_node t) (mset (ys @ zs))" by simp
    also have "\<dots> = mset xs" using assms(2) by (simp add: k2(2) [symmetric])
    finally show ?thesis .
  qed
  ultimately show ?thesis using k1(1,2) k2(1,3) by auto
qed

text \<open>Ending a task that is on either queue takes it off that queue, marks it stopped and keeps the
  invariant.\<close>

theorem exit_keeps_invariant:
  assumes "sched_inv k xs ws" and "task_node t \<in> set xs \<or> t \<in> set ws"
  shows "\<exists>k' xs' ws'. dequeue_se_to_exit (se_of t) k = Some k' \<and> sched_inv k' xs' ws'
    \<and> task_node t \<notin> set xs' \<and> t \<notin> set ws' \<and> tstate (tasks k' t) = TASK_STOP"
proof -
  have I: "rq_holds k xs" "wq_holds k ws" using assms(1) by (simp_all add: sched_inv_def)
  have d: "distinct xs" by (rule rqueue.holds_distinct [OF I(1)])
  obtain k' where k': "dequeue_se_to_exit (se_of t) k = Some k'"
    "sched_inv k' (if task_node t \<in> set xs then remove1 (task_node t) xs else xs)
       (if task_node t \<in> set xs then ws else after_wait t ws)" "tstate (tasks k' t) = TASK_STOP"
    using dequeue_se_to_exit_inv [OF assms] by blast
  have "t \<notin> set ws" if "task_node t \<in> set xs"
  proof
    assume "t \<in> set ws"
    then have "tstate (tasks k t) = TASK_WAITING" using assms(1) by (simp add: sched_inv_def)
    moreover have "tstate (tasks k t) = TASK_RUNNING" using assms(1) that by (fastforce simp: sched_inv_def)
    ultimately show False by simp
  qed
  then show ?thesis
    using k' d set_after_wait [OF I(2), of t]
    by (intro exI [of _ k'] exI [of _ "if task_node t \<in> set xs then remove1 (task_node t) xs else xs"]
        exI [of _ "if task_node t \<in> set xs then ws else after_wait t ws"]) auto
qed

lemma update_se_sorts:
  assumes "rq_holds k (l # m # ns)" and "sorted (map (vruntime_key k) (m # ns))"
  shows "\<exists>k' x xs. update_se el k = Some k' \<and> rq_holds k' (x # xs)
    \<and> mset (x # xs) = mset (l # m # ns) \<and> rb_leftmost_se (rq k') = x
    \<and> vruntime_key k' = vruntime_key k
    \<and> (\<forall>y \<in> set (x # xs). vruntime_key k x \<le> vruntime_key k y)"
proof -
  have l: "rb_leftmost_se (rq k) = l" "node_addr l"
    using cq_holds_nodes [OF assms(1) [unfolded rq_holds_def]] assms(1)
    by (auto simp: rq_holds_def cq_holds_def)
  have nx: "rb_next l (rq_rbs k) = Some m"
    using assms(1) rb_next_in_order [of "rq_rbs k" _ "[]" l "m # ns"]
    by (auto simp: rq_holds_def cq_holds_def)
  show ?thesis
  proof (cases "jiffies_vruntime (ses k (node_se m)) < jiffies_vruntime (ses k (node_se l))")
    case True
    have "sorted (map (vruntime_key k) (remove1 l (l # m # ns)))" using assms(2) by simp
    from rqueue.requeue_sorted [OF assms(1) _ l(2) this]
    obtain k1 k2 xs where r: "dequeue_se (node_se l) k = Some k1" "enqueue_se (node_se l) k1 = Some k2"
      "rq_holds k2 xs" "mset xs = mset (l # m # ns)" "vruntime_key k2 = vruntime_key k"
      "sorted (map (vruntime_key k) xs)" by auto
    obtain x xs' where xs: "xs = x # xs'" using r(4) by (cases xs) auto
    have "update_se el k = Some k2"
      using True l nx r(1,2) by (simp add: update_se_def)
    moreover have "rb_leftmost_se (rq k2) = x" using rqueue.front_hd [OF r(3)] xs by simp
    moreover have "\<forall>y \<in> set (x # xs'). vruntime_key k x \<le> vruntime_key k y" using r(6) xs by auto
    ultimately show ?thesis using r(3-5) xs by blast
  next
    case False
    then have le: "vruntime_key k l \<le> vruntime_key k m"
      by (simp add: vruntime_key_def not_less word_le_nat_alt)
    have "update_se el k = Some k" using False l nx by (simp add: update_se_def)
    moreover have "\<forall>y \<in> set (l # m # ns). vruntime_key k l \<le> vruntime_key k y"
      using le assms(2) by auto
    ultimately show ?thesis using assms(1) l(1) by blast
  qed
qed

text \<open>The periodic repair: when the rest of the queue is in order, \<open>update_se\<close> leaves the run
  queue in order, so that the entry the scheduler takes next has the least runtime.\<close>

theorem update_se_repairs:
  assumes "rq_holds k (l # m # ns)" and "sorted (map (vruntime_key k) (m # ns))"
  shows "\<exists>k' x xs. update_se el k = Some k' \<and> rq_holds k' (x # xs)
    \<and> mset (x # xs) = mset (l # m # ns) \<and> rb_leftmost_se (rq k') = x
    \<and> vruntime_key k' = vruntime_key k
    \<and> (\<forall>y \<in> set (x # xs). vruntime_key k x \<le> vruntime_key k y)"
  by (rule update_se_sorts [OF assms])

section \<open>Concrete instances\<close>

text \<open>A CPU with empty queues, one that has one task of each priority 1 and 4 queued, and the addresses
  of three tasks.\<close>

definition idle_cpu :: cpu where
  "idle_cpu = \<lparr>kmm = fresh_mms,
     tasks = (\<lambda>_. \<lparr>ct_sp = 0, ct_lr = 0, ct_pc = 0, ct_fpscr = 0, ct_fpexc = 0, entry = 0, targ = 0,
       tname = [], pid = 0, yield_task = 0, ttype = CFS_TASK, missed_cnt = 0, tstate = TASK_STOP,
       timeinterval = 0, done_flag = 0, preempted = 0\<rparr>),
     ses = (\<lambda>a. \<lparr>jiffies_vruntime = (if a = 0x10F8 then 7 else if a = 0x20F8 then 6 else 9),
       ticks_consumed = 0, jiffies_consumed = 0,
       priority = (if a = 0x10F8 then 1 else 4), pri_div_shift = (if a = 0x10F8 then 0 else 2)\<rparr>),
     lheads = zero_lh, rbmem = (\<lambda>_. \<lparr>parent_color = 0, rb_right = 0, rb_left = 0\<rparr>),
     timers = (\<lambda>_. \<lparr>tc = 0, intvl = 0, handler = NO_HANDLER, timer_pt = 0, timer_kind = SCHED_TIMER, timer_arg = 0\<rparr>),
     idle_task = 0x1000, current = 0x1000, last_task = 0x1000, first_task = 0x1000, task_created_num = 1,
     runq = 0x200, rq = \<lparr>rq_curr = 0, rq_next = 0, rq_last = 0, rq_root = 0, rb_leftmost_se = 0,
       priority_sum = 0, cfs_task_num = 0\<rparr>, rqlock = 0, jiffies = 0, sched_timer = 0, ptroot = 0x300,
     troot = \<lparr>tr_root = 0, tr_leftmost = 0\<rparr>, wq = 0x100,
     waitq = \<lparr>wq_magic = 1, wqlock = 0, wq_count = 0\<rparr>, qworker = 0x400,
     work = \<lparr>enq_idx = 0, deq_idx = 0, wtask = 0, wkq = (\<lambda>_. \<lparr>wfunc = 0, warg = 0\<rparr>)\<rparr>,
     oneshot_timer = 0x5000, oneshot_timer_idx = 0, next_pid = 2, ticks_per_sec = 0, dt_clkfreq = 0x10000000,
     cpuid = 0, irq_off = False, csd = 0, csd_tick = 0, csd_dev = 0,
     show_stat = 0, cfs_worker_num = 0, upt = (\<lambda>_. 0), regs = (\<lambda>_. 0), switched = []\<rparr>"

lemma idle_cpu_inv: "sched_inv idle_cpu [] []"
proof -
  have "rq_holds idle_cpu []"
    unfolding rq_holds_def by (rule cq_holds_empty) (simp_all add: rq_rbs_def idle_cpu_def)
  then show ?thesis
    by (simp add: sched_inv_def idle_cpu_def wq_holds_def Let_def UNLOCKED_def wq_list_head_def zero_lh_def)
qed

lemma idle_cpu_task: "queue_task idle_cpu 0x1000" "queue_task idle_cpu 0x2000" "queue_task idle_cpu 0x3000"
  by (simp_all add: queue_task_def node_addr_def task_node_def se_node_def se_of_def waitlist_def
      wq_list_head_def idle_cpu_def)

lemma one_running: "\<exists>k. enqueue_se_to_runq (se_of 0x1000) idle_cpu = Some k
  \<and> sched_inv k [task_node 0x1000] [] \<and> queue_task k 0x1000"
proof -
  obtain k ys zs where k: "enqueue_se_to_runq (se_of 0x1000) idle_cpu = Some k" "[] = ys @ zs"
    "sched_inv k (ys @ task_node 0x1000 # zs) (after_wait 0x1000 [])"
    "k = idle_cpu\<lparr>ses := ses k, rbmem := rbmem k, rq := rq k, lheads := lheads k, waitq := waitq k, tasks := tasks k\<rparr>"
    using enqueue_se_to_runq_inv [OF idle_cpu_inv _ idle_cpu_task(1)] by auto
  have "wq k = wq idle_cpu" by (subst k(4)) simp
  then show ?thesis using k idle_cpu_task(1) by (simp add: after_wait_def queue_task_def)
qed

theorem sleep_wakeup_roundtrip_witness:
  "\<exists>k k1 k2. sched_inv k [task_node 0x1000] [] \<and> dequeue_se_to_wq (se_of 0x1000) k = Some k1
     \<and> enqueue_se_to_runq (se_of 0x1000) k1 = Some k2 \<and> sched_inv k2 [task_node 0x1000] []"
proof -
  obtain k where k: "sched_inv k [task_node 0x1000] []" "queue_task k 0x1000" using one_running by blast
  then show ?thesis using sleep_wakeup_roundtrip [OF k(1) _ k(2)] by auto
qed

theorem exit_keeps_invariant_witness:
  "\<exists>k k' xs' ws'. sched_inv k [task_node 0x1000] [] \<and> dequeue_se_to_exit (se_of 0x1000) k = Some k'
     \<and> sched_inv k' xs' ws' \<and> task_node 0x1000 \<notin> set xs'"
proof -
  obtain k where k: "sched_inv k [task_node 0x1000] []" using one_running by blast
  then show ?thesis using exit_keeps_invariant [OF k, of "0x1000"] by auto
qed

text \<open>Two entries in memory: task 0x1000 (priority 1, runtime 7) is leftmost, task 0x2000 follows.\<close>

definition two_running :: cpu where
  "two_running = idle_cpu\<lparr>
     rq := (rq idle_cpu)\<lparr>rq_root := task_node 0x1000, rb_leftmost_se := task_node 0x1000\<rparr>,
     rbmem := (rbmem idle_cpu)
       (task_node 0x1000 := \<lparr>parent_color = 1, rb_right = task_node 0x2000, rb_left = 0\<rparr>,
        task_node 0x2000 := \<lparr>parent_color = task_node 0x1000, rb_right = 0, rb_left = 0\<rparr>)\<rparr>"

lemma two_running_holds: "rq_holds two_running [task_node 0x1000, task_node 0x2000]"
proof -
  let ?t = "Nd Lf (task_node 0x1000) Black (Nd Lf (task_node 0x2000) Red Lf)"
  have "rq_rbs two_running = \<lparr>nodes = (\<lambda>_. \<lparr>parent_color = 0, rb_right = 0, rb_left = 0\<rparr>)
      (task_node 0x1000 := \<lparr>parent_color = 1, rb_right = task_node 0x2000, rb_left = 0\<rparr>,
       task_node 0x2000 := \<lparr>parent_color = task_node 0x1000, rb_right = 0, rb_left = 0\<rparr>),
      root = task_node 0x1000\<rparr>"
    by (simp add: rq_rbs_def two_running_def idle_cpu_def)
  moreover have "rb_tree \<lparr>nodes = (\<lambda>_. \<lparr>parent_color = 0, rb_right = 0, rb_left = 0\<rparr>)
      (task_node 0x1000 := \<lparr>parent_color = 1, rb_right = task_node 0x2000, rb_left = 0\<rparr>,
       task_node 0x2000 := \<lparr>parent_color = task_node 0x1000, rb_right = 0, rb_left = 0\<rparr>),
      root = task_node 0x1000\<rparr> ?t" by code_simp
  ultimately have "rb_tree (rq_rbs two_running) ?t" by simp
  moreover have "rbt ?t" by code_simp
  ultimately show ?thesis
    unfolding rq_holds_def cq_holds_def
    by (intro exI [of _ ?t]) (simp add: two_running_def)
qed

lemma two_running_keys:
  "vruntime_key two_running (task_node 0x1000) = 7" "vruntime_key two_running (task_node 0x2000) = 6"
  "pri_ok (ses two_running (node_se (task_node 0x2000)))"
  "node_se (task_node 0x1000) \<noteq> 0" "node_se (task_node 0x2000) \<noteq> 0"
  by (simp_all add: vruntime_key_def task_node_def two_running_def idle_cpu_def se_of_def pri_ok_def)

theorem update_vruntime_window_witness:
  "\<exists>k'. update_vruntime_runq (se_of 0x2000) two_running = Some k'
     \<and> vruntime_key k' (task_node 0x2000) \<le> vruntime_key k' (task_node 0x1000)"
  using update_vruntime_window [OF two_running_holds, of "se_of 0x2000"] two_running_keys by auto

theorem update_se_repairs_witness:
  "\<exists>k'. update_se 0 two_running = Some k' \<and> rb_leftmost_se (rq k') = task_node 0x2000"
proof -
  obtain k' x xs where k': "update_se 0 two_running = Some k'"
    "mset (x # xs) = mset [task_node 0x1000, task_node 0x2000]" "rb_leftmost_se (rq k') = x"
    "\<forall>y \<in> set (x # xs). vruntime_key two_running x \<le> vruntime_key two_running y"
    using update_se_repairs [OF two_running_holds, of 0] by auto
  have s: "set (x # xs) = {task_node 0x1000, task_node 0x2000}"
    using k'(2) by (metis set_mset_mset list.simps(15) set_empty2 list.set(1))
  have "x \<noteq> task_node 0x1000" using k'(4) s two_running_keys by force
  then show ?thesis using k'(1,3) s by auto
qed

end
