(* ===== verification/KTimer.thy ===== *)
theory KTimer
  imports RunQ
begin

unbundle bit_operations_syntax

text \<open>
  The kernel timers (src/kernel/core/ktimer.c): a second cached red-black tree, keyed by the ticks left
  of each timer. The clock frequency the device tree generator defines is the field \<open>dt_clkfreq\<close>; the
  cached copy \<open>ticks_per_sec\<close> lives in timer.c.
\<close>

section \<open>Operations\<close>

definition MAX_ONESHOT_TIMER_NUM :: nat where "MAX_ONESHOT_TIMER_NUM = 32"

definition get_ticks_per_sec :: "cpu \<Rightarrow> u32 \<times> cpu" where
  "get_ticks_per_sec k =
     (let k1 = (if ticks_per_sec k = 0 then k\<lparr>ticks_per_sec := dt_clkfreq k\<rparr> else k)
      in (ticks_per_sec k1, k1))"

definition min_time_int :: "cpu \<Rightarrow> u32 \<times> cpu" where
  "min_time_int k = (let (t, k1) = get_ticks_per_sec k in (drop_bit 10 t, k1))"

definition tr_goleft :: "cpu \<Rightarrow> u32 \<Rightarrow> u32 \<Rightarrow> bool" where
  "tr_goleft k value n \<longleftrightarrow> value < tc (timers k (node_timer n))"

definition insert_timer :: "u32 \<Rightarrow> cpu \<Rightarrow> cpu option" where
  "insert_timer t k =
     do {
       (s, lm) \<leftarrow> cq_insert (tr_goleft k (tc (timers k t))) (timer_node t) (tr_rbs k) (tr_leftmost (troot k));
       Some (put_tr s lm k)
     }"

definition del_timer :: "u32 \<Rightarrow> cpu \<Rightarrow> cpu option" where
  "del_timer t k =
     do {
       (s, lm) \<leftarrow> cq_remove (timer_node t) (tr_rbs k) (tr_leftmost (troot k));
       Some (put_tr s lm k)
     }"

definition SIZEOF_timer_root :: u32 where "SIZEOF_timer_root = 8"
definition SIZEOF_clock_source :: u32 where "SIZEOF_clock_source = 12"

definition init_timertree :: "u32 \<Rightarrow> cpu \<Rightarrow> (ret \<times> cpu) option" where
  "init_timertree timer_dev k =
     (if timer_dev = 0 then Some (Neg EINVAL, k)
      else do {
        (a, k1) \<leftarrow> kalloc SIZEOF_timer_root k;
        (b, k2) \<leftarrow> kalloc SIZEOF_clock_source (k1\<lparr>ptroot := a\<rparr>);
        Some (NO_ERR, k2\<lparr>csd := b, csd_dev := timer_dev, troot := \<lparr>tr_root = 0, tr_leftmost = 0\<rparr>\<rparr>)
      })"

text \<open>\<open>temp = tc - elapsed\<close> in 32 bits, but at least the minimal interval.\<close>

definition tick_down :: "u32 \<Rightarrow> u32 \<Rightarrow> cpu \<Rightarrow> cpu" where
  "tick_down t elapsed k =
     (let temp = tc (timers k t) - elapsed;
          (m, k1) = min_time_int k
      in upd_timer t (\<lambda>x. x\<lparr>tc := (if temp < m then m else temp)\<rparr>) k1)"

definition tick_timer :: "u32 \<Rightarrow> u32 \<Rightarrow> cpu \<Rightarrow> cpu" where
  "tick_timer elapsed pcur k =
     (let pct = node_timer pcur in
      if pcur = tr_leftmost (troot k) \<and> done_flag (tasks k (timer_pt (timers k pct))) \<noteq> 0
      then upd_timer pct (\<lambda>x. x\<lparr>tc := intvl x\<rparr>) k
      else tick_down pct elapsed k)"

partial_function (option) update_timers_loop :: "u32 \<Rightarrow> u32 \<Rightarrow> cpu \<Rightarrow> cpu option" where
  "update_timers_loop elapsed pcur k =
     (if pcur = 0 then Some k
      else do {
        let k1 = tick_timer elapsed pcur k;
        n \<leftarrow> rb_next pcur (tr_rbs k1);
        update_timers_loop elapsed n k1
      })"

definition update_timer_tree :: "u32 \<Rightarrow> cpu \<Rightarrow> cpu option" where
  "update_timer_tree elapsed k =
     do {
       k1 \<leftarrow> update_timers_loop elapsed (tr_leftmost (troot k)) k;
       let pct = node_timer (tr_leftmost (troot k1));
       k2 \<leftarrow> del_timer pct k1;
       insert_timer pct k2
     }"

definition set_timer :: "u32 \<Rightarrow> u32 \<Rightarrow> timer_handler \<Rightarrow> timer_type \<Rightarrow> u32 \<Rightarrow> u32 \<Rightarrow> cpu \<Rightarrow> cpu" where
  "set_timer t pt h kind ticks arg k =
     k\<lparr>timers := (timers k)(t := \<lparr>tc = ticks, intvl = ticks, handler = h, timer_pt = pt,
        timer_kind = kind, timer_arg = arg\<rparr>)\<rparr>"

definition create_rt_timer :: "u32 \<Rightarrow> u32 \<Rightarrow> u32 \<Rightarrow> cpu \<Rightarrow> cpu option" where
  "create_rt_timer rt_task msec arg k =
     do {
       (t, k1) \<leftarrow> kalloc SIZEOF_timer_struct k;
       let (hz, k2) = get_ticks_per_sec k1;
       insert_timer t (set_timer t rt_task NO_HANDLER REALTIME_TIMER (hz div 1000 * msec) arg k2)
     }"

definition init_oneshot_timers :: "cpu \<Rightarrow> cpu option" where
  "init_oneshot_timers k =
     do {
       (a, k1) \<leftarrow> kalloc (SIZEOF_timer_struct * of_nat MAX_ONESHOT_TIMER_NUM) k;
       let k2 = k1\<lparr>oneshot_timer := a, oneshot_timer_idx := 0\<rparr>;
       Some (for_upto MAX_ONESHOT_TIMER_NUM
         (\<lambda>i. set_timer (a + SIZEOF_timer_struct * of_nat i) 0 NO_HANDLER ONESHOT_TIMER 0 0) k2)
     }"

definition create_oneshot_timer :: "u32 \<Rightarrow> u32 \<Rightarrow> u32 \<Rightarrow> cpu \<Rightarrow> cpu option" where
  "create_oneshot_timer oneshot_task ticks arg k =
     do {
       let t = oneshot_timer k + SIZEOF_timer_struct * oneshot_timer_idx k;
       k1 \<leftarrow> insert_timer t (set_timer t oneshot_task NO_HANDLER ONESHOT_TIMER ticks arg k);
       let idx = oneshot_timer_idx k1 + 1;
       Some (k1\<lparr>oneshot_timer_idx := (if idx = of_nat MAX_ONESHOT_TIMER_NUM then 0 else idx)\<rparr>)
     }"

definition create_sched_timer :: "u32 \<Rightarrow> u32 \<Rightarrow> u32 \<Rightarrow> cpu \<Rightarrow> cpu option" where
  "create_sched_timer cfs_sched_task msec arg k =
     do {
       (t, k1) \<leftarrow> kalloc SIZEOF_timer_struct k;
       let k2 = k1\<lparr>sched_timer := t\<rparr>;
       let k3 = (if tr_root (troot k2) = 0xffffffff then k2\<lparr>troot := (troot k2)\<lparr>tr_root := 0\<rparr>\<rparr> else k2);
       let (hz, k4) = get_ticks_per_sec k3;
       insert_timer t (set_timer t cfs_sched_task CFS_SCHEDULER SCHED_TIMER (hz div 1000 * msec) arg k4)
     }"

section \<open>The timer tree as an ordered queue\<close>

definition tr_holds :: "cpu \<Rightarrow> u32 list \<Rightarrow> bool" where
  "tr_holds k xs \<longleftrightarrow> cq_holds (tr_rbs k) (tr_leftmost (troot k)) xs"

definition tc_key :: "cpu \<Rightarrow> u32 \<Rightarrow> nat" where
  "tc_key k n = unat (tc (timers k (node_timer n)))"

lemma tr_rbs_nodes: "nodes (tr_rbs k) = rbmem k"
  by (simp add: tr_rbs_def)

lemma put_tr_simps [simp]:
  "tr_rbs (put_tr s lm k) = s" "tr_leftmost (troot (put_tr s lm k)) = lm"
  "timers (put_tr s lm k) = timers k" "tasks (put_tr s lm k) = tasks k"
  "ticks_per_sec (put_tr s lm k) = ticks_per_sec k" "dt_clkfreq (put_tr s lm k) = dt_clkfreq k"
  by (simp_all add: tr_rbs_def put_tr_def)

lemma tr_goleft_monotone:
  "sorted (map (tc_key k) xs) \<Longrightarrow> monotone_in (tr_goleft k v) xs"
  unfolding monotone_in_def sorted_map
  by (rule sorted_wrt_mono_rel) (auto simp: tr_goleft_def tc_key_def word_less_nat_alt)

lemma insert_timer_holds:
  assumes "tr_holds k xs" and "node_addr (timer_node t)" and "timer_node t \<notin> set xs"
  shows "\<exists>s lm ys zs. insert_timer t k = Some (put_tr s lm k) \<and> xs = ys @ zs
    \<and> tr_holds (put_tr s lm k) (ys @ timer_node t # zs)
    \<and> (\<forall>a. a \<notin> insert (timer_node t) (set xs) \<longrightarrow> nodes s a = rbmem k a)
    \<and> (sorted (map (tc_key k) xs) \<longrightarrow>
        (\<forall>a \<in> set ys. tc_key k a \<le> tc_key k (timer_node t))
      \<and> (\<forall>a \<in> set zs. tc_key k (timer_node t) < tc_key k a))"
proof -
  obtain s lm ys zs where I: "cq_insert (tr_goleft k (tc (timers k t))) (timer_node t)
      (tr_rbs k) (tr_leftmost (troot k)) = Some (s, lm)" "xs = ys @ zs"
    "cq_holds s lm (ys @ timer_node t # zs)" "same_off (insert (timer_node t) (set xs)) (tr_rbs k) s"
    "monotone_in (tr_goleft k (tc (timers k t))) xs \<longrightarrow>
       (\<forall>a \<in> set ys. \<not> tr_goleft k (tc (timers k t)) a) \<and> (\<forall>a \<in> set zs. tr_goleft k (tc (timers k t)) a)"
    using cq_insert_holds [of "tr_rbs k" "tr_leftmost (troot k)" xs "timer_node t"
        "tr_goleft k (tc (timers k t))"] assms by (auto simp: tr_holds_def)
  then show ?thesis
    using tr_goleft_monotone [of k xs]
    by (intro exI [of _ s] exI [of _ lm] exI [of _ ys] exI [of _ zs])
       (auto simp: insert_timer_def tr_holds_def tr_goleft_def tc_key_def word_less_nat_alt not_less
          same_off_def tr_rbs_nodes)
qed

lemma del_timer_holds:
  assumes "tr_holds k xs" and "timer_node t \<in> set xs"
  shows "\<exists>s lm. del_timer t k = Some (put_tr s lm k)
    \<and> tr_holds (put_tr s lm k) (remove1 (timer_node t) xs)
    \<and> (\<forall>a. a \<notin> set xs \<longrightarrow> nodes s a = rbmem k a)"
proof -
  obtain s lm where "cq_remove (timer_node t) (tr_rbs k) (tr_leftmost (troot k)) = Some (s, lm)"
    "cq_holds s lm (remove1 (timer_node t) xs)" "same_off (set xs) (tr_rbs k) s"
    using cq_remove_holds [of "tr_rbs k" "tr_leftmost (troot k)" xs "timer_node t"] assms
    by (auto simp: tr_holds_def)
  then show ?thesis
    by (intro exI [of _ s] exI [of _ lm]) (simp add: del_timer_def tr_holds_def same_off_def tr_rbs_nodes)
qed

interpretation tqueue: ordered_queue "\<lambda>n. insert_timer (node_timer n)" "\<lambda>n. del_timer (node_timer n)"
  tr_holds "\<lambda>k. tr_leftmost (troot k)" tc_key
proof unfold_locales
  fix k xs assume "tr_holds k xs"
  then show "distinct xs" "tr_leftmost (troot k) = hd0 xs"
    using cq_holds_nodes by (auto simp: tr_holds_def cq_holds_def)
next
  fix k xs x assume a: "tr_holds k xs" "node_addr x" "x \<notin> set xs"
  obtain s lm ys zs where E: "insert_timer (node_timer x) k = Some (put_tr s lm k)" "xs = ys @ zs"
    "tr_holds (put_tr s lm k) (ys @ x # zs)"
    "sorted (map (tc_key k) xs) \<longrightarrow> (\<forall>a \<in> set ys. tc_key k a \<le> tc_key k x)
      \<and> (\<forall>a \<in> set zs. tc_key k x < tc_key k a)"
    using insert_timer_holds [of k xs "node_timer x"] a by auto
  have "tc_key (put_tr s lm k) = tc_key k" by (simp add: fun_eq_iff tc_key_def)
  moreover have "sorted (map (tc_key k) xs) \<longrightarrow> sorted (map (tc_key k) (ys @ x # zs))"
    using E(2,4) sorted_insert_between [of "tc_key k" ys zs x] by (auto intro: less_imp_le)
  ultimately show "\<exists>s' ys zs. insert_timer (node_timer x) k = Some s' \<and> xs = ys @ zs
      \<and> tr_holds s' (ys @ x # zs) \<and> tc_key s' = tc_key k
      \<and> (sorted (map (tc_key k) xs) \<longrightarrow> sorted (map (tc_key k) (ys @ x # zs)))"
    using E(1-3) by blast
next
  fix k xs x assume "tr_holds k xs" "x \<in> set xs"
  then show "\<exists>s'. del_timer (node_timer x) k = Some s' \<and> tr_holds s' (remove1 x xs) \<and> tc_key s' = tc_key k"
    using del_timer_holds [of k xs "node_timer x"] by (auto simp: fun_eq_iff tc_key_def)
qed

section \<open>The update of the timer tree\<close>

text \<open>The minimal interval, whether or not the rate is cached yet, and the new count of a timer.\<close>

definition clock_rate :: "cpu \<Rightarrow> u32" where
  "clock_rate k = (if ticks_per_sec k = 0 then dt_clkfreq k else ticks_per_sec k)"

definition MIN_INT :: "cpu \<Rightarrow> u32" where "MIN_INT k = drop_bit 10 (clock_rate k)"

definition counted_down :: "cpu \<Rightarrow> u32 \<Rightarrow> u32 \<Rightarrow> u32" where
  "counted_down k elapsed t =
     (let temp = tc (timers k t) - elapsed in if temp < MIN_INT k then MIN_INT k else temp)"

definition new_tc :: "cpu \<Rightarrow> u32 \<Rightarrow> u32 \<Rightarrow> u32" where
  "new_tc k elapsed n =
     (if n = tr_leftmost (troot k) \<and> done_flag (tasks k (timer_pt (timers k (node_timer n)))) \<noteq> 0
      then intvl (timers k (node_timer n)) else counted_down k elapsed (node_timer n))"

text \<open>States that agree except for the timers and the cached rate: \<open>but_timers\<close> blanks those fields.\<close>

definition but_timers :: "cpu \<Rightarrow> cpu" where
  "but_timers k = k\<lparr>timers := (\<lambda>_. \<lparr>tc = 0, intvl = 0, handler = NO_HANDLER, timer_pt = 0,
     timer_kind = SCHED_TIMER, timer_arg = 0\<rparr>), ticks_per_sec := 0\<rparr>"

definition same_but_timers :: "cpu \<Rightarrow> cpu \<Rightarrow> bool" where
  "same_but_timers k k' \<longleftrightarrow> but_timers k' = but_timers k \<and> clock_rate k' = clock_rate k"

lemma but_timers_fields:
  "troot (but_timers k) = troot k" "tasks (but_timers k) = tasks k" "rbmem (but_timers k) = rbmem k"
  "rq (but_timers k) = rq k" "current (but_timers k) = current k" "ses (but_timers k) = ses k"
  "lheads (but_timers k) = lheads k" "wq (but_timers k) = wq k" "waitq (but_timers k) = waitq k"
  "runq (but_timers k) = runq k" "rqlock (but_timers k) = rqlock k" "idle_task (but_timers k) = idle_task k"
  "sched_timer (but_timers k) = sched_timer k"
  by (simp_all add: but_timers_def)

lemma same_but_timers_fields:
  assumes "same_but_timers k k'"
  shows "troot k' = troot k" "tasks k' = tasks k" "rbmem k' = rbmem k" "rq k' = rq k"
    "current k' = current k" "ses k' = ses k" "lheads k' = lheads k" "wq k' = wq k"
    "waitq k' = waitq k" "runq k' = runq k" "rqlock k' = rqlock k" "idle_task k' = idle_task k"
    "sched_timer k' = sched_timer k" "tr_rbs k' = tr_rbs k" "rq_rbs k' = rq_rbs k" "MIN_INT k' = MIN_INT k"
proof -
  have e: "but_timers k' = but_timers k" "clock_rate k' = clock_rate k"
    using assms by (simp_all add: same_but_timers_def)
  show f: "troot k' = troot k" "tasks k' = tasks k" "rbmem k' = rbmem k" "rq k' = rq k"
    "current k' = current k" "ses k' = ses k" "lheads k' = lheads k" "wq k' = wq k"
    "waitq k' = waitq k" "runq k' = runq k" "rqlock k' = rqlock k" "idle_task k' = idle_task k"
    "sched_timer k' = sched_timer k"
    by (metis e(1) but_timers_fields)+
  show "tr_rbs k' = tr_rbs k" "rq_rbs k' = rq_rbs k" "MIN_INT k' = MIN_INT k"
    using f e(2) by (simp_all add: tr_rbs_def rq_rbs_def MIN_INT_def)
qed

lemma same_but_timers_refl: "same_but_timers k k"
  by (simp add: same_but_timers_def)

lemma same_but_timers_trans:
  "same_but_timers k k1 \<Longrightarrow> same_but_timers k1 k2 \<Longrightarrow> same_but_timers k k2"
  by (simp add: same_but_timers_def)

lemma min_time_int_eq: "min_time_int k = (MIN_INT k, k\<lparr>ticks_per_sec := clock_rate k\<rparr>)"
  by (simp add: min_time_int_def get_ticks_per_sec_def MIN_INT_def clock_rate_def)

lemma tick_timer_step:
  "same_but_timers k (tick_timer el n k)"
  "timers (tick_timer el n k) = (timers k)(node_timer n := (timers k (node_timer n))\<lparr>tc := new_tc k el n\<rparr>)"
proof -
  let ?t = "node_timer n"
  have "same_but_timers k (tick_timer el n k) \<and> timers (tick_timer el n k)
      = (timers k)(?t := (timers k ?t)\<lparr>tc := new_tc k el n\<rparr>)"
  proof (cases "n = tr_leftmost (troot k) \<and> done_flag (tasks k (timer_pt (timers k ?t))) \<noteq> 0")
    case True
    then have "new_tc k el n = intvl (timers k ?t)" unfolding new_tc_def by (rule if_P)
    moreover have "tick_timer el n k = upd_timer ?t (\<lambda>x. x\<lparr>tc := intvl x\<rparr>) k"
      using True unfolding tick_timer_def Let_def by (rule if_P)
    ultimately have "tick_timer el n k = k\<lparr>timers := (timers k)(?t := (timers k ?t)\<lparr>tc := new_tc k el n\<rparr>)\<rparr>"
      by (simp add: upd_timer_def)
    then show ?thesis by (simp add: same_but_timers_def but_timers_def clock_rate_def)
  next
    case False
    then have "new_tc k el n = counted_down k el ?t" unfolding new_tc_def by (rule if_not_P)
    moreover have "tick_timer el n k = tick_down ?t el k"
      using False unfolding tick_timer_def Let_def by (rule if_not_P)
    moreover have "tick_down ?t el k = k\<lparr>ticks_per_sec := clock_rate k,
        timers := (timers k)(?t := (timers k ?t)\<lparr>tc := counted_down k el ?t\<rparr>)\<rparr>"
      by (simp add: tick_down_def min_time_int_eq upd_timer_def counted_down_def Let_def)
    ultimately show ?thesis by (simp add: same_but_timers_def but_timers_def clock_rate_def)
  qed
  then show "same_but_timers k (tick_timer el n k)" and "timers (tick_timer el n k)
      = (timers k)(?t := (timers k ?t)\<lparr>tc := new_tc k el n\<rparr>)" by simp_all
qed

lemma update_timers_loop_runs:
  assumes "cq_holds (tr_rbs k) lm (xs @ ys)"
  shows "\<exists>k'. update_timers_loop el (hd0 ys) k = Some k' \<and> same_but_timers k k'
    \<and> (\<forall>t. timers k' t = (if t \<in> node_timer ` set ys then (timers k t)\<lparr>tc := new_tc k el (timer_node t)\<rparr>
          else timers k t))"
  using assms
proof (induction ys arbitrary: xs k)
  case Nil
  then show ?case by (intro exI [of _ k]) (simp add: update_timers_loop.simps same_but_timers_refl)
next
  case (Cons n ys)
  let ?k = "tick_timer el n k"
  note st = tick_timer_step [where el = el and n = n and k = k]
  note F = same_but_timers_fields [OF st(1)]
  have n0: "n \<noteq> 0" and d: "distinct (n # ys)" using cq_holds_nodes [OF Cons.prems] by auto
  have nx: "rb_next n (tr_rbs ?k) = Some (hd0 ys)"
    unfolding F using Cons.prems rb_next_in_order [of "tr_rbs k" _ xs n ys] by (auto simp: cq_holds_def)
  have "cq_holds (tr_rbs ?k) lm ((xs @ [n]) @ ys)" using Cons.prems F by simp
  from Cons.IH [OF this] obtain k' where k': "update_timers_loop el (hd0 ys) ?k = Some k'"
    "same_but_timers ?k k'"
    "\<forall>t. timers k' t = (if t \<in> node_timer ` set ys then (timers ?k t)\<lparr>tc := new_tc ?k el (timer_node t)\<rparr>
          else timers ?k t)" by blast
  have run: "update_timers_loop el (hd0 (n # ys)) k = Some k'"
    using n0 nx k'(1) by (subst update_timers_loop.simps) simp
  have nd: "node_timer n \<notin> node_timer ` set ys" using d by (auto simp: node_timer_def)
  have nc: "new_tc ?k el (timer_node t) = new_tc k el (timer_node t)" if "t \<noteq> node_timer n" for t
    using that F by (simp add: new_tc_def counted_down_def st(2) Let_def)
  have "timers k' t = (if t \<in> node_timer ` set (n # ys) then (timers k t)\<lparr>tc := new_tc k el (timer_node t)\<rparr>
          else timers k t)" for t
    using nd nc [of t] by (cases "t = node_timer n") (auto simp: k'(3) st(2))
  then show ?case using run same_but_timers_trans [OF st(1) k'(2)] by blast
qed

lemma counted_down_mono:
  assumes "el \<le> tc (timers k a)" and "tc (timers k a) \<le> tc (timers k b)"
  shows "counted_down k el a \<le> counted_down k el b"
proof -
  have "tc (timers k a) - el \<le> tc (timers k b) - el"
    using assms by (simp add: word_le_nat_alt unat_sub)
  then show ?thesis by (auto simp: counted_down_def Let_def)
qed

lemma MIN_INT_le: "MIN_INT k \<le> counted_down k el t"
  by (auto simp: counted_down_def Let_def not_less)

lemma update_timer_tree_runs:
  assumes q: "tr_holds k (l # ns)" and so: "sorted (map (tc_key k) (l # ns))"
    and el: "el \<le> tc (timers k (node_timer l))"
  shows "\<exists>k' xs. update_timer_tree el k = Some k' \<and> tr_holds k' xs \<and> mset xs = mset (l # ns)
    \<and> sorted (map (tc_key k') xs)
    \<and> (\<forall>t. timers k' t = (if t \<in> node_timer ` set (l # ns) then (timers k t)\<lparr>tc := new_tc k el (timer_node t)\<rparr>
          else timers k t))
    \<and> (\<exists>k1. same_but_timers k k1 \<and> k' = k1\<lparr>rbmem := rbmem k', troot := troot k'\<rparr>)
    \<and> (\<forall>a. a \<notin> set (l # ns) \<longrightarrow> rbmem k' a = rbmem k a)"
proof -
  have lm: "tr_leftmost (troot k) = l" and na: "node_addr l" and d: "distinct (l # ns)"
    using tqueue.front_hd [OF q] cq_holds_nodes [OF q [unfolded tr_holds_def]] by auto
  have "cq_holds (tr_rbs k) (tr_leftmost (troot k)) ([] @ l # ns)" using q by (simp add: tr_holds_def)
  from update_timers_loop_runs [OF this, of el]
  obtain k1 where k1: "update_timers_loop el l k = Some k1" "same_but_timers k k1"
    "\<forall>t. timers k1 t = (if t \<in> node_timer ` set (l # ns) then (timers k t)\<lparr>tc := new_tc k el (timer_node t)\<rparr>
          else timers k t)" by auto
  note F = same_but_timers_fields [OF k1(2)]
  have q1: "tr_holds k1 (l # ns)" using q F by (simp add: tr_holds_def)
  have key1: "tc_key k1 n = unat (counted_down k el (node_timer n))" if "n \<in> set ns" for n
  proof -
    have "node_timer n \<in> node_timer ` set (l # ns)" "n \<noteq> l" using that d by auto
    then show ?thesis using k1(3) lm by (simp add: tc_key_def new_tc_def)
  qed
  have "sorted (map (tc_key k1) ns)"
    unfolding sorted_map
  proof (rule sorted_wrt_mono_rel [OF _ so [simplified, THEN conjunct2, unfolded sorted_map]])
    fix a b assume ab: "a \<in> set ns" "b \<in> set ns" "tc_key k a \<le> tc_key k b"
    have "el \<le> tc (timers k (node_timer a))"
      using so ab(1) el by (auto simp: tc_key_def word_le_nat_alt)
    then show "tc_key k1 a \<le> tc_key k1 b"
      unfolding key1 [OF ab(1)] key1 [OF ab(2)]
      using counted_down_mono [of el k "node_timer a" "node_timer b"] ab(3)
      by (simp add: tc_key_def word_le_nat_alt)
  qed
  then have so1: "sorted (map (tc_key k1) ns)" by simp
  obtain s2 lm2 where d2: "del_timer (node_timer l) k1 = Some (put_tr s2 lm2 k1)"
    "tr_holds (put_tr s2 lm2 k1) ns" "\<forall>a. a \<notin> set (l # ns) \<longrightarrow> nodes s2 a = rbmem k1 a"
    using del_timer_holds [OF q1, of "node_timer l"] by auto
  have "tc_key (put_tr s2 lm2 k1) = tc_key k1" by (simp add: fun_eq_iff tc_key_def)
  then obtain s3 lm3 ys zs where i3: "insert_timer (node_timer l) (put_tr s2 lm2 k1)
      = Some (put_tr s3 lm3 (put_tr s2 lm2 k1))" "ns = ys @ zs"
    "tr_holds (put_tr s3 lm3 (put_tr s2 lm2 k1)) (ys @ l # zs)"
    "\<forall>a. a \<notin> insert l (set ns) \<longrightarrow> nodes s3 a = rbmem (put_tr s2 lm2 k1) a"
    "(\<forall>a \<in> set ys. tc_key k1 a \<le> tc_key k1 l) \<and> (\<forall>a \<in> set zs. tc_key k1 l < tc_key k1 a)"
    using insert_timer_holds [OF d2(2), of "node_timer l"] na d so1 by auto
  define k' where "k' = put_tr s3 lm3 (put_tr s2 lm2 k1)"
  have k'1: "k' = k1\<lparr>rbmem := rbmem k', troot := troot k'\<rparr>" by (simp add: k'_def put_tr_def)
  have fr: "\<forall>a. a \<notin> set (l # ns) \<longrightarrow> rbmem k' a = rbmem k a"
    using d2(3) i3(4) F by (simp add: k'_def put_tr_def)
  have "mset (ys @ l # zs) = mset (l # ns)" using i3(2) by simp
  moreover have "sorted (map (tc_key k') (ys @ l # zs))"
  proof -
    have "tc_key k' = tc_key k1" by (simp add: k'_def fun_eq_iff tc_key_def)
    then show ?thesis using sorted_insert_between [of "tc_key k1" ys zs l] so1 i3(2,5) by (auto intro: less_imp_le)
  qed
  moreover have "tr_holds k' (ys @ l # zs)" using i3(3) by (simp add: k'_def)
  moreover   have "timers k' = timers k1" by (subst k'1) simp
  moreover have "update_timer_tree el k = Some k'"
    using k1(1) lm d2(1) i3(1) F by (simp add: update_timer_tree_def k'_def)
  ultimately show ?thesis using k1(2,3) k'1 fr by (intro exI [of _ k'] exI [of _ "ys @ l # zs"]) auto
qed

section \<open>Properties\<close>

text \<open>C18. When no more ticks have elapsed than the next timer had left, the update of the timer tree
  ends, keeps every timer, sets each count to what its rule says (the period for a finished leftmost
  timer, else the remaining ticks but at least the minimal interval), and leaves the tree in order: its
  nodes from left to right have ascending counts, so that the timer programmed next has the least one.\<close>

theorem update_timer_tree_ordered:
  assumes "tr_holds k (l # ns)" and "sorted (map (tc_key k) (l # ns))"
    and "el \<le> tc (timers k (node_timer l))"
  shows "\<exists>k' x xs. update_timer_tree el k = Some k' \<and> tr_holds k' (x # xs)
    \<and> mset (x # xs) = mset (l # ns) \<and> sorted (map (tc_key k') (x # xs))
    \<and> (\<forall>n \<in> set (l # ns). tc (timers k' (node_timer n)) = new_tc k el n)
    \<and> tr_leftmost (troot k') = x \<and> (\<forall>n \<in> set (l # ns). tc_key k' x \<le> tc_key k' n)"
proof -
  obtain k' xs where k': "update_timer_tree el k = Some k'" "tr_holds k' xs" "mset xs = mset (l # ns)"
    "sorted (map (tc_key k') xs)"
    "\<forall>t. timers k' t = (if t \<in> node_timer ` set (l # ns) then (timers k t)\<lparr>tc := new_tc k el (timer_node t)\<rparr>
          else timers k t)"
    using update_timer_tree_runs [OF assms] by blast
  obtain x xs' where xs: "xs = x # xs'" using k'(3) by (cases xs) auto
  have s: "set xs = set (l # ns)" using k'(3) by (metis set_mset_mset)
  have "tc (timers k' (node_timer n)) = new_tc k el n" if "n \<in> set (l # ns)" for n
  proof -
    have "node_timer n \<in> node_timer ` set (l # ns)" using that by blast
    then show ?thesis using k'(5) by simp
  qed
  moreover have "tr_leftmost (troot k') = x" using tqueue.front_hd [OF k'(2)] xs by simp
  moreover have "tc_key k' x \<le> tc_key k' n" if "n \<in> set (l # ns)" for n
  proof -
    have "n \<in> set (x # xs')" using that s xs by simp
    then show ?thesis using k'(4) xs by auto
  qed
  ultimately show ?thesis using k'(1-4) xs by blast
qed

text \<open>One timer in memory, for a concrete instance.\<close>

definition one_timer :: cpu where
  "one_timer = idle_cpu\<lparr>troot := \<lparr>tr_root = timer_node 0x3000, tr_leftmost = timer_node 0x3000\<rparr>,
     rbmem := (rbmem idle_cpu)(timer_node 0x3000 := \<lparr>parent_color = 1, rb_right = 0, rb_left = 0\<rparr>),
     timers := (timers idle_cpu)(0x3000 := \<lparr>tc = 500, intvl = 1000, handler = CFS_SCHEDULER,
       timer_pt = 0x1000, timer_kind = SCHED_TIMER, timer_arg = 0\<rparr>)\<rparr>"

lemma one_timer_holds: "tr_holds one_timer [timer_node 0x3000]"
proof -
  let ?t = "Nd Lf (timer_node 0x3000) Black Lf"
  have "tr_rbs one_timer = \<lparr>nodes = (\<lambda>_. \<lparr>parent_color = 0, rb_right = 0, rb_left = 0\<rparr>)
      (timer_node 0x3000 := \<lparr>parent_color = 1, rb_right = 0, rb_left = 0\<rparr>), root = timer_node 0x3000\<rparr>"
    by (simp add: tr_rbs_def one_timer_def idle_cpu_def)
  moreover have "rb_tree \<lparr>nodes = (\<lambda>_. \<lparr>parent_color = 0, rb_right = 0, rb_left = 0\<rparr>)
      (timer_node 0x3000 := \<lparr>parent_color = 1, rb_right = 0, rb_left = 0\<rparr>), root = timer_node 0x3000\<rparr> ?t"
    by code_simp
  ultimately have "rb_tree (tr_rbs one_timer) ?t" by simp
  moreover have "rbt ?t" by code_simp
  ultimately show ?thesis
    unfolding tr_holds_def cq_holds_def by (intro exI [of _ ?t]) (simp add: one_timer_def)
qed

theorem update_timer_tree_ordered_witness:
  "\<exists>k'. update_timer_tree 500 one_timer = Some k' \<and> tc (timers k' 0x3000) = 0x40000
     \<and> tr_holds k' [timer_node 0x3000]"
proof -
  have "new_tc one_timer 500 (timer_node 0x3000) = 0x40000"
    by (simp add: new_tc_def one_timer_def idle_cpu_def counted_down_def MIN_INT_def clock_rate_def)
  then show ?thesis
    using update_timer_tree_ordered [OF one_timer_holds, of 500] by (auto simp: one_timer_def)
qed

end
