(* ===== verification/Sched.thy ===== *)
theory Sched
  imports KTimer
begin

unbundle bit_operations_syntax

text \<open>
  Scheduling, context switch, yield and fork (src/kernel/core/sched.c). A context
  switch is recorded in \<open>switched\<close> as the pair of the tasks it was called with; what it does to the
  registers is in Context. The value of the link register that \<open>forkyi\<close> stores is an argument.
\<close>

section \<open>Constants\<close>

definition CFS_PRI_NUM :: nat where "CFS_PRI_NUM = 5"
definition SVC_STACK_BASE :: u32 where "SVC_STACK_BASE = 0x314FFC"
definition SYS_STACK_BASE :: u32 where "SYS_STACK_BASE = 0x304FFC"
definition SEC_SVC_STACK_BASE :: u32 where "SEC_SVC_STACK_BASE = 0x354FFC"
definition SEC_SYS_STACK_BASE :: u32 where "SEC_SYS_STACK_BASE = 0x344FFC"
definition TASK_STACK_GAP :: u32 where "TASK_STACK_GAP = 0x1000"
definition MAX_TASK :: u32 where "MAX_TASK = (SVC_STACK_BASE - SYS_STACK_BASE) div TASK_STACK_GAP"
definition TASK_NAME_LEN :: nat where "TASK_NAME_LEN = 32"

section \<open>Operations\<close>

definition init_jiffies :: "cpu \<Rightarrow> cpu" where "init_jiffies k = k\<lparr>jiffies := 0\<rparr>"

definition init_cfs_scheduler :: "cpu \<Rightarrow> cpu option" where
  "init_cfs_scheduler k =
     do { k1 \<leftarrow> create_sched_timer (current k) 10 0 k; Some (init_jiffies k1) }"

datatype stat_line =
    CfsStat string u32 task_state u32 u32 u32
  | RtStat string u32 task_state u32 u32

definition stat_of :: "cpu \<Rightarrow> u32 \<Rightarrow> stat_line list" where
  "stat_of k p =
     (let t = tasks k p; s = ses k (se_of p) in
      case ttype t of
        CFS_TASK \<Rightarrow> [CfsStat (tname t) (pid t) (tstate t) (priority s) (jiffies_vruntime s) (jiffies_consumed s)]
      | RT_TASK \<Rightarrow> [RtStat (tname t) (pid t) (tstate t) (timeinterval t) (missed_cnt t)]
      | ONESHOT_TASK \<Rightarrow> [])"

text \<open>The \<open>do ... while (pcur != this_first)\<close> loop, with the lines it prints.\<close>

partial_function (option) stat_loop :: "cpu \<Rightarrow> u32 \<Rightarrow> stat_line list \<Rightarrow> stat_line list option" where
  "stat_loop k next_lh out =
     (let pcur = lh_task next_lh in
      if pcur = 0 then Some out
      else
        (let next_lh' = lnext (lheads k next_lh) in
         if lh_task next_lh' \<noteq> first_task k then stat_loop k next_lh' (out @ stat_of k pcur)
         else Some (out @ stat_of k pcur)))"

definition print_task_stat :: "cpu \<Rightarrow> stat_line list option" where
  "print_task_stat k = stat_loop k (task_lh (first_task k)) []"

definition switch_context :: "u32 \<Rightarrow> u32 \<Rightarrow> cpu \<Rightarrow> cpu" where
  "switch_context prev nxt k = k\<lparr>switched := switched k @ [(prev, nxt)]\<rparr>"

definition schedule :: "cpu \<Rightarrow> cpu" where
  "schedule k =
     (let se = node_se (rb_leftmost_se (rq k));
          nxt = task_of_se se
      in if current k = nxt then k
         else (switch_context (current k) nxt k)\<lparr>current := nxt\<rparr>)"

definition cfs_scheduler :: "u32 \<Rightarrow> cpu \<Rightarrow> cpu option" where
  "cfs_scheduler elapsed k = do { k1 \<leftarrow> update_se elapsed k; Some (schedule k1) }"

text \<open>The search for the shift of a priority, \<open>None\<close> when the loop runs to \<open>CFS_PRI_NUM\<close>.\<close>

definition pri_shift :: "u32 \<Rightarrow> nat option" where
  "pri_shift pri = List.find (\<lambda>i. pri = push_bit i 1) [0..<CFS_PRI_NUM]"

text \<open>\<open>forkyi\<close> in three parts: the task, its context, and its place in the task list. Names that do not
  fit the array make the copy loop write past it.\<close>

definition fork_task :: "string \<Rightarrow> u32 \<Rightarrow> TASKTYPE \<Rightarrow> u32 \<Rightarrow> nat \<Rightarrow> u32 \<Rightarrow> cpu \<Rightarrow> cpu" where
  "fork_task name fn type pri shift pt k =
     (let k1 = upd_task pt (\<lambda>t. t\<lparr>pid := next_pid k, entry := fn, ttype := type, missed_cnt := 0,
                 tname := name\<rparr>) (k\<lparr>next_pid := next_pid k + 1\<rparr>);
          k2 = (if type = CFS_TASK
                then upd_se (se_of pt) (\<lambda>s. s\<lparr>pri_div_shift := of_nat shift, priority := pri\<rparr>) k1 else k1);
          k3 = upd_se (se_of pt) (\<lambda>s. s\<lparr>ticks_consumed := 0, jiffies_vruntime := 0, jiffies_consumed := 0\<rparr>) k2
      in upd_task pt (\<lambda>t. t\<lparr>yield_task := current k, preempted := 0, done_flag := 1\<rparr>) k3)"

definition fork_context :: "u32 \<Rightarrow> u32 \<Rightarrow> cpu \<Rightarrow> cpu" where
  "fork_context lr pt k =
     (let k1 = k\<lparr>task_created_num := task_created_num k + 1\<rparr>;
          base = (if cpuid k1 = 0 then SVC_STACK_BASE else SEC_SVC_STACK_BASE)
      in upd_task pt (\<lambda>t. t\<lparr>ct_sp := base - TASK_STACK_GAP * task_created_num k1, ct_lr := lr,
           ct_pc := entry t, ct_fpscr := 0x0, ct_fpexc := 0x40000000\<rparr>) k1)"

definition fork_link :: "u32 \<Rightarrow> cpu \<Rightarrow> cpu" where
  "fork_link pt k =
     (let k1 = set_next (task_lh (last_task k)) (task_lh pt) k;
          k2 = set_prev (task_lh pt) (task_lh (last_task k)) k1;
          k3 = set_next (task_lh pt) (task_lh (first_task k)) k2;
          k4 = set_prev (task_lh (first_task k)) (task_lh pt) k3
      in k4\<lparr>last_task := pt\<rparr>)"

definition forkyi :: "string \<Rightarrow> u32 \<Rightarrow> TASKTYPE \<Rightarrow> u32 \<Rightarrow> u32 \<Rightarrow> cpu \<Rightarrow> (u32 \<times> cpu) option" where
  "forkyi name fn type pri lr k =
     (let shift = (if type = CFS_TASK then pri_shift pri else Some 0) in
      if shift = None then Some (0, k)
      else if task_created_num k = MAX_TASK then Some (0, k)
      else do {
        (pt, k1) \<leftarrow> kalloc SIZEOF_task_struct k;
        if TASK_NAME_LEN \<le> length name then None
        else Some (pt, fork_link pt (fork_context lr pt (fork_task name fn type pri (the shift) pt k1)))
      })"

definition yieldyi :: "cpu \<Rightarrow> cpu" where
  "yieldyi k =
     (let y = yield_task (tasks k (current k)) in
      if y = 0 then k
      else
        (let temp = current k;
             nxt = (if tstate (tasks k y) = TASK_RUNNING then y else idle_task k);
             k1 = k\<lparr>irq_off := True, current := nxt\<rparr>
         in (switch_context temp nxt k1)\<lparr>irq_off := False\<rparr>))"

definition update_current :: "u32 \<Rightarrow> cpu \<Rightarrow> cpu" where
  "update_current elapsed k =
     (let c = current k; s = se_of c in
      if ttype (tasks k c) = CFS_TASK then
        (let k1 = k\<lparr>jiffies := jiffies k + 1\<rparr>;
             k2 = upd_se s (\<lambda>x. x\<lparr>jiffies_consumed := jiffies_consumed x + 1\<rparr>) k1;
             k3 = upd_se s (\<lambda>x. x\<lparr>ticks_consumed := ticks_consumed x + ucast elapsed\<rparr>) k2
         in upd_se s (\<lambda>x. x\<lparr>jiffies_vruntime := jiffies_consumed x * priority x\<rparr>) k3)
      else if ttype (tasks k c) = RT_TASK then
        upd_se s (\<lambda>x. x\<lparr>ticks_consumed := ticks_consumed x + ucast elapsed\<rparr>) k
      else k)"

section \<open>Scheduling takes the least runtime\<close>

lemma schedule_current: "current (schedule k) = node_task (rb_leftmost_se (rq k))"
  by (simp add: schedule_def switch_context_def Let_def node_task_def)

lemma schedule_frame:
  "rq (schedule k) = rq k" "rbmem (schedule k) = rbmem k" "ses (schedule k) = ses k"
  "tasks (schedule k) = tasks k" "rq_rbs (schedule k) = rq_rbs k"
  by (simp_all add: schedule_def switch_context_def Let_def rq_rbs_def)

text \<open>When every entry but possibly the leftmost is in order, the periodic scheduler puts the leftmost
  entry back in place and makes a task with the least virtual runtime the current one; the queue keeps
  its entries.\<close>

theorem cfs_scheduler_least:
  assumes "rq_holds k (l # m # ns)" and "sorted (map (vruntime_key k) (m # ns))"
  shows "\<exists>k' xs. cfs_scheduler el k = Some k' \<and> rq_holds k' xs \<and> mset xs = mset (l # m # ns)
    \<and> task_node (current k') \<in> set xs
    \<and> (\<forall>y \<in> set xs. vruntime_key k' (task_node (current k')) \<le> vruntime_key k' y)"
proof -
  obtain k1 x xs where k1: "update_se el k = Some k1" "rq_holds k1 (x # xs)"
    "mset (x # xs) = mset (l # m # ns)" "rb_leftmost_se (rq k1) = x" "vruntime_key k1 = vruntime_key k"
    "\<forall>y \<in> set (x # xs). vruntime_key k x \<le> vruntime_key k y"
    using update_se_sorts [OF assms] by blast
  have "cfs_scheduler el k = Some (schedule k1)" using k1(1) by (simp add: cfs_scheduler_def)
  moreover have "rq_holds (schedule k1) (x # xs)" using k1(2) by (simp add: rq_holds_def schedule_frame)
  moreover have "vruntime_key (schedule k1) = vruntime_key k"
    using k1(5) by (simp add: fun_eq_iff vruntime_key_def schedule_frame)
  moreover have "task_node (current (schedule k1)) = x" using k1(4) by (simp add: schedule_current)
  ultimately show ?thesis using k1(3,6) by (intro exI [of _ "schedule k1"] exI [of _ "x # xs"]) simp
qed

theorem cfs_scheduler_least_witness:
  "\<exists>k' xs. cfs_scheduler 0 two_running = Some k'
     \<and> mset xs = mset [task_node 0x1000, task_node 0x2000] \<and> task_node (current k') \<in> set xs"
  using cfs_scheduler_least [OF two_running_holds, of 0] by auto

section \<open>The ring of tasks\<close>

text \<open>The tasks \<open>ts\<close> linked through their list heads, from \<open>first\<close> to \<open>last\<close>; with more than one task
  the last one leads back to the first.\<close>

fun tchain :: "(u32 \<Rightarrow> list_head) \<Rightarrow> u32 list \<Rightarrow> bool" where
  "tchain m (t # u # ts) \<longleftrightarrow>
     lnext (m (task_lh t)) = task_lh u \<and> lprev (m (task_lh u)) = task_lh t \<and> tchain m (u # ts)"
| "tchain m _ \<longleftrightarrow> True"

definition task_ring :: "cpu \<Rightarrow> u32 list \<Rightarrow> bool" where
  "task_ring k ts \<longleftrightarrow>
     ts \<noteq> [] \<and> distinct ts \<and> 0 \<notin> set ts \<and> first_task k = hd ts \<and> last_task k = last ts
   \<and> tchain (lheads k) ts
   \<and> (1 < length ts \<longrightarrow> lnext (lheads k (task_lh (last ts))) = task_lh (hd ts)
       \<and> lprev (lheads k (task_lh (hd ts))) = task_lh (last ts))"

lemma task_lh_eq [simp]: "task_lh p = task_lh q \<longleftrightarrow> p = q"
  by (simp add: task_lh_def)

lemma tchain_cong:
  "(\<And>t. t \<in> set (butlast ts) \<Longrightarrow> lnext (m' (task_lh t)) = lnext (m (task_lh t))) \<Longrightarrow>
   (\<And>t. t \<in> set (tl ts) \<Longrightarrow> lprev (m' (task_lh t)) = lprev (m (task_lh t))) \<Longrightarrow>
   tchain m ts \<Longrightarrow> tchain m' ts"
  by (induction m ts rule: tchain.induct) auto

lemma tchain_snoc:
  "ts \<noteq> [] \<Longrightarrow> tchain m (ts @ [t]) \<longleftrightarrow>
     tchain m ts \<and> lnext (m (task_lh (last ts))) = task_lh t \<and> lprev (m (task_lh t)) = task_lh (last ts)"
  by (induction m ts rule: tchain.induct) auto

lemma fork_link_lheads:
  "lheads (fork_link pt k) =
     (let m1 = (lheads k)(task_lh (last_task k) := (lheads k (task_lh (last_task k)))\<lparr>lnext := task_lh pt\<rparr>);
          m2 = m1(task_lh pt := (m1 (task_lh pt))\<lparr>lprev := task_lh (last_task k), lnext := task_lh (first_task k)\<rparr>)
      in m2(task_lh (first_task k) := (m2 (task_lh (first_task k)))\<lparr>lprev := task_lh pt\<rparr>))"
  by (simp add: fork_link_def set_next_def set_prev_def Let_def)

lemma fork_link_ring:
  assumes r: "task_ring k ts" and pt: "pt \<notin> set ts" "pt \<noteq> 0"
  shows "task_ring (fork_link pt k) (ts @ [pt])"
proof -
  have R: "ts \<noteq> []" "distinct ts" "first_task k = hd ts" "last_task k = last ts" "tchain (lheads k) ts"
    using r by (simp_all add: task_ring_def)
  have in_ts: "hd ts \<in> set ts" "last ts \<in> set ts" using R(1) by simp_all
  then have ne: "hd ts \<noteq> pt" "last ts \<noteq> pt" using pt by auto
  have nl: "t \<noteq> last ts" if "t \<in> set (butlast ts)" for t
    using that R(1,2) by (metis append_butlast_last_id distinct_append disjoint_iff list.set_intros(1))
  have nh: "t \<noteq> hd ts" if "t \<in> set (tl ts)" for t
    using that R(1,2) by (cases ts) auto
  have sub: "t \<noteq> pt" if "t \<in> set (butlast ts) \<or> t \<in> set (tl ts)" for t
    using that pt(1) by (auto dest: in_set_butlastD list.set_sel(2) [OF R(1)])
  have "tchain (lheads (fork_link pt k)) ts"
    by (rule tchain_cong [OF _ _ R(5)])
       (use nl nh sub ne in \<open>auto simp: fork_link_lheads R(3,4) Let_def\<close>)
  moreover have "lnext (lheads (fork_link pt k) (task_lh (last ts))) = task_lh pt"
    "lprev (lheads (fork_link pt k) (task_lh pt)) = task_lh (last ts)"
    "lnext (lheads (fork_link pt k) (task_lh pt)) = task_lh (hd ts)"
    "lprev (lheads (fork_link pt k) (task_lh (hd ts))) = task_lh pt"
    using ne by (simp_all add: fork_link_lheads R(3,4) Let_def)
  moreover have "first_task (fork_link pt k) = hd ts" "last_task (fork_link pt k) = pt"
    by (simp_all add: fork_link_def Let_def R(3) set_next_def set_prev_def)
  ultimately show ?thesis
    using R pt r by (simp add: task_ring_def tchain_snoc)
qed

lemma fork_parts:
  "lheads (fork_context lr pt (fork_task nm fn ty pri sh pt k)) = lheads k"
  "first_task (fork_context lr pt (fork_task nm fn ty pri sh pt k)) = first_task k"
  "last_task (fork_context lr pt (fork_task nm fn ty pri sh pt k)) = last_task k"
  "task_created_num (fork_context lr pt (fork_task nm fn ty pri sh pt k)) = task_created_num k + 1"
  by (simp_all add: fork_context_def fork_task_def Let_def upd_task_def upd_se_def)

lemma kalloc_frame:
  "kalloc sz k = Some (a, k') \<Longrightarrow> k' = k\<lparr>kmm := kmm k'\<rparr>"
  by (auto simp: kalloc_def bind_eq_Some_conv)

lemma task_ring_cong:
  "task_ring k ts \<Longrightarrow> lheads k' = lheads k \<Longrightarrow> first_task k' = first_task k \<Longrightarrow>
   last_task k' = last_task k \<Longrightarrow> task_ring k' ts"
  by (simp add: task_ring_def)

text \<open>The search for the shift accepts exactly the five priorities.\<close>

lemma pri_shift_Some:
  "pri_shift pri = Some i \<longleftrightarrow> i < 5 \<and> pri = 2 ^ i"
proof -
  have u: "[0..<CFS_PRI_NUM] = [0, 1, 2, 3, 4]" by (simp add: CFS_PRI_NUM_def upt_rec)
  have "pri_shift pri = (if pri = 1 then Some 0 else if pri = 2 then Some 1 else if pri = 4 then Some 2
      else if pri = 8 then Some 3 else if pri = 16 then Some 4 else None)"
    by (simp add: pri_shift_def u)
  moreover have "i < 5 \<longleftrightarrow> i = 0 \<or> i = 1 \<or> i = 2 \<or> i = 3 \<or> i = (4 :: nat)" by auto
  ultimately show ?thesis by auto
qed

text \<open>C34. \<open>forkyi\<close> refuses a CFS priority that is not 1, 2, 4, 8 or 16, and a task beyond the limit,
  with NULL and no effect. Otherwise it allocates a task, gives a CFS task the priority and its matching
  shift, starts it with no runtime, and appends it to the ring of tasks.\<close>

theorem forkyi_behaviour:
  assumes "task_ring k ts" and "length name < 32"
    and "kalloc SIZEOF_task_struct k = Some (pt, k1)" and "pt \<notin> set ts" and "pt \<noteq> 0"
    and run: "forkyi name fn type pri lr k = Some (r, k')"
  shows "(if type = CFS_TASK \<and> pri \<notin> {1, 2, 4, 8, 16} \<or> task_created_num k = MAX_TASK then r = 0 \<and> k' = k
     else r = pt \<and> task_ring k' (ts @ [pt]) \<and> task_created_num k' = task_created_num k + 1
      \<and> (type = CFS_TASK \<longrightarrow> pri_ok (ses k' (se_of pt)) \<and> priority (ses k' (se_of pt)) = pri)
      \<and> jiffies_vruntime (ses k' (se_of pt)) = 0 \<and> tname (tasks k' pt) = name)"
proof -
  have u: "[0..<CFS_PRI_NUM] = [0, 1, 2, 3, 4]" by (simp add: CFS_PRI_NUM_def upt_rec)
  have none: "pri_shift pri = None \<longleftrightarrow> pri \<notin> {1, 2, 4, 8, 16}" by (simp add: pri_shift_def u)
  show ?thesis
  proof (cases "type = CFS_TASK \<and> pri \<notin> {1, 2, 4, 8, 16} \<or> task_created_num k = MAX_TASK")
    case True
    then have "r = 0 \<and> k' = k" using run none by (auto simp: forkyi_def Let_def split: if_splits)
    then show ?thesis using True by simp
  next
    case False
    define sh where "sh = (if type = CFS_TASK then pri_shift pri else Some 0)"
    have s: "sh \<noteq> None" "task_created_num k \<noteq> MAX_TASK" using False none by (auto simp: sh_def)
    let ?k2 = "fork_context lr pt (fork_task name fn type pri (the sh) pt k1)"
    have e: "r = pt" "k' = fork_link pt ?k2"
      using run s assms(2,3) by (auto simp: forkyi_def sh_def [symmetric] Let_def TASK_NAME_LEN_def)
    have k1: "lheads k1 = lheads k" "first_task k1 = first_task k" "last_task k1 = last_task k"
      "task_created_num k1 = task_created_num k"
      by (subst kalloc_frame [OF assms(3)], simp)+
    have "task_ring ?k2 ts" by (rule task_ring_cong [OF assms(1)]) (simp_all add: fork_parts k1)
    then have "task_ring k' (ts @ [pt])" unfolding e by (rule fork_link_ring) (use assms in auto)
    moreover have "task_created_num k' = task_created_num k + 1"
      by (simp add: e fork_link_def Let_def set_next_def set_prev_def fork_parts k1)
    moreover have "ses k' = ses ?k2" "tasks k' = tasks ?k2"
      by (simp_all add: e fork_link_def Let_def set_next_def set_prev_def)
    moreover have "jiffies_vruntime (ses ?k2 (se_of pt)) = 0" "tname (tasks ?k2 pt) = name"
      by (simp_all add: fork_context_def fork_task_def Let_def upd_task_def upd_se_def)
    moreover have "pri_ok (ses ?k2 (se_of pt)) \<and> priority (ses ?k2 (se_of pt)) = pri" if "type = CFS_TASK"
    proof -
      obtain i where i: "sh = Some i" using s(1) by auto
      then have p: "i < 5" "pri = 2 ^ i" using that pri_shift_Some by (simp_all add: sh_def)
      then have "unat (of_nat i :: u32) = i" by (simp add: unat_of_nat take_bit_nat_eq_self)
      then show ?thesis
        using that p i by (simp add: fork_context_def fork_task_def Let_def upd_task_def upd_se_def pri_ok_def)
    qed
    ultimately show ?thesis unfolding if_not_P [OF False] using e(1) by simp
  qed
qed

lemma kalloc_idle:
  "\<exists>k1. kalloc SIZEOF_task_struct idle_cpu = Some (0xC4001000, k1)"
proof -
  from allocate_stack [OF fresh_vm_stack, of SIZEOF_task_struct]
  show ?thesis by (auto simp: kalloc_def kmalloc_def idle_cpu_def fresh_mms_def fresh_vm_simps)
qed

lemma idle_created: "task_created_num idle_cpu \<noteq> MAX_TASK"
  by (simp add: MAX_TASK_def SVC_STACK_BASE_def SYS_STACK_BASE_def TASK_STACK_GAP_def idle_cpu_def)

lemma idle_ring: "task_ring idle_cpu [0x1000]"
  by (simp add: task_ring_def idle_cpu_def)

theorem forkyi_behaviour_witness:
  "\<exists>k'. forkyi ''shell'' 7 CFS_TASK 2 9 idle_cpu = Some (0xC4001000, k') \<and> task_ring k' [0x1000, 0xC4001000]"
proof -
  obtain k1 where k1: "kalloc SIZEOF_task_struct idle_cpu = Some (0xC4001000, k1)" using kalloc_idle by blast
  have u: "[0..<CFS_PRI_NUM] = [0, 1, 2, 3, 4]" by (simp add: CFS_PRI_NUM_def upt_rec)
  obtain r k' where r: "forkyi ''shell'' 7 CFS_TASK 2 9 idle_cpu = Some (r, k')"
    using k1 idle_created by (auto simp: forkyi_def pri_shift_def u TASK_NAME_LEN_def Let_def)
  show ?thesis
    using forkyi_behaviour [OF idle_ring _ k1 _ _ r] r idle_created by auto
qed

text \<open>The page of a stack that starts at \<open>sp\<close>: a push writes below the stack pointer.\<close>

definition stack_page :: "u32 \<Rightarrow> nat set" where "stack_page sp = {unat sp - 4096..<unat sp}"

definition svc_base :: "cpu \<Rightarrow> u32" where "svc_base k = (if cpuid k = 0 then SVC_STACK_BASE else SEC_SVC_STACK_BASE)"
definition sys_base :: "cpu \<Rightarrow> u32" where "sys_base k = (if cpuid k = 0 then SYS_STACK_BASE else SEC_SYS_STACK_BASE)"

lemma fork_stack_pointer:
  assumes "task_created_num k < MAX_TASK"
  shows "unat (ct_sp (tasks (fork_context lr pt k) pt)) = unat (svc_base k) - 4096 * (unat (task_created_num k) + 1)"
    and "unat (task_created_num k) < 16"
proof -
  let ?n = "task_created_num k"
  have M: "MAX_TASK = 16" by (simp add: MAX_TASK_def SVC_STACK_BASE_def SYS_STACK_BASE_def TASK_STACK_GAP_def)
  show n: "unat ?n < 16" using assms by (simp add: M word_less_nat_alt)
  have sp: "ct_sp (tasks (fork_context lr pt k) pt) = svc_base k - 0x1000 * (?n + 1)"
    by (simp add: svc_base_def fork_context_def upd_task_def Let_def TASK_STACK_GAP_def)
  have u: "unat (0x1000 * (?n + 1)) = 4096 * (unat ?n + 1)"
  proof -
    have "0x1000 * (?n + 1) = (of_nat (4096 * (unat ?n + 1)) :: u32)" by simp
    then show ?thesis using n by (simp only: unat_of_nat) (simp add: take_bit_nat_eq_self)
  qed
  have "0x1000 * (?n + 1) \<le> svc_base k"
    unfolding word_le_nat_alt u using n by (simp add: svc_base_def SVC_STACK_BASE_def SEC_SVC_STACK_BASE_def)
  then show "unat (ct_sp (tasks (fork_context lr pt k) pt)) = unat (svc_base k) - 4096 * (unat ?n + 1)"
    unfolding sp using u by (simp add: unat_sub)
qed

text \<open>C35. The stack of a task starts a whole number of 4 KB pages below the base of its CPU, on either CPU, and is a page of its own: the
  pages of two tasks with different numbers, or on different CPUs, share no address. The pages of the first 15 tasks lie between the
  base of the stack of system mode and that of supervisor mode; the page of the 16th task, the last one the limit admits, is
  exactly the page below the base of the stack of system mode, into which that stack grows.\<close>

theorem fork_stack_bounds:
  assumes "task_created_num k < MAX_TASK" and sp_def: "sp = ct_sp (tasks (fork_context lr pt k) pt)"
  shows "unat sp = unat (svc_base k) - 4096 * (unat (task_created_num k) + 1)
    \<and> (\<forall>k2 lr2 pt2. task_created_num k2 < MAX_TASK
          \<and> (task_created_num k2 \<noteq> task_created_num k \<or> (cpuid k2 = 0) \<noteq> (cpuid k = 0))
        \<longrightarrow> stack_page sp \<inter> stack_page (ct_sp (tasks (fork_context lr2 pt2 k2) pt2)) = {})
    \<and> (if task_created_num k = MAX_TASK - 1 then stack_page sp = stack_page (sys_base k)
       else stack_page sp \<subseteq> {unat (sys_base k)..<unat (svc_base k)})"
proof -
  note sp = fork_stack_pointer(1) [OF assms(1), of lr pt, folded sp_def] and n = fork_stack_pointer(2) [OF assms(1)]
  note base = svc_base_def sys_base_def SVC_STACK_BASE_def SEC_SVC_STACK_BASE_def SYS_STACK_BASE_def SEC_SYS_STACK_BASE_def
  have M: "MAX_TASK = 16" by (simp add: MAX_TASK_def SVC_STACK_BASE_def SYS_STACK_BASE_def TASK_STACK_GAP_def)
  have "stack_page sp \<inter> stack_page (ct_sp (tasks (fork_context lr2 pt2 k2) pt2)) = {}"
    if "task_created_num k2 < MAX_TASK" "task_created_num k2 \<noteq> task_created_num k \<or> (cpuid k2 = 0) \<noteq> (cpuid k = 0)" for k2 lr2 pt2
  proof -
    have "unat (task_created_num k2) \<noteq> unat (task_created_num k) \<or> (cpuid k2 = 0) \<noteq> (cpuid k = 0)"
      using that(2) by (simp add: word_unat_eq_iff)
    then show ?thesis
      unfolding stack_page_def sp fork_stack_pointer(1) [OF that(1)]
      using n fork_stack_pointer(2) [OF that(1)] by (auto simp: base)
  qed
  moreover have "task_created_num k = MAX_TASK - 1 \<longleftrightarrow> unat (task_created_num k) = 15"
    by (simp add: M word_unat_eq_iff)
  then have "if task_created_num k = MAX_TASK - 1 then stack_page sp = stack_page (sys_base k)
       else stack_page sp \<subseteq> {unat (sys_base k)..<unat (svc_base k)}"
    unfolding stack_page_def sp using n by (auto simp: base)
  ultimately show ?thesis using sp by blast
qed

theorem fork_stack_bounds_witness:
  "stack_page (ct_sp (tasks (fork_context 0 0x2000 (idle_cpu\<lparr>task_created_num := 15\<rparr>)) 0x2000)) = stack_page SYS_STACK_BASE"
proof -
  let ?k = "idle_cpu\<lparr>task_created_num := 15\<rparr>"
  have "15 < MAX_TASK" "MAX_TASK - 1 = 15" "cpuid ?k = 0"
    by (simp_all add: MAX_TASK_def SVC_STACK_BASE_def SYS_STACK_BASE_def TASK_STACK_GAP_def idle_cpu_def)
  then show ?thesis using fork_stack_bounds [of ?k, OF _ refl, of 0 "0x2000"] by (simp add: sys_base_def)
qed

section \<open>The task statistics\<close>

lemma stat_loop_chain:
  assumes "tchain (lheads k) (ts @ t # us)" and "0 \<notin> set (t # us)" and "distinct (ts @ t # us)"
    and "first_task k = hd (ts @ t # us)"
    and "lnext (lheads k (task_lh (last (t # us)))) = task_lh (hd (ts @ t # us))"
  shows "stat_loop k (task_lh t) out = Some (out @ concat (map (stat_of k) (t # us)))"
  using assms
proof (induction us arbitrary: ts t out)
  case Nil
  then show ?case by (subst stat_loop.simps) (simp add: Let_def)
next
  case (Cons u us)
  have nx: "lnext (lheads k (task_lh t)) = task_lh u" using Cons.prems(1)
    by (induction ts rule: induct_list012) auto
  have "u \<noteq> first_task k" using Cons.prems(3,4) by (cases ts) auto
  then have "stat_loop k (task_lh t) out = stat_loop k (task_lh u) (out @ stat_of k t)"
    using Cons.prems(2) nx by (subst stat_loop.simps) (simp add: Let_def)
  then show ?case using Cons.IH [of "ts @ [t]" u "out @ stat_of k t"] Cons.prems by simp
qed

text \<open>C36. On a ring of at least two tasks \<open>print_task_stat\<close> ends after one round and prints the line of
  every task, in the order they were created.\<close>

theorem print_task_stat_once_each:
  assumes "task_ring k ts" and "1 < length ts"
  shows "print_task_stat k = Some (concat (map (stat_of k) ts))"
proof -
  obtain t us where ts: "ts = t # us" using assms(2) by (cases ts) auto
  then show ?thesis
    using stat_loop_chain [of k "[]" t us "[]"] assms by (simp add: print_task_stat_def task_ring_def)
qed

theorem print_task_stat_once_each_witness:
  "\<exists>k. task_ring k [0x1000, 0x2000] \<and> print_task_stat k
     = Some [CfsStat [] 0 TASK_STOP 4 9 0, CfsStat [] 0 TASK_STOP 4 9 0] "
proof -
  let ?k = "fork_link 0x2000 (idle_cpu\<lparr>ses := (\<lambda>_. ses idle_cpu 0)\<rparr>)"
  have "task_ring (idle_cpu\<lparr>ses := (\<lambda>_. ses idle_cpu 0)\<rparr>) [0x1000]"
    by (rule task_ring_cong [OF idle_ring]) simp_all
  then have r: "task_ring ?k [0x1000, 0x2000]" using fork_link_ring by fastforce
  moreover have "print_task_stat ?k = Some (concat (map (stat_of ?k) [0x1000, 0x2000]))"
    by (rule print_task_stat_once_each [OF r]) simp
  moreover have "stat_of ?k p = [CfsStat [] 0 TASK_STOP 4 9 0]" for p
    by (simp add: stat_of_def fork_link_def set_next_def set_prev_def Let_def idle_cpu_def)
  ultimately show ?thesis by (intro exI [of _ ?k]) simp
qed

end
