(* ===== verification/Timer.thy ===== *)
theory Timer
  imports Sched
begin

unbundle bit_operations_syntax

text \<open>
  The timer event device (src/kernel/core/timer.c, the Cortex-A9 part): delays, the timer interrupt and
  the registers of the private timer. Registers are words by address (\<open>regs\<close>); a device is its
  structure, \<open>None\<close> for the NULL pointer. The device tree values come from a generated header and are
  the record \<open>dt_node\<close>.
\<close>

section \<open>Devices and registers\<close>

record device =
  dev_idx :: u32
  dev_name :: string
  base_addr :: u32
  dev_irq :: u32
  dev_data :: u32

record dt_node =
  dt_compat :: string
  dt_base :: u32
  dt_irq :: u32
  dt_clk :: u32

definition PRIV_TMR_LD_OFFSET :: u32 where "PRIV_TMR_LD_OFFSET = 0x0000"
definition PRIV_TMR_CNTR_OFFSET :: u32 where "PRIV_TMR_CNTR_OFFSET = 0x0004"
definition PRIV_TMR_CTRL_OFFSET :: u32 where "PRIV_TMR_CTRL_OFFSET = 0x0008"
definition PRIV_TMR_INTSTAT_OFFSET :: u32 where "PRIV_TMR_INTSTAT_OFFSET = 0x000C"
definition PRIV_TMR_EN_MASK :: u32 where "PRIV_TMR_EN_MASK = 0x00000001"
definition PRIV_TMR_AUTO_RE_MASK :: u32 where "PRIV_TMR_AUTO_RE_MASK = 0x00000002"
definition PRIV_TMR_IRQ_EN_MASK :: u32 where "PRIV_TMR_IRQ_EN_MASK = 0x00000004"

definition read32 :: "u32 \<Rightarrow> cpu \<Rightarrow> u32" where "read32 a k = regs k a"
definition write32 :: "u32 \<Rightarrow> u32 \<Rightarrow> cpu \<Rightarrow> cpu" where
  "write32 a v k = k\<lparr>regs := (regs k)(a := v)\<rparr>"

definition timer_get_phy_tick_cnt :: "device option \<Rightarrow> cpu \<Rightarrow> u32" where
  "timer_get_phy_tick_cnt dev k =
     (case dev of None \<Rightarrow> 0 | Some d \<Rightarrow> read32 (base_addr d + PRIV_TMR_CNTR_OFFSET) k)"

definition update_csd :: "device option \<Rightarrow> cpu \<Rightarrow> cpu" where
  "update_csd dev k = k\<lparr>csd_tick := timer_get_phy_tick_cnt dev k\<rparr>"

section \<open>Delays\<close>

definition delay :: "u32 \<Rightarrow> cpu \<Rightarrow> cpu option" where
  "delay ticks k =
     do {
       let c = current k;
       k1 \<leftarrow> dequeue_se_to_wq (se_of c) k;
       k2 \<leftarrow> create_oneshot_timer c ticks 0 k1;
       let k3 = (if tstate (tasks k2 (yield_task (tasks k2 c))) = TASK_WAITING
                 then upd_task c (\<lambda>t. t\<lparr>yield_task := idle_task k\<rparr>) k2 else k2);
       Some (yieldyi k3)
     }"

definition mdelay_ticks :: "u32 \<Rightarrow> u32 \<Rightarrow> u32" where
  "mdelay_ticks msecs rate = ucast (drop_bit 10 ((ucast msecs :: u64) * ucast rate))"

definition mdelay :: "u32 \<Rightarrow> cpu \<Rightarrow> cpu option" where
  "mdelay msecs k = delay (mdelay_ticks msecs (ticks_per_sec k)) k"

section \<open>The timer device\<close>

definition timer_enable :: "device option \<Rightarrow> cpu \<Rightarrow> ret \<times> cpu" where
  "timer_enable dev k =
     (case dev of None \<Rightarrow> (Neg EINVAL, k)
      | Some d \<Rightarrow>
         (let a = base_addr d + PRIV_TMR_CTRL_OFFSET;
              ctrl = read32 a k OR (PRIV_TMR_EN_MASK OR PRIV_TMR_AUTO_RE_MASK OR PRIV_TMR_IRQ_EN_MASK)
          in (NO_ERR, write32 a ctrl k)))"

definition timer_enable_secondary :: "device \<Rightarrow> cpu \<Rightarrow> cpu" where
  "timer_enable_secondary d k =
     (let k1 = write32 (base_addr d + PRIV_TMR_LD_OFFSET) 1000000 k;
          a = base_addr d + PRIV_TMR_CTRL_OFFSET;
          ctrl = read32 a k1 OR (PRIV_TMR_EN_MASK OR PRIV_TMR_AUTO_RE_MASK OR PRIV_TMR_IRQ_EN_MASK)
      in write32 a ctrl k1)"

definition timer_disable :: "device option \<Rightarrow> cpu \<Rightarrow> ret \<times> cpu" where
  "timer_disable dev k =
     (case dev of None \<Rightarrow> (Neg EINVAL, k)
      | Some d \<Rightarrow>
         (let a = base_addr d + PRIV_TMR_CTRL_OFFSET;
              ctrl = read32 a k AND NOT PRIV_TMR_EN_MASK
          in (NO_ERR, write32 a ctrl k)))"

definition init_timer :: "dt_node \<Rightarrow> device option \<Rightarrow> cpu \<Rightarrow> ret \<times> device option \<times> cpu" where
  "init_timer dt dev k =
     (case dev of None \<Rightarrow> (Neg EINVAL, None, k)
      | Some d \<Rightarrow>
         (let d1 = d\<lparr>dev_name := dt_compat dt, base_addr := dt_base dt, dev_irq := dt_irq dt, dev_data := 0\<rparr>;
              pct = node_timer (tr_leftmost (troot k));
              k1 = upd_timer pct (\<lambda>t. t\<lparr>timer_pt := current k\<rparr>) (k\<lparr>ticks_per_sec := dt_clk dt\<rparr>)
          in (NO_ERR, Some d1, write32 (base_addr d1 + PRIV_TMR_LD_OFFSET) (tc (timers k1 pct)) k1)))"

text \<open>The Cortex-A53 build has a timer interrupt that does nothing and the same registers of the device.\<close>

definition timer_irq_a53 :: "u32 \<Rightarrow> int" where "timer_irq_a53 arg = 0"

definition init_timer_a53 :: "dt_node \<Rightarrow> device option \<Rightarrow> ret \<times> device option \<times> u32" where
  "init_timer_a53 dt dev =
     (case dev of None \<Rightarrow> (Neg EINVAL, None, 0)
      | Some d \<Rightarrow> (NO_ERR, Some (d\<lparr>dev_name := dt_compat dt, base_addr := dt_base dt, dev_irq := dt_irq dt,
                    dev_data := 0\<rparr>), dt_clk dt))"

section \<open>The timer interrupt\<close>

text \<open>Calling the handler of a timer: only the scheduler timer has one, calling NULL does not return.\<close>

definition call_handler :: "timer_handler \<Rightarrow> u32 \<Rightarrow> cpu \<Rightarrow> cpu option" where
  "call_handler h elapsed k = (case h of CFS_SCHEDULER \<Rightarrow> cfs_scheduler elapsed k | NO_HANDLER \<Rightarrow> None)"

definition irq_sched :: "u32 \<Rightarrow> u32 \<Rightarrow> u32 \<Rightarrow> u32 \<Rightarrow> cpu \<Rightarrow> cpu option" where
  "irq_sched pct cur st elapsed k =
     (if ttype (tasks k cur) = RT_TASK then Some k
      else do {
        k1 \<leftarrow> call_handler (handler (timers k st)) elapsed k;
        Some (upd_timer pct (\<lambda>t. t\<lparr>timer_pt := cur\<rparr>) k1)
      })"

text \<open>Real-time and oneshot timers switch to their task.\<close>

definition irq_switch :: "u32 \<Rightarrow> u32 \<Rightarrow> cpu \<Rightarrow> cpu" where
  "irq_switch pct cur k =
     (let pt = timer_pt (timers k pct) in
      if cur \<noteq> pt then
        (let k1 = (if ttype (tasks k cur) = RT_TASK then upd_task cur (\<lambda>t. t\<lparr>preempted := 1\<rparr>) k else k);
             k2 = switch_context cur pt k1;
             k3 = upd_task pt (\<lambda>t. t\<lparr>yield_task := cur\<rparr>) k2
         in k3\<lparr>current := pt\<rparr>)
      else k)"

definition irq_task :: "u32 \<Rightarrow> u32 \<Rightarrow> cpu \<Rightarrow> cpu option" where
  "irq_task pct cur k =
     (let k1 = irq_switch pct cur k in
      if timer_kind (timers k1 pct) = ONESHOT_TIMER then
        do {
          let pt = timer_pt (timers k1 pct);
          k2 \<leftarrow> (if tstate (tasks k1 pt) = TASK_WAITING then enqueue_se_to_runq (se_of pt) k1 else Some k1);
          del_timer pct k2
        }
      else if done_flag (tasks k1 cur) = 0 \<and> preempted (tasks k1 cur) = 0 then
        Some (upd_task cur (\<lambda>t. t\<lparr>missed_cnt := missed_cnt t + 1\<rparr>) k1)
      else Some k1)"

definition timer_irq :: "device option \<Rightarrow> cpu \<Rightarrow> (ret \<times> cpu) option" where
  "timer_irq dev k =
     (case dev of None \<Rightarrow> Some (Neg EINVAL, k)
      | Some d \<Rightarrow>
        do {
          let cur = current k;
          let st = sched_timer k;
          let elapsed = read32 (base_addr d + PRIV_TMR_LD_OFFSET) k;
          let pct = node_timer (tr_leftmost (troot k));
          k1 \<leftarrow> update_timer_tree elapsed k;
          let pnt = node_timer (tr_leftmost (troot k1));
          let k2 = write32 (base_addr d + PRIV_TMR_LD_OFFSET) (tc (timers k1 pnt)) k1;
          let k3 = update_current elapsed k2;
          k4 \<leftarrow> (case timer_kind (timers k3 pct) of
                  SCHED_TIMER \<Rightarrow> irq_sched pct cur st elapsed k3
                | _ \<Rightarrow> irq_task pct cur k3);
          Some (NO_ERR, write32 (base_addr d + PRIV_TMR_INTSTAT_OFFSET) 1 k4)
        })"

section \<open>Frames\<close>

text \<open>The invariant of the queues only depends on part of the state.\<close>

lemma sched_inv_cong:
  assumes "sched_inv k xs ws" and "\<And>a. a \<in> set xs \<Longrightarrow> rbmem k' a = rbmem k a" and "rq k' = rq k"
    and "wq k' = wq k" and "waitq k' = waitq k" and "lheads k' = lheads k" and "runq k' = runq k"
    and "rqlock k' = rqlock k" and "\<And>t. tstate (tasks k' t) = tstate (tasks k t)"
    and "\<And>c. priority (ses k' c) = priority (ses k c)"
  shows "sched_inv k' xs ws"
proof -
  have "cq_holds (rq_rbs k) (rb_leftmost_se (rq k)) xs" using assms(1) by (simp add: sched_inv_def rq_holds_def)
  then have "cq_holds (rq_rbs k') (rb_leftmost_se (rq k)) xs"
    by (rule cq_holds_cong) (simp_all add: rq_rbs_def assms)
  then show ?thesis
    using assms(1) wq_holds_cong [of k ws k'] by (simp add: sched_inv_def rq_holds_def assms)
qed

lemma tr_holds_cong:
  assumes "tr_holds k xs" and "\<And>a. a \<in> set xs \<Longrightarrow> rbmem k' a = rbmem k a" and "troot k' = troot k"
  shows "tr_holds k' xs"
  using assms(1) unfolding tr_holds_def assms(3)
  by (rule cq_holds_cong) (simp_all add: tr_rbs_def assms)

lemma queue_task_cong: "queue_task k t \<Longrightarrow> wq k' = wq k \<Longrightarrow> queue_task k' t"
  by (simp add: queue_task_def)

lemma update_current_frame:
  "rbmem (update_current el k) = rbmem k" "rq (update_current el k) = rq k" "wq (update_current el k) = wq k"
  "waitq (update_current el k) = waitq k" "lheads (update_current el k) = lheads k"
  "runq (update_current el k) = runq k" "rqlock (update_current el k) = rqlock k"
  "tasks (update_current el k) = tasks k" "timers (update_current el k) = timers k"
  "troot (update_current el k) = troot k" "current (update_current el k) = current k"
  "priority (ses (update_current el k) c) = priority (ses k c)"
  by (simp_all add: update_current_def Let_def upd_se_def)

lemma write32_frame [simp]:
  "rbmem (write32 a v k) = rbmem k" "rq (write32 a v k) = rq k" "wq (write32 a v k) = wq k"
  "waitq (write32 a v k) = waitq k" "lheads (write32 a v k) = lheads k" "runq (write32 a v k) = runq k"
  "rqlock (write32 a v k) = rqlock k" "tasks (write32 a v k) = tasks k" "timers (write32 a v k) = timers k"
  "troot (write32 a v k) = troot k" "current (write32 a v k) = current k" "ses (write32 a v k) = ses k"
  by (simp_all add: write32_def)

lemma irq_switch_frame:
  "rbmem (irq_switch p c k) = rbmem k" "rq (irq_switch p c k) = rq k" "wq (irq_switch p c k) = wq k"
  "waitq (irq_switch p c k) = waitq k" "lheads (irq_switch p c k) = lheads k" "runq (irq_switch p c k) = runq k"
  "rqlock (irq_switch p c k) = rqlock k" "timers (irq_switch p c k) = timers k"
  "troot (irq_switch p c k) = troot k" "ses (irq_switch p c k) = ses k"
  "tstate (tasks (irq_switch p c k) t) = tstate (tasks k t)"
  by (simp_all add: irq_switch_def Let_def upd_task_def switch_context_def)

lemma irq_switch_current:
  "c \<noteq> timer_pt (timers k p) \<Longrightarrow> current (irq_switch p c k) = timer_pt (timers k p)"
  "c \<noteq> timer_pt (timers k p) \<Longrightarrow> yield_task (tasks (irq_switch p c k) (timer_pt (timers k p))) = c"
  by (simp_all add: irq_switch_def Let_def upd_task_def switch_context_def)

section \<open>A sleeping task is woken by its timer\<close>

text \<open>The first half of the interrupt: the timer tree is updated, the device reprogrammed, and the current
  task charged.\<close>

definition irq_prologue :: "u32 \<Rightarrow> cpu \<Rightarrow> cpu option" where
  "irq_prologue base k =
     do {
       let elapsed = read32 (base + PRIV_TMR_LD_OFFSET) k;
       k1 \<leftarrow> update_timer_tree elapsed k;
       let pnt = node_timer (tr_leftmost (troot k1));
       let k2 = write32 (base + PRIV_TMR_LD_OFFSET) (tc (timers k1 pnt)) k1;
       Some (update_current elapsed k2)
     }"

lemma irq_prologue_runs:
  assumes tr: "tr_holds k (l # ns)" "sorted (map (tc_key k) (l # ns))"
    and el: "read32 (base + PRIV_TMR_LD_OFFSET) k \<le> tc (timers k (node_timer l))"
    and inv: "sched_inv k xs ws" and dis: "set xs \<inter> set (l # ns) = {}"
  shows "\<exists>k' ts. irq_prologue base k = Some k' \<and> sched_inv k' xs ws \<and> tr_holds k' ts \<and> mset ts = mset (l # ns)
    \<and> tasks k' = tasks k \<and> wq k' = wq k \<and> current k' = current k
    \<and> timer_kind (timers k' (node_timer l)) = timer_kind (timers k (node_timer l))
    \<and> timer_pt (timers k' (node_timer l)) = timer_pt (timers k (node_timer l))"
proof -
  let ?el = "read32 (base + PRIV_TMR_LD_OFFSET) k"
  obtain k1 ts k0 where k1: "update_timer_tree ?el k = Some k1" "tr_holds k1 ts" "mset ts = mset (l # ns)"
    "\<forall>t. timers k1 t = (if t \<in> node_timer ` set (l # ns) then (timers k t)\<lparr>tc := new_tc k ?el (timer_node t)\<rparr>
          else timers k t)"
    "same_but_timers k k0" "k1 = k0\<lparr>rbmem := rbmem k1, troot := troot k1\<rparr>"
    "\<forall>a. a \<notin> set (l # ns) \<longrightarrow> rbmem k1 a = rbmem k a"
    using update_timer_tree_runs [OF tr el] by blast
  note F = same_but_timers_fields [OF k1(5)]
  have e: "rq k1 = rq k" "wq k1 = wq k" "waitq k1 = waitq k" "lheads k1 = lheads k" "runq k1 = runq k"
    "rqlock k1 = rqlock k" "tasks k1 = tasks k" "ses k1 = ses k" "current k1 = current k"
    by (subst k1(6), simp add: F)+
  let ?pnt = "node_timer (tr_leftmost (troot k1))"
  let ?k' = "update_current ?el (write32 (base + PRIV_TMR_LD_OFFSET) (tc (timers k1 ?pnt)) k1)"
  have "irq_prologue base k = Some ?k'" using k1(1) by (simp add: irq_prologue_def Let_def)
  moreover have "sched_inv ?k' xs ws"
    by (rule sched_inv_cong [OF inv]) (use k1(7) dis in \<open>auto simp: update_current_frame e\<close>)
  moreover have "tr_holds ?k' ts" by (rule tr_holds_cong [OF k1(2)]) (simp_all add: update_current_frame)
  moreover have "timers ?k' = timers k1" "tasks ?k' = tasks k" "wq ?k' = wq k" "current ?k' = current k"
    by (simp_all add: update_current_frame e)
  ultimately show ?thesis using k1(3,4) by (intro exI [of _ ?k'] exI [of _ ts]) simp
qed

text \<open>The wake-up inside the interrupt: the sleeper becomes the current task and enters the run queue.\<close>

lemma irq_switch_enqueues:
  assumes inv: "sched_inv k1 xs ws" and tr: "tr_holds k1 ts" and "t \<in> set ws" and "queue_task k1 t"
    and "task_node t \<notin> set xs" and "task_node t \<notin> set ts" and "set xs \<inter> set ts = {}"
  obtains k3 ys zs where "enqueue_se_to_runq (se_of t) (irq_switch p c k1) = Some k3" "xs = ys @ zs"
    "sched_inv k3 (ys @ task_node t # zs) (after_wait t ws)" "tr_holds k3 ts"
    "current k3 = current (irq_switch p c k1)" "\<forall>u. yield_task (tasks k3 u) = yield_task (tasks (irq_switch p c k1) u)"
    "tstate (tasks (irq_switch p c k1) t) = TASK_WAITING"
proof -
  let ?k2 = "irq_switch p c k1"
  have inv2: "sched_inv ?k2 xs ws"
    by (rule sched_inv_cong [OF inv]) (simp_all add: irq_switch_frame)
  have tr2: "tr_holds ?k2 ts" by (rule tr_holds_cong [OF tr]) (simp_all add: irq_switch_frame)
  have q2: "queue_task ?k2 t" by (rule queue_task_cong [OF assms(4)]) (simp add: irq_switch_frame)
  obtain k3 ys zs where k3: "enqueue_se_to_runq (se_of t) ?k2 = Some k3" "xs = ys @ zs"
    "sched_inv k3 (ys @ task_node t # zs) (after_wait t ws)"
    "k3 = ?k2\<lparr>ses := ses k3, rbmem := rbmem k3, rq := rq k3, lheads := lheads k3, waitq := waitq k3, tasks := tasks k3\<rparr>"
    "\<forall>a. a \<notin> insert (task_node t) (set xs) \<longrightarrow> rbmem k3 a = rbmem ?k2 a"
    "\<forall>u. yield_task (tasks k3 u) = yield_task (tasks ?k2 u)"
    using enqueue_se_to_runq_inv [OF inv2 assms(5) q2] by blast
  have e3: "troot k3 = troot ?k2" "current k3 = current ?k2" by (subst k3(4), simp)+
  have "rbmem k3 a = rbmem ?k2 a" if "a \<in> set ts" for a
  proof -
    have "a \<notin> insert (task_node t) (set xs)" using that assms(6,7) by blast
    then show ?thesis using k3(5) by simp
  qed
  then have "tr_holds k3 ts" using tr_holds_cong [OF tr2] e3(1) by blast
  moreover have "tstate (tasks ?k2 t) = TASK_WAITING" using inv2 assms(3) by (simp add: sched_inv_def)
  ultimately show ?thesis using that k3(1-3,6) e3(2) by blast
qed

text \<open>C12. The interrupt of a oneshot timer whose task sleeps makes that task the current one, moves it from
  the wait list to the run queue, remembers the interrupted task to yield to, and deletes the timer; all
  other timers and queued tasks stay, although both trees share the node memory.\<close>

theorem oneshot_timer_wakes_sleeper:
  assumes "tr_holds k (l # ns)" and "sorted (map (tc_key k) (l # ns))"
    and "read32 (base_addr d + PRIV_TMR_LD_OFFSET) k \<le> tc (timers k (node_timer l))"
    and "sched_inv k xs ws" and "set xs \<inter> set (l # ns) = {}"
    and "timer_kind (timers k (node_timer l)) = ONESHOT_TIMER" and "timer_pt (timers k (node_timer l)) = t"
    and "t \<in> set ws" and "current k \<noteq> t" and "queue_task k t"
    and "task_node t \<notin> set xs" and "task_node t \<notin> set (l # ns)"
  shows "\<exists>k' xs' ns'. timer_irq (Some d) k = Some (NO_ERR, k') \<and> current k' = t
    \<and> yield_task (tasks k' t) = current k
    \<and> sched_inv k' xs' (after_wait t ws) \<and> set xs' = insert (task_node t) (set xs)
    \<and> tr_holds k' ns' \<and> mset ns' = mset ns"
proof -
  let ?p = "node_timer l" and ?c = "current k"
  have lm: "tr_leftmost (troot k) = l" using tqueue.front_hd [OF assms(1)] by simp
  obtain k1 ts where k1: "irq_prologue (base_addr d) k = Some k1" "sched_inv k1 xs ws" "tr_holds k1 ts"
    "mset ts = mset (l # ns)" "tasks k1 = tasks k" "wq k1 = wq k" "current k1 = current k"
    "timer_kind (timers k1 ?p) = ONESHOT_TIMER" "timer_pt (timers k1 ?p) = t"
    using irq_prologue_runs [OF assms(1-5)] assms(6,7) by auto
  have st: "set ts = set (l # ns)" using k1(4) by (metis set_mset_mset)
  have q1: "queue_task k1 t" by (rule queue_task_cong [OF assms(10)]) (simp add: k1(6))
  have d: "task_node t \<notin> set ts" "set xs \<inter> set ts = {}" using assms(5,12) st by simp_all
  obtain k3 ys zs where k3: "enqueue_se_to_runq (se_of t) (irq_switch ?p ?c k1) = Some k3" "xs = ys @ zs"
    "sched_inv k3 (ys @ task_node t # zs) (after_wait t ws)" "tr_holds k3 ts" "current k3 = current (irq_switch ?p ?c k1)"
    "\<forall>u. yield_task (tasks k3 u) = yield_task (tasks (irq_switch ?p ?c k1) u)"
    "tstate (tasks (irq_switch ?p ?c k1) t) = TASK_WAITING"
    by (rule irq_switch_enqueues [OF k1(2,3) assms(8) q1 assms(11) d])
  have "timer_node ?p \<in> set ts" using st by simp
  from del_timer_holds [OF k3(4) this]
  obtain s lm where k4: "del_timer ?p k3 = Some (put_tr s lm k3)"
    "tr_holds (put_tr s lm k3) (remove1 l ts)" "\<forall>a. a \<notin> set ts \<longrightarrow> nodes s a = rbmem k3 a" by auto
  let ?k5 = "write32 (base_addr d + PRIV_TMR_INTSTAT_OFFSET) 1 (put_tr s lm k3)"
  have "timer_irq (Some d) k = Some (NO_ERR, ?k5)"
    using k1(1,8,9) k3(1,7) k4(1)
    by (auto simp: timer_irq_def irq_prologue_def Let_def irq_task_def irq_switch_frame lm bind_eq_Some_conv)
  moreover have "current ?k5 = t \<and> yield_task (tasks ?k5 t) = current k"
    using irq_switch_current [of ?c k1 ?p] k1(9) assms(9) k3(5,6) by (simp add: put_tr_def)
  moreover have "sched_inv ?k5 (ys @ task_node t # zs) (after_wait t ws)"
    by (rule sched_inv_cong [OF k3(3)]) (use k4(3) st assms(5,12) k3(2) in \<open>auto simp: put_tr_def\<close>)
  moreover have "tr_holds ?k5 (remove1 l ts)" by (rule tr_holds_cong [OF k4(2)]) simp_all
  moreover have "mset (remove1 l ts) = mset ns" using k1(4) by simp
  ultimately show ?thesis
    using k3(2) by (intro exI [of _ ?k5] exI [of _ "ys @ task_node t # zs"] exI [of _ "remove1 l ts"]) simp
qed

text \<open>A CPU on which task 0x2000 sleeps until the oneshot timer at 0x3000 fires.\<close>

definition sleeping_cpu :: cpu where
  "sleeping_cpu = one_timer\<lparr>
     timers := (timers one_timer)(0x3000 := \<lparr>tc = 500, intvl = 1000, handler = NO_HANDLER,
       timer_pt = 0x2000, timer_kind = ONESHOT_TIMER, timer_arg = 0\<rparr>),
     tasks := (tasks one_timer)(0x2000 := (tasks one_timer 0x2000)\<lparr>tstate := TASK_WAITING\<rparr>),
     lheads := zero_lh(0x108 := \<lparr>lprev = 0, lnext = waitlist 0x2000\<rparr>,
       waitlist 0x2000 := \<lparr>lprev = 0x108, lnext = 0\<rparr>)\<rparr>"

lemma sleeping_cpu_facts:
  "tr_holds sleeping_cpu [timer_node 0x3000]" "sched_inv sleeping_cpu [] [0x2000]"
  "queue_task sleeping_cpu 0x2000"
proof -
  show "tr_holds sleeping_cpu [timer_node 0x3000]"
    by (rule tr_holds_cong [OF one_timer_holds]) (simp_all add: sleeping_cpu_def)
  have "rq_holds idle_cpu []" using idle_cpu_inv by (simp add: sched_inv_def)
  then have "rq_root (rq idle_cpu) = 0 \<and> rb_leftmost_se (rq idle_cpu) = 0" by (simp add: idle_cpu_def)
  then have "rq_holds sleeping_cpu []"
    unfolding rq_holds_def
    by (intro cq_holds_empty) (simp_all add: rq_rbs_def sleeping_cpu_def one_timer_def)
  then show "sched_inv sleeping_cpu [] [0x2000]"
    by (simp add: sched_inv_def sleeping_cpu_def one_timer_def idle_cpu_def wq_holds_def Let_def
        UNLOCKED_def wq_list_head_def waitlist_def)
  show "queue_task sleeping_cpu 0x2000"
    by (rule queue_task_cong [OF idle_cpu_task(2)]) (simp add: sleeping_cpu_def one_timer_def)
qed

theorem oneshot_timer_wakes_sleeper_witness:
  "\<exists>k'. timer_irq (Some \<lparr>dev_idx = 0, dev_name = [], base_addr = 0xF8F00600, dev_irq = 29, dev_data = 0\<rparr>) sleeping_cpu
      = Some (NO_ERR, k') \<and> current k' = 0x2000 \<and> yield_task (tasks k' 0x2000) = 0x1000"
  using oneshot_timer_wakes_sleeper [OF sleeping_cpu_facts(1) _ _ sleeping_cpu_facts(2), where t = "0x2000"
      and d = "\<lparr>dev_idx = 0, dev_name = [], base_addr = 0xF8F00600, dev_irq = 29, dev_data = 0\<rparr>"] sleeping_cpu_facts(3)
  by (auto simp: read32_def sleeping_cpu_def one_timer_def idle_cpu_def task_node_def se_node_def se_of_def
      timer_node_def node_timer_def)

end
