(* ===== verification/Task.thy ===== *)
theory Task
  imports Timer Printk
begin

unbundle bit_operations_syntax

text \<open>
  Tasks, the work queue and the shell (src/kernel/core/task.c). The addresses the linker gives to the
  task functions and the link register \<open>forkyi\<close> reads are arguments (\<open>fns\<close>, \<open>lr\<close>); what a queued work
  item or another component does is a parameter or an effect that the shell command returns. The
  endless loops of the worker tasks are modelled by one round.
\<close>

section \<open>Creating tasks\<close>

type_synonym fn_table = "string \<Rightarrow> u32"

definition create_oneshot_task :: "string \<Rightarrow> u32 \<Rightarrow> u32 \<Rightarrow> u32 \<Rightarrow> cpu \<Rightarrow> (u32 \<times> cpu) option" where
  "create_oneshot_task name h msec lr k =
     do {
       (t, k1) \<leftarrow> forkyi name h ONESHOT_TASK 0 lr k;
       let k2 = upd_task t (\<lambda>x. x\<lparr>timeinterval := msec, tstate := TASK_RUNNING\<rparr>) k1;
       let (hz, k3) = get_ticks_per_sec k2;
       k4 \<leftarrow> create_oneshot_timer t (hz div 1000 * msec) 0 k3;
       Some (t, k4)
     }"

definition count_cfs_task :: "cpu \<Rightarrow> cpu" where
  "count_cfs_task k = k\<lparr>rq := (rq k)\<lparr>cfs_task_num := cfs_task_num (rq k) + 1\<rparr>\<rparr>"

definition create_usr_cfs_task :: "string \<Rightarrow> u32 \<Rightarrow> u32 \<Rightarrow> nat \<Rightarrow> u32 \<Rightarrow> cpu \<Rightarrow> (u32 \<times> cpu) option" where
  "create_usr_cfs_task name fn pri app_idx lr k =
     do {
       (t, k1) \<leftarrow> forkyi name fn CFS_TASK pri lr k;
       let k2 = init_rb_of_se (se_of t) (k1\<lparr>upt := (upt k1)(app_idx := t)\<rparr>);
       k3 \<leftarrow> enqueue_se_to_runq (se_of t) k2;
       Some (t, count_cfs_task k3)
     }"

definition create_cfs_task :: "string \<Rightarrow> u32 \<Rightarrow> u32 \<Rightarrow> u32 \<Rightarrow> u32 \<Rightarrow> cpu \<Rightarrow> (u32 \<times> cpu) option" where
  "create_cfs_task name fn pri arg lr k =
     do {
       (t, k1) \<leftarrow> forkyi name fn CFS_TASK pri lr k;
       let k2 = init_rb_of_se (se_of t) (upd_task t (\<lambda>x. x\<lparr>targ := arg\<rparr>) k1);
       k3 \<leftarrow> enqueue_se_to_runq (se_of t) k2;
       Some (t, count_cfs_task k3)
     }"

definition create_rt_task :: "string \<Rightarrow> u32 \<Rightarrow> u32 \<Rightarrow> u32 \<Rightarrow> cpu \<Rightarrow> (u32 \<times> cpu) option" where
  "create_rt_task name h msec lr k =
     do {
       (t, k1) \<leftarrow> forkyi name h RT_TASK 0 lr k;
       let k2 = upd_task t (\<lambda>x. x\<lparr>timeinterval := msec, tstate := TASK_RUNNING\<rparr>) k1;
       k3 \<leftarrow> create_rt_timer t msec 0 (k2\<lparr>irq_off := True\<rparr>);
       Some (t, k3\<lparr>irq_off := False\<rparr>)
     }"

definition init_shell :: "fn_table \<Rightarrow> u32 \<Rightarrow> cpu \<Rightarrow> cpu option" where
  "init_shell fns lr k =
     do {
       (t, k1) \<leftarrow> forkyi ''shell'' (fns ''shell'') CFS_TASK 2 lr k;
       k2 \<leftarrow> enqueue_se_to_runq (se_of t) (init_rb_of_se (se_of t) k1);
       Some (count_cfs_task k2)
     }"

definition init_idletask :: "cpu \<Rightarrow> cpu option" where
  "init_idletask k =
     do {
       (pt, k1) \<leftarrow> kalloc SIZEOF_task_struct k;
       let nm = (if cpuid k1 = 0 then ''idle task'' else ''idle task secondary'');
       let k2 = set_prev (task_lh pt) 0 (set_next (task_lh pt) 0 k1);
       let k3 = upd_task pt (\<lambda>t. t\<lparr>tname := nm, yield_task := 0, ttype := CFS_TASK, missed_cnt := 0,
                  pid := cpuid k1, preempted := 0, tstate := TASK_RUNNING\<rparr>) k2;
       let k4 = upd_se (se_of pt) (\<lambda>s. s\<lparr>ticks_consumed := 0, jiffies_vruntime := 0, jiffies_consumed := 0,
                  priority := 16, pri_div_shift := 4\<rparr>) k3;
       Some (k4\<lparr>idle_task := pt, current := pt, first_task := pt, last_task := pt, task_created_num := 1\<rparr>)
     }"

definition create_cfs_workers :: "fn_table \<Rightarrow> u32 \<Rightarrow> cpu \<Rightarrow> cpu option" where
  "create_cfs_workers fns lr k =
     do {
       k1 \<leftarrow> (if cfs_worker_num k = 0 then map_option snd (create_cfs_task ''cfs_worker1'' (fns ''cfs_dummy1'') 8 0 lr k)
              else if cfs_worker_num k = 1 then map_option snd (create_cfs_task ''cfs_worker2'' (fns ''cfs_dummy2'') 4 0 lr k)
              else if cfs_worker_num k = 2 then map_option snd (create_cfs_task ''cfs_worker3'' (fns ''cfs_dummy3'') 4 0 lr k)
              else Some k);
       Some (k1\<lparr>cfs_worker_num := cfs_worker_num k1 + 1\<rparr>)
     }"

definition create_rt_workers :: "fn_table \<Rightarrow> u32 \<Rightarrow> cpu \<Rightarrow> cpu option" where
  "create_rt_workers fns lr k =
     do {
       (t, k1) \<leftarrow> create_rt_task ''rt_worker1'' (fns ''rt_worker1'') 120 lr k;
       map_option snd (create_rt_task ''rt_worker2'' (fns ''rt_worker2'') 125 lr k1)
     }"

section \<open>The bodies of the worker tasks\<close>

definition rt_begin :: "u32 \<Rightarrow> cpu \<Rightarrow> cpu" where
  "rt_begin me k = upd_task me (\<lambda>t. t\<lparr>done_flag := 0\<rparr>) k"
definition rt_worker1 :: "u32 \<Rightarrow> cpu \<Rightarrow> cpu" where
  "rt_worker1 me k = yieldyi (upd_task me (\<lambda>t. t\<lparr>done_flag := 1\<rparr>) (rt_begin me k))"
definition rt_worker2 :: "u32 \<Rightarrow> cpu \<Rightarrow> cpu" where
  "rt_worker2 me k = yieldyi (upd_task me (\<lambda>t. t\<lparr>done_flag := 1\<rparr>) (rt_begin me k))"
definition oneshot_worker :: "cpu \<Rightarrow> cpu" where "oneshot_worker k = yieldyi k"

definition next_cnt :: "u32 \<Rightarrow> u32" where
  "next_cnt cnt = (if cnt + 1 > 1000000 then 0 else cnt + 1)"

definition cfs_dummy1 :: "u32 \<Rightarrow> cpu \<Rightarrow> (u32 \<times> cpu) option" where
  "cfs_dummy1 cnt k = map_option (\<lambda>k1. (next_cnt cnt, k1)) (mdelay 1000 k)"
definition cfs_dummy2 :: "u32 \<Rightarrow> cpu \<Rightarrow> (u32 \<times> cpu) option" where
  "cfs_dummy2 cnt k = map_option (\<lambda>k1. (next_cnt cnt, k1)) (mdelay 1000 k)"
definition cfs_dummy3 :: "u32 \<Rightarrow> cpu \<Rightarrow> (u32 \<times> cpu) option" where
  "cfs_dummy3 cnt k = map_option (\<lambda>k1. (next_cnt cnt, k1)) (mdelay 1000 k)"

definition TEST_KMALLOC_SZ :: nat where "TEST_KMALLOC_SZ = 1024 * 1024"

definition write_pattern :: "u32 \<Rightarrow> nat \<Rightarrow> (u32 \<Rightarrow> u8) \<Rightarrow> u32 \<Rightarrow> u8" where
  "write_pattern pc n = for_upto n (\<lambda>i m. m(pc + of_nat i := of_nat (i mod 256)))"

definition check_pattern :: "u32 \<Rightarrow> nat \<Rightarrow> (u32 \<Rightarrow> u8) \<Rightarrow> nat" where
  "check_pattern pc n m =
     (case List.find (\<lambda>i. m (pc + of_nat i) \<noteq> of_nat (i mod 256)) [0..<n] of None \<Rightarrow> n | Some i \<Rightarrow> i)"

text \<open>The memory test up to its final loop: the bytes of memory, and whether the test passed.\<close>

definition test_mem :: "(u32 \<Rightarrow> u8) \<Rightarrow> cpu \<Rightarrow> (bool \<times> (u32 \<Rightarrow> u8) \<times> cpu) option" where
  "test_mem m k =
     do {
       (pc, k1) \<leftarrow> kalloc (of_nat TEST_KMALLOC_SZ) k;
       if pc = 0 then Some (False, m, k1)
       else
         (let m1 = write_pattern pc TEST_KMALLOC_SZ m in
          if check_pattern pc TEST_KMALLOC_SZ m1 = TEST_KMALLOC_SZ
          then do { mm \<leftarrow> kfree pc (kmm k1); Some (True, m1, k1\<lparr>kmm := mm\<rparr>) }
          else Some (False, m1, k1))
     }"

text \<open>The file test of builds with \<open>FILE_SYSTEM\<close>, up to its final loop. The file functions it calls are not in the
  repository: they are parameters, with a state of their own. The result says which of the two verdicts it
  prints last, the other part of the result is the index it stopped at.\<close>

definition FILE_TEST_LEN :: nat where "FILE_TEST_LEN = 1024"

record ('p, 's) file_api =
  open_file :: "string \<Rightarrow> 's \<Rightarrow> 'p \<times> 's"
  write_file :: "'p \<Rightarrow> nat \<Rightarrow> (nat \<Rightarrow> u8) \<Rightarrow> 's \<Rightarrow> 's"
  reset_file :: "'p \<Rightarrow> 's \<Rightarrow> 's"
  read_file :: "'p \<Rightarrow> nat \<Rightarrow> (nat \<Rightarrow> u8) \<Rightarrow> 's \<Rightarrow> (nat \<Rightarrow> u8) \<times> 's"
  close_file :: "'p \<Rightarrow> 's \<Rightarrow> 's"

definition cfs_worker2 :: "('p, 's) file_api \<Rightarrow> (nat \<Rightarrow> u8) \<Rightarrow> (nat \<Rightarrow> u8) \<Rightarrow> 's \<Rightarrow> bool \<times> nat \<times> 's" where
  "cfs_worker2 api buf temp s =
     (let (fp, s1) = open_file api ''test'' s;
          buf1 = for_upto FILE_TEST_LEN (\<lambda>i b. b(i := of_nat (i mod 256))) buf;
          s2 = reset_file api fp (write_file api fp FILE_TEST_LEN buf1 s1);
          (temp1, s3) = read_file api fp FILE_TEST_LEN temp s2;
          i = (case List.find (\<lambda>i. buf1 i \<noteq> temp1 i) [0..<FILE_TEST_LEN] of None \<Rightarrow> FILE_TEST_LEN | Some i \<Rightarrow> i)
      in (i = FILE_TEST_LEN, i, close_file api fp s3))"

section \<open>The work queue\<close>

definition MAX_WORKQ :: int where "MAX_WORKQ = 32"
definition SIZEOF_worker :: u32 where "SIZEOF_worker = 268"

definition enqueue_workq :: "u32 \<Rightarrow> u32 \<Rightarrow> worker \<Rightarrow> ret \<times> worker" where
  "enqueue_workq func arg w =
     (let w1 = w\<lparr>wkq := (wkq w)(nat (enq_idx w) := \<lparr>wfunc = func, warg = arg\<rparr>)\<rparr>
      in (NO_ERR, w1\<lparr>enq_idx := (if enq_idx w1 = MAX_WORKQ - 1 then 0 else enq_idx w1 + 1)\<rparr>))"

text \<open>The items one round of \<open>workq_worker\<close> runs, and the queue it leaves.\<close>

definition workq_items :: "worker \<Rightarrow> workq list" where
  "workq_items w =
     (let e = (if enq_idx w < deq_idx w then enq_idx w + MAX_WORKQ else enq_idx w)
      in map (\<lambda>i. wkq w (nat (i mod MAX_WORKQ))) [deq_idx w..e - 1])"

definition workq_done :: "worker \<Rightarrow> worker" where
  "workq_done w =
     (let e = (if enq_idx w < deq_idx w then enq_idx w + MAX_WORKQ else enq_idx w)
      in w\<lparr>deq_idx := (if e \<ge> MAX_WORKQ then e - MAX_WORKQ else e)\<rparr>)"

primrec run_items :: "(u32 \<Rightarrow> u32 \<Rightarrow> cpu \<Rightarrow> cpu option) \<Rightarrow> workq list \<Rightarrow> cpu \<Rightarrow> cpu option" where
  "run_items call [] k = Some k"
| "run_items call (x # xs) k = do { k1 \<leftarrow> call (wfunc x) (warg x) k; run_items call xs k1 }"

definition workq_worker :: "(u32 \<Rightarrow> u32 \<Rightarrow> cpu \<Rightarrow> cpu option) \<Rightarrow> u32 \<Rightarrow> cpu \<Rightarrow> cpu option" where
  "workq_worker call me k =
     do {
       let w = work k;
       k1 \<leftarrow> run_items call (workq_items w) k;
       let k2 = k1\<lparr>work := (work k1)\<lparr>deq_idx := deq_idx (workq_done w)\<rparr>\<rparr>;
       k3 \<leftarrow> dequeue_se_to_wq (se_of me) k2;
       Some (yieldyi k3)
     }"

definition wakeup_workq_worker :: "cpu \<Rightarrow> cpu option" where
  "wakeup_workq_worker k = enqueue_se_to_runq (se_of (wtask (work k))) k"

text \<open>\<open>sprintk\<close> does not terminate what \<open>%x\<close> writes: \<open>junk\<close> is what the stack holds after the name.\<close>

definition create_workq_worker :: "fn_table \<Rightarrow> u32 \<Rightarrow> string \<Rightarrow> cpu \<Rightarrow> cpu option" where
  "create_workq_worker fns lr junk k =
     do {
       (a, k1) \<leftarrow> kalloc SIZEOF_worker k;
       let k2 = k1\<lparr>qworker := a, work := (work k1)\<lparr>enq_idx := 0, deq_idx := 0\<rparr>\<rparr>;
       let nm = ''workq_worker:'' @ rev (hex_loop (cpuid k2) []) @ junk;
       (t, k3) \<leftarrow> create_cfs_task nm (fns ''workq_worker'') 4 0 lr k2;
       Some (k3\<lparr>work := (work k3)\<lparr>wtask := t\<rparr>\<rparr>)
     }"

section \<open>The shell\<close>

definition CMD_LEN :: nat where "CMD_LEN = 32"
definition COPROC_SRC_ADDR :: u32 where "COPROC_SRC_ADDR = 0x10000000"
definition COPROC_DAT_LEN :: u32 where "COPROC_DAT_LEN = 0x1000"
definition COPROC_DST_ADDR :: u32 where "COPROC_DST_ADDR = COPROC_SRC_ADDR + COPROC_DAT_LEN"

text \<open>Reading a command: \<open>acc\<close> is what is in the buffer; \<open>None\<close> while the input has no end of line.\<close>

fun read_cmdline :: "string \<Rightarrow> string \<Rightarrow> (string \<times> string) option" where
  "read_cmdline acc [] = None"
| "read_cmdline acc (b # inp) =
     (let acc' = acc @ [b] in
      if b \<noteq> CHR 0x0A \<and> b \<noteq> CHR 0x0D \<and> length acc' < CMD_LEN then read_cmdline acc' inp
      else Some (butlast acc', inp))"

definition c_string :: "string \<Rightarrow> string" where "c_string s = takeWhile (\<lambda>c. c \<noteq> CHR 0x00) s"

text \<open>What a command asks of another component.\<close>

datatype shell_effect =
    NoEffect | ShowHelp | ShowStat "stat_line list" | MailTaskStat "stat_line list" | MailOdev | NotInRunq int
  | LoadApp | StartConsumer | StopConsumer | StartDma u32 u32 u32 | UnknownCmd | TestMem

primrec find_pid :: "nat \<Rightarrow> u32 \<Rightarrow> int \<Rightarrow> cpu \<Rightarrow> u32 option" where
  "find_pid 0 lh p k = None"
| "find_pid (Suc n) lh p k =
     (if pid (tasks k (lh_task lh)) = of_int p then Some (lh_task lh)
      else find_pid n (lnext (lheads k lh)) p k)"

definition shell_sleep :: "int \<Rightarrow> cpu \<Rightarrow> (shell_effect \<times> cpu) option" where
  "shell_sleep p k =
     (case find_pid (unat (cfs_task_num (rq k))) (task_lh (first_task k)) p k of
        Some t \<Rightarrow> if tstate (tasks k t) = TASK_RUNNING
                   then map_option (Pair NoEffect) (dequeue_se_to_wq (se_of t) k)
                   else Some (NotInRunq p, k)
      | None \<Rightarrow> Some (NotInRunq p, k))"

definition shell_run :: "int \<Rightarrow> cpu \<Rightarrow> (shell_effect \<times> cpu) option" where
  "shell_run p k =
     (case find_pid (unat (cfs_task_num (rq k))) (task_lh (first_task k)) p k of
        Some t \<Rightarrow> if tstate (tasks k t) = TASK_WAITING
                   then map_option (Pair NoEffect) (enqueue_se_to_runq (se_of t) k)
                   else Some (NotInRunq p, k)
      | None \<Rightarrow> Some (NotInRunq p, k))"

text \<open>One command line; \<open>inp\<close> is the input after it, from which \<open>sleep\<close> and \<open>run\<close> take the digit.\<close>

definition shell_cmd :: "fn_table \<Rightarrow> u32 \<Rightarrow> string \<Rightarrow> string \<Rightarrow> cpu \<Rightarrow> (shell_effect \<times> string \<times> cpu) option" where
  "shell_cmd fns lr line inp k =
     (if line = [] \<or> line = ''help'' then Some (ShowHelp, inp, k)
      else if line = ''taskstat'' then do { s \<leftarrow> print_task_stat k; Some (MailTaskStat s, inp, k) }
      else if line = ''whoami'' then Some (NoEffect, inp, k\<lparr>show_stat := 1\<rparr>)
      else if line = ''hide whoami'' then Some (NoEffect, inp, k\<lparr>show_stat := 0\<rparr>)
      else if line = ''cfs task'' then do { k1 \<leftarrow> create_cfs_workers fns lr k; Some (NoEffect, inp, k1) }
      else if line = ''rt task'' then do { k1 \<leftarrow> create_rt_workers fns lr k; Some (NoEffect, inp, k1) }
      else if line = ''oneshot task'' then
        do { (t, k1) \<leftarrow> create_oneshot_task ''oneshot_task'' (fns ''oneshot_worker'') 1000 lr k;
             Some (NoEffect, inp, k1) }
      else if line = ''sleep'' then
        (case inp of [] \<Rightarrow> None
         | b # inp' \<Rightarrow> do { (e, k1) \<leftarrow> shell_sleep (of_char b - 48) k; Some (e, inp', k1) })
      else if line = ''run'' then
        (case inp of [] \<Rightarrow> None
         | b # inp' \<Rightarrow> do { (e, k1) \<leftarrow> shell_run (of_char b - 48) k; Some (e, inp', k1) })
      else if line = ''apprun'' then Some (LoadApp, inp, k)
      else if line = ''start cs'' then Some (StartConsumer, inp, k)
      else if line = ''stop cs'' then Some (StopConsumer, inp, k)
      else if line = ''start dma'' then
        Some (StartDma COPROC_SRC_ADDR COPROC_DST_ADDR COPROC_DAT_LEN, inp, k)
      else if line = ''sgi'' then Some (MailOdev, inp, k)
      else if line = ''test mem'' then
        do { (t, k1) \<leftarrow> create_cfs_task ''test_mem'' (fns ''test_mem'') 4 0 lr k; Some (NoEffect, inp, k1) }
      else Some (UnknownCmd, inp, k))"

definition shell :: "fn_table \<Rightarrow> u32 \<Rightarrow> string \<Rightarrow> cpu \<Rightarrow> (shell_effect \<times> string \<times> cpu) option" where
  "shell fns lr inp k =
     do { (line, inp1) \<leftarrow> read_cmdline [] inp; shell_cmd fns lr (c_string line) inp1 k }"

section \<open>Properties of the work queue\<close>

text \<open>The queue as a list, for indices inside the ring.\<close>

definition work_wf :: "worker \<Rightarrow> bool" where
  "work_wf w \<longleftrightarrow> 0 \<le> enq_idx w \<and> enq_idx w < 32 \<and> 0 \<le> deq_idx w \<and> deq_idx w < 32"

definition work_end :: "worker \<Rightarrow> int" where
  "work_end w = (if enq_idx w < deq_idx w then enq_idx w + 32 else enq_idx w)"

lemma workq_items_eq: "workq_items w = map (\<lambda>i. wkq w (nat (i mod 32))) [deq_idx w..work_end w - 1]"
  by (simp add: workq_items_def work_end_def MAX_WORKQ_def Let_def)

lemma work_len: "work_wf w \<Longrightarrow> int (length (workq_items w)) = work_end w - deq_idx w \<and> work_end w - deq_idx w < 32"
  by (auto simp: workq_items_eq work_wf_def work_end_def)

lemma enqueue_workq_wf: "work_wf w \<Longrightarrow> work_wf (snd (enqueue_workq f a w))"
  by (auto simp: work_wf_def enqueue_workq_def Let_def MAX_WORKQ_def)

lemma mod32_eq: "0 \<le> i \<Longrightarrow> i < 64 \<Longrightarrow> i mod 32 = (if i < 32 then i else i - 32)" for i :: int
  using mod_add_self2 [of "i - 32" 32] mod_pos_pos_trivial [of i 32] mod_pos_pos_trivial [of "i - 32" 32]
  by (cases "i < 32") auto

lemma enqueue_items:
  assumes wf: "work_wf w" and room: "length (workq_items w) < 31"
  shows "workq_items (snd (enqueue_workq f a w)) = workq_items w @ [\<lparr>wfunc = f, warg = a\<rparr>]"
proof -
  let ?w' = "snd (enqueue_workq f a w)"
  have b: "0 \<le> enq_idx w" "enq_idx w < 32" "0 \<le> deq_idx w" "deq_idx w < 32"
    using wf by (simp_all add: work_wf_def)
  have len: "work_end w - deq_idx w < 31" "deq_idx w \<le> work_end w"
    using work_len [OF wf] room by linarith+
  have d: "deq_idx ?w' = deq_idx w"
    "wkq ?w' = (wkq w)(nat (enq_idx w) := \<lparr>wfunc = f, warg = a\<rparr>)"
    "enq_idx ?w' = (if enq_idx w = 31 then 0 else enq_idx w + 1)"
    by (simp_all add: enqueue_workq_def Let_def MAX_WORKQ_def)
  have e: "work_end ?w' = work_end w + 1"
    using b len by (auto simp: work_end_def d split: if_splits)
  have m: "work_end w mod 32 = enq_idx w" using b by (auto simp: work_end_def)
  have other: "nat (i mod 32) \<noteq> nat (enq_idx w)" if "deq_idx w \<le> i" "i < work_end w" for i
    using that b len by (auto simp: work_end_def mod32_eq split: if_splits)
  have "[deq_idx w..work_end w] = [deq_idx w..work_end w - 1] @ [work_end w]"
    using len(2) by (simp add: upto_rec2)
  then show ?thesis
    unfolding workq_items_eq d e using other m by simp
qed

lemma workq_done_items: "work_wf w \<Longrightarrow> workq_items (workq_done w) = [] \<and> work_wf (workq_done w)"
  by (auto simp: workq_items_eq work_end_def workq_done_def work_wf_def MAX_WORKQ_def Let_def)

text \<open>C26. The work queue is a first-in first-out list: an item queued while fewer than 31 are pending is
  added at the end, a round of the worker runs exactly the pending items in order and leaves the queue
  empty. Nothing stops the 32nd item: it makes the indices equal, and all pending work is forgotten.\<close>

theorem workq_refines_list:
  assumes "work_wf w"
  shows "workq_items (snd (enqueue_workq f a w))
      = (if length (workq_items w) < 31 then workq_items w @ [\<lparr>wfunc = f, warg = a\<rparr>] else [])
    \<and> work_wf (snd (enqueue_workq f a w))
    \<and> workq_items (workq_done w) = [] \<and> work_wf (workq_done w)"
proof (cases "length (workq_items w) < 31")
  case True
  then show ?thesis
    using enqueue_items [OF assms] enqueue_workq_wf [OF assms] workq_done_items [OF assms] by simp
next
  case False
  then have "work_end w - deq_idx w = 31" using work_len [OF assms] by linarith
  then have "workq_items (snd (enqueue_workq f a w)) = []"
    using assms by (auto simp: workq_items_eq enqueue_workq_def Let_def MAX_WORKQ_def work_end_def work_wf_def
        split: if_splits)
  then show ?thesis
    using False enqueue_workq_wf [OF assms] workq_done_items [OF assms] by simp
qed

theorem workq_refines_list_witness:
  "workq_items (snd (enqueue_workq 7 8 (work idle_cpu))) = [\<lparr>wfunc = 7, warg = 8\<rparr>]"
  using workq_refines_list [of "work idle_cpu" 7 8]
  by (simp add: work_wf_def idle_cpu_def workq_items_def)

section \<open>Properties of the memory test and of the shell\<close>

lemma write_pattern_other:
  "(\<And>i. i < n \<Longrightarrow> a \<noteq> pc + of_nat i) \<Longrightarrow> write_pattern pc n m a = m a"
  by (induction n) (auto simp: write_pattern_def)

lemma write_pattern_at:
  "n \<le> 2 ^ 32 \<Longrightarrow> i < n \<Longrightarrow> write_pattern pc n m (pc + of_nat i) = of_nat (i mod 256)"
proof (induction n)
  case (Suc n)
  have step: "write_pattern pc (Suc n) m = (write_pattern pc n m)(pc + of_nat n := of_nat (n mod 256))"
    by (simp add: write_pattern_def)
  show ?case
  proof (cases "i = n")
    case False
    have "(of_nat i :: u32) \<noteq> of_nat n"
      using Suc.prems False by (simp add: word_of_nat_eq_iff take_bit_nat_eq_self)
    then show ?thesis using Suc False by (simp add: step)
  qed (simp add: step)
qed simp

text \<open>The pattern check of the memory test accepts what the pattern loop wrote, byte for byte, and the
  loop writes nothing outside the allocated megabyte.\<close>

theorem test_mem_pattern:
  "check_pattern pc TEST_KMALLOC_SZ (write_pattern pc TEST_KMALLOC_SZ m) = TEST_KMALLOC_SZ
   \<and> (\<forall>a. a \<notin> (\<lambda>i. pc + of_nat i) ` {..<TEST_KMALLOC_SZ} \<longrightarrow> write_pattern pc TEST_KMALLOC_SZ m a = m a)"
proof -
  have "TEST_KMALLOC_SZ \<le> 2 ^ 32" by (simp add: TEST_KMALLOC_SZ_def)
  then have "List.find (\<lambda>i. write_pattern pc TEST_KMALLOC_SZ m (pc + of_nat i) \<noteq> of_nat (i mod 256)) [0..<TEST_KMALLOC_SZ] = None"
    using write_pattern_at by (auto simp: find_None_iff)
  then show ?thesis
    using write_pattern_other [of TEST_KMALLOC_SZ] by (auto simp: check_pattern_def)
qed

theorem test_mem_pattern_witness:
  "write_pattern 0x1000 TEST_KMALLOC_SZ (\<lambda>_. 7) 0 = 7"
proof -
  have "(0 :: u32) \<notin> (\<lambda>i. 0x1000 + of_nat i) ` {..<TEST_KMALLOC_SZ}"
  proof
    assume "(0 :: u32) \<in> (\<lambda>i. 0x1000 + of_nat i) ` {..<TEST_KMALLOC_SZ}"
    then obtain i where i: "i < TEST_KMALLOC_SZ" "(0 :: u32) = 0x1000 + of_nat i" by auto
    have "unat (0x1000 + of_nat i :: u32) = 0x1000 + i"
      using unat_add_below [of "0x1000" i] i(1) by (simp add: TEST_KMALLOC_SZ_def)
    then show False using i(2) by (metis add_is_0 numeral_neq_zero unsigned_0)
  qed
  then show ?thesis using test_mem_pattern [where pc = "0x1000" and m = "\<lambda>_. 7"] by simp
qed

lemma find_pid_chain:
  assumes "tchain (lheads k) ts" and "n \<le> length ts" and "0 < n"
  shows "find_pid n (task_lh (hd ts)) p k = List.find (\<lambda>t. pid (tasks k t) = of_int p) (take n ts)"
  using assms
proof (induction n arbitrary: ts)
  case (Suc n)
  then obtain t us where ts: "ts = t # us" by (cases ts) auto
  show ?case
  proof (cases "n = 0")
    case False
    then obtain u vs where us: "us = u # vs" using Suc.prems(2) ts by (cases us) auto
    then have "lnext (lheads k (task_lh t)) = task_lh u" using Suc.prems(1) ts by simp
    then show ?thesis using Suc.IH [of us] Suc.prems False ts us by simp
  qed (simp add: ts)
qed simp

text \<open>The \<open>sleep\<close> command finds the task with the given number among the first \<open>cfs_task_num\<close> tasks of
  the ring, sends it to the wait queue when it runs, and otherwise reports it without any effect. Tasks
  further along the ring, as there are once real-time tasks were created, are never found.\<close>

theorem shell_sleep_behaviour:
  assumes "task_ring k ts" and "unat (cfs_task_num (rq k)) \<le> length ts" and "0 < unat (cfs_task_num (rq k))"
  shows "shell_sleep p k =
    (case List.find (\<lambda>t. pid (tasks k t) = of_int p) (take (unat (cfs_task_num (rq k))) ts) of
       Some t \<Rightarrow> if tstate (tasks k t) = TASK_RUNNING
                  then map_option (Pair NoEffect) (dequeue_se_to_wq (se_of t) k) else Some (NotInRunq p, k)
     | None \<Rightarrow> Some (NotInRunq p, k))"
proof -
  have "first_task k = hd ts" "tchain (lheads k) ts" using assms(1) by (simp_all add: task_ring_def)
  then show ?thesis using find_pid_chain [OF _ assms(2,3), of k p] by (simp add: shell_sleep_def)
qed

theorem shell_sleep_behaviour_witness:
  "shell_sleep 3 (count_cfs_task idle_cpu) = Some (NotInRunq 3, count_cfs_task idle_cpu)"
proof -
  have r: "task_ring (count_cfs_task idle_cpu) [0x1000]"
    by (rule task_ring_cong [OF idle_ring]) (simp_all add: count_cfs_task_def)
  show ?thesis
    by (subst shell_sleep_behaviour [OF r]) (simp_all add: count_cfs_task_def idle_cpu_def)
qed

end
