(* ===== verification/Faults.thy ===== *)
theory Faults
  imports PageTable Printk "HOL-Library.Monad_Syntax"
begin

unbundle bit_operations_syntax

text \<open>
  The exception handlers (src/kernel/core/faults.c). Handlers that report and then loop for ever have the value \<open>None\<close>. The fault
  address and the base of the page directory, which \<open>handle_fault\<close> reads from coprocessor registers, are
  arguments (\<open>pfa\<close>, \<open>pda\<close>); \<open>user_str\<close> is the string at an address of an application.
\<close>

section \<open>Handlers\<close>

definition TRANSLATION_FLT_SEC :: u32 where "TRANSLATION_FLT_SEC = 0x5"
definition TRANSLATION_FLT_PG :: u32 where "TRANSLATION_FLT_PG = 0x7"
definition SYS_EXIT :: int where "SYS_EXIT = 0x0"
definition SYS_CMD :: int where "SYS_CMD = 0x1"
definition SYS_WRITE :: int where "SYS_WRITE = 0x2"
definition SYS_READ :: int where "SYS_READ = 0x3"
definition SYS_SLEEP :: int where "SYS_SLEEP = 0x4"
definition USER_APP_BASE :: u32 where "USER_APP_BASE = 0x1000000"
definition USER_APP_GAP :: u32 where "USER_APP_GAP = 0x100000"

text \<open>The loop \<open>for (;;)\<close> the handlers end in.\<close>

partial_function (option) spin :: "mmu \<Rightarrow> mmu option" where
  "spin st = spin st"

lemma spin_never_returns [simp]: "spin st = None"
proof (rule ccontr)
  assume "spin st \<noteq> None"
  then obtain y where "spin st = Some y" by auto
  then show False by (rule spin.raw_induct [where P = "\<lambda>st y. False", rotated])
qed

definition platform_undefined_handler :: "mmu \<Rightarrow> mmu option" where
  "platform_undefined_handler st = do { out \<leftarrow> printk (''undefined cmd exception!!'' @ [CHR 0x0A]) []; spin st }"

definition platform_prefetch_abort_handler :: "mmu \<Rightarrow> mmu option" where
  "platform_prefetch_abort_handler st = do { out \<leftarrow> printk (''prefetch abort exception!!'' @ [CHR 0x0A]) []; spin st }"

definition kernel_abort :: "mmu \<Rightarrow> mmu option" where
  "kernel_abort st = do { out \<leftarrow> printk (''data abort exception!!'' @ [CHR 0x0A]) []; spin st }"

text \<open>The result with the characters printed; the string of the application is the format.\<close>

definition platform_syscall_handler :: "(u32 \<Rightarrow> string) \<Rightarrow> u32 \<Rightarrow> u32 \<Rightarrow> int \<Rightarrow> (ret \<times> string) option" where
  "platform_syscall_handler user_str msg idx sys_num =
     (if sys_num = SYS_EXIT then Some (NO_ERR, [])
      else if sys_num = SYS_CMD then Some (NO_ERR, [])
      else if sys_num = SYS_WRITE then
        map_option (Pair NO_ERR) (printk (user_str (msg + (USER_APP_BASE + USER_APP_GAP * idx))) [])
      else if sys_num = SYS_READ then Some (NO_ERR, [])
      else if sys_num = SYS_SLEEP then Some (NO_ERR, [])
      else Some (RetMinusOne, []))"

definition platform_data_abort_handler :: "u32 \<Rightarrow> u32 \<Rightarrow> u32 \<Rightarrow> mmu \<Rightarrow> mmu option" where
  "platform_data_abort_handler dfsr pfa pda st =
     (if dfsr AND TRANSLATION_FLT_PG = TRANSLATION_FLT_PG then Some (handle_fault pfa pda st)
      else if dfsr AND TRANSLATION_FLT_SEC = TRANSLATION_FLT_SEC then Some (handle_fault pfa pda st)
      else kernel_abort st)"

section \<open>Properties\<close>

text \<open>The masks compare only some bits of the status: a permission fault (13 for a section, 15 for a page) is taken for
  a translation fault.\<close>

lemma permission_fault_handled:
  "platform_data_abort_handler 0xF pfa pda st = Some (handle_fault pfa pda st)"
  "platform_data_abort_handler 0xD pfa pda st = Some (handle_fault pfa pda st)"
  by (simp_all add: platform_data_abort_handler_def TRANSLATION_FLT_PG_def TRANSLATION_FLT_SEC_def)

text \<open>C11. The masks of \<open>platform_data_abort_handler\<close> split the statuses in two. A status with both bits of the section
  fault, which are the translation faults 5 and 7 but also the permission faults 0xD and 0xF, is handled
  as a missing page: at a heap address, with a free frame left, the handler returns with the page of the
  address mapped to a frame that was free and every other address translated as before. Any other status never returns,
  at whatever address and in whatever state.\<close>

theorem data_abort_maps_page:
  assumes "mmu_inv H st" and "vpage va \<in> H" and "fp_used (cur_fp st) \<noteq> fp_pool (cur_fp st)"
  shows "if dfsr AND TRANSLATION_FLT_SEC = TRANSLATION_FLT_SEC
    then \<exists>st' f. platform_data_abort_handler dfsr va KERN_PGD_START_BASE st = Some st' \<and> mmu_inv H st'
      \<and> f \<in> fp_pool (cur_fp st) \<and> f \<notin> fp_used (cur_fp st) \<and> fp_used (cur_fp st') = insert f (fp_used (cur_fp st))
      \<and> (\<forall>va'. walk (pgmem st') KERN_PGD_START_BASE va'
          = (if vpage va' = vpage va then Some (FRAMETOPHYADDR f OR (va' AND 0xFFF)) else walk (pgmem st) KERN_PGD_START_BASE va'))
    else \<forall>va' pda st'. platform_data_abort_handler dfsr va' pda st' = None"
proof (cases "dfsr AND TRANSLATION_FLT_SEC = TRANSLATION_FLT_SEC")
  case True
  then have "platform_data_abort_handler dfsr va KERN_PGD_START_BASE st = Some (handle_fault va KERN_PGD_START_BASE st)"
    by (simp add: platform_data_abort_handler_def)
  then show ?thesis using True handle_fault_maps_fresh_frame [OF assms] by auto
next
  case False
  have "dfsr AND TRANSLATION_FLT_PG \<noteq> TRANSLATION_FLT_PG"
  proof
    assume "dfsr AND TRANSLATION_FLT_PG = TRANSLATION_FLT_PG"
    then have "(dfsr AND TRANSLATION_FLT_PG) AND TRANSLATION_FLT_SEC = TRANSLATION_FLT_PG AND TRANSLATION_FLT_SEC" by (simp only:)
    then have "dfsr AND TRANSLATION_FLT_SEC = TRANSLATION_FLT_SEC"
      by (simp add: and.assoc TRANSLATION_FLT_PG_def TRANSLATION_FLT_SEC_def)
    with False show False ..
  qed
  then show ?thesis using False by (simp add: platform_data_abort_handler_def kernel_abort_def)
qed

theorem data_abort_maps_page_witness:
  "\<exists>st' f. platform_data_abort_handler 5 0xC4000123 KERN_PGD_START_BASE (first_mmu KERN_FRAME_NUM) = Some st'
    \<and> walk (pgmem st') KERN_PGD_START_BASE 0xC4000456 = Some (FRAMETOPHYADDR f OR 0x456)"
  using data_abort_maps_page [OF first_mmu_inv heap_page first_mmu_not_full, of 5]
  by (simp add: TRANSLATION_FLT_SEC_def) (auto simp: vpage_def)

end
