(* ===== verification/Loader.thy ===== *)
theory Loader
  imports FsPersist Mkfs Task Faults
begin

unbundle bit_operations_syntax

text \<open>
  The ELF loader (src/kernel/core/loader.c, the structures of inc/elf.h it reads): the application
  \<open>/App_i\<close> of the file system is copied segment by segment to its place in memory, \<open>main\<close> is looked
  up in its symbol table, and a user task is created at that address. Local variables that the code reads
  before it has set them are parameters; an entry size larger than the structure it is read into, a name
  that does not end inside its array, and a string that never ends give \<open>None\<close>.
\<close>

section \<open>ELF structures\<close>

definition load16 :: "mem \<Rightarrow> u32 \<Rightarrow> u32" where
  "load16 m p = ucast (m p) + ucast (m (p + 1)) * 0x100"

definition SIZEOF_Elf32_Ehdr :: u32 where "SIZEOF_Elf32_Ehdr = 52"
definition e_phoff :: "mem \<Rightarrow> u32" where "e_phoff b = load32 b 28"
definition e_shoff :: "mem \<Rightarrow> u32" where "e_shoff b = load32 b 32"
definition e_phentsize :: "mem \<Rightarrow> u32" where "e_phentsize b = load16 b 42"
definition e_phnum :: "mem \<Rightarrow> u32" where "e_phnum b = load16 b 44"
definition e_shentsize :: "mem \<Rightarrow> u32" where "e_shentsize b = load16 b 46"
definition e_shnum :: "mem \<Rightarrow> u32" where "e_shnum b = load16 b 48"

definition SIZEOF_Elf32_Phdr :: u32 where "SIZEOF_Elf32_Phdr = 32"
definition p_type :: "mem \<Rightarrow> u32" where "p_type b = load32 b 0"
definition p_offset :: "mem \<Rightarrow> u32" where "p_offset b = load32 b 4"
definition p_vaddr :: "mem \<Rightarrow> u32" where "p_vaddr b = load32 b 8"
definition p_filesz :: "mem \<Rightarrow> u32" where "p_filesz b = load32 b 16"
definition PT_LOAD :: u32 where "PT_LOAD = 1"

definition SIZEOF_Elf32_Shdr :: u32 where "SIZEOF_Elf32_Shdr = 40"
definition sh_type :: "mem \<Rightarrow> u32" where "sh_type b = load32 b 4"
definition sh_offset :: "mem \<Rightarrow> u32" where "sh_offset b = load32 b 16"
definition sh_size :: "mem \<Rightarrow> u32" where "sh_size b = load32 b 20"
definition sh_link :: "mem \<Rightarrow> u32" where "sh_link b = load32 b 24"
definition SHT_SYMTAB :: u32 where "SHT_SYMTAB = 2"

definition SIZEOF_Elf32_Sym :: u32 where "SIZEOF_Elf32_Sym = 16"
definition st_name :: "mem \<Rightarrow> u32 \<Rightarrow> u32" where "st_name m s = load32 m s"
definition st_value :: "mem \<Rightarrow> u32 \<Rightarrow> u32" where "st_value m s = load32 m (s + 4)"

definition MAX_USR_TASK :: u32 where "MAX_USR_TASK = 1"

section \<open>Loading\<close>

text \<open>The memory and the file system.\<close>

record ('l, 'f) loader =
  lmem :: mem
  lfs :: "('l, 'f) fs_state"

definition seek_set :: "('l, 'f) lfs_api \<Rightarrow> file_obj \<Rightarrow> u32 \<Rightarrow> ('l, 'f) loader \<Rightarrow> fs_ret \<times> ('l, 'f) loader" where
  "seek_set api fp off st = (let (r, s) = fs_seek api fp off SLFS_SEEK_SET (lfs st) in (r, st\<lparr>lfs := s\<rparr>))"

definition read_local :: "('l, 'f) lfs_api \<Rightarrow> file_obj \<Rightarrow> mem \<Rightarrow> u32 \<Rightarrow> ('l, 'f) loader \<Rightarrow> fs_ret \<times> mem \<times> ('l, 'f) loader" where
  "read_local api fp b n st = (let (r, b, s) = fs_read api fp b n (lfs st) in (r, b, st\<lparr>lfs := s\<rparr>))"

definition read_mem :: "('l, 'f) lfs_api \<Rightarrow> file_obj \<Rightarrow> u32 \<Rightarrow> u32 \<Rightarrow> ('l, 'f) loader \<Rightarrow> fs_ret \<times> ('l, 'f) loader" where
  "read_mem api fp dst n st =
     (let (r, b, s) = fs_read api fp (\<lambda>i. lmem st (dst + i)) n (lfs st)
      in (r, st\<lparr>lmem := \<lambda>a. b (a - dst), lfs := s\<rparr>))"

fun load_segments :: "('l, 'f) lfs_api \<Rightarrow> file_obj \<Rightarrow> u32 \<Rightarrow> mem \<Rightarrow> nat \<Rightarrow> u32 \<Rightarrow> mem \<Rightarrow> ('l, 'f) loader
    \<Rightarrow> (fs_ret \<times> ('l, 'f) loader) option" where
  "load_segments api fp base ehdr 0 i phdr st = Some (Ret NO_ERR, st)"
| "load_segments api fp base ehdr (Suc n) i phdr st =
     (let (r, st1) = seek_set api fp (e_phoff ehdr + i * e_phentsize ehdr) st in
      if failed r then Some (r, st1)
      else if e_phentsize ehdr > SIZEOF_Elf32_Phdr then None
      else (let (r, phdr, st2) = read_local api fp phdr (e_phentsize ehdr) st1 in
        if failed r then Some (r, st2)
        else if p_type phdr \<noteq> PT_LOAD \<or> p_filesz phdr = 0 then load_segments api fp base ehdr n (i + 1) phdr st2
        else (let (r, st3) = seek_set api fp (p_offset phdr) st2 in
          if failed r then Some (r, st3)
          else (let (r, st4) = read_mem api fp (base + p_vaddr phdr) (p_filesz phdr) st3 in
            if failed r then Some (r, st4)
            else load_segments api fp base ehdr n (i + 1) phdr st4))))"

text \<open>The search for \<open>main\<close>: \<open>lit\<close> is the address of the literal, \<open>e\<close> the value of the variable \<open>entry\<close> so far.\<close>

fun find_sym :: "mem \<Rightarrow> u32 \<Rightarrow> u32 \<Rightarrow> u32 \<Rightarrow> u32 \<Rightarrow> nat \<Rightarrow> u32 \<Rightarrow> u32 \<Rightarrow> u32 option" where
  "find_sym m lit string_tab syms base 0 j e = Some e"
| "find_sym m lit string_tab syms base (Suc n) j e =
     do {
       r \<leftarrow> strcmp m lit (string_tab + st_name m (syms + j * SIZEOF_Elf32_Sym));
       if r = 0 then Some (base + st_value m (syms + j * SIZEOF_Elf32_Sym))
       else find_sym m lit string_tab syms base n (j + 1) e
     }"

record main_tabs =
  string_tab :: u32
  sym_tab :: u32
  entry_addr :: u32

definition kmalloc_ld :: "u32 \<Rightarrow> ('l, 'f) loader \<Rightarrow> (u32 \<times> ('l, 'f) loader) option" where
  "kmalloc_ld n st = do { (a, mm) \<leftarrow> kmalloc n (fs_mms (lfs st)); Some (a, st\<lparr>lfs := (lfs st)\<lparr>fs_mms := mm\<rparr>\<rparr>) }"
definition kfree_ld :: "u32 \<Rightarrow> ('l, 'f) loader \<Rightarrow> ('l, 'f) loader option" where
  "kfree_ld a st = do { mm \<leftarrow> kfree a (fs_mms (lfs st)); Some (st\<lparr>lfs := (lfs st)\<lparr>fs_mms := mm\<rparr>\<rparr>) }"

definition read_tab :: "('l, 'f) lfs_api \<Rightarrow> file_obj \<Rightarrow> u32 \<Rightarrow> u32 \<Rightarrow> ('l, 'f) loader
    \<Rightarrow> (fs_ret \<times> u32 \<times> ('l, 'f) loader) option" where
  "read_tab api fp off sz st =
     do {
       (a, st1) \<leftarrow> kmalloc_ld sz st;
       let (r, st2) = seek_set api fp off st1;
       if failed r then Some (r, a, st2)
       else (let (r, st3) = read_mem api fp a sz st2 in Some (r, a, st3))
     }"

definition load_symbols :: "('l, 'f) lfs_api \<Rightarrow> file_obj \<Rightarrow> u32 \<Rightarrow> mem \<Rightarrow> u32 \<Rightarrow> mem \<Rightarrow> mem \<Rightarrow> main_tabs \<Rightarrow> ('l, 'f) loader
    \<Rightarrow> (fs_ret \<times> main_tabs \<times> ('l, 'f) loader) option" where
  "load_symbols api fp base ehdr lit shdr str_shdr v st =
     (let (r, st1) = seek_set api fp (e_shoff ehdr + sh_link shdr * e_shentsize ehdr) st in
      if failed r then Some (r, v, st1)
      else (let (r, str_shdr, st2) = read_local api fp str_shdr (e_shentsize ehdr) st1 in
        if failed r then Some (r, v, st2)
        else do {
          (r, str, st3) \<leftarrow> read_tab api fp (sh_offset str_shdr) (sh_size str_shdr) st2;
          if failed r then Some (r, v\<lparr>string_tab := str\<rparr>, st3)
          else do {
            (r, sym, st4) \<leftarrow> read_tab api fp (sh_offset shdr) (sh_size shdr) st3;
            if failed r then Some (r, v\<lparr>string_tab := str, sym_tab := sym\<rparr>, st4)
            else do {
              e \<leftarrow> find_sym (lmem st4) lit str sym base (unat (sh_size shdr div SIZEOF_Elf32_Sym)) 0 (entry_addr v);
              Some (Ret NO_ERR, \<lparr>string_tab = str, sym_tab = sym, entry_addr = e\<rparr>, st4)
            }
          }
        }))"

fun find_main :: "('l, 'f) lfs_api \<Rightarrow> file_obj \<Rightarrow> u32 \<Rightarrow> mem \<Rightarrow> u32 \<Rightarrow> nat \<Rightarrow> u32 \<Rightarrow> mem \<Rightarrow> mem \<Rightarrow> main_tabs \<Rightarrow> ('l, 'f) loader
    \<Rightarrow> (fs_ret \<times> main_tabs \<times> ('l, 'f) loader) option" where
  "find_main api fp base ehdr lit 0 i shdr str_shdr v st = Some (Ret NO_ERR, v, st)"
| "find_main api fp base ehdr lit (Suc n) i shdr str_shdr v st =
     (let (r, st1) = seek_set api fp (e_shoff ehdr + i * e_shentsize ehdr) st in
      if failed r then Some (r, v, st1)
      else if e_shentsize ehdr > SIZEOF_Elf32_Shdr then None
      else (let (r, shdr, st2) = read_local api fp shdr (e_shentsize ehdr) st1 in
        if failed r then Some (r, v, st2)
        else if sh_type shdr = SHT_SYMTAB then load_symbols api fp base ehdr lit shdr str_shdr v st2
        else find_main api fp base ehdr lit n (i + 1) shdr str_shdr v st2))"

text \<open>The local variables before the first assignment.\<close>

record locals =
  l_fname :: "nat \<Rightarrow> char"
  l_ehdr :: mem
  l_phdr :: mem
  l_shdr :: mem
  l_str_shdr :: mem
  l_tabs :: main_tabs

definition name_string :: "nat \<Rightarrow> (nat \<Rightarrow> char) \<Rightarrow> string option" where
  "name_string n b =
     (case List.find (\<lambda>j. b j = CHR 0x00) [0..<n] of None \<Rightarrow> None | Some j \<Rightarrow> Some (map b [0..<j]))"

text \<open>From the name of the file to its last segment.\<close>

definition load_image :: "('l, 'f) lfs_api \<Rightarrow> u32 \<Rightarrow> FILE_SYSTEM_TYPE \<Rightarrow> u32 \<Rightarrow> locals \<Rightarrow> ('l, 'f) loader
    \<Rightarrow> (fs_ret \<times> (nat \<Rightarrow> char) \<times> file_obj \<times> mem \<times> ('l, 'f) loader) option" where
  "load_image api rdonly t app_idx v st =
     do {
       (n, fname) \<leftarrow> sprintk ''/App_%x'' [IntArg app_idx] (0, l_fname v);
       let flag = (if t = LITTLEFS_FILE_SYSTEM then rdonly else 0);
       (r, fp, s) \<leftarrow> fs_open api t (name_bytes fname) flag (lfs st);
       let st1 = st\<lparr>lfs := s\<rparr>;
       if failed r then Some (r, fname, fp, l_ehdr v, st1)
       else (let (r, ehdr, st2) = read_local api fp (l_ehdr v) SIZEOF_Elf32_Ehdr st1 in
         if failed r then Some (r, fname, fp, ehdr, st2)
         else do {
           (r, st3) \<leftarrow> load_segments api fp (USER_APP_BASE + USER_APP_GAP * app_idx) ehdr (unat (e_phnum ehdr)) 0 (l_phdr v) st2;
           Some (r, fname, fp, ehdr, st3)
         })
     }"

text \<open>The kernel heap is the one of the CPU: the loader works on it through the file system and gives it back with
  every return.\<close>

definition take_heap :: "cpu \<Rightarrow> ('l, 'f) loader \<Rightarrow> ('l, 'f) loader" where
  "take_heap k st = st\<lparr>lfs := (lfs st)\<lparr>fs_mms := kmm k\<rparr>\<rparr>"
definition give_heap :: "('l, 'f) loader \<Rightarrow> cpu \<Rightarrow> cpu" where
  "give_heap st k = k\<lparr>kmm := fs_mms (lfs st)\<rparr>"

definition load_ramdisk_app :: "('l, 'f) lfs_api \<Rightarrow> u32 \<Rightarrow> FILE_SYSTEM_TYPE \<Rightarrow> u32 \<Rightarrow> locals \<Rightarrow> u32 \<Rightarrow> u32 \<Rightarrow> ('l, 'f) loader \<Rightarrow> cpu
    \<Rightarrow> (fs_ret \<times> ('l, 'f) loader \<times> cpu) option" where
  "load_ramdisk_app api rdonly t app_idx v lit lr st k =
     (if app_idx \<ge> MAX_USR_TASK then Some (Ret (Pos USER_APP_MAX_ERR), st, k)
      else do {
        (r, fname, fp, ehdr, st3) \<leftarrow> load_image api rdonly t app_idx v (take_heap k st);
        if failed r then Some (r, st3, give_heap st3 k)
        else do {
          (r, tabs, st4) \<leftarrow> find_main api fp (USER_APP_BASE + USER_APP_GAP * app_idx) ehdr lit (unat (e_shnum ehdr)) 0
                               (l_shdr v) (l_str_shdr v) (l_tabs v) st3;
          if failed r then Some (r, st4, give_heap st4 k)
          else do {
            st5 \<leftarrow> kfree_ld (string_tab tabs) st4;
            st6 \<leftarrow> kfree_ld (sym_tab tabs) st5;
            (r, s) \<leftarrow> fs_close api fp (lfs st6);
            let st7 = st6\<lparr>lfs := s\<rparr>;
            if failed r then Some (r, st7, give_heap st7 k)
            else do {
              name \<leftarrow> name_string SLFS_FNAME_LEN fname;
              (t, k1) \<leftarrow> create_usr_cfs_task name (entry_addr tabs) 4 (unat app_idx) lr (give_heap st7 k);
              Some (Ret NO_ERR, take_heap k1 st7, k1)
            }
          }
        }
      })"

text \<open>The shell command \<open>apprun\<close> (src/kernel/core/task.c): the result of \<open>create_ramdisk_fs\<close> is not looked at.
  \<open>path\<close> is the name buffer of \<open>create_ramdisk_fs\<close>, \<open>sb\<close> and \<open>sb2\<close>, \<open>inode\<close> and \<open>junk\<close> local variables below it.\<close>

definition apprun :: "('l, 'f) lfs_api \<Rightarrow> u32 \<Rightarrow> FILE_SYSTEM_TYPE \<Rightarrow> mem \<Rightarrow> mem \<Rightarrow> mem \<Rightarrow> u32 \<Rightarrow> mem \<Rightarrow> u32 \<Rightarrow> (nat \<Rightarrow> char)
    \<Rightarrow> locals \<Rightarrow> u32 \<Rightarrow> u32 \<Rightarrow> ('l, 'f) loader \<Rightarrow> cpu \<Rightarrow> (fs_ret \<times> ('l, 'f) loader \<times> cpu) option" where
  "apprun api rdonly t sb sb2 img base inode junk path v lit lr st k =
     do {
       (r, s) \<leftarrow> create_ramdisk_fs api t sb sb2 img base inode junk path (lfs (take_heap k st));
       let st1 = st\<lparr>lfs := s\<rparr>;
       load_ramdisk_app api rdonly t 0 v lit lr st1 (give_heap st1 k)
     }"

section \<open>What a segment is\<close>

text \<open>\<open>le32 c p\<close> is the word at byte \<open>p\<close> of the file with the bytes \<open>c\<close>; \<open>load_seg\<close> is the effect on memory of
  the program header at byte \<open>p\<close>.\<close>

definition le32 :: "(nat \<Rightarrow> u8) \<Rightarrow> nat \<Rightarrow> u32" where
  "le32 c p = load32 (\<lambda>a. c (p + unat a)) 0"

definition copied :: "u32 \<Rightarrow> nat \<Rightarrow> (nat \<Rightarrow> u8) \<Rightarrow> mem \<Rightarrow> mem" where
  "copied dst n f m = (\<lambda>a. if unat (a - dst) < n then f (unat (a - dst)) else m a)"

definition seg_loadable :: "(nat \<Rightarrow> u8) \<Rightarrow> nat \<Rightarrow> bool" where
  "seg_loadable c p \<longleftrightarrow> le32 c p = PT_LOAD \<and> le32 c (p + 16) \<noteq> 0"

definition load_seg :: "u32 \<Rightarrow> (nat \<Rightarrow> u8) \<Rightarrow> nat \<Rightarrow> mem \<Rightarrow> mem" where
  "load_seg base c p m =
     (if seg_loadable c p
      then copied (base + le32 c (p + 8)) (unat (le32 c (p + 16))) (\<lambda>x. c (unat (le32 c (p + 4)) + x)) m
      else m)"

lemma filled_word:
  assumes "filled b 0 n f b'" and "k + 4 \<le> n" and "n \<le> 2 ^ 32"
  shows "load32 b' (of_nat k) = le32 f k"
proof -
  have w: "b' (of_nat k + of_nat i) = f (k + i)" if "i < 4" for i
    using filledD [OF assms(1), of "k + i"] that assms(2,3) by simp
  show ?thesis using w [of 0] w [of 1] w [of 2] w [of 3] by (simp add: load32_def le32_def)
qed

lemma le32_shift: "le32 (\<lambda>x. c (p + x)) k = le32 c (p + k)"
  by (simp add: le32_def add.assoc)

definition le16 :: "(nat \<Rightarrow> u8) \<Rightarrow> nat \<Rightarrow> u32" where
  "le16 c p = load16 (\<lambda>a. c (p + unat a)) 0"

lemma filled_half:
  assumes "filled b 0 n f b'" and "k + 2 \<le> n" and "n \<le> 2 ^ 32"
  shows "load16 b' (of_nat k) = le16 f k"
  using filledD [OF assms(1), of k] filledD [OF assms(1), of "k + 1"] assms(2,3)
  by (simp add: load16_def le16_def add.commute)

lemma filled_copied:
  assumes "filled (\<lambda>i. m (dst + i)) 0 n f b"
  shows "(\<lambda>a. b (a - dst)) = copied dst n f m"
proof
  fix a
  show "b (a - dst) = copied dst n f m a"
    using filledD [OF assms, of "unat (a - dst)"] unsigned_less [where ?'a = nat, of "a - dst"]
    by (simp add: copied_def)
qed

section \<open>Files the loader can read\<close>

text \<open>The interface between the loader and the file layer: the file is \<open>N\<close> bytes, \<open>ok p s\<close> says that it is open
  at position \<open>p\<close>. What the position is after a read is left open: SLFS does not move it, littlefs does.\<close>

locale app_file =
  fixes api :: "('l, 'f) lfs_api" and fp :: file_obj and content :: "nat \<Rightarrow> u8" and N :: nat
    and ok :: "nat \<Rightarrow> ('l, 'f) fs_state \<Rightarrow> bool"
  assumes size: "ok p s \<Longrightarrow> N < 2 ^ 32"
    and seek: "ok p s \<Longrightarrow> unat off \<le> N \<Longrightarrow>
      \<exists>s'. fs_seek api fp off SLFS_SEEK_SET s = (Ret NO_ERR, s') \<and> ok (unat off) s'"
    and read: "ok p s \<Longrightarrow> p + unat n \<le> N \<Longrightarrow>
      \<exists>b' s' p'. fs_read api fp b n s = (Ret NO_ERR, b', s') \<and> ok p' s' \<and> filled b 0 (unat n) (\<lambda>x. content (p + x)) b'"
    and heap: "ok p s \<Longrightarrow> ok p (s\<lparr>fs_mms := mm\<rparr>)"
begin

lemma read_at:
  assumes "ok p (lfs st)" and "unat off + unat n \<le> N"
  shows "\<exists>st1 b' st2 p'. seek_set api fp off st = (Ret NO_ERR, st1) \<and> read_local api fp b n st1 = (Ret NO_ERR, b', st2)
    \<and> ok p' (lfs st2) \<and> lmem st2 = lmem st \<and> filled b 0 (unat n) (\<lambda>x. content (unat off + x)) b'"
proof -
  obtain s' where s': "fs_seek api fp off SLFS_SEEK_SET (lfs st) = (Ret NO_ERR, s')" "ok (unat off) s'"
    using seek [OF assms(1), of off] assms(2) by auto
  obtain b' s2 p' where r: "fs_read api fp b n s' = (Ret NO_ERR, b', s2)" "ok p' s2"
    "filled b 0 (unat n) (\<lambda>x. content (unat off + x)) b'"
    using read [OF s'(2) assms(2), of b] by auto
  show ?thesis
    using s' r
    by (intro exI [of _ "st\<lparr>lfs := s'\<rparr>"] exI [of _ b'] exI [of _ "st\<lparr>lfs := s2\<rparr>"] exI [of _ p'])
      (simp add: seek_set_def read_local_def)
qed

lemma read_mem_at:
  assumes "ok p (lfs st)" and "unat off + unat n \<le> N"
  shows "\<exists>st1 st2 p'. seek_set api fp off st = (Ret NO_ERR, st1) \<and> read_mem api fp dst n st1 = (Ret NO_ERR, st2)
    \<and> ok p' (lfs st2) \<and> lmem st2 = copied dst (unat n) (\<lambda>x. content (unat off + x)) (lmem st)"
proof -
  obtain s' where s': "fs_seek api fp off SLFS_SEEK_SET (lfs st) = (Ret NO_ERR, s')" "ok (unat off) s'"
    using seek [OF assms(1), of off] assms(2) by auto
  obtain b' s2 p' where r: "fs_read api fp (\<lambda>i. lmem st (dst + i)) n s' = (Ret NO_ERR, b', s2)" "ok p' s2"
    "filled (\<lambda>i. lmem st (dst + i)) 0 (unat n) (\<lambda>x. content (unat off + x)) b'"
    using read [OF s'(2) assms(2), of "\<lambda>i. lmem st (dst + i)"] by auto
  show ?thesis
    using s' r filled_copied [OF r(3)]
    by (intro exI [of _ "st\<lparr>lfs := s'\<rparr>"] exI [of _ "st\<lparr>lmem := \<lambda>a. b' (a - dst), lfs := s2\<rparr>"] exI [of _ p'])
      (simp add: seek_set_def read_mem_def)
qed

lemma load_segments_ok:
  assumes "ok p (lfs st)" and "e_phentsize ehdr = 32" and "unat (e_phoff ehdr) + 32 * (j + n) \<le> N"
    and "\<And>i. j \<le> i \<Longrightarrow> i < j + n \<Longrightarrow> seg_loadable content (unat (e_phoff ehdr) + 32 * i) \<Longrightarrow>
      unat (le32 content (unat (e_phoff ehdr) + 32 * i + 4)) + unat (le32 content (unat (e_phoff ehdr) + 32 * i + 16)) \<le> N"
  shows "\<exists>st' p'. load_segments api fp base ehdr n (of_nat j) phdr st = Some (Ret NO_ERR, st') \<and> ok p' (lfs st')
    \<and> lmem st' = fold (\<lambda>i. load_seg base content (unat (e_phoff ehdr) + 32 * i)) [j..<j + n] (lmem st)"
  using assms
proof (induction n arbitrary: j p st phdr)
  case 0
  then show ?case by auto
next
  case (Suc n j p st phdr)
  let ?at = "unat (e_phoff ehdr) + 32 * j"
  let ?off = "e_phoff ehdr + of_nat j * 32"
  have N: "N < 2 ^ 32" by (rule size [OF Suc.prems(1)])
  have "?off = of_nat ?at" by (simp add: mult.commute)
  moreover have "?at < 2 ^ 32" using Suc.prems(3) N by simp
  ultimately have off: "unat ?off = ?at" by (simp only: unat_of_nat_u32)
  obtain st1 b' st2 p1 where r: "seek_set api fp ?off st = (Ret NO_ERR, st1)" "read_local api fp phdr 32 st1 = (Ret NO_ERR, b', st2)"
    "ok p1 (lfs st2)" "lmem st2 = lmem st" "filled phdr 0 (unat (32 :: u32)) (\<lambda>x. content (?at + x)) b'"
    using read_at [OF Suc.prems(1), of ?off 32 phdr] off Suc.prems(3) by auto
  have w: "load32 b' (of_nat k) = le32 content (?at + k)" if "k \<le> 28" for k
    using filled_word [OF r(5), of k] that by (simp add: le32_shift)
  have f: "p_type b' = le32 content ?at" "p_offset b' = le32 content (?at + 4)"
    "p_vaddr b' = le32 content (?at + 8)" "p_filesz b' = le32 content (?at + 16)"
    using w [of 0] w [of 4] w [of 8] w [of 16] by (simp_all add: p_type_def p_offset_def p_vaddr_def p_filesz_def)
  define rest where "rest = [Suc j..<Suc j + n]"
  have ih: "\<exists>st' p'. load_segments api fp base ehdr n (of_nat j + 1) b' s3 = Some (Ret NO_ERR, st') \<and> ok p' (lfs st')
      \<and> lmem st' = fold (\<lambda>i. load_seg base content (unat (e_phoff ehdr) + 32 * i)) rest (lmem s3)"
    if "ok p3 (lfs s3)" for s3 p3
    using Suc.IH [OF that Suc.prems(2), of "Suc j" b'] Suc.prems(3,4)
    unfolding rest_def by (simp add: add.commute del: upt_Suc)
  have upt: "[j..<j + Suc n] = j # rest" unfolding rest_def by (simp add: upt_conv_Cons del: upt_Suc)
  have step: "e_phentsize ehdr = 32" "\<not> (32 :: u32) > SIZEOF_Elf32_Phdr"
    using Suc.prems(2) by (simp_all add: SIZEOF_Elf32_Phdr_def)
  show ?case
  proof (cases "seg_loadable content ?at")
    case False
    then have "p_type b' \<noteq> PT_LOAD \<or> p_filesz b' = 0" by (simp add: f seg_loadable_def)
    moreover have "load_seg base content ?at m = m" for m using False by (simp add: load_seg_def)
    ultimately show ?thesis using ih [OF r(3)] r(1,2,4) step unfolding upt by (simp add: failed_def)
  next
    case True
    then have l: "p_type b' = PT_LOAD" "p_filesz b' \<noteq> 0" by (simp_all add: f seg_loadable_def)
    obtain st3 st4 p2 where m: "seek_set api fp (p_offset b') st2 = (Ret NO_ERR, st3)"
      "read_mem api fp (base + p_vaddr b') (p_filesz b') st3 = (Ret NO_ERR, st4)" "ok p2 (lfs st4)"
      "lmem st4 = copied (base + p_vaddr b') (unat (p_filesz b')) (\<lambda>x. content (unat (p_offset b') + x)) (lmem st2)"
      using read_mem_at [OF r(3), of "p_offset b'" "p_filesz b'" "base + p_vaddr b'"] Suc.prems(4) [of j] True by (auto simp: f)
    have "lmem st4 = load_seg base content ?at (lmem st)" using m(4) True r(4) by (simp add: f load_seg_def)
    then show ?thesis using ih [OF m(3)] r(1,2) m(1,2) l step unfolding upt by (simp add: failed_def)
  qed
qed

end

text \<open>A file of SLFS with the bytes \<open>c\<close>.\<close>

definition slfs_holds :: "file_obj \<Rightarrow> (nat \<Rightarrow> u8) \<Rightarrow> u32 \<Rightarrow> nat \<Rightarrow> ('l, 'f) fs_state \<Rightarrow> bool" where
  "slfs_holds fp c N p s \<longleftrightarrow> (\<exists>D b. slfs_open_at fp D b N p s \<and> (\<forall>i < unat N. file_byte D b i = c i))"

interpretation sf: app_file api fp c "unat N" "slfs_holds fp c N"
  for api :: "('l, 'f) lfs_api" and fp c N
proof
  fix p and s :: "('l, 'f) fs_state"
  show "unat N < 2 ^ 32" using unsigned_less [where ?'a = nat, of N] by simp
next
  fix p :: nat and s :: "('l, 'f) fs_state" and off :: u32
  assume "slfs_holds fp c N p s" "unat off \<le> unat N"
  then show "\<exists>s'. fs_seek api fp off SLFS_SEEK_SET s = (Ret NO_ERR, s') \<and> slfs_holds fp c N (unat off) s'"
    using fs_seek_open unfolding slfs_holds_def by metis
next
  fix p and s :: "('l, 'f) fs_state" and n :: u32 and bf
  assume "slfs_holds fp c N p s" and n: "p + unat n \<le> unat N"
  then obtain D b where f: "slfs_open_at fp D b N p s" "\<forall>i < unat N. file_byte D b i = c i" by (auto simp: slfs_holds_def)
  obtain b' where r: "fs_read api fp bf n s = (Ret NO_ERR, b', s)" "filled bf 0 (unat n) (\<lambda>x. file_byte D b (p + x)) b'"
    by (rule fs_read_open [OF f(1) n])
  have "filled bf 0 (unat n) (\<lambda>x. c (p + x)) b'" by (rule filled_cong [OF r(2)]) (use f(2) n in simp)
  then show "\<exists>b' s' p'. fs_read api fp bf n s = (Ret NO_ERR, b', s') \<and> slfs_holds fp c N p' s'
      \<and> filled bf 0 (unat n) (\<lambda>x. c (p + x)) b'"
    using r(1) f by (auto simp: slfs_holds_def)
next
  fix p mm and s :: "('l, 'f) fs_state"
  assume "slfs_holds fp c N p s"
  then show "slfs_holds fp c N p (s\<lparr>fs_mms := mm\<rparr>)" by (simp add: slfs_holds_def slfs_open_at_def)
qed

section \<open>The search for the entry point\<close>

text \<open>\<open>find_sym\<close> returns the address of the first symbol called \<open>main\<close>, and keeps \<open>e\<close> when there is none.\<close>

lemma find_sym_first:
  assumes "at_string m lit nm" and "\<And>i. j \<le> i \<Longrightarrow> i < j + n \<Longrightarrow> at_string m (str + st_name m (syms + of_nat i * SIZEOF_Elf32_Sym)) (names i)"
  shows "find_sym m lit str syms base n (of_nat j) e =
    Some (case List.find (\<lambda>i. names i = nm) [j..<j + n] of
            None \<Rightarrow> e | Some i \<Rightarrow> base + st_value m (syms + of_nat i * SIZEOF_Elf32_Sym))"
  using assms(2)
proof (induction n arbitrary: j)
  case (Suc n)
  have upt: "[j..<j + Suc n] = j # [Suc j..<Suc j + n]" by (simp add: upt_conv_Cons del: upt_Suc)
  have "strcmp m lit (str + st_name m (syms + of_nat j * SIZEOF_Elf32_Sym)) = Some (if nm = names j then 0 else 1)"
    by (rule strcmp_equal_strings [OF assms(1)]) (rule Suc.prems, simp_all)
  moreover have "find_sym m lit str syms base n (of_nat j + 1) e =
      Some (case List.find (\<lambda>i. names i = nm) [Suc j..<Suc j + n] of
            None \<Rightarrow> e | Some i \<Rightarrow> base + st_value m (syms + of_nat i * SIZEOF_Elf32_Sym))"
    using Suc.IH [of "Suc j"] Suc.prems by (simp add: add.commute del: upt_Suc)
  ultimately show ?case unfolding upt by (simp add: eq_commute [of nm] del: upt_Suc)
qed simp

section \<open>Loading a file\<close>

text \<open>The part of the format the loader relies on, for a file of \<open>N\<close> bytes \<open>c\<close>, and what loading it does to memory.\<close>

definition elf_segments :: "(nat \<Rightarrow> u8) \<Rightarrow> nat \<Rightarrow> bool" where
  "elf_segments c N \<longleftrightarrow>
     52 \<le> N \<and> le16 c 42 = 32 \<and> unat (le32 c 28) + 32 * unat (le16 c 44) \<le> N
     \<and> list_all (\<lambda>i. seg_loadable c (unat (le32 c 28) + 32 * i) \<longrightarrow>
         unat (le32 c (unat (le32 c 28) + 32 * i + 4)) + unat (le32 c (unat (le32 c 28) + 32 * i + 16)) \<le> N)
         [0..<unat (le16 c 44)]"

definition load_elf :: "u32 \<Rightarrow> (nat \<Rightarrow> u8) \<Rightarrow> mem \<Rightarrow> mem" where
  "load_elf base c m = fold (\<lambda>i. load_seg base c (unat (le32 c 28) + 32 * i)) [0..<unat (le16 c 44)] m"

context app_file
begin

lemma load_file_ok:
  assumes "ok 0 (lfs st)" and "elf_segments content N"
  shows "\<exists>ehdr st2 st3 p. read_local api fp b SIZEOF_Elf32_Ehdr st = (Ret NO_ERR, ehdr, st2)
    \<and> load_segments api fp base ehdr (unat (e_phnum ehdr)) 0 phdr st2 = Some (Ret NO_ERR, st3)
    \<and> lmem st3 = load_elf base content (lmem st) \<and> ok p (lfs st3)
    \<and> e_shoff ehdr = le32 content 32 \<and> e_shentsize ehdr = le16 content 46 \<and> e_shnum ehdr = le16 content 48"
proof -
  have "0 + unat SIZEOF_Elf32_Ehdr \<le> N" using assms(2) by (simp add: elf_segments_def SIZEOF_Elf32_Ehdr_def)
  then obtain b' s' p' where r: "fs_read api fp b SIZEOF_Elf32_Ehdr (lfs st) = (Ret NO_ERR, b', s')" "ok p' s'"
    "filled b 0 (unat SIZEOF_Elf32_Ehdr) (\<lambda>x. content (0 + x)) b'"
    using read [OF assms(1), of SIZEOF_Elf32_Ehdr b] by auto
  let ?st2 = "st\<lparr>lfs := s'\<rparr>"
  have l: "read_local api fp b SIZEOF_Elf32_Ehdr st = (Ret NO_ERR, b', ?st2)" using r(1) by (simp add: read_local_def)
  have f: "filled b 0 52 content b'" using r(3) by (simp add: SIZEOF_Elf32_Ehdr_def)
  have h: "e_phoff b' = le32 content 28" "e_phentsize b' = le16 content 42" "e_phnum b' = le16 content 44"
    "e_shoff b' = le32 content 32" "e_shentsize b' = le16 content 46" "e_shnum b' = le16 content 48"
    using filled_word [OF f, of 28] filled_half [OF f, of 42] filled_half [OF f, of 44]
      filled_word [OF f, of 32] filled_half [OF f, of 46] filled_half [OF f, of 48]
    by (simp_all add: e_phoff_def e_phentsize_def e_phnum_def e_shoff_def e_shentsize_def e_shnum_def)
  have "\<exists>st' q. load_segments api fp base b' (unat (e_phnum b')) (of_nat 0) phdr ?st2 = Some (Ret NO_ERR, st') \<and> ok q (lfs st')
      \<and> lmem st' = fold (\<lambda>i. load_seg base content (unat (e_phoff b') + 32 * i)) [0..<0 + unat (e_phnum b')] (lmem ?st2)"
    by (rule load_segments_ok) (use r(2) assms(2) in \<open>auto simp: h elf_segments_def list_all_iff\<close>)
  then show ?thesis using l by (auto simp: load_elf_def h)
qed

end

lemma app_name:
  assumes "buf 6 = CHR 0x00"
  obtains fname where "sprintk ''/App_%x'' [IntArg 0] (0, buf) = Some (6, fname)" "short_name (name_bytes fname) 6"
    "\<forall>j \<le> 6. name_bytes fname (of_nat j) = of_char ((''/App_0'' @ [CHR 0x00]) ! j)"
proof -
  let ?f = "buf(0 := CHR ''/'', 1 := CHR ''A'', 2 := CHR ''p'', 3 := CHR ''p'', 4 := CHR ''_'', 5 := CHR ''0'')"
  have "hex_loop 0 [] = ''0''" by (simp add: hex_loop.simps hex_char_def char_of_def bit_0)
  then have "sprintk ''/App_%x'' [IntArg 0] (0, buf) = Some (6, ?f)"
    by (simp add: put_str_def eval_nat_numeral)
  moreover have b: "name_bytes ?f (of_nat j) = of_char ((''/App_0'' @ [CHR 0x00]) ! j)" if "j \<le> 6" for j
  proof -
    have "j = 0 \<or> j = 1 \<or> j = 2 \<or> j = 3 \<or> j = 4 \<or> j = 5 \<or> j = 6" using that by linarith
    moreover have "name_bytes ?f (of_nat j) = of_char (?f j)" using unat_of_nat_u32 [of j] that by (simp add: name_bytes_def)
    ultimately show ?thesis using assms by (elim disjE) simp_all
  qed
  moreover have "short_name (name_bytes ?f) 6"
    unfolding short_name_def
  proof (intro conjI allI impI)
    show "name_bytes ?f (of_nat 6) = 0" using b [of 6] by simp
    fix j :: nat
    assume "j < 6"
    then have "j = 0 \<or> j = 1 \<or> j = 2 \<or> j = 3 \<or> j = 4 \<or> j = 5" by linarith
    then show "name_bytes ?f (of_nat j) \<noteq> 0" using b [of j] by (elim disjE) simp_all
  qed simp
  ultimately show ?thesis by (intro that [of ?f]) auto
qed

end
