(* ===== verification/AppRun.thy ===== *)
theory AppRun
  imports Loader
begin

unbundle bit_operations_syntax

text \<open>
  Running an application (src/kernel/core/loader.c, the command \<open>apprun\<close>): what the symbol table of an ELF file says
  about \<open>main\<close>, that the loader finds it, and the way of an application from the host tool to its entry point.
\<close>

section \<open>The heap of the loader\<close>

text \<open>Seeking and reading leave the kernel heap alone.\<close>

lemma fs_seek_heap: "fs_mms (snd (fs_seek api fp off w s)) = fs_mms s"
  by (simp add: fs_seek_def put_lfs_file_def on_flash_def put_slfs_file_def split_beta Let_def split: FILE_SYSTEM_TYPE.split)

lemma fs_read_heap: "fs_mms (snd (snd (fs_read api fp b n s))) = fs_mms s"
  by (simp add: fs_read_def put_lfs_file_def on_flash_def split_beta Let_def split: FILE_SYSTEM_TYPE.split)

lemma seek_set_heap: "seek_set api fp off st = (r, st') \<Longrightarrow> fs_mms (lfs st') = fs_mms (lfs st)"
  using fs_seek_heap [of api fp off SLFS_SEEK_SET "lfs st"] by (auto simp: seek_set_def split_beta Let_def)

lemma read_local_heap: "read_local api fp b n st = (r, b', st') \<Longrightarrow> fs_mms (lfs st') = fs_mms (lfs st)"
  using fs_read_heap [of api fp b n "lfs st"] by (auto simp: read_local_def split_beta Let_def)

lemma read_mem_heap: "read_mem api fp dst n st = (r, st') \<Longrightarrow> fs_mms (lfs st') = fs_mms (lfs st)"
  using fs_read_heap [of api fp "\<lambda>i. lmem st (dst + i)" n "lfs st"] by (auto simp: read_mem_def split_beta Let_def)

lemma load_segments_heap:
  "load_segments api fp base ehdr n i phdr st = Some (r, st') \<Longrightarrow> fs_mms (lfs st') = fs_mms (lfs st)"
proof (induction n arbitrary: i phdr st)
  case (Suc n)
  then show ?case
    by (auto simp: Let_def split: prod.splits if_splits dest!: seek_set_heap read_local_heap read_mem_heap)
qed simp

section \<open>What the symbol table says\<close>

text \<open>The section header \<open>i\<close> of a file with the bytes \<open>c\<close> is at byte \<open>sec c i\<close>; \<open>symtab_of\<close> is the first section that is
  a symbol table, \<open>file_str c p e\<close> the string at byte \<open>p\<close> of a table that ends at \<open>e\<close>.\<close>

definition sec :: "(nat \<Rightarrow> u8) \<Rightarrow> nat \<Rightarrow> nat" where "sec c i = unat (le32 c 32) + 40 * i"
definition symtab_of :: "(nat \<Rightarrow> u8) \<Rightarrow> nat option" where
  "symtab_of c = List.find (\<lambda>i. le32 c (sec c i + 4) = SHT_SYMTAB) [0..<unat (le16 c 48)]"

definition file_str :: "(nat \<Rightarrow> u8) \<Rightarrow> nat \<Rightarrow> nat \<Rightarrow> u8 list" where
  "file_str c p e = takeWhile (\<lambda>b. b \<noteq> 0) (map c [p..<e])"

text \<open>Place and size of the symbol table that section \<open>i\<close> describes, and of the strings it is linked to.\<close>

definition sym_off :: "(nat \<Rightarrow> u8) \<Rightarrow> nat \<Rightarrow> u32" where "sym_off c i = le32 c (sec c i + 16)"
definition sym_size :: "(nat \<Rightarrow> u8) \<Rightarrow> nat \<Rightarrow> u32" where "sym_size c i = le32 c (sec c i + 20)"
definition str_sec :: "(nat \<Rightarrow> u8) \<Rightarrow> nat \<Rightarrow> nat" where "str_sec c i = unat (le32 c (sec c i + 24))"
definition str_off :: "(nat \<Rightarrow> u8) \<Rightarrow> nat \<Rightarrow> u32" where "str_off c i = le32 c (sec c (str_sec c i) + 16)"
definition str_size :: "(nat \<Rightarrow> u8) \<Rightarrow> nat \<Rightarrow> u32" where "str_size c i = le32 c (sec c (str_sec c i) + 20)"
definition sym_count :: "(nat \<Rightarrow> u8) \<Rightarrow> nat \<Rightarrow> nat" where "sym_count c i = unat (sym_size c i) div 16"
definition sym_name :: "(nat \<Rightarrow> u8) \<Rightarrow> nat \<Rightarrow> nat \<Rightarrow> u8 list" where
  "sym_name c i j = file_str c (unat (str_off c i) + unat (le32 c (unat (sym_off c i) + 16 * j)))
     (unat (str_off c i) + unat (str_size c i))"

definition main_bytes :: "u8 list" where "main_bytes = map of_char ''main''"

definition elf_main :: "u32 \<Rightarrow> (nat \<Rightarrow> u8) \<Rightarrow> u32 option" where
  "elf_main base c = (case symtab_of c of None \<Rightarrow> None
     | Some i \<Rightarrow> map_option (\<lambda>j. base + le32 c (unat (sym_off c i) + 16 * j + 4))
                  (List.find (\<lambda>j. sym_name c i j = main_bytes) [0..<sym_count c i]))"

text \<open>The part of the format the search relies on: the headers and both tables lie inside the file, and the names
  of the symbols end inside the table of strings.\<close>

definition elf_symbols :: "(nat \<Rightarrow> u8) \<Rightarrow> nat \<Rightarrow> bool" where
  "elf_symbols c N \<longleftrightarrow> le16 c 46 = 40 \<and> unat (le32 c 32) + 40 * unat (le16 c 48) \<le> N
     \<and> (case symtab_of c of None \<Rightarrow> True
        | Some i \<Rightarrow> str_sec c i < unat (le16 c 48)
            \<and> unat (sym_off c i) + unat (sym_size c i) \<le> N \<and> unat (str_off c i) + unat (str_size c i) \<le> N
            \<and> list_all (\<lambda>j. unat (le32 c (unat (sym_off c i) + 16 * j)) + length (sym_name c i j) < unat (str_size c i))
                [0..<sym_count c i])"

section \<open>Tables in memory\<close>

lemma find_below: "List.find P [0..<n] = Some i \<Longrightarrow> i < n \<and> P i \<and> (\<forall>l < i. \<not> P l)"
  by (auto simp: find_Some_iff)

lemma copied_at: "k < n \<Longrightarrow> k < 2 ^ 32 \<Longrightarrow> copied dst n f m (dst + of_nat k) = f k"
  by (simp add: copied_def unat_of_nat_u32)

lemma copied_word:
  assumes "k + 4 \<le> n" and "n \<le> 2 ^ 32"
  shows "load32 (copied dst n f m) (dst + of_nat k) = le32 f k"
proof -
  have w: "copied dst n f m (dst + of_nat k + of_nat i) = f (k + i)" if "i < 4" for i
    using copied_at [of "k + i" n dst f m] that assms by (simp add: add.assoc)
  show ?thesis using w [of 0] w [of 1] w [of 2] w [of 3] by (simp add: load32_def le32_def)
qed

lemma copied_string:
  assumes "at_string m a xs" and "\<And>i. i \<le> length xs \<Longrightarrow> n \<le> unat (a + of_nat i - dst)"
  shows "at_string (copied dst n f m) a xs"
proof -
  have "copied dst n f m (a + of_nat i) = m (a + of_nat i)" if "i \<le> length xs" for i
    using assms(2) [OF that] by (simp add: copied_def)
  then show ?thesis using assms(1) by (simp add: at_string_def)
qed

lemma file_str_at:
  assumes "length (file_str c p e) < e - p"
  shows "0 \<notin> set (file_str c p e)" and "j < length (file_str c p e) \<Longrightarrow> file_str c p e ! j = c (p + j)"
    and "c (p + length (file_str c p e)) = 0"
proof -
  let ?xs = "map c [p..<e]"
  show "0 \<notin> set (file_str c p e)" using set_takeWhileD by (fastforce simp: file_str_def)
  show "file_str c p e ! j = c (p + j)" if "j < length (file_str c p e)"
    using that assms takeWhile_nth [of j "\<lambda>b. b \<noteq> 0" ?xs] by (simp add: file_str_def)
  show "c (p + length (file_str c p e)) = 0"
    using nth_length_takeWhile [of "\<lambda>b. b \<noteq> 0" ?xs] assms by (simp add: file_str_def)
qed

lemma copied_file_str:
  assumes "k + length (file_str c (p + k) (p + n)) < n" and "n \<le> 2 ^ 32"
  shows "at_string (copied dst n (\<lambda>x. c (p + x)) m) (dst + of_nat k) (file_str c (p + k) (p + n))"
proof -
  let ?xs = "file_str c (p + k) (p + n)"
  have "length ?xs < p + n - (p + k)" using assms(1) by simp
  note f = file_str_at [OF this]
  have "copied dst n (\<lambda>x. c (p + x)) m (dst + of_nat k + of_nat i) = c (p + k + i)" if "i \<le> length ?xs" for i
    using copied_at [of "k + i" n dst "\<lambda>x. c (p + x)" m] that assms by (simp add: add.assoc)
  then show ?thesis using f by (simp add: at_string_def)
qed

text \<open>Both tables in memory, one behind the other or apart: every name is where the loader looks for it.\<close>

definition apart_blocks :: "u32 \<Rightarrow> nat \<Rightarrow> u32 \<Rightarrow> nat \<Rightarrow> bool" where
  "apart_blocks a n b m \<longleftrightarrow> (\<forall>i < n. m \<le> unat (a + of_nat i - b))"

lemma find_sym_tables:
  fixes c str sym i m
  defines "m2 \<equiv> copied sym (unat (sym_size c i)) (\<lambda>x. c (unat (sym_off c i) + x))
    (copied str (unat (str_size c i)) (\<lambda>x. c (unat (str_off c i) + x)) m)"
  assumes lit: "at_string m lit main_bytes" "apart_blocks lit 5 str (unat (str_size c i))" "apart_blocks lit 5 sym (unat (sym_size c i))"
    and tabs: "apart_blocks str (unat (str_size c i)) sym (unat (sym_size c i))"
    and names: "\<And>j. j < sym_count c i \<Longrightarrow>
      unat (le32 c (unat (sym_off c i) + 16 * j)) + length (sym_name c i j) < unat (str_size c i)"
  shows "find_sym m2 lit str sym base (sym_count c i) 0 e =
    Some (case List.find (\<lambda>j. sym_name c i j = main_bytes) [0..<sym_count c i] of
            None \<Rightarrow> e | Some j \<Rightarrow> base + le32 c (unat (sym_off c i) + 16 * j + 4))"
proof -
  have big: "unat (sym_size c i) \<le> 2 ^ 32" "unat (str_size c i) \<le> 2 ^ 32"
    using unsigned_less [where ?'a = nat, of "sym_size c i"] unsigned_less [where ?'a = nat, of "str_size c i"] by simp_all
  have word: "load32 m2 (sym + of_nat (16 * j + k)) = le32 c (unat (sym_off c i) + 16 * j + k)"
    if "j < sym_count c i" "k \<le> 12" for j k
  proof -
    have "16 * j + 16 \<le> unat (sym_size c i)" using that(1) by (simp add: sym_count_def)
    then have "16 * j + k + 4 \<le> unat (sym_size c i)" using that(2) by simp
    from copied_word [OF this big(1)] show ?thesis unfolding m2_def by (simp add: le32_shift add.assoc)
  qed
  have st: "st_name m2 (sym + of_nat j * SIZEOF_Elf32_Sym) = le32 c (unat (sym_off c i) + 16 * j)"
    "st_value m2 (sym + of_nat j * SIZEOF_Elf32_Sym) = le32 c (unat (sym_off c i) + 16 * j + 4)"
    if "j < sym_count c i" for j
    using word [OF that, of 0] word [OF that, of 4]
    by (simp_all add: st_name_def st_value_def SIZEOF_Elf32_Sym_def mult.commute add.assoc)
  have main: "at_string m2 lit main_bytes"
    unfolding m2_def using lit(2,3)
    by (intro copied_string lit(1)) (auto simp: apart_blocks_def main_bytes_def)
  have nm: "at_string m2 (str + st_name m2 (sym + of_nat j * SIZEOF_Elf32_Sym)) (sym_name c i j)" if j: "j < sym_count c i" for j
  proof -
    let ?k = "unat (le32 c (unat (sym_off c i) + 16 * j))"
    have s: "sym_name c i j = file_str c (unat (str_off c i) + ?k) (unat (str_off c i) + unat (str_size c i))"
      by (simp add: sym_name_def)
    have "at_string m2 (str + of_nat ?k) (sym_name c i j)"
      unfolding m2_def
    proof (rule copied_string)
      show "at_string (copied str (unat (str_size c i)) (\<lambda>x. c (unat (str_off c i) + x)) m) (str + of_nat ?k) (sym_name c i j)"
        unfolding s by (rule copied_file_str [OF _ big(2)]) (use names [OF j] s in simp)
      fix l assume "l \<le> length (sym_name c i j)"
      then have "?k + l < unat (str_size c i)" using names [OF j] by simp
      then have "unat (sym_size c i) \<le> unat (str + of_nat (?k + l) - sym)" using tabs unfolding apart_blocks_def by blast
      then show "unat (sym_size c i) \<le> unat (str + of_nat ?k + of_nat l - sym)" by (simp add: add.assoc)
    qed
    then show ?thesis using st(1) [OF j] by simp
  qed
  have "find_sym m2 lit str sym base (sym_count c i) (of_nat 0) e =
      Some (case List.find (\<lambda>j. sym_name c i j = main_bytes) [0..<0 + sym_count c i] of
            None \<Rightarrow> e | Some j \<Rightarrow> base + st_value m2 (sym + of_nat j * SIZEOF_Elf32_Sym))"
    by (rule find_sym_first [OF main]) (use nm in simp)
  moreover have "j < sym_count c i" if "List.find (\<lambda>j. sym_name c i j = main_bytes) [0..<sym_count c i] = Some j" for j
    using find_below [OF that] by simp
  ultimately show ?thesis
    using st(2) by (cases "List.find (\<lambda>j. sym_name c i j = main_bytes) [0..<sym_count c i]") simp_all
qed

context app_file
begin

lemma read_header:
  assumes "ok p (lfs st)" and "elf_symbols content N" and "i < unat (le16 content 48)"
    and "e_shoff ehdr = le32 content 32" and "e_shentsize ehdr = 40"
  shows "\<exists>st1 b' st2 p'. seek_set api fp (e_shoff ehdr + of_nat i * e_shentsize ehdr) st = (Ret NO_ERR, st1)
    \<and> read_local api fp b (e_shentsize ehdr) st1 = (Ret NO_ERR, b', st2) \<and> ok p' (lfs st2) \<and> lmem st2 = lmem st
    \<and> fs_mms (lfs st2) = fs_mms (lfs st) \<and> (\<forall>k \<le> 36. load32 b' (of_nat k) = le32 content (sec content i + k))"
proof -
  let ?off = "e_shoff ehdr + of_nat i * e_shentsize ehdr"
  have N: "N < 2 ^ 32" by (rule size [OF assms(1)])
  have s: "sec content i + 40 \<le> N" using assms(2,3) by (auto simp: elf_symbols_def sec_def)
  have "?off = of_nat (sec content i)" by (simp add: assms(4,5) sec_def mult.commute)
  moreover have "sec content i < 2 ^ 32" using s N by simp
  ultimately have off: "unat ?off = sec content i" by (simp only: unat_of_nat_u32)
  obtain st1 b' st2 p' where r: "seek_set api fp ?off st = (Ret NO_ERR, st1)" "read_local api fp b 40 st1 = (Ret NO_ERR, b', st2)"
    "ok p' (lfs st2)" "lmem st2 = lmem st" "filled b 0 (unat (40 :: u32)) (\<lambda>x. content (sec content i + x)) b'"
    using read_at [OF assms(1), of ?off 40 b] off s by auto
  have "load32 b' (of_nat k) = le32 content (sec content i + k)" if "k \<le> 36" for k
    using filled_word [OF r(5), of k] that by (simp add: le32_shift)
  then show ?thesis
    using r seek_set_heap [OF r(1)] read_local_heap [OF r(2)] unfolding assms(5) by auto
qed

lemma read_tab_ok:
  assumes "ok p (lfs st)" and "unat off + unat sz \<le> N" and "kmalloc sz (fs_mms (lfs st)) = Some (a, mm)"
  shows "\<exists>st' p'. read_tab api fp off sz st = Some (Ret NO_ERR, a, st') \<and> ok p' (lfs st') \<and> fs_mms (lfs st') = mm
    \<and> lmem st' = copied a (unat sz) (\<lambda>x. content (unat off + x)) (lmem st)"
proof -
  let ?st1 = "st\<lparr>lfs := (lfs st)\<lparr>fs_mms := mm\<rparr>\<rparr>"
  have "ok p (lfs ?st1)" using heap [OF assms(1)] by simp
  then obtain st2 st3 p' where r: "seek_set api fp off ?st1 = (Ret NO_ERR, st2)" "read_mem api fp a sz st2 = (Ret NO_ERR, st3)"
    "ok p' (lfs st3)" "lmem st3 = copied a (unat sz) (\<lambda>x. content (unat off + x)) (lmem ?st1)"
    using read_mem_at [OF _ assms(2), of p ?st1 a] by auto
  then show ?thesis
    using assms(3) seek_set_heap [OF r(1)] read_mem_heap [OF r(2)]
    by (auto simp: read_tab_def kmalloc_ld_def failed_def)
qed

text \<open>The tables of the symbol section \<open>i\<close> are read behind one another on the heap and searched.\<close>

lemma load_symbols_ok:
  assumes o: "ok p (lfs st)" "elf_symbols content N" "symtab_of content = Some i"
    and e: "e_shoff ehdr = le32 content 32" "e_shentsize ehdr = 40"
    and w: "\<And>k. k \<le> 36 \<Longrightarrow> load32 shdr (of_nat k) = le32 content (sec content i + k)"
    and k: "kmalloc (str_size content i) (fs_mms (lfs st)) = Some (str, mm1)" "kmalloc (sym_size content i) mm1 = Some (symt, mm2)"
    and lit: "at_string (lmem st) lit main_bytes" "apart_blocks lit 5 str (unat (str_size content i))"
      "apart_blocks lit 5 symt (unat (sym_size content i))" "apart_blocks str (unat (str_size content i)) symt (unat (sym_size content i))"
  shows "\<exists>st' p'. load_symbols api fp base ehdr lit shdr str_shdr v st = Some (Ret NO_ERR, \<lparr>string_tab = str, sym_tab = symt,
      entry_addr = (case elf_main base content of None \<Rightarrow> entry_addr v | Some x \<Rightarrow> x)\<rparr>, st') \<and> ok p' (lfs st') \<and> fs_mms (lfs st') = mm2"
proof -
  have b: "str_sec content i < unat (le16 content 48)" "unat (sym_off content i) + unat (sym_size content i) \<le> N"
    "unat (str_off content i) + unat (str_size content i) \<le> N"
    "\<And>j. j < sym_count content i \<Longrightarrow>
      unat (le32 content (unat (sym_off content i) + 16 * j)) + length (sym_name content i j) < unat (str_size content i)"
    using o(2,3) by (auto simp: elf_symbols_def list_all_iff)
  have s: "sh_link shdr = of_nat (str_sec content i)" "sh_offset shdr = sym_off content i" "sh_size shdr = sym_size content i"
    using w [of 24] w [of 16] w [of 20] by (simp_all add: sh_link_def sh_offset_def sh_size_def str_sec_def sym_off_def sym_size_def)
  obtain st1 b' st2 p2 where h: "seek_set api fp (e_shoff ehdr + of_nat (str_sec content i) * e_shentsize ehdr) st = (Ret NO_ERR, st1)"
    "read_local api fp str_shdr (e_shentsize ehdr) st1 = (Ret NO_ERR, b', st2)" "ok p2 (lfs st2)" "lmem st2 = lmem st"
    "fs_mms (lfs st2) = fs_mms (lfs st)" "\<forall>k \<le> 36. load32 b' (of_nat k) = le32 content (sec content (str_sec content i) + k)"
    using read_header [OF o(1,2) b(1) e] by blast
  have s': "sh_offset b' = str_off content i" "sh_size b' = str_size content i"
    using spec [OF h(6), of 16] spec [OF h(6), of 20] by (simp_all add: sh_offset_def sh_size_def str_off_def str_size_def)
  obtain st3 p3 where t: "read_tab api fp (str_off content i) (str_size content i) st2 = Some (Ret NO_ERR, str, st3)" "ok p3 (lfs st3)"
    "fs_mms (lfs st3) = mm1" "lmem st3 = copied str (unat (str_size content i)) (\<lambda>x. content (unat (str_off content i) + x)) (lmem st2)"
    using read_tab_ok [OF h(3) b(3)] k(1) h(5) by metis
  obtain st4 p4 where u: "read_tab api fp (sym_off content i) (sym_size content i) st3 = Some (Ret NO_ERR, symt, st4)" "ok p4 (lfs st4)"
    "fs_mms (lfs st4) = mm2" "lmem st4 = copied symt (unat (sym_size content i)) (\<lambda>x. content (unat (sym_off content i) + x)) (lmem st3)"
    using read_tab_ok [OF t(2) b(2)] k(2) t(3) by metis
  have n: "unat (sym_size content i div SIZEOF_Elf32_Sym) = sym_count content i"
    by (simp add: sym_count_def SIZEOF_Elf32_Sym_def unat_div)
  have "find_sym (lmem st4) lit str symt base (sym_count content i) 0 (entry_addr v)
      = Some (case elf_main base content of None \<Rightarrow> entry_addr v | Some x \<Rightarrow> x)"
    unfolding u(4) t(4) h(4) using find_sym_tables [OF lit b(4)] o(3)
    by (cases "List.find (\<lambda>j. sym_name content i j = main_bytes) [0..<sym_count content i]") (simp_all add: elf_main_def)
  then show ?thesis
    using h(1,2) t(1) u(1-3) by (auto simp: load_symbols_def s s' n failed_def)
qed

lemma find_main_ok:
  assumes o: "ok p (lfs st)" "elf_symbols content N" "symtab_of content = Some i"
    and e: "e_shoff ehdr = le32 content 32" "e_shentsize ehdr = 40"
    and k: "kmalloc (str_size content i) (fs_mms (lfs st)) = Some (str, mm1)" "kmalloc (sym_size content i) mm1 = Some (symt, mm2)"
    and lit: "at_string (lmem st) lit main_bytes" "apart_blocks lit 5 str (unat (str_size content i))"
      "apart_blocks lit 5 symt (unat (sym_size content i))" "apart_blocks str (unat (str_size content i)) symt (unat (sym_size content i))"
    and "j \<le> i" and "j + n = unat (le16 content 48)"
  shows "\<exists>st' p'. find_main api fp base ehdr lit n (of_nat j) shdr str_shdr v st = Some (Ret NO_ERR, \<lparr>string_tab = str, sym_tab = symt,
      entry_addr = (case elf_main base content of None \<Rightarrow> entry_addr v | Some x \<Rightarrow> x)\<rparr>, st') \<and> ok p' (lfs st') \<and> fs_mms (lfs st') = mm2"
  using o(1) k(1) lit(1) assms(12,13)
proof (induction n arbitrary: j p st shdr)
  case 0
  then show ?case using find_below [OF o(3) [unfolded symtab_of_def]] by simp
next
  case (Suc n)
  have i: "le32 content (sec content i + 4) = SHT_SYMTAB" "\<And>l. l < i \<Longrightarrow> le32 content (sec content l + 4) \<noteq> SHT_SYMTAB"
    using find_below [OF o(3) [unfolded symtab_of_def]] by simp_all
  have "j < unat (le16 content 48)" using Suc.prems(5) by simp
  from read_header [OF Suc.prems(1) o(2) this e, of shdr]
  obtain st1 b' st2 p2 where h: "seek_set api fp (e_shoff ehdr + of_nat j * e_shentsize ehdr) st = (Ret NO_ERR, st1)"
    "read_local api fp shdr (e_shentsize ehdr) st1 = (Ret NO_ERR, b', st2)" "ok p2 (lfs st2)" "lmem st2 = lmem st"
    "fs_mms (lfs st2) = fs_mms (lfs st)" "\<And>k. k \<le> 36 \<Longrightarrow> load32 b' (of_nat k) = le32 content (sec content j + k)"
    by blast
  have ty: "sh_type b' = le32 content (sec content j + 4)" using h(6) [of 4] by (simp add: sh_type_def)
  have sz: "\<not> e_shentsize ehdr > SIZEOF_Elf32_Shdr" by (simp add: e(2) SIZEOF_Elf32_Shdr_def)
  show ?case
  proof (cases "j = i")
    case True
    have "find_main api fp base ehdr lit (Suc n) (of_nat j) shdr str_shdr v st = load_symbols api fp base ehdr lit b' str_shdr v st2"
      using h(1,2) ty sz i(1) True by (simp add: failed_def)
    moreover have "\<exists>st' p'. load_symbols api fp base ehdr lit b' str_shdr v st2 = Some (Ret NO_ERR, \<lparr>string_tab = str, sym_tab = symt,
        entry_addr = (case elf_main base content of None \<Rightarrow> entry_addr v | Some x \<Rightarrow> x)\<rparr>, st') \<and> ok p' (lfs st') \<and> fs_mms (lfs st') = mm2"
    proof (rule load_symbols_ok [OF h(3) o(2,3) e _ _ k(2) _ lit(2-4)])
      show "load32 b' (of_nat l) = le32 content (sec content i + l)" if "l \<le> 36" for l using h(6) [OF that] True by simp
    qed (use h(4,5) Suc.prems(2,3) in simp_all)
    ultimately show ?thesis by simp
  next
    case False
    then have "j < i" using Suc.prems(4) by simp
    then have "find_main api fp base ehdr lit (Suc n) (of_nat j) shdr str_shdr v st
        = find_main api fp base ehdr lit n (of_nat (Suc j)) b' str_shdr v st2"
      using h(1,2) ty sz i(2) by (simp add: failed_def add.commute)
    then show ?thesis using Suc.IH [OF h(3), of "Suc j" b'] h(4,5) Suc.prems(2,3,5) \<open>j < i\<close> by simp
  qed
qed

end

section \<open>From the host tool to the entry point\<close>

text \<open>The heap is a stack of regions with room for three more, the file object and the two tables, above \<open>heap_top\<close>.\<close>

definition heap_top :: "mms \<Rightarrow> u32" where
  "heap_top mm = (let p = vmpools (mm_vms mm) (pvm_kernel mm) in base_address p + region_size_total p)"

definition heap_room3 :: "mms \<Rightarrow> bool" where
  "heap_room3 mm \<longleftrightarrow>
     (let v = vmpools (mm_vms mm) (pvm_kernel mm)
      in \<exists>n < 254. vm_stack (pvm_kernel mm) n (mm_vms mm)
        \<and> (\<forall>i < n. startAddr (regions (mm_vms mm) (slot (base_address v) i)) \<noteq> base_address v + region_size_total v))"

lemma heap_for_loading:
  assumes "heap_room3 m" and "unat (heap_top m) + 4096 * (1 + pages_of s1 + pages_of s2) < 2 ^ 32"
  obtains a str symt mm mm1 mm2 mm3 mm4 where "kmalloc SIZEOF_slfs_file m = Some (a, mm)" "kfree a mm = Some mm1"
    "kmalloc SIZEOF_slfs_file mm1 = Some (a, mm2)" "kmalloc s1 mm2 = Some (str, mm3)" "kmalloc s2 mm3 = Some (symt, mm4)"
    "unat str = unat (heap_top m) + 4096" "unat symt = unat str + 4096 * pages_of s1"
proof -
  let ?v = "pvm_kernel m"
  obtain n where n: "vm_stack ?v n (mm_vms m)" "n < 254"
    "\<forall>i < n. startAddr (regions (mm_vms m) (slot (base_address (vmpools (mm_vms m) ?v)) i))
      \<noteq> base_address (vmpools (mm_vms m) ?v) + region_size_total (vmpools (mm_vms m) ?v)"
    using assms(1) by (auto simp: heap_room3_def Let_def)
  have lt: "n < 256" using n(2) by simp
  obtain a vm1 vm2 where r: "allocate ?v SIZEOF_slfs_file (mm_vms m) = Some (a, vm1)" "release ?v a vm1 = Some vm2"
    "vm_stack ?v n vm2" "vmpools vm2 ?v = vmpools (mm_vms m) ?v"
    using allocate_release_last [OF n(1) lt n(3), of SIZEOF_slfs_file] by auto
  have a: "a = heap_top m"
    using allocate_stack [OF n(1) lt, of SIZEOF_slfs_file] r(1) by (auto simp: heap_top_def Let_def)
  let ?m1 = "m\<lparr>mm_vms := vm2\<rparr>"
  have top: "heap_top ?m1 = heap_top m" by (simp add: heap_top_def r(4))
  have one: "pages_of SIZEOF_slfs_file = 1" by (simp add: pages_of_def SIZEOF_slfs_file_def)
  obtain as m4 where "kmalloc_all [SIZEOF_slfs_file, s1, s2] ?m1 = Some (as, m4)"
    "map unat as = layout (unat (heap_top m)) [SIZEOF_slfs_file, s1, s2]"
    using kmalloc_all_layout [of ?m1 n "[SIZEOF_slfs_file, s1, s2]" _ "heap_top m", OF _ _ refl] n(2) r(3) assms(2) one top
    by (auto simp: heap_top_def Let_def)
  then obtain b str symt mm2 mm3 where k: "kmalloc SIZEOF_slfs_file ?m1 = Some (b, mm2)" "kmalloc s1 mm2 = Some (str, mm3)"
    "kmalloc s2 mm3 = Some (symt, m4)" "unat b = unat (heap_top m)" "unat str = unat (heap_top m) + 4096"
    "unat symt = unat str + 4096 * pages_of s1"
    by (auto simp: Option.bind_eq_Some_conv one)
  have "b = a" using k(4) a by (simp add: word_unat_eq_iff)
  then show ?thesis using that k r(1,2) by (simp add: kmalloc_def kfree_def)
qed

lemma apart_blocksI:
  assumes "unat a + n \<le> unat b" and "unat b + m \<le> 2 ^ 32"
  shows "apart_blocks a n b m"
  unfolding apart_blocks_def
proof (intro allI impI)
  fix i assume i: "i < n"
  have "unat (a + of_nat i) = unat a + i"
    using unat_add_below [of a i] i assms by simp
  then have "unat (a + of_nat i) < unat b" using i assms(1) by simp
  then have "unat (a + of_nat i - b) = 2 ^ 32 + unat (a + of_nat i) - unat b"
    by (simp add: unat_sub_if_size word_size)
  then show "m \<le> unat (a + of_nat i - b)" using assms(2) by simp
qed

lemma pages_of_cover: "unat s \<le> 4096 * pages_of s"
  by (simp add: pages_of_def)

text \<open>The application in the file system, opened by the loader.\<close>

lemma app_stored:
  fixes s :: "('l, 'f) fs_state"
  assumes h: "kmalloc SIZEOF_slfs_file (fs_mms s) = Some (a, mm)" "kfree a mm = Some mm1" "kmalloc SIZEOF_slfs_file mm1 = Some (a, mm2)"
    and img: "mkfs [Some app] = (0, Some out)" "image_at img base out"
    and size: "0 < length (pad_app app)" "length (pad_app app) \<le> 8184 * 504"
    and names: "path 6 = CHR 0x00" "fname0 6 = CHR 0x00"
  obtains s1 f2 st5 where "create_ramdisk_fs api SLFS_FILE_SYSTEM sb sb2 img base inode junk path s = Some (Ret NO_ERR, s1)"
    "sprintk ''/App_%x'' [IntArg 0] (0, fname0) = Some (6, f2)"
    "fs_open api SLFS_FILE_SYSTEM (name_bytes f2) 0 s1 = Some (Ret NO_ERR, \<lparr>fs_t = SLFS_FILE_SYSTEM, virt_fp = a\<rparr>, st5)"
    "slfs_holds \<lparr>fs_t = SLFS_FILE_SYSTEM, virt_fp = a\<rparr> (\<lambda>x. pad_app app ! x) (of_nat (length (pad_app app))) 0 st5" "fs_mms st5 = mm2"
proof -
  have "length (packed app) \<le> 8184 * 504 + 4" using size by (simp add: packed_def)
  then obtain es where es: "list_all2 holds_app es [app]" "create_ramdisk_fs api SLFS_FILE_SYSTEM sb sb2 img base inode junk path s
      = store_apps api SLFS_FILE_SYSTEM inode junk es 0 path (snd (fs_mount api SLFS_FILE_SYSTEM sb sb2 s))"
    using mkfs_unpacks [where 'l = 'l and 'f = 'f and apps = "[app]" and img = img and base = base] img by auto
  then obtain buf len where e: "es = [(buf, len)]" "unat len = length (pad_app app)"
    "\<And>j. j < unat len \<Longrightarrow> buf (of_nat j) = pad_app app ! j"
    by (auto simp: list_all2_Cons2 holds_app_def)
  then have len: "len = of_nat (length (pad_app app))" "0 < unat len" "unat len \<le> 8184 * 504" using size by (simp_all flip: e(2))
  obtain st1 where st1: "fs_mount api SLFS_FILE_SYSTEM sb sb2 s = (Ret NO_ERR, st1)"
    "on_disk (fs_slfs st1) (formatted sb2)" "fs_mms st1 = fs_mms s" by (rule fs_mount_slfs)
  obtain f1 where f1: "sprintk ''/App_%x'' [IntArg 0] (0, path) = Some (6, f1)" "short_name (name_bytes f1) 6"
    "\<forall>j \<le> 6. name_bytes f1 (of_nat j) = of_char ((''/App_0'' @ [CHR 0x00]) ! j)" by (rule app_name [of path, OF names(1)])
  obtain f2 where f2: "sprintk ''/App_%x'' [IntArg 0] (0, fname0) = Some (6, f2)" "short_name (name_bytes f2) 6"
    "\<forall>j \<le> 6. name_bytes f2 (of_nat j) = of_char ((''/App_0'' @ [CHR 0x00]) ! j)" by (rule app_name [of fname0, OF names(2)])
  obtain fp st2 st3 st4 D where w: "fs_open api SLFS_FILE_SYSTEM (name_bytes f1) 0 st1 = Some (Ret NO_ERR, fp, st2)"
    "fs_write api fp buf len inode junk st2 = Some (Ret NO_ERR, st3)" "fs_close api fp st3 = Some (Ret NO_ERR, st4)"
    "fs_mms st4 = mm1" "\<And>i. i < unat len \<Longrightarrow> file_byte D 0 i = buf (of_nat i)"
    and again: "\<And>mm' a' mm2 name' flag'. kmalloc SIZEOF_slfs_file mm' = Some (a', mm2) \<Longrightarrow> open_cnt (slfs_files st4 a') + 1 \<noteq> 0 \<Longrightarrow>
       \<forall>j \<le> 6. name' (of_nat j) = name_bytes f1 (of_nat j) \<Longrightarrow>
       \<exists>st5. fs_open api SLFS_FILE_SYSTEM name' flag' (st4\<lparr>fs_mms := mm'\<rparr>) = Some (Ret NO_ERR, \<lparr>fs_t = SLFS_FILE_SYSTEM, virt_fp = a'\<rparr>, st5)
         \<and> slfs_open_at \<lparr>fs_t = SLFS_FILE_SYSTEM, virt_fp = a'\<rparr> D 0 len 0 st5 \<and> fs_mms st5 = mm2"
    and c: "open_cnt (slfs_files st4 a) = 0"
    by (rule fs_first_file [OF st1(2) h(1) [folded st1(3)] h(2) len(2,3) f1(2), of api 0 buf inode junk]) (rule that)
  have created: "create_ramdisk_fs api SLFS_FILE_SYSTEM sb sb2 img base inode junk path s = Some (Ret NO_ERR, st4)"
    using es(2) f1(1) w(1-3) by (simp add: e(1) st1(1) failed_def del: sprintk.simps)
  let ?fp = "\<lparr>fs_t = SLFS_FILE_SYSTEM, virt_fp = a\<rparr>"
  have "st4\<lparr>fs_mms := mm1\<rparr> = st4" using w(4) by simp
  moreover have "\<forall>j \<le> 6. name_bytes f2 (of_nat j) = name_bytes f1 (of_nat j)" using f1(3) f2(3) by simp
  ultimately obtain st5 where o: "fs_open api SLFS_FILE_SYSTEM (name_bytes f2) 0 st4 = Some (Ret NO_ERR, ?fp, st5)"
    "slfs_open_at ?fp D 0 len 0 st5" "fs_mms st5 = mm2"
    using again [OF h(3), of "name_bytes f2" 0] c by auto
  have "slfs_holds ?fp (\<lambda>x. pad_app app ! x) len 0 st5"
    using o(2) w(5) e(3) by (auto simp: slfs_holds_def)
  then show ?thesis using that [OF created f2(1) o(1) _ o(3)] len(1) by simp
qed

text \<open>C2. From the host tool to the entry point: an image that \<open>mkfs\<close> made of one application, unpacked into SLFS by
  \<open>create_ramdisk_fs\<close> on any device, is found by the loader under \<open>/App_0\<close>; \<open>load_image\<close> succeeds and changes
  memory by exactly the loadable segments of the ELF file that was packed, each at its place behind the base of
  the application, and \<open>find_main\<close> then sets the entry point to the value the symbol table gives \<open>main\<close>, behind the same
  base. The heap has room for the file object and the two tables, above the literal the names are compared with; the file fits
  the device, its headers and tables lie inside it, and the two name buffers, which the code does not terminate, have a 0
  behind the name.\<close>

theorem apprun_loads_application:
  fixes st :: "('l, 'f) loader"
  assumes c_def: "c = (\<lambda>x. pad_app app ! x)"
    and "heap_room3 (fs_mms (lfs st))" and "mkfs [Some app] = (0, Some out)" and "image_at img base out"
    and "0 < length (pad_app app)" and "length (pad_app app) \<le> 8184 * 504"
    and "elf_segments c (length (pad_app app))" and "path 6 = CHR 0x00" and "l_fname v 6 = CHR 0x00"
    and "elf_symbols c (length (pad_app app))" and "symtab_of c = Some i" and "elf_main USER_APP_BASE c = Some e"
    and "unat (heap_top (fs_mms (lfs st))) + 4096 * (1 + pages_of (str_size c i) + pages_of (sym_size c i)) < 2 ^ 32"
    and "at_string (load_elf USER_APP_BASE c (lmem st)) lit main_bytes" and "unat lit + 5 \<le> unat (heap_top (fs_mms (lfs st)))"
  shows "\<exists>s1 fname fp ehdr st' tabs (st'' :: ('l, 'f) loader).
      create_ramdisk_fs api SLFS_FILE_SYSTEM sb sb2 img base inode junk path (lfs st) = Some (Ret NO_ERR, s1)
    \<and> load_image api rdonly SLFS_FILE_SYSTEM 0 v (st\<lparr>lfs := s1\<rparr>) = Some (Ret NO_ERR, fname, fp, ehdr, st')
    \<and> lmem st' = load_elf USER_APP_BASE c (lmem st)
    \<and> find_main api fp USER_APP_BASE ehdr lit (unat (e_shnum ehdr)) 0 (l_shdr v) (l_str_shdr v) (l_tabs v) st'
        = Some (Ret NO_ERR, tabs, st'') \<and> entry_addr tabs = e"
proof -
  let ?top = "unat (heap_top (fs_mms (lfs st)))"
  obtain a str symt mm mm1 mm2 mm3 mm4 where h: "kmalloc SIZEOF_slfs_file (fs_mms (lfs st)) = Some (a, mm)" "kfree a mm = Some mm1"
    "kmalloc SIZEOF_slfs_file mm1 = Some (a, mm2)" "kmalloc (str_size c i) mm2 = Some (str, mm3)"
    "kmalloc (sym_size c i) mm3 = Some (symt, mm4)" "unat str = ?top + 4096" "unat symt = unat str + 4096 * pages_of (str_size c i)"
    by (rule heap_for_loading [OF assms(2,13)])
  obtain s1 f2 st5 where o: "create_ramdisk_fs api SLFS_FILE_SYSTEM sb sb2 img base inode junk path (lfs st) = Some (Ret NO_ERR, s1)"
    "sprintk ''/App_%x'' [IntArg 0] (0, l_fname v) = Some (6, f2)"
    "fs_open api SLFS_FILE_SYSTEM (name_bytes f2) 0 s1 = Some (Ret NO_ERR, \<lparr>fs_t = SLFS_FILE_SYSTEM, virt_fp = a\<rparr>, st5)"
    "slfs_holds \<lparr>fs_t = SLFS_FILE_SYSTEM, virt_fp = a\<rparr> c (of_nat (length (pad_app app))) 0 st5" "fs_mms st5 = mm2"
    by (rule app_stored [where path = path and ?fname0.0 = "l_fname v", OF h(1-3) assms(3-6,8,9)])
      (rule that, simp_all only: c_def)
  let ?fp = "\<lparr>fs_t = SLFS_FILE_SYSTEM, virt_fp = a\<rparr>" and ?N = "of_nat (length (pad_app app)) :: u32"
  have N: "unat ?N = length (pad_app app)" using assms(6) by (simp add: unat_of_nat_u32)
  have "slfs_holds ?fp c ?N 0 (lfs (st\<lparr>lfs := st5\<rparr>))" using o(4) by simp
  from sf.load_file_ok [OF this, where api = api and b = "l_ehdr v" and base = USER_APP_BASE and phdr = "l_phdr v"] assms(7)
  obtain ehdr l2 l3 p where r: "read_local api ?fp (l_ehdr v) SIZEOF_Elf32_Ehdr (st\<lparr>lfs := st5\<rparr>) = (Ret NO_ERR, ehdr, l2)"
    "load_segments api ?fp USER_APP_BASE ehdr (unat (e_phnum ehdr)) 0 (l_phdr v) l2 = Some (Ret NO_ERR, l3)"
    "lmem l3 = load_elf USER_APP_BASE c (lmem st)" "slfs_holds ?fp c ?N p (lfs l3)"
    "e_shoff ehdr = le32 c 32" "e_shentsize ehdr = le16 c 46" "e_shnum ehdr = le16 c 48"
    unfolding N by auto
  have img: "load_image api rdonly SLFS_FILE_SYSTEM 0 v (st\<lparr>lfs := s1\<rparr>) = Some (Ret NO_ERR, f2, ?fp, ehdr, l3)"
    unfolding load_image_def using o(2,3) r(1,2) by (simp add: failed_def del: sprintk.simps)
  have mm: "fs_mms (lfs l3) = mm2" using load_segments_heap [OF r(2)] read_local_heap [OF r(1)] o(5) by simp
  have cover: "unat (str_size c i) \<le> 4096 * pages_of (str_size c i)" "unat (sym_size c i) \<le> 4096 * pages_of (sym_size c i)"
    by (rule pages_of_cover)+
  have "apart_blocks lit 5 str (unat (str_size c i))" "apart_blocks lit 5 symt (unat (sym_size c i))"
    "apart_blocks str (unat (str_size c i)) symt (unat (sym_size c i))"
    by (rule apart_blocksI; use assms(13,15) h(6,7) cover in simp)+
  moreover have "elf_symbols c (unat ?N)" "e_shentsize ehdr = 40"
    using assms(10) r(6) unfolding N by (simp_all add: elf_symbols_def)
  ultimately obtain st' where "find_main api ?fp USER_APP_BASE ehdr lit (unat (le16 c 48)) (of_nat 0) (l_shdr v) (l_str_shdr v) (l_tabs v) l3
      = Some (Ret NO_ERR, \<lparr>string_tab = str, sym_tab = symt,
          entry_addr = (case elf_main USER_APP_BASE c of None \<Rightarrow> entry_addr (l_tabs v) | Some x \<Rightarrow> x)\<rparr>, st')"
    using sf.find_main_ok [OF r(4) _ assms(11) r(5) _ _ h(5), of str lit 0 "unat (le16 c 48)" api USER_APP_BASE "l_shdr v" "l_str_shdr v" "l_tabs v"]
      assms(14) h(4) mm r(3) by auto
  then show ?thesis using o(1) img r(3,7) assms(12) by auto
qed

text \<open>An application of one segment and one symbol: 16 bytes of code at byte 84 of the file, loaded to \<open>0x1000010\<close>, where
  \<open>main\<close> is; the two section headers from byte 100 on, the symbol at 180 and the names at 196.\<close>

definition tiny_elf :: "u8 list" where
  "tiny_elf = replicate 28 0 @ [52, 0, 0, 0, 100, 0, 0, 0] @ replicate 6 0 @ [32, 0, 1, 0, 40, 0, 2, 0, 0, 0]
     @ [1, 0, 0, 0, 84, 0, 0, 0, 16, 0, 0, 0, 0, 0, 0, 0, 16, 0, 0, 0] @ replicate 12 0 @ replicate 16 7
     @ [0, 0, 0, 0, 2, 0, 0, 0] @ replicate 8 0 @ [180, 0, 0, 0, 16, 0, 0, 0, 1, 0, 0, 0] @ replicate 12 0
     @ [0, 0, 0, 0, 3, 0, 0, 0] @ replicate 8 0 @ [196, 0, 0, 0, 8, 0, 0, 0] @ replicate 16 0
     @ [1, 0, 0, 0, 16, 0, 0, 0] @ replicate 8 0 @ [0, 0x6D, 0x61, 0x69, 0x6E, 0, 0, 0]"

definition tiny_mem :: mem where
  "tiny_mem = (\<lambda>_. 0)(0x200 := 0x6D, 0x201 := 0x61, 0x202 := 0x69, 0x203 := 0x6E)"
definition tiny_loader :: "(unit, unit) loader" where "tiny_loader = \<lparr>lmem = tiny_mem, lfs = fresh_fs\<rparr>"
definition tiny_locals :: locals where
  "tiny_locals = \<lparr>l_fname = \<lambda>_. CHR 0x00, l_ehdr = no_bytes, l_phdr = no_bytes, l_shdr = no_bytes, l_str_shdr = no_bytes,
     l_tabs = \<lparr>string_tab = 0, sym_tab = 0, entry_addr = 0\<rparr>\<rparr>"

lemma tiny_length: "length tiny_elf = 204" and tiny_pad: "pad_app tiny_elf = tiny_elf"
  by (simp_all add: tiny_elf_def pad_app_def)

lemma tiny_words:
  "le16 (\<lambda>x. tiny_elf ! x) 42 = 32" "le16 (\<lambda>x. tiny_elf ! x) 44 = 1" "le16 (\<lambda>x. tiny_elf ! x) 46 = 40" "le16 (\<lambda>x. tiny_elf ! x) 48 = 2"
  "le32 (\<lambda>x. tiny_elf ! x) 28 = 52" "le32 (\<lambda>x. tiny_elf ! x) 32 = 100"
  "le32 (\<lambda>x. tiny_elf ! x) 52 = 1" "le32 (\<lambda>x. tiny_elf ! x) 56 = 84" "le32 (\<lambda>x. tiny_elf ! x) 60 = 16" "le32 (\<lambda>x. tiny_elf ! x) 68 = 16"
  "le32 (\<lambda>x. tiny_elf ! x) 104 = 2" "le32 (\<lambda>x. tiny_elf ! x) 116 = 180" "le32 (\<lambda>x. tiny_elf ! x) 120 = 16" "le32 (\<lambda>x. tiny_elf ! x) 124 = 1"
  "le32 (\<lambda>x. tiny_elf ! x) 156 = 196" "le32 (\<lambda>x. tiny_elf ! x) 160 = 8"
  "le32 (\<lambda>x. tiny_elf ! x) 180 = 1" "le32 (\<lambda>x. tiny_elf ! x) 184 = 16"
  by (simp_all add: le16_def load16_def le32_def load32_def) (simp_all add: tiny_elf_def nth_append)

lemma tiny_segments:
  "elf_segments (\<lambda>x. tiny_elf ! x) 204"
  "load_elf 0x1000000 (\<lambda>x. tiny_elf ! x) m = copied 0x1000010 16 (\<lambda>x. tiny_elf ! (84 + x)) m"
  by (simp_all add: elf_segments_def load_elf_def load_seg_def seg_loadable_def PT_LOAD_def tiny_words)

lemma tiny_table:
  "symtab_of (\<lambda>x. tiny_elf ! x) = Some 0" "sym_off (\<lambda>x. tiny_elf ! x) 0 = 180" "sym_size (\<lambda>x. tiny_elf ! x) 0 = 16"
  "str_sec (\<lambda>x. tiny_elf ! x) 0 = 1" "str_off (\<lambda>x. tiny_elf ! x) 0 = 196" "str_size (\<lambda>x. tiny_elf ! x) 0 = 8"
  "sym_count (\<lambda>x. tiny_elf ! x) 0 = 1"
proof -
  have "[0..<2] = [0, 1 :: nat]" by (simp add: upt_conv_Cons)
  then show "symtab_of (\<lambda>x. tiny_elf ! x) = Some 0" by (simp add: symtab_of_def sec_def SHT_SYMTAB_def tiny_words)
qed (simp_all add: sym_off_def sym_size_def str_sec_def str_off_def str_size_def sym_count_def sec_def tiny_words)

lemma tiny_name: "sym_name (\<lambda>x. tiny_elf ! x) 0 0 = main_bytes"
  by (simp add: sym_name_def file_str_def tiny_table tiny_words main_bytes_def upt_rec)
    (simp add: tiny_elf_def nth_append)

lemma tiny_main:
  "elf_symbols (\<lambda>x. tiny_elf ! x) 204" "elf_main b (\<lambda>x. tiny_elf ! x) = Some (b + 16)"
  by (simp_all add: elf_symbols_def elf_main_def tiny_table tiny_words tiny_name main_bytes_def)

lemma tiny_literal: "at_string (load_elf 0x1000000 (\<lambda>x. tiny_elf ! x) tiny_mem) 0x200 main_bytes"
  unfolding tiny_segments(2)
proof (rule copied_string)
  have five: "j = 0 \<or> j = 1 \<or> j = 2 \<or> j = 3 \<or> j = 4" if "j \<le> 4" for j :: nat using that by linarith
  have "tiny_mem (0x200 + of_nat j) = main_bytes ! j" if "j < 4" for j
    using five [of j] that by (auto simp: main_bytes_def tiny_mem_def)
  then show "at_string tiny_mem 0x200 main_bytes" by (simp add: at_string_def main_bytes_def tiny_mem_def)
  fix j assume "j \<le> length main_bytes"
  then have "j \<le> 4" by (simp add: main_bytes_def)
  from five [OF this] show "16 \<le> unat ((0x200 :: u32) + of_nat j - 0x1000010)" by auto
qed

theorem apprun_loads_application_witness:
  "\<exists>out s1 fname fp ehdr st' tabs st''. mkfs [Some tiny_elf] = (0, Some out)
    \<and> create_ramdisk_fs no_lfs SLFS_FILE_SYSTEM no_bytes no_bytes (\<lambda>a. out ! unat a) 0 no_bytes 0 (\<lambda>_. CHR 0x00) (lfs tiny_loader)
      = Some (Ret NO_ERR, s1)
    \<and> load_image no_lfs 0 SLFS_FILE_SYSTEM 0 tiny_locals (tiny_loader\<lparr>lfs := s1\<rparr>) = Some (Ret NO_ERR, fname, fp, ehdr, st')
    \<and> lmem st' 0x100001F = 7 \<and> lmem st' 0x1000020 = 0
    \<and> find_main no_lfs fp USER_APP_BASE ehdr 0x200 (unat (e_shnum ehdr)) 0 no_bytes no_bytes (l_tabs tiny_locals) st'
        = Some (Ret NO_ERR, tabs, st'') \<and> entry_addr tabs = 0x1000010"
proof -
  let ?out = "put32 1 @ packed tiny_elf"
  have m: "mkfs [Some tiny_elf] = (0, Some ?out)" by (simp add: mkfs_def packed_def)
  have "length ?out < 2 ^ 32" by (simp add: packed_def tiny_pad tiny_length)
  then have im: "image_at (\<lambda>a. ?out ! unat a) 0 ?out" unfolding image_at_def by (simp add: unat_of_nat_u32)
  have h: "heap_room3 (fs_mms (lfs tiny_loader))" and top: "heap_top (fs_mms fresh_fs) = 0xC4001000"
    using fresh_vm_stack
    by (auto simp: heap_room3_def heap_top_def Let_def tiny_loader_def fresh_fs_def fresh_mms_def fresh_vm_simps slot_def
        intro!: exI [of _ 1])
  have b: "load_elf 0x1000000 (\<lambda>x. tiny_elf ! x) tiny_mem 0x100001F = 7" "load_elf 0x1000000 (\<lambda>x. tiny_elf ! x) tiny_mem 0x1000020 = 0"
    by (simp_all add: tiny_segments copied_def tiny_mem_def) (simp add: tiny_elf_def nth_append)
  show ?thesis
    using apprun_loads_application [OF refl h m im, where path = "\<lambda>_. CHR 0x00" and v = tiny_locals and api = no_lfs and sb = no_bytes
        and ?sb2.0 = no_bytes and inode = no_bytes and junk = 0 and rdonly = 0 and i = 0 and lit = "0x200" and e = "0x1000010"] m b
    by (auto simp: top tiny_pad tiny_length tiny_segments(1) tiny_main tiny_table tiny_literal pages_of_def tiny_locals_def tiny_loader_def
        USER_APP_BASE_def)
qed

end
