(* ===== verification/Mailbox.thy ===== *)
theory Mailbox
  imports Task
begin

text \<open>
  The mailboxes of the two CPUs (src/kernel/core/mailbox.c, inc/mailbox.h) and the software interrupt
  that reads them (src/kernel/core/sgi.c). The two CPUs run at once: each is at a point of its program,
  a step of either is one access to shared memory, and the spinlock is taken by one atomic step. A step
  is labelled when a letter becomes visible to the reader or is taken by it.
\<close>

section \<open>State\<close>

datatype letter_type = EMPTY | TASK_STAT | TASK_ODEV
datatype letter_status = READ | NOT_READ

record mailbox_struct =
  mb_status :: letter_status
  mb_letter :: letter_type

datatype cpu_id = Cpu0 | Cpu1

text \<open>There are two CPUs, so that what holds for each of them can be checked by going through both.\<close>

instantiation cpu_id :: enum
begin

definition "enum_class.enum = [Cpu0, Cpu1]"
definition "enum_class.enum_all P \<longleftrightarrow> P Cpu0 \<and> P Cpu1"
definition "enum_class.enum_ex P \<longleftrightarrow> P Cpu0 \<or> P Cpu1"

instance
proof
  show "UNIV = set (enum_class.enum :: cpu_id list)" unfolding enum_cpu_id_def by (auto intro: cpu_id.exhaust)
qed (auto simp: enum_cpu_id_def enum_all_cpu_id_def enum_ex_cpu_id_def, (metis cpu_id.exhaust)+)

end

text \<open>\<open>pmailbox\<close> of \<open>push_mail\<close>: the mailbox of the other CPU.\<close>

definition push_target :: "cpu_id \<Rightarrow> cpu_id" where
  "push_target c = (if c = Cpu0 then Cpu1 else Cpu0)"

text \<open>Where a CPU is: outside, waiting for the lock, in the loop of \<open>push_mail\<close> before its test and before
  its two assignments, in \<open>pull_mail\<close> before its test, before it reads the letter and before it resets the status, and
  before the lock is released.\<close>

datatype place = Outside | PushLock letter_type | PushLoop letter_type | PushWrite letter_type | PushMark letter_type
  | PullLock | PullTest | PullRead | PullMark letter_type | Release

record mail_state =
  boxes :: "cpu_id \<Rightarrow> mailbox_struct"
  mailbox_lock :: bool
  place_of :: "cpu_id \<Rightarrow> place"

definition init_mailbox :: "mail_state \<Rightarrow> mail_state" where
  "init_mailbox st = st\<lparr>boxes := \<lambda>_. \<lparr>mb_status = READ, mb_letter = EMPTY\<rparr>\<rparr>"

definition goes :: "cpu_id \<Rightarrow> place \<Rightarrow> mail_state \<Rightarrow> mail_state" where
  "goes c p st = st\<lparr>place_of := (place_of st)(c := p)\<rparr>"
definition upd_box :: "cpu_id \<Rightarrow> (mailbox_struct \<Rightarrow> mailbox_struct) \<Rightarrow> mail_state \<Rightarrow> mail_state" where
  "upd_box b f st = st\<lparr>boxes := (boxes st)(b := f (boxes st b))\<rparr>"

section \<open>Steps\<close>

datatype mail_event = Sent cpu_id letter_type | Got cpu_id letter_type

inductive push_mail :: "cpu_id \<Rightarrow> mail_state \<Rightarrow> mail_event option \<Rightarrow> mail_state \<Rightarrow> bool" where
  push_call: "place_of st c = Outside \<Longrightarrow> push_mail c st None (goes c (PushLock l) st)"
| push_acquire: "place_of st c = PushLock l \<Longrightarrow> \<not> mailbox_lock st
    \<Longrightarrow> push_mail c st None (goes c (PushLoop l) (st\<lparr>mailbox_lock := True\<rparr>))"
| push_wait: "place_of st c = PushLoop l \<Longrightarrow> mb_status (boxes st (push_target c)) \<noteq> READ \<Longrightarrow> push_mail c st None st"
| push_test: "place_of st c = PushLoop l \<Longrightarrow> mb_status (boxes st (push_target c)) = READ
    \<Longrightarrow> push_mail c st None (goes c (PushWrite l) st)"
| push_letter: "place_of st c = PushWrite l
    \<Longrightarrow> push_mail c st None (goes c (PushMark l) (upd_box (push_target c) (mb_letter_update (\<lambda>_. l)) st))"
| push_status: "place_of st c = PushMark l
    \<Longrightarrow> push_mail c st (Some (Sent (push_target c) l))
          (goes c Release (upd_box (push_target c) (mb_status_update (\<lambda>_. NOT_READ)) st))"

inductive pull_mail :: "cpu_id \<Rightarrow> mail_state \<Rightarrow> mail_event option \<Rightarrow> mail_state \<Rightarrow> bool" where
  pull_call: "place_of st c = Outside \<Longrightarrow> pull_mail c st None (goes c PullLock st)"
| pull_acquire: "place_of st c = PullLock \<Longrightarrow> \<not> mailbox_lock st
    \<Longrightarrow> pull_mail c st None (goes c PullTest (st\<lparr>mailbox_lock := True\<rparr>))"
| pull_empty: "place_of st c = PullTest \<Longrightarrow> mb_status (boxes st c) = READ \<Longrightarrow> pull_mail c st None (goes c Release st)"
| pull_test: "place_of st c = PullTest \<Longrightarrow> mb_status (boxes st c) \<noteq> READ \<Longrightarrow> pull_mail c st None (goes c PullRead st)"
| pull_letter: "place_of st c = PullRead
    \<Longrightarrow> pull_mail c st None (goes c (PullMark (mb_letter (boxes st c))) st)"
| pull_status: "place_of st c = PullMark l
    \<Longrightarrow> pull_mail c st (Some (Got c l)) (goes c Release (upd_box c (mb_status_update (\<lambda>_. READ)) st))"

text \<open>Both functions end with the release of the lock.\<close>

inductive mail_step :: "cpu_id \<Rightarrow> mail_state \<Rightarrow> mail_event option \<Rightarrow> mail_state \<Rightarrow> bool" where
  push: "push_mail c st ev st' \<Longrightarrow> mail_step c st ev st'"
| pull: "pull_mail c st ev st' \<Longrightarrow> mail_step c st ev st'"
| release: "place_of st c = Release \<Longrightarrow> mail_step c st None (goes c Outside (st\<lparr>mailbox_lock := False\<rparr>))"

inductive_cases push_mailE: "push_mail c st ev st'"
inductive_cases pull_mailE: "pull_mail c st ev st'"
inductive_cases mail_stepE: "mail_step c st ev st'"

definition trace :: "mail_event option \<Rightarrow> mail_event list" where
  "trace ev = (case ev of None \<Rightarrow> [] | Some e \<Rightarrow> [e])"

text \<open>The lock is a static variable, 0 before the boot; what the memory of the mailboxes holds then is left open.\<close>

inductive mail_run :: "mail_event list \<Rightarrow> mail_state \<Rightarrow> bool" where
  start: "\<not> mailbox_lock st \<Longrightarrow> place_of st = (\<lambda>_. Outside) \<Longrightarrow> mail_run [] (init_mailbox st)"
| step: "mail_run tr st \<Longrightarrow> mail_step c st ev st' \<Longrightarrow> mail_run (tr @ trace ev) st'"

section \<open>Mutual exclusion\<close>

definition inside :: "place \<Rightarrow> bool" where
  "inside p \<longleftrightarrow> \<not> (p = Outside \<or> p = PullLock \<or> (\<exists>l. p = PushLock l))"

lemma inside_simps [simp]:
  "\<not> inside Outside" "\<not> inside PullLock" "\<not> inside (PushLock l)" "inside (PushLoop l)" "inside (PushWrite l)" "inside (PushMark l)"
  "inside PullTest" "inside PullRead" "inside (PullMark l)" "inside Release"
  by (simp_all add: inside_def)

lemma push_target_simps [simp]: "push_target Cpu0 = Cpu1" "push_target Cpu1 = Cpu0"
  by (simp_all add: push_target_def)

lemma all_cpu: "(\<forall>c. P c) \<longleftrightarrow> P Cpu0 \<and> P Cpu1"
  by (simp add: enum_all_cpu_id_def flip: enum_all)

text \<open>The lock is held by exactly one CPU that is inside; what the code between the two accesses to a mailbox
  assumes of it.\<close>

definition mail_inv :: "mail_state \<Rightarrow> bool" where
  "mail_inv st \<longleftrightarrow> (\<forall>c. inside (place_of st c) \<longrightarrow> mailbox_lock st \<and> \<not> inside (place_of st (push_target c)))
     \<and> (\<forall>c l. place_of st c = PushWrite l \<longrightarrow> mb_status (boxes st (push_target c)) = READ)
     \<and> (\<forall>c. place_of st c = PullRead \<longrightarrow> mb_status (boxes st c) = NOT_READ)
     \<and> (\<forall>c l. place_of st c = PushMark l \<longrightarrow> mb_status (boxes st (push_target c)) = READ \<and> mb_letter (boxes st (push_target c)) = l)
     \<and> (\<forall>c l. place_of st c = PullMark l \<longrightarrow> mb_status (boxes st c) = NOT_READ \<and> mb_letter (boxes st c) = l)"

lemma mail_inv_init: "\<not> mailbox_lock st \<Longrightarrow> place_of st = (\<lambda>_. Outside) \<Longrightarrow> mail_inv (init_mailbox st)"
  by (simp add: mail_inv_def init_mailbox_def)

lemma not_read: "x \<noteq> READ \<longleftrightarrow> x = NOT_READ"
  by (cases x) simp_all

lemma push_mail_inv: "push_mail c st ev st' \<Longrightarrow> mail_inv st \<Longrightarrow> mail_inv st'"
  by (cases c; erule push_mailE) (auto simp: mail_inv_def all_cpu goes_def upd_box_def not_read)

lemma pull_mail_inv: "pull_mail c st ev st' \<Longrightarrow> mail_inv st \<Longrightarrow> mail_inv st'"
  by (cases c; erule pull_mailE) (auto simp: mail_inv_def all_cpu goes_def upd_box_def not_read)

lemma release_inv: "place_of st c = Release \<Longrightarrow> mail_inv st \<Longrightarrow> mail_inv (goes c Outside (st\<lparr>mailbox_lock := False\<rparr>))"
  by (cases c) (auto simp: mail_inv_def all_cpu goes_def)

lemma mail_step_inv: "mail_step c st ev st' \<Longrightarrow> mail_inv st \<Longrightarrow> mail_inv st'"
  by (erule mail_stepE) (auto dest: push_mail_inv pull_mail_inv release_inv)

lemma mail_run_inv: "mail_run tr st \<Longrightarrow> mail_inv st"
  by (induction rule: mail_run.induct) (auto intro: mail_inv_init mail_step_inv)

section \<open>Letters\<close>

definition sent_to :: "cpu_id \<Rightarrow> mail_event list \<Rightarrow> letter_type list" where
  "sent_to c tr = concat (map (\<lambda>e. case e of Sent d l \<Rightarrow> if d = c then [l] else [] | Got _ _ \<Rightarrow> []) tr)"
definition got_by :: "cpu_id \<Rightarrow> mail_event list \<Rightarrow> letter_type list" where
  "got_by c tr = concat (map (\<lambda>e. case e of Got d l \<Rightarrow> if d = c then [l] else [] | Sent _ _ \<Rightarrow> []) tr)"

text \<open>The letters under way to \<open>c\<close>: the one in its mailbox, if it has not been read.\<close>

definition pending :: "cpu_id \<Rightarrow> mail_state \<Rightarrow> letter_type list" where
  "pending c st = (if mb_status (boxes st c) = NOT_READ then [mb_letter (boxes st c)] else [])"

lemma history_simps [simp]:
  "sent_to c [] = []" "got_by c [] = []" "sent_to c (xs @ ys) = sent_to c xs @ sent_to c ys"
  "got_by c (xs @ ys) = got_by c xs @ got_by c ys"
  "sent_to c [Sent d l] = (if d = c then [l] else [])" "sent_to c [Got d l] = []"
  "got_by c [Got d l] = (if d = c then [l] else [])" "got_by c [Sent d l] = []"
  by (simp_all add: sent_to_def got_by_def)

lemma push_history:
  "push_mail c st ev st' \<Longrightarrow> mail_inv st \<Longrightarrow> got_by d (trace ev) @ pending d st' = pending d st @ sent_to d (trace ev)"
  by (cases c; cases d; erule push_mailE) (auto simp: trace_def pending_def goes_def upd_box_def mail_inv_def all_cpu)

lemma pull_history:
  "pull_mail c st ev st' \<Longrightarrow> mail_inv st \<Longrightarrow> got_by d (trace ev) @ pending d st' = pending d st @ sent_to d (trace ev)"
  by (cases c; cases d; erule pull_mailE) (auto simp: trace_def pending_def goes_def upd_box_def mail_inv_def all_cpu)

lemma release_history: "pending d (goes c Outside (st\<lparr>mailbox_lock := False\<rparr>)) = pending d st"
  by (simp add: pending_def goes_def)

lemma step_history:
  "mail_step c st ev st' \<Longrightarrow> mail_inv st \<Longrightarrow> got_by d (trace ev) @ pending d st' = pending d st @ sent_to d (trace ev)"
  by (erule mail_stepE) (simp_all add: push_history pull_history release_history trace_def [of None])

text \<open>C8. Whatever the two CPUs do, in any interleaving, at most one of them is between acquiring and
  releasing the lock, and the letters a CPU has taken from its mailbox are those sent to it, in order,
  but for the one that still lies in the mailbox: none is lost, doubled or overwritten.\<close>

theorem mailbox_delivers_in_order:
  assumes "mail_run tr st"
  shows "(\<forall>c. sent_to c tr = got_by c tr @ pending c st)
    \<and> \<not> (inside (place_of st Cpu0) \<and> inside (place_of st Cpu1))"
proof
  show "\<forall>c. sent_to c tr = got_by c tr @ pending c st"
    using assms
  proof (induction rule: mail_run.induct)
    case (start st)
    show ?case by (simp add: pending_def init_mailbox_def)
  next
    case (step tr st c ev st')
    show ?case
      using step_history [OF step.hyps(2) mail_run_inv [OF step.hyps(1)]] step.IH by simp
  qed
  show "\<not> (inside (place_of st Cpu0) \<and> inside (place_of st Cpu1))"
    using mail_run_inv [OF assms] by (auto simp: mail_inv_def all_cpu)
qed

section \<open>A full mailbox\<close>

definition mail_step1 :: "mail_state \<Rightarrow> mail_state \<Rightarrow> bool" where
  "mail_step1 st st' \<longleftrightarrow> (\<exists>c ev. mail_step c st ev st')"

text \<open>A CPU that loops on a full mailbox holds the lock the reader needs.\<close>

definition stuck :: "cpu_id \<Rightarrow> letter_type \<Rightarrow> mail_state \<Rightarrow> bool" where
  "stuck c l st \<longleftrightarrow> place_of st c = PushLoop l \<and> mb_status (boxes st (push_target c)) = NOT_READ"

lemma push_stuck: "push_mail d st ev st' \<Longrightarrow> mail_inv st \<Longrightarrow> stuck c l st \<Longrightarrow> stuck c l st'"
  by (cases c; cases d; erule push_mailE) (auto simp: stuck_def goes_def upd_box_def mail_inv_def all_cpu)

lemma pull_stuck: "pull_mail d st ev st' \<Longrightarrow> mail_inv st \<Longrightarrow> stuck c l st \<Longrightarrow> stuck c l st'"
  by (cases c; cases d; erule pull_mailE) (auto simp: stuck_def goes_def upd_box_def mail_inv_def all_cpu)

lemma release_stuck:
  "place_of st d = Release \<Longrightarrow> stuck c l st \<Longrightarrow> stuck c l (goes d Outside (st\<lparr>mailbox_lock := False\<rparr>))"
  by (auto simp: stuck_def goes_def)

lemma step_stuck: "mail_step1 st st' \<Longrightarrow> mail_inv st \<and> stuck c l st \<Longrightarrow> mail_inv st' \<and> stuck c l st'"
  unfolding mail_step1_def
  by (auto intro: mail_step_inv elim!: mail_stepE dest: push_stuck pull_stuck release_stuck mail_step_inv [OF mail_step.push] mail_step_inv [OF mail_step.pull] mail_step_inv [OF mail_step.release])

text \<open>C40. A CPU that sends while its last letter is unread never leaves \<open>push_mail\<close>: it loops with the lock,
  so the letter is never read.\<close>

theorem push_mail_deadlocks:
  assumes "mail_run tr st" and "place_of st c = PushLoop l" and "mb_status (boxes st (push_target c)) = NOT_READ"
    and "mail_step1\<^sup>*\<^sup>* st st'"
  shows "place_of st' c = PushLoop l \<and> mb_status (boxes st' (push_target c)) = NOT_READ"
proof -
  have "mail_inv st \<and> stuck c l st" using assms mail_run_inv by (simp add: stuck_def)
  with assms(4) have "mail_inv st' \<and> stuck c l st'"
    by (induction rule: rtranclp_induct) (use step_stuck in blast)+
  then show ?thesis by (simp add: stuck_def)
qed

text \<open>CPU 0 has sent a letter and is sending another one. Before the boot the mailboxes hold anything, here
  letters that look unread.\<close>

definition mail_reset :: mail_state where
  "mail_reset = \<lparr>boxes = \<lambda>_. \<lparr>mb_status = NOT_READ, mb_letter = EMPTY\<rparr>, mailbox_lock = False, place_of = \<lambda>_. Outside\<rparr>"

lemma second_push:
  obtains st where "mail_run [Sent Cpu1 TASK_STAT] st" "place_of st Cpu0 = PushLoop TASK_ODEV"
    "place_of st Cpu1 = Outside" "mb_status (boxes st Cpu1) = NOT_READ"
proof -
  note step = mail_run.step [OF _ mail_step.push, where c = Cpu0]
  note defs = init_mailbox_def mail_reset_def goes_def upd_box_def
  let ?s0 = "init_mailbox mail_reset"
  have r0: "mail_run [] ?s0" by (rule mail_run.start) (simp_all add: mail_reset_def)
  let ?s1 = "goes Cpu0 (PushLock TASK_STAT) ?s0"
  have r1: "mail_run ([] @ trace None) ?s1" by (rule step [OF r0]) (rule push_call, simp add: defs)
  let ?s2 = "goes Cpu0 (PushLoop TASK_STAT) (?s1\<lparr>mailbox_lock := True\<rparr>)"
  have r2: "mail_run (([] @ trace None) @ trace None) ?s2"
    by (rule step [OF r1]) (rule push_acquire, simp_all add: defs)
  let ?s2' = "goes Cpu0 (PushWrite TASK_STAT) ?s2"
  have r2': "mail_run ((([] @ trace None) @ trace None) @ trace None) ?s2'"
    by (rule step [OF r2]) (rule push_test, simp_all add: defs)
  let ?s3 = "goes Cpu0 (PushMark TASK_STAT) (upd_box (push_target Cpu0) (mb_letter_update (\<lambda>_. TASK_STAT)) ?s2')"
  have r3: "mail_run (((([] @ trace None) @ trace None) @ trace None) @ trace None) ?s3"
    by (rule step [OF r2']) (rule push_letter, simp_all add: defs)
  let ?s4 = "goes Cpu0 Release (upd_box (push_target Cpu0) (mb_status_update (\<lambda>_. NOT_READ)) ?s3)"
  have r4: "mail_run ((((([] @ trace None) @ trace None) @ trace None) @ trace None) @ trace (Some (Sent (push_target Cpu0) TASK_STAT))) ?s4"
    by (rule step [OF r3]) (rule push_status, simp add: goes_def)
  let ?s5 = "goes Cpu0 Outside (?s4\<lparr>mailbox_lock := False\<rparr>)"
  have r5: "mail_run [Sent Cpu1 TASK_STAT] ?s5"
    using mail_run.step [OF r4 mail_step.release [of ?s4 Cpu0]] by (simp add: trace_def goes_def)
  let ?s6 = "goes Cpu0 (PushLock TASK_ODEV) ?s5"
  have r6: "mail_run ([Sent Cpu1 TASK_STAT] @ trace None) ?s6" by (rule step [OF r5]) (rule push_call, simp add: goes_def)
  let ?s7 = "goes Cpu0 (PushLoop TASK_ODEV) (?s6\<lparr>mailbox_lock := True\<rparr>)"
  have r7: "mail_run (([Sent Cpu1 TASK_STAT] @ trace None) @ trace None) ?s7"
    by (rule step [OF r6]) (rule push_acquire, simp_all add: goes_def)
  show ?thesis by (rule that [of ?s7]) (use r7 in \<open>simp_all add: trace_def defs\<close>)
qed

theorem mailbox_delivers_in_order_witness:
  "\<exists>st. mail_run [Sent Cpu1 TASK_STAT] st \<and> (\<forall>c. sent_to c [Sent Cpu1 TASK_STAT] = got_by c [Sent Cpu1 TASK_STAT] @ pending c st)
    \<and> \<not> (inside (place_of st Cpu0) \<and> inside (place_of st Cpu1))"
  by (rule second_push) (use mailbox_delivers_in_order in blast)

theorem push_mail_deadlocks_witness:
  "\<exists>st. mail_run [Sent Cpu1 TASK_STAT] st
    \<and> place_of (goes Cpu1 PullLock st) Cpu0 = PushLoop TASK_ODEV
    \<and> mb_status (boxes (goes Cpu1 PullLock st) (push_target Cpu0)) = NOT_READ"
proof -
  obtain st where st: "mail_run [Sent Cpu1 TASK_STAT] st" "place_of st Cpu0 = PushLoop TASK_ODEV"
    "place_of st Cpu1 = Outside" "mb_status (boxes st Cpu1) = NOT_READ" by (rule second_push)
  have "mail_step Cpu1 st None (goes Cpu1 PullLock st)" by (intro mail_step.pull pull_call st(3))
  then have "mail_step1\<^sup>*\<^sup>* st (goes Cpu1 PullLock st)" by (intro r_into_rtranclp) (auto simp: mail_step1_def)
  then show ?thesis using push_mail_deadlocks [OF st(1,2)] st(1,4) by (intro exI [of _ st]) simp
qed

section \<open>The software interrupt\<close>

text \<open>\<open>letter\<close> is what \<open>pull_mail\<close> returned; \<open>fns\<close> gives the addresses of the functions that are queued.\<close>

definition sgi_irq :: "fn_table \<Rightarrow> u32 \<Rightarrow> letter_type \<Rightarrow> cpu \<Rightarrow> (ret \<times> cpu) option" where
  "sgi_irq fns arg letter k =
     (case letter of
        EMPTY \<Rightarrow> Some (NO_ERR, k)
      | TASK_STAT \<Rightarrow>
          map_option (Pair NO_ERR) (wakeup_workq_worker (k\<lparr>work := snd (enqueue_workq (fns ''print_task_stat'') 0 (work k))\<rparr>))
      | TASK_ODEV \<Rightarrow>
          map_option (Pair NO_ERR) (wakeup_workq_worker (k\<lparr>work := snd (enqueue_workq (fns ''create_odev_task'') arg (work k))\<rparr>)))"

end
