(* ===== verification/Gic.thy ===== *)
theory Gic
  imports Mailbox Lib
begin

unbundle bit_operations_syntax

text \<open>
  The interrupt controllers (src/kernel/arch/ca-9/gic_v1.c for the Cortex-A9, arch/ca-53/gic_v2.c for the
  Cortex-A53; inc/gic_v1.h, inc/gic_v2.h): their initialisation, enabling and routing of an interrupt and
  the dispatch to the registered handlers. Registers are words by address; the table of handlers is a
  state of its own. A handler is called through \<open>call\<close>, by its address.
\<close>

section \<open>Controller of the Cortex-A9\<close>

definition GIC_ICCICR_OFFSET :: u32 where "GIC_ICCICR_OFFSET = 0x100"
definition GIC_ICCPMR_OFFSET :: u32 where "GIC_ICCPMR_OFFSET = 0x104"
definition GIC_ICCIAR_OFFSET :: u32 where "GIC_ICCIAR_OFFSET = 0x10C"
definition GIC_ICCEOIR_OFFSET :: u32 where "GIC_ICCEOIR_OFFSET = 0x110"
definition GIC_ICDDCR_OFFSET :: u32 where "GIC_ICDDCR_OFFSET = 0x1000"
definition GIC_ICDICTR_OFFSET :: u32 where "GIC_ICDICTR_OFFSET = 0x1004"
definition GIC_ICDICFR2_OFFSET :: u32 where "GIC_ICDICFR2_OFFSET = 0x1C08"
definition GIC_ICDICFR3_OFFSET :: u32 where "GIC_ICDICFR3_OFFSET = 0x1C0C"
definition GIC_ICDICFR4_OFFSET :: u32 where "GIC_ICDICFR4_OFFSET = 0x1C10"
definition GIC_ICDICFR5_OFFSET :: u32 where "GIC_ICDICFR5_OFFSET = 0x1C14"
definition GIC_ICDIPTR0_OFFSET :: u32 where "GIC_ICDIPTR0_OFFSET = 0x1800"
definition GIC_ICDIPTR8_OFFSET :: u32 where "GIC_ICDIPTR8_OFFSET = 0x1820"
definition GIC_ICDISER0_OFFSET :: u32 where "GIC_ICDISER0_OFFSET = 0x1100"
definition GIC_ICDICER0_OFFSET :: u32 where "GIC_ICDICER0_OFFSET = 0x1180"
definition GIC_ICDICER1_OFFSET :: u32 where "GIC_ICDICER1_OFFSET = 0x1184"
definition GIC_ICDICER2_OFFSET :: u32 where "GIC_ICDICER2_OFFSET = 0x1188"

definition NUM_SGI :: int where "NUM_SGI = 16"
definition NUM_PPI :: int where "NUM_PPI = 16"
definition SPI_BASE :: int where "SPI_BASE = NUM_PPI + NUM_SGI"
definition NUM_SPI :: int where "NUM_SPI = 64"
definition NUM_IRQS :: int where "NUM_IRQS = NUM_SGI + NUM_PPI + NUM_SPI"

lemmas gic_consts = NUM_SGI_def NUM_PPI_def SPI_BASE_def NUM_SPI_def NUM_IRQS_def

record ihandler =
  h_func :: u32
  h_arg :: u32

text \<open>\<open>gic_dev\<close> and the table \<open>handler\<close> by CPU and interrupt.\<close>

record gic =
  gic_dev :: device
  handler :: "nat \<Rightarrow> nat \<Rightarrow> ihandler"

text \<open>The enable bits have two registers each: a word written to the set register sets its ones, a word written to the
  clear register, which lies 0x80 behind, clears its ones, and a 0 has no effect on either. The bits are kept under the address
  of the set register. Every other register holds what was last written to it.\<close>

definition write_set_enable :: "u32 \<Rightarrow> u32 \<Rightarrow> cpu \<Rightarrow> cpu" where
  "write_set_enable a v k = write32 a (read32 a k OR v) k"

definition write_clear_enable :: "u32 \<Rightarrow> u32 \<Rightarrow> cpu \<Rightarrow> cpu" where
  "write_clear_enable a v k = write32 (a - 0x80) (read32 (a - 0x80) k AND NOT v) k"

definition init_gic_dist :: "device option \<Rightarrow> cpu \<Rightarrow> ret \<times> cpu" where
  "init_gic_dist dev k =
     (case dev of None \<Rightarrow> (Neg EINVAL, k)
      | Some d \<Rightarrow>
          (let b = base_addr d;
               k1 = write32 (b + GIC_ICDDCR_OFFSET) 0 k;
               ext_irq_num = ((read32 (b + GIC_ICDICTR_OFFSET) k1 AND 0x1F) + 1) * 32;
               k2 = write32 (b + GIC_ICDICFR5_OFFSET) 0x03FFFF55 (write32 (b + GIC_ICDICFR4_OFFSET) 0x755557FF
                     (write32 (b + GIC_ICDICFR3_OFFSET) 0xDD55D555 (write32 (b + GIC_ICDICFR2_OFFSET) 0x555D555F k1)));
               k3 = for_upto (unat ext_irq_num div 4)
                      (\<lambda>j. write32 (b + GIC_ICDIPTR8_OFFSET + of_nat (4 * j)) 0x01010101) k2;
               k4 = write_clear_enable (b + GIC_ICDICER2_OFFSET) 0xFFFFFFFF (write_clear_enable (b + GIC_ICDICER1_OFFSET) 0xFFFFFFFF
                     (write_clear_enable (b + GIC_ICDICER0_OFFSET) 0x0000FFFF k3));
               k5 = write_set_enable (b + GIC_ICDISER0_OFFSET) 0xFFFF8000 k4
           in (NO_ERR, write32 (b + GIC_ICDDCR_OFFSET) 0x3 k5)))"

definition init_gic_cpu :: "device option \<Rightarrow> cpu \<Rightarrow> ret \<times> cpu" where
  "init_gic_cpu dev k =
     (case dev of None \<Rightarrow> (Neg EINVAL, k)
      | Some d \<Rightarrow> (NO_ERR, write32 (base_addr d + GIC_ICCICR_OFFSET) 0x07 (write32 (base_addr d + GIC_ICCPMR_OFFSET) 0xF8 k)))"

text \<open>The device comes back with its base address; \<open>dt\<close> is its node of the device tree.\<close>

definition init_gic :: "dt_node \<Rightarrow> device option \<Rightarrow> cpu \<Rightarrow> ret \<times> device option \<times> cpu" where
  "init_gic dt dev k =
     (case dev of None \<Rightarrow> (Neg EINVAL, None, k)
      | Some d \<Rightarrow>
          (let d1 = d\<lparr>base_addr := dt_base dt\<rparr>; (r, k1) = init_gic_dist (Some d1) k; (r, k2) = init_gic_cpu (Some d1) k1
           in (NO_ERR, Some d1, k2)))"

definition init_gic_secondary :: "device option \<Rightarrow> cpu \<Rightarrow> ret \<times> cpu" where
  "init_gic_secondary dev k =
     (case dev of None \<Rightarrow> (Neg EINVAL, k)
      | Some d \<Rightarrow>
          (let b = base_addr d
           in (NO_ERR, write_set_enable (b + GIC_ICDISER0_OFFSET) 0xFFFF8000 (write32 (b + GIC_ICCICR_OFFSET) 0x7
                 (write32 (b + GIC_ICCPMR_OFFSET) 0xF8 (write32 (b + GIC_ICDDCR_OFFSET) 0x1 k))))))"

text \<open>The interrupt handler returns 1 for a number it does not know, else what the handler returns.\<close>

datatype irq_ret = IrqOne | IrqRet ret

definition gic_irq_handler :: "(u32 \<Rightarrow> u32 \<Rightarrow> cpu \<Rightarrow> (ret \<times> cpu) option) \<Rightarrow> gic \<Rightarrow> cpu \<Rightarrow> (irq_ret \<times> cpu) option" where
  "gic_irq_handler call g k =
     (let val = read32 (base_addr (gic_dev g) + GIC_ICCIAR_OFFSET) k; num = val AND 0x3FF in
      if uint num \<ge> NUM_IRQS then Some (IrqOne, k)
      else (let h = handler g (unat (cpuid k)) (unat num) in
        do {
          (r, k1) \<leftarrow> call (h_func h) (h_arg h) k;
          Some (IrqRet r, write32 (base_addr (gic_dev g) + GIC_ICCEOIR_OFFSET) val k1)
        }))"

definition route_spi :: "device \<Rightarrow> int \<Rightarrow> cpu \<Rightarrow> cpu" where
  "route_spi d vec k =
     (let reg = base_addr d + GIC_ICDIPTR0_OFFSET + of_int (vec div 4) * 4;
          byte = nat (vec mod 4);
          val = read32 reg k AND NOT (push_bit (byte * 8) 0x000000FF)
      in write32 reg (val OR push_bit (byte * 8) (push_bit (unat (cpuid k)) 1)) k)"

definition gic_enable_interrupt :: "device option \<Rightarrow> int \<Rightarrow> cpu \<Rightarrow> ret \<times> cpu" where
  "gic_enable_interrupt dev vec k =
     (case dev of None \<Rightarrow> (Neg EINVAL, k)
      | Some d \<Rightarrow>
          if vec < 0 \<or> vec \<ge> NUM_IRQS then (Neg EINVAL, k)
          else (let k1 = (if vec \<ge> SPI_BASE then route_spi d vec k else k);
                    reg = base_addr d + GIC_ICDISER0_OFFSET + of_int (vec div 32) * 4
                in (NO_ERR, write_set_enable reg (push_bit (nat (vec mod 32)) 1) k1)))"

definition gic_disable_interrupt :: "device option \<Rightarrow> int \<Rightarrow> cpu \<Rightarrow> ret \<times> cpu" where
  "gic_disable_interrupt dev vec k =
     (case dev of None \<Rightarrow> (Neg EINVAL, k)
      | Some d \<Rightarrow>
          if vec < 0 \<or> vec \<ge> NUM_IRQS then (Neg EINVAL, k)
          else (NO_ERR, write_clear_enable (base_addr d + GIC_ICDICER0_OFFSET + of_int (vec div 32) * 4) (push_bit (nat (vec mod 32)) 1) k))"

text \<open>The table is indexed without a test; an index outside of it is \<open>None\<close>.\<close>

definition gic_register_int_handler :: "int \<Rightarrow> u32 \<Rightarrow> u32 \<Rightarrow> cpu \<Rightarrow> gic \<Rightarrow> (ret \<times> gic) option" where
  "gic_register_int_handler vec func arg k g =
     (if vec < 0 \<or> vec \<ge> NUM_IRQS then None
      else Some (NO_ERR, g\<lparr>handler := (handler g)(unat (cpuid k) := (handler g (unat (cpuid k)))
                             (nat vec := \<lparr>h_func = func, h_arg = arg\<rparr>))\<rparr>))"

text \<open>\<open>p\<close> is the address of the device, which the handler gets as its argument.\<close>

definition register_irq :: "u32 \<Rightarrow> device \<Rightarrow> u32 \<Rightarrow> gic \<Rightarrow> cpu \<Rightarrow> (ret \<times> gic \<times> cpu) option" where
  "register_irq p dev irq_handler g k =
     do {
       (r, g1) \<leftarrow> gic_register_int_handler (uint (dev_irq dev)) irq_handler p k g;
       let (r, k1) = gic_enable_interrupt (Some (gic_dev g1)) (uint (dev_irq dev)) k;
       Some (r, g1, k1)
     }"

definition enable_sgi_irq :: "int \<Rightarrow> u32 \<Rightarrow> u32 \<Rightarrow> cpu \<Rightarrow> gic \<Rightarrow> gic option" where
  "enable_sgi_irq vec sgi_irq_handler arg k g = map_option snd (gic_register_int_handler vec sgi_irq_handler arg k g)"

section \<open>Controller of the Cortex-A53\<close>

definition GICD_CTLR_OFFSET :: u32 where "GICD_CTLR_OFFSET = 0x00010000"
definition GICD_TYPER_OFFSET :: u32 where "GICD_TYPER_OFFSET = 0x00010004"
definition GICD_ISE_BASE_OFFSET :: u32 where "GICD_ISE_BASE_OFFSET = 0x00010100"
definition GICD_ICE_BASE_OFFSET :: u32 where "GICD_ICE_BASE_OFFSET = 0x00010180"
definition GICC_CTLR_OFFSET :: u32 where "GICC_CTLR_OFFSET = 0x00020000"
definition GICC_PMR_OFFSET :: u32 where "GICC_PMR_OFFSET = 0x00020004"
definition GICC_IAR_OFFSET :: u32 where "GICC_IAR_OFFSET = 0x0002000C"
definition GICC_EOIR_OFFSET :: u32 where "GICC_EOIR_OFFSET = 0x00020010"
definition V2_NUM_IRQS :: int where "V2_NUM_IRQS = 187"

record gic2 =
  gic2_dev :: device
  handler2 :: "nat \<Rightarrow> ihandler"

definition v2_init_gic_dist :: "device \<Rightarrow> cpu \<Rightarrow> ret \<times> cpu" where
  "v2_init_gic_dist d k =
     (NO_ERR, write32 (base_addr d + GICD_CTLR_OFFSET) 0x1 (write_set_enable (base_addr d + GICD_ISE_BASE_OFFSET) 0xFFFF0000
                (write32 (base_addr d + GICD_CTLR_OFFSET) 0 k)))"
definition v2_init_gic_cpu :: "device option \<Rightarrow> cpu \<Rightarrow> ret \<times> cpu" where
  "v2_init_gic_cpu dev k =
     (case dev of None \<Rightarrow> (Neg EINVAL, k)
      | Some d \<Rightarrow> (NO_ERR, write32 (base_addr d + GICC_CTLR_OFFSET) 0x1 (write32 (base_addr d + GICC_PMR_OFFSET) 0xF8 k)))"
definition v2_init_gic :: "dt_node \<Rightarrow> device option \<Rightarrow> cpu \<Rightarrow> ret \<times> device option \<times> cpu" where
  "v2_init_gic dt dev k =
     (case dev of None \<Rightarrow> (Neg EINVAL, None, k)
      | Some d \<Rightarrow>
          (let d1 = d\<lparr>base_addr := dt_base dt\<rparr>; (r, k1) = v2_init_gic_dist d1 k; (r, k2) = v2_init_gic_cpu (Some d1) k1
           in (NO_ERR, Some d1, k2)))"

definition v2_gic_irq_handler :: "(u32 \<Rightarrow> u32 \<Rightarrow> cpu \<Rightarrow> (ret \<times> cpu) option) \<Rightarrow> gic2 \<Rightarrow> cpu \<Rightarrow> (ret \<times> cpu) option" where
  "v2_gic_irq_handler call g k =
     (let val = read32 (base_addr (gic2_dev g) + GICC_IAR_OFFSET) k; num = val AND 0x3FF in
      if uint num \<ge> V2_NUM_IRQS then Some (RetMinusOne, k)
      else do {
        (r, k1) \<leftarrow> call (h_func (handler2 g (unat num))) (h_arg (handler2 g (unat num))) k;
        Some (r, write32 (base_addr (gic2_dev g) + GICC_EOIR_OFFSET) val k1)
      })"
definition v2_gic_enable_interrupt :: "device \<Rightarrow> int \<Rightarrow> cpu \<Rightarrow> ret \<times> cpu" where
  "v2_gic_enable_interrupt d vec k =
     (NO_ERR, write_set_enable (base_addr d + GICD_ISE_BASE_OFFSET + of_int (vec div 32) * 4) (push_bit (nat (vec mod 32)) 1) k)"
definition v2_gic_disable_interrupt :: "device \<Rightarrow> int \<Rightarrow> cpu \<Rightarrow> ret \<times> cpu" where
  "v2_gic_disable_interrupt d vec k =
     (NO_ERR, write_clear_enable (base_addr d + GICD_ICE_BASE_OFFSET + of_int (vec div 32) * 4) (push_bit (nat (vec mod 32)) 1) k)"
definition v2_gic_register_int_handler :: "int \<Rightarrow> u32 \<Rightarrow> u32 \<Rightarrow> gic2 \<Rightarrow> (ret \<times> gic2) option" where
  "v2_gic_register_int_handler vec func arg g =
     (if vec < 0 \<or> vec \<ge> V2_NUM_IRQS then None
      else Some (NO_ERR, g\<lparr>handler2 := (handler2 g)(nat vec := \<lparr>h_func = func, h_arg = arg\<rparr>)\<rparr>))"
definition v2_register_irq :: "u32 \<Rightarrow> device \<Rightarrow> u32 \<Rightarrow> gic2 \<Rightarrow> cpu \<Rightarrow> (ret \<times> gic2 \<times> cpu) option" where
  "v2_register_irq p dev irq_handler g k =
     do {
       (r, g1) \<leftarrow> v2_gic_register_int_handler (uint (dev_irq dev)) irq_handler p g;
       let (r, k1) = v2_gic_enable_interrupt (gic2_dev g1) (uint (dev_irq dev)) k;
       Some (r, g1, k1)
     }"

section \<open>Routing and dispatch\<close>

text \<open>The CPUs an interrupt goes to: a byte of the target registers.\<close>

definition irq_targets :: "device \<Rightarrow> cpu \<Rightarrow> nat \<Rightarrow> u32" where
  "irq_targets d k v = byte (v mod 4) (read32 (base_addr d + GIC_ICDIPTR0_OFFSET + of_nat (v div 4) * 4) k)"

definition irq_enabled :: "device \<Rightarrow> cpu \<Rightarrow> nat \<Rightarrow> bool" where
  "irq_enabled d k v = bit (read32 (base_addr d + GIC_ICDISER0_OFFSET + of_nat (v div 32) * 4) k) (v mod 32)"

lemma bit_FF: "bit (0xFF :: int) i \<longleftrightarrow> i < 8"
proof -
  have "(0xFF :: int) = mask 8" by (simp add: mask_eq_exp_minus_1)
  then show ?thesis by (simp only: bit_mask_iff) auto
qed

lemma byte_replaced:
  assumes "j < 4" and "b < 4" and "c < 8"
  shows "byte j (w AND NOT (push_bit (b * 8) 0xFF) OR push_bit (b * 8) (push_bit c 1)) = (if j = b then push_bit c 1 else byte j w)"
proof (rule bit_word_eqI)
  fix n assume n: "n < LENGTH(32)"
  have lt: "n < 8 \<Longrightarrow> 8 * j + n < 32" using assms(1) by simp
  have e: "8 * b + n - b * 8 = n" by simp
  have far: "j \<noteq> b \<Longrightarrow> n < 8 \<Longrightarrow> b * 8 \<le> 8 * j + n \<Longrightarrow> 8 \<le> 8 * j + n - b * 8" by auto
  show "bit (byte j (w AND NOT (push_bit (b * 8) 0xFF) OR push_bit (b * 8) (push_bit c 1))) n
      = bit (if j = b then push_bit c 1 else byte j w) n"
    using lt far n assms(3)
    by (cases "j = b") (auto simp: e byte_def bit_take_bit_iff bit_drop_bit_eq bit_and_iff bit_or_iff bit_not_iff bit_push_bit_iff bit_exp_iff bit_FF)
qed

lemma word_offsets_differ:
  fixes b :: u32
  assumes "x < 2 ^ 32" and "y < 2 ^ 32" and "x \<noteq> y"
  shows "b + of_nat x \<noteq> b + of_nat y"
  using assms by (simp add: word_of_nat_eq_iff take_bit_nat_eq_self)

text \<open>What \<open>register_irq\<close> leaves: the entry of the table of handlers, and the two registers.\<close>

definition with_handler :: "nat \<Rightarrow> nat \<Rightarrow> u32 \<Rightarrow> u32 \<Rightarrow> gic \<Rightarrow> gic" where
  "with_handler c v h p g = g\<lparr>handler := (handler g)(c := (handler g c)(v := \<lparr>h_func = h, h_arg = p\<rparr>))\<rparr>"

definition target_reg :: "u32 \<Rightarrow> nat \<Rightarrow> u32" where "target_reg b u = b + GIC_ICDIPTR0_OFFSET + of_nat (u div 4) * 4"
definition enable_reg :: "u32 \<Rightarrow> nat \<Rightarrow> u32" where "enable_reg b v = b + GIC_ICDISER0_OFFSET + of_nat (v div 32) * 4"

definition irq_routed :: "u32 \<Rightarrow> nat \<Rightarrow> nat \<Rightarrow> cpu \<Rightarrow> cpu" where
  "irq_routed b v c k = write_set_enable (enable_reg b v) (push_bit (v mod 32) 1)
     (if 32 \<le> v
      then write32 (target_reg b v)
        (read32 (target_reg b v) k AND NOT (push_bit (v mod 4 * 8) 0xFF) OR push_bit (v mod 4 * 8) (push_bit c 1)) k
      else k)"

lemma spi_index:
  "(of_int (int v div 4) :: u32) = of_nat (v div 4)" "(of_int (int v div 32) :: u32) = of_nat (v div 32)"
  "nat (int v mod 4) = v mod 4" "nat (int v mod 32) = v mod 32"
proof -
  have d: "int v div 4 = int (v div 4)" "int v div 32 = int (v div 32)" by (simp_all add: zdiv_int)
  show "(of_int (int v div 4) :: u32) = of_nat (v div 4)" "(of_int (int v div 32) :: u32) = of_nat (v div 32)"
    unfolding d by simp_all
  show "nat (int v mod 4) = v mod 4" "nat (int v mod 32) = v mod 32" by (simp_all add: nat_mod_distrib)
qed

lemma register_irq_result:
  assumes "v < 96" and "dev_irq dev = of_nat v"
  shows "register_irq p dev h g k
    = Some (NO_ERR, with_handler (unat (cpuid k)) v h p g, irq_routed (base_addr (gic_dev g)) v (unat (cpuid k)) k)"
proof -
  have "uint (dev_irq dev) = int v" using assms by (simp add: unsigned_of_nat take_bit_nat_eq_self)
  then show ?thesis
    using assms(1) by (simp add: register_irq_def gic_register_int_handler_def gic_enable_interrupt_def route_spi_def
        gic_consts with_handler_def irq_routed_def target_reg_def enable_reg_def spi_index Let_def)
qed

lemma spi_regs_differ:
  assumes "u < 96" and "v < 96"
  shows "target_reg b u \<noteq> enable_reg b v" and "target_reg b u = target_reg b v \<longleftrightarrow> u div 4 = v div 4"
    and "enable_reg b u = enable_reg b v \<longleftrightarrow> u div 32 = v div 32"
proof -
  show "target_reg b u \<noteq> enable_reg b v"
    using word_offsets_differ [of "0x1800 + u div 4 * 4" "0x1100 + v div 32 * 4" b] assms
    by (simp add: target_reg_def enable_reg_def GIC_ICDIPTR0_OFFSET_def GIC_ICDISER0_OFFSET_def add.assoc)
  have "u div 32 < 3" "v div 32 < 3" using assms by simp_all
  then show "enable_reg b u = enable_reg b v \<longleftrightarrow> u div 32 = v div 32"
    using word_offsets_differ [of "u div 32 * 4" "v div 32 * 4" "b + GIC_ICDISER0_OFFSET"] by (auto simp: enable_reg_def)
  have "u div 4 < 24" "v div 4 < 24" using assms by simp_all
  then show "target_reg b u = target_reg b v \<longleftrightarrow> u div 4 = v div 4"
    using word_offsets_differ [of "u div 4 * 4" "v div 4 * 4" "b + GIC_ICDIPTR0_OFFSET"] by (auto simp: target_reg_def)
qed

lemma irq_routed_targets:
  assumes "u < 96" and "v < 96" and "c < 2"
  shows "irq_targets (gic_dev g) (irq_routed (base_addr (gic_dev g)) v c k) u
    = (if u = v \<and> 32 \<le> v then push_bit c 1 else irq_targets (gic_dev g) k u)"
proof -
  let ?b = "base_addr (gic_dev g)"
  note ne = spi_regs_differ [OF assms(1,2), of ?b]
  have t: "irq_targets (gic_dev g) l u = byte (u mod 4) (read32 (target_reg ?b u) l)" for l
    by (simp add: irq_targets_def target_reg_def)
  show ?thesis
  proof (cases "32 \<le> v \<and> u div 4 = v div 4")
    case True
    then have "target_reg ?b u = target_reg ?b v" using ne(2) by simp
    then have "irq_targets (gic_dev g) (irq_routed ?b v c k) u
        = (if u mod 4 = v mod 4 then push_bit c 1 else byte (u mod 4) (read32 (target_reg ?b v) k))"
      using byte_replaced [of "u mod 4" "v mod 4" c "read32 (target_reg ?b v) k"] assms(3) ne(1) True
      by (simp add: t irq_routed_def write_set_enable_def read32_def write32_def)
    moreover have "u mod 4 = v mod 4 \<longleftrightarrow> u = v" using True by (metis div_mult_mod_eq)
    ultimately show ?thesis using \<open>target_reg ?b u = _\<close> True by (simp add: t)
  next
    case False
    then show ?thesis using ne by (auto simp: t irq_routed_def write_set_enable_def read32_def write32_def)
  qed
qed

lemma irq_routed_enabled:
  assumes "u < 96" and "v < 96"
  shows "irq_enabled (gic_dev g) (irq_routed (base_addr (gic_dev g)) v c k) u \<longleftrightarrow> u = v \<or> irq_enabled (gic_dev g) k u"
proof -
  let ?b = "base_addr (gic_dev g)"
  note ne = spi_regs_differ [OF assms(2,2), of ?b] spi_regs_differ [OF assms, of ?b]
  have e: "irq_enabled (gic_dev g) l u = bit (read32 (enable_reg ?b u) l) (u mod 32)" for l
    by (simp add: irq_enabled_def enable_reg_def)
  have kept: "read32 (enable_reg ?b w) (irq_routed ?b v c k)
      = (if enable_reg ?b w = enable_reg ?b v then read32 (enable_reg ?b w) k OR push_bit (v mod 32) 1 else read32 (enable_reg ?b w) k)"
    if "w < 96" for w
    using spi_regs_differ(1) [OF assms(2) that, of ?b] ne(1)
    by (auto simp: irq_routed_def write_set_enable_def read32_def write32_def)
  have "u div 32 = v div 32 \<Longrightarrow> v mod 32 = u mod 32 \<longleftrightarrow> u = v" by (metis div_mult_mod_eq)
  moreover have "bit (push_bit (v mod 32) 1 :: u32) (u mod 32) \<longleftrightarrow> v mod 32 = u mod 32" by (auto simp: bit_exp_iff)
  ultimately show ?thesis using ne(6) by (auto simp: e kept [OF assms(1)] bit_or_iff simp del: push_bit_of_1)
qed

lemma irq_routed_cpuid: "cpuid (irq_routed b v c k) = cpuid k"
  by (simp add: irq_routed_def write_set_enable_def write32_def)

lemma with_handler_dispatch:
  assumes "v < 96" and "read32 (base_addr (gic_dev g) + GIC_ICCIAR_OFFSET) l AND 0x3FF = of_nat v" and "unat (cpuid l) = c"
  shows "gic_irq_handler call (with_handler c v h p g) l = map_option (\<lambda>(r, l1). (IrqRet r,
    write32 (base_addr (gic_dev g) + GIC_ICCEOIR_OFFSET) (read32 (base_addr (gic_dev g) + GIC_ICCIAR_OFFSET) l) l1)) (call h p l)"
proof -
  have "uint (of_nat v :: u32) = int v" "unat (of_nat v :: u32) = v"
    using assms(1) by (simp_all add: unsigned_of_nat take_bit_nat_eq_self)
  then show ?thesis
    using assms by (simp add: gic_irq_handler_def with_handler_def gic_consts map_option_case split: option.split)
qed

text \<open>C24. Registering an interrupt, of whatever number the controller has: a shared one (from \<open>SPI_BASE\<close> on) is routed to the CPU
  that registers it and to no other, a private one, such as that of the timer, goes to its CPU anyway and has no target to set; the
  targets of every other interrupt are as they were; the interrupt is enabled and every other one is enabled or not as it was; and
  the handler is called with the device when the interrupt is acknowledged on that CPU, which is then ended.\<close>

theorem register_irq_dispatches:
  assumes "int v < NUM_IRQS" and "dev_irq dev = of_nat v" and "unat (cpuid k) < 2"
  shows "\<exists>g' k'. register_irq p dev h g k = Some (NO_ERR, g', k')
    \<and> (\<forall>u. int u < NUM_IRQS \<longrightarrow>
          irq_targets (gic_dev g) k' u
            = (if u = v \<and> SPI_BASE \<le> int v then push_bit (unat (cpuid k)) 1 else irq_targets (gic_dev g) k u)
        \<and> (irq_enabled (gic_dev g) k' u \<longleftrightarrow> u = v \<or> irq_enabled (gic_dev g) k u))
    \<and> (\<forall>call l. read32 (base_addr (gic_dev g) + GIC_ICCIAR_OFFSET) l AND 0x3FF = of_nat v \<and> cpuid l = cpuid k \<longrightarrow>
         gic_irq_handler call g' l = map_option (\<lambda>(r, l1). (IrqRet r, write32 (base_addr (gic_dev g) + GIC_ICCEOIR_OFFSET)
           (read32 (base_addr (gic_dev g) + GIC_ICCIAR_OFFSET) l) l1)) (call h p l))"
proof -
  let ?b = "base_addr (gic_dev g)" and ?c = "unat (cpuid k)"
  have n: "int u < NUM_IRQS \<longleftrightarrow> u < 96" "SPI_BASE \<le> int u \<longleftrightarrow> 32 \<le> u" for u by (simp_all add: gic_consts)
  have v: "v < 96" using assms(1) n by simp
  have "register_irq p dev h g k = Some (NO_ERR, with_handler ?c v h p g, irq_routed ?b v ?c k)"
    by (rule register_irq_result [OF v assms(2)])
  moreover have "\<forall>u. int u < NUM_IRQS \<longrightarrow>
        irq_targets (gic_dev g) (irq_routed ?b v ?c k) u
          = (if u = v \<and> SPI_BASE \<le> int v then push_bit ?c 1 else irq_targets (gic_dev g) k u)
      \<and> (irq_enabled (gic_dev g) (irq_routed ?b v ?c k) u \<longleftrightarrow> u = v \<or> irq_enabled (gic_dev g) k u)"
    unfolding n using v assms(3) by (simp add: irq_routed_targets irq_routed_enabled)
  moreover have "\<forall>call l. read32 (?b + GIC_ICCIAR_OFFSET) l AND 0x3FF = of_nat v \<and> cpuid l = cpuid k \<longrightarrow>
      gic_irq_handler call (with_handler ?c v h p g) l = map_option (\<lambda>(r, l1). (IrqRet r, write32 (?b + GIC_ICCEOIR_OFFSET)
        (read32 (?b + GIC_ICCIAR_OFFSET) l) l1)) (call h p l)"
    using v by (simp add: with_handler_dispatch)
  ultimately show ?thesis by blast
qed

definition some_gic :: gic where
  "some_gic = \<lparr>gic_dev = \<lparr>dev_idx = 0, dev_name = [], base_addr = 0xF8F00000, dev_irq = 0, dev_data = 0\<rparr>,
     handler = \<lambda>_ _. \<lparr>h_func = 0, h_arg = 0\<rparr>\<rparr>"

text \<open>The timer, a private interrupt, after the DMA controller, a shared one: both end up enabled.\<close>

definition some_device :: "u32 \<Rightarrow> device" where
  "some_device irq = \<lparr>dev_idx = 0, dev_name = ''dev'', base_addr = 0, dev_irq = irq, dev_data = 0\<rparr>"

theorem register_irq_dispatches_witness:
  "\<exists>g1 k1 g2 k2. register_irq 0x1000 (some_device 61) 0x2000 some_gic idle_cpu = Some (NO_ERR, g1, k1)
    \<and> register_irq 0x3000 (some_device 29) 0x4000 some_gic k1 = Some (NO_ERR, g2, k2)
    \<and> irq_targets (gic_dev some_gic) k1 61 = 1
    \<and> irq_enabled (gic_dev some_gic) k2 29 \<and> irq_targets (gic_dev some_gic) k2 29 = irq_targets (gic_dev some_gic) k1 29"
proof -
  obtain g1 k1 where k1: "register_irq 0x1000 (some_device 61) 0x2000 some_gic idle_cpu = Some (NO_ERR, g1, k1)"
    "irq_targets (gic_dev some_gic) k1 61 = 1"
    using register_irq_dispatches [of 61 "some_device 61" idle_cpu "0x1000" "0x2000" some_gic]
    by (force simp: gic_consts some_device_def idle_cpu_def)
  moreover have "k1 = irq_routed (base_addr (gic_dev some_gic)) 61 (unat (cpuid idle_cpu)) idle_cpu"
    using k1(1) register_irq_result [of 61 "some_device 61" "0x1000" "0x2000" some_gic idle_cpu] by (simp add: some_device_def)
  then have c: "unat (cpuid k1) < 2" by (simp add: irq_routed_cpuid idle_cpu_def)
  ultimately show ?thesis using register_irq_dispatches [OF _ _ c, of 29 "some_device 29" "0x3000" "0x4000" some_gic] k1
    by (force simp: gic_consts some_device_def)
qed

end
