(* ===== verification/Uart.thy ===== *)
theory Uart
  imports Timer Printk
begin

unbundle bit_operations_syntax

text \<open>
  The UART (src/kernel/drivers/uart/uart.c), polled. The status register changes by itself: the \<open>n\<close>th read of
  it gives \<open>status_at n\<close>, the characters received come from \<open>rx_at\<close>, and \<open>tx\<close> is what was written to the
  FIFO. A wait that never ends is \<open>None\<close>. The output of printk is the characters it hands to \<open>poll_out\<close>.
\<close>

section \<open>Operations\<close>

definition CR_OFFSET :: u32 where "CR_OFFSET = 0x0"
definition MR_OFFSET :: u32 where "MR_OFFSET = 0x4"
definition IER_OFFSET :: u32 where "IER_OFFSET = 0x8"
definition IDR_OFFSET :: u32 where "IDR_OFFSET = 0xC"
definition BAUDGEN_OFFSET :: u32 where "BAUDGEN_OFFSET = 0x18"
definition RXTOUT_OFFSET :: u32 where "RXTOUT_OFFSET = 0x1C"
definition RXWM_OFFSET :: u32 where "RXWM_OFFSET = 0x20"
definition MODEMCR_OFFSET :: u32 where "MODEMCR_OFFSET = 0x24"
definition BAUD_DIV_OFFSET :: u32 where "BAUD_DIV_OFFSET = 0x34"
definition FLOW_DELAY_OFFSET :: u32 where "FLOW_DELAY_OFFSET = 0x38"
definition TX_FIFO_TRIG_LV_OFFSET :: u32 where "TX_FIFO_TRIG_LV_OFFSET = 0x44"
definition BM_SR_TXFULL :: u32 where "BM_SR_TXFULL = 0x00000010"
definition BM_SR_RXEMPTY :: u32 where "BM_SR_RXEMPTY = 0x00000002"

record uart_io =
  status_at :: "nat \<Rightarrow> u32"
  status_reads :: nat
  rx_at :: "nat \<Rightarrow> u32"
  rx_reads :: nat
  tx :: "u32 list"

text \<open>Reading the status until the bits \<open>m\<close> are not all set.\<close>

partial_function (option) wait_clear :: "u32 \<Rightarrow> uart_io \<Rightarrow> uart_io option" where
  "wait_clear m io =
     (let v = status_at io (status_reads io); io1 = io\<lparr>status_reads := status_reads io + 1\<rparr>
      in if v AND m = m then wait_clear m io1 else Some io1)"

definition poll_out :: "char \<Rightarrow> uart_io \<Rightarrow> (ret \<times> uart_io) option" where
  "poll_out c io =
     do {
       io1 \<leftarrow> wait_clear BM_SR_TXFULL io;
       io2 \<leftarrow> wait_clear BM_SR_TXFULL (io1\<lparr>tx := tx io1 @ [of_char c]\<rparr>);
       Some (NO_ERR, io2)
     }"

definition poll_in :: "uart_io \<Rightarrow> (u8 \<times> uart_io) option" where
  "poll_in io =
     do {
       io1 \<leftarrow> wait_clear BM_SR_RXEMPTY io;
       Some (ucast (rx_at io1 (rx_reads io1)), io1\<lparr>rx_reads := rx_reads io1 + 1\<rparr>)
     }"

definition init_uart :: "dt_node \<Rightarrow> device \<Rightarrow> ret \<times> device" where
  "init_uart dt dev =
     (if dev_idx dev = 0 then (NO_ERR, dev\<lparr>dev_name := dt_compat dt, base_addr := dt_base dt, dev_irq := dt_irq dt\<rparr>)
      else (Neg EINVAL, dev))"

definition configure_uart :: "device \<Rightarrow> cpu \<Rightarrow> ret \<times> cpu" where
  "configure_uart dev k =
     (NO_ERR, fold (\<lambda>(off, v). write32 (base_addr dev + off) v)
        [(CR_OFFSET, 0x00000114), (MR_OFFSET, 0x00000020), (IER_OFFSET, 0x00000000), (IDR_OFFSET, 0x00000000),
         (BAUDGEN_OFFSET, 0x0000007C), (RXTOUT_OFFSET, 0x0000000A), (RXWM_OFFSET, 0x00000038), (MODEMCR_OFFSET, 0x00000003),
         (BAUD_DIV_OFFSET, 0x00000006), (FLOW_DELAY_OFFSET, 0x00000000), (TX_FIFO_TRIG_LV_OFFSET, 0x00000020)] k)"

text \<open>\<open>printk\<close> with its device.\<close>

primrec put_chars :: "string \<Rightarrow> uart_io \<Rightarrow> uart_io option" where
  "put_chars [] io = Some io"
| "put_chars (c # s) io = do { (r, io1) \<leftarrow> poll_out c io; put_chars s io1 }"

definition uart_printk :: "string \<Rightarrow> va_arg list \<Rightarrow> uart_io \<Rightarrow> uart_io option" where
  "uart_printk fmt args io = do { s \<leftarrow> printk fmt args; put_chars s io }"

section \<open>Output arrives\<close>

text \<open>The device keeps emptying its FIFO.\<close>

definition drains :: "uart_io \<Rightarrow> bool" where
  "drains io \<longleftrightarrow> (\<forall>n. \<exists>m \<ge> n. status_at io m AND BM_SR_TXFULL \<noteq> BM_SR_TXFULL)"

lemma wait_clear_returns:
  assumes "n \<le> m" and "status_at io m AND b \<noteq> b" and "status_reads io = n"
  shows "\<exists>j. wait_clear b io = Some (io\<lparr>status_reads := j\<rparr>)"
  using assms
proof (induction "m - n" arbitrary: n io)
  case 0
  then show ?case by (subst wait_clear.simps) (auto simp: Let_def)
next
  case (Suc d)
  show ?case
  proof (cases "status_at io n AND b = b")
    case True
    have "n \<noteq> m" using True Suc.prems(2) by auto
    then have "\<exists>j. wait_clear b (io\<lparr>status_reads := n + 1\<rparr>) = Some (io\<lparr>status_reads := n + 1, status_reads := j\<rparr>)"
      using Suc.hyps(2) Suc.prems by (intro Suc.hyps(1)) simp_all
    then show ?thesis using True Suc.prems(3) by (subst wait_clear.simps) (simp add: Let_def)
  next
    case False
    then show ?thesis using Suc.prems(3) by (subst wait_clear.simps) (auto simp: Let_def)
  qed
qed

lemma poll_out_sends:
  assumes "drains io"
  shows "\<exists>j. poll_out c io = Some (NO_ERR, io\<lparr>status_reads := j, tx := tx io @ [of_char c]\<rparr>)"
proof -
  obtain j where j: "wait_clear BM_SR_TXFULL io = Some (io\<lparr>status_reads := j\<rparr>)"
    using assms wait_clear_returns unfolding drains_def by blast
  let ?io = "io\<lparr>status_reads := j, tx := tx io @ [of_char c]\<rparr>"
  have "\<exists>m \<ge> j. status_at ?io m AND BM_SR_TXFULL \<noteq> BM_SR_TXFULL" using assms by (simp add: drains_def)
  then obtain i where "wait_clear BM_SR_TXFULL ?io = Some (?io\<lparr>status_reads := i\<rparr>)"
    using wait_clear_returns [of j _ ?io] by auto
  then show ?thesis using j by (intro exI [of _ i]) (simp add: poll_out_def)
qed

lemma put_chars_sends:
  "drains io \<Longrightarrow> \<exists>j. put_chars s io = Some (io\<lparr>status_reads := j, tx := tx io @ map of_char s\<rparr>)"
proof (induction s arbitrary: io)
  case Nil
  then show ?case by (auto intro: exI [of _ "status_reads io"])
next
  case (Cons c s)
  obtain j where j: "poll_out c io = Some (NO_ERR, io\<lparr>status_reads := j, tx := tx io @ [of_char c]\<rparr>)"
    using poll_out_sends [OF Cons.prems] by blast
  have "drains (io\<lparr>status_reads := j, tx := tx io @ [of_char c]\<rparr>)" using Cons.prems by (simp add: drains_def)
  from Cons.IH [OF this] j show ?case by auto
qed

text \<open>C30. As long as the device empties its FIFO, a call of printk returns, and the characters of its output have
  been written to the device, each once and in order.\<close>

theorem printk_reaches_uart:
  assumes "printk fmt args = Some s" and "drains io"
  shows "\<exists>io'. uart_printk fmt args io = Some io' \<and> tx io' = tx io @ map of_char s"
  using put_chars_sends [OF assms(2), of s] assms(1) by (auto simp: uart_printk_def)

theorem printk_reaches_uart_witness:
  "\<exists>io'. uart_printk ''ok'' [] \<lparr>status_at = \<lambda>n. if n mod 3 = 0 then 0 else 0x10, status_reads = 0, rx_at = \<lambda>_. 0, rx_reads = 0, tx = []\<rparr>
      = Some io' \<and> tx io' = [0x6F, 0x6B]"
proof -
  let ?io = "\<lparr>status_at = \<lambda>n. if n mod 3 = 0 then 0 else 0x10, status_reads = 0, rx_at = \<lambda>_. 0, rx_reads = 0, tx = []\<rparr>"
  have "drains ?io" unfolding drains_def
  proof
    fix n :: nat
    show "\<exists>m \<ge> n. status_at ?io m AND BM_SR_TXFULL \<noteq> BM_SR_TXFULL"
      by (intro exI [of _ "3 * n"]) (simp add: BM_SR_TXFULL_def)
  qed
  from printk_reaches_uart [of "''ok''" "[]" "''ok''", OF _ this] show ?thesis by simp
qed

end
