(* ===== verification/Dma.thy ===== *)
theory Dma
  imports Task
begin

unbundle bit_operations_syntax

text \<open>
  The DMA driver (src/kernel/drivers/dma/dma.c): a transfer is cut into orders of one burst, a list of
  heap objects at \<open>dev->data\<close>; each is programmed by \<open>start_dma\<close>, which the interrupt of the one before
  queues. \<open>behind_dev\<close> is the byte behind the device structure, which \<open>set_dma_work\<close> writes through a cast
  of the device to an order. \<open>None\<close> is an access through NULL or outside the heap.
\<close>

section \<open>Operations\<close>

definition MODCORE_DMA_CNTL_OFFSET :: u32 where "MODCORE_DMA_CNTL_OFFSET = 0x0"
definition MODCORE_DMA_SRC_ADDR_OFFSET :: u32 where "MODCORE_DMA_SRC_ADDR_OFFSET = 0x8"
definition MODCORE_DMA_LEN_OFFSET :: u32 where "MODCORE_DMA_LEN_OFFSET = 0xc"
definition MODCORE_DMA_DST_ADDR_OFFSET :: u32 where "MODCORE_DMA_DST_ADDR_OFFSET = 0x10"
definition BM_MODCORE_DMA_START :: u32 where "BM_MODCORE_DMA_START = 0x1"
definition BM_MODCORE_DMA_IRQ_DONE :: u32 where "BM_MODCORE_DMA_IRQ_DONE = 0x2"
definition BM_MODCORE_DMA_RESET :: u32 where "BM_MODCORE_DMA_RESET = 0x4"
definition MODCORE_DMA_BURST_LEN :: u32 where "MODCORE_DMA_BURST_LEN = 0x1000"
definition SIZEOF_dma_work_order :: u32 where "SIZEOF_dma_work_order = 24"

record dma_work_order =
  order_num :: u32
  o_src :: u32
  o_dst :: u32
  o_len :: u32
  o_next :: u32
  is_first :: bool

record dma_state =
  dma_cpu :: cpu
  orders :: "u32 \<Rightarrow> dma_work_order"
  behind_dev :: bool

definition init_dma :: "dt_node \<Rightarrow> device option \<Rightarrow> cpu \<Rightarrow> ret \<times> device option \<times> cpu" where
  "init_dma dt dev k =
     (case dev of None \<Rightarrow> (Neg EINVAL, None, k)
      | Some d \<Rightarrow>
          (let d1 = d\<lparr>dev_name := dt_compat dt, base_addr := dt_base dt, dev_irq := dt_irq dt, dev_data := 0\<rparr>
           in (NO_ERR, Some d1, write32 (base_addr d1 + MODCORE_DMA_CNTL_OFFSET) BM_MODCORE_DMA_RESET k)))"

definition new_order :: "u32 \<Rightarrow> u32 \<Rightarrow> u32 \<Rightarrow> u32 \<Rightarrow> dma_state \<Rightarrow> (u32 \<times> dma_state) option" where
  "new_order num src dst len st =
     do {
       (p, k) \<leftarrow> kalloc SIZEOF_dma_work_order (dma_cpu st);
       Some (p, st\<lparr>dma_cpu := k, orders := (orders st)(p := (orders st p)\<lparr>order_num := num, o_src := src, o_dst := dst,
                   o_len := len, o_next := 0\<rparr>)\<rparr>)
     }"

definition link_order :: "u32 \<Rightarrow> u32 \<Rightarrow> dma_state \<Rightarrow> dma_state" where
  "link_order pcur p st = st\<lparr>orders := (orders st)(pcur := (orders st pcur)\<lparr>o_next := p\<rparr>)\<rparr>"

text \<open>The orders of whole bursts, from the \<open>i\<close>th on; the first one becomes \<open>dev->data\<close>.\<close>

fun burst_orders :: "nat \<Rightarrow> nat \<Rightarrow> u32 \<Rightarrow> u32 \<Rightarrow> u32 \<Rightarrow> device \<Rightarrow> dma_state \<Rightarrow> (u32 \<times> device \<times> dma_state) option" where
  "burst_orders 0 i src dst pcur dev st = Some (pcur, dev, st)"
| "burst_orders (Suc n) i src dst pcur dev st =
     do {
       (p, st1) \<leftarrow> new_order (of_nat i) (src + MODCORE_DMA_BURST_LEN * of_nat i) (dst + MODCORE_DMA_BURST_LEN * of_nat i)
                     MODCORE_DMA_BURST_LEN st;
       if i = 0 then burst_orders n (i + 1) src dst p (dev\<lparr>dev_data := p\<rparr>) st1
       else burst_orders n (i + 1) src dst p dev (link_order pcur p st1)
     }"

definition set_dma_work :: "device option \<Rightarrow> u32 \<Rightarrow> u32 \<Rightarrow> u32 \<Rightarrow> dma_state \<Rightarrow> (ret \<times> device option \<times> dma_state) option" where
  "set_dma_work dev src dst len st =
     (case dev of None \<Rightarrow> Some (Neg EINVAL, None, st)
      | Some d \<Rightarrow>
          (let st0 = st\<lparr>behind_dev := True\<rparr> in
           if len > MODCORE_DMA_BURST_LEN then
             (let q = unat (len div MODCORE_DMA_BURST_LEN); r = len mod MODCORE_DMA_BURST_LEN in
              do {
                (pcur, d1, st1) \<leftarrow> burst_orders q 0 src dst 0 d st0;
                if r \<noteq> 0 then
                  do {
                    (p, st2) \<leftarrow> new_order (of_nat q) (src + MODCORE_DMA_BURST_LEN * of_nat q)
                                  (dst + MODCORE_DMA_BURST_LEN * of_nat q) r st1;
                    Some (NO_ERR, Some d1, if pcur \<noteq> 0 then link_order pcur p st2 else st2)
                  }
                else Some (NO_ERR, Some d1, st1)
              })
           else
             do {
               (p, st1) \<leftarrow> new_order 0 src dst len st0;
               Some (NO_ERR, Some (d\<lparr>dev_data := p\<rparr>), st1)
             }))"

text \<open>The cache is flushed before the first order, when its uninitialised flag says so; the model has no cache.\<close>

definition start_dma :: "device option \<Rightarrow> dma_state \<Rightarrow> (ret \<times> device option \<times> dma_state) option" where
  "start_dma dev st =
     (case dev of None \<Rightarrow> Some (Neg EINVAL, None, st)
      | Some d \<Rightarrow>
          (let p = dev_data d; b = base_addr d in
           if p = 0 then None
           else
             (let os = (orders st)(p := (orders st p)\<lparr>is_first := False\<rparr>);
                  k1 = write32 (b + MODCORE_DMA_SRC_ADDR_OFFSET) (o_src (os p)) (dma_cpu st);
                  k2 = write32 (b + MODCORE_DMA_DST_ADDR_OFFSET) (o_dst (os p)) k1;
                  k3 = write32 (b + MODCORE_DMA_LEN_OFFSET) (o_len (os p)) k2
              in do {
                mm \<leftarrow> kfree p (kmm k3);
                let k4 = k3\<lparr>kmm := mm\<rparr>;
                let cntl = read32 (b + MODCORE_DMA_CNTL_OFFSET) k4 OR BM_MODCORE_DMA_START;
                Some (NO_ERR, Some (d\<lparr>dev_data := o_next (os p)\<rparr>),
                      st\<lparr>orders := os, dma_cpu := write32 (b + MODCORE_DMA_CNTL_OFFSET) cntl k4\<rparr>)
              })))"

text \<open>\<open>fn\<close> is the address of \<open>start_dma\<close>, \<open>p\<close> that of the device.\<close>

definition dma_irq :: "u32 \<Rightarrow> u32 \<Rightarrow> device option \<Rightarrow> cpu \<Rightarrow> ret \<times> cpu" where
  "dma_irq fn p dev k =
     (case dev of None \<Rightarrow> (Neg EINVAL, k)
      | Some d \<Rightarrow>
          (let c = base_addr d + MODCORE_DMA_CNTL_OFFSET;
               k1 = (if dev_data d \<noteq> 0 then k\<lparr>work := snd (enqueue_workq fn p (work k))\<rparr>
                     else write32 c (read32 c k AND NOT BM_MODCORE_DMA_START) k)
           in (NO_ERR, write32 c (read32 c k1 OR BM_MODCORE_DMA_IRQ_DONE) k1)))"

section \<open>The orders of a transfer\<close>

primrec order_list :: "(u32 \<Rightarrow> dma_work_order) \<Rightarrow> u32 \<Rightarrow> u32 list \<Rightarrow> bool" where
  "order_list os p [] \<longleftrightarrow> p = 0"
| "order_list os p (a # as) \<longleftrightarrow> p = a \<and> p \<noteq> 0 \<and> order_list os (o_next (os p)) as"

definition order_is :: "u32 \<Rightarrow> u32 \<Rightarrow> u32 \<Rightarrow> dma_work_order \<Rightarrow> bool" where
  "order_is src dst len w \<longleftrightarrow> o_src w = src \<and> o_dst w = dst \<and> o_len w = len"

lemma order_list_cong: "(\<And>a. a \<in> set as \<Longrightarrow> os' a = os a) \<Longrightarrow> order_list os' p as = order_list os p as"
  by (induction as arbitrary: p) auto

lemma order_list_snoc:
  assumes "order_list os p (as @ [a])" and "distinct (as @ [a, b])" and "b \<noteq> 0" and "o_next (os b) = 0"
  shows "order_list (os(a := (os a)\<lparr>o_next := b\<rparr>)) p (as @ [a, b])"
  using assms
proof (induction as arbitrary: p)
  case Nil
  then show ?case by auto
next
  case (Cons c as)
  then show ?case by auto
qed

lemma order_list_link:
  assumes "order_list os p xs" and "xs \<noteq> []" and "distinct (xs @ [b])" and "b \<noteq> 0" and "o_next (os b) = 0"
  shows "order_list (os(last xs := (os (last xs))\<lparr>o_next := b\<rparr>)) p (xs @ [b])"
proof -
  obtain ys z where "xs = ys @ [z]" using assms(2) by (cases xs rule: rev_cases) auto
  then show ?thesis using order_list_snoc [of os p ys z b] assms by simp
qed

lemma new_order_on:
  assumes "kmalloc SIZEOF_dma_work_order (kmm (dma_cpu st)) = Some (p, mm)"
  obtains st' where "new_order num s d l st = Some (p, st')" "kmm (dma_cpu st') = mm"
    "\<And>a. a \<noteq> p \<Longrightarrow> orders st' a = orders st a" "order_is s d l (orders st' p)" "o_next (orders st' p) = 0"
  by (rule that [of "st\<lparr>dma_cpu := (dma_cpu st)\<lparr>kmm := mm\<rparr>, orders := (orders st)(p := (orders st p)\<lparr>order_num := num,
        o_src := s, o_dst := d, o_len := l, o_next := 0\<rparr>)\<rparr>"])
    (use assms in \<open>simp_all add: new_order_def kalloc_def order_is_def\<close>)

lemma link_order_fields [simp]:
  "dma_cpu (link_order q p st) = dma_cpu st"
  "order_is s d l (orders (link_order q p st) a) = order_is s d l (orders st a)"
  by (simp_all add: link_order_def order_is_def)

lemma burst_orders_list:
  assumes "kmalloc_all (replicate n SIZEOF_dma_work_order) (kmm (dma_cpu st)) = Some (as, mm)"
    and "distinct (xs @ as)" and "0 \<notin> set as"
    and "xs \<noteq> [] \<Longrightarrow> order_list (orders st) (dev_data dev) xs \<and> pcur = last xs"
  shows "\<exists>pcur' dev' st'. burst_orders n (length xs) src dst pcur dev st = Some (pcur', dev', st')
    \<and> kmm (dma_cpu st') = mm
    \<and> (xs @ as \<noteq> [] \<longrightarrow> order_list (orders st') (dev_data dev') (xs @ as) \<and> pcur' = last (xs @ as))
    \<and> (\<forall>j < length as. order_is (src + MODCORE_DMA_BURST_LEN * of_nat (length xs + j))
          (dst + MODCORE_DMA_BURST_LEN * of_nat (length xs + j)) MODCORE_DMA_BURST_LEN (orders st' (as ! j)))
    \<and> (\<forall>a s d l. a \<notin> set as \<longrightarrow> order_is s d l (orders st' a) = order_is s d l (orders st a))"
  using assms
proof (induction n arbitrary: xs as pcur dev st)
  case 0
  then show ?case by auto
next
  case (Suc n)
  let ?off = "MODCORE_DMA_BURST_LEN * of_nat (length xs)"
  obtain p mm1 bs where k: "kmalloc SIZEOF_dma_work_order (kmm (dma_cpu st)) = Some (p, mm1)"
    "kmalloc_all (replicate n SIZEOF_dma_work_order) mm1 = Some (bs, mm)" "as = p # bs"
    using Suc.prems(1) by (auto simp: Option.bind_eq_Some_conv)
  obtain st1 where st1: "new_order (of_nat (length xs)) (src + ?off) (dst + ?off) MODCORE_DMA_BURST_LEN st = Some (p, st1)"
    "kmm (dma_cpu st1) = mm1" "\<And>a. a \<noteq> p \<Longrightarrow> orders st1 a = orders st a"
    "order_is (src + ?off) (dst + ?off) MODCORE_DMA_BURST_LEN (orders st1 p)" "o_next (orders st1 p) = 0"
    by (rule new_order_on [OF k(1)]) (rule that)
  have p: "p \<notin> set xs" "p \<noteq> 0" "p \<notin> set bs" using Suc.prems(2,3) k(3) by auto
  define st2 where "st2 = (if xs = [] then st1 else link_order pcur p st1)"
  define dev2 where "dev2 = (if xs = [] then dev\<lparr>dev_data := p\<rparr> else dev)"
  have step: "burst_orders (Suc n) (length xs) src dst pcur dev st = burst_orders n (length (xs @ [p])) src dst p dev2 st2"
    using st1(1) by (simp add: st2_def dev2_def)
  have data: "order_is s d l (orders st2 a) = order_is s d l (orders st1 a)" for a s d l by (simp add: st2_def)
  have list: "order_list (orders st2) (dev_data dev2) (xs @ [p])"
  proof (cases "xs = []")
    case True
    then show ?thesis using p st1(5) by (simp add: st2_def dev2_def)
  next
    case False
    have "order_list (orders st1) (dev_data dev) xs"
      using Suc.prems(4) [OF False] p(1) st1(3) order_list_cong [of xs "orders st1" "orders st"] by metis
    from order_list_link [OF this False _ p(2) st1(5)]
    show ?thesis using False p(1) Suc.prems(2) Suc.prems(4) [OF False] by (simp add: st2_def dev2_def link_order_def)
  qed
  have "kmm (dma_cpu st2) = mm1" using st1(2) by (simp add: st2_def)
  then obtain pcur' dev' st' where ih: "burst_orders n (length (xs @ [p])) src dst p dev2 st2 = Some (pcur', dev', st')"
    "kmm (dma_cpu st') = mm" "order_list (orders st') (dev_data dev') ((xs @ [p]) @ bs)" "pcur' = last ((xs @ [p]) @ bs)"
    "\<And>j. j < length bs \<Longrightarrow> order_is (src + MODCORE_DMA_BURST_LEN * of_nat (length (xs @ [p]) + j))
          (dst + MODCORE_DMA_BURST_LEN * of_nat (length (xs @ [p]) + j)) MODCORE_DMA_BURST_LEN (orders st' (bs ! j))"
    "\<And>a s d l. a \<notin> set bs \<Longrightarrow> order_is s d l (orders st' a) = order_is s d l (orders st2 a)"
    using Suc.IH [of st2 bs "xs @ [p]" dev2 p] k(2,3) Suc.prems(2,3) list by auto
  have "order_is (src + MODCORE_DMA_BURST_LEN * of_nat (length xs + j)) (dst + MODCORE_DMA_BURST_LEN * of_nat (length xs + j))
      MODCORE_DMA_BURST_LEN (orders st' (as ! j))" if "j < length as" for j
  proof (cases j)
    case 0
    then show ?thesis using ih(6) [OF p(3)] data st1(4) k(3) by simp
  next
    case (Suc m)
    then show ?thesis using ih(5) [of m] that k(3) by simp
  qed
  moreover have "order_is s d l (orders st' a) = order_is s d l (orders st a)" if "a \<notin> set as" for a s d l
    using ih(6) [of a] that k(3) data st1(3) [of a] by simp
  ultimately show ?case using step ih(1-4) k(3) by auto
qed

lemma kmalloc_all_append:
  "kmalloc_all (xs @ ys) mm = do { (as, mm1) \<leftarrow> kmalloc_all xs mm; (bs, mm2) \<leftarrow> kmalloc_all ys mm1; Some (as @ bs, mm2) }"
  by (induction xs arbitrary: mm) (auto split: Option.bind_splits)

lemma kmalloc_all_length: "kmalloc_all xs mm = Some (as, mm1) \<Longrightarrow> length as = length xs"
  by (induction xs arbitrary: mm as) (auto split: Option.bind_splits)

definition order_count :: "u32 \<Rightarrow> nat" where
  "order_count len = (if unat len \<le> 0x1000 then 1 else unat len div 0x1000 + (if unat len mod 0x1000 = 0 then 0 else 1))"

text \<open>\<open>covers src dst len as os\<close>: the \<open>j\<close>th order is the \<open>j\<close>th burst, the last one what is left.\<close>

definition covers :: "u32 \<Rightarrow> u32 \<Rightarrow> u32 \<Rightarrow> u32 list \<Rightarrow> (u32 \<Rightarrow> dma_work_order) \<Rightarrow> bool" where
  "covers src dst len as os \<longleftrightarrow> (\<forall>j < length as. order_is (src + MODCORE_DMA_BURST_LEN * of_nat j)
     (dst + MODCORE_DMA_BURST_LEN * of_nat j)
     (if Suc j < length as then MODCORE_DMA_BURST_LEN else len - MODCORE_DMA_BURST_LEN * of_nat j) (os (as ! j)))"

lemma set_dma_work_single:
  assumes "unat len \<le> 0x1000" and "p \<noteq> 0" and "kmalloc SIZEOF_dma_work_order (kmm (dma_cpu st)) = Some (p, mm)"
  shows "\<exists>d' st'. set_dma_work (Some d) src dst len st = Some (NO_ERR, Some d', st')
    \<and> order_list (orders st') (dev_data d') [p] \<and> covers src dst len [p] (orders st')"
proof -
  have le: "\<not> len > MODCORE_DMA_BURST_LEN" using assms(1) by (simp add: MODCORE_DMA_BURST_LEN_def word_less_nat_alt)
  obtain st' where "new_order 0 src dst len (st\<lparr>behind_dev := True\<rparr>) = Some (p, st')"
    "order_is src dst len (orders st' p)" "o_next (orders st' p) = 0"
    by (rule new_order_on [of "st\<lparr>behind_dev := True\<rparr>" p mm 0 src dst len]) (use assms(3) in simp_all)
  then show ?thesis using le assms(2) by (simp add: set_dma_work_def covers_def)
qed

lemma burst_split:
  assumes "\<not> unat len \<le> 0x1000"
  obtains q r where "len > MODCORE_DMA_BURST_LEN" "unat (len div MODCORE_DMA_BURST_LEN) = q" "0 < q"
    "len mod MODCORE_DMA_BURST_LEN = r" "len = MODCORE_DMA_BURST_LEN * of_nat q + r"
    "order_count len = (if r = 0 then q else Suc q)"
proof (rule that)
  let ?B = MODCORE_DMA_BURST_LEN
  show "len > ?B" using assms by (simp add: MODCORE_DMA_BURST_LEN_def word_less_nat_alt)
  have uq: "unat (len div ?B) = unat len div 0x1000" by (simp add: MODCORE_DMA_BURST_LEN_def unat_div)
  have "unat (len mod ?B) = unat len mod 0x1000" by (simp add: MODCORE_DMA_BURST_LEN_def unat_mod)
  then have ur: "len mod ?B = 0 \<longleftrightarrow> unat len mod 0x1000 = 0" by (metis unat_0 unat_eq_zero)
  show "unat (len div ?B) = unat (len div ?B)" "len mod ?B = len mod ?B" by (rule refl)+
  show "0 < unat (len div ?B)" using assms by (simp add: uq)
  have "of_nat (unat (len div ?B)) = len div ?B" by simp
  then show "len = ?B * of_nat (unat (len div ?B)) + len mod ?B" by (simp only: mult_div_mod_eq)
  show "order_count len = (if len mod ?B = 0 then unat (len div ?B) else Suc (unat (len div ?B)))"
    using assms by (simp add: order_count_def uq ur)
qed

lemma set_dma_work_bursts:
  assumes q: "len > MODCORE_DMA_BURST_LEN" "unat (len div MODCORE_DMA_BURST_LEN) = q" "0 < q"
    "len mod MODCORE_DMA_BURST_LEN = 0" "len = MODCORE_DMA_BURST_LEN * of_nat q + 0"
    and k: "kmalloc_all (replicate q SIZEOF_dma_work_order) (kmm (dma_cpu st)) = Some (as, mm)"
    and "distinct as" and "0 \<notin> set as"
  shows "\<exists>d' st'. set_dma_work (Some d) src dst len st = Some (NO_ERR, Some d', st')
    \<and> order_list (orders st') (dev_data d') as \<and> covers src dst len as (orders st')"
proof -
  let ?B = MODCORE_DMA_BURST_LEN
  obtain pcur d' st' where b: "burst_orders q 0 src dst 0 d (st\<lparr>behind_dev := True\<rparr>) = Some (pcur, d', st')"
    "order_list (orders st') (dev_data d') as"
    "\<And>j. j < length as \<Longrightarrow> order_is (src + ?B * of_nat j) (dst + ?B * of_nat j) ?B (orders st' (as ! j))"
    "length as = q"
    using burst_orders_list [of q "st\<lparr>behind_dev := True\<rparr>" as mm "[]" d 0 src dst] assms(7,8) k kmalloc_all_length [OF k] q(3)
    by auto
  have "len - ?B * of_nat j = ?B" if "Suc j = q" for j
  proof -
    have "len = ?B * of_nat (Suc j)" using q(5) that by simp
    then show ?thesis by (simp add: algebra_simps)
  qed
  then have "(if Suc j < length as then ?B else len - ?B * of_nat j) = ?B" if "j < length as" for j
    using that b(4) by (metis Suc_lessI)
  then have "covers src dst len as (orders st')" unfolding covers_def using b(3) by simp
  then show ?thesis using b(1,2) q(1-4) by (simp add: set_dma_work_def Let_def)
qed

lemma covers_snoc:
  assumes "length bs = q" and "p \<notin> set bs" and len: "len = MODCORE_DMA_BURST_LEN * of_nat q + r"
    and b: "\<And>j. j < q \<Longrightarrow> order_is (src + MODCORE_DMA_BURST_LEN * of_nat j) (dst + MODCORE_DMA_BURST_LEN * of_nat j)
      MODCORE_DMA_BURST_LEN (os (bs ! j))"
    and l: "order_is (src + MODCORE_DMA_BURST_LEN * of_nat q) (dst + MODCORE_DMA_BURST_LEN * of_nat q) r (os p)"
  shows "covers src dst len (bs @ [p]) os"
  unfolding covers_def
proof (intro allI impI)
  let ?B = MODCORE_DMA_BURST_LEN
  fix j assume j: "j < length (bs @ [p])"
  show "order_is (src + ?B * of_nat j) (dst + ?B * of_nat j)
      (if Suc j < length (bs @ [p]) then ?B else len - ?B * of_nat j) (os ((bs @ [p]) ! j))"
  proof (cases "j < q")
    case True
    then show ?thesis using b [OF True] assms(1) by (simp add: nth_append)
  next
    case False
    then have "j = q" "len - ?B * of_nat q = r" using j assms(1) by (simp_all add: len)
    then show ?thesis using l assms(1) by (simp add: nth_append)
  qed
qed

lemma set_dma_work_rest:
  assumes q: "len > MODCORE_DMA_BURST_LEN" "unat (len div MODCORE_DMA_BURST_LEN) = q" "0 < q"
    "len mod MODCORE_DMA_BURST_LEN = r" "len = MODCORE_DMA_BURST_LEN * of_nat q + r" "r \<noteq> 0"
    and k: "kmalloc_all (replicate q SIZEOF_dma_work_order) (kmm (dma_cpu st)) = Some (bs, mm1)"
    and p: "kmalloc SIZEOF_dma_work_order mm1 = Some (p, mm)" "distinct (bs @ [p])" "0 \<notin> set (bs @ [p])"
  shows "\<exists>d' st'. set_dma_work (Some d) src dst len st = Some (NO_ERR, Some d', st')
    \<and> order_list (orders st') (dev_data d') (bs @ [p]) \<and> covers src dst len (bs @ [p]) (orders st')"
proof -
  let ?B = MODCORE_DMA_BURST_LEN
  have bs: "length bs = q" "bs \<noteq> []" using kmalloc_all_length [OF k] q(3) by auto
  obtain d' st' where b: "burst_orders q 0 src dst 0 d (st\<lparr>behind_dev := True\<rparr>) = Some (last bs, d', st')"
    "kmm (dma_cpu st') = mm1" "order_list (orders st') (dev_data d') bs"
    "\<And>j. j < q \<Longrightarrow> order_is (src + ?B * of_nat j) (dst + ?B * of_nat j) ?B (orders st' (bs ! j))"
    using burst_orders_list [of q "st\<lparr>behind_dev := True\<rparr>" bs mm1 "[]" d 0 src dst] k bs p(2,3) by auto
  obtain st2 where n: "new_order (of_nat q) (src + ?B * of_nat q) (dst + ?B * of_nat q) r st' = Some (p, st2)"
    "\<And>a. a \<noteq> p \<Longrightarrow> orders st2 a = orders st' a"
    "order_is (src + ?B * of_nat q) (dst + ?B * of_nat q) r (orders st2 p)" "o_next (orders st2 p) = 0"
    by (rule new_order_on) (use p(1) b(2) in auto)
  have p': "p \<notin> set bs" "p \<noteq> 0" "last bs \<noteq> 0" using p(2,3) bs(2) by (auto dest: last_in_set)
  let ?st = "link_order (last bs) p st2"
  have "order_list (orders st2) (dev_data d') bs"
    using b(3) n(2) p'(1) order_list_cong [of bs "orders st2" "orders st'"] by metis
  from order_list_link [OF this bs(2) p(2) p'(2) n(4)]
  have "order_list (orders ?st) (dev_data d') (bs @ [p])" by (simp add: link_order_def)
  moreover have "set_dma_work (Some d) src dst len st = Some (NO_ERR, Some d', ?st)"
    using q b(1) n(1) p'(3) by (simp add: set_dma_work_def Let_def)
  moreover have "order_is (src + ?B * of_nat j) (dst + ?B * of_nat j) ?B (orders ?st (bs ! j))" if "j < q" for j
  proof -
    have "bs ! j \<noteq> p" using p'(1) bs(1) that by (metis nth_mem)
    then show ?thesis using b(4) [OF that] n(2) by simp
  qed
  then have "covers src dst len (bs @ [p]) (orders ?st)"
    by (rule covers_snoc [OF bs(1) p'(1) q(5)]) (simp_all add: n(3))
  ultimately show ?thesis by blast
qed

text \<open>C23. \<open>set_dma_work\<close> cuts a transfer into orders that cover it exactly: the list at \<open>dev->data\<close> has the objects it
  allocated, in order, the \<open>j\<close>th for the \<open>j\<close>th burst, the last one for what is left.\<close>

theorem set_dma_work_covers:
  assumes "kmalloc_all (replicate (order_count len) SIZEOF_dma_work_order) (kmm (dma_cpu st)) = Some (as, mm)"
    and "distinct as" and "0 \<notin> set as"
  shows "\<exists>d' st'. set_dma_work (Some d) src dst len st = Some (NO_ERR, Some d', st')
    \<and> order_list (orders st') (dev_data d') as
    \<and> (\<forall>j < length as. order_is (src + MODCORE_DMA_BURST_LEN * of_nat j) (dst + MODCORE_DMA_BURST_LEN * of_nat j)
          (if Suc j < length as then MODCORE_DMA_BURST_LEN else len - MODCORE_DMA_BURST_LEN * of_nat j) (orders st' (as ! j)))"
  unfolding covers_def [symmetric]
proof (cases "unat len \<le> 0x1000")
  case True
  then obtain p where "as = [p]" "kmalloc SIZEOF_dma_work_order (kmm (dma_cpu st)) = Some (p, mm)"
    using assms(1) by (auto simp: order_count_def Option.bind_eq_Some_conv)
  then show "\<exists>d' st'. set_dma_work (Some d) src dst len st = Some (NO_ERR, Some d', st')
      \<and> order_list (orders st') (dev_data d') as \<and> covers src dst len as (orders st')"
    using set_dma_work_single [OF True] assms(3) by simp
next
  case False
  then obtain q r where q: "len > MODCORE_DMA_BURST_LEN" "unat (len div MODCORE_DMA_BURST_LEN) = q" "0 < q"
    "len mod MODCORE_DMA_BURST_LEN = r" "len = MODCORE_DMA_BURST_LEN * of_nat q + r"
    "order_count len = (if r = 0 then q else Suc q)"
    by (rule burst_split)
  show "\<exists>d' st'. set_dma_work (Some d) src dst len st = Some (NO_ERR, Some d', st')
      \<and> order_list (orders st') (dev_data d') as \<and> covers src dst len as (orders st')"
  proof (cases "r = 0")
    case True
    then show ?thesis using set_dma_work_bursts [of len q st as mm] q assms by simp
  next
    case r: False
    then have "replicate (order_count len) SIZEOF_dma_work_order = replicate q SIZEOF_dma_work_order @ [SIZEOF_dma_work_order]"
      using q(6) by (simp add: replicate_append_same)
    then obtain bs p mm1 where "kmalloc_all (replicate q SIZEOF_dma_work_order) (kmm (dma_cpu st)) = Some (bs, mm1)"
      "kmalloc SIZEOF_dma_work_order mm1 = Some (p, mm)" "as = bs @ [p]"
      using assms(1) by (auto simp: kmalloc_all_append Option.bind_eq_Some_conv)
    then show ?thesis using set_dma_work_rest [OF q(1-5) r] assms(2,3) by simp
  qed
qed

text \<open>A transfer of two bursts and a rest on a fresh heap.\<close>

theorem set_dma_work_covers_witness:
  "\<exists>as d' st'. set_dma_work (Some \<lparr>dev_idx = 0, dev_name = ''dma'', base_addr = 0, dev_irq = 61, dev_data = 0\<rparr>) 0x10000000 0x20000000 0x2100
        \<lparr>dma_cpu = idle_cpu\<lparr>kmm := fresh_mms\<rparr>, orders = \<lambda>_. \<lparr>order_num = 0, o_src = 0, o_dst = 0, o_len = 0, o_next = 0, is_first = False\<rparr>,
         behind_dev = False\<rparr> = Some (NO_ERR, Some d', st')
    \<and> order_list (orders st') (dev_data d') as
    \<and> (\<forall>j < length as. order_is (0x10000000 + MODCORE_DMA_BURST_LEN * of_nat j) (0x20000000 + MODCORE_DMA_BURST_LEN * of_nat j)
          (if Suc j < length as then MODCORE_DMA_BURST_LEN else 0x2100 - MODCORE_DMA_BURST_LEN * of_nat j) (orders st' (as ! j)))"
proof -
  have c: "order_count 0x2100 = 3" by (simp add: order_count_def)
  obtain as mm where "kmalloc_all (replicate 3 SIZEOF_dma_work_order) fresh_mms = Some (as, mm)"
    "map unat as = [0xC4001000, 0xC4002000, 0xC4003000]"
    using kmalloc_fresh_layout [where st = fresh_mms and szs = "replicate 3 SIZEOF_dma_work_order" and base = "0xC4000000"]
      fresh_vm_stack
    by (auto simp: fresh_mms_def fresh_vm_simps PAGE_SIZE_def pages_of_def SIZEOF_dma_work_order_def numeral_3_eq_3)
  then have as: "kmalloc_all (replicate 3 SIZEOF_dma_work_order) fresh_mms = Some (as, mm)"
    "as = [0xC4001000, 0xC4002000, 0xC4003000]"
    by (auto simp: map_eq_Cons_conv dest!: word_from_unat)
  show ?thesis
    by (rule exI [of _ as], rule set_dma_work_covers) (use as c in simp_all)
qed

text \<open>The interrupt queues the next order but does not wake the task that runs the queue.\<close>

lemma dma_irq_does_not_wake:
  "rq (snd (dma_irq fn p dev k)) = rq k \<and> waitq (snd (dma_irq fn p dev k)) = waitq k
    \<and> tasks (snd (dma_irq fn p dev k)) = tasks k"
  by (simp add: dma_irq_def write32_def Let_def split: option.split)

end
