(* ===== verification/Odev.thy ===== *)
theory Odev
  imports Task Lib
begin

unbundle bit_operations_syntax

text \<open>
  The outstream device (src/kernel/drivers/odev/odev.c). Its registers are words by address; while the driver
  polls, the \<open>n\<close>th reads of the status and control registers give \<open>status_at n\<close> and \<open>ctrl_at n\<close>. The stream is
  memory at \<open>O_STREAM_START\<close>, given as bytes. The endless loop of the task is one round.
\<close>

section \<open>Registers\<close>

definition O_STREAM_START :: u32 where "O_STREAM_START = 0x18000000"
definition O_STREAM_BURST_SZ :: u32 where "O_STREAM_BURST_SZ = 0x00000040"
definition O_STREAM_STEP :: u32 where "O_STREAM_STEP = 0x00000100"
definition O_STREAM_WRAP :: u32 where "O_STREAM_WRAP = 0x00001000"
definition REG_CTRL_OFFSET :: u32 where "REG_CTRL_OFFSET = 0x0"
definition REG_STATUS_OFFSET :: u32 where "REG_STATUS_OFFSET = 0x4"
definition REG_ADDR_OFFSET :: u32 where "REG_ADDR_OFFSET = 0x8"
definition REG_LEN_OFFSET :: u32 where "REG_LEN_OFFSET = 0xc"
definition REG_LATENCY_OFFSET :: u32 where "REG_LATENCY_OFFSET = 0x10"
definition BM_GBL_START :: u32 where "BM_GBL_START = 0x1"
definition BM_INTR_DONE :: u32 where "BM_INTR_DONE = push_bit 1 0x1"
definition BM_IN_TRANS :: u32 where "BM_IN_TRANS = push_bit 2 0x1"
definition BM_OSTREAM_START :: u32 where "BM_OSTREAM_START = push_bit 3 0x1"
definition BM_CONSUMER_START :: u32 where "BM_CONSUMER_START = push_bit 4 0x1"
definition BM_ITAB_FULL :: u32 where "BM_ITAB_FULL = push_bit 2 0x1"
definition BM_TRANSFER_DONE :: u32 where "BM_TRANSFER_DONE = push_bit 3 0x1"
definition O_STREAM_TASK_PRI :: u32 where "O_STREAM_TASK_PRI = 4"

definition set_ctrl :: "device \<Rightarrow> u32 \<Rightarrow> cpu \<Rightarrow> cpu" where
  "set_ctrl d bits k = write32 (base_addr d + REG_CTRL_OFFSET) (read32 (base_addr d + REG_CTRL_OFFSET) k OR bits) k"
definition clear_ctrl :: "device \<Rightarrow> u32 \<Rightarrow> cpu \<Rightarrow> cpu" where
  "clear_ctrl d bits k = write32 (base_addr d + REG_CTRL_OFFSET) (read32 (base_addr d + REG_CTRL_OFFSET) k AND NOT bits) k"

definition start_odev :: "device \<Rightarrow> cpu \<Rightarrow> ret \<times> cpu" where "start_odev d k = (NO_ERR, set_ctrl d BM_GBL_START k)"
definition start_odev_stream :: "device \<Rightarrow> cpu \<Rightarrow> ret \<times> cpu" where
  "start_odev_stream d k = (NO_ERR, set_ctrl d BM_OSTREAM_START k)"
definition stop_odev :: "device \<Rightarrow> cpu \<Rightarrow> ret \<times> cpu" where "stop_odev d k = (NO_ERR, clear_ctrl d BM_GBL_START k)"
definition stop_odev_stream :: "device \<Rightarrow> cpu \<Rightarrow> ret \<times> cpu" where
  "stop_odev_stream d k = (NO_ERR, clear_ctrl d BM_OSTREAM_START k)"
definition start_consumer :: "device \<Rightarrow> cpu \<Rightarrow> ret \<times> cpu" where
  "start_consumer d k = (NO_ERR, set_ctrl d BM_CONSUMER_START k)"
definition stop_consumer :: "device \<Rightarrow> cpu \<Rightarrow> ret \<times> cpu" where
  "stop_consumer d k = (NO_ERR, clear_ctrl d BM_CONSUMER_START k)"

definition init_odev :: "dt_node \<Rightarrow> device \<Rightarrow> ret \<times> device" where
  "init_odev dt d = (NO_ERR, d\<lparr>dev_name := dt_compat dt, base_addr := dt_base dt, dev_irq := dt_irq dt\<rparr>)"

definition odev_irq :: "device \<Rightarrow> cpu \<Rightarrow> ret \<times> cpu" where
  "odev_irq d k = (NO_ERR, set_ctrl d BM_INTR_DONE (snd (stop_consumer d k)))"

section \<open>The stream\<close>

text \<open>Whether the transfer was done (or the device was stopped) when the wait ended.\<close>

partial_function (option) itab_wait :: "(nat \<Rightarrow> u32) \<Rightarrow> (nat \<Rightarrow> u32) \<Rightarrow> nat \<Rightarrow> bool option" where
  "itab_wait status_at ctrl_at n =
     (if status_at n AND BM_TRANSFER_DONE \<noteq> 0 then Some True
      else if ctrl_at n AND BM_GBL_START = 0 then Some False
      else itab_wait status_at ctrl_at (n + 1))"

definition put_to_itab :: "(nat \<Rightarrow> u32) \<Rightarrow> (nat \<Rightarrow> u32) \<Rightarrow> device \<Rightarrow> u32 \<Rightarrow> u32 \<Rightarrow> cpu \<Rightarrow> (ret \<times> cpu) option" where
  "put_to_itab status_at ctrl_at d sAddr sLen k =
     (if read32 (base_addr d + REG_STATUS_OFFSET) k AND BM_ITAB_FULL \<noteq> 0 then Some (Neg EINVAL, k)
      else
        (let k1 = set_ctrl d BM_IN_TRANS
                    (write32 (base_addr d + REG_LEN_OFFSET) sLen (write32 (base_addr d + REG_ADDR_OFFSET) sAddr k))
         in do {
           done \<leftarrow> itab_wait status_at ctrl_at 0;
           Some (NO_ERR, if done then clear_ctrl d BM_IN_TRANS k1 else k1)
         }))"

text \<open>The sequence numbers written before the stream starts, one a burst.\<close>

definition put_seq :: "mem \<Rightarrow> mem" where
  "put_seq = for_upto (unat (O_STREAM_WRAP * 4))
     (\<lambda>i. store32 (O_STREAM_START + O_STREAM_BURST_SZ * of_nat i) (of_nat i + 1))"

definition odev_start :: "device \<Rightarrow> mem \<Rightarrow> cpu \<Rightarrow> mem \<times> cpu" where
  "odev_start d m k =
     (let k1 = snd (start_odev d k); m1 = put_seq m;
          k2 = write32 (base_addr d + REG_LATENCY_OFFSET) 10000 k1
      in (m1, snd (start_odev_stream d k2)))"

text \<open>One round of the loop: the next index and the state after the delay.\<close>

definition odev_round :: "(nat \<Rightarrow> u32) \<Rightarrow> (nat \<Rightarrow> u32) \<Rightarrow> device \<Rightarrow> u32 \<Rightarrow> cpu \<Rightarrow> (u32 \<times> cpu) option" where
  "odev_round status_at ctrl_at d i k =
     do {
       (r, k1) \<leftarrow> put_to_itab status_at ctrl_at d (O_STREAM_START + O_STREAM_STEP * i) O_STREAM_STEP k;
       if r = NO_ERR then map_option (Pair ((i + 1) mod O_STREAM_WRAP)) (mdelay 10 k1)
       else map_option (Pair i) (mdelay 100 k1)
     }"

definition create_odev_task :: "fn_table \<Rightarrow> u32 \<Rightarrow> u32 \<Rightarrow> cpu \<Rightarrow> (ret \<times> cpu) option" where
  "create_odev_task fns lr arg k =
     map_option (\<lambda>(t, k1). (NO_ERR, k1)) (create_cfs_task ''odev_worker'' (fns ''run_odev_task'') O_STREAM_TASK_PRI arg lr k)"

section \<open>What is streamed\<close>

lemma burst_addr_neq:
  assumes "t < 0x4000" and "n < 0x4000" and "t \<noteq> n" and "a < 4" and "b < 4"
  shows "O_STREAM_START + O_STREAM_BURST_SZ * of_nat t + of_nat a \<noteq> O_STREAM_START + O_STREAM_BURST_SZ * of_nat n + of_nat b"
proof -
  have "64 * t + a \<noteq> 64 * n + b" using assms by (cases "t < n") auto
  then have "(of_nat (64 * t + a) :: u32) \<noteq> of_nat (64 * n + b)"
    using assms by (subst word_of_nat_eq_iff) (simp add: take_bit_nat_eq_self)
  then show ?thesis by (simp add: O_STREAM_BURST_SZ_def add.assoc)
qed

lemma put_seq_loop:
  "n \<le> 0x4000 \<Longrightarrow> t < n \<Longrightarrow>
    load32 (for_upto n (\<lambda>i. store32 (O_STREAM_START + O_STREAM_BURST_SZ * of_nat i) (of_nat i + 1)) m)
      (O_STREAM_START + O_STREAM_BURST_SZ * of_nat t) = of_nat t + 1"
proof (induction n)
  case (Suc n)
  show ?case
  proof (cases "t = n")
    case True
    then show ?thesis by simp
  next
    case False
    then show ?thesis
      using Suc burst_addr_neq [of t n] by (simp add: load32_store32_other)
  qed
qed simp

text \<open>The chunk of index \<open>i\<close> holds the sequence numbers \<open>4 i + 1\<close> to \<open>4 i + 4\<close>, one at each burst, and the index stays
  below the end of the prepared memory.\<close>

theorem odev_stream_prepared:
  assumes "i < 0x1000" and "j < 4"
  shows "load32 (fst (odev_start d m k)) (O_STREAM_START + O_STREAM_STEP * of_nat i + O_STREAM_BURST_SZ * of_nat j)
    = of_nat (4 * i + j + 1)"
proof -
  have a: "O_STREAM_START + O_STREAM_STEP * of_nat i + O_STREAM_BURST_SZ * of_nat j
      = O_STREAM_START + O_STREAM_BURST_SZ * of_nat (4 * i + j)"
    by (simp add: O_STREAM_STEP_def O_STREAM_BURST_SZ_def algebra_simps)
  show ?thesis
    unfolding a using put_seq_loop [of "0x4000" "4 * i + j" m] assms
    by (simp add: odev_start_def put_seq_def O_STREAM_WRAP_def)
qed

lemma odev_round_index: "odev_round st ct d i k = Some (i', k') \<Longrightarrow> i < O_STREAM_WRAP \<Longrightarrow> i' < O_STREAM_WRAP"
  by (auto simp: odev_round_def Option.bind_eq_Some_conv O_STREAM_WRAP_def word_less_nat_alt unat_mod split: if_splits)

end
