(* ===== verification/Tick.thy ===== *)
theory Tick
  imports Timer
begin

unbundle bit_operations_syntax

text \<open>
  The scheduling tick as a whole: the timer interrupt of the scheduler's timer (src/kernel/core/timer.c) through the
  timer tree, the charge of the running task, the repair of the run queue and the switch (ktimer.c, sched.c, runq.c).
\<close>

section \<open>The parts of a tick\<close>

lemma irq_prologue_charges:
  assumes tr: "tr_holds k (l # ns)" "sorted (map (tc_key k) (l # ns))"
    and el: "read32 (base + PRIV_TMR_LD_OFFSET) k \<le> tc (timers k (node_timer l))"
    and run: "irq_prologue base k = Some k'"
  shows "ses k' = ses (update_current (read32 (base + PRIV_TMR_LD_OFFSET) k) k)" and "sched_timer k' = sched_timer k"
    and "handler (timers k' t) = handler (timers k t)"
proof -
  let ?el = "read32 (base + PRIV_TMR_LD_OFFSET) k"
  obtain k1 k0 where k1: "update_timer_tree ?el k = Some k1"
    "\<forall>t. timers k1 t = (if t \<in> node_timer ` set (l # ns) then (timers k t)\<lparr>tc := new_tc k ?el (timer_node t)\<rparr> else timers k t)"
    "same_but_timers k k0" "k1 = k0\<lparr>rbmem := rbmem k1, troot := troot k1\<rparr>"
    using update_timer_tree_runs [OF tr el] by blast
  note F = same_but_timers_fields [OF k1(3)]
  have e: "tasks k1 = tasks k" "ses k1 = ses k" "current k1 = current k" "sched_timer k1 = sched_timer k"
    by (subst k1(4), simp add: F)+
  have k': "k' = update_current ?el (write32 (base + PRIV_TMR_LD_OFFSET) (tc (timers k1 (node_timer (tr_leftmost (troot k1))))) k1)"
    using run k1(1) by (simp add: irq_prologue_def Let_def)
  show "ses k' = ses (update_current ?el k)"
    by (simp add: k' update_current_def Let_def upd_se_def e)
  show "sched_timer k' = sched_timer k" by (simp add: k' update_current_def Let_def upd_se_def e write32_def)
  show "handler (timers k' t) = handler (timers k t)" using k1(2) by (simp add: k' update_current_frame)
qed

text \<open>\<open>update_se\<close> changes nothing but the tree and its nodes.\<close>

lemma update_se_frame:
  assumes "rq_holds k (l # m # ns)" and "sorted (map (vruntime_key k) (m # ns))" and run: "update_se el k = Some k'"
  shows "k' = k\<lparr>rbmem := rbmem k', rq := (rq k)\<lparr>rq_root := rq_root (rq k'), rb_leftmost_se := rb_leftmost_se (rq k')\<rparr>\<rparr>"
    and "\<And>a. a \<notin> set (l # m # ns) \<Longrightarrow> rbmem k' a = rbmem k a"
proof -
  have l: "rb_leftmost_se (rq k) = l" "node_addr l"
    using cq_holds_nodes [OF assms(1) [unfolded rq_holds_def]] assms(1)
    by (auto simp: rq_holds_def cq_holds_def)
  obtain nx where nx: "rb_next l (rq_rbs k) = Some nx"
    using run l(1) by (auto simp: update_se_def Let_def bind_eq_Some_conv)
  have "(k' = k\<lparr>rbmem := rbmem k', rq := (rq k)\<lparr>rq_root := rq_root (rq k'), rb_leftmost_se := rb_leftmost_se (rq k')\<rparr>\<rparr>)
    \<and> (\<forall>a. a \<notin> set (l # m # ns) \<longrightarrow> rbmem k' a = rbmem k a)"
  proof (cases "jiffies_vruntime (ses k (node_se nx)) < jiffies_vruntime (ses k (node_se l))")
    case True
    obtain s lm where d: "dequeue_se (node_se l) k = Some (put_rq s lm k)" "rq_holds (put_rq s lm k) (m # ns)"
      "\<forall>a. a \<notin> set (l # m # ns) \<longrightarrow> nodes s a = rbmem k a"
      using dequeue_se_holds [OF assms(1), of "node_se l"] by auto
    have "l \<notin> set (m # ns)" using rqueue.holds_distinct [OF assms(1)] by simp
    then obtain s2 lm2 where e: "enqueue_se (node_se l) (put_rq s lm k) = Some (put_rq s2 lm2 (put_rq s lm k))"
      "\<forall>a. a \<notin> insert l (set (m # ns)) \<longrightarrow> nodes s2 a = rbmem (put_rq s lm k) a"
      using enqueue_se_holds [OF d(2), of "node_se l"] l(2) by auto
    have "k' = put_rq s2 lm2 (put_rq s lm k)"
      using run True l(1) nx d(1) e(1) by (simp add: update_se_def)
    then show ?thesis using d(3) e(2) by (simp add: put_rq_def)
  next
    case False
    then have "k' = k" using run l(1) nx by (simp add: update_se_def)
    then show ?thesis by simp
  qed
  then show "k' = k\<lparr>rbmem := rbmem k', rq := (rq k)\<lparr>rq_root := rq_root (rq k'), rb_leftmost_se := rb_leftmost_se (rq k')\<rparr>\<rparr>"
    "\<And>a. a \<notin> set (l # m # ns) \<Longrightarrow> rbmem k' a = rbmem k a" by blast+
qed

lemma sum_list_mset: "mset xs = mset ys \<Longrightarrow> sum_list (map f xs) = sum_list (map (f :: _ \<Rightarrow> u32) ys)"
  by (metis mset_map sum_mset_sum_list)

lemma update_se_sched_inv:
  assumes inv: "sched_inv k (l # m # ns) ws" and srt: "sorted (map (vruntime_key k) (m # ns))"
  shows "\<exists>k' x xs. update_se el k = Some k' \<and> sched_inv k' (x # xs) ws \<and> mset (x # xs) = mset (l # m # ns)
    \<and> rb_leftmost_se (rq k') = x \<and> (\<forall>y \<in> set (x # xs). vruntime_key k x \<le> vruntime_key k y)
    \<and> k' = k\<lparr>rbmem := rbmem k', rq := rq k'\<rparr> \<and> (\<forall>a. a \<notin> set (l # m # ns) \<longrightarrow> rbmem k' a = rbmem k a)"
proof -
  have q: "rq_holds k (l # m # ns)" using inv by (simp add: sched_inv_def)
  obtain k' x xs where k': "update_se el k = Some k'" "rq_holds k' (x # xs)" "mset (x # xs) = mset (l # m # ns)"
    "rb_leftmost_se (rq k') = x" "\<forall>y \<in> set (x # xs). vruntime_key k x \<le> vruntime_key k y"
    using update_se_sorts [OF q srt] by blast
  note F = update_se_frame [OF q srt k'(1)]
  have e: "wq k' = wq k" "waitq k' = waitq k" "lheads k' = lheads k" "runq k' = runq k" "rqlock k' = rqlock k"
    "tasks k' = tasks k" "ses k' = ses k" "priority_sum (rq k') = priority_sum (rq k)"
    by (subst F(1), simp)+
  have set_eq: "set (x # xs) = set (l # m # ns)" by (rule mset_eq_setD [OF k'(3)])
  have "wq_holds k' ws" using inv by - (rule wq_holds_cong [of k], simp_all add: sched_inv_def e)
  moreover have "priority_sum (rq k') = sum_list (map (\<lambda>n. priority (ses k' (node_se n))) (x # xs))"
    using inv sum_list_mset [OF k'(3), of "\<lambda>n. priority (ses k (node_se n))"] by (simp only: sched_inv_def e)
  ultimately have "sched_inv k' (x # xs) ws"
    using inv k'(2) unfolding sched_inv_def e set_eq by blast
  moreover have "k' = k\<lparr>rbmem := rbmem k', rq := rq k'\<rparr>" by (rule cpu.equality; simp; subst F(1), simp)
  ultimately show ?thesis using k'(1,3,4,5) F(2) by blast
qed

lemma charged_ses:
  "ttype (tasks k (current k)) = CFS_TASK \<Longrightarrow>
     jiffies_vruntime (ses (update_current el k) (se_of (current k)))
       = (jiffies_consumed (ses k (se_of (current k))) + 1) * priority (ses k (se_of (current k)))"
  "s \<noteq> se_of (current k) \<Longrightarrow> ses (update_current el k) s = ses k s"
  by (simp_all add: update_current_def Let_def upd_se_def)

section \<open>The tick\<close>

text \<open>The first half of the interrupt: the running task is charged, the keys of the other tasks stay.\<close>

lemma sched_tick_charges:
  assumes tr: "tr_holds k (l # ns)" "sorted (map (tc_key k) (l # ns))"
    and el: "read32 (base_addr d + PRIV_TMR_LD_OFFSET) k \<le> tc (timers k (node_timer l))"
    and kind: "timer_kind (timers k (node_timer l)) = SCHED_TIMER"
    and inv: "sched_inv k (task_node c # m # xs) ws" and cur: "current k = c" "ttype (tasks k c) = CFS_TASK"
    and srt: "sorted (map (vruntime_key k) (m # xs))" and dis: "set (task_node c # m # xs) \<inter> set (l # ns) = {}"
  obtains k1 ts where "irq_prologue (base_addr d) k = Some k1" "sched_inv k1 (task_node c # m # xs) ws" "tr_holds k1 ts"
    "mset ts = mset (l # ns)" "tasks k1 = tasks k" "current k1 = c" "timer_kind (timers k1 (node_timer l)) = SCHED_TIMER"
    "sorted (map (vruntime_key k1) (m # xs))" "\<forall>y \<in> set (m # xs). vruntime_key k1 y = vruntime_key k y"
proof -
  obtain k1 ts where k1: "irq_prologue (base_addr d) k = Some k1" "sched_inv k1 (task_node c # m # xs) ws" "tr_holds k1 ts"
    "mset ts = mset (l # ns)" "tasks k1 = tasks k" "current k1 = current k" "timer_kind (timers k1 (node_timer l)) = SCHED_TIMER"
    using irq_prologue_runs [OF tr el inv dis] kind by auto
  have "rq_holds k (task_node c # m # xs)" using inv by (simp add: sched_inv_def)
  then have new: "y \<noteq> task_node c" if "y \<in> set (m # xs)" for y
    using that rqueue.holds_distinct [of k "task_node c # m # xs"] by auto
  have same: "vruntime_key k1 y = vruntime_key k y" if "y \<in> set (m # xs)" for y
  proof -
    have "node_se y \<noteq> se_of c" using new [OF that] by (metis offsets(6) task_node_def)
    then show ?thesis
      using charged_ses(2) [of "node_se y" k] cur(1) irq_prologue_charges(1) [OF tr el k1(1)] by (simp add: vruntime_key_def)
  qed
  then have "map (vruntime_key k1) (m # xs) = map (vruntime_key k) (m # xs)" by (intro map_cong refl)
  then have "sorted (map (vruntime_key k1) (m # xs))" using srt by (simp only:)
  then show ?thesis using that [OF k1(1-5) _ k1(7)] k1(6) cur(1) same by blast
qed

text \<open>C3. A tick of the scheduler's timer, while a CFS task runs that is first in the run queue: the interrupt returns, the
  task has been charged one jiffy at its priority, nobody else's runtime has changed, the run queue holds the same tasks,
  and the current task is one with the least runtime; wait queue and timers are in order.\<close>

theorem sched_tick_switches:
  assumes tr: "tr_holds k (l # ns)" "sorted (map (tc_key k) (l # ns))"
    and el: "read32 (base_addr d + PRIV_TMR_LD_OFFSET) k \<le> tc (timers k (node_timer l))"
    and kind: "timer_kind (timers k (node_timer l)) = SCHED_TIMER" "handler (timers k (sched_timer k)) = CFS_SCHEDULER"
    and inv: "sched_inv k (task_node c # m # xs) ws" and cur: "current k = c" "ttype (tasks k c) = CFS_TASK"
    and srt: "sorted (map (vruntime_key k) (m # xs))" and dis: "set (task_node c # m # xs) \<inter> set (l # ns) = {}"
  shows "\<exists>k' ys ts. timer_irq (Some d) k = Some (NO_ERR, k')
    \<and> sched_inv k' ys ws \<and> mset ys = mset (task_node c # m # xs) \<and> tr_holds k' ts \<and> mset ts = mset (l # ns)
    \<and> task_node (current k') \<in> set ys
    \<and> (\<forall>y \<in> set ys. vruntime_key k' (task_node (current k')) \<le> vruntime_key k' y)
    \<and> jiffies_vruntime (ses k' (se_of c)) = (jiffies_consumed (ses k (se_of c)) + 1) * priority (ses k (se_of c))
    \<and> (\<forall>y \<in> set (m # xs). vruntime_key k' y = vruntime_key k y)"
proof -
  let ?el = "read32 (base_addr d + PRIV_TMR_LD_OFFSET) k" and ?p = "node_timer l"
  have lm: "tr_leftmost (troot k) = l" using tqueue.front_hd [OF tr(1)] by simp
  obtain k1 ts where k1: "irq_prologue (base_addr d) k = Some k1" "sched_inv k1 (task_node c # m # xs) ws" "tr_holds k1 ts"
    "mset ts = mset (l # ns)" "tasks k1 = tasks k" "current k1 = c" "timer_kind (timers k1 ?p) = SCHED_TIMER"
    "sorted (map (vruntime_key k1) (m # xs))" "\<forall>y \<in> set (m # xs). vruntime_key k1 y = vruntime_key k y"
    by (rule sched_tick_charges [OF tr el kind(1) inv cur srt dis])
  note C = irq_prologue_charges [OF tr el k1(1)]
  from update_se_sched_inv [OF k1(2) k1(8), of ?el]
  obtain k2 y ys where k2: "update_se ?el k1 = Some k2" "sched_inv k2 (y # ys) ws"
    "mset (y # ys) = mset (task_node c # m # xs)" "rb_leftmost_se (rq k2) = y"
    "\<forall>z \<in> set (y # ys). vruntime_key k1 y \<le> vruntime_key k1 z" "k2 = k1\<lparr>rbmem := rbmem k2, rq := rq k2\<rparr>"
    "\<forall>a. a \<notin> set (task_node c # m # xs) \<longrightarrow> rbmem k2 a = rbmem k1 a" by blast
  have e2: "ses k2 = ses k1" "troot k2 = troot k1" by (subst k2(6), simp)+
  let ?k' = "write32 (base_addr d + PRIV_TMR_INTSTAT_OFFSET) 1 (upd_timer ?p (\<lambda>t. t\<lparr>timer_pt := c\<rparr>) (schedule k2))"
  have "timer_irq (Some d) k = Some (NO_ERR, ?k')"
    using k1(1,5-7) k2(1) kind(2) cur lm C(2,3)
    by (auto simp: timer_irq_def irq_prologue_def Let_def irq_sched_def call_handler_def cfs_scheduler_def bind_eq_Some_conv)
  moreover have f: "rbmem ?k' = rbmem k2" "troot ?k' = troot k2" "ses ?k' = ses k2" "current ?k' = current (schedule k2)"
    by (simp_all add: upd_timer_def schedule_def switch_context_def Let_def)
  moreover have "sched_inv ?k' (y # ys) ws"
    by (rule sched_inv_cong [OF k2(2)]) (simp_all add: upd_timer_def schedule_def switch_context_def Let_def)
  moreover have "tr_holds ?k' ts"
  proof (rule tr_holds_cong [OF k1(3)])
    have ts: "set ts = set (l # ns)" by (rule mset_eq_setD [OF k1(4)])
    show "rbmem ?k' a = rbmem k1 a" if "a \<in> set ts" for a
    proof -
      have "a \<notin> set (task_node c # m # xs)" using that dis unfolding ts by blast
      then show ?thesis using k2(7) f(1) by simp
    qed
  qed (simp only: f e2)
  moreover have v: "vruntime_key ?k' = vruntime_key k1" unfolding vruntime_key_def f(3) e2(1) ..
  moreover have "task_node (current ?k') = y" by (simp only: f(4) schedule_current k2(4) node_task_node)
  moreover have "jiffies_vruntime (ses ?k' (se_of c)) = (jiffies_consumed (ses k (se_of c)) + 1) * priority (ses k (se_of c))"
    using charged_ses(1) [of k ?el] cur unfolding f(3) e2(1) C(1) by simp
  ultimately show ?thesis
    using k1(4,9) k2(3,5) by (intro exI [of _ ?k'] exI [of _ "y # ys"] exI [of _ ts]) simp
qed

text \<open>Two running tasks and the timer of the scheduler.\<close>

definition ticking :: cpu where
  "ticking = two_running\<lparr>rq := (rq two_running)\<lparr>priority_sum := 5\<rparr>,
     rbmem := (rbmem two_running)(timer_node 0x3000 := \<lparr>parent_color = 1, rb_right = 0, rb_left = 0\<rparr>),
     tasks := (\<lambda>a. (tasks two_running a)\<lparr>tstate := TASK_RUNNING\<rparr>),
     troot := troot one_timer, timers := timers one_timer, sched_timer := 0x3000\<rparr>"

lemma ticking_facts:
  "tr_holds ticking [timer_node 0x3000]" "sched_inv ticking [task_node 0x1000, task_node 0x2000] []"
proof -
  have "cq_holds (tr_rbs one_timer) (timer_node 0x3000) [timer_node 0x3000]"
    using one_timer_holds by (simp add: tr_holds_def one_timer_def)
  then have "cq_holds (tr_rbs ticking) (timer_node 0x3000) [timer_node 0x3000]"
    by (rule cq_holds_cong) (simp_all add: tr_rbs_def ticking_def one_timer_def)
  then show "tr_holds ticking [timer_node 0x3000]" by (simp add: tr_holds_def ticking_def one_timer_def)
  have "cq_holds (rq_rbs two_running) (task_node 0x1000) [task_node 0x1000, task_node 0x2000]"
    using two_running_holds by (simp add: rq_holds_def two_running_def)
  then have "cq_holds (rq_rbs ticking) (task_node 0x1000) [task_node 0x1000, task_node 0x2000]"
    by (rule cq_holds_cong) (auto simp: rq_rbs_def ticking_def two_running_def timer_node_def task_node_def se_node_def se_of_def)
  moreover have "wq_holds ticking []" using idle_cpu_inv
    by (intro wq_holds_cong [of idle_cpu _ ticking]) (simp_all add: sched_inv_def ticking_def two_running_def)
  ultimately show "sched_inv ticking [task_node 0x1000, task_node 0x2000] []"
    using idle_cpu_inv two_running_keys(4,5)
    by (simp add: sched_inv_def rq_holds_def ticking_def two_running_def idle_cpu_def)
       (simp add: task_node_def se_of_def)
qed

lemma ticking_fields:
  "timer_kind (timers ticking 0x3000) = SCHED_TIMER" "handler (timers ticking (sched_timer ticking)) = CFS_SCHEDULER"
  "read32 0xF8F00600 ticking \<le> tc (timers ticking 0x3000)" "current ticking = 0x1000" "ttype (tasks ticking 0x1000) = CFS_TASK"
  "timer_node 0x3000 \<noteq> task_node 0x1000" "timer_node 0x3000 \<noteq> task_node 0x2000"
  "jiffies_consumed (ses ticking (se_of 0x1000)) = 0" "priority (ses ticking (se_of 0x1000)) = 1"
  by (simp_all add: ticking_def two_running_def one_timer_def idle_cpu_def timer_node_def task_node_def se_node_def se_of_def
      read32_def)

theorem sched_tick_switches_witness:
  "\<exists>k' ys. timer_irq (Some \<lparr>dev_idx = 0, dev_name = ''timer'', base_addr = 0xF8F00600, dev_irq = 29, dev_data = 0\<rparr>) ticking
      = Some (NO_ERR, k') \<and> sched_inv k' ys [] \<and> mset ys = mset [task_node 0x1000, task_node 0x2000]
    \<and> jiffies_vruntime (ses k' (se_of 0x1000)) = 1"
  using sched_tick_switches [OF ticking_facts(1) _ _ _ _ ticking_facts(2), of
      "\<lparr>dev_idx = 0, dev_name = ''timer'', base_addr = 0xF8F00600, dev_irq = 29, dev_data = 0\<rparr>"] ticking_fields
  by (auto simp: PRIV_TMR_LD_OFFSET_def)

end
