(* ===== verification/TaskStart.thy ===== *)
theory TaskStart
  imports Task
begin

unbundle bit_operations_syntax

text \<open>
  Starting tasks, across memory, scheduler and timers (src/kernel/core/task.c, sched.c, waitq.c, runq.c, mm.c).
  \<open>sys_inv\<close> puts the invariants of the components together over one heap: every kernel object lies in a page of
  its own, so the list heads, tree nodes and entities of different tasks are apart, and what creates a task keeps
  the run queue, the wait queue, the ring of tasks and the timer tree at once.
\<close>

section \<open>Pages of the kernel heap\<close>

text \<open>The \<open>i\<close>th page of the heap, and the heap with \<open>n\<close> pages handed out.\<close>

definition heap_addr :: "nat \<Rightarrow> u32" where "heap_addr i = 0xC4000000 + PAGE_SIZE * of_nat i"

definition kheap :: "cpu \<Rightarrow> nat \<Rightarrow> bool" where
  "kheap k n \<longleftrightarrow>
     (let st = kmm k; p = vmpools (mm_vms st) (pvm_kernel st) in
        vm_stack (pvm_kernel st) n (mm_vms st) \<and> base_address p = 0xC4000000
      \<and> region_size_total p = PAGE_SIZE * of_nat n \<and> mmu_inv heap_pages (mm_mmu (mm_vms st)))"

lemma kheap_cong: "kmm k' = kmm k \<Longrightarrow> kheap k' n = kheap k n"
  by (simp add: kheap_def)

lemma one_page: "0 < sz \<Longrightarrow> sz \<le> 4096 \<Longrightarrow> region_pages sz = 1"
proof -
  assume "0 < sz" "sz \<le> 4096"
  then have "0 < unat sz" "unat sz \<le> 4096" by (simp_all add: unat_gt_0 word_le_nat_alt)
  then have "(unat sz + 4095) div 4096 = 1" by (intro div_nat_eqI) auto
  then have "unat (region_pages sz) = 1" by (simp add: unat_region_pages)
  then show "region_pages sz = 1" by (simp add: word_unat_eq_iff)
qed

lemma kalloc_page:
  assumes "kheap k n" and "n < 256" and "0 < sz" and "sz \<le> 4096"
  shows "\<exists>mm. kalloc sz k = Some (heap_addr n, k\<lparr>kmm := mm\<rparr>) \<and> kheap (k\<lparr>kmm := mm\<rparr>) (Suc n)"
proof -
  let ?st = "kmm k"
  let ?p = "vmpools (mm_vms ?st) (pvm_kernel ?st)"
  have H: "vm_stack (pvm_kernel ?st) n (mm_vms ?st)" "base_address ?p = 0xC4000000"
    "region_size_total ?p = PAGE_SIZE * of_nat n" "mmu_inv heap_pages (mm_mmu (mm_vms ?st))"
    using assms(1) by (simp_all add: kheap_def Let_def)
  obtain vm where vm: "allocate (pvm_kernel ?st) sz (mm_vms ?st) = Some (heap_addr n, vm)"
    "vm_stack (pvm_kernel ?st) (Suc n) vm" "mm_mmu vm = mm_mmu (mm_vms ?st)"
    "vmpools vm (pvm_kernel ?st) = ?p\<lparr>plast_region := slot (base_address ?p) n,
       region_size_total := region_size_total ?p + PAGE_SIZE * region_pages sz\<rparr>"
    using allocate_stack [OF H(1) assms(2), of sz] by (auto simp: H(2,3) heap_addr_def)
  have "kheap (k\<lparr>kmm := ?st\<lparr>mm_vms := vm\<rparr>\<rparr>) (Suc n)"
    using vm(2) H by (simp add: kheap_def Let_def vm(3,4) one_page [OF assms(3,4)] algebra_simps)
  then show ?thesis
    using vm(1) by (intro exI [of _ "?st\<lparr>mm_vms := vm\<rparr>"]) (simp add: kalloc_def kmalloc_def)
qed

text \<open>Cells of different pages, or at different offsets, are different.\<close>

lemma unat_heap_cell: "i < 256 \<Longrightarrow> c < 4096 \<Longrightarrow> unat (heap_addr i + of_nat c) = 0xC4000000 + 4096 * i + c"
proof -
  assume "i < 256" "c < 4096"
  moreover have "heap_addr i + of_nat c = of_nat (0xC4000000 + 4096 * i + c)"
    by (simp add: heap_addr_def PAGE_SIZE_def)
  ultimately show ?thesis by (simp only: unat_of_nat) (simp add: take_bit_nat_eq_self)
qed

lemma heap_cell_eq:
  assumes "i < 256" and "j < 256" and "c < 4096" and "d < 4096"
  shows "heap_addr i + of_nat c = heap_addr j + of_nat d \<longleftrightarrow> i = j \<and> c = d"
proof
  assume "heap_addr i + of_nat c = heap_addr j + of_nat d"
  then have e: "4096 * i + c = 4096 * j + d"
    using unat_heap_cell [OF assms(1,3)] unat_heap_cell [OF assms(2,4)] by simp
  then have "(4096 * i + c) div 4096 = (4096 * j + d) div 4096" by simp
  then have "i = j" using assms by simp
  then show "i = j \<and> c = d" using e by simp
qed auto

lemma heap_cells [simp]:
  assumes "i < 256" and "j < 256"
  shows "heap_addr i = heap_addr j \<longleftrightarrow> i = j"
    and "waitlist (heap_addr i) \<noteq> wq_list_head (heap_addr j)"
    and "waitlist (heap_addr i) \<noteq> task_lh (heap_addr j)"
    and "wq_list_head (heap_addr i) \<noteq> task_lh (heap_addr j)"
    and "timer_node (heap_addr i) \<noteq> task_node (heap_addr j)"
  using heap_cell_eq [OF assms, of 0 0] heap_cell_eq [OF assms, of 300 8] heap_cell_eq [OF assms, of 300 288]
    heap_cell_eq [OF assms, of 8 288] heap_cell_eq [OF assms, of 20 268]
  by (simp_all add: waitlist_def wq_list_head_def task_lh_def timer_node_def task_node_def se_node_def se_of_def)

lemma heap_nonzero [simp]:
  assumes "i < 256"
  shows "heap_addr i \<noteq> 0" "se_of (heap_addr i) \<noteq> 0" "waitlist (heap_addr i) \<noteq> 0"
    "wq_list_head (heap_addr i) \<noteq> 0"
  using unat_heap_cell [OF assms, of 0] unat_heap_cell [OF assms, of 248] unat_heap_cell [OF assms, of 300]
    unat_heap_cell [OF assms, of 8]
  by (auto simp: se_of_def waitlist_def wq_list_head_def)

lemma mask3: "mask 2 = (3 :: u32)"
  by (simp add: mask_eq_exp_minus_1)

lemma heap_node_addr:
  assumes "i < 256" and "c < 4096" and "c mod 4 = 0"
  shows "node_addr (heap_addr i + of_nat c)"
proof -
  have u: "unat (heap_addr i + of_nat c) = 0xC4000000 + 4096 * i + c" by (rule unat_heap_cell) fact+
  have "0xC4000000 + 4096 * i + c = c + 4 * (0x31000000 + 1024 * i)" by simp
  then have "(0xC4000000 + 4096 * i + c) mod 4 = 0" using assms(3) by (simp only: mod_mult_self2)
  then have "unat (take_bit 2 (heap_addr i + of_nat c)) = unat (0 :: u32)"
    unfolding unsigned_take_bit_eq u by (simp add: take_bit_eq_mod)
  then have "take_bit 2 (heap_addr i + of_nat c) = 0" unfolding word_unat_eq_iff .
  then have "(heap_addr i + of_nat c) AND 3 = 0" unfolding take_bit_eq_mask mask3 .
  moreover have "heap_addr i + of_nat c \<noteq> 0"
  proof
    assume "heap_addr i + of_nat c = 0"
    then have "unat (heap_addr i + of_nat c) = 0" by (simp only: unat_0)
    then show False unfolding u by simp
  qed
  ultimately show ?thesis unfolding node_addr_def by (intro conjI)
qed

lemma heap_nodes [simp]:
  "i < 256 \<Longrightarrow> node_addr (task_node (heap_addr i))" "i < 256 \<Longrightarrow> node_addr (timer_node (heap_addr i))"
  using heap_node_addr [of i 268] heap_node_addr [of i 20]
  by (simp_all add: task_node_def se_node_def se_of_def timer_node_def add.assoc)

section \<open>The invariant of the system\<close>

text \<open>\<open>n\<close> heap pages are handed out; the run queue holds the nodes \<open>xs\<close>, the tasks \<open>ws\<close> wait, \<open>ts\<close> is the ring
  of all tasks and \<open>ys\<close> are the nodes of the timer tree.\<close>

definition sys_inv :: "cpu \<Rightarrow> nat \<Rightarrow> u32 list \<Rightarrow> u32 list \<Rightarrow> u32 list \<Rightarrow> u32 list \<Rightarrow> bool" where
  "sys_inv k n xs ws ts ys \<longleftrightarrow>
     kheap k n \<and> n \<le> 256 \<and> (\<exists>w < n. wq k = heap_addr w)
   \<and> sched_inv k xs ws \<and> task_ring k ts \<and> set ts \<subseteq> heap_addr ` {..<n}
   \<and> set xs \<subseteq> task_node ` set ts \<and> set ws \<subseteq> set ts
   \<and> tr_holds k ys \<and> set ys \<inter> task_node ` heap_addr ` {..<256} = {}"

lemma task_node_eq [simp]: "task_node t = task_node u \<longleftrightarrow> t = u"
  by (simp add: task_node_def)

lemma sched_inv_agree:
  assumes "sched_inv k xs ws" and "\<And>a. a \<in> set xs \<Longrightarrow> rbmem k' a = rbmem k a" and "rq k' = rq k"
    and "wq k' = wq k" and "waitq k' = waitq k" and "runq k' = runq k" and "rqlock k' = rqlock k"
    and "lheads k' (wq_list_head (wq k)) = lheads k (wq_list_head (wq k))"
    and "\<And>t. t \<in> set ws \<Longrightarrow> lheads k' (waitlist t) = lheads k (waitlist t)"
    and "\<And>n. n \<in> set xs \<Longrightarrow> tstate (tasks k' (node_task n)) = tstate (tasks k (node_task n))"
    and "\<And>t. t \<in> set ws \<Longrightarrow> tstate (tasks k' t) = tstate (tasks k t)"
    and "\<And>n. n \<in> set xs \<Longrightarrow> priority (ses k' (node_se n)) = priority (ses k (node_se n))"
  shows "sched_inv k' xs ws"
proof -
  have "cq_holds (rq_rbs k) (rb_leftmost_se (rq k)) xs" using assms(1) by (simp add: sched_inv_def rq_holds_def)
  then have q: "rq_holds k' xs"
    unfolding rq_holds_def assms(3) by (rule cq_holds_cong) (simp_all add: rq_rbs_def assms)
  have w: "wq_holds k' ws"
    using assms(1) wchain_cong [of ws "lheads k'" "lheads k"] assms(9)
    by (simp add: sched_inv_def wq_holds_def Let_def assms(4,5,8))
  have "map (\<lambda>n. priority (ses k' (node_se n))) xs = map (\<lambda>n. priority (ses k (node_se n))) xs"
    using assms(12) by simp
  then have "priority_sum (rq k') = sum_list (map (\<lambda>n. priority (ses k' (node_se n))) xs)"
    using assms(1) by (simp only: sched_inv_def assms(3))
  then show ?thesis
    using assms(1) q w by (simp add: sched_inv_def assms(6,7,10,11))
qed

lemma sys_inv_task:
  assumes "sys_inv k n xs ws ts ys" and "t \<in> set ts"
  shows "queue_task k t" and "t \<noteq> 0"
proof -
  obtain i w where "t = heap_addr i" "i < 256" "wq k = heap_addr w" "w < 256"
    using assms by (force simp: sys_inv_def)
  then show "queue_task k t" "t \<noteq> 0" by (simp_all add: queue_task_def)
qed

lemma init_rb_frame:
  "init_rb_of_se se k = k\<lparr>rbmem := rbmem (init_rb_of_se se k)\<rparr>"
  "a \<noteq> se_node se \<Longrightarrow> rbmem (init_rb_of_se se k) a = rbmem k a"
  by (simp_all add: init_rb_of_se_def rb_init_node_def rb_set_parent_color_def rq_rbs_def)

section \<open>A new task\<close>

lemma fork_frame:
  defines "K pt name fn ty pri sh lr k \<equiv> fork_link pt (fork_context lr pt (fork_task name fn ty pri sh pt k))"
  shows "rbmem (K pt name fn ty pri sh lr k) = rbmem k" "rq (K pt name fn ty pri sh lr k) = rq k"
    "wq (K pt name fn ty pri sh lr k) = wq k" "waitq (K pt name fn ty pri sh lr k) = waitq k"
    "runq (K pt name fn ty pri sh lr k) = runq k" "rqlock (K pt name fn ty pri sh lr k) = rqlock k"
    "troot (K pt name fn ty pri sh lr k) = troot k" "kmm (K pt name fn ty pri sh lr k) = kmm k"
    "current (K pt name fn ty pri sh lr k) = current k" "work (K pt name fn ty pri sh lr k) = work k"
    "timers (K pt name fn ty pri sh lr k) = timers k" "idle_task (K pt name fn ty pri sh lr k) = idle_task k"
    "task_created_num (K pt name fn ty pri sh lr k) = task_created_num k + 1"
    "p \<noteq> pt \<Longrightarrow> tasks (K pt name fn ty pri sh lr k) p = tasks k p"
    "s \<noteq> se_of pt \<Longrightarrow> ses (K pt name fn ty pri sh lr k) s = ses k s"
    "a \<noteq> task_lh (last_task k) \<Longrightarrow> a \<noteq> task_lh (first_task k) \<Longrightarrow> a \<noteq> task_lh pt
       \<Longrightarrow> lheads (K pt name fn ty pri sh lr k) a = lheads k a"
  by (simp_all add: K_def fork_link_def fork_context_def fork_task_def Let_def upd_task_def upd_se_def
      set_next_def set_prev_def)

lemma valid_priority: "pri \<in> {1, 2, 4, 8, 16} \<Longrightarrow> \<exists>i. pri_shift pri = Some i"
  by (auto simp: pri_shift_def CFS_PRI_NUM_def upt_rec)

lemma forkyi_sys:
  assumes inv: "sys_inv k n xs ws ts ys" and n: "n < 256" and pri: "pri \<in> {1, 2, 4, 8, 16}"
    and room: "task_created_num k \<noteq> MAX_TASK" and name: "length name < 32"
  shows "\<exists>k'. forkyi name fn CFS_TASK pri lr k = Some (heap_addr n, k')
    \<and> sys_inv k' (Suc n) xs ws (ts @ [heap_addr n]) ys
    \<and> k' = k\<lparr>kmm := kmm k', tasks := tasks k', ses := ses k', lheads := lheads k', last_task := heap_addr n,
         task_created_num := task_created_num k + 1, next_pid := next_pid k'\<rparr>"
proof -
  let ?t = "heap_addr n"
  have I: "kheap k n" "sched_inv k xs ws" "task_ring k ts" "set ts \<subseteq> heap_addr ` {..<n}"
    "set xs \<subseteq> task_node ` set ts" "set ws \<subseteq> set ts" "tr_holds k ys" "set ys \<inter> task_node ` heap_addr ` {..<256} = {}"
    using inv by (simp_all add: sys_inv_def)
  obtain w where w: "w < n" "wq k = heap_addr w" using inv by (auto simp: sys_inv_def)
  obtain mm where a: "kalloc SIZEOF_task_struct k = Some (?t, k\<lparr>kmm := mm\<rparr>)" "kheap (k\<lparr>kmm := mm\<rparr>) (Suc n)"
    using kalloc_page [OF I(1) n, of SIZEOF_task_struct] by (auto simp: SIZEOF_task_struct_def)
  obtain sh where sh: "pri_shift pri = Some sh" using valid_priority [OF pri] by blast
  let ?k = "fork_link ?t (fork_context lr ?t (fork_task name fn CFS_TASK pri sh ?t (k\<lparr>kmm := mm\<rparr>)))"
  have run: "forkyi name fn CFS_TASK pri lr k = Some (?t, ?k)"
    using a(1) sh room name by (simp add: forkyi_def TASK_NAME_LEN_def)
  have idx: "\<exists>i < n. t = heap_addr i" if "t \<in> set ts" for t using I(4) that by auto
  have fl: "first_task k \<in> set ts" "last_task k \<in> set ts" using I(3) by (auto simp: task_ring_def)
  have new: "?t \<notin> set ts" using idx n by force
  have ne: "t \<noteq> ?t" if "task_node t \<in> set xs \<or> t \<in> set ws" for t
  proof -
    have "t \<in> set ts" using that I(5,6) by (auto dest!: subsetD)
    then show ?thesis using new by blast
  qed
  have old: "node_task p \<noteq> ?t \<and> node_se p \<noteq> se_of ?t" if "p \<in> set xs" for p
  proof -
    have "node_task p \<noteq> ?t" using ne [of "node_task p"] that by simp
    then show ?thesis by (auto simp: node_task_def)
  qed
  have lh: "lheads ?k (waitlist t) = lheads k (waitlist t)" if "t \<in> set ws" for t
  proof -
    have t: "t \<in> set ts" using that I(6) by blast
    obtain i j l where "i < n" "t = heap_addr i" "j < n" "first_task k = heap_addr j" "l < n" "last_task k = heap_addr l"
      using idx [OF t] idx [OF fl(1)] idx [OF fl(2)] by blast
    then show ?thesis using n by (simp add: fork_frame)
  qed
  have hd: "lheads ?k (wq_list_head (wq k)) = lheads k (wq_list_head (wq k))"
  proof -
    obtain j l where "j < n" "first_task k = heap_addr j" "l < n" "last_task k = heap_addr l"
      using idx [OF fl(1)] idx [OF fl(2)] by blast
    then show ?thesis using w n by (simp add: fork_frame)
  qed
  have "sched_inv ?k xs ws"
    by (rule sched_inv_agree [OF I(2)])
       (use old ne lh hd in \<open>auto simp: fork_frame\<close>)
  moreover have "task_ring ?k (ts @ [?t])"
    by (rule fork_link_ring [OF task_ring_cong [OF I(3)]]) (use new n in \<open>simp_all add: fork_parts\<close>)
  moreover have "tr_holds ?k ys" by (rule tr_holds_cong [OF I(7)]) (simp_all add: fork_frame)
  moreover have "kheap ?k (Suc n)" using a(2) by (simp add: kheap_def fork_frame)
  ultimately have "sys_inv ?k (Suc n) xs ws (ts @ [?t]) ys"
    unfolding sys_inv_def using I(4-6,8) n w by (auto simp: fork_frame less_Suc_eq)
  moreover have "?k = k\<lparr>kmm := kmm ?k, tasks := tasks ?k, ses := ses ?k, lheads := lheads ?k, last_task := ?t,
      task_created_num := task_created_num k + 1, next_pid := next_pid ?k\<rparr>"
    by (simp add: fork_link_def fork_context_def fork_task_def Let_def upd_task_def upd_se_def set_next_def set_prev_def)
  ultimately show ?thesis using run by blast
qed

text \<open>Queueing a task that is in no queue.\<close>

lemma enqueue_keeps_lheads:
  assumes inv: "sched_inv k xs ws" and t: "t \<notin> set ws" "task_node t \<notin> set xs" "queue_task k t"
    and run: "enqueue_se_to_runq (se_of t) k = Some k'"
  shows "lheads k' = lheads k"
proof -
  let ?k0 = "add_priority (se_of t) k"
  let ?k2 = "set_state t TASK_RUNNING ?k0"
  have w: "wq_holds ?k0 ws"
    by (rule wq_holds_cong [where k = k]) (use inv in \<open>simp_all add: sched_inv_def add_priority_def\<close>)
  have q: "rq_holds ?k2 xs"
    by (rule rq_holds_cong [where k = k]) (use inv in \<open>simp_all add: sched_inv_def add_priority_def\<close>)
  have "\<forall>m \<in> set xs. node_se m \<noteq> 0" "node_addr (task_node t)" "rqlock ?k2 = UNLOCKED"
    using inv t(3) by (simp_all add: sched_inv_def queue_task_def add_priority_def)
  then obtain k1 where k1: "do { k2 \<leftarrow> rq_lock ?k2; k3 \<leftarrow> update_vruntime_runq (se_of t) k2;
       k4 \<leftarrow> enqueue_se (se_of t) k3; Some (rq_unlock k4) } = Some k1"
    "k1 = ?k2\<lparr>ses := ses k1, rbmem := rbmem k1, rq := (rq ?k2)\<lparr>rq_root := rq_root (rq k1),
         rb_leftmost_se := rb_leftmost_se (rq k1)\<rparr>\<rparr>"
    using enqueue_locked [OF q _ _ t(2)] by blast
  have "k' = k1"
    using run k1(1) remove_from_wq_absent [OF w t(1)] by (simp add: enqueue_se_to_runq_def)
  then show ?thesis by (simp, subst k1(2), simp add: add_priority_def)
qed

lemma enqueue_sys:
  assumes inv: "sys_inv k n xs ws ts ys" and t: "t \<in> set ts" "t \<notin> set ws" "task_node t \<notin> set xs"
  shows "\<exists>k' xs1 xs2. enqueue_se_to_runq (se_of t) k = Some k' \<and> xs = xs1 @ xs2
    \<and> sys_inv k' n (xs1 @ task_node t # xs2) ws ts ys
    \<and> k' = k\<lparr>ses := ses k', rbmem := rbmem k', rq := rq k', waitq := waitq k', tasks := tasks k', lheads := lheads k'\<rparr>
    \<and> cfs_task_num (rq k') = cfs_task_num (rq k)"
proof -
  have I: "kheap k n" "n \<le> 256" "sched_inv k xs ws" "task_ring k ts" "set ts \<subseteq> heap_addr ` {..<n}"
    "set xs \<subseteq> task_node ` set ts" "set ws \<subseteq> set ts" "tr_holds k ys" "set ys \<inter> task_node ` heap_addr ` {..<256} = {}"
    using inv by (simp_all add: sys_inv_def)
  have q: "queue_task k t" by (rule sys_inv_task [OF inv t(1)])
  obtain k' xs1 xs2 where k': "enqueue_se_to_runq (se_of t) k = Some k'" "xs = xs1 @ xs2"
    "sched_inv k' (xs1 @ task_node t # xs2) (after_wait t ws)"
    "k' = k\<lparr>ses := ses k', rbmem := rbmem k', rq := rq k', lheads := lheads k', waitq := waitq k', tasks := tasks k'\<rparr>"
    "cfs_task_num (rq k') = cfs_task_num (rq k)"
    "\<forall>a. a \<notin> insert (task_node t) (set xs) \<longrightarrow> rbmem k' a = rbmem k a"
    using enqueue_se_to_runq_inv [OF I(3) t(3) q] by blast
  have lh: "lheads k' = lheads k" by (rule enqueue_keeps_lheads [OF I(3) t(2,3) q k'(1)])
  have e: "kmm k' = kmm k" "wq k' = wq k" "troot k' = troot k" "first_task k' = first_task k" "last_task k' = last_task k"
    by (subst k'(4), simp)+
  have nodes: "insert (task_node t) (set xs) \<subseteq> task_node ` heap_addr ` {..<256}"
    using I(2,5,6) t(1) by fastforce
  have "rbmem k' a = rbmem k a" if "a \<in> set ys" for a
    using that nodes k'(6) I(9) by blast
  then have "tr_holds k' ys" by (rule tr_holds_cong [OF I(8)]) (simp_all add: e)
  moreover have "task_ring k' ts" by (rule task_ring_cong [OF I(4)]) (simp_all add: lh e)
  moreover have "after_wait t ws = ws" using t(2) by (simp add: after_wait_def)
  ultimately have "sys_inv k' n (xs1 @ task_node t # xs2) ws ts ys"
    using inv k'(2,3) t(1) by (auto simp: sys_inv_def e kheap_def)
  then show ?thesis using k' lh by (intro exI [of _ k'] exI [of _ xs1] exI [of _ xs2]) auto
qed

lemma sys_inv_agree:
  assumes inv: "sys_inv k n xs ws ts ys" and k': "k' = k\<lparr>rbmem := rbmem k', rq := rq k', tasks := tasks k'\<rparr>"
    and "\<And>a. a \<in> set xs \<union> set ys \<Longrightarrow> rbmem k' a = rbmem k a"
    and "rq_root (rq k') = rq_root (rq k)" "rb_leftmost_se (rq k') = rb_leftmost_se (rq k)"
    and "priority_sum (rq k') = priority_sum (rq k)" and "\<And>t. tstate (tasks k' t) = tstate (tasks k t)"
  shows "sys_inv k' n xs ws ts ys"
proof -
  have e: "kmm k' = kmm k" "wq k' = wq k" "troot k' = troot k" "first_task k' = first_task k" "last_task k' = last_task k"
    "waitq k' = waitq k" "lheads k' = lheads k" "runq k' = runq k" "rqlock k' = rqlock k" "ses k' = ses k"
    by (subst k', simp)+
  have I: "sched_inv k xs ws" "task_ring k ts" "tr_holds k ys" using inv by (simp_all add: sys_inv_def)
  have "cq_holds (rq_rbs k) (rb_leftmost_se (rq k)) xs" using I(1) by (simp add: sched_inv_def rq_holds_def)
  then have "cq_holds (rq_rbs k') (rb_leftmost_se (rq k')) xs"
    unfolding assms(5) by (rule cq_holds_cong) (simp_all add: rq_rbs_def assms(3,4))
  then have "sched_inv k' xs ws"
    using I(1) wq_holds_cong [of k ws k'] by (simp add: sched_inv_def rq_holds_def e assms(6,7))
  moreover have "task_ring k' ts" by (rule task_ring_cong [OF I(2)]) (simp_all add: e)
  moreover have "tr_holds k' ys" by (rule tr_holds_cong [OF I(3)]) (simp_all add: e assms(3))
  ultimately show ?thesis using inv by (simp add: sys_inv_def e kheap_def)
qed

lemma queue_new_task:
  assumes inv: "sys_inv k n xs ws ts ys" and t: "t \<in> set ts" "t \<notin> set ws" "task_node t \<notin> set xs"
  shows "\<exists>k1 k' xs1 xs2. enqueue_se_to_runq (se_of t) (init_rb_of_se (se_of t) k) = Some k1 \<and> k' = count_cfs_task k1
    \<and> xs = xs1 @ xs2 \<and> sys_inv k' n (xs1 @ task_node t # xs2) ws ts ys
    \<and> k' = k\<lparr>ses := ses k', rbmem := rbmem k', rq := rq k', waitq := waitq k', tasks := tasks k', lheads := lheads k'\<rparr>
    \<and> cfs_task_num (rq k') = cfs_task_num (rq k) + 1"
proof -
  let ?k = "init_rb_of_se (se_of t) k"
  have "task_node t \<in> task_node ` heap_addr ` {..<256}" "set ys \<inter> task_node ` heap_addr ` {..<256} = {}"
    using inv t(1) by (auto simp: sys_inv_def)
  then have "task_node t \<notin> set xs \<union> set ys" using t(3) by blast
  then have "sys_inv ?k n xs ws ts ys"
    by (intro sys_inv_agree [OF inv]) (auto simp: init_rb_of_se_def rb_init_node_def rq_rbs_def task_node_def)
  from enqueue_sys [OF this t] obtain k1 xs1 xs2 where k1: "enqueue_se_to_runq (se_of t) ?k = Some k1" "xs = xs1 @ xs2"
    "sys_inv k1 n (xs1 @ task_node t # xs2) ws ts ys"
    "k1 = ?k\<lparr>ses := ses k1, rbmem := rbmem k1, rq := rq k1, waitq := waitq k1, tasks := tasks k1, lheads := lheads k1\<rparr>"
    "cfs_task_num (rq k1) = cfs_task_num (rq ?k)" by blast
  let ?k' = "count_cfs_task k1"
  have "sys_inv ?k' n (xs1 @ task_node t # xs2) ws ts ys"
    by (rule sys_inv_agree [OF k1(3)]) (simp_all add: count_cfs_task_def)
  moreover have "?k' = k\<lparr>ses := ses ?k', rbmem := rbmem ?k', rq := rq ?k', waitq := waitq ?k', tasks := tasks ?k', lheads := lheads ?k'\<rparr>"
    by (rule cpu.equality; simp add: count_cfs_task_def; subst k1(4), simp add: init_rb_of_se_def)
  moreover have "cfs_task_num (rq ?k') = cfs_task_num (rq k) + 1"
    using k1(5) by (simp add: count_cfs_task_def init_rb_of_se_def)
  ultimately show ?thesis using k1(1,2) by blast
qed

lemma create_cfs_task_sys:
  assumes inv: "sys_inv k n xs ws ts ys" and n: "n < 256" and "pri \<in> {1, 2, 4, 8, 16}"
    and "task_created_num k \<noteq> MAX_TASK" and "length name < 32"
  shows "\<exists>k' xs1 xs2. create_cfs_task name fn pri arg lr k = Some (heap_addr n, k') \<and> xs = xs1 @ xs2
    \<and> sys_inv k' (Suc n) (xs1 @ task_node (heap_addr n) # xs2) ws (ts @ [heap_addr n]) ys
    \<and> cfs_task_num (rq k') = cfs_task_num (rq k) + 1
    \<and> k' = k\<lparr>kmm := kmm k', tasks := tasks k', ses := ses k', lheads := lheads k', last_task := heap_addr n,
         task_created_num := task_created_num k + 1, next_pid := next_pid k', rbmem := rbmem k', rq := rq k',
         waitq := waitq k'\<rparr>"
proof -
  let ?t = "heap_addr n"
  obtain k1 where k1: "forkyi name fn CFS_TASK pri lr k = Some (?t, k1)" "sys_inv k1 (Suc n) xs ws (ts @ [?t]) ys"
    "k1 = k\<lparr>kmm := kmm k1, tasks := tasks k1, ses := ses k1, lheads := lheads k1, last_task := ?t,
       task_created_num := task_created_num k + 1, next_pid := next_pid k1\<rparr>"
    using forkyi_sys [OF assms] by blast
  let ?k2 = "upd_task ?t (\<lambda>x. x\<lparr>targ := arg\<rparr>) k1"
  have k2: "sys_inv ?k2 (Suc n) xs ws (ts @ [?t]) ys"
    by (rule sys_inv_agree [OF k1(2)]) (simp_all add: upd_task_def)
  have new: "?t \<notin> set ws" "task_node ?t \<notin> set xs" using inv n by (force simp: sys_inv_def)+
  obtain k3 k' xs1 xs2 where k3: "enqueue_se_to_runq (se_of ?t) (init_rb_of_se (se_of ?t) ?k2) = Some k3"
    "k' = count_cfs_task k3" "xs = xs1 @ xs2" "sys_inv k' (Suc n) (xs1 @ task_node ?t # xs2) ws (ts @ [?t]) ys"
    "k' = ?k2\<lparr>ses := ses k', rbmem := rbmem k', rq := rq k', waitq := waitq k', tasks := tasks k', lheads := lheads k'\<rparr>"
    "cfs_task_num (rq k') = cfs_task_num (rq ?k2) + 1"
    using queue_new_task [OF k2 _ new] by auto
  have "create_cfs_task name fn pri arg lr k = Some (?t, k')"
    using k1(1) k3(1,2) by (simp add: create_cfs_task_def)
  moreover have "k' = k\<lparr>kmm := kmm k', tasks := tasks k', ses := ses k', lheads := lheads k', last_task := ?t,
      task_created_num := task_created_num k + 1, next_pid := next_pid k', rbmem := rbmem k', rq := rq k',
      waitq := waitq k'\<rparr>"
    by (rule cpu.equality; simp; subst k3(5), simp add: upd_task_def; subst k1(3), simp)
  moreover have "rq k1 = rq k" by (subst k1(3)) simp
  then have "cfs_task_num (rq k') = cfs_task_num (rq k) + 1" using k3(6) by (simp add: upd_task_def)
  ultimately show ?thesis using k3(3,4) by blast
qed

text \<open>C4. Creating a task keeps the whole system in order: in a state where memory, run queue, wait queue, ring of tasks
  and timer tree are in order, \<open>create_cfs_task\<close> with a valid priority returns a task on a fresh page of the heap,
  puts it into the run queue and at the end of the ring, and leaves the waiting tasks and the timers as they were.\<close>

theorem create_cfs_task_starts:
  assumes "sys_inv k n xs ws ts ys" and "n < 256" and "pri \<in> {1, 2, 4, 8, 16}"
    and "task_created_num k \<noteq> MAX_TASK" and "length name < 32"
  shows "\<exists>k' xs1 xs2. create_cfs_task name fn pri arg lr k = Some (heap_addr n, k') \<and> xs = xs1 @ xs2
    \<and> sys_inv k' (Suc n) (xs1 @ task_node (heap_addr n) # xs2) ws (ts @ [heap_addr n]) ys
    \<and> cfs_task_num (rq k') = cfs_task_num (rq k) + 1"
  using create_cfs_task_sys [OF assms, of fn arg lr] by blast

end
