(* ===== verification/Boot.thy ===== *)
theory Boot
  imports TaskStart Gic Uart Dma Odev
begin

unbundle bit_operations_syntax

text \<open>
  The start of the kernel (src/kernel/core/main.c): the order in which the components are initialised on the two
  CPUs of the Cortex-A9 and on the Cortex-A53, up to the idle loop of each. The devices are static objects; their
  addresses, those of the functions and of the variables on the stack, the device tree, the bounds of the heap and the
  text \<open>create_workq_worker\<close> finds behind the name of its task are in \<open>boot_env\<close>. The messages printed on the way
  are in Uart; \<open>start_cpu1\<close> reads and writes words by address like the devices do.
\<close>

section \<open>State\<close>

record boot_env =
  e_dt :: "string \<Rightarrow> dt_node"
  e_fns :: fn_table
  e_dev :: "string \<Rightarrow> u32"
  e_framepool :: u32
  e_pgt :: u32
  e_kheap :: u32
  e_heap_start :: u32
  e_heap_end :: u32
  e_secondary_reset :: u32
  e_lr :: u32
  e_junk :: string

record machine =
  m_cpu :: cpu
  m_gic :: gic
  m_mail :: mail_state
  uart_dev :: device
  timer_dev :: device
  dma_dev :: device
  odev_dev :: device

definition on_cpu :: "(cpu \<Rightarrow> cpu option) \<Rightarrow> machine \<Rightarrow> machine option" where
  "on_cpu f m = map_option (\<lambda>k. m\<lparr>m_cpu := k\<rparr>) (f (m_cpu m))"

section \<open>The second CPU\<close>

definition A9_CPU_RST_CTRL :: u32 where "A9_CPU_RST_CTRL = 0xF8000244"
definition A9_RST1_MASK :: u32 where "A9_RST1_MASK = 0x2"
definition A9_CLKSTOP1_MASK :: u32 where "A9_CLKSTOP1_MASK = 0x20"
definition KERNEL_CODE_BASE :: u32 where "KERNEL_CODE_BASE = 0x100000"

text \<open>The waiting loop counts an uninitialised variable up to 1000 and changes nothing else.\<close>

definition start_cpu1 :: "u32 \<Rightarrow> cpu \<Rightarrow> cpu" where
  "start_cpu1 secondary_reset k =
     (let ctrl = read32 A9_CPU_RST_CTRL k OR (A9_RST1_MASK OR A9_CLKSTOP1_MASK);
          k1 = write32 A9_CPU_RST_CTRL ctrl k;
          k2 = write32 0x0 (read32 secondary_reset k1) k1;
          k3 = write32 0x4 (read32 (secondary_reset + 4) k2) k2;
          k4 = write32 0x8 KERNEL_CODE_BASE k3;
          ctrl1 = ctrl AND NOT A9_RST1_MASK;
          k5 = write32 A9_CPU_RST_CTRL ctrl1 k4
      in write32 A9_CPU_RST_CTRL (ctrl1 AND NOT A9_CLKSTOP1_MASK) k5)"

text \<open>One round of the idle loops, with what it prints; the counting loop changes nothing.\<close>

definition cpuidle :: "cpu \<Rightarrow> string option" where
  "cpuidle k = (if show_stat k \<noteq> 0 then printk (''%s is running....'' @ [CHR 0x0A]) [StrArg ''cpuidle''] else Some [])"
definition cpuidle_secondary :: "cpu \<Rightarrow> string option" where
  "cpuidle_secondary k =
     (if show_stat k \<noteq> 0 then printk (''%s is running....'' @ [CHR 0x0A]) [StrArg ''cpuidle_secondary''] else Some [])"

section \<open>The start of the kernel\<close>

definition register_timer :: "boot_env \<Rightarrow> machine \<Rightarrow> machine option" where
  "register_timer env m =
     do {
       (r, g, k) \<leftarrow> register_irq (e_dev env ''timer'') (timer_dev m) (e_fns env ''timer_irq'') (m_gic m) (m_cpu m);
       Some (m\<lparr>m_gic := g, m_cpu := k\<rparr>)
     }"

definition boot_init_timer :: "boot_env \<Rightarrow> machine \<Rightarrow> machine" where
  "boot_init_timer env m =
     (let (r, d, k) = init_timer (e_dt env ''timer'') (Some (timer_dev m)) (m_cpu m)
      in m\<lparr>timer_dev := the d, m_cpu := k\<rparr>)"

definition boot_devices :: "boot_env \<Rightarrow> machine \<Rightarrow> machine" where
  "boot_devices env m =
     (let (r, u) = init_uart (e_dt env ''uart'') (uart_dev m);
          (r, k1) = configure_uart u (m_cpu m);
          k2 = k1\<lparr>kmm := init_kernmem (e_framepool env) (e_pgt env) (e_kheap env) (e_heap_start env) (e_heap_end env) (kmm k1)\<rparr>;
          (r, g, k3) = init_gic (e_dt env ''gic'') (Some (gic_dev (m_gic m))) k2
      in m\<lparr>uart_dev := u, m_gic := (m_gic m)\<lparr>gic_dev := the g\<rparr>, m_cpu := k3\<rparr>)"

definition boot_dma :: "boot_env \<Rightarrow> machine \<Rightarrow> machine option" where
  "boot_dma env m =
     (let (r, d, k) = init_dma (e_dt env ''dma'') (Some (dma_dev m)) (m_cpu m); m1 = m\<lparr>dma_dev := the d, m_cpu := k\<rparr>
      in do {
        (r, g, k1) \<leftarrow> register_irq (e_dev env ''dma'') (dma_dev m1) (e_fns env ''dma_irq'') (m_gic m1) (m_cpu m1);
        Some (m1\<lparr>m_gic := g, m_cpu := k1\<rparr>)
      })"

definition start_kernel :: "boot_env \<Rightarrow> machine \<Rightarrow> machine option" where
  "start_kernel env m =
     do {
       m1 \<leftarrow> on_cpu init_idletask (boot_devices env m);
       m2 \<leftarrow> on_cpu init_wq m1;
       m3 \<leftarrow> on_cpu init_rq m2;
       m4 \<leftarrow> on_cpu (init_shell (e_fns env) (e_lr env)) m3;
       m5 \<leftarrow> on_cpu (\<lambda>k. map_option snd (init_timertree (e_dev env ''timer'') k)) m4;
       m6 \<leftarrow> on_cpu init_oneshot_timers m5;
       m7 \<leftarrow> on_cpu init_cfs_scheduler m6;
       m8 \<leftarrow> register_timer env (boot_init_timer env m7);
       let m9 = m8\<lparr>m_mail := init_mailbox (m_mail m8), m_cpu := update_csd (Some (timer_dev m8)) (m_cpu m8)\<rparr>;
       m10 \<leftarrow> boot_dma env m9;
       m11 \<leftarrow> on_cpu (create_workq_worker (e_fns env) (e_lr env) (e_junk env)) m10;
       m12 \<leftarrow> on_cpu (Some \<circ> start_cpu1 (e_secondary_reset env)) m11;
       on_cpu (Some \<circ> snd \<circ> timer_enable (Some (timer_dev m12))) m12
     }"

definition secondary_start_kernel :: "boot_env \<Rightarrow> machine \<Rightarrow> machine option" where
  "secondary_start_kernel env m =
     do {
       m1 \<leftarrow> on_cpu (Some \<circ> snd \<circ> init_gic_secondary (Some (gic_dev (m_gic m)))) m;
       m2 \<leftarrow> on_cpu init_idletask m1;
       m3 \<leftarrow> on_cpu init_wq m2;
       m4 \<leftarrow> on_cpu init_rq m3;
       m5 \<leftarrow> on_cpu (\<lambda>k. map_option snd (init_timertree (e_dev env ''timer'') k)) m4;
       m6 \<leftarrow> on_cpu init_oneshot_timers m5;
       m7 \<leftarrow> on_cpu init_cfs_scheduler m6;
       m8 \<leftarrow> register_timer env (boot_init_timer env m7);
       let m9 = m8\<lparr>m_cpu := timer_enable_secondary (timer_dev m8) (update_csd (Some (timer_dev m8)) (m_cpu m8))\<rparr>;
       g \<leftarrow> enable_sgi_irq 0xF (e_fns env ''sgi_irq'') (e_dev env ''odev'') (m_cpu m9) (m_gic m9);
       let m10 = m9\<lparr>m_gic := g, odev_dev := snd (init_odev (e_dt env ''odev'') (odev_dev m9))\<rparr>;
       (r, g1, k1) \<leftarrow> register_irq (e_dev env ''odev'') (odev_dev m10) (e_fns env ''odev_irq'') (m_gic m10) (m_cpu m10);
       on_cpu (create_workq_worker (e_fns env) (e_lr env) (e_junk env)) (m10\<lparr>m_gic := g1, m_cpu := k1\<rparr>)
     }"

text \<open>The Cortex-A53: its timer interrupt does nothing, and nothing is scheduled.\<close>

definition main_a53 :: "boot_env \<Rightarrow> device \<Rightarrow> device \<Rightarrow> gic2 \<Rightarrow> cpu \<Rightarrow> (device \<times> device \<times> gic2 \<times> cpu) option" where
  "main_a53 env uart timer g k =
     (let (r, u) = init_uart (e_dt env ''uart'') uart;
          (r, k1) = configure_uart u k;
          (r, gd, k2) = v2_init_gic (e_dt env ''gic'') (Some (gic2_dev g)) k1;
          (r, t, hz) = init_timer_a53 (e_dt env ''timer'') (Some timer)
      in do {
        (r, g1, k3) \<leftarrow> v2_register_irq (e_dev env ''timer'') (the t) (e_fns env ''timer_irq'') (g\<lparr>gic2_dev := the gd\<rparr>)
                         (k2\<lparr>ticks_per_sec := hz\<rparr>);
        Some (u, the t, g1, k3)
      })"

section \<open>Frames\<close>

text \<open>Fields the invariants do not read.\<close>

lemma sys_inv_fields [simp]:
  "sys_inv (k\<lparr>regs := x1\<rparr>) n xs ws ts ys = sys_inv k n xs ws ts ys"
  "sys_inv (k\<lparr>timers := x2\<rparr>) n xs ws ts ys = sys_inv k n xs ws ts ys"
  "sys_inv (k\<lparr>jiffies := x3\<rparr>) n xs ws ts ys = sys_inv k n xs ws ts ys"
  "sys_inv (k\<lparr>sched_timer := x4\<rparr>) n xs ws ts ys = sys_inv k n xs ws ts ys"
  "sys_inv (k\<lparr>ptroot := x5\<rparr>) n xs ws ts ys = sys_inv k n xs ws ts ys"
  "sys_inv (k\<lparr>oneshot_timer := x6\<rparr>) n xs ws ts ys = sys_inv k n xs ws ts ys"
  "sys_inv (k\<lparr>oneshot_timer_idx := x7\<rparr>) n xs ws ts ys = sys_inv k n xs ws ts ys"
  "sys_inv (k\<lparr>ticks_per_sec := x8\<rparr>) n xs ws ts ys = sys_inv k n xs ws ts ys"
  "sys_inv (k\<lparr>csd := x9\<rparr>) n xs ws ts ys = sys_inv k n xs ws ts ys"
  "sys_inv (k\<lparr>csd_tick := x10\<rparr>) n xs ws ts ys = sys_inv k n xs ws ts ys"
  "sys_inv (k\<lparr>csd_dev := x11\<rparr>) n xs ws ts ys = sys_inv k n xs ws ts ys"
  "sys_inv (k\<lparr>qworker := x12\<rparr>) n xs ws ts ys = sys_inv k n xs ws ts ys"
  "sys_inv (k\<lparr>work := x13\<rparr>) n xs ws ts ys = sys_inv k n xs ws ts ys"
  by (simp_all add: sys_inv_def sched_inv_def rq_holds_def wq_holds_def tr_holds_def rq_rbs_def tr_rbs_def kheap_def
      task_ring_def)

lemma write32_regs: "write32 a v k = k\<lparr>regs := (regs k)(a := v)\<rparr>"
  by (simp add: write32_def)

lemma kalloc_sys:
  assumes "sys_inv k n xs ws ts ys" and "n < 256" and "0 < sz" and "sz \<le> 4096"
  shows "\<exists>mm. kalloc sz k = Some (heap_addr n, k\<lparr>kmm := mm\<rparr>) \<and> sys_inv (k\<lparr>kmm := mm\<rparr>) (Suc n) xs ws ts ys"
proof -
  have h: "kheap k n" using assms(1) by (simp add: sys_inv_def)
  obtain mm where mm: "kalloc sz k = Some (heap_addr n, k\<lparr>kmm := mm\<rparr>)" "kheap (k\<lparr>kmm := mm\<rparr>) (Suc n)"
    using kalloc_page [OF h assms(2-4)] by blast
  have "sys_inv (k\<lparr>kmm := mm\<rparr>) (Suc n) xs ws ts ys"
    using assms(1,2) mm(2)
    by (auto simp: sys_inv_def sched_inv_def rq_holds_def wq_holds_def tr_holds_def rq_rbs_def tr_rbs_def task_ring_def
        less_Suc_eq)
  then show ?thesis using mm(1) by blast
qed

section \<open>The first task and its queues\<close>

text \<open>What the zeroed memory and \<open>init_kernmem\<close> give before the first task.\<close>

definition fresh_kernel :: "cpu \<Rightarrow> nat \<Rightarrow> bool" where
  "fresh_kernel k n \<longleftrightarrow> kheap k n \<and> rqlock k = UNLOCKED \<and> troot k = \<lparr>tr_root = 0, tr_leftmost = 0\<rparr>"

lemma init_idletask_runs:
  assumes "fresh_kernel k n" and "n < 256"
  shows "\<exists>k'. init_idletask k = Some k' \<and> fresh_kernel k' (Suc n) \<and> task_ring k' [heap_addr n]
    \<and> idle_task k' = heap_addr n \<and> current k' = heap_addr n \<and> task_created_num k' = 1
    \<and> jiffies_vruntime (ses k' (se_of (heap_addr n))) = 0 \<and> cpuid k' = cpuid k"
proof -
  have k: "kheap k n" using assms(1) by (simp add: fresh_kernel_def)
  obtain mm where mm: "kalloc SIZEOF_task_struct k = Some (heap_addr n, k\<lparr>kmm := mm\<rparr>)" "kheap (k\<lparr>kmm := mm\<rparr>) (Suc n)"
    using kalloc_page [OF k assms(2), of SIZEOF_task_struct] by (auto simp: SIZEOF_task_struct_def)
  then show ?thesis
    using assms
    by (simp add: init_idletask_def fresh_kernel_def kheap_def task_ring_def set_next_def set_prev_def upd_task_def
        upd_se_def)
qed

lemma init_wq_runs:
  assumes f: "fresh_kernel k n" and n: "n < 256"
  shows "\<exists>k'. init_wq k = Some k' \<and> fresh_kernel k' (Suc n) \<and> wq k' = heap_addr n \<and> wq_holds k' []
    \<and> (\<forall>t. task_ring k [t] \<longrightarrow> task_ring k' [t])
    \<and> k' = k\<lparr>kmm := kmm k', wq := wq k', waitq := waitq k', lheads := lheads k'\<rparr>"
proof -
  have k: "kheap k n" using f by (simp add: fresh_kernel_def)
  obtain mm where mm: "kalloc SIZEOF_wait_queue k = Some (heap_addr n, k\<lparr>kmm := mm\<rparr>)" "kheap (k\<lparr>kmm := mm\<rparr>) (Suc n)"
    using kalloc_page [OF k n, of SIZEOF_wait_queue] by (auto simp: SIZEOF_wait_queue_def)
  then show ?thesis
    using f n
    by (simp add: init_wq_def fresh_kernel_def kheap_def wq_holds_def task_ring_def set_next_def set_prev_def UNLOCKED_def
        Let_def)
qed

text \<open>Inserting into an empty tree does not depend on the cached leftmost node, which \<open>init_rq\<close> sets before.\<close>

lemma cq_insert_empty: "root s = 0 \<Longrightarrow> cq_insert g a s lm = cq_insert g a s 0"
  by (simp add: cq_insert_def cq_search.simps [of g LinkRoot] load_link_def)

text \<open>Updating the runtimes when the only entry is outside of the tree.\<close>

lemma update_alone:
  assumes "rb_leftmost_se (rq k) = task_node t" and "se_of t \<noteq> 0" and "task_node t \<noteq> 0"
    and "parent_color (rbmem k (task_node t)) = task_node t"
  shows "\<exists>f. update_vruntime_runq (se_of t) k = Some (k\<lparr>ses := f\<rparr>) \<and> (\<forall>c. priority (f c) = priority (ses k c))"
proof -
  have "rb_next (task_node t) (rq_rbs k) = Some 0"
    using assms(4) by (simp add: rb_next_def RB_EMPTY_NODE_def rq_rbs_def)
  then show ?thesis
    using assms(1-3)
    by (simp add: update_vruntime_runq_def update_vr_loop.simps [of _ "se_of t"] update_vr_loop.simps [of _ 0]
        scale_se_eq task_node_def scale_ses_def Let_def)
       (rule exI, rule conjI, rule refl, simp add: scale_ses_def)
qed

lemma sched_inv_first:
  assumes "wq_holds k []" and "cq_holds (rq_rbs k) (rb_leftmost_se (rq k)) [task_node t]" and "runq k \<noteq> 0"
    and "rqlock k = UNLOCKED" and "tstate (tasks k t) = TASK_RUNNING" and "se_of t \<noteq> 0"
    and "priority_sum (rq k) = priority (ses k (se_of t))"
  shows "sched_inv k [task_node t] []"
  using assms by (simp add: sched_inv_def rq_holds_def) (simp add: task_node_def node_task_def)

lemma init_rq_runs:
  assumes f: "fresh_kernel k n" and n: "n < 256" and w: "wq_holds k []" "wq k = heap_addr w" "w < n"
    and i: "idle_task k = heap_addr i" "i < n" "task_ring k [heap_addr i]"
  shows "\<exists>k'. init_rq k = Some k' \<and> sys_inv k' (Suc n) [task_node (heap_addr i)] [] [heap_addr i] []
    \<and> k' = k\<lparr>kmm := kmm k', runq := runq k', rq := rq k', rbmem := rbmem k', ses := ses k', tasks := tasks k'\<rparr>
    \<and> cfs_task_num (rq k') = 1"
proof -
  have k: "kheap k n" using f by (simp add: fresh_kernel_def)
  obtain mm where mm: "kalloc SIZEOF_cfs_rq k = Some (heap_addr n, k\<lparr>kmm := mm\<rparr>)" "kheap (k\<lparr>kmm := mm\<rparr>) (Suc n)"
    using kalloc_page [OF k n, of SIZEOF_cfs_rq] by (auto simp: SIZEOF_cfs_rq_def)
  let ?t = "heap_addr i"
  let ?q = "\<lparr>rq_curr = 0, rq_next = 0, rq_last = 0, rq_root = 0, rb_leftmost_se = task_node ?t, priority_sum = 0,
     cfs_task_num = 0\<rparr>"
  let ?k1 = "init_rb_of_se (se_of ?t) (k\<lparr>kmm := mm, runq := heap_addr n, rq := ?q\<rparr>)"
  let ?k2 = "(set_state ?t TASK_RUNNING (add_priority (se_of ?t) ?k1))\<lparr>rqlock := LOCKED\<rparr>"
  have w1: "wq_holds (add_priority (se_of ?t) ?k1) []"
    by (rule wq_holds_cong [OF w(1)]) (simp_all add: add_priority_def init_rb_of_se_def)
  have r1: "remove_from_wq ?t (add_priority (se_of ?t) ?k1) = Some (add_priority (se_of ?t) ?k1)"
    by (rule remove_from_wq_absent [OF w1]) simp
  have p: "rb_leftmost_se (rq ?k2) = task_node ?t" "parent_color (rbmem ?k2 (task_node ?t)) = task_node ?t"
    "ses ?k2 = ses k" "rq_root (rq ?k2) = 0" "priority_sum (rq ?k2) = priority (ses k (se_of ?t))"
    "wq ?k2 = wq k" "waitq ?k2 = waitq k" "lheads ?k2 = lheads k"
    by (simp_all add: init_rb_of_se_def add_priority_def rb_init_node_def rq_rbs_def task_node_def)
  have nz: "se_of ?t \<noteq> 0" "node_addr (task_node ?t)" "heap_addr n \<noteq> 0" using i(2) n by simp_all
  obtain f where f': "update_vruntime_runq (se_of ?t) ?k2 = Some (?k2\<lparr>ses := f\<rparr>)" "\<forall>c. priority (f c) = priority (ses ?k2 c)"
    using update_alone [OF p(1) nz(1) node_addr_nz [OF nz(2)] p(2)] by blast
  let ?k3 = "?k2\<lparr>ses := f\<rparr>"
  let ?g = "rq_goleft ?k3 (jiffies_vruntime (ses ?k3 (se_of ?t)))"
  have q: "rq_rbs ?k3 = rq_rbs ?k2" "root (rq_rbs ?k2) = 0" "rq ?k3 = rq ?k2" using p(4) by (simp_all add: rq_rbs_def)
  have "cq_holds (rq_rbs ?k3) 0 []" by (rule cq_holds_empty) (simp_all add: q)
  from cq_insert_holds [OF this nz(2), of ?g]
  obtain s lm where c: "cq_insert ?g (task_node ?t) (rq_rbs ?k3) 0 = Some (s, lm)" "cq_holds s lm [task_node ?t]"
    by auto
  have "cq_insert ?g (task_node ?t) (rq_rbs ?k3) (rb_leftmost_se (rq ?k3)) = Some (s, lm)"
    using c(1) by (subst cq_insert_empty) (simp_all add: q)
  then have en: "enqueue_se (se_of ?t) ?k3 = Some (put_rq s lm ?k3)"
    by (simp add: enqueue_se_def task_node_def)
  let ?k4 = "rq_unlock (put_rq s lm ?k3)"
  have lk: "rq_lock (set_state ?t TASK_RUNNING (add_priority (se_of ?t) ?k1)) = Some ?k2"
    using f by (simp add: rq_lock_def fresh_kernel_def add_priority_def init_rb_of_se_def LOCKED_def UNLOCKED_def)
  have run: "enqueue_se_to_runq (se_of ?t) ?k1 = Some ?k4"
    by (simp only: enqueue_se_to_runq_def Let_def offsets(1) r1 lk f'(1) en Option.bind_lunit)
  let ?k' = "?k4\<lparr>rq := (rq ?k4)\<lparr>cfs_task_num := cfs_task_num (rq ?k4) + 1\<rparr>\<rparr>"
  have "init_rq k = Some ?k'" using mm(1) run i(1) by (simp add: init_rq_def task_node_def Let_def)
  moreover have "?k' = k\<lparr>kmm := kmm ?k', runq := runq ?k', rq := rq ?k', rbmem := rbmem ?k', ses := ses ?k', tasks := tasks ?k'\<rparr>"
    using f by (simp add: rq_unlock_def put_rq_def set_state_def upd_task_def add_priority_def init_rb_of_se_def
        fresh_kernel_def)
  moreover have "cfs_task_num (rq ?k') = 1"
    by (simp add: rq_unlock_def put_rq_def set_state_def upd_task_def add_priority_def init_rb_of_se_def)
  moreover have "sys_inv ?k' (Suc n) [task_node ?t] [] [?t] []"
  proof -
    have e: "rq_rbs ?k' = s" "rb_leftmost_se (rq ?k') = lm" "rqlock ?k' = UNLOCKED" "ses ?k' = f"
      "wq ?k' = wq ?k2" "waitq ?k' = waitq ?k2" "lheads ?k' = lheads ?k2" "priority_sum (rq ?k') = priority_sum (rq ?k2)"
      "runq ?k' = heap_addr n" "tasks ?k' = tasks ?k2" "tstate (tasks ?k2 ?t) = TASK_RUNNING"
      "kmm ?k' = mm" "troot ?k' = troot k" "first_task ?k' = first_task k" "last_task ?k' = last_task k"
      by (simp_all add: rq_unlock_def put_rq_def rq_rbs_def add_priority_def init_rb_of_se_def set_state_def upd_task_def)
    have "wq_holds ?k' []" by (rule wq_holds_cong [OF w(1)]) (simp_all only: e p)
    then have "sched_inv ?k' [task_node ?t] []"
    proof (rule sched_inv_first)
      show "cq_holds (rq_rbs ?k') (rb_leftmost_se (rq ?k')) [task_node ?t]" unfolding e by (rule c(2))
      show "priority_sum (rq ?k') = priority (ses ?k' (se_of ?t))"
        unfolding e(4,8) p(5) using f'(2) by (simp only: p(3))
    qed (simp_all only: e nz not_False_eq_True)
    moreover have "task_ring ?k' [?t]" by (rule task_ring_cong [OF i(3)]) (simp_all only: e p)
    moreover have "tr_holds ?k' []"
      using f unfolding tr_holds_def by (intro cq_holds_empty) (simp_all add: tr_rbs_def e fresh_kernel_def)
    moreover have "kheap ?k' (Suc n)" using mm(2) by (simp add: kheap_def e)
    moreover have "wq ?k' = heap_addr w" by (simp only: e p w(2))
    ultimately show ?thesis
      unfolding sys_inv_def using n i(2) w(3) by (intro conjI exI [of _ w]) auto
  qed
  ultimately show ?thesis by blast
qed

section \<open>The other steps\<close>

lemma init_shell_sys:
  assumes inv: "sys_inv k n xs ws ts ys" and n: "n < 256" and room: "task_created_num k \<noteq> MAX_TASK"
  shows "\<exists>k' xs1 xs2. init_shell fns lr k = Some k' \<and> xs = xs1 @ xs2
    \<and> sys_inv k' (Suc n) (xs1 @ task_node (heap_addr n) # xs2) ws (ts @ [heap_addr n]) ys
    \<and> cfs_task_num (rq k') = cfs_task_num (rq k) + 1
    \<and> k' = k\<lparr>kmm := kmm k', tasks := tasks k', ses := ses k', lheads := lheads k', last_task := heap_addr n,
         task_created_num := task_created_num k + 1, next_pid := next_pid k', rbmem := rbmem k', rq := rq k',
         waitq := waitq k'\<rparr>"
proof -
  let ?t = "heap_addr n"
  obtain k1 where k1: "forkyi ''shell'' (fns ''shell'') CFS_TASK 2 lr k = Some (?t, k1)"
    "sys_inv k1 (Suc n) xs ws (ts @ [?t]) ys"
    "k1 = k\<lparr>kmm := kmm k1, tasks := tasks k1, ses := ses k1, lheads := lheads k1, last_task := ?t,
       task_created_num := task_created_num k + 1, next_pid := next_pid k1\<rparr>"
    using forkyi_sys [OF inv n _ room, of 2 "''shell''" "fns ''shell''" lr] by auto
  have new: "?t \<notin> set ws" "task_node ?t \<notin> set xs" using inv n by (force simp: sys_inv_def)+
  obtain k3 k' xs1 xs2 where k3: "enqueue_se_to_runq (se_of ?t) (init_rb_of_se (se_of ?t) k1) = Some k3"
    "k' = count_cfs_task k3" "xs = xs1 @ xs2" "sys_inv k' (Suc n) (xs1 @ task_node ?t # xs2) ws (ts @ [?t]) ys"
    "k' = k1\<lparr>ses := ses k', rbmem := rbmem k', rq := rq k', waitq := waitq k', tasks := tasks k', lheads := lheads k'\<rparr>"
    "cfs_task_num (rq k') = cfs_task_num (rq k1) + 1"
    using queue_new_task [OF k1(2) _ new] by auto
  have "init_shell fns lr k = Some k'" using k1(1) k3(1,2) by (simp add: init_shell_def)
  moreover have "k' = k\<lparr>kmm := kmm k', tasks := tasks k', ses := ses k', lheads := lheads k', last_task := ?t,
      task_created_num := task_created_num k + 1, next_pid := next_pid k', rbmem := rbmem k', rq := rq k',
      waitq := waitq k'\<rparr>"
    by (rule cpu.equality; simp; subst k3(5), simp; subst k1(3), simp)
  moreover have "rq k1 = rq k" by (subst k1(3)) simp
  then have "cfs_task_num (rq k') = cfs_task_num (rq k) + 1" using k3(6) by simp
  ultimately show ?thesis using k3(3,4) by blast
qed

lemma init_timertree_sys:
  assumes inv: "sys_inv k n xs ws ts []" and n: "Suc n < 256" and dev: "dev \<noteq> 0"
  shows "\<exists>k'. init_timertree dev k = Some (NO_ERR, k') \<and> sys_inv k' (Suc (Suc n)) xs ws ts []
    \<and> k' = k\<lparr>kmm := kmm k', ptroot := ptroot k', csd := csd k', csd_dev := dev, troot := \<lparr>tr_root = 0, tr_leftmost = 0\<rparr>\<rparr>"
proof -
  obtain m1 where m1: "kalloc SIZEOF_timer_root k = Some (heap_addr n, k\<lparr>kmm := m1\<rparr>)" "sys_inv (k\<lparr>kmm := m1\<rparr>) (Suc n) xs ws ts []"
    using kalloc_sys [OF inv, of SIZEOF_timer_root] n by (auto simp: SIZEOF_timer_root_def)
  let ?k1 = "k\<lparr>kmm := m1, ptroot := heap_addr n\<rparr>"
  have "sys_inv ?k1 (Suc n) xs ws ts []" using m1(2) by simp
  from kalloc_sys [OF this n, of SIZEOF_clock_source] obtain m2 where
    m2: "kalloc SIZEOF_clock_source ?k1 = Some (heap_addr (Suc n), ?k1\<lparr>kmm := m2\<rparr>)" "sys_inv (?k1\<lparr>kmm := m2\<rparr>) (Suc (Suc n)) xs ws ts []"
    by (auto simp: SIZEOF_clock_source_def)
  let ?k' = "?k1\<lparr>kmm := m2, csd := heap_addr (Suc n), csd_dev := dev, troot := \<lparr>tr_root = 0, tr_leftmost = 0\<rparr>\<rparr>"
  have "tr_holds ?k' []" unfolding tr_holds_def by (rule cq_holds_empty) (simp_all add: tr_rbs_def)
  then have "sys_inv ?k' (Suc (Suc n)) xs ws ts []"
    using m2(2) by (simp add: sys_inv_def sched_inv_def rq_holds_def wq_holds_def rq_rbs_def kheap_def task_ring_def)
  moreover have "init_timertree dev k = Some (NO_ERR, ?k')"
    using m1(1) m2(1) dev by (simp add: init_timertree_def)
  ultimately show ?thesis by (intro exI [of _ ?k']) simp
qed

lemma for_upto_timers:
  "\<exists>ts. for_upto j (\<lambda>i. set_timer (f i) 0 NO_HANDLER ONESHOT_TIMER 0 0) k = k\<lparr>timers := ts\<rparr>"
proof (induction j)
  case 0
  then show ?case by (intro exI [of _ "timers k"]) simp
qed (auto simp: set_timer_def)

lemma init_oneshot_timers_sys:
  assumes inv: "sys_inv k n xs ws ts ys" and n: "n < 256"
  shows "\<exists>k'. init_oneshot_timers k = Some k' \<and> sys_inv k' (Suc n) xs ws ts ys
    \<and> k' = k\<lparr>kmm := kmm k', oneshot_timer := heap_addr n, oneshot_timer_idx := 0, timers := timers k'\<rparr>"
proof -
  obtain m1 where m1: "kalloc (SIZEOF_timer_struct * of_nat MAX_ONESHOT_TIMER_NUM) k = Some (heap_addr n, k\<lparr>kmm := m1\<rparr>)"
    "sys_inv (k\<lparr>kmm := m1\<rparr>) (Suc n) xs ws ts ys"
    using kalloc_sys [OF inv n, of "SIZEOF_timer_struct * of_nat MAX_ONESHOT_TIMER_NUM"]
    by (auto simp: SIZEOF_timer_struct_def MAX_ONESHOT_TIMER_NUM_def)
  obtain t where t: "for_upto MAX_ONESHOT_TIMER_NUM
      (\<lambda>i. set_timer (heap_addr n + SIZEOF_timer_struct * of_nat i) 0 NO_HANDLER ONESHOT_TIMER 0 0)
      (k\<lparr>kmm := m1, oneshot_timer := heap_addr n, oneshot_timer_idx := 0\<rparr>)
    = k\<lparr>kmm := m1, oneshot_timer := heap_addr n, oneshot_timer_idx := 0, timers := t\<rparr>"
    using for_upto_timers [of MAX_ONESHOT_TIMER_NUM "\<lambda>i. heap_addr n + SIZEOF_timer_struct * of_nat i"
        "k\<lparr>kmm := m1, oneshot_timer := heap_addr n, oneshot_timer_idx := 0\<rparr>"] by (rule exE)
  then have "init_oneshot_timers k = Some (k\<lparr>kmm := m1, oneshot_timer := heap_addr n, oneshot_timer_idx := 0, timers := t\<rparr>)"
    using m1(1) by (simp add: init_oneshot_timers_def)
  then show ?thesis using m1(2)
    by (intro exI [of _ "k\<lparr>kmm := m1, oneshot_timer := heap_addr n, oneshot_timer_idx := 0, timers := t\<rparr>"]) simp
qed

lemma get_ticks_ok: "\<exists>hz. get_ticks_per_sec k = (hz, k\<lparr>ticks_per_sec := hz\<rparr>)"
  by (cases "ticks_per_sec k = 0") (auto simp: get_ticks_per_sec_def)

lemma init_cfs_scheduler_sys:
  assumes inv: "sys_inv k n xs ws ts []" and n: "n < 256" and root: "tr_root (troot k) = 0"
  shows "\<exists>k'. init_cfs_scheduler k = Some k' \<and> sys_inv k' (Suc n) xs ws ts [timer_node (heap_addr n)]
    \<and> tr_leftmost (troot k') = timer_node (heap_addr n)
    \<and> timer_struct.handler (timers k' (heap_addr n)) = CFS_SCHEDULER \<and> timer_kind (timers k' (heap_addr n)) = SCHED_TIMER
    \<and> k' = k\<lparr>kmm := kmm k', sched_timer := heap_addr n, ticks_per_sec := ticks_per_sec k', timers := timers k',
         rbmem := rbmem k', troot := troot k', jiffies := 0\<rparr>"
proof -
  let ?t = "heap_addr n"
  obtain m1 where m1: "kalloc SIZEOF_timer_struct k = Some (?t, k\<lparr>kmm := m1\<rparr>)" "sys_inv (k\<lparr>kmm := m1\<rparr>) (Suc n) xs ws ts []"
    using kalloc_sys [OF inv n, of SIZEOF_timer_struct] by (auto simp: SIZEOF_timer_struct_def)
  let ?k1 = "k\<lparr>kmm := m1, sched_timer := ?t\<rparr>"
  obtain hz where hz: "get_ticks_per_sec ?k1 = (hz, ?k1\<lparr>ticks_per_sec := hz\<rparr>)"
    using get_ticks_ok [of ?k1] by (rule exE)
  let ?k2 = "?k1\<lparr>ticks_per_sec := hz\<rparr>"
  let ?k3 = "set_timer ?t (current k) CFS_SCHEDULER SCHED_TIMER (hz div 1000 * 10) 0 ?k2"
  have k3: "?k3 = k\<lparr>kmm := m1, sched_timer := ?t, ticks_per_sec := hz, timers := timers ?k3\<rparr>"
    by (simp add: set_timer_def)
  have s3: "sys_inv ?k3 (Suc n) xs ws ts []" by (subst k3) (use m1(2) in simp)
  then have t3: "tr_holds ?k3 []" by (simp add: sys_inv_def)
  have na: "node_addr (timer_node ?t)" using n by simp
  obtain s lm where I: "insert_timer ?t ?k3 = Some (put_tr s lm ?k3)" "tr_holds (put_tr s lm ?k3) [timer_node ?t]"
    "\<forall>a. a \<noteq> timer_node ?t \<longrightarrow> nodes s a = rbmem ?k3 a"
    using insert_timer_holds [OF t3 na] by auto
  let ?k4 = "put_tr s lm ?k3"
  have run: "init_cfs_scheduler k = Some (?k4\<lparr>jiffies := 0\<rparr>)"
    using m1(1) hz root I(1) by (simp add: init_cfs_scheduler_def create_sched_timer_def init_jiffies_def)
  have f: "timer_node ?t \<notin> task_node ` heap_addr ` {..<256}" using n by auto
  have "set xs \<subseteq> task_node ` heap_addr ` {..<256}" using inv by (fastforce simp: sys_inv_def)
  then have "\<forall>a \<in> set xs. a \<noteq> timer_node ?t" using f by blast
  then have x: "a \<in> set xs \<Longrightarrow> nodes s a = rbmem ?k3 a" for a using I(3) by blast
  have si: "sched_inv ?k3 xs ws" "task_ring ?k3 ts" using s3 by (simp_all add: sys_inv_def)
  have "sched_inv ?k4 xs ws" by (rule sched_inv_agree [OF si(1)]) (simp_all add: put_tr_def x)
  moreover have "task_ring ?k4 ts" by (rule task_ring_cong [OF si(2)]) (simp_all add: put_tr_def)
  ultimately have "sys_inv ?k4 (Suc n) xs ws ts [timer_node ?t]"
    using s3 I(2) f by (simp add: sys_inv_def) (simp add: put_tr_def kheap_def)
  moreover have "lm = timer_node ?t" using I(2) by (auto simp: tr_holds_def cq_holds_def)
  ultimately show ?thesis
    using run by (intro exI [of _ "?k4\<lparr>jiffies := 0\<rparr>"]) (simp add: put_tr_def set_timer_def)
qed

section \<open>The devices\<close>

definition only_regs :: "cpu \<Rightarrow> cpu \<Rightarrow> bool" where
  "only_regs k k' \<longleftrightarrow> (\<exists>r. k' = k\<lparr>regs := r\<rparr>)"

lemma only_regs_intros [intro]:
  "only_regs k k"
  "only_regs k k1 \<Longrightarrow> only_regs k (write32 a v k1)"
  "only_regs k k1 \<Longrightarrow> only_regs k (for_upto j (\<lambda>i. write32 (f i) v) k1)"
  "only_regs k k1 \<Longrightarrow> only_regs k (write_set_enable a v k1)"
  "only_regs k k1 \<Longrightarrow> only_regs k (write_clear_enable a v k1)"
proof -
  show "only_regs k k" unfolding only_regs_def by (rule exI [of _ "regs k"]) simp
  show w: "only_regs k (write32 a v k1)" if "only_regs k k1" for a v k1
    using that by (auto simp: only_regs_def write32_regs)
  show "only_regs k (for_upto j (\<lambda>i. write32 (f i) v) k1)" if "only_regs k k1"
    by (induction j) (simp_all add: that w)
  show "only_regs k (write_set_enable a v k1)" "only_regs k (write_clear_enable a v k1)" if "only_regs k k1"
    unfolding write_set_enable_def write_clear_enable_def by (rule w [OF that])+
qed

lemma init_gic_regs:
  obtains r where "init_gic dt (Some d) k = (NO_ERR, Some (d\<lparr>base_addr := dt_base dt\<rparr>), k\<lparr>regs := r\<rparr>)"
proof -
  let ?d = "d\<lparr>base_addr := dt_base dt\<rparr>"
  have "only_regs k (snd (init_gic_dist (Some ?d) k))"
    unfolding init_gic_dist_def Let_def option.case snd_conv by (intro only_regs_intros)
  then have "only_regs k (snd (init_gic_cpu (Some ?d) (snd (init_gic_dist (Some ?d) k))))"
    unfolding init_gic_cpu_def option.case snd_conv by (intro only_regs_intros)
  then obtain r where "snd (init_gic_cpu (Some ?d) (snd (init_gic_dist (Some ?d) k))) = k\<lparr>regs := r\<rparr>"
    by (auto simp: only_regs_def)
  then show thesis by (intro that) (simp add: init_gic_def split_beta)
qed

lemma register_irq_ok:
  assumes "uint (dev_irq d) < NUM_IRQS"
  shows "\<exists>r. register_irq p d h g k = Some (NO_ERR, g\<lparr>gic.handler := (gic.handler g)(unat (cpuid k) :=
      (gic.handler g (unat (cpuid k)))(unat (dev_irq d) := \<lparr>h_func = h, h_arg = p\<rparr>))\<rparr>, k\<lparr>regs := r\<rparr>)"
  using assms
  by (auto simp: register_irq_def gic_register_int_handler_def gic_enable_interrupt_def route_spi_def write_set_enable_def
      write32_regs Let_def nat_uint_eq)

lemma boot_devices_fresh:
  assumes "e_heap_start env = 0xC4000000" and "e_heap_end env = 0xC8000000"
    and "pgmem (mm_mmu (mm_vms (kmm (m_cpu m)))) = init_pgt mem"
    and "rqlock (m_cpu m) = UNLOCKED" and "troot (m_cpu m) = \<lparr>tr_root = 0, tr_leftmost = 0\<rparr>"
  shows "fresh_kernel (m_cpu (boot_devices env m)) 1" and "cpuid (m_cpu (boot_devices env m)) = cpuid (m_cpu m)"
    and "timer_dev (boot_devices env m) = timer_dev m" and "dma_dev (boot_devices env m) = dma_dev m"
proof -
  let ?k = "m_cpu m"
  obtain r0 where c: "\<And>u. configure_uart u ?k = (NO_ERR, ?k\<lparr>regs := r0 u\<rparr>)"
    unfolding configure_uart_def by (simp add: write32_regs)
  let ?mm = "init_kernmem (e_framepool env) (e_pgt env) (e_kheap env) 0xC4000000 0xC8000000 (kmm ?k)"
  obtain ru u where u: "init_uart (e_dt env ''uart'') (uart_dev m) = (ru, u)" by (rule prod.exhaust)
  let ?k1 = "?k\<lparr>regs := r0 u, kmm := ?mm\<rparr>"
  obtain r where r: "init_gic (e_dt env ''gic'') (Some (gic_dev (m_gic m))) ?k1
    = (NO_ERR, Some ((gic_dev (m_gic m))\<lparr>base_addr := dt_base (e_dt env ''gic'')\<rparr>), ?k1\<lparr>regs := r\<rparr>)"
    by (rule init_gic_regs)
  have mm: "kmm (?k\<lparr>regs := r0 u\<rparr>) = kmm ?k" by simp
  have e: "m_cpu (boot_devices env m) = ?k1\<lparr>regs := r\<rparr>" "timer_dev (boot_devices env m) = timer_dev m"
    "dma_dev (boot_devices env m) = dma_dev m"
    unfolding boot_devices_def assms(1,2) Let_def u c split mm r by simp_all
  let ?st = "kmm ?k"
  have st: "?st = ?st\<lparr>mm_vms := (mm_vms ?st)\<lparr>mm_mmu := (mm_mmu (mm_vms ?st))\<lparr>pgmem := init_pgt mem\<rparr>\<rparr>\<rparr>"
    using assms(3) by simp
  have "kheap (?k1\<lparr>regs := r\<rparr>) 1"
    using init_kernmem_heap [where st = ?st and m = mem and kfp = "e_framepool env" and pgt = "e_pgt env" and kheap = "e_kheap env", folded st]
    by (simp add: kheap_def Let_def)
  then show "fresh_kernel (m_cpu (boot_devices env m)) 1" using assms(4,5) by (simp add: e fresh_kernel_def)
  show "cpuid (m_cpu (boot_devices env m)) = cpuid (m_cpu m)" "timer_dev (boot_devices env m) = timer_dev m"
    "dma_dev (boot_devices env m) = dma_dev m" by (simp_all add: e)
qed

section \<open>The kernel is running\<close>

lemma create_workq_worker_sys:
  assumes inv: "sys_inv k n xs ws ts ys" and n: "Suc n < 256" and room: "task_created_num k \<noteq> MAX_TASK"
    and name: "length (''workq_worker:'' @ rev (hex_loop (cpuid k) []) @ junk) < 32"
  shows "\<exists>k' xs1 xs2. create_workq_worker fns lr junk k = Some k' \<and> xs = xs1 @ xs2
    \<and> sys_inv k' (Suc (Suc n)) (xs1 @ task_node (heap_addr (Suc n)) # xs2) ws (ts @ [heap_addr (Suc n)]) ys
    \<and> cfs_task_num (rq k') = cfs_task_num (rq k) + 1 \<and> workq_items (work k') = []
    \<and> k' = k\<lparr>kmm := kmm k', tasks := tasks k', ses := ses k', lheads := lheads k', last_task := heap_addr (Suc n),
         task_created_num := task_created_num k + 1, next_pid := next_pid k', rbmem := rbmem k', rq := rq k',
         waitq := waitq k', qworker := heap_addr n,
         work := (work k)\<lparr>enq_idx := 0, deq_idx := 0, wtask := heap_addr (Suc n)\<rparr>\<rparr>"
proof -
  obtain m1 where m1: "kalloc SIZEOF_worker k = Some (heap_addr n, k\<lparr>kmm := m1\<rparr>)" "sys_inv (k\<lparr>kmm := m1\<rparr>) (Suc n) xs ws ts ys"
    using kalloc_sys [OF inv, of SIZEOF_worker] n by (auto simp: SIZEOF_worker_def)
  let ?k1 = "k\<lparr>kmm := m1, qworker := heap_addr n, work := (work k)\<lparr>enq_idx := 0, deq_idx := 0\<rparr>\<rparr>"
  let ?nm = "''workq_worker:'' @ rev (hex_loop (cpuid k) []) @ junk"
  have "sys_inv ?k1 (Suc n) xs ws ts ys" "task_created_num ?k1 \<noteq> MAX_TASK" using m1(2) room by simp_all
  from create_cfs_task_sys [OF this(1) n _ this(2) name, of 4 "fns ''workq_worker''" 0 lr]
  obtain k2 xs1 xs2 where k2: "create_cfs_task ?nm (fns ''workq_worker'') 4 0 lr ?k1 = Some (heap_addr (Suc n), k2)"
    "xs = xs1 @ xs2" "sys_inv k2 (Suc (Suc n)) (xs1 @ task_node (heap_addr (Suc n)) # xs2) ws (ts @ [heap_addr (Suc n)]) ys"
    "cfs_task_num (rq k2) = cfs_task_num (rq ?k1) + 1"
    "k2 = ?k1\<lparr>kmm := kmm k2, tasks := tasks k2, ses := ses k2, lheads := lheads k2, last_task := heap_addr (Suc n),
       task_created_num := task_created_num ?k1 + 1, next_pid := next_pid k2, rbmem := rbmem k2, rq := rq k2,
       waitq := waitq k2\<rparr>"
    by auto
  let ?k' = "k2\<lparr>work := (work k2)\<lparr>wtask := heap_addr (Suc n)\<rparr>\<rparr>"
  have "create_workq_worker fns lr junk k = Some ?k'"
    using m1(1) k2(1) by (simp add: create_workq_worker_def)
  moreover have w: "work k2 = (work k)\<lparr>enq_idx := 0, deq_idx := 0\<rparr>" by (subst k2(5)) simp
  moreover have "?k' = k\<lparr>kmm := kmm ?k', tasks := tasks ?k', ses := ses ?k', lheads := lheads ?k', last_task := heap_addr (Suc n),
      task_created_num := task_created_num k + 1, next_pid := next_pid ?k', rbmem := rbmem ?k', rq := rq ?k',
      waitq := waitq ?k', qworker := heap_addr n, work := (work k)\<lparr>enq_idx := 0, deq_idx := 0, wtask := heap_addr (Suc n)\<rparr>\<rparr>"
    by (rule cpu.equality; simp add: w; subst k2(5), simp)
  moreover have "workq_items (work ?k') = []" by (simp add: w workq_items_def MAX_WORKQ_def)
  moreover have "sys_inv ?k' (Suc (Suc n)) (xs1 @ task_node (heap_addr (Suc n)) # xs2) ws (ts @ [heap_addr (Suc n)]) ys"
    using k2(3) by simp
  moreover have "cfs_task_num (rq ?k') = cfs_task_num (rq k) + 1" using k2(4) by simp
  ultimately show ?thesis using k2(2) by blast
qed

lemma on_cpu_Some: "f (m_cpu m) = Some k \<Longrightarrow> on_cpu f m = Some (m\<lparr>m_cpu := k\<rparr>)"
  by (simp add: on_cpu_def)

lemma hex_zero: "length (rev (hex_loop 0 [])) = 1"
  by (simp add: hex_loop.simps Let_def)

text \<open>The scheduler, from the first task on: what the calls between the memory and the devices establish.\<close>

lemma scheduler_starts:
  assumes f: "fresh_kernel k 1" and dev: "dev \<noteq> 0"
  shows "\<exists>k1 k2 k3 k4 k5 k6 k7 xs. init_idletask k = Some k1 \<and> init_wq k1 = Some k2 \<and> init_rq k2 = Some k3
    \<and> init_shell fns lr k3 = Some k4 \<and> init_timertree dev k4 = Some (NO_ERR, k5) \<and> init_oneshot_timers k5 = Some k6
    \<and> init_cfs_scheduler k6 = Some k7
    \<and> sys_inv k7 9 xs [] [heap_addr 1, heap_addr 4] [timer_node (heap_addr 8)]
    \<and> mset xs = {#task_node (heap_addr 1), task_node (heap_addr 4)#}
    \<and> cfs_task_num (rq k7) = 2 \<and> task_created_num k7 = 2 \<and> current k7 = heap_addr 1 \<and> idle_task k7 = heap_addr 1
    \<and> sched_timer k7 = heap_addr 8 \<and> tr_leftmost (troot k7) = timer_node (heap_addr 8)
    \<and> timer_struct.handler (timers k7 (heap_addr 8)) = CFS_SCHEDULER \<and> timer_kind (timers k7 (heap_addr 8)) = SCHED_TIMER
    \<and> cpuid k7 = cpuid k"
proof -
  obtain k1 where k1: "init_idletask k = Some k1" "fresh_kernel k1 2" "task_ring k1 [heap_addr 1]"
    "idle_task k1 = heap_addr 1" "current k1 = heap_addr 1" "task_created_num k1 = 1" "cpuid k1 = cpuid k"
    using init_idletask_runs [OF f] by (auto simp: numeral_2_eq_2)
  obtain k2 where k2: "init_wq k1 = Some k2" "fresh_kernel k2 3" "wq k2 = heap_addr 2" "wq_holds k2 []" "task_ring k2 [heap_addr 1]"
    "k2 = k1\<lparr>kmm := kmm k2, wq := wq k2, waitq := waitq k2, lheads := lheads k2\<rparr>"
    using init_wq_runs [OF k1(2)] k1(3) by (auto simp: numeral_3_eq_3 numeral_2_eq_2)
  have e2: "idle_task k2 = heap_addr 1" "current k2 = heap_addr 1" "task_created_num k2 = 1" "cpuid k2 = cpuid k"
    by (subst k2(6), simp add: k1)+
  obtain k3 where k3: "init_rq k2 = Some k3" "sys_inv k3 4 [task_node (heap_addr 1)] [] [heap_addr 1] []" "cfs_task_num (rq k3) = 1"
    "k3 = k2\<lparr>kmm := kmm k3, runq := runq k3, rq := rq k3, rbmem := rbmem k3, ses := ses k3, tasks := tasks k3\<rparr>"
    using init_rq_runs [OF k2(2) _ k2(4,3) _ e2(1) _ k2(5)] by auto
  have e3: "idle_task k3 = heap_addr 1" "current k3 = heap_addr 1" "task_created_num k3 = 1" "cpuid k3 = cpuid k"
    by (subst k3(4), simp add: e2)+
  have r3: "task_created_num k3 \<noteq> MAX_TASK"
    by (simp add: e3 MAX_TASK_def SVC_STACK_BASE_def SYS_STACK_BASE_def TASK_STACK_GAP_def)
  obtain k4 xs1 xs2 where k4: "init_shell fns lr k3 = Some k4" "[task_node (heap_addr 1)] = xs1 @ xs2"
    "sys_inv k4 5 (xs1 @ task_node (heap_addr 4) # xs2) [] [heap_addr 1, heap_addr 4] []" "cfs_task_num (rq k4) = 2"
    "k4 = k3\<lparr>kmm := kmm k4, tasks := tasks k4, ses := ses k4, lheads := lheads k4, last_task := heap_addr 4,
         task_created_num := task_created_num k3 + 1, next_pid := next_pid k4, rbmem := rbmem k4, rq := rq k4,
         waitq := waitq k4\<rparr>"
    using init_shell_sys [OF k3(2) _ r3, of fns lr] k3(3) by auto
  have e4: "idle_task k4 = heap_addr 1" "current k4 = heap_addr 1" "task_created_num k4 = 2" "cpuid k4 = cpuid k"
    by (subst k4(5), simp add: e3)+
  obtain k5 where k5: "init_timertree dev k4 = Some (NO_ERR, k5)"
    "sys_inv k5 7 (xs1 @ task_node (heap_addr 4) # xs2) [] [heap_addr 1, heap_addr 4] []"
    "k5 = k4\<lparr>kmm := kmm k5, ptroot := ptroot k5, csd := csd k5, csd_dev := dev, troot := \<lparr>tr_root = 0, tr_leftmost = 0\<rparr>\<rparr>"
    using init_timertree_sys [OF k4(3) _ dev] by auto
  have e5: "idle_task k5 = heap_addr 1" "current k5 = heap_addr 1" "task_created_num k5 = 2" "cpuid k5 = cpuid k"
    "cfs_task_num (rq k5) = 2" "tr_root (troot k5) = 0"
    by (subst k5(3), simp add: e4 k4(4))+
  obtain k6 where k6: "init_oneshot_timers k5 = Some k6"
    "sys_inv k6 8 (xs1 @ task_node (heap_addr 4) # xs2) [] [heap_addr 1, heap_addr 4] []"
    "k6 = k5\<lparr>kmm := kmm k6, oneshot_timer := heap_addr 7, oneshot_timer_idx := 0, timers := timers k6\<rparr>"
    using init_oneshot_timers_sys [OF k5(2)] by auto
  have e6: "idle_task k6 = heap_addr 1" "current k6 = heap_addr 1" "task_created_num k6 = 2" "cpuid k6 = cpuid k"
    "cfs_task_num (rq k6) = 2" "tr_root (troot k6) = 0"
    by (subst k6(3), simp add: e5)+
  obtain k7 where k7: "init_cfs_scheduler k6 = Some k7"
    "sys_inv k7 9 (xs1 @ task_node (heap_addr 4) # xs2) [] [heap_addr 1, heap_addr 4] [timer_node (heap_addr 8)]"
    "tr_leftmost (troot k7) = timer_node (heap_addr 8)"
    "timer_struct.handler (timers k7 (heap_addr 8)) = CFS_SCHEDULER" "timer_kind (timers k7 (heap_addr 8)) = SCHED_TIMER"
    "k7 = k6\<lparr>kmm := kmm k7, sched_timer := heap_addr 8, ticks_per_sec := ticks_per_sec k7, timers := timers k7,
         rbmem := rbmem k7, troot := troot k7, jiffies := 0\<rparr>"
    using init_cfs_scheduler_sys [OF k6(2) _ e6(6)] by auto
  have e7: "idle_task k7 = heap_addr 1" "current k7 = heap_addr 1" "task_created_num k7 = 2" "cpuid k7 = cpuid k"
    "cfs_task_num (rq k7) = 2" "sched_timer k7 = heap_addr 8"
    by (subst k7(6), simp add: e6)+
  have "mset (xs1 @ task_node (heap_addr 4) # xs2) = add_mset (task_node (heap_addr 4)) (mset (xs1 @ xs2))" by simp
  then have "mset (xs1 @ task_node (heap_addr 4) # xs2) = {#task_node (heap_addr 1), task_node (heap_addr 4)#}"
    by (simp only: k4(2) [symmetric]) simp
  then show ?thesis
    using k1(1) k2(1) k3(1) k4(1) k5(1) k6(1) k7(1-5) e7 by blast
qed

lemma init_timer_ok:
  assumes "tr_leftmost (troot k) = timer_node t"
  shows "\<exists>r. init_timer dt (Some d) k = (NO_ERR, Some (d\<lparr>dev_name := dt_compat dt, base_addr := dt_base dt, dev_irq := dt_irq dt,
      dev_data := 0\<rparr>), k\<lparr>ticks_per_sec := dt_clk dt, timers := (timers k)(t := (timers k t)\<lparr>timer_pt := current k\<rparr>), regs := r\<rparr>)"
  using assms by (simp add: init_timer_def write32_regs upd_timer_def Let_def) (rule exI, rule refl)

lemma start_cpu1_regs: "\<exists>r. start_cpu1 a k = k\<lparr>regs := r\<rparr>"
  unfolding only_regs_def [symmetric] start_cpu1_def Let_def by (intro only_regs_intros)

lemma timer_enable_regs: "\<exists>r. snd (timer_enable (Some d) k) = k\<lparr>regs := r\<rparr>"
  unfolding only_regs_def [symmetric] timer_enable_def Let_def option.case snd_conv by (intro only_regs_intros)

lemma boot_dma_ok:
  assumes "uint (dt_irq (e_dt env ''dma'')) < NUM_IRQS"
  shows "\<exists>d r. boot_dma env m = Some (m\<lparr>dma_dev := d, m_gic := (m_gic m)\<lparr>gic.handler := (gic.handler (m_gic m))(unat (cpuid (m_cpu m)) :=
        (gic.handler (m_gic m) (unat (cpuid (m_cpu m))))(unat (dt_irq (e_dt env ''dma'')) :=
          \<lparr>h_func = e_fns env ''dma_irq'', h_arg = e_dev env ''dma''\<rparr>))\<rparr>, m_cpu := (m_cpu m)\<lparr>regs := r\<rparr>\<rparr>)"
proof -
  let ?dt = "e_dt env ''dma''"
  let ?d = "(dma_dev m)\<lparr>dev_name := dt_compat ?dt, base_addr := dt_base ?dt, dev_irq := dt_irq ?dt, dev_data := 0\<rparr>"
  obtain r where r: "init_dma ?dt (Some (dma_dev m)) (m_cpu m) = (NO_ERR, Some ?d, (m_cpu m)\<lparr>regs := r\<rparr>)"
    by (simp add: init_dma_def write32_regs Let_def)
  have "uint (dev_irq ?d) < NUM_IRQS" using assms by simp
  from register_irq_ok [OF this, of "e_dev env ''dma''" "e_fns env ''dma_irq''" "m_gic m" "(m_cpu m)\<lparr>regs := r\<rparr>"]
  obtain r1 where "register_irq (e_dev env ''dma'') ?d (e_fns env ''dma_irq'') (m_gic m) ((m_cpu m)\<lparr>regs := r\<rparr>)
    = Some (NO_ERR, (m_gic m)\<lparr>gic.handler := (gic.handler (m_gic m))(unat (cpuid (m_cpu m)) :=
        (gic.handler (m_gic m) (unat (cpuid (m_cpu m))))(unat (dt_irq ?dt) :=
          \<lparr>h_func = e_fns env ''dma_irq'', h_arg = e_dev env ''dma''\<rparr>))\<rparr>, (m_cpu m)\<lparr>regs := r1\<rparr>)"
    by auto
  then show ?thesis using r by (intro exI [of _ ?d] exI [of _ r1]) (simp add: boot_dma_def)
qed

lemma register_timer_ok:
  assumes "uint (dev_irq (timer_dev m)) < NUM_IRQS"
  shows "\<exists>r. register_timer env m = Some (m\<lparr>m_gic := (m_gic m)\<lparr>gic.handler := (gic.handler (m_gic m))(unat (cpuid (m_cpu m)) :=
        (gic.handler (m_gic m) (unat (cpuid (m_cpu m))))(unat (dev_irq (timer_dev m)) :=
          \<lparr>h_func = e_fns env ''timer_irq'', h_arg = e_dev env ''timer''\<rparr>))\<rparr>, m_cpu := (m_cpu m)\<lparr>regs := r\<rparr>\<rparr>)"
  using register_irq_ok [OF assms, of "e_dev env ''timer''" "e_fns env ''timer_irq''" "m_gic m" "m_cpu m"]
  by (elim exE, intro exI) (simp add: register_timer_def)

text \<open>What the devices add: the interrupts of timer and DMA, an empty mailbox and the worker.\<close>

lemma irqs_start:
  assumes cpu: "cpuid (m_cpu m) = 0" and lm: "tr_leftmost (troot (m_cpu m)) = timer_node t"
    and irq: "uint (dt_irq (e_dt env ''timer'')) < NUM_IRQS" "uint (dt_irq (e_dt env ''dma'')) < NUM_IRQS"
      "dt_irq (e_dt env ''timer'') \<noteq> dt_irq (e_dt env ''dma'')"
  shows "\<exists>m8 m10 r c. register_timer env (boot_init_timer env m) = Some m8
    \<and> boot_dma env (m8\<lparr>m_mail := init_mailbox (m_mail m8), m_cpu := update_csd (Some (timer_dev m8)) (m_cpu m8)\<rparr>) = Some m10
    \<and> m_cpu m10 = (m_cpu m)\<lparr>ticks_per_sec := dt_clk (e_dt env ''timer''), timers := (timers (m_cpu m))
        (t := (timers (m_cpu m) t)\<lparr>timer_pt := current (m_cpu m)\<rparr>), regs := r, csd_tick := c\<rparr>
    \<and> m_mail m10 = init_mailbox (m_mail m)
    \<and> gic.handler (m_gic m10) 0 (unat (dt_irq (e_dt env ''timer''))) = \<lparr>h_func = e_fns env ''timer_irq'', h_arg = e_dev env ''timer''\<rparr>
    \<and> gic.handler (m_gic m10) 0 (unat (dt_irq (e_dt env ''dma''))) = \<lparr>h_func = e_fns env ''dma_irq'', h_arg = e_dev env ''dma''\<rparr>"
proof -
  let ?k = "m_cpu m"
  let ?dt = "e_dt env ''timer''"
  let ?td = "(timer_dev m)\<lparr>dev_name := dt_compat ?dt, base_addr := dt_base ?dt, dev_irq := dt_irq ?dt, dev_data := 0\<rparr>"
  obtain r7 k7 where k7: "init_timer ?dt (Some (timer_dev m)) ?k = (NO_ERR, Some ?td, k7)"
    "k7 = ?k\<lparr>ticks_per_sec := dt_clk ?dt, timers := (timers ?k)(t := (timers ?k t)\<lparr>timer_pt := current ?k\<rparr>), regs := r7\<rparr>"
    using init_timer_ok [OF lm] by blast
  let ?m7 = "m\<lparr>timer_dev := ?td, m_cpu := k7\<rparr>"
  have m7: "boot_init_timer env m = ?m7" by (simp add: boot_init_timer_def k7(1))
  have "uint (dev_irq (timer_dev ?m7)) < NUM_IRQS" using irq(1) by simp
  from register_timer_ok [OF this, of env] obtain m8 r8 where m8: "register_timer env ?m7 = Some m8"
    "m8 = ?m7\<lparr>m_gic := (m_gic m)\<lparr>gic.handler := (gic.handler (m_gic m))(0 := (gic.handler (m_gic m) 0)(unat (dt_irq ?dt) :=
          \<lparr>h_func = e_fns env ''timer_irq'', h_arg = e_dev env ''timer''\<rparr>))\<rparr>, m_cpu := k7\<lparr>regs := r8\<rparr>\<rparr>"
    using cpu by (auto simp: k7(2))
  define m9 where "m9 = m8\<lparr>m_mail := init_mailbox (m_mail m8), m_cpu := update_csd (Some (timer_dev m8)) (m_cpu m8)\<rparr>"
  have k9: "m_cpu m9 = k7\<lparr>regs := r8, csd_tick := csd_tick (m_cpu m9)\<rparr>" by (simp add: m9_def m8(2) update_csd_def)
  have c9: "cpuid (m_cpu m9) = 0" by (subst k9) (simp add: k7(2) cpu)
  obtain m10 d10 r10 where m10: "boot_dma env m9 = Some m10" "m10 = m9\<lparr>dma_dev := d10, m_gic := (m_gic m9)
      \<lparr>gic.handler := (gic.handler (m_gic m9))(0 := (gic.handler (m_gic m9) 0)(unat (dt_irq (e_dt env ''dma'')) :=
          \<lparr>h_func = e_fns env ''dma_irq'', h_arg = e_dev env ''dma''\<rparr>))\<rparr>, m_cpu := (m_cpu m9)\<lparr>regs := r10\<rparr>\<rparr>"
    using boot_dma_ok [OF irq(2), of m9] by (auto simp: c9)
  have "m_cpu m10 = ?k\<lparr>ticks_per_sec := dt_clk ?dt, timers := (timers ?k)(t := (timers ?k t)\<lparr>timer_pt := current ?k\<rparr>),
      regs := r10, csd_tick := csd_tick (m_cpu m9)\<rparr>"
    unfolding m10(2) by (simp, subst k9, simp add: k7(2))
  moreover have "m_mail m10 = init_mailbox (m_mail m)" by (simp add: m10(2) m9_def m8(2))
  moreover have "gic.handler (m_gic m10) 0 (unat (dt_irq ?dt)) = \<lparr>h_func = e_fns env ''timer_irq'', h_arg = e_dev env ''timer''\<rparr>"
    "gic.handler (m_gic m10) 0 (unat (dt_irq (e_dt env ''dma''))) = \<lparr>h_func = e_fns env ''dma_irq'', h_arg = e_dev env ''dma''\<rparr>"
    using irq(3) by (simp_all add: m10(2) m9_def m8(2) word_unat_eq_iff)
  ultimately show ?thesis using m7 m8(1) m10(1) unfolding m9_def by metis
qed

lemma worker_starts:
  assumes inv: "sys_inv (m_cpu m) n xs [] ts ys" and n: "Suc n < 256"
    and created: "task_created_num (m_cpu m) \<noteq> MAX_TASK" and cpu: "cpuid (m_cpu m) = 0" and junk: "length (e_junk env) < 18"
  shows "\<exists>m1 m' xs1 xs2. on_cpu (create_workq_worker (e_fns env) (e_lr env) (e_junk env)) m = Some m1
    \<and> do { m12 \<leftarrow> on_cpu (Some \<circ> start_cpu1 (e_secondary_reset env)) m1;
           on_cpu (Some \<circ> snd \<circ> timer_enable (Some (timer_dev m12))) m12 } = Some m'
    \<and> xs = xs1 @ xs2
    \<and> sys_inv (m_cpu m') (Suc (Suc n)) (xs1 @ task_node (heap_addr (Suc n)) # xs2) [] (ts @ [heap_addr (Suc n)]) ys
    \<and> cfs_task_num (rq (m_cpu m')) = cfs_task_num (rq (m_cpu m)) + 1
    \<and> task_created_num (m_cpu m') = task_created_num (m_cpu m) + 1
    \<and> workq_items (work (m_cpu m')) = [] \<and> wtask (work (m_cpu m')) = heap_addr (Suc n)
    \<and> current (m_cpu m') = current (m_cpu m) \<and> idle_task (m_cpu m') = idle_task (m_cpu m)
    \<and> sched_timer (m_cpu m') = sched_timer (m_cpu m) \<and> timers (m_cpu m') = timers (m_cpu m)
    \<and> m_mail m' = m_mail m \<and> m_gic m' = m_gic m"
proof -
  have "length (''workq_worker:'' @ rev (hex_loop (cpuid (m_cpu m)) []) @ e_junk env) < 32"
    using hex_zero junk by (simp add: cpu)
  then obtain k1 xs1 xs2 where k1: "create_workq_worker (e_fns env) (e_lr env) (e_junk env) (m_cpu m) = Some k1"
    "xs = xs1 @ xs2" "sys_inv k1 (Suc (Suc n)) (xs1 @ task_node (heap_addr (Suc n)) # xs2) [] (ts @ [heap_addr (Suc n)]) ys"
    "cfs_task_num (rq k1) = cfs_task_num (rq (m_cpu m)) + 1" "workq_items (work k1) = []"
    "k1 = (m_cpu m)\<lparr>kmm := kmm k1, tasks := tasks k1, ses := ses k1, lheads := lheads k1, last_task := heap_addr (Suc n),
         task_created_num := task_created_num (m_cpu m) + 1, next_pid := next_pid k1, rbmem := rbmem k1, rq := rq k1,
         waitq := waitq k1, qworker := heap_addr n,
         work := (work (m_cpu m))\<lparr>enq_idx := 0, deq_idx := 0, wtask := heap_addr (Suc n)\<rparr>\<rparr>"
    using create_workq_worker_sys [OF inv n created, where fns = "e_fns env" and lr = "e_lr env" and junk = "e_junk env"] by blast
  have e1: "current k1 = current (m_cpu m)" "idle_task k1 = idle_task (m_cpu m)" "sched_timer k1 = sched_timer (m_cpu m)"
    "timers k1 = timers (m_cpu m)" "wtask (work k1) = heap_addr (Suc n)"
    "task_created_num k1 = task_created_num (m_cpu m) + 1"
    by (subst k1(6), simp)+
  let ?m1 = "m\<lparr>m_cpu := k1\<rparr>"
  obtain r2 where r2: "start_cpu1 (e_secondary_reset env) k1 = k1\<lparr>regs := r2\<rparr>" using start_cpu1_regs by blast
  obtain r3 where r3: "snd (timer_enable (Some (timer_dev m)) (k1\<lparr>regs := r2\<rparr>)) = k1\<lparr>regs := r3\<rparr>"
    using timer_enable_regs [of "timer_dev m" "k1\<lparr>regs := r2\<rparr>"] by auto
  let ?m' = "?m1\<lparr>m_cpu := k1\<lparr>regs := r3\<rparr>\<rparr>"
  have "do { m12 \<leftarrow> on_cpu (Some \<circ> start_cpu1 (e_secondary_reset env)) ?m1;
           on_cpu (Some \<circ> snd \<circ> timer_enable (Some (timer_dev m12))) m12 } = Some ?m'"
    using r2 r3 by (simp add: on_cpu_def)
  moreover have "on_cpu (create_workq_worker (e_fns env) (e_lr env) (e_junk env)) m = Some ?m1"
    using k1(1) by (simp add: on_cpu_Some)
  ultimately show ?thesis
    using k1(2-5) e1 by (intro exI [of _ ?m1] exI [of _ ?m'] exI [of _ xs1] exI [of _ xs2]) simp
qed

lemma start_kernel_sys:
  assumes "e_heap_start env = 0xC4000000" and "e_heap_end env = 0xC8000000"
    and "pgmem (mm_mmu (mm_vms (kmm (m_cpu m)))) = init_pgt mem"
    and "rqlock (m_cpu m) = UNLOCKED" and "troot (m_cpu m) = \<lparr>tr_root = 0, tr_leftmost = 0\<rparr>" and "cpuid (m_cpu m) = 0"
    and "uint (dt_irq (e_dt env ''timer'')) < NUM_IRQS" and "uint (dt_irq (e_dt env ''dma'')) < NUM_IRQS"
    and "dt_irq (e_dt env ''timer'') \<noteq> dt_irq (e_dt env ''dma'')"
    and "e_dev env ''timer'' \<noteq> 0" and "length (e_junk env) < 18"
  shows "\<exists>m' xs. start_kernel env m = Some m'
    \<and> sys_inv (m_cpu m') 11 xs [] [heap_addr 1, heap_addr 4, heap_addr 10] [timer_node (heap_addr 8)]
    \<and> mset xs = {#task_node (heap_addr 1), task_node (heap_addr 4), task_node (heap_addr 10)#}
    \<and> cfs_task_num (rq (m_cpu m')) = 3 \<and> task_created_num (m_cpu m') = 3 \<and> current (m_cpu m') = heap_addr 1 \<and> idle_task (m_cpu m') = heap_addr 1
    \<and> workq_items (work (m_cpu m')) = [] \<and> wtask (work (m_cpu m')) = heap_addr 10
    \<and> sched_timer (m_cpu m') = heap_addr 8 \<and> timer_struct.handler (timers (m_cpu m') (heap_addr 8)) = CFS_SCHEDULER
    \<and> timer_kind (timers (m_cpu m') (heap_addr 8)) = SCHED_TIMER \<and> m_mail m' = init_mailbox (m_mail m)
    \<and> gic.handler (m_gic m') 0 (unat (dt_irq (e_dt env ''timer''))) = \<lparr>h_func = e_fns env ''timer_irq'', h_arg = e_dev env ''timer''\<rparr>
    \<and> gic.handler (m_gic m') 0 (unat (dt_irq (e_dt env ''dma''))) = \<lparr>h_func = e_fns env ''dma_irq'', h_arg = e_dev env ''dma''\<rparr>"
proof -
  let ?m0 = "boot_devices env m"
  note D = boot_devices_fresh [OF assms(1-5)]
  obtain k1 k2 k3 k4 k5 k6 k7 xs where S: "init_idletask (m_cpu ?m0) = Some k1" "init_wq k1 = Some k2" "init_rq k2 = Some k3"
    "init_shell (e_fns env) (e_lr env) k3 = Some k4" "init_timertree (e_dev env ''timer'') k4 = Some (NO_ERR, k5)"
    "init_oneshot_timers k5 = Some k6" "init_cfs_scheduler k6 = Some k7"
    "sys_inv k7 9 xs [] [heap_addr 1, heap_addr 4] [timer_node (heap_addr 8)]"
    "mset xs = {#task_node (heap_addr 1), task_node (heap_addr 4)#}"
    "cfs_task_num (rq k7) = 2" "task_created_num k7 = 2" "current k7 = heap_addr 1" "idle_task k7 = heap_addr 1"
    "sched_timer k7 = heap_addr 8" "tr_leftmost (troot k7) = timer_node (heap_addr 8)"
    "timer_struct.handler (timers k7 (heap_addr 8)) = CFS_SCHEDULER" "timer_kind (timers k7 (heap_addr 8)) = SCHED_TIMER"
    "cpuid k7 = 0"
    using scheduler_starts [OF D(1) assms(10), of "e_fns env" "e_lr env"] assms(6) D(2) by force
  let ?m7 = "?m0\<lparr>m_cpu := k7\<rparr>"
  have mail: "m_mail ?m0 = m_mail m" by (simp add: boot_devices_def split_beta Let_def)
  obtain m8 m10 r c where I: "register_timer env (boot_init_timer env ?m7) = Some m8"
    "boot_dma env (m8\<lparr>m_mail := init_mailbox (m_mail m8), m_cpu := update_csd (Some (timer_dev m8)) (m_cpu m8)\<rparr>) = Some m10"
    "m_cpu m10 = k7\<lparr>ticks_per_sec := dt_clk (e_dt env ''timer''), timers := (timers k7)
        (heap_addr 8 := (timers k7 (heap_addr 8))\<lparr>timer_pt := current k7\<rparr>), regs := r, csd_tick := c\<rparr>"
    "m_mail m10 = init_mailbox (m_mail m)"
    "gic.handler (m_gic m10) 0 (unat (dt_irq (e_dt env ''timer''))) = \<lparr>h_func = e_fns env ''timer_irq'', h_arg = e_dev env ''timer''\<rparr>"
    "gic.handler (m_gic m10) 0 (unat (dt_irq (e_dt env ''dma''))) = \<lparr>h_func = e_fns env ''dma_irq'', h_arg = e_dev env ''dma''\<rparr>"
    using irqs_start [of ?m7 "heap_addr 8", OF _ _ assms(7-9)] S(15,18) mail by auto
  have "sys_inv (m_cpu m10) 9 xs [] [heap_addr 1, heap_addr 4] [timer_node (heap_addr 8)]" using S(8) by (simp add: I(3))
  moreover have "task_created_num (m_cpu m10) \<noteq> MAX_TASK" "cpuid (m_cpu m10) = 0"
    by (simp_all add: I(3) S MAX_TASK_def SVC_STACK_BASE_def SYS_STACK_BASE_def TASK_STACK_GAP_def)
  ultimately obtain m11 m' xs1 xs2 where W: "on_cpu (create_workq_worker (e_fns env) (e_lr env) (e_junk env)) m10 = Some m11"
    "do { m12 \<leftarrow> on_cpu (Some \<circ> start_cpu1 (e_secondary_reset env)) m11;
           on_cpu (Some \<circ> snd \<circ> timer_enable (Some (timer_dev m12))) m12 } = Some m'"
    "xs = xs1 @ xs2"
    "sys_inv (m_cpu m') 11 (xs1 @ task_node (heap_addr 10) # xs2) [] [heap_addr 1, heap_addr 4, heap_addr 10] [timer_node (heap_addr 8)]"
    "cfs_task_num (rq (m_cpu m')) = 3" "task_created_num (m_cpu m') = 3" "workq_items (work (m_cpu m')) = []" "wtask (work (m_cpu m')) = heap_addr 10"
    "current (m_cpu m') = heap_addr 1" "idle_task (m_cpu m') = heap_addr 1" "sched_timer (m_cpu m') = heap_addr 8"
    "timers (m_cpu m') = timers (m_cpu m10)" "m_mail m' = init_mailbox (m_mail m)" "m_gic m' = m_gic m10"
    using worker_starts [OF _ _ _ _ assms(11), of m10 9 xs "[heap_addr 1, heap_addr 4]" "[timer_node (heap_addr 8)]"] S I(3,4)
    by auto
  have "start_kernel env m = Some m'"
    using W(2) by (simp add: start_kernel_def on_cpu_Some S(1-7) I(1,2) W(1))
  moreover have "mset (xs1 @ task_node (heap_addr 10) # xs2) = {#task_node (heap_addr 1), task_node (heap_addr 4), task_node (heap_addr 10)#}"
    using S(9) W(3) by (simp add: add_mset_commute)
  ultimately show ?thesis
    using W I(5,6) S(16,17) by (intro exI [of _ m'] exI [of _ "xs1 @ task_node (heap_addr 10) # xs2"]) (simp add: I(3))
qed

text \<open>C1. The boot: from zeroed memory, the boot mapping and the heap of the linker script, \<open>start_kernel\<close> reaches the
  idle loop. The idle task, the shell and the worker are in the run queue and in the ring, each on its own page of the
  heap; nothing waits and no work is queued; the timer tree holds exactly the scheduler's timer; the mailboxes are empty,
  their lock is as it was, and the interrupts of timer and DMA have their handlers.\<close>

theorem start_kernel_runs:
  assumes "e_heap_start env = 0xC4000000" and "e_heap_end env = 0xC8000000"
    and "pgmem (mm_mmu (mm_vms (kmm (m_cpu m)))) = init_pgt mem"
    and "rqlock (m_cpu m) = UNLOCKED" and "troot (m_cpu m) = \<lparr>tr_root = 0, tr_leftmost = 0\<rparr>" and "cpuid (m_cpu m) = 0"
    and "uint (dt_irq (e_dt env ''timer'')) < NUM_IRQS" and "uint (dt_irq (e_dt env ''dma'')) < NUM_IRQS"
    and "dt_irq (e_dt env ''timer'') \<noteq> dt_irq (e_dt env ''dma'')"
    and "e_dev env ''timer'' \<noteq> 0" and "length (e_junk env) < 18"
  shows "\<exists>m' xs. start_kernel env m = Some m'
    \<and> sys_inv (m_cpu m') 11 xs [] [heap_addr 1, heap_addr 4, heap_addr 10] [timer_node (heap_addr 8)]
    \<and> mset xs = {#task_node (heap_addr 1), task_node (heap_addr 4), task_node (heap_addr 10)#}
    \<and> cfs_task_num (rq (m_cpu m')) = 3 \<and> task_created_num (m_cpu m') = 3 \<and> current (m_cpu m') = heap_addr 1 \<and> idle_task (m_cpu m') = heap_addr 1
    \<and> workq_items (work (m_cpu m')) = [] \<and> wtask (work (m_cpu m')) = heap_addr 10
    \<and> sched_timer (m_cpu m') = heap_addr 8 \<and> timer_struct.handler (timers (m_cpu m') (heap_addr 8)) = CFS_SCHEDULER
    \<and> timer_kind (timers (m_cpu m') (heap_addr 8)) = SCHED_TIMER \<and> m_mail m' = init_mailbox (m_mail m)
    \<and> gic.handler (m_gic m') 0 (unat (dt_irq (e_dt env ''timer''))) = \<lparr>h_func = e_fns env ''timer_irq'', h_arg = e_dev env ''timer''\<rparr>
    \<and> gic.handler (m_gic m') 0 (unat (dt_irq (e_dt env ''dma''))) = \<lparr>h_func = e_fns env ''dma_irq'', h_arg = e_dev env ''dma''\<rparr>"
  by (rule start_kernel_sys [OF assms])

text \<open>A machine as it comes out of reset, on the Zynq.\<close>

definition zynq_env :: boot_env where
  "zynq_env = \<lparr>e_dt = (\<lambda>s. \<lparr>dt_compat = s, dt_base = (if s = ''gic'' then 0xF8F00000 else if s = ''timer'' then 0xF8F00600
       else if s = ''uart'' then 0xE0001000 else 0x43C00000), dt_irq = (if s = ''timer'' then 29 else 61), dt_clk = 0x13D92D3F\<rparr>),
     e_fns = (\<lambda>s. of_nat (length s)), e_dev = (\<lambda>s. of_nat (length s)), e_framepool = 0x314000, e_pgt = 0x314100,
     e_kheap = 0x314200, e_heap_start = 0xC4000000, e_heap_end = 0xC8000000, e_secondary_reset = 0x200000, e_lr = 0,
     e_junk = []\<rparr>"

definition zynq_dev :: device where
  "zynq_dev = \<lparr>dev_idx = 0, dev_name = [], base_addr = 0, dev_irq = 0, dev_data = 0\<rparr>"

definition zynq :: machine where
  "zynq = \<lparr>m_cpu = idle_cpu\<lparr>kmm := fresh_mms\<lparr>mm_vms := (mm_vms fresh_mms)\<lparr>mm_mmu := (mm_mmu (mm_vms fresh_mms))
        \<lparr>pgmem := init_pgt (\<lambda>_. 0)\<rparr>\<rparr>\<rparr>\<rparr>,
     m_gic = \<lparr>gic_dev = zynq_dev, handler = (\<lambda>_ _. \<lparr>h_func = 0, h_arg = 0\<rparr>)\<rparr>, m_mail = mail_reset,
     uart_dev = zynq_dev, timer_dev = zynq_dev, dma_dev = zynq_dev, odev_dev = zynq_dev\<rparr>"

lemma zynq_boots:
  "e_heap_start zynq_env = 0xC4000000" "e_heap_end zynq_env = 0xC8000000"
  "pgmem (mm_mmu (mm_vms (kmm (m_cpu zynq)))) = init_pgt (\<lambda>_. 0)"
  "rqlock (m_cpu zynq) = UNLOCKED" "troot (m_cpu zynq) = \<lparr>tr_root = 0, tr_leftmost = 0\<rparr>" "cpuid (m_cpu zynq) = 0"
  "uint (dt_irq (e_dt zynq_env ''timer'')) < NUM_IRQS" "uint (dt_irq (e_dt zynq_env ''dma'')) < NUM_IRQS"
  "dt_irq (e_dt zynq_env ''timer'') \<noteq> dt_irq (e_dt zynq_env ''dma'')"
  "e_dev zynq_env ''timer'' \<noteq> 0" "length (e_junk zynq_env) < 18"
  by (simp_all add: zynq_env_def zynq_def idle_cpu_def UNLOCKED_def gic_consts)

theorem start_kernel_runs_witness:
  "\<exists>m'. start_kernel zynq_env zynq = Some m' \<and> current (m_cpu m') = heap_addr 1
    \<and> gic.handler (m_gic m') 0 29 = \<lparr>h_func = 9, h_arg = 5\<rparr>"
  using start_kernel_runs [OF zynq_boots] by (auto simp: zynq_env_def)

theorem create_cfs_task_starts_witness:
  "\<exists>m k. start_kernel zynq_env zynq = Some m
    \<and> create_cfs_task ''odev_worker'' 7 4 0 9 (m_cpu m) = Some (heap_addr 11, k)"
proof -
  obtain m xs where m: "start_kernel zynq_env zynq = Some m" "task_created_num (m_cpu m) = 3"
    "sys_inv (m_cpu m) 11 xs [] [heap_addr 1, heap_addr 4, heap_addr 10] [timer_node (heap_addr 8)]"
    using start_kernel_sys [OF zynq_boots] by blast
  have "task_created_num (m_cpu m) \<noteq> MAX_TASK"
    by (simp add: m(2) MAX_TASK_def SVC_STACK_BASE_def SYS_STACK_BASE_def TASK_STACK_GAP_def)
  then show ?thesis
    using create_cfs_task_starts [OF m(3), of 4 "''odev_worker''" 7 0 9] m(1) by auto
qed

end
