(* ===== verification/Context.thy ===== *)
theory Context
  imports Sched
begin

unbundle bit_operations_syntax

text \<open>
  The registers and the assembly that saves and restores them on the Cortex-A9 (src/kernel/arch/ca-9/ops.S, vector.S,
  smp-vector.S): the entry and exit of an interrupt, the two context switches, and the wrappers of the data abort and
  the system call. Memory is words by address. Tasks run in supervisor mode, so \<open>r_sp\<close> and \<open>r_lr\<close> are the registers of
  that mode; \<open>r_lr_exc\<close> is the link register of the mode an exception enters. What \<open>bl\<close> leaves in the
  link register is an argument (\<open>ra\<close>). The state saved by the hardware in SPSR is left out: the code never reads it.
\<close>

section \<open>Machine\<close>

record arm =
  r_gp :: "nat \<Rightarrow> u32"
  r_sp :: u32
  r_lr :: u32
  r_pc :: u32
  r_lr_exc :: u32
  r_cpsr :: u32
  r_vfp :: "nat \<Rightarrow> u32"
  r_fpscr :: u32
  r_fpexc :: u32
  r_mpidr :: u32
  wmem :: "u32 \<Rightarrow> u32"

text \<open>\<open>stmia\<close> and \<open>ldmia\<close> of a number of registers, and the loop \<open>ldr r3,[r4],#4; str r3,[r0],#4\<close>.\<close>

primrec stm :: "u32 \<Rightarrow> u32 list \<Rightarrow> (u32 \<Rightarrow> u32) \<Rightarrow> u32 \<Rightarrow> u32" where
  "stm a [] f = f"
| "stm a (w # ws) f = stm (a + 4) ws (f(a := w))"

definition ldm :: "u32 \<Rightarrow> nat \<Rightarrow> (u32 \<Rightarrow> u32) \<Rightarrow> u32 list" where
  "ldm a n f = map (\<lambda>i. f (a + 4 * of_nat i)) [0..<n]"

primrec copy_words :: "nat \<Rightarrow> u32 \<Rightarrow> u32 \<Rightarrow> (u32 \<Rightarrow> u32) \<Rightarrow> u32 \<Rightarrow> u32" where
  "copy_words 0 src dst f = f"
| "copy_words (Suc n) src dst f = copy_words n (src + 4) (dst + 4) (f(dst := f src))"

text \<open>\<open>msr cpsr_c, v\<close> writes the low byte; the operand of both exits is CPSR with I and F cleared.\<close>

definition IF_BIT :: u32 where "IF_BIT = 0xC0"
definition MODE_SVC :: u32 where "MODE_SVC = 0x13"
definition CONTEXT_MEM :: u32 where "CONTEXT_MEM = 0x4000"
definition SEC_CONTEXT_MEM :: u32 where "SEC_CONTEXT_MEM = 0x5000"
definition CONTEXT_MEM_LEN :: nat where "CONTEXT_MEM_LEN = 0xF"
definition CPU_CONTEXT_SZ :: u32 where "CPU_CONTEXT_SZ = 0x40"

definition msr_c :: "u32 \<Rightarrow> u32 \<Rightarrow> u32" where "msr_c v c = (c AND NOT 0xFF) OR (v AND 0xFF)"
definition enable_irq :: "arm \<Rightarrow> arm" where
  "enable_irq m = (let c = r_cpsr m; v = c AND NOT IF_BIT
     in m\<lparr>r_gp := (r_gp m)(0 := c, 1 := v), r_cpsr := msr_c v c\<rparr>)"

text \<open>What the hardware does when an exception is taken: \<open>r_pc\<close> is the instruction to go on with (the aborted one,
  or the one behind \<open>svc\<close>).\<close>

definition take_irq :: "arm \<Rightarrow> arm" where
  "take_irq m = m\<lparr>r_lr_exc := r_pc m + 4, r_cpsr := (r_cpsr m AND NOT 0x3F) OR 0x192\<rparr>"
definition take_abort :: "arm \<Rightarrow> arm" where
  "take_abort m = m\<lparr>r_lr_exc := r_pc m + 8, r_cpsr := (r_cpsr m AND NOT 0x3F) OR 0x197\<rparr>"
definition take_svc :: "arm \<Rightarrow> arm" where
  "take_svc m = m\<lparr>r_lr := r_pc m, r_cpsr := (r_cpsr m AND NOT 0x3F) OR 0x93\<rparr>"

section \<open>Operations\<close>

definition gp_list :: "nat \<Rightarrow> arm \<Rightarrow> u32 list" where "gp_list n m = map (r_gp m) [0..<n]"
definition vfp_list :: "arm \<Rightarrow> u32 list" where "vfp_list m = map (r_vfp m) [0..<32]"

text \<open>\<open>irq_handler\<close> up to the call of \<open>gic_irq_handler\<close>, with the context memory of the CPU as \<open>base\<close>.\<close>

definition irq_save :: "u32 \<Rightarrow> u32 \<Rightarrow> arm \<Rightarrow> arm" where
  "irq_save base ra m =
     (let f1 = stm base (gp_list 12 m) (wmem m);
          r0 = r_lr_exc m - 4;
          c = msr_c (MODE_SVC OR IF_BIT) (r_cpsr m);
          f2 = stm (base + 0x30) [r_sp m, r_lr m] f1;
          f3 = f2(base + 0x38 := r0);
          f4 = stm (base + 0x40) (vfp_list m) f3;
          f5 = f4(base + 0xC0 := r_fpscr m);
          f6 = f5(base + 0xC4 := r_fpexc m)
      in m\<lparr>r_gp := (r_gp m)(0 := r_fpexc m, 12 := base + 0xC4), r_lr := ra, r_cpsr := c, wmem := f6\<rparr>)"

text \<open>\<open>irq_handler\<close> behind \<open>msr cpsr_c, r1\<close>.\<close>

definition irq_resume :: "u32 \<Rightarrow> arm \<Rightarrow> arm" where
  "irq_resume base m =
     (let f = wmem m; g = ldm base 15 f; v = ldm (base + 0x40) 32 f
      in m\<lparr>r_gp := (\<lambda>i. if i < 12 then g ! i else if i = 12 then base + 60 else r_gp m i),
           r_sp := g ! 12, r_lr := g ! 13, r_pc := g ! 14,
           r_vfp := (\<lambda>i. if i < 32 then v ! i else r_vfp m i),
           r_fpscr := f (base + 0xC0), r_fpexc := f (base + 0xC4)\<rparr>)"

definition smp_processor_id :: "arm \<Rightarrow> u32" where "smp_processor_id m = r_mpidr m AND NOT 0xFFFFFFFC"

text \<open>A whole context but the reserved word: \<open>savectxt\<close> and \<open>restrctxt\<close>.\<close>

definition ctx_copy :: "u32 \<Rightarrow> u32 \<Rightarrow> (u32 \<Rightarrow> u32) \<Rightarrow> u32 \<Rightarrow> u32" where
  "ctx_copy src dst f =
     (let f1 = copy_words CONTEXT_MEM_LEN src dst f;
          f2 = copy_words 32 (src + 64) (dst + 64) f1;
          f3 = f2(dst + 192 := f2 (src + 192))
      in f3(dst + 196 := f3 (src + 196)))"

definition do_switch_context :: "u32 \<Rightarrow> arm \<Rightarrow> arm" where
  "do_switch_context ra m =
     (let sp1 = r_sp m - 28;
          f0 = stm sp1 (gp_list 6 m @ [r_lr m]) (wmem m);
          base = (if smp_processor_id m = 1 then SEC_CONTEXT_MEM else CONTEXT_MEM);
          f1 = ctx_copy base (r_gp m 0) f0;
          f2 = ctx_copy (r_gp m 1) base f1;
          p = ldm sp1 7 f2
      in m\<lparr>r_gp := (\<lambda>i. if i < 6 then p ! i else if i = 12 then base else r_gp m i),
           r_lr := ra, r_pc := p ! 6, r_cpsr := (r_cpsr m AND 0x0FFFFFFF) OR 0x60000000, wmem := f2\<rparr>)"

definition switch_context_yieldyi :: "arm \<Rightarrow> arm" where
  "switch_context_yieldyi m =
     (let cur = r_gp m 0; nxt = r_gp m 1;
          f1 = stm cur (gp_list 12 m) (wmem m);
          f2 = stm (cur + 48) [r_sp m, r_lr m, r_lr m] f1;
          f3 = stm (cur + 64) (vfp_list m) f2;
          f4 = f3(cur + 192 := r_fpscr m);
          f5 = f4(cur + 196 := r_fpexc m);
          v = ldm (nxt + CPU_CONTEXT_SZ) 32 f5;
          g = ldm nxt 14 f5;
          c = r_cpsr m; r1 = c AND NOT IF_BIT
      in m\<lparr>r_gp := (\<lambda>i. if i = 1 then r1 else if i < 12 then g ! i else if i = 12 then nxt + 56 else r_gp m i),
           r_sp := g ! 12, r_lr := g ! 13, r_pc := f5 (nxt + 56),
           r_vfp := (\<lambda>i. if i < 32 then v ! i else r_vfp m i),
           r_fpscr := f5 (nxt + 192), r_fpexc := f5 (nxt + 196),
           r_cpsr := msr_c r1 c, wmem := f5\<rparr>)"

text \<open>\<open>data_abort_handler\<close> and \<open>syscall_handler\<close>, up to the call of the C function and behind it.\<close>

definition data_abort_enter :: "u32 \<Rightarrow> u32 \<Rightarrow> arm \<Rightarrow> arm" where
  "data_abort_enter dfsr ra m =
     (let r12 = r_lr_exc m - 8;
          sp1 = r_sp m - 52;
          f1 = stm sp1 (gp_list 12 m @ [r12]) (wmem m);
          sp2 = sp1 - 4;
          f2 = f1(sp2 := r_lr m)
      in m\<lparr>r_gp := (r_gp m)(12 := r12, 0 := dfsr), r_sp := sp2, r_lr := ra,
           r_cpsr := msr_c (MODE_SVC OR IF_BIT) (r_cpsr m), wmem := f2\<rparr>)"

definition data_abort_leave :: "arm \<Rightarrow> arm" where
  "data_abort_leave m =
     (let m1 = enable_irq (m\<lparr>r_lr := wmem m (r_sp m), r_sp := r_sp m + 4\<rparr>);
          g = ldm (r_sp m1) 13 (wmem m1)
      in m1\<lparr>r_gp := (\<lambda>i. if i < 12 then g ! i else r_gp m1 i), r_pc := g ! 12, r_sp := r_sp m1 + 52\<rparr>)"

definition syscall_enter :: "u32 \<Rightarrow> arm \<Rightarrow> arm" where
  "syscall_enter ra m =
     (let sp1 = r_sp m - 56;
          f1 = stm sp1 (gp_list 13 m @ [r_lr m]) (wmem m);
          r12 = f1 (r_lr m - 4) AND NOT 0xFF000000
      in m\<lparr>r_gp := (r_gp m)(12 := r12, 2 := r12), r_sp := sp1, r_lr := ra,
           r_cpsr := msr_c (MODE_SVC OR IF_BIT) (r_cpsr m), wmem := f1\<rparr>)"

definition syscall_leave :: "arm \<Rightarrow> arm" where
  "syscall_leave m =
     (let m1 = enable_irq m; g = ldm (r_sp m1) 14 (wmem m1)
      in m1\<lparr>r_gp := (\<lambda>i. if i < 13 then g ! i else r_gp m1 i), r_pc := g ! 13, r_sp := r_sp m1 + 56\<rparr>)"

section \<open>Blocks of words\<close>

definition words :: "u32 \<Rightarrow> nat \<Rightarrow> u32 set" where "words a n = (\<lambda>i. a + 4 * of_nat i) ` {..<n}"

lemma words_0 [simp]: "words a 0 = {}"
  by (simp add: words_def)

lemma words_Suc: "words a (Suc n) = insert a (words (a + 4) n)"
  unfolding words_def lessThan_Suc_eq_insert_0 by (simp add: image_image algebra_simps)

lemma words_mono: "m \<le> n \<Longrightarrow> words a m \<subseteq> words a n"
  by (auto simp: words_def)

lemma words_nth: "i < n \<Longrightarrow> a + 4 * of_nat i \<in> words a n"
  by (simp add: words_def)

lemma words_sub: "words (a + 4 * of_nat i) n \<subseteq> words a (i + n)"
proof
  fix x assume "x \<in> words (a + 4 * of_nat i) n"
  then obtain j where "j < n" "x = a + 4 * of_nat (i + j)" by (auto simp: words_def algebra_simps)
  then show "x \<in> words a (i + n)" using words_nth [of "i + j" "i + n" a] by simp
qed

lemma unat_word_at:
  assumes "i < k" and "unat c + 4 * k \<le> 2 ^ 32"
  shows "unat (c + 4 * of_nat i :: u32) = unat c + 4 * i"
proof -
  have "c + 4 * of_nat i = (of_nat (unat c + 4 * i) :: u32)" by simp
  moreover have "unat c + 4 * i < 2 ^ 32" using assms by simp
  ultimately show ?thesis by (simp only: unat_of_nat) (simp add: take_bit_nat_eq_self)
qed

lemma words_apart:
  assumes "unat a + 4 * m \<le> unat b" and "unat b + 4 * n \<le> 2 ^ 32"
  shows "words a m \<inter> words b n = {}"
proof -
  have "unat x < unat b" if "x \<in> words a m" for x
    using that assms unat_word_at [of _ m a] by (fastforce simp: words_def)
  moreover have "unat b \<le> unat x" if "x \<in> words b n" for x
    using that assms unat_word_at [of _ n b] by (auto simp: words_def)
  ultimately show ?thesis by fastforce
qed

lemma ldm_length [simp]: "length (ldm a n f) = n"
  by (simp add: ldm_def)

lemma ldm_nth: "i < n \<Longrightarrow> ldm a n f ! i = f (a + 4 * of_nat i)"
  by (simp add: ldm_def)

lemma ldm_cong: "(\<And>x. x \<in> words a n \<Longrightarrow> f x = g x) \<Longrightarrow> ldm a n f = ldm a n g"
  by (simp add: ldm_def words_nth)

lemma ldm_Suc: "ldm a (Suc n) f = f a # ldm (a + 4) n f"
  unfolding ldm_def upt_conv_Cons [OF zero_less_Suc] map_Suc_upt [symmetric]
  by (simp add: algebra_simps del: upt_Suc)

lemma ldm_2: "ldm a 2 f = [f a, f (a + 4)]"
  by (simp add: ldm_def upt_rec)

lemma ldm_append: "ldm a (m + n) f = ldm a m f @ ldm (a + 4 * of_nat m) n f"
  by (induction m arbitrary: a) (simp_all add: ldm_Suc algebra_simps, simp add: ldm_def)

lemma stm_other: "x \<notin> words a (length ws) \<Longrightarrow> stm a ws f x = f x"
  by (induction ws arbitrary: a f) (simp_all add: words_Suc)

lemma ldm_stm_other: "words b n \<inter> words a (length ws) = {} \<Longrightarrow> ldm b n (stm a ws f) = ldm b n f"
  by (rule ldm_cong) (auto intro: stm_other)

lemma word_index_inj:
  assumes "i < 2 ^ 30" and "j < 2 ^ 30"
  shows "a + 4 * of_nat i = (a + 4 * of_nat j :: u32) \<longleftrightarrow> i = j"
proof
  have u: "unat (of_nat (4 * k) :: u32) = 4 * k" if "k < 2 ^ 30" for k
    using that by (simp only: unat_of_nat) (simp add: take_bit_nat_eq_self)
  assume "a + 4 * of_nat i = a + 4 * of_nat j"
  then have "(of_nat (4 * i) :: u32) = of_nat (4 * j)" by simp
  then show "i = j" using u [OF assms(1)] u [OF assms(2)] by simp
qed simp

lemma words_parts:
  assumes "m \<le> k" and "k + n \<le> 2 ^ 30"
  shows "words a m \<inter> words (a + 4 * of_nat k) n = {}"
proof -
  have "a + 4 * of_nat i \<noteq> a + 4 * of_nat (k + j)" if "i < m" "j < n" for i j
    using that assms word_index_inj [of i "k + j" a] by simp
  then show ?thesis by (auto simp: words_def algebra_simps)
qed

lemma word_not_in_next: "n < 2 ^ 30 \<Longrightarrow> a \<notin> words (a + 4) n"
  using words_parts [of 1 1 n a] by (auto simp: words_Suc)

lemma ldm_stm: "length ws < 2 ^ 30 \<Longrightarrow> ldm a (length ws) (stm a ws f) = ws"
proof (induction ws arbitrary: a f)
  case (Cons w ws)
  then have "stm (a + 4) ws (f(a := w)) a = w" by (simp add: stm_other word_not_in_next)
  with Cons show ?case by (simp add: ldm_Suc)
qed (simp add: ldm_def)

lemma stm_append: "stm a (us @ ws) f = stm (a + 4 * of_nat (length us)) ws (stm a us f)"
  by (induction us arbitrary: a f) (simp_all add: algebra_simps)

text \<open>Between areas that do not meet, the copy loop is a load and a store of the block.\<close>

lemma copy_words_stm:
  "words src n \<inter> words dst n = {} \<Longrightarrow> copy_words n src dst f = stm dst (ldm src n f) f"
proof (induction n arbitrary: src dst f)
  case (Suc n)
  then have d: "words (src + 4) n \<inter> words (dst + 4) n = {}" "dst \<notin> words (src + 4) n" by (auto simp: words_Suc)
  then have "ldm (src + 4) n (f(dst := f src)) = ldm (src + 4) n f" by (auto intro: ldm_cong)
  with Suc.IH [OF d(1), of "f(dst := f src)"] show ?case
    by (simp only: copy_words.simps ldm_Suc stm.simps)
qed (simp add: ldm_def)

section \<open>Contexts\<close>

text \<open>A saved context: the 15 words up to the reserved one, and the 34 behind it.\<close>

definition ctx :: "(u32 \<Rightarrow> u32) \<Rightarrow> u32 \<Rightarrow> u32 list" where
  "ctx f a = ldm a 15 f @ ldm (a + 64) 34 f"
abbreviation ctx_area :: "u32 \<Rightarrow> u32 set" where "ctx_area a \<equiv> words a 50"

definition live :: "u32 \<Rightarrow> arm \<Rightarrow> u32 list" where
  "live p m = (gp_list 12 m @ [r_sp m, r_lr m, p]) @ vfp_list m @ [r_fpscr m, r_fpexc m]"

lemma list_lengths [simp]: "length (gp_list n m) = n" "length (vfp_list m) = 32"
  by (simp_all add: gp_list_def vfp_list_def)

lemma ctx_parts: "words a 15 \<subseteq> ctx_area a" "words (a + 64) 34 \<subseteq> ctx_area a"
  "words a 15 \<inter> words (a + 64) 34 = {}"
  using words_mono [of 15 50 a] words_sub [of a 16 34] words_parts [of 15 16 34 a] by auto

lemma ctx_cong: "(\<And>x. x \<in> ctx_area a \<Longrightarrow> f x = g x) \<Longrightarrow> ctx f a = ctx g a"
  unfolding ctx_def using ctx_parts(1,2) [of a] by (intro arg_cong2 [where f = append] ldm_cong) auto

lemma ctx_nth:
  "i < 15 \<Longrightarrow> ctx f a ! i = f (a + 4 * of_nat i)" "i < 34 \<Longrightarrow> ctx f a ! (15 + i) = f (a + 64 + 4 * of_nat i)"
  by (simp_all add: ctx_def nth_append ldm_nth)

definition put_ctx :: "u32 \<Rightarrow> u32 list \<Rightarrow> (u32 \<Rightarrow> u32) \<Rightarrow> u32 \<Rightarrow> u32" where
  "put_ctx a ws f = stm (a + 64) (drop 15 ws) (stm a (take 15 ws) f)"

lemma ctx_put_ctx:
  assumes "length ws = 49" shows "ctx (put_ctx a ws f) a = ws"
proof -
  have "ldm a 15 (put_ctx a ws f) = take 15 ws"
    unfolding put_ctx_def using ctx_parts(3) [of a] ldm_stm [of "take 15 ws" a f] assms
    by (subst ldm_stm_other) simp_all
  moreover have "ldm (a + 64) 34 (put_ctx a ws f) = drop 15 ws"
    unfolding put_ctx_def using ldm_stm [of "drop 15 ws" "a + 64"] assms by simp
  ultimately show ?thesis by (simp add: ctx_def)
qed

lemma put_ctx_other: "x \<notin> ctx_area a \<Longrightarrow> length ws = 49 \<Longrightarrow> put_ctx a ws f x = f x"
proof -
  assume "x \<notin> ctx_area a" "length ws = 49"
  then have n: "x \<notin> words (a + 64) (length (drop 15 ws))" "x \<notin> words a (length (take 15 ws))"
    using ctx_parts(1,2) [of a] by auto
  show ?thesis by (simp only: put_ctx_def stm_other [OF n(1)] stm_other [OF n(2)])
qed

lemma ctx_put_other: "ctx_area b \<inter> ctx_area a = {} \<Longrightarrow> length ws = 49 \<Longrightarrow> ctx (put_ctx a ws f) b = ctx f b"
  by (rule ctx_cong) (auto intro: put_ctx_other)

lemma ctx_length [simp]: "length (ctx f a) = 49" "length (live p m) = 49"
  by (simp_all add: ctx_def live_def)

lemma ctx_copy_put:
  assumes d: "ctx_area src \<inter> ctx_area dst = {}"
  shows "ctx_copy src dst f = put_ctx dst (ctx f src) f"
proof -
  have s: "words src 15 \<inter> words dst 15 = {}" "words (src + 64) 34 \<inter> words dst 15 = {}"
    "words (src + 64) 34 \<inter> words (dst + 64) 34 = {}"
    using d ctx_parts(1,2) [of src] ctx_parts(1,2) [of dst] by blast+
  let ?f1 = "stm dst (ldm src 15 f) f"
  have a: "words (src + 64) 32 \<inter> words (dst + 64) 32 = {}"
    using s(3) words_mono [of 32 34 "src + 64"] words_mono [of 32 34 "dst + 64"] by auto
  have n: "src + 192 \<notin> words (dst + 64) 34" "src + 196 \<notin> words (dst + 64) 34"
    using s(3) words_nth [of 32 34 "src + 64"] words_nth [of 33 34 "src + 64"] by (auto simp: add.commute)
  then have n': "src + 192 \<notin> words (dst + 64) 32" "src + 196 \<notin> words (dst + 64) 32" "src + 196 \<noteq> dst + 192"
    using words_mono [of 32 34 "dst + 64"] words_nth [of 32 34 "dst + 64"] by (auto simp: add.commute)
  have l: "ldm (src + 64) 34 ?f1 = ldm (src + 64) 32 ?f1 @ [?f1 (src + 192), ?f1 (src + 196)]"
    using ldm_append [of "src + 64" 32 2 ?f1] by (simp add: ldm_2 add.commute)
  have "ctx_copy src dst f = stm (dst + 64) (ldm (src + 64) 34 ?f1) ?f1"
    unfolding ctx_copy_def Let_def CONTEXT_MEM_LEN_def copy_words_stm [OF s(1)] copy_words_stm [OF a]
    using n' by (simp add: l stm_append stm_other add.commute)
  also have "ldm (src + 64) 34 ?f1 = ldm (src + 64) 34 f" using s(2) by (simp add: ldm_stm_other)
  finally show ?thesis by (simp add: put_ctx_def ctx_def)
qed

lemma irq_save_put: "wmem (irq_save base ra m) = put_ctx base (live (r_lr_exc m - 4) m) (wmem m)"
  by (simp add: irq_save_def put_ctx_def live_def stm_append Let_def add.commute)

lemma yield_save_put:
  "wmem (switch_context_yieldyi m) = put_ctx (r_gp m 0) (live (r_lr m) m) (wmem m)"
  by (simp add: switch_context_yieldyi_def put_ctx_def live_def stm_append Let_def add.commute)

section \<open>What the switches do\<close>

text \<open>The context memory of a CPU, the areas of two tasks and the words the switch pushes do not meet.\<close>

definition apart :: "u32 \<Rightarrow> u32 \<Rightarrow> u32 \<Rightarrow> u32 \<Rightarrow> bool" where
  "apart base a b sp \<longleftrightarrow>
     ctx_area base \<inter> ctx_area a = {} \<and> ctx_area base \<inter> ctx_area b = {} \<and> ctx_area a \<inter> ctx_area b = {}
     \<and> words (sp - 28) 7 \<inter> (ctx_area base \<union> ctx_area a \<union> ctx_area b) = {}"

definition cpu_base :: "arm \<Rightarrow> u32" where
  "cpu_base m = (if smp_processor_id m = 1 then SEC_CONTEXT_MEM else CONTEXT_MEM)"

lemma do_switch_wmem:
  assumes "apart (cpu_base m) (r_gp m 0) (r_gp m 1) (r_sp m)"
  shows "wmem (do_switch_context ra m) =
    put_ctx (cpu_base m) (ctx (wmem m) (r_gp m 1)) (put_ctx (r_gp m 0) (ctx (wmem m) (cpu_base m))
      (stm (r_sp m - 28) (gp_list 6 m @ [r_lr m]) (wmem m)))"
proof -
  let ?f0 = "stm (r_sp m - 28) (gp_list 6 m @ [r_lr m]) (wmem m)"
  have d: "ctx_area (cpu_base m) \<inter> ctx_area (r_gp m 0) = {}" "ctx_area (r_gp m 1) \<inter> ctx_area (cpu_base m) = {}"
    "ctx_area (r_gp m 1) \<inter> ctx_area (r_gp m 0) = {}"
    using assms by (auto simp: apart_def)
  have s: "ctx ?f0 x = ctx (wmem m) x" if "words (r_sp m - 28) 7 \<inter> ctx_area x = {}" for x
    using that by (intro ctx_cong stm_other) auto
  have "ctx ?f0 (cpu_base m) = ctx (wmem m) (cpu_base m)" "ctx ?f0 (r_gp m 1) = ctx (wmem m) (r_gp m 1)"
    using assms by (auto intro!: s simp: apart_def)
  then show ?thesis
    using d by (simp add: do_switch_context_def Let_def cpu_base_def [symmetric] ctx_copy_put ctx_put_other)
qed

lemma do_switch_contexts:
  assumes a: "apart (cpu_base m) (r_gp m 0) (r_gp m 1) (r_sp m)"
  shows "ctx (wmem (do_switch_context ra m)) (r_gp m 0) = ctx (wmem m) (cpu_base m)"
    and "ctx (wmem (do_switch_context ra m)) (cpu_base m) = ctx (wmem m) (r_gp m 1)"
    and "x \<notin> ctx_area (cpu_base m) \<union> ctx_area (r_gp m 0) \<union> words (r_sp m - 28) 7
      \<Longrightarrow> wmem (do_switch_context ra m) x = wmem m x"
proof -
  have "ctx_area (r_gp m 0) \<inter> ctx_area (cpu_base m) = {}" using a by (auto simp: apart_def)
  then show "ctx (wmem (do_switch_context ra m)) (r_gp m 0) = ctx (wmem m) (cpu_base m)"
    by (simp add: do_switch_wmem [OF a] ctx_put_other ctx_put_ctx)
  show "ctx (wmem (do_switch_context ra m)) (cpu_base m) = ctx (wmem m) (r_gp m 1)"
    by (simp add: do_switch_wmem [OF a] ctx_put_ctx)
  show "wmem (do_switch_context ra m) x = wmem m x"
    if "x \<notin> ctx_area (cpu_base m) \<union> ctx_area (r_gp m 0) \<union> words (r_sp m - 28) 7"
    using that by (simp add: do_switch_wmem [OF a] put_ctx_other stm_other)
qed

text \<open>The C code that called the switch goes on behind the call, with its registers.\<close>

lemma do_switch_returns:
  assumes a: "apart (cpu_base m) (r_gp m 0) (r_gp m 1) (r_sp m)"
  shows "r_pc (do_switch_context ra m) = r_lr m" and "r_sp (do_switch_context ra m) = r_sp m"
    and "i < 12 \<Longrightarrow> r_gp (do_switch_context ra m) i = r_gp m i"
proof -
  let ?m = "do_switch_context ra m"
  have "ldm (r_sp m - 28) 7 (wmem ?m) = ldm (r_sp m - 28) 7 (stm (r_sp m - 28) (gp_list 6 m @ [r_lr m]) (wmem m))"
  proof (rule ldm_cong)
    fix x assume "x \<in> words (r_sp m - 28) 7"
    then have "x \<notin> ctx_area (cpu_base m)" "x \<notin> ctx_area (r_gp m 0)" using a by (auto simp: apart_def)
    then show "wmem ?m x = stm (r_sp m - 28) (gp_list 6 m @ [r_lr m]) (wmem m) x"
      by (simp add: do_switch_wmem [OF a] put_ctx_other)
  qed
  then have p: "ldm (r_sp m - 28) 7 (wmem ?m) = gp_list 6 m @ [r_lr m]"
    using ldm_stm [of "gp_list 6 m @ [r_lr m]" "r_sp m - 28" "wmem m"] by simp
  have e: "r_pc ?m = ldm (r_sp m - 28) 7 (wmem ?m) ! 6"
    "r_gp ?m i = (if i < 6 then ldm (r_sp m - 28) 7 (wmem ?m) ! i else if i = 12 then cpu_base m else r_gp m i)"
    by (simp_all add: do_switch_context_def Let_def cpu_base_def)
  show "r_pc ?m = r_lr m" using e(1) by (simp add: p nth_append)
  show "r_sp ?m = r_sp m" by (simp add: do_switch_context_def Let_def)
  show "i < 12 \<Longrightarrow> r_gp ?m i = r_gp m i" using e(2) by (simp add: p nth_append gp_list_def)
qed

text \<open>Resuming from a context gives exactly the registers that were saved, but for r12, which is the end of the
  block that was loaded.\<close>

lemma live_nth:
  "i < 12 \<Longrightarrow> live p m ! i = r_gp m i" "live p m ! 12 = r_sp m" "live p m ! 13 = r_lr m" "live p m ! 14 = p"
  "i < 32 \<Longrightarrow> live p m ! (15 + i) = r_vfp m i" "live p m ! 47 = r_fpscr m" "live p m ! 48 = r_fpexc m"
  by (simp_all add: live_def nth_append gp_list_def vfp_list_def)

definition resumed :: "u32 \<Rightarrow> arm \<Rightarrow> arm \<Rightarrow> bool" where
  "resumed p m m' \<longleftrightarrow> (\<forall>i < 12. r_gp m' i = r_gp m i) \<and> r_sp m' = r_sp m \<and> r_lr m' = r_lr m \<and> r_pc m' = p
     \<and> (\<forall>i < 32. r_vfp m' i = r_vfp m i) \<and> r_fpscr m' = r_fpscr m \<and> r_fpexc m' = r_fpexc m"

lemma ctx_fields:
  "ctx f a ! 12 = f (a + 48)" "ctx f a ! 13 = f (a + 52)" "ctx f a ! 14 = f (a + 56)"
  "ctx f a ! 47 = f (a + 192)" "ctx f a ! 48 = f (a + 196)"
  using ctx_nth(1) [of 12 f a] ctx_nth(1) [of 13 f a] ctx_nth(1) [of 14 f a]
    ctx_nth(2) [of 32 f a] ctx_nth(2) [of 33 f a] by (simp_all add: add.commute)

lemma irq_resume_fields:
  "i < 12 \<Longrightarrow> r_gp (irq_resume base m) i = ctx (wmem m) base ! i"
  "r_sp (irq_resume base m) = ctx (wmem m) base ! 12" "r_lr (irq_resume base m) = ctx (wmem m) base ! 13"
  "r_pc (irq_resume base m) = ctx (wmem m) base ! 14"
  "i < 32 \<Longrightarrow> r_vfp (irq_resume base m) i = ctx (wmem m) base ! (15 + i)"
  "r_fpscr (irq_resume base m) = ctx (wmem m) base ! 47" "r_fpexc (irq_resume base m) = ctx (wmem m) base ! 48"
  "r_gp (irq_resume base m) 12 = base + 60" "wmem (irq_resume base m) = wmem m"
  using ctx_nth(2) [of i "wmem m" base]
  by (simp_all add: irq_resume_def Let_def ctx_fields, simp_all add: ctx_def nth_append ldm_nth)

lemma irq_resume_live: "ctx (wmem m') base = live p m \<Longrightarrow> resumed p m (irq_resume base m')"
  by (simp add: resumed_def irq_resume_fields live_nth)

lemma enable_irq_keeps [simp]: "wmem (enable_irq m) = wmem m" "r_sp (enable_irq m) = r_sp m"
  "r_lr (enable_irq m) = r_lr m" "r_pc (enable_irq m) = r_pc m" "i \<noteq> 0 \<Longrightarrow> i \<noteq> 1 \<Longrightarrow> r_gp (enable_irq m) i = r_gp m i"
  by (simp_all add: enable_irq_def Let_def)

lemma irq_save_ctx: "ctx (wmem (irq_save base ra (take_irq m))) base = live (r_pc m) m"
  by (simp add: irq_save_put ctx_put_ctx) (simp add: take_irq_def live_def gp_list_def vfp_list_def)

section \<open>Preemption\<close>

text \<open>C6. A task that is interrupted, switched out for another one and later switched in again by the interrupt of
  that one goes on at the instruction it was interrupted at, with its stack, its link register, r0 to r11 and all
  floating-point registers, whatever ran in between, as long as nobody wrote to its saved context. Register r12 is
  lost: it holds the end of the context memory.\<close>

theorem preempted_task_resumes:
  assumes saved: "ctx (wmem m2) base = ctx (wmem (irq_save base ra (take_irq m))) base"
    and out: "cpu_base m2 = base" "r_gp m2 0 = A" "apart base A (r_gp m2 1) (r_sp m2)"
    and kept: "ctx (wmem m4) A = ctx (wmem (do_switch_context ra2 m2)) A"
    and again: "cpu_base m4 = base" "r_gp m4 1 = A" "apart base (r_gp m4 0) A (r_sp m4)"
    and left: "ctx (wmem m6) base = ctx (wmem (do_switch_context ra4 m4)) base"
  shows "resumed (r_pc m) m (irq_resume base (enable_irq m6))
    \<and> r_gp (irq_resume base (enable_irq m6)) 12 = base + 60"
proof -
  have "ctx (wmem m4) A = live (r_pc m) m"
    using kept saved do_switch_contexts(1) [of m2 ra2] out by (simp add: irq_save_ctx)
  then have "ctx (wmem (enable_irq m6)) base = live (r_pc m) m"
    using left do_switch_contexts(2) [of m4 ra4] again by simp
  then show ?thesis by (simp add: irq_resume_live irq_resume_fields)
qed

text \<open>The condition flags are not saved: the interrupted task goes on with those of the handler.\<close>

lemma irq_exit_flags:
  "r_cpsr (irq_resume base (enable_irq m)) = msr_c (r_cpsr m AND NOT IF_BIT) (r_cpsr m)"
  by (simp add: irq_resume_def enable_irq_def Let_def)

section \<open>The exit of the interrupt handler, instruction by instruction\<close>

text \<open>\<open>irq_handler\<close> behind the call of \<open>gic_irq_handler\<close>. The first instruction is at address \<open>E\<close>; every instruction but the last
  goes on to the next one, and the last one jumps to what it loads.\<close>

definition exit_instrs :: "u32 \<Rightarrow> (arm \<Rightarrow> arm) list" where
  "exit_instrs base =
    [\<lambda>m. m\<lparr>r_gp := (r_gp m)(0 := r_cpsr m)\<rparr>,
     \<lambda>m. m\<lparr>r_gp := (r_gp m)(1 := r_gp m 0 AND NOT IF_BIT)\<rparr>,
     \<lambda>m. m\<lparr>r_cpsr := msr_c (r_gp m 1) (r_cpsr m)\<rparr>,
     \<lambda>m. m\<lparr>r_gp := (r_gp m)(12 := base + 0x40)\<rparr>,
     \<lambda>m. m\<lparr>r_vfp := (\<lambda>i. if i < 32 then ldm (r_gp m 12) 32 (wmem m) ! i else r_vfp m i),
            r_gp := (r_gp m)(12 := r_gp m 12 + 128)\<rparr>,
     \<lambda>m. m\<lparr>r_gp := (r_gp m)(0 := wmem m (r_gp m 12), 12 := r_gp m 12 + 4)\<rparr>,
     \<lambda>m. m\<lparr>r_fpscr := r_gp m 0\<rparr>,
     \<lambda>m. m\<lparr>r_gp := (r_gp m)(0 := wmem m (r_gp m 12))\<rparr>,
     \<lambda>m. m\<lparr>r_fpexc := r_gp m 0\<rparr>,
     \<lambda>m. m\<lparr>r_gp := (r_gp m)(12 := base)\<rparr>,
     \<lambda>m. let g = ldm (r_gp m 12) 15 (wmem m)
         in m\<lparr>r_gp := (\<lambda>i. if i < 12 then g ! i else if i = 12 then r_gp m 12 + 60 else r_gp m i),
              r_sp := g ! 12, r_lr := g ! 13, r_pc := g ! 14\<rparr>]"

definition exit_code :: "u32 \<Rightarrow> u32 set" where "exit_code E = words E 11"

definition exit_step :: "u32 \<Rightarrow> u32 \<Rightarrow> arm \<Rightarrow> arm" where
  "exit_step E base m = (exit_instrs base ! (unat (r_pc m - E) div 4)) (m\<lparr>r_pc := r_pc m + 4\<rparr>)"

text \<open>An interrupt is taken between two instructions when the I bit of CPSR is clear. Its handler saves the registers into the
  same context memory, runs the C function, and comes to the same exit, with interrupts off and the context as it was
  saved, when the tasks are not switched.\<close>

definition I_clear :: "arm \<Rightarrow> bool" where "I_clear m \<longleftrightarrow> \<not> bit (r_cpsr m) 7"

definition handler_returns :: "u32 \<Rightarrow> u32 \<Rightarrow> arm \<Rightarrow> arm \<Rightarrow> bool" where
  "handler_returns E base m m2 \<longleftrightarrow> r_pc m2 = E \<and> \<not> I_clear m2
     \<and> (\<exists>ra. ctx (wmem m2) base = ctx (wmem (irq_save base ra (take_irq m))) base)"

lemma exit_code_at: "i < 11 \<Longrightarrow> E + 4 * of_nat i \<in> exit_code E"
  by (simp add: exit_code_def words_nth)

lemma exit_index:
  assumes "r_pc m = E + 4 * of_nat i" and "i < 11"
  shows "exit_step E base m = (exit_instrs base ! i) (m\<lparr>r_pc := E + 4 * of_nat (Suc i)\<rparr>)"
proof -
  have "unat (4 * of_nat i :: u32) = 4 * i"
    using unat_word_at [of i 11 0] assms(2) by simp
  then show ?thesis using assms(1) by (simp add: exit_step_def algebra_simps)
qed

lemma exit_pc:
  assumes "r_pc m = E + 4 * of_nat i" and "i < 10"
  shows "r_pc (exit_step E base m) = E + 4 * of_nat (Suc i)"
proof -
  have "i = 0 \<or> i = 1 \<or> i = 2 \<or> i = 3 \<or> i = 4 \<or> i = 5 \<or> i = 6 \<or> i = 7 \<or> i = 8 \<or> i = 9"
    using assms(2) by (auto simp: eval_nat_numeral less_Suc_eq)
  then show ?thesis
    using exit_index [OF assms(1)] by (elim disjE) (simp_all add: exit_instrs_def)
qed

lemma exit_wmem: "r_pc m = E + 4 * of_nat i \<Longrightarrow> i < 11 \<Longrightarrow> wmem (exit_step E base m) = wmem m"
proof -
  assume a: "r_pc m = E + 4 * of_nat i" "i < 11"
  have "i = 0 \<or> i = 1 \<or> i = 2 \<or> i = 3 \<or> i = 4 \<or> i = 5 \<or> i = 6 \<or> i = 7 \<or> i = 8 \<or> i = 9 \<or> i = 10"
    using a(2) by (auto simp: eval_nat_numeral less_Suc_eq)
  then show ?thesis using exit_index [OF a] by (elim disjE) (simp_all add: exit_instrs_def Let_def)
qed

lemma exit_load:
  assumes "r_pc m = E + 40"
  shows "r_pc (exit_step E base m) = wmem m (r_gp m 12 + 56)" and "r_gp (exit_step E base m) 12 = r_gp m 12 + 60"
  using exit_index [of m E 10 base] assms by (simp_all add: exit_instrs_def Let_def ldm_nth)

text \<open>The states on the way, from the first instruction on.\<close>

lemma exit_path:
  assumes "r_pc m = E" and "i \<le> 10"
  shows "r_pc ((exit_step E base ^^ i) m) = E + 4 * of_nat i" and "wmem ((exit_step E base ^^ i) m) = wmem m"
proof -
  have "r_pc ((exit_step E base ^^ i) m) = E + 4 * of_nat i \<and> wmem ((exit_step E base ^^ i) m) = wmem m"
    using assms(2)
  proof (induction i)
    case (Suc i)
    then show ?case using exit_pc [of "(exit_step E base ^^ i) m" E i base] exit_wmem [of "(exit_step E base ^^ i) m" E i base] by simp
  qed (use assms(1) in simp)
  then show "r_pc ((exit_step E base ^^ i) m) = E + 4 * of_nat i" "wmem ((exit_step E base ^^ i) m) = wmem m" by simp_all
qed

lemma exit_next:
  assumes "r_pc m = E" and "i < 11"
  shows "(exit_step E base ^^ Suc i) m = (exit_instrs base ! i) (((exit_step E base ^^ i) m)\<lparr>r_pc := E + 4 * of_nat (Suc i)\<rparr>)"
  using exit_index [OF exit_path(1) [OF assms(1), of i]] assms(2) by simp

lemma exit_enables:
  assumes "r_pc m = E"
  shows "(exit_step E base ^^ 3) m = (enable_irq m)\<lparr>r_pc := E + 12\<rparr>"
    and "i < 3 \<Longrightarrow> r_cpsr ((exit_step E base ^^ i) m) = r_cpsr m"
proof -
  have x1: "(exit_step E base ^^ 1) m = m\<lparr>r_gp := (r_gp m)(0 := r_cpsr m), r_pc := E + 4\<rparr>"
    using exit_next [OF assms, of 0 base] by (simp add: exit_instrs_def)
  have x2: "(exit_step E base ^^ 2) m = m\<lparr>r_gp := (r_gp m)(0 := r_cpsr m, 1 := r_cpsr m AND NOT IF_BIT), r_pc := E + 8\<rparr>"
    using exit_next [OF assms, of 1 base] unfolding x1 by (simp add: exit_instrs_def numeral_2_eq_2)
  show "(exit_step E base ^^ 3) m = (enable_irq m)\<lparr>r_pc := E + 12\<rparr>"
    using exit_next [OF assms, of 2 base] unfolding x2 by (simp add: exit_instrs_def numeral_3_eq_3 numeral_2_eq_2 enable_irq_def Let_def)
  show "i < 3 \<Longrightarrow> r_cpsr ((exit_step E base ^^ i) m) = r_cpsr m"
    using x1 x2 by (auto simp: less_Suc_eq numeral_3_eq_3 numeral_2_eq_2)
qed

text \<open>Undisturbed, the instructions do what \<open>irq_resume\<close> does at once.\<close>

lemma exit_loads:
  assumes "r_pc m = E"
  shows "(exit_step E base ^^ 11) m = irq_resume base (enable_irq m)"
    and "3 \<le> i \<Longrightarrow> i \<le> 10 \<Longrightarrow> r_cpsr ((exit_step E base ^^ i) m) = r_cpsr (enable_irq m)"
    and "r_vfp ((exit_step E base ^^ 10) m) 13 = ctx (wmem m) base ! 28"
proof -
  let ?x = "\<lambda>i. (exit_step E base ^^ i) m" and ?e = "enable_irq m" and ?f = "wmem m"
  define v where "v = (\<lambda>i. if i < 32 then ldm (base + 0x40) 32 ?f ! i else r_vfp m i)"
  have e: "r_vfp ?e = r_vfp m" "wmem ?e = ?f" by (simp_all add: enable_irq_def Let_def)
  note nx = exit_next [OF assms]
  have x4: "?x 4 = ?e\<lparr>r_gp := (r_gp ?e)(12 := base + 0x40), r_pc := E + 16\<rparr>"
    using nx [of 3 base] unfolding exit_enables(1) [OF assms] by (simp add: exit_instrs_def)
  have x5: "?x 5 = ?e\<lparr>r_gp := (r_gp ?e)(12 := base + 0xC0), r_vfp := v, r_pc := E + 20\<rparr>"
    using nx [of 4 base] unfolding x4 by (simp add: exit_instrs_def v_def e add.commute cong: if_cong)
  have x6: "?x 6 = ?e\<lparr>r_gp := (r_gp ?e)(0 := ?f (base + 0xC0), 12 := base + 0xC4), r_vfp := v, r_pc := E + 24\<rparr>"
    using nx [of 5 base] unfolding x5 by (simp add: exit_instrs_def e add.commute)
  have x7: "?x 7 = ?e\<lparr>r_gp := (r_gp ?e)(0 := ?f (base + 0xC0), 12 := base + 0xC4), r_vfp := v, r_fpscr := ?f (base + 0xC0), r_pc := E + 28\<rparr>"
    using nx [of 6 base] unfolding x6 by (simp add: exit_instrs_def)
  have x8: "?x 8 = ?e\<lparr>r_gp := (r_gp ?e)(0 := ?f (base + 0xC4), 12 := base + 0xC4), r_vfp := v, r_fpscr := ?f (base + 0xC0), r_pc := E + 32\<rparr>"
    using nx [of 7 base] unfolding x7 by (simp add: exit_instrs_def e fun_upd_twist)
  have x9: "?x 9 = ?e\<lparr>r_gp := (r_gp ?e)(0 := ?f (base + 0xC4), 12 := base + 0xC4), r_vfp := v, r_fpscr := ?f (base + 0xC0),
      r_fpexc := ?f (base + 0xC4), r_pc := E + 36\<rparr>"
    using nx [of 8 base] unfolding x8 by (simp add: exit_instrs_def)
  have x10: "?x 10 = ?e\<lparr>r_gp := (r_gp ?e)(0 := ?f (base + 0xC4), 12 := base), r_vfp := v, r_fpscr := ?f (base + 0xC0),
      r_fpexc := ?f (base + 0xC4), r_pc := E + 40\<rparr>"
    using nx [of 9 base] unfolding x9 by (simp add: exit_instrs_def)
  show "?x 11 = irq_resume base ?e"
    using nx [of 10 base] unfolding x10
    by (simp add: exit_instrs_def irq_resume_def Let_def e v_def fun_eq_iff)
  show "r_cpsr (?x i) = r_cpsr ?e" if "3 \<le> i" "i \<le> 10"
  proof -
    have "i = 3 \<or> i = 4 \<or> i = 5 \<or> i = 6 \<or> i = 7 \<or> i = 8 \<or> i = 9 \<or> i = 10" using that by linarith
    then show ?thesis
      by (elim disjE) (simp_all only: exit_enables(1) [OF assms] x4 x5 x6 x7 x8 x9 x10, simp_all)
  qed
  show "r_vfp (?x 10) 13 = ctx ?f base ! 28"
    unfolding x10 using ctx_nth(2) [of 13 ?f base] by (simp add: v_def ldm_nth)
qed

lemma enable_irq_clear: "I_clear (enable_irq m)"
proof -
  have "\<not> bit (r_cpsr m AND NOT IF_BIT) 7" by (simp add: IF_BIT_def bit_and_iff bit_not_iff)
  then show ?thesis by (simp add: I_clear_def enable_irq_def msr_c_def Let_def bit_or_iff bit_and_iff bit_not_iff)
qed

text \<open>The exit as it runs when its own address is what it loads: every instruction but the last goes on to the next one, and
  the last one, which has the address of the context memory from the one before it, goes back.\<close>

definition going_back :: "u32 \<Rightarrow> u32 \<Rightarrow> arm \<Rightarrow> bool" where
  "going_back E base m \<longleftrightarrow> (\<exists>j < 11. r_pc m = E + 4 * of_nat j \<and> (j = 10 \<longrightarrow> r_gp m 12 = base))
     \<and> (\<exists>p < 10. wmem m (base + 56) = E + 4 * of_nat p)"

lemma going_back_step: "going_back E base m \<Longrightarrow> going_back E base (exit_step E base m)"
proof -
  assume "going_back E base m"
  then obtain j p where j: "j < 11" "r_pc m = E + 4 * of_nat j" "j = 10 \<Longrightarrow> r_gp m 12 = base"
    and p: "p < 10" "wmem m (base + 56) = E + 4 * of_nat p" by (auto simp: going_back_def)
  have w: "wmem (exit_step E base m) (base + 56) = E + 4 * of_nat p" using exit_wmem [OF j(2,1)] p(2) by simp
  show ?thesis
  proof (cases "j = 10")
    case True
    then have "r_pc m = E + 40" using j(2) by simp
    then have "r_pc (exit_step E base m) = E + 4 * of_nat p" using exit_load(1) [of m E base] j(3) [OF True] p(2) by simp
    then show ?thesis unfolding going_back_def using p(1) w by (intro conjI exI [of _ p]) simp_all
  next
    case False
    have n: "r_gp (exit_step E base m) 12 = base" if "Suc j = 10"
      using exit_index [OF j(2,1), of base] that by (simp add: exit_instrs_def)
    have "r_pc (exit_step E base m) = E + 4 * of_nat (Suc j)" using exit_pc [OF j(2)] j(1) False by simp
    then show ?thesis unfolding going_back_def using j(1) False p(1) w n
      by (intro conjI exI [of _ "Suc j"] exI [of _ p]) simp_all
  qed
qed

lemma going_back_stays: "going_back E base m \<Longrightarrow> r_pc ((exit_step E base ^^ n) m) \<in> exit_code E"
proof -
  assume "going_back E base m"
  then have "going_back E base ((exit_step E base ^^ n) m)" by (induction n) (simp_all add: going_back_step)
  then show ?thesis using exit_code_at by (auto simp: going_back_def)
qed

text \<open>C22. The exit of the interrupt handler turns interrupts on with its third instruction and loads the registers of the
  interrupted task with the eight behind it. Undisturbed this is \<open>irq_resume\<close>. But when an interrupt is taken at one of
  these instructions, and its handler has returned to the exit without switching tasks, then the task is lost: for the first seven places
  the exit never leaves its own code again, as long as no further interrupt comes, because the saved context is now that of the
  exit; at the last one, whose register r12 is not saved, it jumps to the value of the floating-point register s13 of the task.\<close>

theorem irq_nested_never_leaves:
  assumes "r_pc m = E" and "\<not> I_clear m"
  shows "(exit_step E base ^^ 11) m = irq_resume base (enable_irq m)
    \<and> (\<forall>i \<le> 10. r_pc ((exit_step E base ^^ i) m) = E + 4 * of_nat i \<and> (I_clear ((exit_step E base ^^ i) m) \<longleftrightarrow> 3 \<le> i))
    \<and> (\<forall>i m2. 3 \<le> i \<and> i < 10 \<and> handler_returns E base ((exit_step E base ^^ i) m) m2
        \<longrightarrow> (\<forall>n. r_pc ((exit_step E base ^^ n) m2) \<in> exit_code E))
    \<and> (\<forall>m2. handler_returns E base ((exit_step E base ^^ 10) m) m2
        \<longrightarrow> r_pc ((exit_step E base ^^ 12) m2) = ctx (wmem m) base ! 28)"
proof (intro conjI allI impI)
  show "(exit_step E base ^^ 11) m = irq_resume base (enable_irq m)" by (rule exit_loads(1) [OF assms(1)])
next
  fix i :: nat assume i: "i \<le> 10"
  show "r_pc ((exit_step E base ^^ i) m) = E + 4 * of_nat i" by (rule exit_path(1) [OF assms(1) i])
  show "I_clear ((exit_step E base ^^ i) m) \<longleftrightarrow> 3 \<le> i"
    using exit_enables(2) [OF assms(1), of i base] exit_loads(2) [OF assms(1) _ i, of base] assms(2) enable_irq_clear [of m]
    by (cases "3 \<le> i") (simp_all add: I_clear_def)
next
  fix i n m2 assume h: "3 \<le> i \<and> i < 10 \<and> handler_returns E base ((exit_step E base ^^ i) m) m2"
  have "wmem m2 (base + 56) = E + 4 * of_nat i"
    using h exit_path(1) [OF assms(1), of i base] by (auto simp: handler_returns_def irq_save_ctx live_nth ctx_fields [symmetric])
  then have "going_back E base m2" using h unfolding going_back_def handler_returns_def by (intro conjI exI [of _ 0] exI [of _ i]) simp_all
  then show "r_pc ((exit_step E base ^^ n) m2) \<in> exit_code E" by (rule going_back_stays)
next
  fix m2 assume h: "handler_returns E base ((exit_step E base ^^ 10) m) m2"
  let ?m = "(exit_step E base ^^ 10) m" and ?r = "irq_resume base (enable_irq m2)"
  have E: "r_pc m2 = E" and c: "ctx (wmem m2) base = live (E + 40) ?m"
    using h exit_path(1) [OF assms(1), of 10 base] by (auto simp: handler_returns_def irq_save_ctx)
  have r: "r_pc ?r = E + 40" "r_gp ?r 12 = base + 60" "wmem ?r = wmem m2" by (simp_all add: irq_resume_fields c live_nth)
  have "(exit_step E base ^^ 12) m2 = exit_step E base ((exit_step E base ^^ 11) m2)" by (simp add: eval_nat_numeral)
  also have "(exit_step E base ^^ 11) m2 = ?r" by (rule exit_loads(1) [OF E])
  finally have "r_pc ((exit_step E base ^^ 12) m2) = wmem m2 (base + 60 + 56)" using exit_load(1) [OF r(1)] r(2,3) by simp
  also have "\<dots> = ctx (wmem m2) base ! (15 + 13)" using ctx_nth(2) [of 13 "wmem m2" base] by (simp add: add.assoc)
  also have "\<dots> = r_vfp ?m 13" unfolding c by (rule live_nth(5)) simp
  finally show "r_pc ((exit_step E base ^^ 12) m2) = ctx (wmem m) base ! 28" by (simp add: exit_loads(3) [OF assms(1)])
qed

section \<open>Yielding\<close>

lemma yield_fields:
  fixes m defines "c \<equiv> ctx (wmem (switch_context_yieldyi m)) (r_gp m 1)"
  shows "i < 12 \<Longrightarrow> i \<noteq> 1 \<Longrightarrow> r_gp (switch_context_yieldyi m) i = c ! i"
    and "r_gp (switch_context_yieldyi m) 1 = r_cpsr m AND NOT IF_BIT"
    and "r_sp (switch_context_yieldyi m) = c ! 12" and "r_lr (switch_context_yieldyi m) = c ! 13"
    and "r_pc (switch_context_yieldyi m) = c ! 14"
    and "i < 32 \<Longrightarrow> r_vfp (switch_context_yieldyi m) i = c ! (15 + i)"
    and "r_fpscr (switch_context_yieldyi m) = c ! 47" and "r_fpexc (switch_context_yieldyi m) = c ! 48"
  unfolding c_def switch_context_yieldyi_def Let_def CPU_CONTEXT_SZ_def
  using ctx_nth(2) [of i "wmem (switch_context_yieldyi m)" "r_gp m 1"]
  by (simp_all add: ctx_fields switch_context_yieldyi_def Let_def,
      simp_all add: ctx_def nth_append ldm_nth)

text \<open>C20. Yielding to a task that was saved, by an interrupt or by its own yield, resumes it at the saved address
  with its stack and registers, and saves the yielding task behind its call; register r1, which the code uses to enable
  the interrupts after loading the registers, is lost. For a task saved by an interrupt this
  destroys a live register.\<close>

theorem yield_resumes_but_r1:
  assumes "ctx (wmem m4) (r_gp m4 1) = live p m"
    and "ctx_area (r_gp m4 1) \<inter> ctx_area (r_gp m4 0) = {}"
  shows "resumed p (m\<lparr>r_gp := (r_gp m)(1 := r_cpsr m4 AND NOT IF_BIT)\<rparr>) (switch_context_yieldyi m4)
    \<and> ctx (wmem (switch_context_yieldyi m4)) (r_gp m4 0) = live (r_lr m4) m4"
proof -
  have c: "ctx (wmem (switch_context_yieldyi m4)) (r_gp m4 1) = live p m"
    using assms by (simp add: yield_save_put ctx_put_other)
  have "r_gp (switch_context_yieldyi m4) i = ((r_gp m)(1 := r_cpsr m4 AND NOT IF_BIT)) i" if "i < 12" for i
    using that yield_fields(1,2) [where m = m4] by (cases "i = 1") (simp_all add: c [simplified] live_nth)
  moreover have "ctx (wmem (switch_context_yieldyi m4)) (r_gp m4 0) = live (r_lr m4) m4"
    by (simp add: yield_save_put ctx_put_ctx)
  ultimately show ?thesis using yield_fields(3-8) [where m = m4] by (simp add: resumed_def c [simplified] live_nth)
qed

section \<open>New tasks\<close>

text \<open>The part of the context \<open>forkyi\<close> writes, as words in memory.\<close>

definition ct_image :: "(u32 \<Rightarrow> u32) \<Rightarrow> u32 \<Rightarrow> task_struct \<Rightarrow> bool" where
  "ct_image f pt t \<longleftrightarrow> f (pt + 48) = ct_sp t \<and> f (pt + 52) = ct_lr t \<and> f (pt + 56) = ct_pc t
     \<and> f (pt + 192) = ct_fpscr t \<and> f (pt + 196) = ct_fpexc t"

text \<open>C21. A task that \<open>forkyi\<close> has set up and that a switch in an interrupt puts on the CPU starts at its entry
  point, on its own stack, with the floating-point unit enabled.\<close>

theorem new_task_starts:
  assumes image: "ct_image (wmem m2) pt (tasks (fork_context lr pt k) pt)" and "cpuid k = 0"
    and call: "cpu_base m2 = base" "r_gp m2 1 = pt" "apart base (r_gp m2 0) pt (r_sp m2)"
    and left: "ctx (wmem m6) base = ctx (wmem (do_switch_context ra m2)) base"
    and x_def: "x = irq_resume base (enable_irq m6)"
  shows "r_pc x = entry (tasks k pt) \<and> r_sp x = SVC_STACK_BASE - TASK_STACK_GAP * (task_created_num k + 1)
    \<and> r_lr x = lr \<and> r_fpscr x = 0 \<and> r_fpexc x = 0x40000000"
proof -
  have "ctx (wmem m6) base = ctx (wmem m2) pt" using left do_switch_contexts(2) [of m2 ra] call by simp
  then show ?thesis
    using image assms(2) unfolding x_def ct_image_def
    by (simp add: irq_resume_fields ctx_fields fork_context_def upd_task_def Let_def)
qed

section \<open>Aborts and system calls\<close>

text \<open>What the C handler has to leave alone: the stack pointer and the words pushed.\<close>

definition stack_kept :: "nat \<Rightarrow> arm \<Rightarrow> arm \<Rightarrow> bool" where
  "stack_kept n m m' \<longleftrightarrow> r_sp m' = r_sp m \<and> ldm (r_sp m) n (wmem m') = ldm (r_sp m) n (wmem m)"

lemma stm_upd: "a \<notin> words b (length ws) \<Longrightarrow> (stm b ws f)(a := v) = stm b ws (f(a := v))"
proof (induction ws arbitrary: b f)
  case (Cons w ws)
  then have n: "a \<notin> words (b + 4) (length ws)" "a \<noteq> b" by (auto simp: words_Suc)
  then show ?case using Cons.IH [OF n(1), of "f(b := w)"] by (simp only: stm.simps fun_upd_twist)
qed simp

lemma data_abort_stack:
  "wmem (data_abort_enter dfsr ra m) = stm (r_sp m - 56) (r_lr m # gp_list 12 m @ [r_lr_exc m - 8]) (wmem m)"
proof -
  have "r_sp m - 56 \<notin> words (r_sp m - 52) (length (gp_list 12 m @ [r_lr_exc m - 8]))"
    using word_not_in_next [of 13 "r_sp m - 56"] by simp
  then show ?thesis by (simp add: data_abort_enter_def Let_def stm_upd del: length_append)
qed

text \<open>A data abort that is handled goes back to the instruction that caused it, with r0 to r11, the stack and the link
  register; r12 is what the handler leaves in it, and lost.\<close>

lemma data_abort_resumes:
  assumes "stack_kept 14 (data_abort_enter dfsr ra (take_abort m)) m2"
  shows "r_pc (data_abort_leave m2) = r_pc m \<and> r_sp (data_abort_leave m2) = r_sp m
    \<and> r_lr (data_abort_leave m2) = r_lr m \<and> (\<forall>i < 12. r_gp (data_abort_leave m2) i = r_gp m i)
    \<and> r_gp (data_abort_leave m2) 12 = r_gp m2 12"
proof -
  let ?ws = "r_lr m # gp_list 12 m @ [r_pc m]"
  let ?m1 = "data_abort_enter dfsr ra (take_abort m)"
  have m1: "wmem ?m1 = stm (r_sp m - 56) ?ws (wmem m)" "r_sp ?m1 = r_sp m - 56"
    by (simp_all only: data_abort_stack) (simp_all add: data_abort_enter_def take_abort_def gp_list_def Let_def)
  then have sp: "r_sp m2 = r_sp m - 56" using assms by (simp add: stack_kept_def)
  have "ldm (r_sp m - 56) 14 (wmem m2) = ldm (r_sp m - 56) (length ?ws) (stm (r_sp m - 56) ?ws (wmem m))"
    using assms unfolding stack_kept_def m1 by simp
  also have "\<dots> = ?ws" by (rule ldm_stm) simp
  finally have "ldm (r_sp m2) (Suc 13) (wmem m2) = ?ws" by (simp add: sp)
  then have w: "wmem m2 (r_sp m2) = r_lr m" "ldm (r_sp m2 + 4) 13 (wmem m2) = gp_list 12 m @ [r_pc m]"
    unfolding ldm_Suc by simp_all
  show ?thesis
    using w sp by (simp add: data_abort_leave_def Let_def enable_irq_def nth_append gp_list_def)
qed

text \<open>A system call hands the number in the instruction to the C function and goes on behind the instruction with
  r0 to r12 and the stack as they were: what the function returns is lost, and the link register is that of the handler.\<close>

lemma syscall_resumes:
  assumes "r_pc m - 4 \<notin> words (r_sp m - 56) 14" and m1_def: "m1 = syscall_enter ra (take_svc m)"
    and "stack_kept 14 m1 m2"
  shows "r_gp m1 2 = wmem m (r_pc m - 4) AND NOT 0xFF000000 \<and> (\<forall>i < 13. i \<noteq> 2 \<and> i \<noteq> 12 \<longrightarrow> r_gp m1 i = r_gp m i)
    \<and> r_pc (syscall_leave m2) = r_pc m \<and> r_sp (syscall_leave m2) = r_sp m
    \<and> (\<forall>i < 13. r_gp (syscall_leave m2) i = r_gp m i)"
proof -
  let ?ws = "gp_list 13 m @ [r_pc m]"
  have g: "gp_list n (take_svc m) = gp_list n m" for n by (simp add: take_svc_def gp_list_def)
  have m1: "wmem m1 = stm (r_sp m - 56) ?ws (wmem m)" "r_sp m1 = r_sp m - 56"
    unfolding m1_def syscall_enter_def Let_def g by (simp_all add: take_svc_def)
  have "r_gp m1 2 = wmem m (r_pc m - 4) AND NOT 0xFF000000" "i \<noteq> 2 \<and> i \<noteq> 12 \<longrightarrow> r_gp m1 i = r_gp m i" for i
    using stm_other [of "r_pc m - 4" "r_sp m - 56" ?ws "wmem m"] assms(1)
    unfolding m1_def syscall_enter_def Let_def g by (simp_all add: take_svc_def)
  moreover have sp: "r_sp m2 = r_sp m - 56" and w: "ldm (r_sp m2) 14 (wmem m2) = ?ws"
    using assms(3) ldm_stm [of ?ws "r_sp m - 56" "wmem m"] by (simp_all add: stack_kept_def m1)
  have "r_pc (syscall_leave m2) = r_pc m \<and> r_sp (syscall_leave m2) = r_sp m
      \<and> (\<forall>i < 13. r_gp (syscall_leave m2) i = r_gp m i)"
    using sp w by (simp add: syscall_leave_def Let_def nth_append gp_list_def)
  ultimately show ?thesis by blast
qed

section \<open>A run of two tasks\<close>

text \<open>A task at 0x10000 that is interrupted at 0x8000, another one at 0x20000, and the handlers' stack below 0x30000.\<close>

definition task_a_running :: arm where
  "task_a_running = \<lparr>r_gp = of_nat, r_sp = 0x2FFF0, r_lr = 0x7000, r_pc = 0x8000, r_lr_exc = 0, r_cpsr = MODE_SVC,
     r_vfp = of_nat, r_fpscr = 1, r_fpexc = 0x40000000, r_mpidr = 0, wmem = (\<lambda>_. 0)\<rparr>"

definition calling_switch :: "u32 \<Rightarrow> u32 \<Rightarrow> arm \<Rightarrow> arm" where
  "calling_switch prev nxt m = m\<lparr>r_gp := (r_gp m)(0 := prev, 1 := nxt)\<rparr>"

lemma apartI:
  assumes "unat base + 200 \<le> unat a" "unat a + 200 \<le> unat b" "unat b + 200 \<le> unat (sp - 28)" "unat (sp - 28) + 28 \<le> 2 ^ 32"
  shows "apart base a b sp" "apart base b a sp"
proof -
  have "ctx_area base \<inter> ctx_area a = {}" "ctx_area base \<inter> ctx_area b = {}" "ctx_area a \<inter> ctx_area b = {}"
    "ctx_area base \<inter> words (sp - 28) 7 = {}" "ctx_area a \<inter> words (sp - 28) 7 = {}" "ctx_area b \<inter> words (sp - 28) 7 = {}"
    by (rule words_apart; use assms in linarith)+
  then show "apart base a b sp" "apart base b a sp" unfolding apart_def by blast+
qed

lemma task_areas: "apart CONTEXT_MEM 0x10000 0x20000 0x2FFF0" "apart CONTEXT_MEM 0x20000 0x10000 0x2FFF0"
  by (rule apartI; simp add: CONTEXT_MEM_def)+

lemma switch_fields [simp]:
  "r_sp (do_switch_context ra m) = r_sp m" "r_mpidr (do_switch_context ra m) = r_mpidr m"
  "r_sp (irq_save base ra m) = r_sp m" "r_mpidr (irq_save base ra m) = r_mpidr m"
  "r_sp (calling_switch p n m) = r_sp m" "r_mpidr (calling_switch p n m) = r_mpidr m"
  "r_gp (calling_switch p n m) 0 = p" "r_gp (calling_switch p n m) (Suc 0) = n" "wmem (calling_switch p n m) = wmem m"
  "r_sp (take_irq m) = r_sp m" "r_mpidr (take_irq m) = r_mpidr m"
  by (simp_all add: do_switch_context_def irq_save_def calling_switch_def take_irq_def Let_def)

theorem preempted_task_resumes_witness:
  "\<exists>m6. resumed 0x8000 task_a_running (irq_resume CONTEXT_MEM (enable_irq m6))"
proof -
  let ?m2 = "calling_switch 0x10000 0x20000 (irq_save CONTEXT_MEM 0 (take_irq task_a_running))"
  let ?m4 = "calling_switch 0x20000 0x10000 (do_switch_context 0 ?m2)"
  have "resumed (r_pc task_a_running) task_a_running (irq_resume CONTEXT_MEM (enable_irq (do_switch_context 0 ?m4)))"
    by (rule preempted_task_resumes [where ra = 0 and ?m2.0 = ?m2 and ?m4.0 = ?m4 and A = "0x10000" and ?ra2.0 = 0 and ?ra4.0 = 0,
          THEN conjunct1])
      (simp_all add: cpu_base_def smp_processor_id_def task_a_running_def task_areas)
  then show ?thesis by (auto simp: task_a_running_def)
qed

text \<open>The exit at 0x20000: the task above was interrupted, and an interrupt hits the load of its floating-point registers.\<close>

theorem irq_nested_never_leaves_witness:
  "\<exists>m m2. handler_returns 0x20000 CONTEXT_MEM ((exit_step 0x20000 CONTEXT_MEM ^^ 4) m) m2
    \<and> r_pc ((exit_step 0x20000 CONTEXT_MEM ^^ 11) m) = 0x8000 \<and> r_pc ((exit_step 0x20000 CONTEXT_MEM ^^ 1000) m2) \<in> exit_code 0x20000"
proof -
  let ?m = "(irq_save CONTEXT_MEM 0 (take_irq task_a_running))\<lparr>r_pc := 0x20000\<rparr>"
  let ?x = "(exit_step 0x20000 CONTEXT_MEM ^^ 4) ?m"
  let ?m2 = "(irq_save CONTEXT_MEM 0 (take_irq ?x))\<lparr>r_pc := 0x20000, r_cpsr := 0xD3\<rparr>"
  have off: "\<not> I_clear ?m" by (simp add: I_clear_def irq_save_def msr_c_def MODE_SVC_def IF_BIT_def Let_def bit_or_iff bit_and_iff bit_not_iff)
  have pc: "r_pc ?m = 0x20000" by simp
  have h: "handler_returns 0x20000 CONTEXT_MEM ?x ?m2" by (auto simp: handler_returns_def I_clear_def intro: exI [of _ 0])
  have "ctx (wmem ?m) CONTEXT_MEM ! 14 = 0x8000" by (simp add: irq_save_ctx live_nth) (simp add: task_a_running_def)
  then have "r_pc (irq_resume CONTEXT_MEM (enable_irq ?m)) = 0x8000" by (simp add: irq_resume_fields)
  then have "r_pc ((exit_step 0x20000 CONTEXT_MEM ^^ 11) ?m) = 0x8000"
    by (subst irq_nested_never_leaves [OF pc off, THEN conjunct1])
  moreover have "r_pc ((exit_step 0x20000 CONTEXT_MEM ^^ 1000) ?m2) \<in> exit_code 0x20000"
    using irq_nested_never_leaves [OF pc off, THEN conjunct2, THEN conjunct2, THEN conjunct1, rule_format, of 4 CONTEXT_MEM ?m2 1000] h by simp
  ultimately show ?thesis using h by blast
qed

theorem yield_resumes_but_r1_witness:
  "r_gp (switch_context_yieldyi (calling_switch 0x20000 0x10000
     (task_a_running\<lparr>wmem := put_ctx 0x10000 (live 0x8000 task_a_running) (\<lambda>_. 0)\<rparr>))) 1 = MODE_SVC AND NOT IF_BIT"
proof -
  let ?m4 = "calling_switch 0x20000 0x10000 (task_a_running\<lparr>wmem := put_ctx 0x10000 (live 0x8000 task_a_running) (\<lambda>_. 0)\<rparr>)"
  have "ctx_area 0x10000 \<inter> ctx_area 0x20000 = {}" by (rule words_apart) simp_all
  then have "resumed 0x8000 (task_a_running\<lparr>r_gp := (r_gp task_a_running)(1 := r_cpsr ?m4 AND NOT IF_BIT)\<rparr>)
      (switch_context_yieldyi ?m4)"
    using yield_resumes_but_r1 [of ?m4 "0x8000" task_a_running] by (simp add: ctx_put_ctx)
  then show ?thesis by (simp add: resumed_def) (simp add: calling_switch_def task_a_running_def)
qed

theorem new_task_starts_witness:
  "\<exists>x :: arm. r_pc x = 0x1234 \<and> r_sp x = SVC_STACK_BASE - TASK_STACK_GAP \<and> r_fpexc x = 0x40000000"
proof -
  let ?k = "idle_cpu\<lparr>task_created_num := 0, tasks := (tasks idle_cpu)(0x20000 := (tasks idle_cpu 0x20000)\<lparr>entry := 0x1234\<rparr>)\<rparr>"
  let ?t = "tasks (fork_context 0x99 0x20000 ?k) 0x20000"
  let ?m2 = "calling_switch 0x10000 0x20000 (task_a_running\<lparr>wmem := (\<lambda>_. 0)(0x20030 := ct_sp ?t, 0x20034 := ct_lr ?t,
    0x20038 := ct_pc ?t, 0x200C0 := ct_fpscr ?t, 0x200C4 := ct_fpexc ?t)\<rparr>)"
  let ?x = "irq_resume CONTEXT_MEM (enable_irq (do_switch_context 0 ?m2))"
  have h: "r_pc ?x = entry (tasks ?k 0x20000) \<and> r_sp ?x = SVC_STACK_BASE - TASK_STACK_GAP * (task_created_num ?k + 1)
      \<and> r_lr ?x = 0x99 \<and> r_fpscr ?x = 0 \<and> r_fpexc ?x = 0x40000000"
    by (rule new_task_starts [where ?m2.0 = ?m2 and pt = "0x20000" and lr = "0x99" and k = ?k and ra = 0])
      (simp_all add: ct_image_def cpu_base_def smp_processor_id_def task_areas, simp_all add: task_a_running_def idle_cpu_def task_areas)
  show ?thesis by (rule exI [of _ ?x]) (use h in simp)
qed

end
