(* ===== verification/SpinLock.thy ===== *)
theory SpinLock
  imports KState
begin

text \<open>
  The spin lock of the Cortex-A9 (\<open>spin_lock_acquire\<close> and \<open>spin_lock_release\<close> of src/kernel/arch/ca-9/ops.S) under
  any number of CPUs, one instruction that accesses the lock a step. \<open>monitor\<close> is the exclusive monitor of each CPU: \<open>ldrex\<close> sets
  it, any store to the lock clears those of all CPUs, \<open>strex\<close> stores only while it is set, and it may be lost at any time. The
  models of the components take an acquisition for one atomic step; here that is shown of the code.
\<close>

datatype spin_point =
    Free
  | Loop1                     \<comment> \<open>before \<open>ldrex r2,[r0]\<close>\<close>
  | Compare u32               \<comment> \<open>before \<open>cmp r2,r1\<close>, with r2\<close>
  | StoreEx                   \<comment> \<open>before \<open>strexne r2,r1,[r0]\<close>\<close>
  | Check u32                 \<comment> \<open>before \<open>cmpne r2,#1\<close>, with r2\<close>
  | Barrier                   \<comment> \<open>before \<open>DMB\<close> and the return\<close>
  | Critical
  | Unlock                    \<comment> \<open>in \<open>spin_lock_release\<close>, before \<open>str r1,[r0]\<close>\<close>

record spin_state =
  spin_word :: u32
  monitor :: "nat \<Rightarrow> bool"
  point :: "nat \<Rightarrow> spin_point"

definition goto :: "nat \<Rightarrow> spin_point \<Rightarrow> spin_state \<Rightarrow> spin_state" where
  "goto c p st = st\<lparr>point := (point st)(c := p)\<rparr>"
definition store_lock :: "u32 \<Rightarrow> spin_state \<Rightarrow> spin_state" where
  "store_lock v st = st\<lparr>spin_word := v, monitor := (\<lambda>_. False)\<rparr>"

inductive acquire_step :: "nat \<Rightarrow> spin_state \<Rightarrow> spin_state \<Rightarrow> bool" where
  call: "point st c = Free \<Longrightarrow> acquire_step c st (goto c Loop1 st)"
| ldrex: "point st c = Loop1
    \<Longrightarrow> acquire_step c st (goto c (Compare (spin_word st)) (st\<lparr>monitor := (monitor st)(c := True)\<rparr>))"
| locked: "point st c = Compare v \<Longrightarrow> v = LOCKED \<Longrightarrow> acquire_step c st (goto c Loop1 st)"
| unlocked: "point st c = Compare v \<Longrightarrow> v \<noteq> LOCKED \<Longrightarrow> acquire_step c st (goto c StoreEx st)"
| strex: "point st c = StoreEx \<Longrightarrow> monitor st c \<Longrightarrow> acquire_step c st (goto c (Check 0) (store_lock LOCKED st))"
| strex_fail: "point st c = StoreEx \<Longrightarrow> \<not> monitor st c \<Longrightarrow> acquire_step c st (goto c (Check 1) st)"
| again: "point st c = Check v \<Longrightarrow> v = 1 \<Longrightarrow> acquire_step c st (goto c Loop1 st)"
| stored: "point st c = Check v \<Longrightarrow> v \<noteq> 1 \<Longrightarrow> acquire_step c st (goto c Barrier st)"
| dmb: "point st c = Barrier \<Longrightarrow> acquire_step c st (goto c Critical st)"

inductive release_step :: "nat \<Rightarrow> spin_state \<Rightarrow> spin_state \<Rightarrow> bool" where
  release: "point st c = Critical \<Longrightarrow> release_step c st (goto c Unlock st)"
| str: "point st c = Unlock \<Longrightarrow> release_step c st (goto c Free (store_lock UNLOCKED st))"

definition spin_init :: spin_state where
  "spin_init = \<lparr>spin_word = UNLOCKED, monitor = (\<lambda>_. False), point = (\<lambda>_. Free)\<rparr>"

inductive spin_reach :: "spin_state \<Rightarrow> bool" where
  init: "spin_reach spin_init"
| acquire: "spin_reach st \<Longrightarrow> acquire_step c st st' \<Longrightarrow> spin_reach st'"
| rel: "spin_reach st \<Longrightarrow> release_step c st st' \<Longrightarrow> spin_reach st'"
| lost: "spin_reach st \<Longrightarrow> spin_reach (st\<lparr>monitor := (monitor st)(c := False)\<rparr>)"

inductive_cases acquire_stepE: "acquire_step c st st'"
inductive_cases release_stepE: "release_step c st st'"

text \<open>A CPU owns the lock from the successful store to the store of the release. What it loaded is still true of the lock
  while its monitor is set.\<close>

fun holding :: "spin_point \<Rightarrow> bool" where
  "holding (Check v) = (v = 0)"
| "holding Barrier = True"
| "holding Critical = True"
| "holding Unlock = True"
| "holding _ = False"

definition owns :: "spin_state \<Rightarrow> nat \<Rightarrow> bool" where "owns st c \<longleftrightarrow> holding (point st c)"
definition owner :: "spin_state \<Rightarrow> nat set" where "owner st = {c. owns st c}"

fun point_ok :: "u32 \<Rightarrow> bool \<Rightarrow> spin_point \<Rightarrow> bool" where
  "point_ok w m (Compare v) = (m \<longrightarrow> w = v)"
| "point_ok w m StoreEx = (m \<longrightarrow> w \<noteq> LOCKED)"
| "point_ok w m (Check v) = (v = 0 \<or> v = 1)"
| "point_ok w m _ = True"

definition owner_ok :: "u32 \<Rightarrow> nat set \<Rightarrow> bool" where
  "owner_ok w own = (if w = LOCKED then \<exists>c. own = {c} else own = {})"

definition spin_inv :: "spin_state \<Rightarrow> bool" where
  "spin_inv st \<longleftrightarrow> owner_ok (spin_word st) (owner st) \<and> (\<forall>c. point_ok (spin_word st) (monitor st c) (point st c))"

lemma point_ok_no_monitor: "point_ok w m p \<Longrightarrow> point_ok w' False p"
  by (cases p) simp_all

lemma mem_owner: "c \<in> owner st \<longleftrightarrow> owns st c"
  by (simp add: owner_def)

lemma goto_fields [simp]:
  "spin_word (goto c p st) = spin_word st" "monitor (goto c p st) = monitor st" "point (goto c p st) = (point st)(c := p)"
  "spin_word (store_lock v st) = v" "monitor (store_lock v st) = (\<lambda>_. False)" "point (store_lock v st) = point st"
  by (simp_all add: goto_def store_lock_def)

lemma owner_goto: "holding p = owns st c \<Longrightarrow> owner (goto c p st) = owner st"
  by (auto simp: owner_def owns_def goto_def)

lemma inv_goto:
  "spin_inv st \<Longrightarrow> holding p = owns st c \<Longrightarrow> point_ok (spin_word st) (monitor st c) p \<Longrightarrow> spin_inv (goto c p st)"
  by (simp add: spin_inv_def owner_goto)

lemma owner_monitor [simp]: "owner (st\<lparr>monitor := b\<rparr>) = owner st"
  by (simp add: owner_def owns_def)

lemma inv_monitor:
  "spin_inv st \<Longrightarrow> point_ok (spin_word st) b (point st c) \<Longrightarrow> spin_inv (st\<lparr>monitor := (monitor st)(c := b)\<rparr>)"
  by (simp add: spin_inv_def)

lemma owner_store: "owner (goto c p (store_lock v st)) = owner (goto c p st)"
  by (simp add: owner_def owns_def)

lemma inv_store:
  "spin_inv st \<Longrightarrow> owner_ok v (owner (goto d p st)) \<Longrightarrow> point_ok v False p \<Longrightarrow> spin_inv (goto d p (store_lock v st))"
  by (auto simp: spin_inv_def owner_store intro: point_ok_no_monitor)

lemma inv_point: "spin_inv st \<Longrightarrow> point_ok (spin_word st) (monitor st c) (point st c)"
  by (simp add: spin_inv_def)

lemma inv_owner: "spin_inv st \<Longrightarrow> owns st c \<Longrightarrow> owner st = {c}"
  using mem_owner [of c st] by (auto simp: spin_inv_def owner_ok_def split: if_splits)

lemma inv_free: "spin_inv st \<Longrightarrow> spin_word st \<noteq> LOCKED \<Longrightarrow> owner st = {}"
  by (simp add: spin_inv_def owner_ok_def)

lemma owner_take: "owner st = {} \<Longrightarrow> holding p \<Longrightarrow> owner (goto c p st) = {c}"
  by (auto simp: owner_def owns_def goto_def)

lemma owner_give: "owner st = {c} \<Longrightarrow> \<not> holding p \<Longrightarrow> owner (goto c p st) = {}"
  by (auto simp: owner_def owns_def goto_def)

text \<open>Every step keeps the invariant; seen from outside it leaves the owner as it is, takes the lock while nobody has it,
  or gives it up.\<close>

lemma acquire_step_ok:
  assumes i: "spin_inv st" and "acquire_step c st st'"
  shows "spin_inv st' \<and> (owner st' = owner st \<or> owner st = {} \<and> owner st' = {c})"
  using assms(2)
proof (rule acquire_stepE)
  assume *: "st' = goto c (Compare (spin_word st)) (st\<lparr>monitor := (monitor st)(c := True)\<rparr>)" "point st c = Loop1"
  have "spin_inv (st\<lparr>monitor := (monitor st)(c := True)\<rparr>)" by (rule inv_monitor [OF i]) (simp add: *)
  then have "spin_inv st'" unfolding * by (rule inv_goto) (simp_all add: owns_def *)
  moreover have "owner st' = owner (st\<lparr>monitor := (monitor st)(c := True)\<rparr>)"
    unfolding * by (rule owner_goto) (simp add: owns_def *)
  ultimately show ?thesis by (simp add: owner_def owns_def)
next
  assume *: "st' = goto c (Check 0) (store_lock LOCKED st)" "point st c = StoreEx" "monitor st c"
  then have "owner st = {}" using inv_point [OF i, of c] by (intro inv_free [OF i]) simp
  then have o: "owner (goto c (Check 0) st) = {c}" by (rule owner_take) simp
  then have "spin_inv st'" unfolding * by (intro inv_store [OF i]) (simp_all add: owner_ok_def)
  then show ?thesis using \<open>owner st = {}\<close> o by (simp add: * owner_store)
qed (use i inv_point [OF i, of c] in \<open>auto simp: owns_def owner_goto intro!: inv_goto\<close>)

lemma release_step_ok:
  assumes i: "spin_inv st" and "release_step c st st'"
  shows "spin_inv st' \<and> (owner st' = owner st \<or> owner st = {c} \<and> owner st' = {})"
  using assms(2)
proof (rule release_stepE)
  assume *: "st' = goto c Free (store_lock UNLOCKED st)" "point st c = Unlock"
  then have "owner st = {c}" by (intro inv_owner [OF i]) (simp add: owns_def)
  then have o: "owner (goto c Free st) = {}" by (rule owner_give) simp
  then have "spin_inv st'" unfolding * by (intro inv_store [OF i]) (simp_all add: owner_ok_def LOCKED_def UNLOCKED_def)
  then show ?thesis using \<open>owner st = {c}\<close> o by (simp add: * owner_store)
qed (use i in \<open>auto simp: owns_def owner_goto intro!: inv_goto\<close>)

lemma spin_reach_inv: "spin_reach st \<Longrightarrow> spin_inv st"
proof (induction rule: spin_reach.induct)
  case init
  show ?case by (simp add: spin_inv_def owner_ok_def spin_init_def owner_def owns_def LOCKED_def UNLOCKED_def)
next
  case (lost st c)
  then show ?case by (blast intro: inv_monitor inv_point point_ok_no_monitor)
qed (blast dest: acquire_step_ok release_step_ok)+

text \<open>C19. In every interleaving of the CPUs, with exclusive stores that fail at any time, at most one of them owns the lock, the word says
  LOCKED exactly while one does, and every step of \<open>spin_lock_acquire\<close> is the atomic acquisition of a lock that nobody has, or changes
  nothing that another CPU sees of it; so is a step of the release.\<close>

theorem spin_lock_mutual_exclusion:
  assumes "spin_reach st"
  shows "(owns st c \<and> owns st d \<longrightarrow> c = d) \<and> (spin_word st = LOCKED \<longleftrightarrow> (\<exists>e. owns st e))
    \<and> (acquire_step c st st' \<longrightarrow> owner st' = owner st \<or> owner st = {} \<and> owner st' = {c})
    \<and> (release_step c st st' \<longrightarrow> owner st' = owner st \<or> owner st = {c} \<and> owner st' = {})"
proof -
  have i: "spin_inv st" using assms by (rule spin_reach_inv)
  have "owns st c \<and> owns st d \<longrightarrow> c = d" using inv_owner [OF i] mem_owner by blast
  moreover have "spin_word st = LOCKED \<longleftrightarrow> (\<exists>e. owns st e)" using i mem_owner [of _ st] by (auto simp: spin_inv_def owner_ok_def split: if_splits)
  ultimately show ?thesis using acquire_step_ok [OF i] release_step_ok [OF i] by blast
qed

lemma spin_reach_lock: "spin_reach (goto 0 (Check 0) (store_lock LOCKED (goto 0 StoreEx (goto 0 (Compare UNLOCKED)
    ((goto 0 Loop1 spin_init)\<lparr>monitor := (\<lambda>_. False)(0 := True)\<rparr>)))))" (is "spin_reach ?s5")
proof -
  let ?s1 = "goto 0 Loop1 spin_init"
  let ?s3 = "goto 0 (Compare UNLOCKED) (?s1\<lparr>monitor := (\<lambda>_. False)(0 := True)\<rparr>)"
  have "spin_reach ?s1" by (rule spin_reach.acquire [OF spin_reach.init], rule acquire_step.call) (simp add: spin_init_def)
  moreover have "acquire_step 0 ?s1 ?s3"
    using acquire_step.ldrex [of ?s1 0] by (simp add: spin_init_def goto_def)
  moreover have "acquire_step 0 ?s3 (goto 0 StoreEx ?s3)"
    by (rule acquire_step.unlocked [where v = UNLOCKED]) (simp_all add: goto_def UNLOCKED_def LOCKED_def)
  moreover have "acquire_step 0 (goto 0 StoreEx ?s3) ?s5"
    by (rule acquire_step.strex) (simp_all add: goto_def)
  ultimately show ?thesis by (blast intro: spin_reach.acquire)
qed

theorem spin_lock_mutual_exclusion_witness:
  "\<exists>st. spin_reach st \<and> owns st 0 \<and> \<not> owns st 1 \<and> spin_word st = LOCKED"
  using spin_lock_mutual_exclusion [OF spin_reach_lock, of 0 1] spin_reach_lock
  by (intro exI [of _ "goto 0 (Check 0) (store_lock LOCKED (goto 0 StoreEx (goto 0 (Compare UNLOCKED)
    ((goto 0 Loop1 spin_init)\<lparr>monitor := (\<lambda>_. False)(0 := True)\<rparr>))))"]) (auto simp: owns_def goto_def)

end
