(* ===== verification/Spec2Isabelle.thy ===== *)
theory Spec2Isabelle
  imports FramePool RbIter AppRun Gic Uart Dma Odev Tick Boot Context SpinLock
begin

text \<open>
  The SLOS kernel. SLOS is a small kernel for the two Cortex-A9 of a Zynq-7000 and for a Cortex-A53: demand-paged
  kernel memory, a fair scheduler and a tree of timers on one red-black tree, a work queue, a flash file system over a
  ramdisk, mailboxes between the CPUs, an ELF loader and a few device drivers. This library models its C code
  (src/kernel, and the host tool src/mkfs) component by component. Each theory holds the state of a component as a
  record, its operations under the names of the C functions, the invariant of the state, and the lemmas on every
  operation; the properties that span components are in Tick, TaskStart, Boot, FsPersist and AppRun.

  Conventions. A C integer is a word of its width, so sums and differences wrap around. A C structure is a record. Memory
  is read through a map per kind of object, indexed by address; an object embedded in another has the address the
  layout of the structure gives it, so \<open>container_of\<close> is a subtraction and NULL is the address 0. A device is a map from
  register addresses to words, or, where the code polls, a sequence of the values its reads give. A function returns
  its result and the new state. The error codes of inc/error.h are the datatype \<open>ret\<close>, with the missing signs of the code
  kept. \<open>None\<close> is the end of what C defines for the code or of what a CPU can do: an access through NULL or behind an
  object, a spin lock that is already held on the same CPU, a handler that loops for ever, a loop that does not end.
  Loops over memory that may be cyclic are \<open>partial_function (option)\<close>, and the lemmas on them prove that a
  value is returned; counted loops are the \<open>for_upto\<close> of Prelude, with closed forms in \<open>loop_simps\<close>. Local variables
  that the code reads before it sets them, addresses the linker chooses, values of the generated device tree header,
  and what the compiler puts behind an object are parameters of the definitions.
\<close>

section \<open>The theories\<close>

text \<open>
  Memory.
  Prelude: machine types, counted loops, bit lemmas.
  FramePool (core/frame_pool.c): the bitmap of page frames. \<open>frames\<close> reads it as a set; every operation is the set
  operation; \<open>get_frame\<close> is first fit; locale \<open>frame_allocator\<close> is what the users of a pool rely on; \<open>pool_run\<close> is the run of
  allocations and releases from the boot, whatever the memory of the pool held before.
  PageTable (core/page_table.c): \<open>walk\<close> is the two-level translation of the hardware on the tables in memory;
  \<open>handle_fault\<close> maps exactly the page that faulted, \<open>free_page\<close> takes it back.
  VmPool (core/vm_pool.c): the chain of region descriptors at the start of the heap. The bump pointer behaves like a
  stack: releases in the reverse order restore the pool, another order makes regions overlap.
  Mm (core/mm.c): the boot page tables (\<open>init_pgt\<close>), \<open>init_kernmem\<close>, \<open>kmalloc\<close> and \<open>kfree\<close>, \<open>malloc\<close> and \<open>free\<close> of libs/lib.c.
  Faults (core/faults.c): the exception handlers; the data abort handler reaches \<open>handle_fault\<close>.

  Red-black trees.
  RbHeap (core/rbtree.c, inc/rbtree.h, inc/rbtree_augmented.h): the pointer code, with parent and colour in one word.
  RbTree: trees of addresses, a zipper for a position in them, and \<open>rb_at\<close>, which says that memory holds the tree at the
  position. RbInsert, RbErase: the loops as functions on the zipper, the proof that the pointer code computes them, and
  that the result is a red-black tree with the expected in-order sequence. RbIter: the iteration functions.
  RbQueue: the cached queue that run queue and timer tree share; locale \<open>ordered_queue\<close> is its contract.

  Processes.
  KState (inc/sched.h, runq.h, waitq.h, ktimer.h, task.h, core/percpu.c): the record \<open>cpu\<close>, one CPU's tasks, entities, lists,
  trees, locks and per-CPU variables, over the heap of Mm.
  WaitQ (core/waitq.c): a list linked through the tasks; \<open>wq_holds\<close> reads it as a list of addresses.
  RunQ (core/runq.c): the run queue, an interpretation of \<open>ordered_queue\<close> with the virtual runtime as the key;
  \<open>sched_inv\<close> is the invariant of both queues, kept by sleeping, waking and exiting.
  KTimer (core/ktimer.c): the timer tree, the other interpretation, keyed by the remaining ticks.
  Sched (core/sched.c): \<open>forkyi\<close>, \<open>schedule\<close>, \<open>yield\<close>, the ring of tasks (\<open>task_ring\<close>). Timer (core/timer.c): the timer
  device, its interrupt, delays. Tick: the interrupt of the scheduler's timer as a whole. Task (core/task.c): the tasks, the work queue (a list of at most 31
  items), the shell. TaskStart: \<open>sys_inv\<close>, all the invariants
  over one heap, and task creation. Context (arch/ca-9/ops.S, vector.S): the registers and the assembly that saves, switches
  and restores them, and the exit of the interrupt handler by the instruction, with a second interrupt on its way. SpinLock (arch/ca-9/ops.S): the spin lock, instruction by instruction. Mailbox (core/mailbox.c, core/sgi.c): the two CPUs as a step relation, one
  access to shared memory a step, with an invariant over all interleavings.

  Files.
  Ramdisk (drivers/ramdisk/ramdisk_io.c): locale \<open>flash\<close> is the contract of the table \<open>io_ops\<close>, interpreted on the driver.
  Slfs (fs/slfs/slfs.c): every operation of the file system. SlfsDisk: the device as a function on bytes. SlfsRw: a file written is
  read back, nothing else on the device changes. SlfsOpen: finding a file by name. SlfsMount: page writes and the mount.
  Fs (fs/fs.c, inc/fs.h): the file layer over SLFS and littlefs. FsPersist: open, write, close, open, read of a new file on
  a mounted device. Mkfs (src/mkfs/mkfs.cpp): the
  tool that packs the applications, and the kernel that unpacks them. Loader (core/loader.c, inc/elf.h): loading an
  application; locale \<open>app_file\<close> is what the loader needs of a file system, interpreted on SLFS through Fs. AppRun: what the symbol
  table of a file says about \<open>main\<close>, and an application on its way from the host tool to its entry point.

  Devices and library.
  Lib (libs/lib.c): strings, memory, division. Printk (core/printk.c): formatted output. Gic (arch/ca-9/gic_v1.c,
  arch/ca-53/gic_v2.c; its enable registers set and clear single interrupts), Uart (drivers/uart/uart.c), Dma (drivers/dma/dma.c), Odev (drivers/odev/odev.c).
  Boot (core/main.c): the start of both machines up to their idle loops, over the models of all components it initialises.
\<close>

section \<open>How the parts work together\<close>

text \<open>
  An object is created with \<open>kmalloc\<close>, which only advances the bump pointer of VmPool; the first access to its page
  faults, and the handlers of Faults and PageTable map a frame of FramePool. The page of a kernel
  object is its own, which is why the objects embedded in different tasks never overlap (Mm, and \<open>sys_inv\<close> of TaskStart).
  The timer interrupt (Gic, Timer) counts the timers of the tree down, runs the handler of the expired one and
  re-orders the tree; for the scheduler's timer the handler charges the running task, repairs the leftmost position of the
  run queue and switches (Tick); for a one-shot timer it wakes the sleeping task (Timer).
  A file goes through Fs and Slfs to the ramdisk, and comes back after a close and an open by name (FsPersist), as long as inode 5
  is free: the code counts the blocks of a file on into a word of that inode (\<open>file_room\<close>). An
  application packed by the host tool is unpacked into files (Mkfs), loaded and started by the shell (Loader), at the
  entry point its symbol table gives (AppRun).
  Boot shows that the start of the kernel establishes the invariants the other theories keep.
\<close>

section \<open>Bounds\<close>

text \<open>
  No definition takes fuel. The bounds in the statements are those of the code: 256 region descriptors in the first page of
  the heap (after it the descriptors would run into the first region), 16 tasks a CPU, 32 slots of the
  work queue, 32 inodes and 8184 data blocks of 504 bytes in SLFS, a ramdisk of 4 MiB, and virtual runtimes
  and ticks of 32 bits. A property of an operation that can run out of one of them either covers the case (an error value, or an item
  that overwrites another) or has the room as a hypothesis, with a witness.
\<close>

section \<open>Not modelled\<close>

text \<open>
  Assembly: of the vectors and operations of the Cortex-A9, Context and SpinLock model the interrupt, the data abort, the system
  call, the context switches and the spin lock. In the other theories a context switch is recorded as the pair of tasks it
  is called with, an acquisition of a lock is one atomic step, and a vector calls its handler. The reset code, barriers, and
  the vectors of the Cortex-A53 are left out. The record of a task in KState has only the words of its context that \<open>forkyi\<close>
  writes; \<open>ct_image\<close> of Context relates the two.
  Boot assembly, linker scripts, caches and the TLB: they have no effect on the states modelled here; the C code reads no
  memory whose cached and uncached contents it distinguishes.
  The macros for volatile accesses and per-CPU variables (inc/regops.h, inc/percpu.h) are updates of the maps and the choice of a state.
  littlefs is a submodule: its functions are the fields of \<open>lfs_api\<close>, a parameter. The generated header of the
  device tree is a parameter too.
  The example applications and libslos, the hardware descriptions of the FPGA with their generated self tests, device trees, scripts
  and documents hold no code of the kernel.
  Page faults are taken in the models of PageTable and Faults; the other components see the heap as mapped memory. The kernel
  heap is that of one CPU at a time: the code of the second CPU uses the same pool without a lock, which is not
  explored. Kernel memory, device registers, the ramdisk and the applications' memory are separate maps; that their address
  ranges do not meet is the memory map of inc/mem_layout.h.
\<close>

end
